(* ===== verification/Jm_Prelude.thy ===== *)
theory Jm_Prelude
  imports Main "HOL-Library.Word" "HOL-Library.Code_Target_Nat"
begin

text \<open>
  The shared vocabulary of the development: the Python exceptions the modelled functions raise, the
  result type \<open>pyerr + 'a\<close> with its sequencing operator, and the generic facts about lists and
  results that the component theories use.

  A Python function that may raise is a function into \<open>'a res\<close>: \<open>Inl e\<close> is the exception,
  \<open>Inr x\<close> the returned value. An exception carries the fixed text of its message where two
  exceptions of the same class have to be told apart; the values that an f-string would interpolate
  are left out.
\<close>

named_theorems res_simps \<open>rewrite rules of the result type\<close>

section \<open>Exceptions and results\<close>

datatype pyerr =
    ValueError string
  | TypeError string
  | IndexError
  | KeyError
  | ZeroDivisionError
  | StructError
  | OverflowError
  | InvalidOperation
  | RuntimeError string
  | AttributeError
  | AssertionError

type_synonym 'a res = "pyerr + 'a"

definition bind_res :: "'e + 'a \<Rightarrow> ('a \<Rightarrow> 'e + 'b) \<Rightarrow> 'e + 'b" where
  "bind_res m f = (case m of Inl e \<Rightarrow> Inl e | Inr x \<Rightarrow> f x)"

definition guard_res :: "bool \<Rightarrow> 'e \<Rightarrow> 'e + unit" where
  "guard_res b e = (if b then Inr () else Inl e)"

definition map_res :: "('a \<Rightarrow> 'b) \<Rightarrow> 'e + 'a \<Rightarrow> 'e + 'b" where
  "map_res f m = bind_res m (\<lambda>x. Inr (f x))"

lemma bind_res_simps [simp, res_simps]:
  "bind_res (Inl e) f = Inl e"
  "bind_res (Inr x) f = f x"
  by (simp_all add: bind_res_def)

lemma bind_res_cong [fundef_cong]:
  "m = m' \<Longrightarrow> (\<And>x. m' = Inr x \<Longrightarrow> f x = f' x) \<Longrightarrow> bind_res m f = bind_res m' f'"
  by (cases m') (auto simp: bind_res_def)

lemma bind_res_Inr_iff [res_simps]:
  "bind_res m f = Inr y \<longleftrightarrow> (\<exists>x. m = Inr x \<and> f x = Inr y)"
  by (cases m) auto

lemma bind_res_Inl_iff [res_simps]:
  "bind_res m f = Inl e \<longleftrightarrow> m = Inl e \<or> (\<exists>x. m = Inr x \<and> f x = Inl e)"
  by (cases m) auto

lemma bind_res_assoc: "bind_res (bind_res m f) g = bind_res m (\<lambda>x. bind_res (f x) g)"
  by (cases m) auto

lemma guard_res_simps [simp, res_simps]:
  "guard_res True e = Inr ()"
  "guard_res False e = Inl e"
  by (simp_all add: guard_res_def)

lemma guard_res_Inr_iff [simp]: "guard_res b e = Inr u \<longleftrightarrow> b"
  by (simp add: guard_res_def)

lemma guard_res_Inl_iff [simp]: "guard_res b e = Inl e' \<longleftrightarrow> \<not> b \<and> e' = e"
  by (auto simp: guard_res_def)

lemma map_res_simps [simp, res_simps]:
  "map_res f (Inl e) = Inl e"
  "map_res f (Inr x) = Inr (f x)"
  by (simp_all add: map_res_def)

lemma map_res_Inr_iff [res_simps]: "map_res f m = Inr y \<longleftrightarrow> (\<exists>x. m = Inr x \<and> y = f x)"
  by (cases m) auto

text \<open>A \<open>for\<close> loop or a comprehension whose body may raise: the first exception ends it.\<close>

fun mapM_res :: "('a \<Rightarrow> 'e + 'b) \<Rightarrow> 'a list \<Rightarrow> 'e + 'b list" where
  "mapM_res f [] = Inr []"
| "mapM_res f (x # xs) = bind_res (f x) (\<lambda>y. bind_res (mapM_res f xs) (\<lambda>ys. Inr (y # ys)))"

lemma mapM_res_cong [fundef_cong]:
  "xs = ys \<Longrightarrow> (\<And>x. x \<in> set ys \<Longrightarrow> f x = g x) \<Longrightarrow> mapM_res f xs = mapM_res g ys"
proof (induction ys arbitrary: xs)
  case Nil
  then show ?case by simp
next
  case (Cons y ys)
  then have "mapM_res f ys = mapM_res g ys" by simp
  with Cons.prems show ?case by simp
qed

lemma mapM_res_all_Inr: "(\<And>x. x \<in> set xs \<Longrightarrow> f x = Inr (g x)) \<Longrightarrow> mapM_res f xs = Inr (map g xs)"
  by (induction xs) auto

lemma mapM_res_Inr_iff:
  "mapM_res f xs = Inr ys \<longleftrightarrow> list_all2 (\<lambda>x y. f x = Inr y) xs ys"
proof (induction xs arbitrary: ys)
  case Nil
  then show ?case by auto
next
  case (Cons x xs)
  then show ?case
    by (cases ys) (auto simp: bind_res_Inr_iff list_all2_Cons1)
qed

lemma mapM_res_append:
  "mapM_res f xs = Inr a \<Longrightarrow> mapM_res f ys = Inr b \<Longrightarrow> mapM_res f (xs @ ys) = Inr (a @ b)"
  by (simp add: mapM_res_Inr_iff list_all2_appendI)

lemma mapM_res_map: "mapM_res f (map g xs) = mapM_res (\<lambda>x. f (g x)) xs"
  by (induction xs) simp_all

lemma isl_mapM_res: "isl (mapM_res f xs) \<longleftrightarrow> (\<exists>x \<in> set xs. isl (f x))"
proof (induction xs)
  case (Cons x xs)
  then show ?case by (cases "f x"; cases "mapM_res f xs") auto
qed simp

lemma mapM_res_length: "mapM_res f xs = Inr ys \<Longrightarrow> length ys = length xs"
  by (auto simp: mapM_res_Inr_iff dest: list_all2_lengthD)

section \<open>Lists\<close>

lemma take_drop_append3:
  "take (length b) (drop (length a) (a @ b @ c)) = b"
  by simp

lemma nth_append_here [simp]: "(a @ x # b) ! length a = x"
  by simp

lemma sum_list_nonneg_int: "(\<And>x. x \<in> set xs \<Longrightarrow> 0 \<le> f x) \<Longrightarrow> 0 \<le> sum_list (map f xs)"
  for f :: "'a \<Rightarrow> int"
  by (induction xs) auto

text \<open>A run of guards \<open>if c: raise ValueError(msg)\<close>: the first condition that holds raises.\<close>

fun raise_if :: "(bool \<times> string) list \<Rightarrow> unit res" where
  "raise_if [] = Inr ()"
| "raise_if ((c, msg) # cs) = (if c then Inl (ValueError msg) else raise_if cs)"

lemma raise_if_Inr [simp, res_simps]: "raise_if cs = Inr u \<longleftrightarrow> list_all (\<lambda>c. \<not> fst c) cs"
  by (induction cs) (auto split: if_splits)

lemma raise_if_Inl: "raise_if cs = Inl e \<Longrightarrow> \<exists>msg. e = ValueError msg \<and> (True, msg) \<in> set cs"
  by (induction cs) (auto split: if_splits)

text \<open>Checks in sequence: the first that raises ends them.\<close>

fun all_res :: "unit res list \<Rightarrow> unit res" where
  "all_res [] = Inr ()"
| "all_res (c # cs) = bind_res c (\<lambda>_. all_res cs)"

lemma all_res_Inr [simp]: "all_res cs = Inr u \<longleftrightarrow> list_all (\<lambda>c. c = Inr ()) cs"
  by (induction cs) (auto simp: bind_res_Inr_iff)

end
