(* ===== verification/Py_Bytes.thy ===== *)
theory Py_Bytes
  imports Jm_Prelude
begin

text \<open>
  Python \<open>bytes\<close> and the parts of \<open>struct\<close>, \<open>int.from_bytes\<close>, \<open>bytes.hex\<close> and
  \<open>bytes.fromhex\<close> that the code uses. A byte string is a list of 8-bit words. The little-endian
  formats \<open>"<H"\<close>, \<open>"<I"\<close>, \<open>"<Q"\<close> are \<open>pack_u 2\<close>, \<open>pack_u 4\<close>, \<open>pack_u 8\<close>; a value
  outside the range of the format raises \<open>struct.error\<close>.

  The locale \<open>codec\<close> is the contract between a serialiser and a parser that works on a buffer and
  an offset, the shape every parser of \<open>jmcore.bitcoin\<close> has. Its client lemma is the loop that
  reads a counted sequence; the interpretations are in the theories of the formats.
\<close>

type_synonym byte = "8 word"
type_synonym bytes = "byte list"

section \<open>Little-endian integers\<close>

primrec le_bytes :: "nat \<Rightarrow> nat \<Rightarrow> bytes" where
  "le_bytes 0 n = []"
| "le_bytes (Suc k) n = word_of_nat (n mod 256) # le_bytes k (n div 256)"

primrec le_nat :: "bytes \<Rightarrow> nat" where
  "le_nat [] = 0"
| "le_nat (b # bs) = unat b + 256 * le_nat bs"

lemma byte_less_256: "unat (b :: byte) < 256"
  using unsigned_less [of b, where ?'a = nat] by simp

lemma length_le_bytes [simp]: "length (le_bytes k n) = k"
  by (induction k arbitrary: n) auto

lemma unat_word_of_nat_mod256 [simp]: "unat (word_of_nat (n mod 256) :: byte) = n mod 256"
  by (simp add: unat_of_nat)

lemma le_nat_le_bytes [simp]: "n < 256 ^ k \<Longrightarrow> le_nat (le_bytes k n) = n"
proof (induction k arbitrary: n)
  case 0
  then show ?case by simp
next
  case (Suc k)
  from Suc.prems have "n div 256 < 256 ^ k"
    by (simp add: less_mult_imp_div_less mult.commute)
  with Suc.IH show ?case by simp
qed

lemma le_nat_bound: "le_nat bs < 256 ^ length bs"
proof (induction bs)
  case Nil
  then show ?case by simp
next
  case (Cons b bs)
  then have "le_nat bs + 1 \<le> 256 ^ length bs" by simp
  then have "256 * (le_nat bs + 1) \<le> 256 * 256 ^ length bs" by (rule mult_le_mono2)
  with byte_less_256 [of b] show ?case by simp
qed

lemma le_bytes_le_nat: "le_bytes (length bs) (le_nat bs) = bs"
proof (induction bs)
  case Nil
  then show ?case by simp
next
  case (Cons b bs)
  with byte_less_256 [of b] show ?case by simp
qed

definition pack_u :: "nat \<Rightarrow> int \<Rightarrow> bytes res" where
  "pack_u k n = (if 0 \<le> n \<and> n < 256 ^ k then Inr (le_bytes k (nat n)) else Inl StructError)"

definition unpack_u :: "bytes \<Rightarrow> int" where
  "unpack_u bs = int (le_nat bs)"

text \<open>\<open>struct.unpack("<q", _)\<close>: the eight bytes read as two's complement.\<close>

definition unpack_q :: "bytes \<Rightarrow> int" where
  "unpack_q bs = (let n = int (le_nat bs) in if n \<ge> 2 ^ 63 then n - 2 ^ 64 else n)"

text \<open>\<open>bytes([n])\<close>\<close>

definition byte1 :: "int \<Rightarrow> bytes res" where
  "byte1 n = (if 0 \<le> n \<and> n < 256 then Inr [word_of_int n]
              else Inl (ValueError ''bytes must be in range(0, 256)''))"

lemma nat_less_256_power: "0 \<le> n \<Longrightarrow> n < 256 ^ k \<Longrightarrow> nat n < 256 ^ k"
  by (simp add: nat_less_iff)

lemma pack_u_Inr_iff:
  "pack_u k n = Inr bs \<longleftrightarrow> 0 \<le> n \<and> n < 256 ^ k \<and> bs = le_bytes k (nat n)"
  by (auto simp: pack_u_def)

lemma pack_u_length: "pack_u k n = Inr bs \<Longrightarrow> length bs = k"
  by (auto simp: pack_u_Inr_iff)

lemma unpack_pack_u: "pack_u k n = Inr bs \<Longrightarrow> unpack_u bs = n"
  by (auto simp: pack_u_Inr_iff unpack_u_def nat_less_256_power)

lemma unpack_q_pack_u: "pack_u 8 n = Inr bs \<Longrightarrow> n < 2 ^ 63 \<Longrightarrow> unpack_q bs = n"
  by (auto simp: pack_u_Inr_iff unpack_q_def nat_less_iff)

lemma unpack_u_bounds: "0 \<le> unpack_u bs \<and> unpack_u bs < 256 ^ length bs"
proof -
  have "int (le_nat bs) < int (256 ^ length bs)"
    using le_nat_bound [of bs] by (simp only: of_nat_less_iff)
  then show ?thesis by (simp add: unpack_u_def)
qed

section \<open>Slices\<close>

definition slice :: "'a list \<Rightarrow> nat \<Rightarrow> nat \<Rightarrow> 'a list" where
  "slice xs i j = take (j - i) (drop i xs)"

lemma slice_middle [simp]:
  "slice (a @ b @ c) (length a) (length a + length b) = b"
  by (simp add: slice_def)

lemma slice_at:
  "i = length a \<Longrightarrow> j = length a + length b \<Longrightarrow> slice (a @ b @ c) i j = b"
  by simp

lemma length_slice [simp]: "length (slice xs i j) = min (j - i) (length xs - i)"
  by (simp add: slice_def)

section \<open>Hexadecimal text\<close>

definition hex_digit :: "nat \<Rightarrow> char" where
  "hex_digit n = (if n < 10 then char_of (48 + n) else char_of (87 + n))"

definition hex_val :: "char \<Rightarrow> nat option" where
  "hex_val c = (let n = (of_char c :: nat) in
     if 48 \<le> n \<and> n \<le> 57 then Some (n - 48)
     else if 97 \<le> n \<and> n \<le> 102 then Some (n - 87)
     else if 65 \<le> n \<and> n \<le> 70 then Some (n - 55)
     else None)"

definition hex_of_byte :: "byte \<Rightarrow> string" where
  "hex_of_byte b = [hex_digit (unat b div 16), hex_digit (unat b mod 16)]"

definition bytes_hex :: "bytes \<Rightarrow> string" where
  "bytes_hex bs = concat (map hex_of_byte bs)"

text \<open>ASCII whitespace, which \<open>bytes.fromhex\<close> skips between bytes.\<close>

definition py_space :: "char \<Rightarrow> bool" where
  "py_space c = (let n = (of_char c :: nat) in n = 32 \<or> (9 \<le> n \<and> n \<le> 13))"

fun fromhex :: "string \<Rightarrow> bytes res" where
  "fromhex [] = Inr []"
| "fromhex (c # cs) =
     (if py_space c then fromhex cs
      else case (hex_val c, cs) of
             (Some h, d # ds) \<Rightarrow>
               (case hex_val d of
                  Some l \<Rightarrow> bind_res (fromhex ds) (\<lambda>bs. Inr (word_of_nat (16 * h + l) # bs))
                | None \<Rightarrow> Inl (ValueError ''non-hexadecimal number found in fromhex() arg''))
           | _ \<Rightarrow> Inl (ValueError ''non-hexadecimal number found in fromhex() arg''))"

lemma hex_val_digit [simp]: "n < 16 \<Longrightarrow> hex_val (hex_digit n) = Some n"
  by (auto simp: hex_val_def hex_digit_def)

lemma py_space_hex_digit [simp]: "n < 16 \<Longrightarrow> \<not> py_space (hex_digit n)"
  by (auto simp: py_space_def hex_digit_def)

lemma fromhex_hex_append: "fromhex (bytes_hex bs @ cs) = bind_res (fromhex cs) (\<lambda>r. Inr (bs @ r))"
proof (induction bs)
  case Nil
  then show ?case by (simp add: bytes_hex_def) (cases "fromhex cs"; simp)
next
  case (Cons b bs)
  have lt: "unat b < 256" by (rule byte_less_256)
  have b: "word_of_nat (16 * (unat b div 16) + unat b mod 16) = b"
    by simp
  have hi: "unat b div 16 < 16" and lo: "unat b mod 16 < 16" using lt by (auto simp: less_mult_imp_div_less)
  show ?case using Cons.IH hi lo b
    by (cases "fromhex cs") (simp_all add: bytes_hex_def hex_of_byte_def)
qed

lemma fromhex_hex [simp]: "fromhex (bytes_hex bs) = Inr bs"
  using fromhex_hex_append [of bs "[]"] by simp

section \<open>Serialisers and parsers\<close>

text \<open>
  \<open>enc\<close> serialises a value, \<open>dec\<close> reads a value at an offset and returns the offset after it.
  The parser need not return the whole value: \<open>view\<close> says what of it the bytes carry. \<open>ok\<close> is the
  range in which the parser accepts what the serialiser writes.
\<close>

fun dec_many :: "(bytes \<Rightarrow> nat \<Rightarrow> ('b \<times> nat) res) \<Rightarrow> nat \<Rightarrow> bytes \<Rightarrow> nat \<Rightarrow> ('b list \<times> nat) res" where
  "dec_many dec 0 data off = Inr ([], off)"
| "dec_many dec (Suc n) data off =
     bind_res (dec data off) (\<lambda>(x, off1).
     bind_res (dec_many dec n data off1) (\<lambda>(xs, off2). Inr (x # xs, off2)))"

definition enc_many :: "('a \<Rightarrow> bytes res) \<Rightarrow> 'a list \<Rightarrow> bytes res" where
  "enc_many enc xs = bind_res (mapM_res enc xs) (\<lambda>bss. Inr (concat bss))"

lemma enc_many_Nil [simp]: "enc_many enc [] = Inr []"
  by (simp add: enc_many_def)

lemma enc_many_Cons_iff:
  "enc_many enc (x # xs) = Inr bs \<longleftrightarrow>
     (\<exists>b bs'. enc x = Inr b \<and> enc_many enc xs = Inr bs' \<and> bs = b @ bs')"
  by (auto simp: enc_many_def bind_res_Inr_iff)

locale codec =
  fixes enc :: "'a \<Rightarrow> bytes res"
    and dec :: "bytes \<Rightarrow> nat \<Rightarrow> ('b \<times> nat) res"
    and view :: "'a \<Rightarrow> 'b"
    and ok :: "'a \<Rightarrow> bool"
  assumes dec_enc: "enc x = Inr bs \<Longrightarrow> ok x \<Longrightarrow>
    dec (pre @ bs @ post) (length pre) = Inr (view x, length pre + length bs)"
begin

lemma dec_many_enc_many:
  "enc_many enc xs = Inr bs \<Longrightarrow> list_all ok xs \<Longrightarrow>
   dec_many dec (length xs) (pre @ bs @ post) (length pre)
     = Inr (map view xs, length pre + length bs)"
proof (induction xs arbitrary: bs pre)
  case Nil
  then show ?case by simp
next
  case (Cons x xs)
  from Cons.prems(1) obtain b bs'
    where e: "enc x = Inr b" "enc_many enc xs = Inr bs'" and bs: "bs = b @ bs'"
    by (auto simp: enc_many_Cons_iff)
  have "dec (pre @ b @ (bs' @ post)) (length pre) = Inr (view x, length pre + length b)"
    using Cons.prems e by (intro dec_enc) auto
  moreover have "dec_many dec (length xs) ((pre @ b) @ bs' @ post) (length (pre @ b))
      = Inr (map view xs, length (pre @ b) + length bs')"
    using Cons.prems e by (intro Cons.IH) auto
  ultimately show ?case by (simp add: bs)
qed

lemma dec_enc_at:
  assumes "enc x = Inr bs" "ok x" "data = pre @ bs @ post" "off = length pre"
  shows "dec data off = Inr (view x, off + length bs)"
  using dec_enc assms by simp

lemma enc_inj:
  assumes "enc x = Inr bs" "enc y = Inr bs" "ok x" "ok y"
  shows "view x = view y"
  using dec_enc [of x bs "[]" "[]"] dec_enc [of y bs "[]" "[]"] assms by simp

end

end
