(* ===== verification/Btc_Tx.thy ===== *)
theory Btc_Tx
  imports Py_Bytes
begin

text \<open>
  The transaction format of \<open>jmcore/src/jmcore/bitcoin.py\<close>: the variable-length integers
  (\<open>encode_varint\<close>, \<open>decode_varint\<close>), the transaction data classes, the serialisers, the
  defensive parser \<open>parse_transaction_bytes\<close> and the virtual size of a signed transaction.

  The parser of the code walks a buffer with an offset; so does the model. Counts and offsets are
  natural numbers (the code never makes a negative one), every other integer is a Python integer.
\<close>

section \<open>Variable-length integers\<close>

definition encode_varint :: "int \<Rightarrow> bytes res" where
  "encode_varint n =
     (if n < 0xFD then byte1 n
      else if n \<le> 0xFFFF then bind_res (pack_u 2 n) (\<lambda>bs. Inr (0xFD # bs))
      else if n \<le> 0xFFFFFFFF then bind_res (pack_u 4 n) (\<lambda>bs. Inr (0xFE # bs))
      else bind_res (pack_u 8 n) (\<lambda>bs. Inr (0xFF # bs)))"

definition decode_varint :: "bytes \<Rightarrow> nat \<Rightarrow> (nat \<times> nat) res" where
  "decode_varint data offset =
     (if offset \<ge> length data then Inl (ValueError ''Truncated varint'')
      else let first = data ! offset in
        if unat first < 0xFD then Inr (unat first, offset + 1)
        else let payload_length = (if first = 0xFD then 2 else if first = 0xFE then 4 else 8);
                 end_offset = offset + 1 + payload_length in
          if end_offset > length data then Inl (ValueError ''Truncated varint'')
          else Inr (le_nat (slice data (offset + 1) end_offset), end_offset))"

lemma encode_varint_cases:
  assumes "encode_varint n = Inr bs"
  obtains (one) "0 \<le> n" "n < 0xFD" "bs = [word_of_int n]"
  | (many) k h where "k \<in> {2, 4, 8 :: nat}" "h = (if k = 2 then 0xFD else if k = 4 then 0xFE else 0xFF)"
      "0 \<le> n" "n < 256 ^ k" "bs = h # le_bytes k (nat n)"
proof (cases "n < 0xFD")
  case True
  with assms one show ?thesis by (auto simp: encode_varint_def byte1_def split: if_splits)
next
  case F1: False
  show ?thesis
  proof (cases "n \<le> 0xFFFF")
    case True
    with F1 assms show ?thesis
      by (intro many [of 2]) (auto simp: encode_varint_def bind_res_Inr_iff pack_u_Inr_iff)
  next
    case F2: False
    show ?thesis
    proof (cases "n \<le> 0xFFFFFFFF")
      case True
      with F1 F2 assms show ?thesis
        by (intro many [of 4]) (auto simp: encode_varint_def bind_res_Inr_iff pack_u_Inr_iff)
    next
      case False
      with F1 F2 assms show ?thesis
        by (intro many [of 8]) (auto simp: encode_varint_def bind_res_Inr_iff pack_u_Inr_iff)
    qed
  qed
qed

lemma encode_varint_nonneg: "encode_varint n = Inr bs \<Longrightarrow> 0 \<le> n \<and> n < 2 ^ 64"
  by (erule encode_varint_cases) auto

lemma encode_varint_defined: "0 \<le> n \<Longrightarrow> n < 2 ^ 64 \<Longrightarrow> \<exists>bs. encode_varint n = Inr bs"
  by (auto simp: encode_varint_def byte1_def pack_u_def)

lemma decode_varint_one: "unat b < 0xFD \<Longrightarrow> decode_varint (pre @ b # post) (length pre) = Inr (unat b, length pre + 1)"
  by (simp add: decode_varint_def)

lemma decode_varint_many:
  assumes "k \<in> {2, 4, 8 :: nat}" "h = (if k = 2 then 0xFD else if k = 4 then 0xFE else 0xFF)"
    "length bs = k"
  shows "decode_varint (pre @ (h # bs) @ post) (length pre) = Inr (le_nat bs, length pre + 1 + k)"
proof -
  have s: "slice ((pre @ [h]) @ bs @ post) (length (pre @ [h])) (length (pre @ [h]) + length bs) = bs"
    by (rule slice_middle)
  then have "slice (pre @ h # bs @ post) (Suc (length pre)) (Suc (length pre + length bs)) = bs"
    by simp
  with assms show ?thesis by (auto simp: decode_varint_def Let_def)
qed

lemma decode_encode_varint:
  assumes "encode_varint n = Inr bs"
  shows "decode_varint (pre @ bs @ post) (length pre) = Inr (nat n, length pre + length bs)"
  using assms
proof (cases rule: encode_varint_cases)
  case one
  have u: "unat (word_of_int n :: byte) = nat n"
    using one by (simp add: unsigned_of_int take_bit_int_eq_self)
  have "unat (word_of_int n :: byte) < 0xFD"
    unfolding u using one by simp
  with one u show ?thesis using decode_varint_one [of "word_of_int n" pre post] by simp
next
  case (many k h)
  have "nat n < 256 ^ k" using many by (intro nat_less_256_power)
  with many decode_varint_many [of k h "le_bytes k (nat n)" pre post] show ?thesis
    by simp
qed

interpretation varint: codec encode_varint decode_varint nat "\<lambda>_. True"
  by unfold_locales (rule decode_encode_varint)

lemma decode_varint_progress:
  "decode_varint data off = Inr (n, off') \<Longrightarrow> off < off' \<and> off' \<le> length data"
  by (auto simp: decode_varint_def Let_def split: if_splits)

lemma decode_varint_error: "decode_varint data off = Inl e \<Longrightarrow> e = ValueError ''Truncated varint''"
  by (auto simp: decode_varint_def Let_def split: if_splits)

section \<open>Transactions\<close>

definition MAX_MONEY :: int where
  "MAX_MONEY = 21000000 * 100000000"

record tx_input =
  ti_txid_le :: bytes
  ti_vout :: int
  ti_scriptsig :: bytes
  ti_sequence :: int
  ti_value :: int
  ti_scriptpubkey :: bytes

record tx_output =
  to_value :: int
  to_script :: bytes

record parsed_transaction =
  pt_version :: int
  pt_inputs :: "tx_input list"
  pt_outputs :: "tx_output list"
  pt_witnesses :: "bytes list list"
  pt_locktime :: int
  pt_has_witness :: bool

text \<open>\<open>TxInput.txid\<close>, \<open>TxInput.from_hex\<close> and \<open>TxOutput.from_hex\<close>: the big-endian hex of the
  interfaces against the little-endian bytes of the wire.\<close>

definition txin_txid :: "tx_input \<Rightarrow> string" where
  "txin_txid i = bytes_hex (rev (ti_txid_le i))"

definition txin_from_hex :: "string \<Rightarrow> int \<Rightarrow> string \<Rightarrow> int \<Rightarrow> int \<Rightarrow> string \<Rightarrow> tx_input res" where
  "txin_from_hex txid vout scriptsig sequence value scriptpubkey =
     bind_res (fromhex txid) (\<lambda>t.
     bind_res (if scriptsig \<noteq> [] then fromhex scriptsig else Inr []) (\<lambda>s.
     bind_res (if scriptpubkey \<noteq> [] then fromhex scriptpubkey else Inr []) (\<lambda>k.
       Inr \<lparr>ti_txid_le = rev t, ti_vout = vout, ti_scriptsig = s, ti_sequence = sequence,
            ti_value = value, ti_scriptpubkey = k\<rparr>)))"

definition txout_from_hex :: "string \<Rightarrow> int \<Rightarrow> tx_output res" where
  "txout_from_hex scriptpubkey value =
     bind_res (fromhex scriptpubkey) (\<lambda>s. Inr \<lparr>to_value = value, to_script = s\<rparr>)"

section \<open>Serialisation\<close>

definition serialize_outpoint :: "string \<Rightarrow> int \<Rightarrow> bytes res" where
  "serialize_outpoint txid vout =
     bind_res (fromhex txid) (\<lambda>t. bind_res (pack_u 4 vout) (\<lambda>v. Inr (rev t @ v)))"

text \<open>A byte string after its length, the form of every script and witness item.\<close>

definition enc_blob :: "bytes \<Rightarrow> bytes res" where
  "enc_blob b = bind_res (encode_varint (int (length b))) (\<lambda>l. Inr (l @ b))"

definition serialize_input :: "tx_input \<Rightarrow> bool \<Rightarrow> bytes res" where
  "serialize_input inp include_scriptsig =
     bind_res (pack_u 4 (ti_vout inp)) (\<lambda>v.
     bind_res (if include_scriptsig \<and> ti_scriptsig inp \<noteq> []
               then enc_blob (ti_scriptsig inp) else Inr [0x00]) (\<lambda>s.
     bind_res (pack_u 4 (ti_sequence inp)) (\<lambda>q.
       Inr (ti_txid_le inp @ v @ s @ q))))"

definition serialize_output :: "tx_output \<Rightarrow> bytes res" where
  "serialize_output out =
     bind_res (pack_u 8 (to_value out)) (\<lambda>v.
     bind_res (enc_blob (to_script out)) (\<lambda>s. Inr (v @ s)))"

definition enc_counted :: "('a \<Rightarrow> bytes res) \<Rightarrow> 'a list \<Rightarrow> bytes res" where
  "enc_counted enc xs =
     bind_res (encode_varint (int (length xs))) (\<lambda>n.
     bind_res (enc_many enc xs) (\<lambda>b. Inr (n @ b)))"

definition any_witness :: "bytes list list option \<Rightarrow> bool" where
  "any_witness witnesses = (case witnesses of None \<Rightarrow> False | Some ws \<Rightarrow> list_ex (\<lambda>w. w \<noteq> []) ws)"

definition serialize_transaction ::
  "int \<Rightarrow> tx_input list \<Rightarrow> tx_output list \<Rightarrow> int \<Rightarrow> bytes list list option \<Rightarrow> bytes res" where
  "serialize_transaction version inputs outputs locktime witnesses =
     (let has_witness = any_witness witnesses in
      bind_res (pack_u 4 version) (\<lambda>v.
      bind_res (enc_counted (\<lambda>i. serialize_input i True) inputs) (\<lambda>i.
      bind_res (enc_counted serialize_output outputs) (\<lambda>u.
      bind_res (if has_witness then enc_many (enc_counted enc_blob) (the witnesses) else Inr []) (\<lambda>w.
      bind_res (pack_u 4 locktime) (\<lambda>l.
        Inr (v @ (if has_witness then [0x00, 0x01] else []) @ i @ u @ w @ l)))))))"

section \<open>Parsing\<close>

definition parse_blob :: "string \<Rightarrow> bytes \<Rightarrow> nat \<Rightarrow> (bytes \<times> nat) res" where
  "parse_blob msg tx_bytes offset =
     bind_res (decode_varint tx_bytes offset) (\<lambda>(script_len, offset).
       if int script_len > int (length tx_bytes) - int offset then Inl (ValueError msg)
       else Inr (slice tx_bytes offset (offset + script_len), offset + script_len))"

definition parse_input :: "bytes \<Rightarrow> nat \<Rightarrow> (tx_input \<times> nat) res" where
  "parse_input tx_bytes offset =
     (if length tx_bytes < offset + 32 + 4 then Inl (ValueError ''Truncated transaction input'')
      else
        let txid_le = slice tx_bytes offset (offset + 32);
            vout = unpack_u (slice tx_bytes (offset + 32) (offset + 36)) in
        bind_res (parse_blob ''Truncated scriptSig'' tx_bytes (offset + 36)) (\<lambda>(scriptsig, offset).
          if length tx_bytes < offset + 4 then Inl (ValueError ''Truncated input sequence'')
          else Inr (\<lparr>ti_txid_le = txid_le, ti_vout = vout, ti_scriptsig = scriptsig,
                     ti_sequence = unpack_u (slice tx_bytes offset (offset + 4)),
                     ti_value = 0, ti_scriptpubkey = []\<rparr>, offset + 4)))"

definition parse_output :: "bytes \<Rightarrow> nat \<Rightarrow> (tx_output \<times> nat) res" where
  "parse_output tx_bytes offset =
     (if length tx_bytes < offset + 8 then Inl (ValueError ''Truncated transaction output value'')
      else
        let value = unpack_q (slice tx_bytes offset (offset + 8)) in
        if value < 0 \<or> value > MAX_MONEY then Inl (ValueError ''Output value outside valid range'')
        else bind_res (parse_blob ''Truncated scriptPubKey'' tx_bytes (offset + 8)) (\<lambda>(script, offset).
               Inr (\<lparr>to_value = value, to_script = script\<rparr>, offset)))"

definition parse_witness_stack :: "bytes \<Rightarrow> nat \<Rightarrow> (bytes list \<times> nat) res" where
  "parse_witness_stack tx_bytes offset =
     bind_res (decode_varint tx_bytes offset) (\<lambda>(wit_count, offset).
       if wit_count > 1000 then Inl (ValueError ''Too many witness stack items'')
       else dec_many (parse_blob ''Truncated witness item'') wit_count tx_bytes offset)"

definition parse_transaction_bytes :: "bytes \<Rightarrow> parsed_transaction res" where
  "parse_transaction_bytes tx_bytes =
     (if length tx_bytes < 4 then Inl (ValueError ''Truncated transaction: missing version'')
      else
        let version = unpack_u (slice tx_bytes 0 4);
            has_witness = (length tx_bytes \<ge> 4 + 2 \<and> tx_bytes ! 4 = 0x00 \<and> tx_bytes ! 5 = 0x01);
            offset = (if has_witness then 6 else 4) in
        bind_res (decode_varint tx_bytes offset) (\<lambda>(input_count, offset).
        if input_count > 10000 then Inl (ValueError ''Too many transaction inputs'') else
        bind_res (dec_many parse_input input_count tx_bytes offset) (\<lambda>(inputs, offset).
        bind_res (decode_varint tx_bytes offset) (\<lambda>(output_count, offset).
        if output_count > 10000 then Inl (ValueError ''Too many transaction outputs'') else
        bind_res (dec_many parse_output output_count tx_bytes offset) (\<lambda>(outputs, offset).
        bind_res (if has_witness then dec_many parse_witness_stack input_count tx_bytes offset
                  else Inr ([], offset)) (\<lambda>(witnesses, offset).
        if length tx_bytes < offset + 4
        then Inl (ValueError ''Truncated transaction: missing locktime'')
        else if offset + 4 \<noteq> length tx_bytes
        then Inl (ValueError ''Trailing data after transaction locktime'')
        else Inr \<lparr>pt_version = version, pt_inputs = inputs, pt_outputs = outputs,
                  pt_witnesses = witnesses,
                  pt_locktime = unpack_u (slice tx_bytes offset (offset + 4)),
                  pt_has_witness = has_witness\<rparr>))))))"

definition parse_transaction :: "string \<Rightarrow> parsed_transaction res" where
  "parse_transaction tx_hex = bind_res (fromhex tx_hex) parse_transaction_bytes"

text \<open>\<open>get_txid\<close>, over the hash \<open>hash256\<close> of the hashing library.\<close>

definition get_txid :: "(bytes \<Rightarrow> bytes) \<Rightarrow> string \<Rightarrow> string res" where
  "get_txid hash256 tx_hex =
     bind_res (parse_transaction tx_hex) (\<lambda>parsed.
     bind_res (serialize_transaction (pt_version parsed) (pt_inputs parsed) (pt_outputs parsed)
                 (pt_locktime parsed) None) (\<lambda>data.
       Inr (bytes_hex (rev (hash256 data)))))"

subsection \<open>The pieces read back\<close>

lemma parse_blob_enc_blob:
  assumes "enc_blob b = Inr bs"
  shows "parse_blob msg (pre @ bs @ post) (length pre) = Inr (b, length pre + length bs)"
proof -
  from assms obtain l where l: "encode_varint (int (length b)) = Inr l" and bs: "bs = l @ b"
    by (auto simp: enc_blob_def bind_res_Inr_iff)
  have d: "decode_varint (pre @ bs @ post) (length pre) = Inr (length b, length pre + length l)"
    using decode_encode_varint [OF l, of pre "b @ post"] by (simp add: bs)
  have "slice ((pre @ l) @ b @ post) (length (pre @ l)) (length (pre @ l) + length b) = b"
    by (rule slice_middle)
  with d show ?thesis by (simp add: parse_blob_def bs add.assoc)
qed

interpretation blob: codec enc_blob "parse_blob msg" "\<lambda>b. b" "\<lambda>_. True" for msg
  by unfold_locales (rule parse_blob_enc_blob)

lemma parse_counted:
  assumes "codec enc dec view ok" "enc_counted enc xs = Inr bs" "list_all ok xs"
  shows "\<exists>n. decode_varint (pre @ bs @ post) (length pre) = Inr (length xs, length pre + n) \<and>
             dec_many dec (length xs) (pre @ bs @ post) (length pre + n)
               = Inr (map view xs, length pre + length bs)"
proof -
  from assms(2) obtain l b where l: "encode_varint (int (length xs)) = Inr l"
    and b: "enc_many enc xs = Inr b" and bs: "bs = l @ b"
    by (auto simp: enc_counted_def bind_res_Inr_iff)
  have "decode_varint (pre @ bs @ post) (length pre) = Inr (length xs, length pre + length l)"
    using decode_encode_varint [OF l, of pre "b @ post"] by (simp add: bs)
  moreover have "dec_many dec (length xs) (pre @ bs @ post) (length pre + length l)
      = Inr (map view xs, length pre + length bs)"
    using codec.dec_many_enc_many [OF assms(1) b assms(3), of "pre @ l" post]
    by (simp add: bs add.assoc)
  ultimately show ?thesis by blast
qed

lemma parse_witness_stack_enc:
  assumes "enc_counted enc_blob w = Inr bs" "length w \<le> 1000"
  shows "parse_witness_stack (pre @ bs @ post) (length pre) = Inr (w, length pre + length bs)"
proof -
  have "list_all (\<lambda>_. True) w" by (simp add: list_all_iff)
  then obtain n where "decode_varint (pre @ bs @ post) (length pre) = Inr (length w, length pre + n)"
    "dec_many (parse_blob ''Truncated witness item'') (length w) (pre @ bs @ post) (length pre + n)
       = Inr (map (\<lambda>b. b) w, length pre + length bs)"
    using parse_counted [OF blob.codec_axioms assms(1)] by blast
  with assms(2) show ?thesis by (simp add: parse_witness_stack_def)
qed

interpretation stack: codec "enc_counted enc_blob" parse_witness_stack "\<lambda>w. w" "\<lambda>w. length w \<le> 1000"
  by unfold_locales (rule parse_witness_stack_enc)

text \<open>What a serialised input carries: not the value and the script of the output it spends.\<close>

definition wire_input :: "tx_input \<Rightarrow> tx_input" where
  "wire_input i = i\<lparr>ti_value := 0, ti_scriptpubkey := []\<rparr>"

lemma serialize_input_blob:
  "serialize_input i True =
     bind_res (pack_u 4 (ti_vout i)) (\<lambda>v. bind_res (enc_blob (ti_scriptsig i)) (\<lambda>s.
     bind_res (pack_u 4 (ti_sequence i)) (\<lambda>q. Inr (ti_txid_le i @ v @ s @ q))))"
  by (simp add: serialize_input_def enc_blob_def encode_varint_def byte1_def)

lemma parse_input_serialize:
  assumes "serialize_input i True = Inr bs" "length (ti_txid_le i) = 32"
  shows "parse_input (pre @ bs @ post) (length pre) = Inr (wire_input i, length pre + length bs)"
proof -
  from assms(1) obtain v s q where v: "pack_u 4 (ti_vout i) = Inr v"
    and s: "enc_blob (ti_scriptsig i) = Inr s" and q: "pack_u 4 (ti_sequence i) = Inr q"
    and bs: "bs = ti_txid_le i @ v @ s @ q"
    unfolding serialize_input_blob by (auto simp: bind_res_Inr_iff)
  note len = pack_u_length [OF v] pack_u_length [OF q] assms(2)
  let ?d = "pre @ bs @ post" and ?t = "ti_txid_le i"
  have t: "slice ?d (length pre) (length pre + 32) = ?t"
    by (rule trans [OF _ slice_at [of "length pre" pre "length pre + 32" ?t "v @ s @ q @ post"]])
       (simp_all add: bs len)
  have vv: "slice ?d (length pre + 32) (length pre + 36) = v"
    by (rule trans [OF _ slice_at [of "length pre + 32" "pre @ ?t" "length pre + 36" v "s @ q @ post"]])
       (simp_all add: bs len)
  have b: "parse_blob ''Truncated scriptSig'' ?d (length pre + 36)
      = Inr (ti_scriptsig i, length pre + 36 + length s)"
    using parse_blob_enc_blob [OF s, of "''Truncated scriptSig''" "pre @ ?t @ v" "q @ post"]
    by (simp add: bs len add.assoc)
  have qq: "slice ?d (length pre + 36 + length s) (length pre + 36 + length s + 4) = q"
    by (rule trans [OF _ slice_at [of "length pre + 36 + length s" "pre @ ?t @ v @ s"
          "length pre + 36 + length s + 4" q post]]) (simp_all add: bs len)
  show ?thesis
    using t vv b qq unpack_pack_u [OF v] unpack_pack_u [OF q]
    by (simp add: parse_input_def Let_def wire_input_def bs len)
qed

interpretation txin: codec "\<lambda>i. serialize_input i True" parse_input wire_input
    "\<lambda>i. length (ti_txid_le i) = 32"
  by unfold_locales (rule parse_input_serialize)

lemma parse_output_serialize:
  assumes "serialize_output u = Inr bs" "to_value u \<le> MAX_MONEY"
  shows "parse_output (pre @ bs @ post) (length pre) = Inr (u, length pre + length bs)"
proof -
  from assms(1) obtain v s where v: "pack_u 8 (to_value u) = Inr v"
    and s: "enc_blob (to_script u) = Inr s" and bs: "bs = v @ s"
    by (auto simp: serialize_output_def bind_res_Inr_iff)
  have len: "length v = 8" using pack_u_length [OF v] .
  have "slice (pre @ bs @ post) (length pre) (length pre + 8) = v"
    by (rule trans [OF _ slice_at [of "length pre" pre "length pre + 8" v "s @ post"]])
       (simp_all add: bs len)
  moreover have "unpack_q v = to_value u"
    using unpack_q_pack_u [OF v] assms(2) by (simp add: MAX_MONEY_def)
  moreover have "0 \<le> to_value u" using v by (simp add: pack_u_Inr_iff)
  moreover have "parse_blob ''Truncated scriptPubKey'' (pre @ bs @ post) (length pre + 8)
      = Inr (to_script u, length pre + 8 + length s)"
    using parse_blob_enc_blob [OF s, of "''Truncated scriptPubKey''" "pre @ v" post]
    by (simp add: bs len add.assoc)
  ultimately show ?thesis using assms(2) by (simp add: parse_output_def Let_def bs len)
qed

interpretation txout: codec serialize_output parse_output "\<lambda>u. u" "\<lambda>u. to_value u \<le> MAX_MONEY"
  by unfold_locales (rule parse_output_serialize)

subsection \<open>The whole transaction reads back\<close>

text \<open>What the parser accepts of a transaction that the serialiser can write.\<close>

definition wf_tx :: "tx_input list \<Rightarrow> tx_output list \<Rightarrow> bytes list list option \<Rightarrow> bool" where
  "wf_tx inputs outputs witnesses \<longleftrightarrow>
     inputs \<noteq> [] \<and> length inputs \<le> 10000 \<and> length outputs \<le> 10000 \<and>
     list_all (\<lambda>i. length (ti_txid_le i) = 32) inputs \<and>
     list_all (\<lambda>u. to_value u \<le> MAX_MONEY) outputs \<and>
     (any_witness witnesses \<longrightarrow>
        length (the witnesses) = length inputs \<and> list_all (\<lambda>w. length w \<le> 1000) (the witnesses))"

lemma encode_varint_head:
  assumes "encode_varint (int n) = Inr l" "0 < n"
  obtains h t where "l = h # t" "h \<noteq> 0"
  using assms(1)
proof (cases rule: encode_varint_cases)
  case one
  have "unat (word_of_int (int n) :: byte) = n"
    using one by (simp add: unsigned_of_int take_bit_int_eq_self del: of_int_of_nat_eq)
  with assms(2) have "(word_of_int (int n) :: byte) \<noteq> 0" by (metis less_numeral_extra(3) unat_0)
  with one that show ?thesis by blast
next
  case (many k h)
  then have "h \<noteq> 0" by (auto split: if_splits)
  with many that show ?thesis by blast
qed

text \<open>The first byte after the version tells a segregated-witness transaction apart, because a
  transaction has at least one input.\<close>

lemma enc_counted_head:
  assumes "enc_counted enc xs = Inr bs" "xs \<noteq> []"
  obtains h t where "bs = h # t" "h \<noteq> 0"
proof -
  from assms(1) obtain l b where "encode_varint (int (length xs)) = Inr l" "bs = l @ b"
    by (auto simp: enc_counted_def bind_res_Inr_iff)
  with assms(2) that show ?thesis by (metis append_Cons encode_varint_head length_greater_0_conv)
qed

lemma serialize_transaction_parts:
  assumes "serialize_transaction version inputs outputs locktime witnesses = Inr bs"
  obtains v i u w l where "pack_u 4 version = Inr v"
    "enc_counted (\<lambda>i. serialize_input i True) inputs = Inr i"
    "enc_counted serialize_output outputs = Inr u"
    "(if any_witness witnesses then enc_many (enc_counted enc_blob) (the witnesses) else Inr []) = Inr w"
    "pack_u 4 locktime = Inr l"
    "bs = v @ (if any_witness witnesses then [0x00, 0x01] else []) @ i @ u @ w @ l"
  using assms by (auto simp: serialize_transaction_def Let_def bind_res_Inr_iff)

lemma witness_marker:
  assumes "enc_counted enc xs = Inr i" "xs \<noteq> []" "length v = 4"
    and "bs = v @ (if b then [0x00, 0x01] else []) @ i @ r"
  shows "(length bs \<ge> 4 + 2 \<and> bs ! 4 = 0x00 \<and> bs ! 5 = 0x01) \<longleftrightarrow> b"
proof -
  obtain h t where "i = h # t" "h \<noteq> 0" using enc_counted_head [OF assms(1,2)] by metis
  with assms(3,4) show ?thesis by (cases b) (auto simp: nth_append)
qed

lemma parse_witnesses:
  assumes "(if b then enc_many (enc_counted enc_blob) ws else Inr []) = Inr w"
    and "b \<longrightarrow> length ws = n \<and> list_all (\<lambda>w. length w \<le> 1000) ws"
    and "bs = pre @ w @ post"
  shows "(if b then dec_many parse_witness_stack n bs (length pre) else Inr ([], length pre))
      = Inr (if b then ws else [], length pre + length w)"
  using assms stack.dec_many_enc_many [of ws w pre post] by (cases b) auto

lemma parse_serialize_tx:
  assumes ser: "serialize_transaction version inputs outputs locktime witnesses = Inr bs"
    and wf: "wf_tx inputs outputs witnesses"
  shows "parse_transaction_bytes bs =
    Inr \<lparr>pt_version = version, pt_inputs = map wire_input inputs, pt_outputs = outputs,
         pt_witnesses = (if any_witness witnesses then the witnesses else []),
         pt_locktime = locktime, pt_has_witness = any_witness witnesses\<rparr>"
proof -
  let ?hw = "any_witness witnesses"
  obtain v i u w l where v: "pack_u 4 version = Inr v"
    and i: "enc_counted (\<lambda>i. serialize_input i True) inputs = Inr i"
    and u: "enc_counted serialize_output outputs = Inr u"
    and w: "(if ?hw then enc_many (enc_counted enc_blob) (the witnesses) else Inr []) = Inr w"
    and l: "pack_u 4 locktime = Inr l"
    and bs: "bs = v @ (if ?hw then [0x00, 0x01] else []) @ i @ u @ w @ l"
    using serialize_transaction_parts [OF ser] by metis
  note len = pack_u_length [OF v] pack_u_length [OF l]
  from wf have oks: "list_all (\<lambda>i. length (ti_txid_le i) = 32) inputs" "inputs \<noteq> []"
    "list_all (\<lambda>u. to_value u \<le> MAX_MONEY) outputs" "\<not> 10000 < length inputs" "\<not> 10000 < length outputs"
    by (auto simp: wf_tx_def)
  let ?m = "if ?hw then [0x00, 0x01] else [] :: bytes"
  define o1 o2 o3 o4 where defs: "o1 = length (v @ ?m)" "o2 = o1 + length i" "o3 = o2 + length u"
    "o4 = o3 + length w"
  have marker: "(length bs \<ge> 4 + 2 \<and> bs ! 4 = 0x00 \<and> bs ! 5 = 0x01) \<longleftrightarrow> ?hw"
    by (rule witness_marker [OF i oks(2) len(1) bs])
  have off: "(if ?hw then 6 else 4) = o1" using len by (simp add: defs)
  obtain n1 where n1: "decode_varint bs o1 = Inr (length inputs, o1 + n1)"
    "dec_many parse_input (length inputs) bs (o1 + n1) = Inr (map wire_input inputs, o2)"
    using parse_counted [OF txin.codec_axioms i oks(1), of "v @ ?m" "u @ w @ l"]
    by (auto simp: bs defs)
  obtain n2 where n2: "decode_varint bs o2 = Inr (length outputs, o2 + n2)"
    "dec_many parse_output (length outputs) bs (o2 + n2) = Inr (outputs, o3)"
    using parse_counted [OF txout.codec_axioms u oks(3), of "v @ ?m @ i" "w @ l"]
    by (auto simp: bs defs add.assoc)
  have wit: "(if ?hw then dec_many parse_witness_stack (length inputs) bs o3 else Inr ([], o3))
      = Inr (if ?hw then the witnesses else [], o4)"
  proof -
    have o3: "o3 = length (v @ ?m @ i @ u)" and o4: "o4 = o3 + length w" by (simp_all add: defs)
    show ?thesis unfolding o4 unfolding o3
      by (rule parse_witnesses [OF w, where post = l]) (use wf in \<open>auto simp: bs wf_tx_def\<close>)
  qed
  have loc: "slice bs o4 (o4 + 4) = l" and ver: "slice bs 0 4 = v" and total: "length bs = o4 + 4"
    using slice_at [of o4 "v @ ?m @ i @ u @ w" "o4 + 4" l "[]"]
      slice_at [of 0 "[]" 4 v "?m @ i @ u @ w @ l"] by (simp_all add: bs len defs)
  show ?thesis
    unfolding parse_transaction_bytes_def marker Let_def off
    by (simp only: n1 n2 wit bind_res_simps prod.case)
       (simp add: loc ver total unpack_pack_u [OF v] unpack_pack_u [OF l] oks)
qed

text \<open>C22: parsing what \<open>serialize_transaction\<close> wrote gives the transaction back: the version, the
  inputs (without the value and script of the spent output, which the format does not carry), the
  outputs, the witness stacks when there is a non-empty one, and the locktime. The parser's limits
  are the hypothesis \<open>wf_tx\<close>; a transaction without inputs is excluded because its count byte is
  the segregated-witness marker.\<close>

theorem parse_serialize_transaction:
  assumes ser: "serialize_transaction version inputs outputs locktime witnesses = Inr bs"
    and wf: "wf_tx inputs outputs witnesses"
  shows "parse_transaction_bytes bs =
    Inr \<lparr>pt_version = version, pt_inputs = map wire_input inputs, pt_outputs = outputs,
         pt_witnesses = (if any_witness witnesses then the witnesses else []),
         pt_locktime = locktime, pt_has_witness = any_witness witnesses\<rparr>"
  by (rule parse_serialize_tx [OF assms])

text \<open>A two-input transaction with one signed input: the hypotheses of the round trip hold and
  the parser returns it.\<close>

definition ex_inputs :: "tx_input list" where
  "ex_inputs =
    [\<lparr>ti_txid_le = replicate 32 1, ti_vout = 0, ti_scriptsig = [], ti_sequence = 0xFFFFFFFF,
      ti_value = 5, ti_scriptpubkey = [0x51]\<rparr>,
     \<lparr>ti_txid_le = replicate 32 2, ti_vout = 7, ti_scriptsig = [0xAA, 0xBB], ti_sequence = 1,
      ti_value = 6, ti_scriptpubkey = []\<rparr>]"

definition ex_outputs :: "tx_output list" where
  "ex_outputs = [\<lparr>to_value = 100000, to_script = [0x00, 0x14]\<rparr>]"

definition ex_witnesses :: "bytes list list option" where
  "ex_witnesses = Some [[[0x30, 0x44], [0x02]], []]"

definition ex_tx_bytes :: bytes where
  "ex_tx_bytes = (case serialize_transaction 2 ex_inputs ex_outputs 500 ex_witnesses of
     Inl _ \<Rightarrow> [] | Inr bs \<Rightarrow> bs)"

lemma ex_tx_serialized: "serialize_transaction 2 ex_inputs ex_outputs 500 ex_witnesses = Inr ex_tx_bytes"
  unfolding ex_tx_bytes_def by code_simp

lemma ex_tx_wf: "wf_tx ex_inputs ex_outputs ex_witnesses"
  unfolding wf_tx_def by code_simp

theorem parse_serialize_transaction_witness:
  "pt_outputs (projr (parse_transaction_bytes ex_tx_bytes)) = ex_outputs \<and>
   pt_witnesses (projr (parse_transaction_bytes ex_tx_bytes)) = [[[0x30, 0x44], [0x02]], []] \<and>
   pt_locktime (projr (parse_transaction_bytes ex_tx_bytes)) = 500"
proof -
  have "any_witness ex_witnesses" by code_simp
  then show ?thesis
    using parse_serialize_transaction [OF ex_tx_serialized ex_tx_wf]
    by (simp add: ex_witnesses_def)
qed

end
