(* ===== verification/Py_Numeric.thy ===== *)
theory Py_Numeric
  imports Jm_Prelude
begin

text \<open>
  Python numbers read from text: \<open>str.strip\<close>, \<open>int(str)\<close>, and \<open>decimal.Decimal\<close> with the default
  context (28 digits, rounding half to even), as far as the fee arithmetic uses them.

  Strings are ASCII. \<open>Decimal\<close> values are finite: the texts \<open>"NaN"\<close> and \<open>"Infinity"\<close> contain
  neither a point nor an exponent letter, and the callers read a text as a \<open>Decimal\<close> only when it
  has one of them. The exponent limits of the context (a million digits) are left out.
\<close>

section \<open>Text\<close>

definition is_digit :: "char \<Rightarrow> bool" where
  "is_digit c = (48 \<le> (of_char c :: nat) \<and> (of_char c :: nat) \<le> 57)"

definition digit_val :: "char \<Rightarrow> nat" where
  "digit_val c = of_char c - 48"

definition str_space :: "char \<Rightarrow> bool" where
  "str_space c = (let n = (of_char c :: nat) in n = 32 \<or> (9 \<le> n \<and> n \<le> 13) \<or> (28 \<le> n \<and> n \<le> 31))"

definition strip :: "string \<Rightarrow> string" where
  "strip s = rev (dropWhile str_space (rev (dropWhile str_space s)))"

fun digits_nat :: "nat \<Rightarrow> string \<Rightarrow> nat" where
  "digits_nat acc [] = acc"
| "digits_nat acc (c # cs) = digits_nat (10 * acc + digit_val c) cs"

fun nat_digits :: "nat \<Rightarrow> string" where
  "nat_digits n = (if n < 10 then [char_of (48 + n)] else nat_digits (n div 10) @ [char_of (48 + n mod 10)])"

declare nat_digits.simps [simp del]

text \<open>\<open>str(n)\<close>\<close>

definition str_of_int :: "int \<Rightarrow> string" where
  "str_of_int n = (if n < 0 then ''-'' @ nat_digits (nat (- n)) else nat_digits (nat n))"

lemma is_digit_char_of [simp]: "n < 10 \<Longrightarrow> is_digit (char_of (48 + n :: nat))"
  by (simp add: is_digit_def)

lemma digit_val_char_of [simp]: "n < 10 \<Longrightarrow> digit_val (char_of (48 + n :: nat)) = n"
  by (simp add: digit_val_def)

lemma digits_nat_append: "digits_nat acc (s @ t) = digits_nat (digits_nat acc s) t"
  by (induction s arbitrary: acc) auto

lemma digits_nat_acc: "digits_nat acc s = acc * 10 ^ length s + digits_nat 0 s"
proof (induction s arbitrary: acc)
  case Nil
  then show ?case by simp
next
  case (Cons c s)
  from Cons.IH [of "10 * acc + digit_val c"] Cons.IH [of "digit_val c"] show ?case
    by (simp add: algebra_simps)
qed

lemma nat_digits_digits: "list_all is_digit (nat_digits n)"
proof (induction n rule: nat_digits.induct)
  case (1 n)
  then show ?case by (subst nat_digits.simps) auto
qed

lemma digits_nat_nat_digits: "digits_nat 0 (nat_digits n) = n"
proof (induction n rule: nat_digits.induct)
  case (1 n)
  then show ?case by (subst nat_digits.simps) (auto simp: digits_nat_append)
qed

lemma nat_digits_not_Nil: "nat_digits n \<noteq> []"
  by (subst nat_digits.simps) simp

lemma digit_not_space: "is_digit c \<Longrightarrow> \<not> str_space c"
  by (auto simp: is_digit_def str_space_def)

lemma strip_id:
  assumes "s \<noteq> []" "\<not> str_space (hd s)" "\<not> str_space (last s)"
  shows "strip s = s"
proof -
  have d: "dropWhile str_space xs = xs" if "xs \<noteq> []" "\<not> str_space (hd xs)" for xs
    using that by (cases xs) auto
  show ?thesis using assms by (simp add: strip_def d hd_rev)
qed

section \<open>\<open>int(str)\<close>\<close>

text \<open>The sign of a literal and what follows it.\<close>

definition split_sign :: "string \<Rightarrow> bool \<times> string" where
  "split_sign s = (case s of
     c # cs \<Rightarrow> if c = CHR ''-'' then (True, cs) else if c = CHR ''+'' then (False, cs) else (False, s)
   | [] \<Rightarrow> (False, []))"

text \<open>Digits with single underscores between them; the flag says that a digit has just been read.\<close>

fun int_digits :: "bool \<Rightarrow> string \<Rightarrow> string option" where
  "int_digits p [] = (if p then Some [] else None)"
| "int_digits p (c # cs) =
     (if is_digit c then map_option (Cons c) (int_digits True cs)
      else if c = CHR ''_'' \<and> p then int_digits False cs else None)"

text \<open>\<open>None\<close> is \<open>ValueError\<close>; CPython also refuses more than 4300 digits.\<close>

definition py_int :: "string \<Rightarrow> int option" where
  "py_int s =
     (let (neg, t) = split_sign (strip s) in
      case int_digits False t of
        None \<Rightarrow> None
      | Some ds \<Rightarrow> if length ds > 4300 then None
                  else Some ((if neg then -1 else 1) * int (digits_nat 0 ds)))"

lemma int_digits_digits: "list_all is_digit s \<Longrightarrow> s \<noteq> [] \<or> p \<Longrightarrow> int_digits p s = Some s"
  by (induction s arbitrary: p) auto

lemma split_sign_digit: "s \<noteq> [] \<Longrightarrow> is_digit (hd s) \<Longrightarrow> split_sign s = (False, s)"
  by (cases s) (auto simp: split_sign_def is_digit_def)

lemma py_int_digits:
  assumes "list_all is_digit s" "s \<noteq> []" "length s \<le> 4300"
  shows "py_int s = Some (int (digits_nat 0 s))"
proof -
  have h: "is_digit (hd s)" "is_digit (last s)" using assms(1,2) by (auto simp: list_all_iff)
  then have "strip s = s" using assms(2) by (intro strip_id) (auto dest: digit_not_space)
  with h assms show ?thesis
    by (simp add: py_int_def split_sign_digit int_digits_digits)
qed

section \<open>\<open>Decimal\<close>\<close>

record decimal =
  d_neg :: bool
  d_coeff :: nat
  d_exp :: int

text \<open>The exponent part of a literal, to the end of the text.\<close>

definition dec_exponent :: "string \<Rightarrow> int option" where
  "dec_exponent s = (case s of
     [] \<Rightarrow> Some 0
   | c # cs \<Rightarrow>
       if c = CHR ''e'' \<or> c = CHR ''E'' then
         let (neg, ds) = split_sign cs in
         if ds \<noteq> [] \<and> list_all is_digit ds
         then Some ((if neg then -1 else 1) * int (digits_nat 0 ds)) else None
       else None)"

text \<open>\<open>Decimal(str)\<close>; \<open>None\<close> is \<open>InvalidOperation\<close>.\<close>

definition py_decimal :: "string \<Rightarrow> decimal option" where
  "py_decimal s =
     (let (neg, t) = split_sign (filter (\<lambda>c. c \<noteq> CHR ''_'') (strip s));
          ip = takeWhile is_digit t; r = dropWhile is_digit t;
          (fp, r') = (case r of
             c # cs \<Rightarrow> if c = CHR ''.'' then (takeWhile is_digit cs, dropWhile is_digit cs) else ([], r)
           | [] \<Rightarrow> ([], []))
      in if ip = [] \<and> fp = [] then None
         else case dec_exponent r' of
                None \<Rightarrow> None
              | Some e \<Rightarrow> Some \<lparr>d_neg = neg, d_coeff = digits_nat 0 (ip @ fp),
                               d_exp = e - int (length fp)\<rparr>)"

text \<open>\<open>format(d, "f")\<close>: no exponent, and a point only before fractional digits.\<close>

definition format_f :: "decimal \<Rightarrow> string" where
  "format_f d =
     (let ds = nat_digits (d_coeff d);
          body =
            (if d_exp d > 0 then
               (if d_coeff d = 0 then ''0'' else ds @ replicate (nat (d_exp d)) (CHR ''0''))
             else if d_exp d = 0 then ds
             else let k = nat (- d_exp d) in
                  if length ds > k then take (length ds - k) ds @ ''.'' @ drop (length ds - k) ds
                  else ''0.'' @ replicate (k - length ds) (CHR ''0'') @ ds)
      in (if d_neg d then ''-'' else []) @ body)"

text \<open>Division rounding half to even.\<close>

definition round_half_even :: "nat \<Rightarrow> nat \<Rightarrow> nat" where
  "round_half_even n d =
     (let q = n div d; r = n mod d in
      if 2 * r < d then q else if 2 * r > d then q + 1 else if even q then q else q + 1)"

text \<open>A product in the default context: a coefficient of more than 28 digits is rounded to 28.\<close>

definition num_digits :: "nat \<Rightarrow> nat" where
  "num_digits n = length (nat_digits n)"

definition dec_prec :: nat where
  "dec_prec = 28"

definition dec_finalize :: "decimal \<Rightarrow> decimal" where
  "dec_finalize d =
     (let k = num_digits (d_coeff d) - dec_prec in
      if k = 0 then d
      else let c = round_half_even (d_coeff d) (10 ^ k) in
           if c = 10 ^ dec_prec
           then d\<lparr>d_coeff := 10 ^ (dec_prec - 1), d_exp := d_exp d + int k + 1\<rparr>
           else d\<lparr>d_coeff := c, d_exp := d_exp d + int k\<rparr>)"

definition dec_mult_nat :: "decimal \<Rightarrow> nat \<Rightarrow> decimal" where
  "dec_mult_nat d n = dec_finalize (d\<lparr>d_coeff := d_coeff d * n\<rparr>)"

text \<open>\<open>int(d.quantize(Decimal(1)))\<close>; \<open>None\<close> is \<open>InvalidOperation\<close>: more digits than the context has.\<close>

definition quantize_int :: "decimal \<Rightarrow> int option" where
  "quantize_int d =
     (let q = (if d_exp d \<ge> 0 then d_coeff d * 10 ^ nat (d_exp d)
               else round_half_even (d_coeff d) (10 ^ nat (- d_exp d)))
      in if q \<ge> 10 ^ dec_prec then None else Some ((if d_neg d then -1 else 1) * int q))"

lemma num_digits_le: "n < 10 ^ k \<Longrightarrow> 0 < k \<Longrightarrow> num_digits n \<le> k"
proof (induction k arbitrary: n)
  case 0
  then show ?case by simp
next
  case (Suc k)
  show ?case
  proof (cases "n < 10")
    case True
    then show ?thesis by (simp add: num_digits_def nat_digits.simps [of n])
  next
    case False
    with Suc.prems have "n div 10 < 10 ^ k" by (simp add: less_mult_imp_div_less mult.commute)
    moreover have "0 < k" using False Suc.prems by (cases k) auto
    ultimately have "num_digits (n div 10) \<le> k" by (rule Suc.IH)
    with False show ?thesis by (simp add: num_digits_def nat_digits.simps [of n])
  qed
qed

lemma dec_finalize_small: "d_coeff d < 10 ^ dec_prec \<Longrightarrow> dec_finalize d = d"
  using num_digits_le [of "d_coeff d" dec_prec] by (simp add: dec_finalize_def Let_def dec_prec_def)

lemma d_neg_dec_mult_nat [simp]: "d_neg (dec_mult_nat d n) = d_neg d"
  by (simp add: dec_mult_nat_def dec_finalize_def Let_def)

lemma quantize_int_nonneg: "quantize_int d = Some v \<Longrightarrow> \<not> d_neg d \<Longrightarrow> 0 \<le> v"
  by (simp add: quantize_int_def Let_def split: if_split_asm)

subsection \<open>Rounding\<close>

lemma round_half_even_bounds:
  assumes "0 < d"
  shows "2 * d * round_half_even n d \<le> 2 * n + d" and "2 * n \<le> 2 * d * round_half_even n d + d"
proof -
  define q r where qr: "q = n div d" "r = n mod d"
  have n: "n = d * q + r" and r: "r < d" using assms by (simp_all add: qr)
  show "2 * d * round_half_even n d \<le> 2 * n + d" "2 * n \<le> 2 * d * round_half_even n d + d"
    unfolding round_half_even_def Let_def qr [symmetric] using r by (auto simp: n algebra_simps)
qed

lemma round_half_even_mono:
  assumes "0 < d" "m \<le> n"
  shows "round_half_even m d \<le> round_half_even n d"
proof (cases "m div d = n div d")
  case True
  have "m mod d \<le> n mod d" using assms True by (metis add_le_cancel_left div_mult_mod_eq)
  with True show ?thesis by (auto simp: round_half_even_def Let_def)
next
  case False
  then have "m div d + 1 \<le> n div d" using div_le_mono [OF assms(2), of d] by simp
  moreover have "round_half_even m d \<le> m div d + 1" "n div d \<le> round_half_even n d"
    by (auto simp: round_half_even_def Let_def)
  ultimately show ?thesis by linarith
qed

lemma round_half_even_0 [simp]: "round_half_even 0 d = 0"
  by (cases "d = 0") (auto simp: round_half_even_def Let_def)

lemma round_half_even_le: "0 < d \<Longrightarrow> round_half_even n d \<le> n div d + 1"
  by (auto simp: round_half_even_def Let_def)

text \<open>Adding less than one whole unit raises the rounded quotient by at most one.\<close>

lemma round_half_even_step:
  assumes "n < d"
  shows "round_half_even (m + n) d \<le> round_half_even m d + 1"
proof -
  define q r where qr: "q = m div d" "r = m mod d"
  have r: "r < d" and m: "m = d * q + r" using assms by (simp_all add: qr)
  have low: "q \<le> round_half_even m d" by (simp add: round_half_even_def Let_def qr)
  show ?thesis
  proof (cases "r + n < d")
    case True
    then have "(m + n) div d = q" unfolding m using assms
      by (metis add.assoc add.right_neutral div_less div_mult_self4 not_less0)
    then have "round_half_even (m + n) d \<le> q + 1" by (simp add: round_half_even_def Let_def)
    with low show ?thesis by simp
  next
    case False
    then have e: "m + n = d * (q + 1) + (r + n - d)" by (simp add: m)
    have lt: "r + n - d < d" using r assms by simp
    then have dm: "(m + n) div d = q + 1" "(m + n) mod d = r + n - d"
      unfolding e by (simp_all only: mod_mult_self4 div_mult_self4 mod_less div_less)
    have le: "round_half_even (m + n) d \<le> q + 2" by (simp add: round_half_even_def Let_def dm)
    show ?thesis
    proof (cases "round_half_even m d = q")
      case True
      then have "2 * r \<le> d" by (auto simp: round_half_even_def Let_def qr split: if_splits)
      then have "2 * (r + n - d) < d" using assms False by linarith
      then have "round_half_even (m + n) d = q + 1" by (simp add: round_half_even_def Let_def dm)
      with True show ?thesis by simp
    next
      case False
      with low le show ?thesis by linarith
    qed
  qed
qed

lemma round_half_even_mult [simp]: "0 < d \<Longrightarrow> round_half_even (d * x) d = x"
  by (simp add: round_half_even_def)

end
