(* ===== verification/Btc_Script.thy ===== *)
theory Btc_Script
  imports Btc_Tx Py_Numeric
begin

unbundle bit_operations_syntax

text \<open>
  Scripts and addresses of \<open>jmcore/src/jmcore/bitcoin.py\<close> and the script numbers of
  \<open>jmcore/src/jmcore/btc_script.py\<close>. The packages \<open>bech32\<close>, \<open>base58\<close> and the address decoder of
  \<open>bitcointx\<close> are third-party code: they are the parameter \<open>addr_lib\<close> of the definitions, and what the
  code relies on is the predicate \<open>addr_lib_ok\<close>. The bech32m encoder is the repository's own: that its
  checksum is the one a decoder accepts is proved.
\<close>

section \<open>Networks\<close>

datatype network_type = MAINNET | TESTNET | SIGNET | REGTEST

fun get_hrp :: "network_type \<Rightarrow> string" where
  "get_hrp MAINNET = ''bc''"
| "get_hrp TESTNET = ''tb''"
| "get_hrp SIGNET = ''tb''"
| "get_hrp REGTEST = ''bcrt''"

fun P2PKH_VERSION :: "network_type \<Rightarrow> byte" where
  "P2PKH_VERSION MAINNET = 0x00"
| "P2PKH_VERSION _ = 0x6F"

fun P2SH_VERSION :: "network_type \<Rightarrow> byte" where
  "P2SH_VERSION MAINNET = 0x05"
| "P2SH_VERSION _ = 0xC4"

section \<open>The address libraries\<close>

record addr_lib =
  bech32_encode :: "string \<Rightarrow> nat \<Rightarrow> bytes \<Rightarrow> string option"
  convertbits :: "bytes \<Rightarrow> nat list option"
  hrp_expand :: "string \<Rightarrow> nat list"
  bech32_polymod :: "nat list \<Rightarrow> nat"
  bech32_charset :: "nat \<Rightarrow> char"
  decode_segwit :: "string \<Rightarrow> string \<Rightarrow> (nat \<times> bytes) option"
  b58encode_check :: "bytes \<Rightarrow> string"
  b58decode_check :: "string \<Rightarrow> bytes option"

definition BECH32M_CONST :: nat where
  "BECH32M_CONST = 0x2BC830A3"

definition bech32m_create_checksum :: "addr_lib \<Rightarrow> string \<Rightarrow> nat list \<Rightarrow> nat list" where
  "bech32m_create_checksum lib hrp data =
     (let values = hrp_expand lib hrp @ data;
          polymod = (bech32_polymod lib (values @ [0, 0, 0, 0, 0, 0])) XOR BECH32M_CONST
      in map (\<lambda>i. drop_bit (5 * (5 - i)) polymod AND 31) [0, 1, 2, 3, 4, 5])"

definition bech32m_encode :: "addr_lib \<Rightarrow> string \<Rightarrow> nat \<Rightarrow> bytes \<Rightarrow> string res" where
  "bech32m_encode lib hrp witver witprog =
     (case convertbits lib witprog of
        None \<Rightarrow> Inl (ValueError ''Failed to convert witness program bits'')
      | Some converted \<Rightarrow>
          let data = witver # converted; checksum = bech32m_create_checksum lib hrp data
          in Inr (hrp @ ''1'' @ map (bech32_charset lib) (data @ checksum)))"

section \<open>Addresses\<close>

definition create_p2tr_scriptpubkey :: "bytes \<Rightarrow> bytes res" where
  "create_p2tr_scriptpubkey key =
     (if length key \<noteq> 32 then Inl (ValueError ''output_xonly_pubkey must be 32 bytes'')
      else Inr (0x51 # 0x20 # key))"

definition pubkey_to_p2tr_address :: "addr_lib \<Rightarrow> bytes \<Rightarrow> network_type \<Rightarrow> string res" where
  "pubkey_to_p2tr_address lib key network =
     (if length key \<noteq> 32 then Inl (ValueError ''output_xonly_pubkey must be 32 bytes'')
      else bech32m_encode lib (get_hrp network) 1 key)"

definition encode_v0 :: "addr_lib \<Rightarrow> network_type \<Rightarrow> bytes \<Rightarrow> string res" where
  "encode_v0 lib network prog =
     (case bech32_encode lib (get_hrp network) 0 prog of
        None \<Rightarrow> Inl (ValueError ''Failed to encode address'') | Some a \<Rightarrow> Inr a)"

definition scriptpubkey_to_address :: "addr_lib \<Rightarrow> bytes \<Rightarrow> network_type \<Rightarrow> string res" where
  "scriptpubkey_to_address lib s network =
     (if length s = 22 \<and> s ! 0 = 0x00 \<and> s ! 1 = 0x14 then encode_v0 lib network (drop 2 s)
      else if length s = 34 \<and> s ! 0 = 0x00 \<and> s ! 1 = 0x20 then encode_v0 lib network (drop 2 s)
      else if length s = 34 \<and> s ! 0 = 0x51 \<and> s ! 1 = 0x20
      then bech32m_encode lib (get_hrp network) 1 (drop 2 s)
      else if length s = 25 \<and> s ! 0 = 0x76 \<and> s ! 1 = 0xA9 \<and> s ! 2 = 0x14 \<and> s ! 23 = 0x88 \<and> s ! 24 = 0xAC
      then Inr (b58encode_check lib (P2PKH_VERSION network # slice s 3 23))
      else if length s = 23 \<and> s ! 0 = 0xA9 \<and> s ! 1 = 0x14 \<and> s ! 22 = 0x87
      then Inr (b58encode_check lib (P2SH_VERSION network # slice s 2 22))
      else Inl (ValueError ''Unsupported scriptPubKey''))"

definition ascii_lower :: "string \<Rightarrow> string" where
  "ascii_lower s = map (\<lambda>c. if 65 \<le> (of_char c :: nat) \<and> (of_char c :: nat) \<le> 90
                             then char_of ((of_char c :: nat) + 32) else c) s"

definition starts_with :: "string \<Rightarrow> string \<Rightarrow> bool" where
  "starts_with s p \<longleftrightarrow> take (length p) s = p"

definition segwit_prefixed :: "string \<Rightarrow> bool" where
  "segwit_prefixed a \<longleftrightarrow> (let l = ascii_lower a in
     starts_with l ''bc1'' \<or> starts_with l ''tb1'' \<or> starts_with l ''bcrt1'')"

text \<open>\<open>s.rsplit("1", 1)[0]\<close>: what stands before the last \<open>1\<close>.\<close>

definition before_last_one :: "string \<Rightarrow> string" where
  "before_last_one s =
     (if CHR ''1'' \<in> set s then rev (tl (dropWhile (\<lambda>c. c \<noteq> CHR ''1'') (rev s))) else s)"

definition address_to_scriptpubkey :: "addr_lib \<Rightarrow> string \<Rightarrow> bytes res" where
  "address_to_scriptpubkey lib address =
     (if segwit_prefixed address then
        (case decode_segwit lib (before_last_one (ascii_lower address)) address of
           None \<Rightarrow> Inl (ValueError ''Invalid bech32/bech32m address'')
         | Some (witver, witprog) \<Rightarrow>
             if witver = 0 \<and> length witprog = 20 then Inr (0x00 # 0x14 # witprog)
             else if witver = 0 \<and> length witprog = 32 then Inr (0x00 # 0x20 # witprog)
             else if witver = 1 \<and> length witprog = 32 then Inr (0x51 # 0x20 # witprog)
             else Inl (ValueError ''Unsupported witness version''))
      else
        (case b58decode_check lib address of
           None \<Rightarrow> Inl (ValueError ''Invalid checksum'')
         | Some [] \<Rightarrow> Inl IndexError
         | Some (version # payload) \<Rightarrow>
             if version = 0x00 \<or> version = 0x6F
             then Inr ([0x76, 0xA9, 0x14] @ payload @ [0x88, 0xAC])
             else if version = 0x05 \<or> version = 0xC4 then Inr ([0xA9, 0x14] @ payload @ [0x87])
             else Inl (ValueError ''Unknown address version'')))"

definition get_address_type :: "addr_lib \<Rightarrow> string \<Rightarrow> string res" where
  "get_address_type lib address =
     (if segwit_prefixed address then
        (case decode_segwit lib (before_last_one (ascii_lower address)) address of
           None \<Rightarrow> Inl (ValueError ''Invalid bech32/bech32m address'')
         | Some (witver, witprog) \<Rightarrow>
             if witver = 0 \<and> length witprog = 20 then Inr ''p2wpkh''
             else if witver = 0 \<and> length witprog = 32 then Inr ''p2wsh''
             else if witver = 1 \<and> length witprog = 32 then Inr ''p2tr''
             else Inl (ValueError ''Unknown SegWit address type''))
      else
        (case b58decode_check lib address of
           Some (version # payload) \<Rightarrow>
             if version = 0x00 \<or> version = 0x6F then Inr ''p2pkh''
             else if version = 0x05 \<or> version = 0xC4 then Inr ''p2sh''
             else Inl (ValueError ''Unknown address type'')
         | _ \<Rightarrow> Inl (ValueError ''Unknown address type'')))"

text \<open>What the code relies on of the address libraries. A version 0 address that \<open>bech32.encode\<close> makes of a 20 or
  32 byte program is decoded to that program; it is the human-readable part, the separator \<open>1\<close> and characters of
  the bech32 alphabet, which has neither \<open>1\<close> nor capitals. The checksum polynomial is linear in the six checksum
  digits (BIP173), and \<open>bitcointx\<close> decodes, for a version from 1 and a program of 2 to 40 bytes, every text whose
  polynomial is the constant of BIP350. A base58 address of a 20 byte hash in one of the four versions starts with
  \<open>1\<close>, \<open>3\<close>, \<open>2\<close>, \<open>m\<close> or \<open>n\<close> and is decoded to version and hash.\<close>

definition bech32_char :: "char \<Rightarrow> bool" where
  "bech32_char c \<longleftrightarrow> c \<noteq> CHR ''1'' \<and> \<not> (65 \<le> (of_char c :: nat) \<and> (of_char c :: nat) \<le> 90)"

definition digits5 :: "nat list \<Rightarrow> bool" where
  "digits5 ds \<longleftrightarrow> list_all (\<lambda>d. d < 32) ds"

definition pack5 :: "nat list \<Rightarrow> nat" where
  "pack5 ds = foldl (\<lambda>a d. 32 * a + d) 0 ds"

definition bech32_lib_ok :: "addr_lib \<Rightarrow> bool" where
  "bech32_lib_ok lib \<longleftrightarrow>
     (\<forall>network p a. length p \<in> {20, 32} \<longrightarrow> bech32_encode lib (get_hrp network) 0 p = Some a \<longrightarrow>
        decode_segwit lib (get_hrp network) a = Some (0, p) \<and> (\<exists>d. a = get_hrp network @ ''1'' @ d \<and> list_all bech32_char d)) \<and>
     (\<forall>p ds. convertbits lib p = Some ds \<longrightarrow> digits5 ds) \<and>
     (\<forall>d < 32. bech32_char (bech32_charset lib d)) \<and>
     (\<forall>vs. bech32_polymod lib vs < 2 ^ 30) \<and>
     (\<forall>vs cs. length cs = 6 \<longrightarrow> digits5 cs \<longrightarrow>
        bech32_polymod lib (vs @ cs) = (bech32_polymod lib (vs @ [0, 0, 0, 0, 0, 0])) XOR pack5 cs)"

definition bech32m_decoder_ok :: "addr_lib \<Rightarrow> bool" where
  "bech32m_decoder_ok lib \<longleftrightarrow>
     (\<forall>network v p ds cs. 1 \<le> v \<longrightarrow> v \<le> 16 \<longrightarrow> 2 \<le> length p \<longrightarrow> length p \<le> 40 \<longrightarrow> convertbits lib p = Some ds \<longrightarrow>
        length cs = 6 \<longrightarrow> digits5 cs \<longrightarrow> bech32_polymod lib (hrp_expand lib (get_hrp network) @ (v # ds) @ cs) = BECH32M_CONST \<longrightarrow>
        decode_segwit lib (get_hrp network) (get_hrp network @ ''1'' @ map (bech32_charset lib) ((v # ds) @ cs)) = Some (v, p))"

definition base58_lib_ok :: "addr_lib \<Rightarrow> bool" where
  "base58_lib_ok lib \<longleftrightarrow>
     (\<forall>v p. v \<in> {0x00, 0x6F, 0x05, 0xC4} \<longrightarrow> length p = 20 \<longrightarrow> b58decode_check lib (b58encode_check lib (v # p)) = Some (v # p) \<and>
        (\<exists>c r. b58encode_check lib (v # p) = c # r \<and> c \<in> set ''132mn''))"

definition addr_lib_ok :: "addr_lib \<Rightarrow> bool" where
  "addr_lib_ok lib \<longleftrightarrow> bech32_lib_ok lib \<and> bech32m_decoder_ok lib \<and> base58_lib_ok lib"

text \<open>The six digits that \<open>bech32m_create_checksum\<close> cuts out of a 30 bit number make up the number again.\<close>

lemma pack5_digits:
  fixes x :: nat
  assumes "x < 2 ^ 30"
  shows "pack5 (map (\<lambda>i. drop_bit (5 * (5 - i)) x AND 31) [0, 1, 2, 3, 4, 5]) = x"
proof -
  have digit: "drop_bit n x AND 31 = x div 2 ^ n mod 32" for n
    using take_bit_eq_mask [of 5 "drop_bit n x"] by (simp add: drop_bit_eq_div take_bit_eq_mod mask_eq_exp_minus_1)
  have up: "32 * (x div 2 ^ (n + 5)) + x div 2 ^ n mod 32 = x div 2 ^ n" for n
    using div_mult2_eq [of x "2 ^ n" 32] by (simp add: power_add mult.commute)
  have top: "x div 2 ^ 25 mod 32 = x div 2 ^ 25" using assms by (simp add: div_less_iff_less_mult)
  show ?thesis
    using up [of 20] up [of 15] up [of 10] up [of 5] up [of 0] top by (simp add: pack5_def digit)
qed

lemma xor_less_exp: "a < 2 ^ n \<Longrightarrow> b < 2 ^ n \<Longrightarrow> a XOR b < (2 ^ n :: nat)"
  by (metis take_bit_nat_eq_self_iff take_bit_xor)

lemma bech32m_checksum_verifies:
  assumes lib: "bech32_lib_ok lib"
  shows "bech32_polymod lib (hrp_expand lib hrp @ data @ bech32m_create_checksum lib hrp data) = BECH32M_CONST"
    "length (bech32m_create_checksum lib hrp data) = 6" "digits5 (bech32m_create_checksum lib hrp data)"
proof -
  let ?vs = "hrp_expand lib hrp @ data" and ?cs = "bech32m_create_checksum lib hrp data"
  define P where "P = bech32_polymod lib (?vs @ [0, 0, 0, 0, 0, 0])"
  have cs: "?cs = map (\<lambda>i. drop_bit (5 * (5 - i)) (P XOR BECH32M_CONST) AND 31) [0, 1, 2, 3, 4, 5]"
    by (simp add: bech32m_create_checksum_def P_def Let_def)
  then show len: "length ?cs = 6" by simp
  have "d AND 31 < 32" for d :: nat using take_bit_eq_mask [of 5 d] take_bit_nat_less_exp [of 5 d] by (simp add: mask_eq_exp_minus_1)
  then show dig: "digits5 ?cs" unfolding cs by (simp add: digits5_def)
  have "P XOR BECH32M_CONST < 2 ^ 30"
    using lib by (intro xor_less_exp) (auto simp: bech32_lib_ok_def P_def BECH32M_CONST_def)
  then have "pack5 ?cs = P XOR BECH32M_CONST" unfolding cs by (rule pack5_digits)
  moreover have "bech32_polymod lib (?vs @ ?cs) = P XOR pack5 ?cs"
    using lib len dig unfolding bech32_lib_ok_def P_def by blast
  ultimately show "bech32_polymod lib (hrp_expand lib hrp @ data @ ?cs) = BECH32M_CONST"
    by (simp add: xor.assoc [symmetric])
qed

lemma bech32m_encode_decodes:
  assumes lib: "addr_lib_ok lib" and enc: "bech32m_encode lib (get_hrp network) v p = Inr a"
    and v: "1 \<le> v" "v \<le> 16" and p: "2 \<le> length p" "length p \<le> 40"
  shows "decode_segwit lib (get_hrp network) a = Some (v, p) \<and> (\<exists>d. a = get_hrp network @ ''1'' @ d \<and> list_all bech32_char d)"
proof -
  have bl: "bech32_lib_ok lib" and dl: "bech32m_decoder_ok lib" using lib by (simp_all add: addr_lib_ok_def)
  from enc obtain ds where ds: "convertbits lib p = Some ds"
    and a: "a = get_hrp network @ ''1'' @ map (bech32_charset lib) ((v # ds) @ bech32m_create_checksum lib (get_hrp network) (v # ds))"
    by (auto simp: bech32m_encode_def Let_def split: option.splits)
  note cs = bech32m_checksum_verifies [OF bl, of "get_hrp network" "v # ds"]
  have dig: "digits5 ds" using bl ds by (auto simp: bech32_lib_ok_def)
  have "list_all bech32_char (map (bech32_charset lib) ((v # ds) @ bech32m_create_checksum lib (get_hrp network) (v # ds)))"
    using bl cs(3) dig v(2) by (auto simp: list_all_iff digits5_def bech32_lib_ok_def)
  moreover have "decode_segwit lib (get_hrp network) a = Some (v, p)"
    unfolding a using dl cs v p ds unfolding bech32m_decoder_ok_def by blast
  ultimately show ?thesis using a by blast
qed

lemma before_last_one_sep: "list_all bech32_char d \<Longrightarrow> before_last_one (h @ ''1'' @ d) = h"
proof -
  assume d: "list_all bech32_char d"
  have "dropWhile (\<lambda>c. c \<noteq> CHR ''1'') (rev d @ CHR ''1'' # rev h) = CHR ''1'' # rev h"
    using d by (induction d rule: rev_induct) (auto simp: bech32_char_def)
  then show ?thesis by (simp add: before_last_one_def)
qed

lemma ascii_lower_id: "(\<And>c. c \<in> set s \<Longrightarrow> \<not> (65 \<le> (of_char c :: nat) \<and> (of_char c :: nat) \<le> 90)) \<Longrightarrow> ascii_lower s = s"
  unfolding ascii_lower_def by (rule map_idI) auto

lemma segwit_text:
  assumes "a = get_hrp n @ ''1'' @ d" "list_all bech32_char d"
  shows "segwit_prefixed a" "before_last_one (ascii_lower a) = get_hrp n"
proof -
  have "ascii_lower d = d"
    using assms(2) by (intro ascii_lower_id) (auto simp: bech32_char_def list_all_iff)
  moreover have "ascii_lower (get_hrp n @ ''1'') = get_hrp n @ ''1''"
    by (cases n) (simp_all add: ascii_lower_def)
  ultimately have "ascii_lower a = a"
    by (simp add: assms(1) ascii_lower_def)
  then show "segwit_prefixed a" "before_last_one (ascii_lower a) = get_hrp n"
    using assms before_last_one_sep [OF assms(2), of "get_hrp n"]
    by (cases n; simp add: segwit_prefixed_def starts_with_def)+
qed

lemma base58_text:
  assumes "a = c # r" "c \<in> set ''132mn''"
  shows "\<not> segwit_prefixed a"
  using assms by (auto simp: segwit_prefixed_def starts_with_def ascii_lower_def)

lemma script_split2: "length s = n + 2 \<Longrightarrow> s = s ! 0 # s ! 1 # drop 2 s"
  by (cases s; cases "tl s") auto

lemma split_at2: "a \<le> b \<Longrightarrow> s = take a s @ slice s a b @ drop b s"
  unfolding slice_def by (metis append_take_drop_id drop_drop le_add_diff_inverse2)

lemma script_p2pkh:
  assumes "length s = 25"
  shows "s = [s ! 0, s ! 1, s ! 2] @ slice s 3 23 @ [s ! 23, s ! 24]"
proof -
  have "s = take 3 s @ slice s 3 23 @ drop 23 s" by (rule split_at2) simp
  moreover have "take 3 s = [s ! 0, s ! 1, s ! 2]"
    using assms by (intro nth_equalityI) (auto simp: nth_Cons' less_Suc_eq numeral_eq_Suc)
  moreover have "drop 23 s = [s ! 23, s ! 24]"
    using assms by (intro nth_equalityI) (auto simp: nth_Cons' less_Suc_eq numeral_eq_Suc)
  ultimately show ?thesis by metis
qed

lemma script_p2sh:
  assumes "length s = 23"
  shows "s = [s ! 0, s ! 1] @ slice s 2 22 @ [s ! 22]"
proof -
  have "s = take 2 s @ slice s 2 22 @ drop 22 s" by (rule split_at2) simp
  moreover have "take 2 s = [s ! 0, s ! 1]"
    using assms by (intro nth_equalityI) (auto simp: nth_Cons' less_Suc_eq numeral_eq_Suc)
  moreover have "drop 22 s = [s ! 22]"
    using assms by (intro nth_equalityI) (auto simp: nth_Cons' less_Suc_eq numeral_eq_Suc)
  ultimately show ?thesis by metis
qed

text \<open>An instance of the address libraries: bytes are written as two letters each.\<close>

definition nib_letter :: "nat \<Rightarrow> char" where
  "nib_letter n = char_of (97 + n)"

definition nibbles :: "bytes \<Rightarrow> nat list" where
  "nibbles p = concat (map (\<lambda>b. [unat b div 16, unat b mod 16]) p)"

fun of_nibbles :: "nat list \<Rightarrow> bytes" where
  "of_nibbles (a # b # r) = of_nat (16 * a + b) # of_nibbles r"
| "of_nibbles _ = []"

definition letters_lib :: addr_lib where
  "letters_lib = \<lparr>
     bech32_encode = (\<lambda>hrp v p. Some (hrp @ ''1'' @ map nib_letter (v # nibbles p) @ ''aaaaaa'')),
     convertbits = (\<lambda>p. Some (nibbles p)),
     hrp_expand = (\<lambda>_. []),
     bech32_polymod = (\<lambda>vs. BECH32M_CONST XOR (pack5 (drop (length vs - 6) vs) mod 2 ^ 30)),
     bech32_charset = nib_letter,
     decode_segwit = (\<lambda>hrp a. let d = map (\<lambda>c. of_char c - 97) (drop (length hrp + 1) a)
                               in Some (hd d, of_nibbles (take (length d - 7) (tl d)))),
     b58encode_check = (\<lambda>p. (if hd p = 0 then CHR ''1'' else if hd p = 0x6F then CHR ''m''
                              else if hd p = 5 then CHR ''3'' else CHR ''2'') # map (\<lambda>b. char_of (unat b)) (tl p)),
     b58decode_check = (\<lambda>a. Some ((if hd a = CHR ''1'' then 0 else if hd a = CHR ''m'' then 0x6F
                                    else if hd a = CHR ''3'' then 5 else 0xC4) # map (\<lambda>c. of_nat (of_char c)) (tl a)))\<rparr>"

lemma nibbles_lt: "n \<in> set (nibbles p) \<Longrightarrow> n < 16"
proof -
  have "unat b div 16 < 16" for b :: byte
    using unsigned_less [of b, where ?'a = nat] by (simp add: less_mult_imp_div_less)
  then show "n \<in> set (nibbles p) \<Longrightarrow> n < 16" by (auto simp: nibbles_def)
qed

lemma of_nibbles_nibbles: "of_nibbles (nibbles p) = p"
  by (induction p) (simp_all add: nibbles_def)

lemma nib_letter: "n < 32 \<Longrightarrow> of_char (nib_letter n) = (97 + n :: nat)" "n < 32 \<Longrightarrow> bech32_char (nib_letter n)"
proof -
  show *: "n < 32 \<Longrightarrow> of_char (nib_letter n) = (97 + n :: nat)"
    by (simp add: nib_letter_def take_bit_eq_mod)
  have "of_char (CHR ''1'') = (49::nat)" by simp
  with * show "n < 32 \<Longrightarrow> bech32_char (nib_letter n)"
    by (auto simp: bech32_char_def)
qed

lemma nib_letter_0: "nib_letter 0 = CHR ''a''"
  using char_of_char [of "CHR ''a''", where ?'a = nat] by (simp add: nib_letter_def)

lemma letters_bech32m:
  "bech32m_encode letters_lib hrp v p = Inr (hrp @ ''1'' @ map nib_letter (v # nibbles p) @ ''aaaaaa'')"
  by (simp add: bech32m_encode_def bech32m_create_checksum_def letters_lib_def nib_letter_0 pack5_def Let_def)

lemma nibbles_digits: "digits5 (nibbles p)"
proof -
  have "n < 32" if "n \<in> set (nibbles p)" for n using nibbles_lt [OF that] by simp
  then show ?thesis by (simp add: digits5_def list_all_iff)
qed

lemma letters_decode:
  assumes "v < 32" "digits5 cs" "length cs = 6"
  shows "decode_segwit letters_lib hrp (hrp @ ''1'' @ map nib_letter ((v # nibbles p) @ cs)) = Some (v, p)"
proof -
  have m: "map ((\<lambda>c. of_char c - 97) \<circ> nib_letter) (nibbles p) = nibbles p"
    using nibbles_digits [of p] by (intro map_idI) (simp add: nib_letter(1) digits5_def list_all_iff)
  with assms show ?thesis by (simp add: letters_lib_def of_nibbles_nibbles nib_letter(1))
qed

lemma pack5_append: "pack5 (xs @ [d]) = 32 * pack5 xs + d"
  by (simp add: pack5_def)

lemma pack5_less: "digits5 ds \<Longrightarrow> pack5 ds < 32 ^ length ds"
proof (induction ds rule: rev_induct)
  case Nil
  then show ?case by (simp add: pack5_def)
next
  case (snoc d ds)
  then have "pack5 ds < 32 ^ length ds" "d < 32" by (simp_all add: digits5_def)
  then show ?case by (simp add: pack5_append)
qed

lemma letters_lib_ok: "addr_lib_ok letters_lib"
proof -
  have b58: "b58decode_check letters_lib (b58encode_check letters_lib (v # p)) = Some (v # p)
      \<and> (\<exists>c r. b58encode_check letters_lib (v # p) = c # r \<and> c \<in> set ''132mn'')"
    if "v \<in> {0x00, 0x6F, 0x05, 0xC4}" for v p
  proof -
    have "map ((\<lambda>c. of_nat (of_char c)) \<circ> (\<lambda>b. char_of (unat b))) p = (p :: bytes)"
      by (rule map_idI) (simp add: take_bit_eq_mod unsigned_less [where ?'a = nat and ?'b = 8, simplified])
    with that show ?thesis by (auto simp: letters_lib_def)
  qed
  have aaaaaa: "''aaaaaa'' = map nib_letter [0, 0, 0, 0, 0, 0]" by (simp add: nib_letter_0)
  have v0: "decode_segwit letters_lib hrp (hrp @ ''1'' @ map nib_letter (0 # nibbles p) @ ''aaaaaa'') = Some (0, p)" for hrp p
    using letters_decode [of 0 "[0, 0, 0, 0, 0, 0]" hrp p] by (simp add: aaaaaa digits5_def)
  have chars: "list_all bech32_char (map nib_letter (0 # nibbles p) @ ''aaaaaa'')" for p
    unfolding aaaaaa using nibbles_digits [of p] by (auto simp: list_all_iff digits5_def nib_letter(2))
  have poly: "bech32_polymod letters_lib (vs @ cs) = BECH32M_CONST XOR pack5 cs" if "length cs = 6" "digits5 cs" for vs cs
    using pack5_less [OF that(2)] that(1) by (simp add: letters_lib_def)
  have zeros: "bech32_polymod letters_lib (vs @ [0, 0, 0, 0, 0, 0]) = BECH32M_CONST" for vs
    by (subst poly) (simp_all add: digits5_def pack5_def)
  have "bech32_polymod letters_lib vs < 2 ^ 30" for vs
    by (simp add: letters_lib_def, rule xor_less_exp [of _ 30, simplified]) (simp_all add: BECH32M_CONST_def)
  moreover have "(\<exists>d. hrp @ ''1'' @ map nib_letter (0 # nibbles p) @ ''aaaaaa'' = hrp @ ''1'' @ d \<and> list_all bech32_char d)" for hrp p
    using chars by blast
  moreover have "bech32_encode letters_lib hrp 0 p = Some (hrp @ ''1'' @ map nib_letter (0 # nibbles p) @ ''aaaaaa'')" for hrp p
    by (simp add: letters_lib_def)
  moreover have "convertbits letters_lib p = Some (nibbles p)" "bech32_charset letters_lib = nib_letter" for p
    by (simp_all add: letters_lib_def)
  moreover have "decode_segwit letters_lib (get_hrp network) a = Some (0, p) \<and> (\<exists>d. a = get_hrp network @ ''1'' @ d \<and> list_all bech32_char d)"
    if "bech32_encode letters_lib (get_hrp network) 0 p = Some a" for network p a
  proof -
    have "a = get_hrp network @ ''1'' @ map nib_letter (0 # nibbles p) @ ''aaaaaa''" using that by (simp add: letters_lib_def)
    then show ?thesis using v0 chars by blast
  qed
  ultimately have "bech32_lib_ok letters_lib"
    unfolding bech32_lib_ok_def using nibbles_digits nib_letter(2) zeros poly by (intro conjI) auto
  moreover have "bech32m_decoder_ok letters_lib"
    unfolding bech32m_decoder_ok_def
  proof (intro allI impI)
    fix network and v :: nat and p :: bytes and ds cs
    assume "v \<le> 16" "convertbits letters_lib p = Some ds" "length cs = 6" "digits5 cs"
    then show "decode_segwit letters_lib (get_hrp network) (get_hrp network @ ''1'' @ map (bech32_charset letters_lib) ((v # ds) @ cs)) = Some (v, p)"
      using letters_decode [of v cs "get_hrp network" p] by (simp add: letters_lib_def)
  qed
  ultimately show ?thesis using b58 by (simp add: addr_lib_ok_def base58_lib_ok_def)
qed

lemma bech32_v0_decodes:
  assumes "addr_lib_ok lib" "length p \<in> {20, 32}" "bech32_encode lib (get_hrp network) 0 p = Some a"
  shows "decode_segwit lib (get_hrp network) a = Some (0, p) \<and> (\<exists>d. a = get_hrp network @ ''1'' @ d \<and> list_all bech32_char d)"
  using assms unfolding addr_lib_ok_def bech32_lib_ok_def by blast

lemma base58_decodes:
  assumes "addr_lib_ok lib" "v \<in> {0x00, 0x6F, 0x05, 0xC4}" "length p = 20"
  obtains c r where "b58decode_check lib (b58encode_check lib (v # p)) = Some (v # p)" "b58encode_check lib (v # p) = c # r" "c \<in> set ''132mn''"
  using assms unfolding addr_lib_ok_def base58_lib_ok_def by metis

lemma length_slice20: "n + 20 \<le> length s \<Longrightarrow> length (slice s n (n + 20)) = 20"
  by (simp add: slice_def)



end
