(* ===== verification/Py_Dict.thy ===== *)
theory Py_Dict
  imports Jm_Prelude "HOL-Library.AList" "HOL-Library.Multiset"
begin

text \<open>
  Python dictionaries and \<open>collections.Counter\<close>. A dictionary keeps the order in which its keys
  were first inserted and replaces a value in place, so it is an association list with
  \<open>AList.update\<close> and \<open>AList.delete\<close>; \<open>map_of\<close> is the lookup. \<open>Counter.most_common\<close>,
  \<open>sorted\<close> and \<open>list.sort\<close> are stable, as \<open>sort_key\<close> is.
\<close>

type_synonym ('k, 'v) dict = "('k \<times> 'v) list"

named_theorems dict_simps \<open>lookups after updates and deletions\<close>

abbreviation dict_get :: "('k, 'v) dict \<Rightarrow> 'k \<Rightarrow> 'v option" where
  "dict_get d k \<equiv> map_of d k"

abbreviation dict_put :: "'k \<Rightarrow> 'v \<Rightarrow> ('k, 'v) dict \<Rightarrow> ('k, 'v) dict" where
  "dict_put k v d \<equiv> AList.update k v d"

abbreviation dict_del :: "'k \<Rightarrow> ('k, 'v) dict \<Rightarrow> ('k, 'v) dict" where
  "dict_del k d \<equiv> AList.delete k d"

abbreviation dict_keys :: "('k, 'v) dict \<Rightarrow> 'k list" where
  "dict_keys d \<equiv> map fst d"

lemma dict_get_put [dict_simps]: "dict_get (dict_put k v d) k' = (if k' = k then Some v else dict_get d k')"
  by (simp add: update_conv')

lemma dict_get_del [dict_simps]: "dict_get (dict_del k d) k' = (if k' = k then None else dict_get d k')"
  by (simp add: delete_conv')

lemma dict_keys_put [dict_simps]:
  "set (dict_keys (dict_put k v d)) = insert k (set (dict_keys d))"
  by (induction d) auto

lemma dict_keys_del [dict_simps]:
  "set (dict_keys (dict_del k d)) = set (dict_keys d) - {k}"
  by (induction d) auto

lemma distinct_keys_put: "distinct (dict_keys d) \<Longrightarrow> distinct (dict_keys (dict_put k v d))"
  by (simp add: distinct_update)

lemma distinct_keys_del: "distinct (dict_keys d) \<Longrightarrow> distinct (dict_keys (dict_del k d))"
  by (simp add: distinct_delete)

lemma dict_put_fresh: "k \<notin> set (dict_keys d) \<Longrightarrow> dict_put k v d = d @ [(k, v)]"
  by (induction d) auto

lemma dict_get_None_iff: "dict_get d k = None \<longleftrightarrow> k \<notin> set (dict_keys d)"
  by (simp add: map_of_eq_None_iff)

lemma dict_get_in_set: "dict_get d k = Some v \<Longrightarrow> (k, v) \<in> set d"
  by (rule map_of_SomeD)

lemma length_dict_put:
  "length (dict_put k v d) = (if k \<in> set (dict_keys d) then length d else Suc (length d))"
  by (induction d) auto

lemma length_dict_del_le: "length (dict_del k d) \<le> length d"
  by (simp add: length_delete_le)

lemma set_dict_del: "set (dict_del k d) \<subseteq> set d"
  by (induction d) auto

lemma dict_del_fresh: "k \<notin> set (dict_keys d) \<Longrightarrow> dict_del k d = d"
  by (induction d) auto

lemma dict_del_put: "dict_put k v (dict_del k d) = dict_del k d @ [(k, v)]"
  by (rule dict_put_fresh) (simp add: dict_keys_del del: set_map)

lemma length_dict_del:
  "distinct (dict_keys d) \<Longrightarrow> k \<in> set (dict_keys d) \<Longrightarrow> Suc (length (dict_del k d)) = length d"
  by (induction d) (auto simp: dict_del_fresh)

lemma dict_put_values: "set (map snd (dict_put k v d)) \<subseteq> insert v (set (map snd d))"
  by (induction d) auto

text \<open>A dictionary built by a comprehension: a repeated key keeps its place and takes the last value.\<close>

fun dict_of :: "('k \<times> 'v) list \<Rightarrow> ('k, 'v) dict \<Rightarrow> ('k, 'v) dict" where
  "dict_of [] acc = acc"
| "dict_of ((k, v) # kvs) acc = dict_of kvs (dict_put k v acc)"

lemma dict_of_distinct:
  "distinct (map fst kvs) \<Longrightarrow> set (map fst kvs) \<inter> set (dict_keys acc) = {} \<Longrightarrow> dict_of kvs acc = acc @ kvs"
proof (induction kvs acc rule: dict_of.induct)
  case (1 acc)
  then show ?case by simp
next
  case (2 k v kvs acc)
  then have "dict_put k v acc = acc @ [(k, v)]" by (intro dict_put_fresh) auto
  with 2 show ?case by auto
qed

section \<open>Counter\<close>

fun counter :: "'a list \<Rightarrow> ('a, nat) dict \<Rightarrow> ('a, nat) dict" where
  "counter [] acc = acc"
| "counter (x # xs) acc =
     counter xs (dict_put x (Suc (case dict_get acc x of None \<Rightarrow> 0 | Some n \<Rightarrow> n)) acc)"

definition most_common :: "('a, nat) dict \<Rightarrow> ('a \<times> nat) list" where
  "most_common c = sort_key (\<lambda>x. - int (snd x)) c"

lemma counter_distinct: "distinct (dict_keys acc) \<Longrightarrow> distinct (dict_keys (counter xs acc))"
  by (induction xs arbitrary: acc) (auto simp: distinct_update)

lemma counter_get:
  "dict_get (counter xs acc) v =
     (case dict_get acc v of
        None \<Rightarrow> if v \<in> set xs then Some (count_list xs v) else None
      | Some n \<Rightarrow> Some (n + count_list xs v))"
proof (induction xs arbitrary: acc)
  case Nil
  then show ?case by (auto split: option.split)
next
  case (Cons x xs)
  then show ?case by (auto simp: update_conv' split: option.split)
qed

lemma counter_sum:
  "distinct (dict_keys acc) \<Longrightarrow> sum_list (map snd (counter xs acc)) = sum_list (map snd acc) + length xs"
proof (induction xs arbitrary: acc)
  case Nil
  then show ?case by simp
next
  case (Cons x xs)
  have "sum_list (map snd (dict_put x (Suc (case dict_get acc x of None \<Rightarrow> 0 | Some n \<Rightarrow> n)) acc))
      = Suc (sum_list (map snd acc))"
    using Cons.prems by (induction acc) (auto split: option.splits simp: map_of_eq_None_iff)
  with Cons show ?case by (simp add: distinct_update)
qed

lemma counter_set:
  "set (counter xs []) = (\<lambda>v. (v, count_list xs v)) ` set xs"
proof -
  have d: "distinct (dict_keys (counter xs []))" by (rule counter_distinct) simp
  have "(v, n) \<in> set (counter xs []) \<longleftrightarrow> v \<in> set xs \<and> n = count_list xs v" for v n
    using map_of_eq_Some_iff [OF d, of v n] by (auto simp: counter_get split: if_splits)
  then show ?thesis by auto
qed

section \<open>Stable sorting\<close>

lemma hd_sort_key:
  assumes "xs \<noteq> []"
  shows "hd (sort_key f xs) \<in> set xs" and "x \<in> set xs \<Longrightarrow> f (hd (sort_key f xs)) \<le> f x"
proof -
  obtain y ys where s: "sort_key f xs = y # ys"
    using assms by (metis length_sort length_0_conv neq_Nil_conv)
  have "set (y # ys) = set xs" by (metis s set_sort)
  then show "hd (sort_key f xs) \<in> set xs" by (auto simp: s)
  have "sorted (map f (y # ys))" by (metis s sorted_sort_key)
  then show "x \<in> set xs \<Longrightarrow> f (hd (sort_key f xs)) \<le> f x"
    using \<open>set (y # ys) = set xs\<close> by (auto simp: s)
qed

lemma sort_key_idem: "sort_key f (sort_key f xs) = sort_key f xs"
  by (rule sort_key_id_if_sorted) simp

end
