(* ===== verification/Btc_Amount.thy ===== *)
theory Btc_Amount
  imports Py_Numeric Btc_Tx
begin

text \<open>
  The amount arithmetic of \<open>jmcore/src/jmcore/bitcoin.py\<close>: \<open>validate_satoshi_amount\<close>,
  \<open>calculate_relative_fee\<close> and \<open>calculate_sweep_amount\<close>, over the fee strings the protocol
  carries. The locale \<open>relative_fees\<close> holds the arithmetic of a sweep: fees that are within half a
  satoshi per maker of the exact proportion. It is interpreted on the rounded fees of the model.
\<close>

section \<open>The functions\<close>

definition validate_satoshi_amount :: "int \<Rightarrow> unit res" where
  "validate_satoshi_amount sats = guard_res (\<not> sats < 0) (ValueError ''Amount cannot be negative'')"

definition has_e :: "string \<Rightarrow> bool" where
  "has_e s = (CHR ''e'' \<in> set s \<or> CHR ''E'' \<in> set s)"

definition has_point :: "string \<Rightarrow> bool" where
  "has_point s = (CHR ''.'' \<in> set s)"

definition bad_rate :: pyerr where
  "bad_rate = ValueError ''Fee rate must be decimal string or integer''"

definition calculate_relative_fee :: "int \<Rightarrow> string \<Rightarrow> int res" where
  "calculate_relative_fee amount_sats fee_rate =
     bind_res (validate_satoshi_amount amount_sats) (\<lambda>_.
     bind_res (if has_e fee_rate
               then (case py_decimal fee_rate of None \<Rightarrow> Inl bad_rate | Some d \<Rightarrow> Inr (format_f d))
               else Inr fee_rate) (\<lambda>fee_rate.
     if \<not> has_point fee_rate
     then (case py_int fee_rate of None \<Rightarrow> Inl bad_rate | Some val \<Rightarrow> Inr (amount_sats * val))
     else (case py_decimal fee_rate of
             None \<Rightarrow> Inl InvalidOperation
           | Some d \<Rightarrow>
               (case quantize_int (dec_mult_nat d (nat amount_sats)) of
                  None \<Rightarrow> Inl InvalidOperation
                | Some v \<Rightarrow> Inr v))))"

text \<open>\<open>fee.split(".")\<close>, its first two parts.\<close>

definition point_part0 :: "string \<Rightarrow> string" where
  "point_part0 s = takeWhile (\<lambda>c. c \<noteq> CHR ''.'') s"

definition point_part1 :: "string \<Rightarrow> string" where
  "point_part1 s = takeWhile (\<lambda>c. c \<noteq> CHR ''.'') (tl (dropWhile (\<lambda>c. c \<noteq> CHR ''.'') s))"

definition max_decimals :: "string list \<Rightarrow> nat" where
  "max_decimals fees =
     fold (\<lambda>fee m. if has_point fee then max m (length (point_part1 fee)) else m) fees 0"

definition fee_numerator :: "nat \<Rightarrow> string \<Rightarrow> int res" where
  "fee_numerator maxd fee_rate =
     (if has_point fee_rate
      then (case py_int (point_part0 fee_rate @ point_part1 fee_rate) of
              None \<Rightarrow> Inl (ValueError ''invalid literal for int()'')
            | Some n \<Rightarrow> Inr (n * 10 ^ (maxd - length (point_part1 fee_rate))))
      else (case py_int fee_rate of
              None \<Rightarrow> Inl (ValueError ''invalid literal for int()'')
            | Some n \<Rightarrow> Inr (n * 10 ^ maxd)))"

function sweep_loop :: "string list \<Rightarrow> int \<Rightarrow> int \<Rightarrow> int res" where
  "sweep_loop relative_fees available_sats cj_amount =
     (if cj_amount > 0 then
        bind_res (mapM_res (calculate_relative_fee cj_amount) relative_fees) (\<lambda>fs.
          if cj_amount + sum_list fs \<le> available_sats then Inr cj_amount
          else sweep_loop relative_fees available_sats (cj_amount - 1))
      else Inr cj_amount)"
  by pat_completeness auto
termination
  by (relation "measure (\<lambda>(_, _, cj). nat cj)") auto

declare sweep_loop.simps [simp del]

definition calculate_sweep_amount :: "int \<Rightarrow> string list \<Rightarrow> int res" where
  "calculate_sweep_amount available_sats relative_fees =
     bind_res (validate_satoshi_amount available_sats) (\<lambda>_.
     if relative_fees = [] then Inr available_sats
     else
       bind_res (mapM_res (\<lambda>fee.
           if has_e fee
           then (case py_decimal fee of None \<Rightarrow> Inl InvalidOperation | Some d \<Rightarrow> Inr (format_f d))
           else Inr fee) relative_fees) (\<lambda>fees.
       let maxd = max_decimals fees; denominator = 10 ^ maxd in
       bind_res (mapM_res (fee_numerator maxd) fees) (\<lambda>nums.
       let sum_numerators = sum_list nums in
       if denominator + sum_numerators = 0 then Inl ZeroDivisionError
       else sweep_loop fees available_sats
              ((available_sats * denominator) div (denominator + sum_numerators)))))"

section \<open>Plain decimal fees\<close>

text \<open>Digits, a point, digits: the form of a relative fee in an offer. Its exact value is
  \<open>fee_num s / 10 ^ fee_dec s\<close>.\<close>

definition plain_fee :: "string \<Rightarrow> bool" where
  "plain_fee s \<longleftrightarrow> has_point s \<and> list_all is_digit (point_part0 s @ point_part1 s) \<and>
     point_part0 s @ point_part1 s \<noteq> [] \<and> length s \<le> 4300 \<and>
     s = point_part0 s @ ''.'' @ point_part1 s"

definition fee_num :: "string \<Rightarrow> nat" where
  "fee_num s = digits_nat 0 (point_part0 s @ point_part1 s)"

definition fee_dec :: "string \<Rightarrow> nat" where
  "fee_dec s = length (point_part1 s)"

lemma not_digits [simp]:
  "\<not> is_digit CHR ''.''" "\<not> is_digit CHR ''e''" "\<not> is_digit CHR ''E''" "\<not> is_digit CHR ''_''"
  "\<not> is_digit CHR ''-''" "\<not> is_digit CHR ''+''"
  by (simp_all add: is_digit_def)

lemma plain_fee_chars:
  assumes "plain_fee s" "c \<in> set s"
  shows "is_digit c \<or> c = CHR ''.''"
proof -
  define i f where ifd: "i = point_part0 s" "f = point_part1 s"
  from assms(1) have "s = i @ ''.'' @ f" "list_all is_digit (i @ f)"
    by (simp_all add: plain_fee_def ifd)
  with assms(2) show ?thesis by (auto simp: list_all_iff)
qed

lemma takeWhile_digits: "list_all is_digit ds \<Longrightarrow> \<not> is_digit c \<Longrightarrow> takeWhile is_digit (ds @ c # r) = ds"
  by (induction ds) auto

lemma dropWhile_digits: "list_all is_digit ds \<Longrightarrow> \<not> is_digit c \<Longrightarrow> dropWhile is_digit (ds @ c # r) = c # r"
  by (induction ds) auto

lemma takeWhile_all: "list_all P ds \<Longrightarrow> takeWhile P ds = ds" "list_all P ds \<Longrightarrow> dropWhile P ds = []"
  by (induction ds) auto

lemma py_decimal_plain:
  assumes "plain_fee s"
  shows "py_decimal s = Some \<lparr>d_neg = False, d_coeff = fee_num s, d_exp = - int (fee_dec s)\<rparr>"
proof -
  define i f where ifd: "i = point_part0 s" "f = point_part1 s"
  from assms have s: "s = i @ CHR ''.'' # f" and d: "list_all is_digit i" "list_all is_digit f"
    and ne: "i @ f \<noteq> []" by (auto simp: plain_fee_def ifd)
  have sne: "s \<noteq> []" unfolding s by simp
  have nsp: "\<not> str_space c" "c \<noteq> CHR ''_''" "c \<noteq> CHR ''-''" "c \<noteq> CHR ''+''" if "c \<in> set s" for c
    using plain_fee_chars [OF assms that] digit_not_space by (auto simp: str_space_def)
  have st: "strip s = s" using nsp(1) [OF hd_in_set] nsp(1) [OF last_in_set] sne by (intro strip_id)
  have fi: "filter (\<lambda>c. c \<noteq> CHR ''_'') s = s" using nsp(2) by (simp add: filter_id_conv)
  have sg: "split_sign s = (False, s)"
    using nsp(3,4) [OF hd_in_set [OF sne]] by (cases s) (auto simp: split_sign_def)
  have tw: "takeWhile is_digit s = i" "dropWhile is_digit s = CHR ''.'' # f"
    unfolding s by (simp_all add: takeWhile_digits dropWhile_digits d)
  show ?thesis
    unfolding py_decimal_def st fi sg Let_def prod.case tw
    using ne by (simp add: takeWhile_all [OF d(2)] dec_exponent_def fee_num_def fee_dec_def flip: ifd)
qed

lemma plain_fee_no_e: "plain_fee s \<Longrightarrow> \<not> has_e s"
  using plain_fee_chars by (fastforce simp: has_e_def)

lemma plain_fee_point: "plain_fee s \<Longrightarrow> has_point s"
  by (simp add: plain_fee_def)

lemma calculate_relative_fee_plain_eq:
  assumes "plain_fee s" "0 \<le> a"
  shows "calculate_relative_fee a s =
    (case quantize_int (dec_mult_nat \<lparr>d_neg = False, d_coeff = fee_num s, d_exp = - int (fee_dec s)\<rparr> (nat a)) of
       None \<Rightarrow> Inl InvalidOperation | Some v \<Rightarrow> Inr v)"
  using assms by (simp add: calculate_relative_fee_def validate_satoshi_amount_def plain_fee_no_e
      plain_fee_point py_decimal_plain)

lemma fee_result_nonneg:
  assumes "plain_fee s" "0 \<le> a" "calculate_relative_fee a s = Inr v"
  shows "0 \<le> v"
  using assms(3) unfolding calculate_relative_fee_plain_eq [OF assms(1,2)]
  by (auto split: option.splits dest!: quantize_int_nonneg)

lemma relative_fee_rounded:
  assumes "plain_fee s" "0 \<le> a" "fee_num s * nat a < 10 ^ 27"
  shows "calculate_relative_fee a s = Inr (int (round_half_even (fee_num s * nat a) (10 ^ fee_dec s)))"
proof -
  let ?p = "fee_num s * nat a"
  have fin: "dec_mult_nat \<lparr>d_neg = False, d_coeff = fee_num s, d_exp = - int (fee_dec s)\<rparr> (nat a)
      = \<lparr>d_neg = False, d_coeff = ?p, d_exp = - int (fee_dec s)\<rparr>"
    unfolding dec_mult_nat_def using assms(3) by (subst dec_finalize_small) (simp_all add: dec_prec_def)
  have "round_half_even ?p (10 ^ fee_dec s) \<le> ?p div 10 ^ fee_dec s + 1"
    by (rule round_half_even_le) simp
  also have "\<dots> \<le> ?p + 1" by (simp add: div_le_dividend)
  finally have "round_half_even ?p (10 ^ fee_dec s) < 10 ^ 28" using assms(3) by simp
  then show ?thesis
    unfolding calculate_relative_fee_plain_eq [OF assms(1,2)] fin
    by (cases "fee_dec s = 0") (auto simp: quantize_int_def Let_def dec_prec_def round_half_even_def)
qed

section \<open>The arithmetic of a sweep\<close>

text \<open>
  \<open>fee x\<close> is the sum that \<open>m\<close> makers charge for the amount \<open>x\<close>, each fee rounded, at the exact
  total rate \<open>N / D\<close>.
\<close>

locale relative_fees =
  fixes fee :: "nat \<Rightarrow> nat" and D N m :: nat
  assumes D_pos: "0 < D"
    and fee_upper: "2 * D * fee x \<le> 2 * N * x + m * D"
    and fee_lower: "2 * N * x \<le> 2 * D * fee x + m * D"
begin

lemma fits_if:
  assumes "x + j = A * D div (D + N)" "m \<le> 2 * j"
  shows "x + fee x \<le> A"
proof -
  have "(x + j) * (D + N) \<le> A * D" unfolding assms(1) by (rule div_times_less_eq_dividend)
  then have a: "2 * x * (D + N) + 2 * j * (D + N) \<le> 2 * (A * D)" by (simp add: algebra_simps)
  have b: "m * D \<le> 2 * j * (D + N)" using assms(2) by (rule mult_le_mono) simp
  have "2 * D * (x + fee x) \<le> 2 * x * (D + N) + m * D"
    using fee_upper [of x] by (simp add: algebra_simps)
  also have "\<dots> \<le> 2 * (A * D)" using a b by linarith
  finally have "D * (x + fee x) \<le> D * A" by (simp add: algebra_simps)
  then show ?thesis using D_pos by simp
qed

lemma only_if_fits:
  assumes "x + fee x \<le> A"
  shows "2 * x \<le> 2 * (A * D div (D + N)) + m + 1"
proof -
  let ?s = "A * D div (D + N)"
  have "A * D < (?s + 1) * (D + N)"
    using dividend_less_div_times [of "D + N" "A * D"] D_pos by (simp add: algebra_simps)
  then have a: "2 * (A * D) < (2 * ?s + 2) * (D + N)" by (simp add: algebra_simps)
  have b: "m * D \<le> m * (D + N)" by simp
  have "2 * D * (x + fee x) \<le> 2 * D * A" using assms by (rule mult_le_mono2)
  then have "2 * x * (D + N) \<le> 2 * (A * D) + m * D"
    using fee_lower [of x] by (simp add: algebra_simps)
  then have "2 * x * (D + N) < (2 * ?s + 2 + m) * (D + N)"
    using a b by (simp add: algebra_simps)
  then have "2 * x < 2 * ?s + 2 + m" using mult_less_cancel2 by blast
  then show ?thesis by simp
qed

text \<open>The largest amount that fits, found by counting down, and the best amount of all differ by at
  most one satoshi per maker, and one.\<close>

lemma near_optimal:
  assumes start: "s = A * D div (D + N)" and r: "r \<le> s" "\<And>x. r < x \<Longrightarrow> x \<le> s \<Longrightarrow> \<not> x + fee x \<le> A"
    and x: "x + fee x \<le> A"
  shows "x \<le> r + m + 1"
proof -
  let ?j = "(m + 1) div 2"
  have "s \<le> r + ?j"
  proof (rule ccontr)
    assume "\<not> s \<le> r + ?j"
    then have "r < s - ?j" "s - ?j \<le> s" "(s - ?j) + ?j = s" by auto
    moreover have "(s - ?j) + fee (s - ?j) \<le> A"
      by (rule fits_if [of _ ?j]) (use calculation start in auto)
    ultimately show False using r(2) by blast
  qed
  with only_if_fits [OF x] start show ?thesis by simp
qed

end

text \<open>The rounded fees of a list of plain rates \<open>n / 10 ^ k\<close>, over their common denominator.\<close>

definition total_fee :: "(nat \<times> nat) list \<Rightarrow> nat \<Rightarrow> nat" where
  "total_fee ps x = sum_list (map (\<lambda>(n, k). round_half_even (n * x) (10 ^ k)) ps)"

definition rate_dec :: "(nat \<times> nat) list \<Rightarrow> nat" where
  "rate_dec ps = fold (\<lambda>(n, k) m. max m k) ps 0"

definition rate_num :: "nat \<Rightarrow> (nat \<times> nat) list \<Rightarrow> nat" where
  "rate_num K ps = sum_list (map (\<lambda>(n, k). n * 10 ^ (K - k)) ps)"

lemma fold_max_ge: "m0 \<le> fold (\<lambda>(n, k) m. max m k) ps m0"
  "(n, k) \<in> set ps \<Longrightarrow> k \<le> fold (\<lambda>(n, k) m. max m k) ps m0" for m0 :: nat
proof (induction ps arbitrary: m0)
  case Nil
  { case 1 then show ?case by simp }
  { case 2 then show ?case by simp }
next
  case (Cons p ps)
  { case 1 show ?case using Cons.IH(1) [of "max m0 (snd p)"] by (simp add: split_def) }
  { case 2 then show ?case using Cons.IH(1) [of "max m0 (snd p)"] Cons.IH(2) [of "max m0 (snd p)"]
      by (auto simp: split_def) }
qed

lemma rounded_rate:
  assumes "k \<le> K"
  shows "2 * 10 ^ K * round_half_even (n * x) (10 ^ k) \<le> 2 * (n * 10 ^ (K - k)) * x + 10 ^ K"
    and "2 * (n * 10 ^ (K - k)) * x \<le> 2 * 10 ^ K * round_half_even (n * x) (10 ^ k) + 10 ^ K"
proof -
  let ?r = "round_half_even (n * x) (10 ^ k)" and ?e = "10 ^ (K - k) :: nat"
  have K: "(10 :: nat) ^ K = 10 ^ k * ?e" using assms by (simp flip: power_add)
  have b: "2 * 10 ^ k * ?r \<le> 2 * (n * x) + 10 ^ k" "2 * (n * x) \<le> 2 * 10 ^ k * ?r + 10 ^ k"
    by (rule round_half_even_bounds, simp)+
  from mult_le_mono2 [OF b(1), of ?e] mult_le_mono2 [OF b(2), of ?e]
  show "2 * 10 ^ K * ?r \<le> 2 * (n * ?e) * x + 10 ^ K" "2 * (n * ?e) * x \<le> 2 * 10 ^ K * ?r + 10 ^ K"
    unfolding K by (simp_all add: algebra_simps)
qed

lemma total_fee_bounds:
  assumes "\<And>n k. (n, k) \<in> set ps \<Longrightarrow> k \<le> K"
  shows "2 * 10 ^ K * total_fee ps x \<le> 2 * rate_num K ps * x + length ps * 10 ^ K \<and>
         2 * rate_num K ps * x \<le> 2 * 10 ^ K * total_fee ps x + length ps * 10 ^ K"
  using assms
proof (induction ps)
  case Nil
  then show ?case by (simp add: total_fee_def rate_num_def)
next
  case (Cons p ps)
  obtain n k where p: "p = (n, k)" by fastforce
  then have "k \<le> K" using Cons.prems [of n k] by simp
  note this [THEN rounded_rate(1), of n x] this [THEN rounded_rate(2), of n x]
  moreover have "2 * 10 ^ K * total_fee ps x \<le> 2 * rate_num K ps * x + length ps * 10 ^ K \<and>
      2 * rate_num K ps * x \<le> 2 * 10 ^ K * total_fee ps x + length ps * 10 ^ K"
    using Cons.prems by (intro Cons.IH) (meson list.set_intros(2))
  moreover have "total_fee (p # ps) x = round_half_even (n * x) (10 ^ k) + total_fee ps x"
    "rate_num K (p # ps) = n * 10 ^ (K - k) + rate_num K ps"
    by (simp_all add: total_fee_def rate_num_def p)
  ultimately show ?case by (simp add: algebra_simps)
qed

interpretation sweep: relative_fees "total_fee ps" "10 ^ rate_dec ps" "rate_num (rate_dec ps) ps" "length ps" for ps
proof
  have le: "k \<le> rate_dec ps" if "(n, k) \<in> set ps" for n k
    unfolding rate_dec_def using that by (rule fold_max_ge(2))
  show "0 < (10 :: nat) ^ rate_dec ps" by simp
  fix x
  show "2 * 10 ^ rate_dec ps * total_fee ps x \<le> 2 * rate_num (rate_dec ps) ps * x + length ps * 10 ^ rate_dec ps"
    "2 * rate_num (rate_dec ps) ps * x \<le> 2 * 10 ^ rate_dec ps * total_fee ps x + length ps * 10 ^ rate_dec ps"
    using total_fee_bounds [of ps "rate_dec ps" x] le by blast+
qed

section \<open>Sweep amounts\<close>

text \<open>A fee string within the precision of the default context for every amount of bitcoin.\<close>

definition normal_fee :: "string \<Rightarrow> bool" where
  "normal_fee s \<longleftrightarrow> plain_fee s \<and> fee_num s < 10 ^ 11"

definition fee_pair :: "string \<Rightarrow> nat \<times> nat" where
  "fee_pair s = (fee_num s, fee_dec s)"

lemma relative_fee_normal:
  assumes "normal_fee s" "0 \<le> a" "a \<le> MAX_MONEY"
  shows "calculate_relative_fee a s = Inr (int (round_half_even (fee_num s * nat a) (10 ^ fee_dec s)))"
proof -
  have "fee_num s * nat a \<le> 10 ^ 11 * (21 * 10 ^ 14)"
    using assms by (intro mult_le_mono) (auto simp: normal_fee_def MAX_MONEY_def)
  also have "\<dots> < 10 ^ 27" by simp
  finally show ?thesis using assms by (intro relative_fee_rounded) (auto simp: normal_fee_def)
qed

lemma relative_fees_normal:
  assumes "list_all normal_fee fees" "0 \<le> a" "a \<le> MAX_MONEY"
  shows "\<exists>fs. mapM_res (calculate_relative_fee a) fees = Inr fs \<and>
              sum_list fs = int (total_fee (map fee_pair fees) (nat a))"
proof -
  let ?g = "\<lambda>s. int (round_half_even (fee_num s * nat a) (10 ^ fee_dec s))"
  have "mapM_res (calculate_relative_fee a) fees = Inr (map ?g fees)"
    using assms by (intro mapM_res_all_Inr relative_fee_normal) (auto simp: list_all_iff)
  moreover have "sum_list (map ?g fees) = int (total_fee (map fee_pair fees) (nat a))"
    by (induction fees) (auto simp: total_fee_def fee_pair_def)
  ultimately show ?thesis by blast
qed

lemma relative_fees_nonneg:
  assumes "list_all normal_fee fees" "0 \<le> a" "mapM_res (calculate_relative_fee a) fees = Inr fs"
  shows "0 \<le> sum_list fs"
proof -
  have "\<forall>v \<in> set fs. 0 \<le> v"
    using assms fee_result_nonneg
    by (fastforce simp: mapM_res_Inr_iff list_all2_conv_all_nth list_all_iff normal_fee_def in_set_conv_nth)
  then show ?thesis by (simp add: sum_list_nonneg)
qed

text \<open>The loop counts down to the first amount that fits.\<close>

lemma total_fee_0: "total_fee ps 0 = 0"
  by (induction ps) (auto simp: total_fee_def)

lemma sweep_loop_0: "sweep_loop fees available 0 = Inr 0"
  by (subst sweep_loop.simps) simp

lemma div_part_le: "0 < D \<Longrightarrow> a * D div (D + N) \<le> a" for a D N :: nat
proof -
  assume "0 < D"
  have "a * D div (D + N) \<le> a * (D + N) div (D + N)" by (intro div_le_mono mult_le_mono) simp_all
  also have "\<dots> = a" using \<open>0 < D\<close> by simp
  finally show ?thesis .
qed

lemma sweep_loop_result:
  assumes "list_all normal_fee fees" "s \<le> MAX_MONEY" "0 \<le> s" "0 \<le> available"
  defines "ps \<equiv> map fee_pair fees"
  shows "\<exists>r. sweep_loop fees available s = Inr (int r) \<and> int r \<le> s \<and> int (r + total_fee ps r) \<le> available \<and>
             (\<forall>x. r < x \<longrightarrow> int x \<le> s \<longrightarrow> \<not> int (x + total_fee ps x) \<le> available)"
  using assms(2,3)
proof (induction "nat s" arbitrary: s)
  case 0
  then show ?case using assms(4)
    by (intro exI [of _ 0]) (auto simp: total_fee_0 sweep_loop_0)
next
  case (Suc n)
  then have s: "0 < s" "0 \<le> s - 1" "s - 1 \<le> MAX_MONEY" "n = nat (s - 1)" by auto
  obtain fs where fs: "mapM_res (calculate_relative_fee s) fees = Inr fs"
    "sum_list fs = int (total_fee ps (nat s))"
    using relative_fees_normal [OF assms(1), of s] Suc.prems by (auto simp: ps_def)
  have step: "sweep_loop fees available s =
      (if s + sum_list fs \<le> available then Inr s else sweep_loop fees available (s - 1))"
    using s fs by (subst sweep_loop.simps) simp
  show ?case
  proof (cases "s + sum_list fs \<le> available")
    case True
    with s step fs show ?thesis by (intro exI [of _ "nat s"]) auto
  next
    case False
    obtain r where r: "sweep_loop fees available (s - 1) = Inr (int r)" "int r \<le> s - 1"
      "int (r + total_fee ps r) \<le> available"
      "\<forall>x. r < x \<longrightarrow> int x \<le> s - 1 \<longrightarrow> \<not> int (x + total_fee ps x) \<le> available"
      using Suc.hyps(1) [OF s(4) s(3) s(2)] by blast
    have "\<not> int (x + total_fee ps x) \<le> available" if "r < x" "int x \<le> s" for x
      using that r(4) False fs(2) by (cases "int x = s") auto
    with r step False show ?thesis by (intro exI [of _ r]) auto
  qed
qed

lemma fee_numerator_normal:
  assumes "normal_fee s"
  shows "fee_numerator K s = Inr (int (fee_num s * 10 ^ (K - fee_dec s)))"
proof -
  have p: "plain_fee s" using assms by (simp add: normal_fee_def)
  define i f where ifd: "i = point_part0 s" "f = point_part1 s"
  from p have "s = i @ ''.'' @ f" "list_all is_digit (i @ f)" "i @ f \<noteq> []" "length s \<le> 4300"
    by (simp_all add: plain_fee_def ifd)
  then have "py_int (i @ f) = Some (int (digits_nat 0 (i @ f)))" by (intro py_int_digits) auto
  then show ?thesis
    using plain_fee_point [OF p] by (simp add: fee_numerator_def fee_num_def fee_dec_def ifd)
qed

lemma max_decimals_normal:
  "list_all normal_fee fees \<Longrightarrow> max_decimals fees = rate_dec (map fee_pair fees)"
proof -
  have "list_all normal_fee fees \<Longrightarrow>
      fold (\<lambda>fee m. if has_point fee then max m (length (point_part1 fee)) else m) fees m0 =
      fold (\<lambda>(n, k) m. max m k) (map fee_pair fees) m0" for m0
    by (induction fees arbitrary: m0) (auto simp: normal_fee_def plain_fee_point fee_pair_def fee_dec_def)
  then show "list_all normal_fee fees \<Longrightarrow> ?thesis" by (simp add: max_decimals_def rate_dec_def)
qed

lemma rate_num_fees:
  "sum_list (map (\<lambda>s. int (fee_num s * 10 ^ (K - fee_dec s))) fees) = int (rate_num K (map fee_pair fees))"
  unfolding rate_num_def by (induction fees) (auto simp: fee_pair_def)

lemma sweep_start:
  assumes "list_all normal_fee fees" "fees \<noteq> []" "0 \<le> available"
  defines "ps \<equiv> map fee_pair fees"
  shows "calculate_sweep_amount available fees =
    sweep_loop fees available (int (nat available * 10 ^ rate_dec ps div (10 ^ rate_dec ps + rate_num (rate_dec ps) ps)))"
proof -
  let ?K = "rate_dec ps"
  have norm: "mapM_res (\<lambda>fee. if has_e fee
      then (case py_decimal fee of None \<Rightarrow> Inl InvalidOperation | Some d \<Rightarrow> Inr (format_f d))
      else Inr fee) fees = Inr fees"
    using assms(1) by (subst mapM_res_all_Inr [of _ _ "\<lambda>f. f"])
      (auto simp: list_all_iff normal_fee_def plain_fee_no_e)
  have nums: "mapM_res (fee_numerator ?K) fees = Inr (map (\<lambda>s. int (fee_num s * 10 ^ (?K - fee_dec s))) fees)"
    using assms(1) by (intro mapM_res_all_Inr fee_numerator_normal) (auto simp: list_all_iff)
  have sum: "sum_list (map (\<lambda>s. int (fee_num s * 10 ^ (?K - fee_dec s))) fees) = int (rate_num ?K ps)"
    unfolding ps_def by (rule rate_num_fees)
  have "(10 :: int) ^ ?K + int (rate_num ?K ps) \<noteq> 0"
    by (metis add_nonneg_eq_0_iff of_nat_0_le_iff power_eq_0_iff zero_le_numeral zero_le_power zero_neq_numeral)
  moreover have "int (nat available * 10 ^ ?K div (10 ^ ?K + rate_num ?K ps))
      = available * 10 ^ ?K div (10 ^ ?K + int (rate_num ?K ps))"
    using assms(3) by (simp add: zdiv_int)
  ultimately show ?thesis
    using assms(2,3) norm nums sum max_decimals_normal [OF assms(1)]
    by (simp add: calculate_sweep_amount_def validate_satoshi_amount_def Let_def ps_def)
qed

text \<open>C31: a sweep with relative fees always returns an amount; the amount together with the fees that
  the makers will actually charge on it, each rounded, is at most what is available; and no amount
  that fits exceeds it by more than one satoshi per maker and one.\<close>

theorem calculate_sweep_amount_funded:
  assumes fees: "list_all normal_fee fees" "fees \<noteq> []" and a: "0 \<le> available" "available \<le> MAX_MONEY"
  shows "\<exists>cj fs. calculate_sweep_amount available fees = Inr cj \<and> 0 \<le> cj \<and>
    mapM_res (calculate_relative_fee cj) fees = Inr fs \<and> cj + sum_list fs \<le> available \<and>
    (\<forall>x gs. 0 \<le> x \<and> mapM_res (calculate_relative_fee x) fees = Inr gs \<and> x + sum_list gs \<le> available
       \<longrightarrow> x \<le> cj + int (length fees) + 1)"
proof -
  define ps where "ps = map fee_pair fees"
  let ?D = "10 ^ rate_dec ps" and ?N = "rate_num (rate_dec ps) ps"
  define s where "s = nat available * ?D div (?D + ?N)"
  have "s \<le> nat available"
    unfolding s_def by (rule div_part_le) simp
  then have "int s \<le> MAX_MONEY" using a by simp
  then obtain r where r: "sweep_loop fees available (int s) = Inr (int r)" "int r \<le> int s"
    "int (r + total_fee ps r) \<le> available"
    "\<forall>x. r < x \<longrightarrow> int x \<le> int s \<longrightarrow> \<not> int (x + total_fee ps x) \<le> available"
    using sweep_loop_result [OF fees(1) _ _ a(1), of "int s"] by (auto simp: ps_def)
  have cj: "calculate_sweep_amount available fees = Inr (int r)"
    using sweep_start [OF fees a(1)] r(1) by (simp add: ps_def s_def)
  have rM: "int r \<le> MAX_MONEY" using r(2) \<open>int s \<le> MAX_MONEY\<close> by simp
  obtain fs where fs: "mapM_res (calculate_relative_fee (int r)) fees = Inr fs"
    "sum_list fs = int (total_fee ps r)"
    using relative_fees_normal [OF fees(1) _ rM] by (auto simp: ps_def)
  have opt: "x \<le> int r + int (length fees) + 1"
    if x: "0 \<le> x" "mapM_res (calculate_relative_fee x) fees = Inr gs" "x + sum_list gs \<le> available" for x gs
  proof -
    have "x \<le> MAX_MONEY" using relative_fees_nonneg [OF fees(1) x(1,2)] x(3) a(2) by simp
    then have "nat x + total_fee ps (nat x) \<le> nat available"
      using relative_fees_normal [OF fees(1) x(1)] x by (auto simp: ps_def)
    then have "nat x \<le> r + length ps + 1"
      using r a(1) by (intro sweep.near_optimal [OF s_def]) auto
    then show ?thesis using x(1) by (simp add: ps_def)
  qed
  show ?thesis using cj fs r(3) opt by (intro exI [of _ "int r"] exI [of _ fs]) auto
qed

theorem calculate_sweep_amount_funded_witness:
  "\<exists>cj. calculate_sweep_amount 400 [''0.001'', ''0.0025''] = Inr cj \<and> 0 \<le> cj \<and> cj \<le> 400"
proof -
  have n: "list_all normal_fee [''0.001'', ''0.0025'']" by code_simp
  have b: "(0::int) \<le> 400" "400 \<le> MAX_MONEY" by (simp_all add: MAX_MONEY_def)
  obtain cj fs where cj: "calculate_sweep_amount 400 [''0.001'', ''0.0025''] = Inr cj" "0 \<le> cj"
    "mapM_res (calculate_relative_fee cj) [''0.001'', ''0.0025''] = Inr fs" "cj + sum_list fs \<le> 400"
    using calculate_sweep_amount_funded [OF n _ b] by blast
  with relative_fees_nonneg [OF n cj(2,3)] show ?thesis by auto
qed

end
