(* ===== verification/Jm_Offers.thy ===== *)
theory Jm_Offers
  imports Btc_Amount
begin

text \<open>
  Offers: the offer types, fee computation and validation of \<open>jmcore/src/jmcore/models.py\<close> and the
  liquidity arithmetic of \<open>maker/src/maker/offer_math.py\<close>.

  A fee is an integer or a string, as in the code (\<open>cjfee: str | int\<close>). The locale
  \<open>monotone_bound\<close> is the contract of the binary search in \<open>max_fillable_cj_amount\<close>: a
  requirement that never decreases with the amount.
\<close>

section \<open>Offer types and fees\<close>

datatype offer_type = SW0_ABSOLUTE | SW0_RELATIVE | SWA_ABSOLUTE | SWA_RELATIVE | TR0_ABSOLUTE | TR0_RELATIVE

datatype cjfee = FeeInt int | FeeStr string

definition is_absolute_offer_type :: "offer_type \<Rightarrow> bool" where
  "is_absolute_offer_type t \<longleftrightarrow> List.member [SW0_ABSOLUTE, SWA_ABSOLUTE, TR0_ABSOLUTE] t"

definition is_taproot_offer_type :: "offer_type \<Rightarrow> bool" where
  "is_taproot_offer_type t \<longleftrightarrow> List.member [TR0_ABSOLUTE, TR0_RELATIVE] t"

definition offer_output_script_type :: "offer_type \<Rightarrow> string" where
  "offer_output_script_type t = (if is_taproot_offer_type t then ''p2tr'' else ''p2wpkh'')"

definition offer_types_for_family :: "offer_type \<Rightarrow> offer_type set" where
  "offer_types_for_family t =
     (if is_taproot_offer_type t then {TR0_ABSOLUTE, TR0_RELATIVE} else {SW0_ABSOLUTE, SW0_RELATIVE})"

text \<open>\<open>int(cjfee)\<close> and \<open>str(cjfee)\<close>.\<close>

definition int_of_fee :: "cjfee \<Rightarrow> int res" where
  "int_of_fee f = (case f of
     FeeInt n \<Rightarrow> Inr n
   | FeeStr s \<Rightarrow> (case py_int s of None \<Rightarrow> Inl (ValueError ''invalid literal for int()'') | Some n \<Rightarrow> Inr n))"

definition str_of_fee :: "cjfee \<Rightarrow> string" where
  "str_of_fee f = (case f of FeeInt n \<Rightarrow> str_of_int n | FeeStr s \<Rightarrow> s)"

definition calculate_cj_fee :: "offer_type \<Rightarrow> cjfee \<Rightarrow> int \<Rightarrow> int res" where
  "calculate_cj_fee t f amount =
     (if is_absolute_offer_type t then int_of_fee f else calculate_relative_fee amount (str_of_fee f))"

section \<open>Validation\<close>

text \<open>\<open>normalize_relative_fee\<close> on the text of a fee. \<open>len(digits)\<close> is the number of digits of the
  coefficient. The special values that \<open>Decimal\<close> reads (\<open>"NaN"\<close>, \<open>"Infinity"\<close>) raise the same
  exception class as a text it cannot read.\<close>

definition dec_less_one :: "decimal \<Rightarrow> bool" where
  "dec_less_one d = (d_neg d \<or> d_coeff d = 0 \<or> (d_exp d < 0 \<and> d_coeff d < 10 ^ nat (- d_exp d)))"

definition normalize_relative_fee :: "string \<Rightarrow> string res" where
  "normalize_relative_fee text =
     (if length text > 128 then Inl (ValueError ''input exceeds maximum length'')
      else case py_decimal text of
        None \<Rightarrow> Inl (ValueError ''is not a valid decimal'')
      | Some fee \<Rightarrow>
          if num_digits (d_coeff fee) > 18 then Inl (ValueError ''has too many significant digits'')
          else if \<not> (- 64 \<le> d_exp fee \<and> d_exp fee \<le> 64) then Inl (ValueError ''exponent out of range'')
          else if d_neg fee \<and> d_coeff fee \<noteq> 0 then Inl (ValueError ''must be non-negative'')
          else if \<not> dec_less_one fee then Inl (ValueError ''must be less than 1'')
          else Inr (format_f fee))"

record offer =
  counterparty :: string
  oid :: int
  ordertype :: offer_type
  minsize :: int
  maxsize :: int
  txfee :: int
  cjfee :: cjfee
  fidelity_bond_value :: int

text \<open>The validators of the model \<open>Offer\<close>: the declared ranges, \<open>validate_cjfee\<close> (which also
  normalises the fee) and \<open>validate_size_range\<close>.\<close>

definition validate_cjfee :: "offer_type \<Rightarrow> cjfee \<Rightarrow> cjfee res" where
  "validate_cjfee t f =
     (if is_absolute_offer_type t then
        bind_res (int_of_fee f) (\<lambda>iv.
          if iv < 0 then Inl (ValueError ''absolute cjfee must be non-negative'')
          else if iv > MAX_MONEY then Inl (ValueError ''absolute cjfee exceeds maximum money supply'')
          else Inr (FeeInt iv))
      else map_res FeeStr (normalize_relative_fee (str_of_fee f)))"

definition in_money_range :: "int \<Rightarrow> bool" where
  "in_money_range n = (0 \<le> n \<and> n \<le> MAX_MONEY)"

definition validate_offer :: "offer \<Rightarrow> offer res" where
  "validate_offer ofr =
     bind_res (guard_res (counterparty ofr \<noteq> [] \<and> 0 \<le> oid ofr \<and> in_money_range (minsize ofr) \<and>
                 in_money_range (maxsize ofr) \<and> in_money_range (txfee ofr) \<and>
                 0 \<le> fidelity_bond_value ofr) (ValueError ''field out of range'')) (\<lambda>_.
     bind_res (validate_cjfee (ordertype ofr) (cjfee ofr)) (\<lambda>f.
     if minsize ofr > maxsize ofr
     then Inl (ValueError ''minsize must be less than or equal to maxsize'')
     else Inr (ofr\<lparr>cjfee := f\<rparr>)))"

section \<open>Liquidity\<close>

definition DUST_THRESHOLD :: int where
  "DUST_THRESHOLD = 10 * (5 * 546)"

definition required_maker_input :: "offer \<Rightarrow> int \<Rightarrow> int res" where
  "required_maker_input ofr cj_amount =
     bind_res (calculate_cj_fee (ordertype ofr) (cjfee ofr) cj_amount) (\<lambda>fee.
       Inr (cj_amount + txfee ofr + DUST_THRESHOLD + 1 - fee))"

function max_fillable_search :: "(int \<Rightarrow> int res) \<Rightarrow> int \<Rightarrow> int \<Rightarrow> int \<Rightarrow> int res" where
  "max_fillable_search req max_balance low high =
     (if low < high then
        let midpoint = (low + high + 1) div 2 in
        bind_res (req midpoint) (\<lambda>r.
          if r \<le> max_balance then max_fillable_search req max_balance midpoint high
          else max_fillable_search req max_balance low (midpoint - 1))
      else Inr low)"
  by pat_completeness auto
termination
  by (relation "measure (\<lambda>(_, _, low, high). nat (high - low))") auto

declare max_fillable_search.simps [simp del]

text \<open>\<open>Decimal(str(offer.cjfee)) > 1\<close>\<close>

definition dec_gt_one :: "decimal \<Rightarrow> bool" where
  "dec_gt_one d = (\<not> d_neg d \<and>
     (if d_exp d \<ge> 0 then d_coeff d * 10 ^ nat (d_exp d) > 1 else d_coeff d > 10 ^ nat (- d_exp d)))"

definition max_fillable_cj_amount :: "offer \<Rightarrow> int \<Rightarrow> int option res" where
  "max_fillable_cj_amount ofr max_balance =
     (if max_balance < 0 then Inl (ValueError ''max_balance must be non-negative'')
      else
        bind_res (required_maker_input ofr MAX_MONEY) (\<lambda>maximum_required.
        let rest =
          bind_res (required_maker_input ofr 0) (\<lambda>r0.
            if r0 > max_balance then Inr None
            else if maximum_required \<le> max_balance then Inr (Some MAX_MONEY)
            else map_res Some (max_fillable_search (required_maker_input ofr) max_balance 0 MAX_MONEY))
        in if is_absolute_offer_type (ordertype ofr) then rest
           else case py_decimal (str_of_fee (cjfee ofr)) of
                  None \<Rightarrow> Inl InvalidOperation
                | Some fee_rate \<Rightarrow>
                    if dec_gt_one fee_rate
                    then Inr (if maximum_required \<le> max_balance then Some MAX_MONEY else None)
                    else rest))"

section \<open>Binary search for the largest amount\<close>

locale monotone_bound =
  fixes req :: "int \<Rightarrow> int res" and val :: "int \<Rightarrow> int" and top :: int
  assumes req_defined: "0 \<le> x \<Longrightarrow> x \<le> top \<Longrightarrow> req x = Inr (val x)"
    and val_mono: "0 \<le> x \<Longrightarrow> x < top \<Longrightarrow> val x \<le> val (x + 1)"
begin

lemma val_le: "0 \<le> x \<Longrightarrow> x \<le> y \<Longrightarrow> y \<le> top \<Longrightarrow> val x \<le> val y"
proof (induction "nat (y - x)" arbitrary: y)
  case 0
  then show ?case by simp
next
  case (Suc n)
  then have "val x \<le> val (y - 1)" by (intro Suc.hyps(1)) auto
  moreover have "val (y - 1) \<le> val (y - 1 + 1)" using Suc by (intro val_mono) auto
  ultimately show ?case by simp
qed

lemma search_greatest:
  assumes "0 \<le> low" "low \<le> high" "high \<le> top" "val low \<le> b" "\<And>x. high < x \<Longrightarrow> x \<le> top \<Longrightarrow> b < val x"
  shows "\<exists>r. max_fillable_search req b low high = Inr r \<and> 0 \<le> r \<and> r \<le> top \<and> val r \<le> b \<and>
             (\<forall>x. r < x \<longrightarrow> x \<le> top \<longrightarrow> b < val x)"
  using assms
proof (induction "nat (high - low)" arbitrary: low high rule: less_induct)
  case less
  let ?m = "(low + high + 1) div 2"
  show ?case
  proof (cases "low < high")
    case False
    with less.prems show ?thesis by (subst max_fillable_search.simps) auto
  next
    case True
    then have m: "low < ?m" "?m \<le> high" by linarith+
    then have "req ?m = Inr (val ?m)" using less.prems by (intro req_defined) auto
    with True have step: "max_fillable_search req b low high =
        (if val ?m \<le> b then max_fillable_search req b ?m high else max_fillable_search req b low (?m - 1))"
      by (subst max_fillable_search.simps) (simp add: Let_def)
    show ?thesis
    proof (cases "val ?m \<le> b")
      case le: True
      show ?thesis unfolding step using less.prems m le by (simp, intro less.hyps) auto
    next
      case gt: False
      have "b < val x" if "?m - 1 < x" "x \<le> top" for x
        using val_le [of ?m x] that gt m less.prems by linarith
      then show ?thesis unfolding step using less.prems m gt by (simp, intro less.hyps) auto
    qed
  qed
qed

end

section \<open>The largest amount an offer can fill\<close>

text \<open>Offers with an integer fee, or with a relative fee that is a plain positive decimal, at most one and short enough for
  exact products within the precision of the context. These are among the offers that \<open>validate_offer\<close> leaves; it also leaves the
  relative fee \<open>0\<close> and rates with more digits.\<close>

definition quoted_offer :: "offer \<Rightarrow> bool" where
  "quoted_offer ofr = (case cjfee ofr of
     FeeInt c \<Rightarrow> is_absolute_offer_type (ordertype ofr)
   | FeeStr s \<Rightarrow> \<not> is_absolute_offer_type (ordertype ofr) \<and> normal_fee s \<and> fee_num s \<le> 10 ^ fee_dec s)"

text \<open>The fee and the requirement as plain functions of the amount.\<close>

definition fee_value :: "cjfee \<Rightarrow> int \<Rightarrow> int" where
  "fee_value f x = (case f of
     FeeInt c \<Rightarrow> c
   | FeeStr s \<Rightarrow> int (round_half_even (fee_num s * nat x) (10 ^ fee_dec s)))"

definition required_value :: "offer \<Rightarrow> int \<Rightarrow> int" where
  "required_value ofr x = x + txfee ofr + DUST_THRESHOLD + 1 - fee_value (cjfee ofr) x"

lemma quoted_fee:
  assumes "quoted_offer ofr" "0 \<le> x" "x \<le> MAX_MONEY"
  shows "calculate_cj_fee (ordertype ofr) (cjfee ofr) x = Inr (fee_value (cjfee ofr) x)"
  using assms relative_fee_normal
  by (auto simp: quoted_offer_def calculate_cj_fee_def fee_value_def int_of_fee_def str_of_fee_def
      split: cjfee.splits)

lemma rate_step:
  assumes "n \<le> d" "0 < (d :: nat)"
  shows "round_half_even (n * Suc x) d \<le> round_half_even (n * x) d + 1"
proof (cases "n = d")
  case True
  with assms round_half_even_mult [of d "Suc x"] show ?thesis by (simp del: mult_Suc_right)
next
  case False
  with assms have "round_half_even (n * x + n) d \<le> round_half_even (n * x) d + 1"
    by (intro round_half_even_step) simp
  then show ?thesis by (simp add: algebra_simps)
qed

lemma fee_value_step:
  assumes "quoted_offer ofr" "0 \<le> x"
  shows "fee_value (cjfee ofr) (x + 1) \<le> fee_value (cjfee ofr) x + 1"
proof (cases "cjfee ofr")
  case (FeeInt c)
  then show ?thesis by (simp add: fee_value_def)
next
  case (FeeStr s)
  have "nat (x + 1) = Suc (nat x)" using assms(2) by simp
  moreover have "round_half_even (fee_num s * Suc (nat x)) (10 ^ fee_dec s)
      \<le> round_half_even (fee_num s * nat x) (10 ^ fee_dec s) + 1"
    using assms(1) FeeStr by (intro rate_step) (auto simp: quoted_offer_def)
  ultimately show ?thesis using FeeStr by (simp add: fee_value_def del: mult_Suc_right)
qed

lemma quoted_offer_bound:
  assumes "quoted_offer ofr"
  shows "monotone_bound (required_maker_input ofr) (required_value ofr) MAX_MONEY"
proof
  show "required_maker_input ofr x = Inr (required_value ofr x)" if "0 \<le> x" "x \<le> MAX_MONEY" for x
    using quoted_fee [OF assms that] by (simp add: required_maker_input_def required_value_def)
  show "required_value ofr x \<le> required_value ofr (x + 1)" if "0 \<le> x" "x < MAX_MONEY" for x
    using fee_value_step [OF assms that(1)] by (simp add: required_value_def)
qed

text \<open>Every offer with an absolute fee, whatever the fee.\<close>

interpretation absolute_fill: monotone_bound
    "required_maker_input (ofr\<lparr>ordertype := SW0_ABSOLUTE, cjfee := FeeInt c\<rparr>)"
    "required_value (ofr\<lparr>ordertype := SW0_ABSOLUTE, cjfee := FeeInt c\<rparr>)" MAX_MONEY for ofr c
  by (rule quoted_offer_bound) (simp add: quoted_offer_def is_absolute_offer_type_def)

text \<open>C32: \<open>max_fillable_cj_amount\<close> returns the greatest amount up to the money supply that the
  balance covers with the maker's fee contribution and its change above dust, and \<open>None\<close> exactly
  when the balance covers no amount at all.\<close>

theorem max_fillable_greatest:
  assumes q: "quoted_offer ofr" and b: "0 \<le> max_balance"
  shows "\<exists>res. max_fillable_cj_amount ofr max_balance = Inr res \<and>
    (case res of
       None \<Rightarrow> \<forall>x. 0 \<le> x \<and> x \<le> MAX_MONEY \<longrightarrow> (\<exists>r. required_maker_input ofr x = Inr r \<and> max_balance < r)
     | Some a \<Rightarrow> 0 \<le> a \<and> a \<le> MAX_MONEY \<and>
         (\<exists>r. required_maker_input ofr a = Inr r \<and> r \<le> max_balance) \<and>
         (\<forall>x. a < x \<and> x \<le> MAX_MONEY \<longrightarrow> (\<exists>r. required_maker_input ofr x = Inr r \<and> max_balance < r)))"
proof -
  note mb = quoted_offer_bound [OF q]
  have M: "0 \<le> MAX_MONEY" by (simp add: MAX_MONEY_def)
  note req = monotone_bound.req_defined [OF mb]
  have plain: "\<not> dec_gt_one d"
    if "py_decimal (str_of_fee (cjfee ofr)) = Some d" "\<not> is_absolute_offer_type (ordertype ofr)" for d
    using that q by (auto simp: quoted_offer_def str_of_fee_def dec_gt_one_def normal_fee_def
        py_decimal_plain split: cjfee.splits if_splits)
  have defd: "py_decimal (str_of_fee (cjfee ofr)) \<noteq> None" if "\<not> is_absolute_offer_type (ordertype ofr)"
    using that q by (auto simp: quoted_offer_def str_of_fee_def normal_fee_def py_decimal_plain split: cjfee.splits)
  have eq: "max_fillable_cj_amount ofr max_balance =
      (if required_value ofr 0 > max_balance then Inr None
       else if required_value ofr MAX_MONEY \<le> max_balance then Inr (Some MAX_MONEY)
       else map_res Some (max_fillable_search (required_maker_input ofr) max_balance 0 MAX_MONEY))"
    using b M req plain defd
    by (cases "is_absolute_offer_type (ordertype ofr)"; cases "py_decimal (str_of_fee (cjfee ofr))")
       (auto simp: max_fillable_cj_amount_def Let_def)
  show ?thesis
  proof (cases "required_value ofr 0 > max_balance")
    case True
    then have "max_balance < required_value ofr x" if "0 \<le> x" "x \<le> MAX_MONEY" for x
      using monotone_bound.val_le [OF mb, of 0 x] that by simp
    with True eq req show ?thesis by auto
  next
    case False
    show ?thesis
    proof (cases "required_value ofr MAX_MONEY \<le> max_balance")
      case True
      with False eq req M show ?thesis by auto
    next
      case F2: False
      obtain r where r: "max_fillable_search (required_maker_input ofr) max_balance 0 MAX_MONEY = Inr r"
        "0 \<le> r" "r \<le> MAX_MONEY" "required_value ofr r \<le> max_balance"
        "\<forall>x. r < x \<longrightarrow> x \<le> MAX_MONEY \<longrightarrow> max_balance < required_value ofr x"
        using monotone_bound.search_greatest [OF mb, of 0 MAX_MONEY max_balance] M False by auto
      then have "max_fillable_cj_amount ofr max_balance = Inr (Some r)" using eq False F2 by simp
      with r req show ?thesis by auto
    qed
  qed
qed

definition ex_offer :: offer where
  "ex_offer = \<lparr>counterparty = ''J5maker'', oid = 0, ordertype = SW0_RELATIVE, minsize = 100000,
     maxsize = 5000000, txfee = 500, cjfee = FeeStr ''0.0002'', fidelity_bond_value = 0\<rparr>"

theorem max_fillable_greatest_witness:
  "\<exists>res. max_fillable_cj_amount ex_offer 1000000 = Inr res \<and> res \<noteq> None"
proof -
  have q: "quoted_offer ex_offer" by code_simp
  have "required_maker_input ex_offer 0 = Inr 27801" by code_simp
  then show ?thesis
    using max_fillable_greatest [OF q, of 1000000] by (fastforce simp: MAX_MONEY_def split: option.splits)
qed

end
