(* ===== verification/Taker_Ring_Plan.thy ===== *)
theory Taker_Ring_Plan
  imports Btc_Script Py_Dict Jm_Offers
begin

text \<open>
  The finalised plan of a channel-ring transaction, the pydantic models of
  \<open>taker/src/taker/tx_builder.py\<close>: \<open>ChannelEndpointContribution\<close>, \<open>FinalizedRingChannelOutput\<close>,
  \<open>FinalizedOrdinaryMakerChange\<close> and \<open>FinalizedRingTransactionPlan\<close> with its validator.

  \<open>address_to_scriptpubkey_for_network\<close> is a call into python-bitcointx and a parameter of the
  definitions (\<open>None\<close> for the \<open>ValueError\<close> it raises).
\<close>

type_synonym net_decoder = "string \<Rightarrow> network_type \<Rightarrow> bytes option"

record endpoint_contribution =
  ec_participant :: string
  ec_amount :: int

record channel_output =
  co_edge_id :: string
  co_script_pubkey :: string
  co_address :: string
  co_capacity :: int
  co_opener :: endpoint_contribution
  co_fundee :: endpoint_contribution

record ordinary_change =
  oc_address :: string
  oc_script_pubkey :: string
  oc_amount :: int

record ring_plan =
  rp_network :: network_type
  rp_taker_id :: string
  rp_participant_ids :: "string list"
  rp_residuals :: "(string, int) dict"
  rp_ring_participant_ids :: "string list"
  rp_channel_outputs :: "channel_output list"
  rp_ordinary_maker_changes :: "(string, ordinary_change) dict"
  rp_ordinary_taker_change :: "ordinary_change option"

definition MIN_RING_PARTICIPANTS :: nat where
  "MIN_RING_PARTICIPANTS = 3"

definition money :: "int \<Rightarrow> bool" where
  "money n = (1 \<le> n \<and> n \<le> MAX_MONEY)"

definition sized :: "nat \<Rightarrow> nat \<Rightarrow> 'a list \<Rightarrow> bool" where
  "sized lo hi xs = (lo \<le> length xs \<and> length xs \<le> hi)"

definition lower_hex :: "string \<Rightarrow> bool" where
  "lower_hex s = list_all (\<lambda>c. c \<in> set ''0123456789abcdef'') s"

definition validate_endpoint :: "endpoint_contribution \<Rightarrow> bool" where
  "validate_endpoint e = (sized 1 128 (ec_participant e) \<and> money (ec_amount e))"

definition validate_contributions :: "channel_output \<Rightarrow> unit res" where
  "validate_contributions c =
     (if \<not> (sized 1 128 (co_edge_id c) \<and> sized 2 10000 (co_script_pubkey c) \<and> lower_hex (co_script_pubkey c) \<and>
            sized 1 320 (co_address c) \<and> money (co_capacity c) \<and>
            validate_endpoint (co_opener c) \<and> validate_endpoint (co_fundee c))
      then Inl (ValueError ''field constraint'')
      else if odd (length (co_script_pubkey c))
      then Inl (ValueError ''channel script_pubkey must have an even number of hex characters'')
      else if length (co_script_pubkey c) \<noteq> 68 \<or> \<not> starts_with (co_script_pubkey c) ''5120''
      then Inl (ValueError ''channel script_pubkey must be P2TR'')
      else if ec_participant (co_opener c) = ec_participant (co_fundee c)
      then Inl (ValueError ''channel endpoints must be distinct participants'')
      else if ec_amount (co_opener c) + ec_amount (co_fundee c) \<noteq> co_capacity c
      then Inl (ValueError ''endpoint contributions must equal channel capacity'')
      else Inr ())"

definition validate_ordinary_change :: "ordinary_change \<Rightarrow> unit res" where
  "validate_ordinary_change c =
     guard_res (sized 1 320 (oc_address c) \<and> length (oc_script_pubkey c) = 68 \<and> lower_hex (oc_script_pubkey c) \<and>
                starts_with (oc_script_pubkey c) ''5120'' \<and> money (oc_amount c)) (ValueError ''field constraint'')"

text \<open>The two loops of \<open>validate_plan\<close>.\<close>

definition decode_both :: "addr_lib \<Rightarrow> net_decoder \<Rightarrow> network_type \<Rightarrow> string \<Rightarrow> string \<Rightarrow> (bytes \<times> bytes \<times> string) option" where
  "decode_both lib decode network script_hex address =
     (case fromhex script_hex of Inl _ \<Rightarrow> None
      | Inr script \<Rightarrow> (case decode address network of None \<Rightarrow> None
        | Some decoded \<Rightarrow> (case scriptpubkey_to_address lib script network of Inl _ \<Rightarrow> None
          | Inr canonical \<Rightarrow> Some (script, decoded, canonical))))"

fun check_ordinary ::
  "addr_lib \<Rightarrow> net_decoder \<Rightarrow> ring_plan \<Rightarrow> (string, ordinary_change) dict \<Rightarrow> unit res" where
  "check_ordinary lib decode plan [] = Inr ()"
| "check_ordinary lib decode plan ((participant_id, change) # rest) =
     (case decode_both lib decode (rp_network plan) (oc_script_pubkey change) (oc_address change) of
        None \<Rightarrow> Inl (ValueError ''invalid ordinary change'')
      | Some (script, decoded_script, canonical_address) \<Rightarrow>
          if decoded_script \<noteq> script \<or> oc_address change \<noteq> canonical_address
          then Inl (ValueError ''ordinary change address and script_pubkey do not match the plan network'')
          else if oc_amount change < DUST_THRESHOLD
          then Inl (ValueError ''ordinary maker change below the dust threshold'')
          else if dict_get (rp_residuals plan) participant_id \<noteq> Some (oc_amount change)
          then Inl (ValueError ''ordinary maker change does not equal residual'')
          else check_ordinary lib decode plan rest)"

fun check_channels ::
  "addr_lib \<Rightarrow> net_decoder \<Rightarrow> ring_plan \<Rightarrow> nat \<Rightarrow> channel_output list \<Rightarrow> (string, int) dict \<Rightarrow> (string, int) dict \<Rightarrow>
   ((string, int) dict \<times> (string, int) dict) res" where
  "check_channels lib decode plan index [] outgoing incoming = Inr (outgoing, incoming)"
| "check_channels lib decode plan index (output # rest) outgoing incoming =
     (let ring = rp_ring_participant_ids plan;
          opener = ec_participant (co_opener output); fundee = ec_participant (co_fundee output) in
      case decode_both lib decode (rp_network plan) (co_script_pubkey output) (co_address output) of
        None \<Rightarrow> Inl (ValueError ''channel address and script_pubkey do not match the plan network'')
      | Some (script, decoded_script, canonical_address) \<Rightarrow>
          if decoded_script \<noteq> script \<or> ascii_lower (co_address output) \<noteq> canonical_address
          then Inl (ValueError ''channel address and script_pubkey do not match the plan network'')
          else if opener \<in> set (dict_keys outgoing)
          then Inl (ValueError ''participant opens more than one ring channel'')
          else if fundee \<in> set (dict_keys incoming)
          then Inl (ValueError ''participant accepts more than one ring channel'')
          else if opener \<noteq> ring ! index \<or> fundee \<noteq> ring ! (Suc index mod length ring)
          then Inl (ValueError ''ring channel outputs do not form the declared directed cycle'')
          else check_channels lib decode plan (Suc index) rest
                 (dict_put opener (ec_amount (co_opener output)) outgoing)
                 (dict_put fundee (ec_amount (co_fundee output)) incoming))"

definition ordinary_changes :: "ring_plan \<Rightarrow> (string, ordinary_change) dict" where
  "ordinary_changes plan = (case rp_ordinary_taker_change plan of
     None \<Rightarrow> rp_ordinary_maker_changes plan
   | Some c \<Rightarrow> dict_put (rp_taker_id plan) c (rp_ordinary_maker_changes plan))"

definition plan_fields_ok :: "ring_plan \<Rightarrow> bool" where
  "plan_fields_ok plan =
     (sized MIN_RING_PARTICIPANTS 32 (rp_participant_ids plan) \<and> sized MIN_RING_PARTICIPANTS 32 (rp_residuals plan) \<and>
      sized MIN_RING_PARTICIPANTS 32 (rp_ring_participant_ids plan) \<and>
      sized MIN_RING_PARTICIPANTS 32 (rp_channel_outputs plan) \<and>
      list_all (\<lambda>c. validate_contributions c = Inr ()) (rp_channel_outputs plan) \<and>
      list_all (\<lambda>(_, c). validate_ordinary_change c = Inr ()) (rp_ordinary_maker_changes plan) \<and>
      (case rp_ordinary_taker_change plan of None \<Rightarrow> True | Some c \<Rightarrow> validate_ordinary_change c = Inr ()))"

definition validate_plan :: "addr_lib \<Rightarrow> net_decoder \<Rightarrow> ring_plan \<Rightarrow> unit res" where
  "validate_plan lib decode plan =
     (let participants = rp_participant_ids plan; ring = rp_ring_participant_ids plan; taker = rp_taker_id plan;
          residuals = rp_residuals plan; taker_change = rp_ordinary_taker_change plan;
          channels = rp_channel_outputs plan; changes = ordinary_changes plan;
          scripts = map co_script_pubkey channels in
      bind_res (raise_if
        [(\<not> plan_fields_ok plan, ''field constraint''),
         (\<not> distinct participants, ''ring transaction plan contains duplicate participants''),
         (count_list participants taker \<noteq> 1, ''ring transaction plan must contain the taker exactly once''),
         (set (dict_keys residuals) \<noteq> set participants, ''ring residuals do not cover exactly all participants''),
         (\<not> list_all (money \<circ> snd) residuals, ''ring residual is outside Bitcoin money bounds''),
         (\<not> distinct ring, ''ring transaction plan contains duplicate ring participants''),
         (\<not> set ring \<subseteq> set participants, ''ring participants must be selected CoinJoin participants''),
         (taker \<notin> set ring \<and> taker_change = None, ''ring transaction plan must include the taker in the ring''),
         (taker \<in> set ring \<and> taker_change \<noteq> None, ''ring taker cannot also claim ordinary change''),
         (set (dict_keys (rp_ordinary_maker_changes plan)) \<noteq> set participants - set ring - {taker},
          ''ordinary maker changes must cover exactly non-ring participants''),
         (length channels \<noteq> length ring, ''ring transaction plan requires one channel output per ring participant''),
         (\<not> distinct (map co_edge_id channels), ''ring transaction plan contains duplicate edge IDs''),
         (\<not> distinct scripts, ''ring transaction plan contains duplicate channel scripts'')]) (\<lambda>_.
      bind_res (check_ordinary lib decode plan changes) (\<lambda>_.
      bind_res (raise_if
        [(\<not> distinct (scripts @ map (oc_script_pubkey \<circ> snd) changes),
          ''ring transaction plan contains duplicate output scripts'')]) (\<lambda>_.
      bind_res (check_channels lib decode plan 0 channels [] []) (\<lambda>(outgoing, incoming).
      raise_if
        [(set (dict_keys outgoing) \<noteq> set ring \<or> set (dict_keys incoming) \<noteq> set ring,
          ''every ring participant must open one and accept one ring channel''),
         (\<not> list_all (\<lambda>p. the (dict_get outgoing p) + the (dict_get incoming p) = the (dict_get residuals p)) ring,
          ''channel contributions do not equal residual''),
         (sum_list (map co_capacity channels) + sum_list (map (oc_amount \<circ> snd) changes) \<noteq> sum_list (map snd residuals),
          ''ring and ordinary output sum does not equal finalized residual sum'')])))))"

section \<open>What a validated plan guarantees\<close>

definition opened :: "channel_output list \<Rightarrow> (string, int) dict" where
  "opened cs = map (\<lambda>c. (ec_participant (co_opener c), ec_amount (co_opener c))) cs"

definition accepted :: "channel_output list \<Rightarrow> (string, int) dict" where
  "accepted cs = map (\<lambda>c. (ec_participant (co_fundee c), ec_amount (co_fundee c))) cs"

text \<open>What a participant has in the channels of the plan, and in its ordinary change.\<close>

definition paid_in :: "string \<Rightarrow> (string, int) dict \<Rightarrow> int" where
  "paid_in p d = sum_list (map (\<lambda>(k, v). if k = p then v else 0) d)"

definition change_of :: "ring_plan \<Rightarrow> string \<Rightarrow> int" where
  "change_of plan p = (case dict_get (ordinary_changes plan) p of None \<Rightarrow> 0 | Some c \<Rightarrow> oc_amount c)"

lemma paid_in_distinct:
  "distinct (dict_keys d) \<Longrightarrow> paid_in p d = (case dict_get d p of None \<Rightarrow> 0 | Some v \<Rightarrow> v)"
proof (induction d)
  case Nil
  then show ?case by (simp add: paid_in_def)
next
  case (Cons kv d)
  then have "fst kv = p \<Longrightarrow> dict_get d p = None" by (auto simp: dict_get_None_iff)
  with Cons show ?case by (cases kv) (auto simp: paid_in_def)
qed

text \<open>The loop over the channels: it records every endpoint once, along the cycle of the ring.\<close>

lemma check_channels_Inr:
  assumes "check_channels lib decode plan n cs outgoing incoming = Inr (out, inc)"
  shows "out = outgoing @ opened cs" "inc = incoming @ accepted cs"
    "distinct (dict_keys outgoing) \<Longrightarrow> distinct (dict_keys out)"
    "distinct (dict_keys incoming) \<Longrightarrow> distinct (dict_keys inc)"
    "j < length cs \<Longrightarrow> ec_participant (co_opener (cs ! j)) = rp_ring_participant_ids plan ! (n + j) \<and>
       ec_participant (co_fundee (cs ! j))
         = rp_ring_participant_ids plan ! (Suc (n + j) mod length (rp_ring_participant_ids plan))"
proof -
  have "out = outgoing @ opened cs \<and> inc = incoming @ accepted cs \<and>
    (distinct (dict_keys outgoing) \<longrightarrow> distinct (dict_keys out)) \<and>
    (distinct (dict_keys incoming) \<longrightarrow> distinct (dict_keys inc)) \<and>
    (\<forall>j < length cs. ec_participant (co_opener (cs ! j)) = rp_ring_participant_ids plan ! (n + j) \<and>
       ec_participant (co_fundee (cs ! j))
         = rp_ring_participant_ids plan ! (Suc (n + j) mod length (rp_ring_participant_ids plan)))"
    using assms
  proof (induction cs arbitrary: n outgoing incoming)
    case Nil
    then show ?case by (simp add: opened_def accepted_def)
  next
    case (Cons c cs)
    let ?ko = "ec_participant (co_opener c)" and ?kf = "ec_participant (co_fundee c)"
    let ?o = "dict_put ?ko (ec_amount (co_opener c)) outgoing"
    let ?i = "dict_put ?kf (ec_amount (co_fundee c)) incoming"
    from Cons.prems have rest: "check_channels lib decode plan (Suc n) cs ?o ?i = Inr (out, inc)"
      and fresh: "?ko \<notin> set (dict_keys outgoing)" "?kf \<notin> set (dict_keys incoming)"
      and head: "?ko = rp_ring_participant_ids plan ! n"
        "?kf = rp_ring_participant_ids plan ! (Suc n mod length (rp_ring_participant_ids plan))"
      by (auto simp: Let_def split: option.splits prod.splits if_splits)
    note IH = Cons.IH [OF rest]
    have "?o = outgoing @ [(?ko, ec_amount (co_opener c))]" "?i = incoming @ [(?kf, ec_amount (co_fundee c))]"
      using fresh by (simp_all add: dict_put_fresh del: set_map)
    with IH have "out = outgoing @ opened (c # cs)" "inc = incoming @ accepted (c # cs)"
      by (simp_all add: opened_def accepted_def)
    moreover have "distinct (dict_keys outgoing) \<longrightarrow> distinct (dict_keys out)"
      "distinct (dict_keys incoming) \<longrightarrow> distinct (dict_keys inc)"
      using IH distinct_update [of outgoing] distinct_update [of incoming] by blast+
    moreover have "\<forall>j < length (c # cs).
        ec_participant (co_opener ((c # cs) ! j)) = rp_ring_participant_ids plan ! (n + j) \<and>
        ec_participant (co_fundee ((c # cs) ! j))
          = rp_ring_participant_ids plan ! (Suc (n + j) mod length (rp_ring_participant_ids plan))"
      using IH head by (auto simp: less_Suc_eq_0_disj)
    ultimately show ?case by blast
  qed
  then show "out = outgoing @ opened cs" "inc = incoming @ accepted cs"
    "distinct (dict_keys outgoing) \<Longrightarrow> distinct (dict_keys out)"
    "distinct (dict_keys incoming) \<Longrightarrow> distinct (dict_keys inc)"
    "j < length cs \<Longrightarrow> ec_participant (co_opener (cs ! j)) = rp_ring_participant_ids plan ! (n + j) \<and>
       ec_participant (co_fundee (cs ! j))
         = rp_ring_participant_ids plan ! (Suc (n + j) mod length (rp_ring_participant_ids plan))"
    by blast+
qed

lemma check_ordinary_Inr:
  "check_ordinary lib decode plan d = Inr () \<Longrightarrow> dict_get d p = Some c \<Longrightarrow>
   dict_get (rp_residuals plan) p = Some (oc_amount c) \<and> DUST_THRESHOLD \<le> oc_amount c"
  by (induction d) (auto split: option.splits prod.splits if_splits)

lemma validate_plan_Inr:
  assumes "validate_plan lib decode plan = Inr ()"
  obtains out inc where
    "check_ordinary lib decode plan (ordinary_changes plan) = Inr ()"
    "check_channels lib decode plan 0 (rp_channel_outputs plan) [] [] = Inr (out, inc)"
    "set (dict_keys out) = set (rp_ring_participant_ids plan)"
    "set (dict_keys inc) = set (rp_ring_participant_ids plan)"
    "\<And>p. p \<in> set (rp_ring_participant_ids plan) \<Longrightarrow>
       the (dict_get out p) + the (dict_get inc p) = the (dict_get (rp_residuals plan) p)"
    "set (dict_keys (rp_residuals plan)) = set (rp_participant_ids plan)"
    "set (rp_ring_participant_ids plan) \<subseteq> set (rp_participant_ids plan)"
    "rp_taker_id plan \<notin> set (rp_ring_participant_ids plan) \<longleftrightarrow> rp_ordinary_taker_change plan \<noteq> None"
    "set (dict_keys (rp_ordinary_maker_changes plan))
       = set (rp_participant_ids plan) - set (rp_ring_participant_ids plan) - {rp_taker_id plan}"
    "length (rp_channel_outputs plan) = length (rp_ring_participant_ids plan)"
    "distinct (map co_script_pubkey (rp_channel_outputs plan) @ map (oc_script_pubkey \<circ> snd) (ordinary_changes plan))"
    "sum_list (map co_capacity (rp_channel_outputs plan)) + sum_list (map (oc_amount \<circ> snd) (ordinary_changes plan))
       = sum_list (map snd (rp_residuals plan))"
proof -
  from assms obtain out inc where
    "check_ordinary lib decode plan (ordinary_changes plan) = Inr ()"
    "check_channels lib decode plan 0 (rp_channel_outputs plan) [] [] = Inr (out, inc)"
    unfolding validate_plan_def Let_def by (auto simp: bind_res_Inr_iff simp del: raise_if.simps raise_if_Inr)
  with assms show ?thesis
    by (intro that [of out inc])
       (auto simp: validate_plan_def Let_def bind_res_Inr_iff list_all_iff simp del: set_map raise_if.simps)
qed

lemma ordinary_changes_get:
  "dict_get (ordinary_changes plan) p =
     (case rp_ordinary_taker_change plan of
        None \<Rightarrow> dict_get (rp_ordinary_maker_changes plan) p
      | Some c \<Rightarrow> if p = rp_taker_id plan then Some c else dict_get (rp_ordinary_maker_changes plan) p)"
  by (simp add: ordinary_changes_def update_conv' split: option.split)

lemma ring_member_no_change:
  assumes "validate_plan lib decode plan = Inr ()" "p \<in> set (rp_ring_participant_ids plan)"
  shows "change_of plan p = 0"
  using assms(1)
proof (rule validate_plan_Inr)
  assume v: "rp_taker_id plan \<notin> set (rp_ring_participant_ids plan) \<longleftrightarrow> rp_ordinary_taker_change plan \<noteq> None"
    "set (dict_keys (rp_ordinary_maker_changes plan))
       = set (rp_participant_ids plan) - set (rp_ring_participant_ids plan) - {rp_taker_id plan}"
  have "dict_get (rp_ordinary_maker_changes plan) p = None"
    using assms(2) v(2) by (simp add: dict_get_None_iff del: set_map)
  with assms(2) v(1) show ?thesis
    by (auto simp: change_of_def ordinary_changes_get split: option.split)
qed

lemma ordinary_member_change:
  assumes "validate_plan lib decode plan = Inr ()"
    "p \<in> set (rp_participant_ids plan)" "p \<notin> set (rp_ring_participant_ids plan)"
  shows "dict_get (rp_residuals plan) p = Some (change_of plan p)"
  using assms(1)
proof (rule validate_plan_Inr)
  assume v: "check_ordinary lib decode plan (ordinary_changes plan) = Inr ()"
    "rp_taker_id plan \<notin> set (rp_ring_participant_ids plan) \<longleftrightarrow> rp_ordinary_taker_change plan \<noteq> None"
    "set (dict_keys (rp_ordinary_maker_changes plan))
       = set (rp_participant_ids plan) - set (rp_ring_participant_ids plan) - {rp_taker_id plan}"
  have "p \<noteq> rp_taker_id plan \<Longrightarrow> dict_get (rp_ordinary_maker_changes plan) p \<noteq> None"
    using assms v(3) by (simp add: dict_get_None_iff del: set_map)
  then obtain c where "dict_get (ordinary_changes plan) p = Some c"
    using assms v(2) by (cases "p = rp_taker_id plan") (auto simp: ordinary_changes_get split: option.split)
  then show ?thesis using check_ordinary_Inr [OF v(1)] by (simp add: change_of_def)
qed

lemma participant_residual:
  assumes valid: "validate_plan lib decode plan = Inr ()" and p: "p \<in> set (rp_participant_ids plan)"
  shows "dict_get (rp_residuals plan) p =
    Some (paid_in p (opened (rp_channel_outputs plan)) + paid_in p (accepted (rp_channel_outputs plan)) + change_of plan p)"
  using valid
proof (rule validate_plan_Inr)
  fix out inc
  let ?ring = "set (rp_ring_participant_ids plan)" and ?cs = "rp_channel_outputs plan"
  assume c: "check_channels lib decode plan 0 ?cs [] [] = Inr (out, inc)"
    and keys: "set (dict_keys out) = ?ring" "set (dict_keys inc) = ?ring"
    and res: "\<And>p. p \<in> ?ring \<Longrightarrow> the (dict_get out p) + the (dict_get inc p) = the (dict_get (rp_residuals plan) p)"
    and dom: "set (dict_keys (rp_residuals plan)) = set (rp_participant_ids plan)"
  have io: "out = opened ?cs" "inc = accepted ?cs" "distinct (dict_keys out)" "distinct (dict_keys inc)"
    using check_channels_Inr [OF c] by simp_all
  note paid = paid_in_distinct [OF io(3), of p] paid_in_distinct [OF io(4), of p]
  show ?thesis
  proof (cases "p \<in> ?ring")
    case True
    obtain a b r where "dict_get out p = Some a" "dict_get inc p = Some b" "dict_get (rp_residuals plan) p = Some r"
      using True p keys dom dict_get_None_iff [of out p] dict_get_None_iff [of inc p]
        dict_get_None_iff [of "rp_residuals plan" p] by auto
    with res [OF True] paid ring_member_no_change [OF valid True] show ?thesis by (simp flip: io(1,2))
  next
    case False
    then have "dict_get out p = None" "dict_get inc p = None"
      using keys by (simp_all add: dict_get_None_iff del: set_map)
    with paid ordinary_member_change [OF valid p False] show ?thesis by (simp flip: io(1,2))
  qed
qed

lemma ring_channel_endpoints:
  assumes "validate_plan lib decode plan = Inr ()" "j < length (rp_ring_participant_ids plan)"
  shows "ec_participant (co_opener (rp_channel_outputs plan ! j)) = rp_ring_participant_ids plan ! j \<and>
    ec_participant (co_fundee (rp_channel_outputs plan ! j))
      = rp_ring_participant_ids plan ! (Suc j mod length (rp_ring_participant_ids plan))"
  using assms(1)
proof (rule validate_plan_Inr)
  fix out inc
  assume "check_channels lib decode plan 0 (rp_channel_outputs plan) [] [] = Inr (out, inc)"
    "length (rp_channel_outputs plan) = length (rp_ring_participant_ids plan)"
  with assms(2) show ?thesis using check_channels_Inr(5) [of lib decode plan 0 _ "[]" "[]" out inc j] by simp
qed

text \<open>C19: a validated ring plan accounts for every satoshi of every participant. What a participant
  funds as opener, what it funds as fundee and its ordinary change add up to its residual; a ring
  participant has no ordinary change and is the opener of the channel at its position, whose fundee is
  the next participant of the ring; all output scripts are distinct; and the outputs together are the
  residuals together.\<close>

theorem validate_plan_exact:
  assumes "validate_plan lib decode plan = Inr ()"
  shows "(\<forall>p \<in> set (rp_participant_ids plan).
      dict_get (rp_residuals plan) p =
        Some (paid_in p (opened (rp_channel_outputs plan)) + paid_in p (accepted (rp_channel_outputs plan)) + change_of plan p)) \<and>
    (\<forall>j < length (rp_ring_participant_ids plan).
      ec_participant (co_opener (rp_channel_outputs plan ! j)) = rp_ring_participant_ids plan ! j \<and>
      ec_participant (co_fundee (rp_channel_outputs plan ! j))
        = rp_ring_participant_ids plan ! (Suc j mod length (rp_ring_participant_ids plan)) \<and>
      change_of plan (rp_ring_participant_ids plan ! j) = 0) \<and>
    distinct (map co_script_pubkey (rp_channel_outputs plan) @ map (oc_script_pubkey \<circ> snd) (ordinary_changes plan)) \<and>
    sum_list (map co_capacity (rp_channel_outputs plan)) + sum_list (map (oc_amount \<circ> snd) (ordinary_changes plan))
       = sum_list (map snd (rp_residuals plan))"
proof (intro conjI ballI allI impI)
  show "distinct (map co_script_pubkey (rp_channel_outputs plan) @ map (oc_script_pubkey \<circ> snd) (ordinary_changes plan))"
    using assms by (rule validate_plan_Inr)
  show "sum_list (map co_capacity (rp_channel_outputs plan)) + sum_list (map (oc_amount \<circ> snd) (ordinary_changes plan))
       = sum_list (map snd (rp_residuals plan))"
    using assms by (rule validate_plan_Inr)
qed (use participant_residual [OF assms] ring_channel_endpoints [OF assms] ring_member_no_change [OF assms] in simp_all)

text \<open>A ring of three with a fourth, ordinary maker.\<close>

definition letters_decode_net :: net_decoder where
  "letters_decode_net a network = (case address_to_scriptpubkey letters_lib a of Inl _ \<Rightarrow> None | Inr s \<Rightarrow> Some s)"

text \<open>The address and the script of the key with every nibble the same, as letter and as digit.\<close>

definition ex_addr :: "char \<Rightarrow> string" where
  "ex_addr letter = ''bcrt1b'' @ replicate 64 letter @ ''aaaaaa''"

definition ex_script :: "char \<Rightarrow> string" where
  "ex_script digit = ''5120'' @ replicate 64 digit"

definition ex_channel :: "char \<Rightarrow> char \<Rightarrow> string \<Rightarrow> int \<Rightarrow> string \<Rightarrow> int \<Rightarrow> channel_output" where
  "ex_channel letter digit p a q b = \<lparr>co_edge_id = [digit], co_script_pubkey = ex_script digit,
     co_address = ex_addr letter, co_capacity = a + b,
     co_opener = \<lparr>ec_participant = p, ec_amount = a\<rparr>, co_fundee = \<lparr>ec_participant = q, ec_amount = b\<rparr>\<rparr>"

definition ex_plan :: ring_plan where
  "ex_plan = \<lparr>rp_network = REGTEST, rp_taker_id = ''taker'', rp_participant_ids = [''taker'', ''m1'', ''m2'', ''m3''],
     rp_residuals = [(''taker'', 70000), (''m1'', 50000), (''m2'', 60000), (''m3'', 30000)],
     rp_ring_participant_ids = [''taker'', ''m1'', ''m2''],
     rp_channel_outputs = [ex_channel (CHR ''b'') (CHR ''1'') ''taker'' 40000 ''m1'' 20000,
       ex_channel (CHR ''c'') (CHR ''2'') ''m1'' 30000 ''m2'' 25000,
       ex_channel (CHR ''d'') (CHR ''3'') ''m2'' 35000 ''taker'' 30000],
     rp_ordinary_maker_changes = [(''m3'', \<lparr>oc_address = ex_addr (CHR ''e''), oc_script_pubkey = ex_script (CHR ''4''),
       oc_amount = 30000\<rparr>)],
     rp_ordinary_taker_change = None\<rparr>"

lemma ex_plan_valid: "validate_plan letters_lib letters_decode_net ex_plan = Inr ()"
  by code_simp

theorem validate_plan_exact_witness:
  "dict_get (rp_residuals ex_plan) ''m1'' =
     Some (paid_in ''m1'' (opened (rp_channel_outputs ex_plan)) + paid_in ''m1'' (accepted (rp_channel_outputs ex_plan))
       + change_of ex_plan ''m1'')"
  using validate_plan_exact [OF ex_plan_valid] by (simp add: ex_plan_def)

end
