(* ===== verification/Taker_Tx_Builder.thy ===== *)
theory Taker_Tx_Builder
  imports Taker_Ring_Plan
begin

text \<open>
  The taker's transaction builder, \<open>taker/src/taker/tx_builder.py\<close>, and the locktime policy of
  \<open>jmcore/src/jmcore/transaction_policy.py\<close>. The two shuffles of \<open>build_unsigned_tx\<close> and the random
  numbers of \<open>compute_tx_locktime\<close> are arguments: the code draws them from the operating system.
\<close>

section \<open>Locktimes and sequences\<close>

definition MAX_LOCKTIME :: int where
  "MAX_LOCKTIME = 0xFFFFFFFF"

definition NON_RBF_LOCKTIME_SEQUENCE :: int where
  "NON_RBF_LOCKTIME_SEQUENCE = 0xFFFFFFFE"

text \<open>\<open>roll\<close> is the first call \<open>randint(0, 9)\<close>, \<open>back\<close> the second, \<open>randint(0, 99)\<close>.\<close>

definition compute_tx_locktime :: "int \<Rightarrow> int \<Rightarrow> int \<Rightarrow> int res" where
  "compute_tx_locktime current_height roll back =
     (if \<not> (0 \<le> current_height \<and> current_height \<le> MAX_LOCKTIME)
      then Inl (ValueError ''Invalid current block height'')
      else if current_height = 0 then Inr 0
      else if roll = 0 then Inr (max 1 (current_height - back))
      else Inr current_height)"

section \<open>Transaction data\<close>

datatype out_kind = CjOut | ChangeOut | ChannelOut

record utxo_dict =
  ud_txid :: string
  ud_vout :: int
  ud_value :: int
  ud_scriptpubkey :: string

record maker_data =
  md_utxos :: "utxo_dict list"
  md_cj_addr :: string
  md_change_addr :: string
  md_cjfee :: int
  md_txfee :: int

record coinjoin_tx_data =
  cd_taker_inputs :: "tx_input list"
  cd_taker_cj_output :: tx_output
  cd_taker_change_output :: "tx_output option"
  cd_maker_inputs :: "(string, tx_input list) dict"
  cd_maker_cj_outputs :: "(string, tx_output) dict"
  cd_maker_change_outputs :: "(string, tx_output) dict"
  cd_cj_amount :: int
  cd_total_maker_fee :: int
  cd_tx_fee :: int
  cd_ring_plan :: "ring_plan option"

record tx_metadata =
  tm_input_owners :: "string list"
  tm_output_owners :: "(string option \<times> out_kind) list"
  tm_input_values :: "int list"
  tm_fee :: int
  tm_channel_edges :: "string option list"
  tm_channel_endpoints :: "(endpoint_contribution \<times> endpoint_contribution) option list"

type_synonym owned_input = "tx_input \<times> string"
type_synonym owned_output = "tx_output \<times> string option \<times> out_kind"

record shuffler =
  shuffle_inputs :: "owned_input list \<Rightarrow> owned_input list"
  shuffle_outputs :: "owned_output list \<Rightarrow> owned_output list"

definition TAKER :: string where
  "TAKER = ''taker''"

section \<open>The builder\<close>

definition tx_builder_init :: "int \<Rightarrow> unit res" where
  "tx_builder_init locktime =
     guard_res (0 \<le> locktime \<and> locktime \<le> MAX_LOCKTIME) (ValueError ''Invalid transaction locktime'')"

definition serialize_tx :: "int \<Rightarrow> tx_input list \<Rightarrow> tx_output list \<Rightarrow> bytes res" where
  "serialize_tx locktime inputs outputs =
     serialize_transaction 2
       (if locktime \<noteq> 0 then map (\<lambda>i. i\<lparr>ti_sequence := NON_RBF_LOCKTIME_SEQUENCE\<rparr>) inputs else inputs)
       outputs locktime None"

definition collect_inputs :: "coinjoin_tx_data \<Rightarrow> owned_input list" where
  "collect_inputs d = map (\<lambda>i. (i, TAKER)) (cd_taker_inputs d) @
     concat (map (\<lambda>(nick, inputs). map (\<lambda>i. (i, nick)) inputs) (cd_maker_inputs d))"

definition cj_outputs :: "coinjoin_tx_data \<Rightarrow> owned_output list" where
  "cj_outputs d = (cd_taker_cj_output d, Some TAKER, CjOut) #
     map (\<lambda>(nick, out). (out, Some nick, CjOut)) (cd_maker_cj_outputs d)"

definition change_outputs :: "coinjoin_tx_data \<Rightarrow> owned_output list" where
  "change_outputs d =
     (case cd_taker_change_output d of None \<Rightarrow> [] | Some out \<Rightarrow> [(out, Some TAKER, ChangeOut)]) @
     map (\<lambda>(nick, out). (out, Some nick, ChangeOut)) (cd_maker_change_outputs d)"

text \<open>\<open>output.scriptpubkey\<close> of a \<open>TxOutput\<close>.\<close>

definition scriptpubkey_hex :: "tx_output \<Rightarrow> string" where
  "scriptpubkey_hex out = bytes_hex (to_script out)"

definition is_tr0_script :: "tx_output \<Rightarrow> bool" where
  "is_tr0_script out = (length (to_script out) = 34 \<and> take 2 (to_script out) = [0x51, 0x20])"

definition ring_outputs :: "coinjoin_tx_data \<Rightarrow> ring_plan \<Rightarrow> owned_output list res" where
  "ring_outputs d plan =
     (let expected_taker_change = rp_ordinary_taker_change plan;
          matches = (\<lambda>out change. scriptpubkey_hex out = oc_script_pubkey change \<and> to_value out = oc_amount change);
          equal_outputs = cd_taker_cj_output d # map snd (cd_maker_cj_outputs d);
          taker_scripts = (case expected_taker_change of None \<Rightarrow> [] | Some c \<Rightarrow> [oc_script_pubkey c]);
          all_ring_scripts = map scriptpubkey_hex equal_outputs @ map co_script_pubkey (rp_channel_outputs plan) @
            map (oc_script_pubkey \<circ> snd) (rp_ordinary_maker_changes plan) @ taker_scripts in
      bind_res (raise_if
        [((cd_taker_change_output d = None) \<noteq> (expected_taker_change = None),
          ''ring transactions cannot contain plain change outputs''),
         (case (expected_taker_change, cd_taker_change_output d) of
            (Some c, Some out) \<Rightarrow> \<not> matches out c | _ \<Rightarrow> False,
          ''ring transactions contain mismatched taker change output''),
         (set (dict_keys (cd_maker_change_outputs d)) \<noteq> set (dict_keys (rp_ordinary_maker_changes plan)),
          ''ring transactions contain unplanned maker change outputs''),
         (\<not> list_all (\<lambda>(nick, out). matches out (the (dict_get (rp_ordinary_maker_changes plan) nick)))
             (cd_maker_change_outputs d),
          ''ring transactions contain mismatched maker change outputs''),
         (set (rp_participant_ids plan) \<noteq> set (TAKER # dict_keys (cd_maker_cj_outputs d)),
          ''ring transaction participants do not match CoinJoin participants''),
         (\<not> list_all is_tr0_script equal_outputs, ''ring transactions require tr0 P2TR equal outputs''),
         (\<not> distinct all_ring_scripts, ''ring transaction contains duplicate output scripts'')]) (\<lambda>_.
      bind_res (mapM_res (\<lambda>c. map_res (\<lambda>out. (out, None, ChannelOut)) (txout_from_hex (co_script_pubkey c) (co_capacity c)))
                 (rp_channel_outputs plan)) (\<lambda>channels.
      bind_res (mapM_res (\<lambda>(nick, c). map_res (\<lambda>out. (out, Some nick, ChangeOut)) (txout_from_hex (oc_script_pubkey c) (oc_amount c)))
                 (rp_ordinary_maker_changes plan)) (\<lambda>changes.
      bind_res (case expected_taker_change of None \<Rightarrow> Inr []
                | Some c \<Rightarrow> map_res (\<lambda>out. [(out, Some TAKER, ChangeOut)]) (txout_from_hex (oc_script_pubkey c) (oc_amount c)))
        (\<lambda>taker. Inr (channels @ changes @ taker))))))"

definition channel_of :: "ring_plan \<Rightarrow> owned_output \<Rightarrow> channel_output option res" where
  "channel_of plan out =
     (if snd (snd out) = ChannelOut
      then (case dict_get (dict_of (map (\<lambda>c. (co_script_pubkey c, c)) (rp_channel_outputs plan)) [])
                   (scriptpubkey_hex (fst out)) of
              None \<Rightarrow> Inl KeyError | Some c \<Rightarrow> Inr (Some c))
      else Inr None)"

definition build_unsigned_tx :: "shuffler \<Rightarrow> int \<Rightarrow> coinjoin_tx_data \<Rightarrow> (bytes \<times> tx_metadata) res" where
  "build_unsigned_tx sh locktime d =
     bind_res (case cd_ring_plan d of None \<Rightarrow> Inr (change_outputs d) | Some plan \<Rightarrow> ring_outputs d plan) (\<lambda>more.
       let all_inputs = shuffle_inputs sh (collect_inputs d);
           all_outputs = shuffle_outputs sh (cj_outputs d @ more) in
       bind_res (case cd_ring_plan d of None \<Rightarrow> Inr [] | Some plan \<Rightarrow> mapM_res (channel_of plan) all_outputs) (\<lambda>chans.
       bind_res (serialize_tx locktime (map fst all_inputs) (map fst all_outputs)) (\<lambda>tx_bytes.
         Inr (tx_bytes,
           \<lparr>tm_input_owners = map snd all_inputs, tm_output_owners = map snd all_outputs,
            tm_input_values = map (ti_value \<circ> fst) all_inputs, tm_fee = cd_tx_fee d,
            tm_channel_edges = map (map_option co_edge_id) chans,
            tm_channel_endpoints = map (map_option (\<lambda>c. (co_opener c, co_fundee c))) chans\<rparr>))))"

section \<open>Building from the negotiated data\<close>

definition utxo_input :: "utxo_dict \<Rightarrow> tx_input res" where
  "utxo_input u = txin_from_hex (ud_txid u) (ud_vout u) [] 0xFFFFFFFF (ud_value u) (ud_scriptpubkey u)"

definition txout_from_address :: "addr_lib \<Rightarrow> string \<Rightarrow> int \<Rightarrow> tx_output res" where
  "txout_from_address lib address value =
     map_res (\<lambda>s. \<lparr>to_value = value, to_script = s\<rparr>) (address_to_scriptpubkey lib address)"

definition BITCOIN_DUST_THRESHOLD :: int where
  "BITCOIN_DUST_THRESHOLD = 5 * 546"

definition maker_change :: "int \<Rightarrow> maker_data \<Rightarrow> int" where
  "maker_change cj_amount m =
     sum_list (map ud_value (md_utxos m)) - cj_amount - md_txfee m + md_cjfee m"

text \<open>One turn of the loop over the makers: the inputs, the CoinJoin output and the change output,
  which a ring transaction leaves to the plan.\<close>

definition build_maker ::
  "addr_lib \<Rightarrow> int \<Rightarrow> bool \<Rightarrow> maker_data \<Rightarrow> (tx_input list \<times> tx_output \<times> tx_output option) res" where
  "build_maker lib cj_amount ring m =
     bind_res (mapM_res utxo_input (md_utxos m)) (\<lambda>inputs.
     bind_res (txout_from_address lib (md_cj_addr m) cj_amount) (\<lambda>cj_out.
     if maker_change cj_amount m < 0 then Inl (ValueError ''Maker has insufficient funds'')
     else if \<not> ring \<and> maker_change cj_amount m \<ge> DUST_THRESHOLD
     then map_res (\<lambda>out. (inputs, cj_out, Some out)) (txout_from_address lib (md_change_addr m) (maker_change cj_amount m))
     else Inr (inputs, cj_out, None)))"

definition build_makers ::
  "addr_lib \<Rightarrow> int \<Rightarrow> bool \<Rightarrow> (string, maker_data) dict \<Rightarrow> (string, tx_input list \<times> tx_output \<times> tx_output option) dict res" where
  "build_makers lib cj_amount ring makers =
     mapM_res (\<lambda>(nick, m). map_res (\<lambda>r. (nick, r)) (build_maker lib cj_amount ring m)) makers"

text \<open>Equality of two dictionaries, whatever their order.\<close>

definition dict_eq :: "('k, 'v) dict \<Rightarrow> ('k, 'v) dict \<Rightarrow> bool" where
  "dict_eq a b = (set (dict_keys a) = set (dict_keys b) \<and> list_all (\<lambda>k. dict_get a k = dict_get b k) (dict_keys a))"

definition taker_change_of :: "int \<Rightarrow> int \<Rightarrow> int \<Rightarrow> (string, maker_data) dict \<Rightarrow> int" where
  "taker_change_of taker_total_input cj_amount tx_fee makers =
     taker_total_input - cj_amount - sum_list (map (md_cjfee \<circ> snd) makers) - tx_fee"

definition planned_change ::
  "net_decoder \<Rightarrow> network_type \<Rightarrow> (string, maker_data) dict \<Rightarrow> string \<times> ordinary_change \<Rightarrow> (string \<times> tx_output) res" where
  "planned_change decode network makers entry =
     (case dict_get makers (fst entry) of
        None \<Rightarrow> Inl KeyError
      | Some m \<Rightarrow> (case decode (md_change_addr m) network of
          None \<Rightarrow> Inl (ValueError ''maker has an invalid ordinary change address'')
        | Some script \<Rightarrow>
            bind_res (fromhex (oc_script_pubkey (snd entry))) (\<lambda>planned.
              if script \<noteq> planned then Inl (ValueError ''maker ordinary change address differs from the ring plan'')
              else map_res (\<lambda>out. (fst entry, out)) (txout_from_hex (oc_script_pubkey (snd entry)) (oc_amount (snd entry))))))"

definition ring_checks ::
  "net_decoder \<Rightarrow> network_type \<Rightarrow> ring_plan \<Rightarrow> utxo_dict list \<Rightarrow> (string, maker_data) dict \<Rightarrow> string \<Rightarrow>
   tx_output option \<Rightarrow> int \<Rightarrow> int \<Rightarrow> int \<Rightarrow> (string, tx_output) dict res" where
  "ring_checks decode network plan taker_utxos makers taker_change_address taker_change_output taker_change cj_amount tx_fee =
     (let finalized = dict_of (map (\<lambda>(nick, m). (nick, maker_change cj_amount m)) makers) [(TAKER, taker_change)];
          ordinary_taker_change = rp_ordinary_taker_change plan;
          total_input_value = sum_list (map ud_value taker_utxos)
            + sum_list (map (\<lambda>(_, m). sum_list (map ud_value (md_utxos m))) makers);
          total_output_value = (int (length makers) + 1) * cj_amount
            + sum_list (map co_capacity (rp_channel_outputs plan))
            + sum_list (map (oc_amount \<circ> snd) (rp_ordinary_maker_changes plan))
            + (case ordinary_taker_change of None \<Rightarrow> 0 | Some c \<Rightarrow> oc_amount c);
          total_miner_fee = tx_fee + sum_list (map (md_txfee \<circ> snd) makers) in
      bind_res (raise_if
        [(set (rp_participant_ids plan) \<noteq> set (TAKER # dict_keys makers),
          ''ring transaction participants do not match taker and makers''),
         (\<not> dict_eq (rp_residuals plan) finalized,
          ''ring transaction contributions do not match finalized residuals'')]) (\<lambda>_.
      bind_res (mapM_res (planned_change decode network makers) (rp_ordinary_maker_changes plan)) (\<lambda>changes.
      bind_res (raise_if
        [(case ordinary_taker_change of None \<Rightarrow> False
          | Some c \<Rightarrow> taker_change_address \<noteq> oc_address c \<or>
              (case taker_change_output of None \<Rightarrow> True
               | Some out \<Rightarrow> scriptpubkey_hex out \<noteq> oc_script_pubkey c \<or> to_value out \<noteq> oc_amount c),
          ''taker ordinary change address or amount differs from the ring plan''),
         (total_input_value - total_output_value \<noteq> total_miner_fee,
          ''ring transaction outputs do not produce the declared miner fee'')]) (\<lambda>_. Inr changes))))"

definition taker_change_output_of ::
  "addr_lib \<Rightarrow> ring_plan option \<Rightarrow> string \<Rightarrow> int \<Rightarrow> tx_output option res" where
  "taker_change_output_of lib plan address change =
     (if (case plan of None \<Rightarrow> False | Some p \<Rightarrow> rp_ordinary_taker_change p \<noteq> None) \<and> address \<noteq> []
         \<or> plan = None \<and> change > BITCOIN_DUST_THRESHOLD \<and> address \<noteq> []
      then map_res Some (txout_from_address lib address change)
      else Inr None)"

definition build_coinjoin_tx ::
  "addr_lib \<Rightarrow> net_decoder \<Rightarrow> shuffler \<Rightarrow> utxo_dict list \<Rightarrow> string \<Rightarrow> string \<Rightarrow> int \<Rightarrow> (string, maker_data) dict \<Rightarrow>
   int \<Rightarrow> int \<Rightarrow> network_type \<Rightarrow> int \<Rightarrow> int \<Rightarrow> ring_plan option \<Rightarrow> (bytes \<times> tx_metadata) res" where
  "build_coinjoin_tx lib decode sh taker_utxos taker_cj_address taker_change_address taker_total_input makers
      cj_amount tx_fee network dust_threshold locktime plan =
     (if dust_threshold \<noteq> DUST_THRESHOLD then Inl (ValueError ''Maker change threshold is fixed'')
      else
        bind_res (tx_builder_init locktime) (\<lambda>_.
        bind_res (mapM_res utxo_input taker_utxos) (\<lambda>taker_inputs.
        let taker_change = taker_change_of taker_total_input cj_amount tx_fee makers in
        bind_res (txout_from_address lib taker_cj_address cj_amount) (\<lambda>taker_cj_output.
        bind_res (raise_if [(case plan of None \<Rightarrow> False | Some p \<Rightarrow> rp_network p \<noteq> network,
                    ''ring transaction plan network does not match transaction network'')]) (\<lambda>_.
        bind_res (taker_change_output_of lib plan taker_change_address taker_change) (\<lambda>taker_change_output.
        bind_res (build_makers lib cj_amount (plan \<noteq> None) makers) (\<lambda>built.
        bind_res (case plan of
            None \<Rightarrow> Inr (List.map_filter (\<lambda>(nick, _, _, chg). map_option (\<lambda>out. (nick, out)) chg) built)
          | Some p \<Rightarrow> ring_checks decode network p taker_utxos makers taker_change_address taker_change_output
                         taker_change cj_amount tx_fee) (\<lambda>maker_change_outputs.
          build_unsigned_tx sh locktime
            \<lparr>cd_taker_inputs = taker_inputs, cd_taker_cj_output = taker_cj_output,
             cd_taker_change_output = taker_change_output,
             cd_maker_inputs = map (\<lambda>(nick, ins, _). (nick, ins)) built,
             cd_maker_cj_outputs = map (\<lambda>(nick, _, out, _). (nick, out)) built,
             cd_maker_change_outputs = maker_change_outputs, cd_cj_amount = cj_amount,
             cd_total_maker_fee = sum_list (map (md_cjfee \<circ> snd) makers), cd_tx_fee = tx_fee,
             cd_ring_plan = plan\<rparr>))))))))"

section \<open>What the builder produces\<close>

definition shuffles :: "shuffler \<Rightarrow> bool" where
  "shuffles sh \<longleftrightarrow> (\<forall>xs. mset (shuffle_inputs sh xs) = mset xs) \<and> (\<forall>xs. mset (shuffle_outputs sh xs) = mset xs)"

definition canonical_txid :: "string \<Rightarrow> bool" where
  "canonical_txid t = (case fromhex t of Inl _ \<Rightarrow> False | Inr b \<Rightarrow> length b = 32 \<and> bytes_hex b = t)"

definition outpoint :: "utxo_dict \<Rightarrow> string \<times> int" where
  "outpoint u = (ud_txid u, ud_vout u)"

definition maker_utxos :: "(string, maker_data) dict \<Rightarrow> utxo_dict list" where
  "maker_utxos makers = concat (map (md_utxos \<circ> snd) makers)"

text \<open>The limits of the transaction parser, on what the builder is given.\<close>

definition tx_limits :: "utxo_dict list \<Rightarrow> (string, maker_data) dict \<Rightarrow> int \<Rightarrow> int \<Rightarrow> bool" where
  "tx_limits taker_utxos makers cj_amount taker_change \<longleftrightarrow>
     taker_utxos \<noteq> [] \<and> length (taker_utxos @ maker_utxos makers) \<le> 10000 \<and> length makers < 5000 \<and>
     list_all (canonical_txid \<circ> ud_txid) (taker_utxos @ maker_utxos makers) \<and> cj_amount \<le> MAX_MONEY \<and>
     taker_change \<le> MAX_MONEY \<and> list_all (\<lambda>(_, m). maker_change cj_amount m \<le> MAX_MONEY) makers"

lemma utxo_input_Inr:
  assumes "utxo_input u = Inr i" "canonical_txid (ud_txid u)"
  shows "length (ti_txid_le i) = 32" "(txin_txid i, ti_vout i) = outpoint u" "ti_value i = ud_value u"
  using assms by (auto simp: utxo_input_def txin_from_hex_def bind_res_Inr_iff canonical_txid_def outpoint_def
      txin_txid_def split: sum.splits)

lemma utxo_inputs_Inr:
  assumes "mapM_res utxo_input us = Inr ins" "list_all (canonical_txid \<circ> ud_txid) us"
  shows "list_all (\<lambda>i. length (ti_txid_le i) = 32) ins" "map (\<lambda>i. (txin_txid i, ti_vout i)) ins = map outpoint us"
    "map ti_value ins = map ud_value us"
proof -
  from assms(1) have "list_all2 (\<lambda>u i. utxo_input u = Inr i) us ins" by (simp add: mapM_res_Inr_iff)
  then have "list_all (\<lambda>i. length (ti_txid_le i) = 32) ins \<and>
      map (\<lambda>i. (txin_txid i, ti_vout i)) ins = map outpoint us \<and> map ti_value ins = map ud_value us"
    using assms(2) by (induction rule: list_all2_induct) (auto simp: utxo_input_Inr)
  then show "list_all (\<lambda>i. length (ti_txid_le i) = 32) ins" "map (\<lambda>i. (txin_txid i, ti_vout i)) ins = map outpoint us"
    "map ti_value ins = map ud_value us" by blast+
qed

lemma txout_from_address_Inr:
  "txout_from_address lib a v = Inr out \<longleftrightarrow>
     (\<exists>s. address_to_scriptpubkey lib a = Inr s \<and> out = \<lparr>to_value = v, to_script = s\<rparr>)"
  by (auto simp: txout_from_address_def map_res_Inr_iff)

text \<open>What the loop over the makers collects, when the plan does not take the change over.\<close>

definition built_changes ::
  "(string, tx_input list \<times> tx_output \<times> tx_output option) dict \<Rightarrow> (string, tx_output) dict" where
  "built_changes built = List.map_filter (\<lambda>(nick, _, _, chg). map_option (\<lambda>out. (nick, out)) chg) built"

definition kept_change :: "int \<Rightarrow> maker_data \<Rightarrow> bool" where
  "kept_change cj_amount m \<longleftrightarrow> maker_change cj_amount m \<ge> DUST_THRESHOLD"

lemma build_maker_Inr:
  assumes "build_maker lib amt False m = Inr (ins, cj, chg)"
  shows "mapM_res utxo_input (md_utxos m) = Inr ins" "txout_from_address lib (md_cj_addr m) amt = Inr cj"
    "0 \<le> maker_change amt m"
    "kept_change amt m \<Longrightarrow> \<exists>out. chg = Some out \<and> txout_from_address lib (md_change_addr m) (maker_change amt m) = Inr out"
    "\<not> kept_change amt m \<Longrightarrow> chg = None"
  using assms by (auto simp: build_maker_def bind_res_Inr_iff map_res_Inr_iff kept_change_def split: if_splits)

definition pay :: "addr_lib \<Rightarrow> string \<times> int \<Rightarrow> tx_output res" where
  "pay lib = (\<lambda>(a, v). txout_from_address lib a v)"

text \<open>The payments of a plain CoinJoin: the equal outputs, the taker's change when it has an address and
  is above its threshold, and the change of every maker at or above the makers' threshold.\<close>

definition cj_payments :: "string \<Rightarrow> (string, maker_data) dict \<Rightarrow> int \<Rightarrow> (string \<times> int) list" where
  "cj_payments taker_cj makers amt = (taker_cj, amt) # map (\<lambda>(_, m). (md_cj_addr m, amt)) makers"

definition taker_keeps :: "string \<Rightarrow> int \<Rightarrow> bool" where
  "taker_keeps address change \<longleftrightarrow> change > BITCOIN_DUST_THRESHOLD \<and> address \<noteq> []"

definition change_payments :: "string \<Rightarrow> int \<Rightarrow> (string, maker_data) dict \<Rightarrow> int \<Rightarrow> (string \<times> int) list" where
  "change_payments taker_chg change makers amt =
     (if taker_keeps taker_chg change then [(taker_chg, change)] else []) @
     map (\<lambda>(_, m). (md_change_addr m, maker_change amt m)) (filter (kept_change amt \<circ> snd) makers)"

lemma build_makers_Cons:
  "build_makers lib amt ring ((nick, m) # makers) = Inr built \<longleftrightarrow>
     (\<exists>ins cj chg rest. build_maker lib amt ring m = Inr (ins, cj, chg) \<and> build_makers lib amt ring makers = Inr rest \<and>
        built = (nick, ins, cj, chg) # rest)"
  by (auto simp: build_makers_def bind_res_Inr_iff map_res_Inr_iff)

lemma build_makers_cj:
  "build_makers lib amt False makers = Inr built \<Longrightarrow>
   mapM_res (pay lib) (map (\<lambda>(_, m). (md_cj_addr m, amt)) makers) = Inr (map (\<lambda>(_, _, out, _). out) built)"
proof (induction makers arbitrary: built)
  case Nil
  then show ?case by (simp add: build_makers_def)
next
  case (Cons nm makers)
  obtain nick m where nm: "nm = (nick, m)" by (cases nm)
  from Cons.prems obtain ins cj chg rest where b: "build_maker lib amt False m = Inr (ins, cj, chg)"
    "build_makers lib amt False makers = Inr rest" "built = (nick, ins, cj, chg) # rest"
    unfolding nm build_makers_Cons by blast
  with Cons.IH [OF b(2)] build_maker_Inr(2) [OF b(1)] show ?case by (simp add: nm pay_def)
qed

lemma build_makers_change:
  "build_makers lib amt False makers = Inr built \<Longrightarrow>
   mapM_res (pay lib) (map (\<lambda>(_, m). (md_change_addr m, maker_change amt m)) (filter (kept_change amt \<circ> snd) makers))
     = Inr (map snd (built_changes built))"
proof (induction makers arbitrary: built)
  case Nil
  then show ?case by (simp add: build_makers_def built_changes_def)
next
  case (Cons nm makers)
  obtain nick m where nm: "nm = (nick, m)" by (cases nm)
  from Cons.prems obtain ins cj chg rest where b: "build_maker lib amt False m = Inr (ins, cj, chg)"
    "build_makers lib amt False makers = Inr rest" "built = (nick, ins, cj, chg) # rest"
    unfolding nm build_makers_Cons by blast
  with Cons.IH [OF b(2)] build_maker_Inr(4,5) [OF b(1)] show ?case
    by (cases "kept_change amt m") (auto simp: nm pay_def built_changes_def)
qed

definition built_inputs :: "(string, tx_input list \<times> tx_output \<times> tx_output option) dict \<Rightarrow> tx_input list" where
  "built_inputs built = concat (map (\<lambda>(_, ins, _). ins) built)"

lemma build_makers_inputs:
  "build_makers lib amt ring makers = Inr built \<Longrightarrow> mapM_res utxo_input (maker_utxos makers) = Inr (built_inputs built)"
proof (induction makers arbitrary: built)
  case Nil
  then show ?case by (simp add: build_makers_def maker_utxos_def built_inputs_def)
next
  case (Cons nm makers)
  obtain nick m where nm: "nm = (nick, m)" by (cases nm)
  from Cons.prems obtain ins cj chg rest where b: "build_maker lib amt ring m = Inr (ins, cj, chg)"
    "build_makers lib amt ring makers = Inr rest" "built = (nick, ins, cj, chg) # rest"
    unfolding nm build_makers_Cons by blast
  from b(1) have "mapM_res utxo_input (md_utxos m) = Inr ins"
    by (auto simp: build_maker_def bind_res_Inr_iff map_res_Inr_iff split: if_splits)
  from mapM_res_append [OF this Cons.IH [OF b(2)]] show ?case
    by (simp add: nm b(3) maker_utxos_def built_inputs_def)
qed

lemma build_makers_length: "build_makers lib amt ring makers = Inr built \<Longrightarrow> length built = length makers"
  unfolding build_makers_def by (rule mapM_res_length)

text \<open>What \<open>build_unsigned_tx\<close> writes, read back by the parser.\<close>

lemma mset_map_cong: "mset xs = mset ys \<Longrightarrow> mset (map f xs) = mset (map f ys)"
  by simp

lemma list_all_mset: "mset xs = mset ys \<Longrightarrow> list_all P xs = list_all P ys"
  by (simp add: list_all_iff flip: set_mset_mset)

lemma build_unsigned_tx_parsed:
  assumes "build_unsigned_tx sh locktime d = Inr (bs, md)" "cd_ring_plan d = None" "shuffles sh"
    and "wf_tx (map fst (collect_inputs d)) (map fst (cj_outputs d @ change_outputs d)) None"
  shows "\<exists>tx. parse_transaction_bytes bs = Inr tx \<and> pt_version tx = 2 \<and> pt_locktime tx = locktime \<and>
    mset (map (\<lambda>i. (txin_txid i, ti_vout i)) (pt_inputs tx))
      = mset (map (\<lambda>i. (txin_txid i, ti_vout i)) (map fst (collect_inputs d))) \<and>
    mset (pt_outputs tx) = mset (map fst (cj_outputs d @ change_outputs d))"
proof -
  let ?I = "map fst (shuffle_inputs sh (collect_inputs d))"
  let ?O = "map fst (shuffle_outputs sh (cj_outputs d @ change_outputs d))"
  define J where "J = (if locktime \<noteq> 0 then map (\<lambda>i. i\<lparr>ti_sequence := NON_RBF_LOCKTIME_SEQUENCE\<rparr>) ?I else ?I)"
  from assms(1,2) have ser: "serialize_transaction 2 J ?O locktime None = Inr bs"
    by (auto simp: build_unsigned_tx_def Let_def bind_res_Inr_iff serialize_tx_def J_def)
  have mI: "mset ?I = mset (map fst (collect_inputs d))"
    and mO: "mset ?O = mset (map fst (cj_outputs d @ change_outputs d))"
    using assms(3) by (auto simp: shuffles_def intro: mset_map_cong)
  have "list_all (\<lambda>i. length (ti_txid_le i) = 32) J = list_all (\<lambda>i. length (ti_txid_le i) = 32) ?I"
    by (auto simp: J_def list_all_iff)
  moreover have "length J = length ?I" by (simp add: J_def)
  moreover note list_all_mset [OF mI, of "\<lambda>i. length (ti_txid_le i) = 32"] list_all_mset [OF mO, of "\<lambda>u. to_value u \<le> MAX_MONEY"]
    mset_eq_length [OF mI] mset_eq_length [OF mO]
  ultimately have "wf_tx J ?O None"
    using assms(4) unfolding wf_tx_def by (metis any_witness_def length_0_conv option.case(1))
  from parse_serialize_tx [OF ser this] have "parse_transaction_bytes bs = Inr \<lparr>pt_version = 2, pt_inputs = map wire_input J,
      pt_outputs = ?O, pt_witnesses = [], pt_locktime = locktime, pt_has_witness = False\<rparr>"
    by (simp add: any_witness_def)
  moreover have "map (\<lambda>i. (txin_txid i, ti_vout i)) (map wire_input J) = map (\<lambda>i. (txin_txid i, ti_vout i)) ?I"
    by (simp add: J_def wire_input_def txin_txid_def comp_def)
  then have "mset (map (\<lambda>i. (txin_txid i, ti_vout i)) (map wire_input J))
      = mset (map (\<lambda>i. (txin_txid i, ti_vout i)) (map fst (collect_inputs d)))"
    by (simp only: mset_map_cong [OF mI])
  ultimately show ?thesis
    using mO by (auto simp del: mset_map map_map mset_append map_append)
qed

text \<open>The pieces of a plain build.\<close>

lemma build_coinjoin_tx_plain_parts:
  assumes "build_coinjoin_tx lib decode sh taker_utxos taker_cj taker_chg tin makers amt fee network thr locktime None
    = Inr (bs, md)"
  obtains ins cj chg built d where "mapM_res utxo_input taker_utxos = Inr ins"
    "txout_from_address lib taker_cj amt = Inr cj"
    "taker_change_output_of lib None taker_chg (taker_change_of tin amt fee makers) = Inr chg"
    "build_makers lib amt False makers = Inr built" "build_unsigned_tx sh locktime d = Inr (bs, md)"
    "cd_ring_plan d = None" "map fst (collect_inputs d) = ins @ built_inputs built"
    "map fst (cj_outputs d) = cj # map (\<lambda>(_, _, out, _). out) built"
    "map fst (change_outputs d) = (case chg of None \<Rightarrow> [] | Some out \<Rightarrow> [out]) @ map snd (built_changes built)"
proof -
  from assms obtain ins cj chg built where p: "mapM_res utxo_input taker_utxos = Inr ins"
    "txout_from_address lib taker_cj amt = Inr cj"
    "taker_change_output_of lib None taker_chg (taker_change_of tin amt fee makers) = Inr chg"
    "build_makers lib amt False makers = Inr built"
    "build_unsigned_tx sh locktime
            \<lparr>cd_taker_inputs = ins, cd_taker_cj_output = cj, cd_taker_change_output = chg,
             cd_maker_inputs = map (\<lambda>(nick, ins, _). (nick, ins)) built,
             cd_maker_cj_outputs = map (\<lambda>(nick, _, out, _). (nick, out)) built,
             cd_maker_change_outputs = built_changes built, cd_cj_amount = amt,
             cd_total_maker_fee = sum_list (map (md_cjfee \<circ> snd) makers), cd_tx_fee = fee,
             cd_ring_plan = None\<rparr> = Inr (bs, md)" (is "build_unsigned_tx _ _ ?d = _")
    by (auto simp: build_coinjoin_tx_def Let_def bind_res_Inr_iff built_changes_def simp del: split_paired_Ex
        split: if_splits)
  have "map fst (collect_inputs ?d) = ins @ built_inputs built"
    by (simp add: collect_inputs_def built_inputs_def map_concat comp_def case_prod_unfold)
  moreover have "map fst (cj_outputs ?d) = cj # map (\<lambda>(_, _, out, _). out) built"
    by (simp add: cj_outputs_def comp_def case_prod_unfold)
  moreover have "map fst (change_outputs ?d) = (case chg of None \<Rightarrow> [] | Some out \<Rightarrow> [out]) @ map snd (built_changes built)"
    by (cases chg) (simp_all add: change_outputs_def comp_def case_prod_unfold)
  ultimately show ?thesis using that [OF p(1-5)] by simp
qed

lemma taker_change_paid:
  assumes "taker_change_output_of lib None address change = Inr chg"
  shows "mapM_res (pay lib) (if taker_keeps address change then [(address, change)] else [])
    = Inr (case chg of None \<Rightarrow> [] | Some out \<Rightarrow> [out])"
  using assms by (auto simp: taker_change_output_of_def taker_keeps_def pay_def map_res_Inr_iff split: if_splits)

lemma pay_value: "mapM_res (pay lib) ps = Inr outs \<Longrightarrow> map to_value outs = map snd ps"
  by (induction ps arbitrary: outs) (auto simp: bind_res_Inr_iff pay_def txout_from_address_Inr)

lemma list_all_values:
  "list_all (\<lambda>p. snd p \<le> b) ps \<Longrightarrow> map to_value outs = map snd ps \<Longrightarrow> list_all (\<lambda>u. to_value u \<le> b) outs"
proof -
  assume "list_all (\<lambda>p. snd p \<le> b) ps" "map to_value outs = map snd ps"
  then have "list_all (\<lambda>v. v \<le> b) (map to_value outs)" by (simp add: list_all_iff)
  then show ?thesis by (simp add: list_all_iff)
qed

lemma change_payments_bound:
  assumes "tx_limits taker_utxos makers amt change"
  shows "list_all (\<lambda>p. snd p \<le> MAX_MONEY) (cj_payments taker_cj makers amt @ change_payments taker_chg change makers amt)"
    and "length (cj_payments taker_cj makers amt @ change_payments taker_chg change makers amt) \<le> 10000"
proof -
  show "list_all (\<lambda>p. snd p \<le> MAX_MONEY) (cj_payments taker_cj makers amt @ change_payments taker_chg change makers amt)"
    using assms by (auto simp: tx_limits_def cj_payments_def change_payments_def list_all_iff)
  from assms have "length makers < 5000" by (simp add: tx_limits_def)
  moreover from this have "length (filter (kept_change amt \<circ> snd) makers) < 5000"
    by (rule le_less_trans [OF length_filter_le])
  ultimately show "length (cj_payments taker_cj makers amt @ change_payments taker_chg change makers amt) \<le> 10000"
    by (auto simp add: tx_limits_def cj_payments_def change_payments_def)
qed

lemma build_coinjoin_tx_plain:
  assumes build: "build_coinjoin_tx lib decode sh taker_utxos taker_cj taker_chg tin makers amt fee network thr locktime None
      = Inr (bs, md)"
    and sh: "shuffles sh" and lim: "tx_limits taker_utxos makers amt (taker_change_of tin amt fee makers)"
  shows "\<exists>tx outs. parse_transaction_bytes bs = Inr tx \<and> pt_version tx = 2 \<and> pt_locktime tx = locktime \<and>
    mset (map (\<lambda>i. (txin_txid i, ti_vout i)) (pt_inputs tx)) = mset (map outpoint (taker_utxos @ maker_utxos makers)) \<and>
    mapM_res (pay lib) (cj_payments taker_cj makers amt @
      change_payments taker_chg (taker_change_of tin amt fee makers) makers amt) = Inr outs \<and>
    mset (pt_outputs tx) = mset outs"
proof -
  obtain ins cj chg built d where p: "mapM_res utxo_input taker_utxos = Inr ins"
    "txout_from_address lib taker_cj amt = Inr cj"
    "taker_change_output_of lib None taker_chg (taker_change_of tin amt fee makers) = Inr chg"
    "build_makers lib amt False makers = Inr built" "build_unsigned_tx sh locktime d = Inr (bs, md)"
    "cd_ring_plan d = None" "map fst (collect_inputs d) = ins @ built_inputs built"
    "map fst (cj_outputs d) = cj # map (\<lambda>(_, _, out, _). out) built"
    "map fst (change_outputs d) = (case chg of None \<Rightarrow> [] | Some out \<Rightarrow> [out]) @ map snd (built_changes built)"
    by (rule build_coinjoin_tx_plain_parts [OF build])
  let ?ps = "cj_payments taker_cj makers amt @ change_payments taker_chg (taker_change_of tin amt fee makers) makers amt"
  let ?outs = "map fst (cj_outputs d @ change_outputs d)"
  have "mapM_res (pay lib) (cj_payments taker_cj makers amt) = Inr (map fst (cj_outputs d))"
    using p(2) build_makers_cj [OF p(4)] by (simp add: cj_payments_def p(8) pay_def)
  moreover have "mapM_res (pay lib) (change_payments taker_chg (taker_change_of tin amt fee makers) makers amt)
      = Inr (map fst (change_outputs d))"
    unfolding change_payments_def p(9) by (rule mapM_res_append [OF taker_change_paid [OF p(3)] build_makers_change [OF p(4)]])
  ultimately have outs: "mapM_res (pay lib) ?ps = Inr ?outs"
    unfolding map_append by (rule mapM_res_append)
  have ins: "mapM_res utxo_input (taker_utxos @ maker_utxos makers) = Inr (map fst (collect_inputs d))"
    unfolding p(7) by (rule mapM_res_append [OF p(1) build_makers_inputs [OF p(4)]])
  from lim have "list_all (canonical_txid \<circ> ud_txid) (taker_utxos @ maker_utxos makers)" by (simp add: tx_limits_def)
  note I = utxo_inputs_Inr [OF ins this]
  have len: "map fst (collect_inputs d) \<noteq> []" "length (map fst (collect_inputs d)) \<le> 10000" "length ?outs \<le> 10000"
    using lim mapM_res_length [OF ins] mapM_res_length [OF outs] change_payments_bound(2) [OF lim, of taker_cj taker_chg]
    by (cases "collect_inputs d"; simp add: tx_limits_def)+
  have "list_all (\<lambda>u. to_value u \<le> MAX_MONEY) ?outs"
    using change_payments_bound(1) [OF lim, of taker_cj taker_chg] pay_value [OF outs] by (rule list_all_values)
  then have "wf_tx (map fst (collect_inputs d)) ?outs None"
    using I(1) len unfolding wf_tx_def any_witness_def by simp
  note parsed = build_unsigned_tx_parsed [OF p(5,6) sh this, unfolded I(2)]
  show ?thesis unfolding outs using parsed by blast
qed

section \<open>Where the money goes\<close>

lemma maker_utxos_total:
  "sum_list (map ud_value (maker_utxos makers)) =
     int (length makers) * amt + sum_list (map (md_txfee \<circ> snd) makers) - sum_list (map (md_cjfee \<circ> snd) makers)
       + sum_list (map (maker_change amt \<circ> snd) makers)"
  by (induction makers) (auto simp: maker_utxos_def maker_change_def algebra_simps)

lemma sum_filter_split:
  "sum_list (map f xs) = sum_list (map f (filter P xs)) + sum_list (map f (filter (\<lambda>x. \<not> P x) xs))" for f :: "'a \<Rightarrow> int"
  by (induction xs) auto

definition forgone_change :: "string \<Rightarrow> int \<Rightarrow> (string, maker_data) dict \<Rightarrow> int \<Rightarrow> int" where
  "forgone_change taker_chg change makers amt =
     (if taker_keeps taker_chg change then 0 else change) +
     sum_list (map (maker_change amt \<circ> snd) (filter (\<lambda>m. \<not> kept_change amt (snd m)) makers))"

lemma payments_total:
  "sum_list (map snd (cj_payments taker_cj makers amt @ change_payments taker_chg change makers amt))
     + forgone_change taker_chg change makers amt
   = (int (length makers) + 1) * amt + change + sum_list (map (maker_change amt \<circ> snd) makers)"
proof -
  have "sum_list (map snd (cj_payments taker_cj makers amt)) = (int (length makers) + 1) * amt"
    by (simp add: cj_payments_def comp_def case_prod_unfold sum_list_triv algebra_simps)
  moreover have "sum_list (map (snd \<circ> (\<lambda>(_, m). (md_change_addr m, maker_change amt m))) ms)
      = sum_list (map (maker_change amt \<circ> snd) ms)" for ms :: "(string, maker_data) dict"
    by (simp add: comp_def case_prod_unfold)
  ultimately show ?thesis
    using sum_filter_split [of "maker_change amt \<circ> snd" makers "kept_change amt \<circ> snd"]
    by (simp add: change_payments_def forgone_change_def)
qed

text \<open>C16: the transaction that \<open>build_coinjoin_tx\<close> returns (without a ring plan) reads back as one that
  spends exactly the negotiated outputs and makes exactly the negotiated payments, in some order; and
  the miners get the taker's fee, the makers' contributions and the change too small to keep, to the
  satoshi.\<close>

theorem build_coinjoin_tx_exact:
  assumes "build_coinjoin_tx lib decode sh taker_utxos taker_cj taker_chg tin makers amt fee network thr locktime None
      = Inr (bs, md)"
    and "shuffles sh" and "tin = sum_list (map ud_value taker_utxos)"
    and "tx_limits taker_utxos makers amt (taker_change_of tin amt fee makers)"
  shows "\<exists>tx outs. parse_transaction_bytes bs = Inr tx \<and>
    mset (map (\<lambda>i. (txin_txid i, ti_vout i)) (pt_inputs tx)) = mset (map outpoint (taker_utxos @ maker_utxos makers)) \<and>
    mapM_res (pay lib) (cj_payments taker_cj makers amt @
      change_payments taker_chg (taker_change_of tin amt fee makers) makers amt) = Inr outs \<and>
    mset (pt_outputs tx) = mset outs \<and>
    sum_list (map ud_value (taker_utxos @ maker_utxos makers)) - sum_list (map to_value (pt_outputs tx))
      = fee + sum_list (map (md_txfee \<circ> snd) makers)
        + forgone_change taker_chg (taker_change_of tin amt fee makers) makers amt"
proof -
  obtain tx outs where tx: "parse_transaction_bytes bs = Inr tx"
    "mset (map (\<lambda>i. (txin_txid i, ti_vout i)) (pt_inputs tx)) = mset (map outpoint (taker_utxos @ maker_utxos makers))"
    "mapM_res (pay lib) (cj_payments taker_cj makers amt @
      change_payments taker_chg (taker_change_of tin amt fee makers) makers amt) = Inr outs"
    "mset (pt_outputs tx) = mset outs"
    using build_coinjoin_tx_plain [OF assms(1,2,4)] by blast
  have "sum_list (map to_value (pt_outputs tx)) = sum_list (map to_value outs)"
    using mset_map_cong [OF tx(4), of to_value] by (metis sum_mset_sum_list)
  also note pay_value [OF tx(3)]
  finally have "sum_list (map ud_value (taker_utxos @ maker_utxos makers)) - sum_list (map to_value (pt_outputs tx))
      = fee + sum_list (map (md_txfee \<circ> snd) makers)
        + forgone_change taker_chg (taker_change_of tin amt fee makers) makers amt"
    using payments_total [of taker_cj makers amt taker_chg "taker_change_of tin amt fee makers"]
      maker_utxos_total [of makers amt]
    by (simp add: assms(3) taker_change_of_def algebra_simps)
  with tx show ?thesis by blast
qed

definition ex_sh :: shuffler where
  "ex_sh = \<lparr>shuffle_inputs = rev, shuffle_outputs = rev\<rparr>"

definition ex_utxo :: "char \<Rightarrow> int \<Rightarrow> utxo_dict" where
  "ex_utxo digit v = \<lparr>ud_txid = replicate 64 digit, ud_vout = 0, ud_value = v, ud_scriptpubkey = []\<rparr>"

definition ex_makers :: "(string, maker_data) dict" where
  "ex_makers = [(''m1'', \<lparr>md_utxos = [ex_utxo (CHR ''1'') 150000], md_cj_addr = ex_addr (CHR ''b''), md_change_addr = ex_addr (CHR ''c''), md_cjfee = 500, md_txfee = 100\<rparr>),
     (''m2'', \<lparr>md_utxos = [ex_utxo (CHR ''2'') 110000], md_cj_addr = ex_addr (CHR ''d''), md_change_addr = ex_addr (CHR ''e''), md_cjfee = 300, md_txfee = 0\<rparr>)]"

definition ex_build :: "(bytes \<times> tx_metadata) res" where
  "ex_build = build_coinjoin_tx letters_lib letters_decode_net ex_sh [ex_utxo (CHR ''3'') 200000] (ex_addr (CHR ''f'')) (ex_addr (CHR ''g'')) 200000 ex_makers
     100000 2000 REGTEST 27300 800000 None"

lemma ex_build_isr: "\<not> isl ex_build"
  by code_simp

lemma ex_build_ok: "ex_build = Inr (fst (projr ex_build), snd (projr ex_build))"
  using ex_build_isr by (cases ex_build) auto

lemma ex_limits: "tx_limits [ex_utxo (CHR ''3'') 200000] ex_makers 100000 (taker_change_of 200000 100000 2000 ex_makers)"
  unfolding tx_limits_def by code_simp

lemma ex_sh_shuffles: "shuffles ex_sh"
  by (simp add: shuffles_def ex_sh_def)

theorem build_coinjoin_tx_exact_witness:
  "\<exists>tx. parse_transaction_bytes (fst (projr ex_build)) = Inr tx \<and>
     sum_list (map ud_value ([ex_utxo (CHR ''3'') 200000] @ maker_utxos ex_makers)) - sum_list (map to_value (pt_outputs tx))
       = 2000 + 100 + 10300"
proof -
  have "forgone_change (ex_addr (CHR ''g'')) (taker_change_of 200000 100000 2000 ex_makers) ex_makers 100000 = 10300"
    "sum_list (map (md_txfee \<circ> snd) ex_makers) = 100" "200000 = sum_list (map ud_value [ex_utxo (CHR ''3'') 200000])"
    by code_simp+
  with build_coinjoin_tx_exact [OF ex_build_ok [unfolded ex_build_def] ex_sh_shuffles _ ex_limits]
  show ?thesis unfolding ex_build_def by (simp only:) blast
qed

end
