(* ===== verification/Wallet_Utxo.thy ===== *)
theory Wallet_Utxo
  imports Py_Bytes
begin

text \<open>
  The wallet's view of an unspent output: \<open>UTXOInfo\<close> of \<open>jmwallet/src/jmwallet/wallet/models.py\<close>
  with the properties that classify it. The wall clock of \<open>is_locked\<close> is an argument.
\<close>

record utxo_info =
  ui_txid :: string
  ui_vout :: int
  ui_value :: int
  ui_address :: string
  ui_confirmations :: int
  ui_scriptpubkey :: string
  ui_path :: string
  ui_mixdepth :: int
  ui_height :: "int option"
  ui_locktime :: "int option"
  ui_label :: "string option"
  ui_frozen :: bool
  ui_coinjoin_output :: bool

definition is_fidelity_bond :: "utxo_info \<Rightarrow> bool" where
  "is_fidelity_bond u \<longleftrightarrow> ui_locktime u \<noteq> None"

definition is_locked :: "int \<Rightarrow> utxo_info \<Rightarrow> bool" where
  "is_locked now u = (case ui_locktime u of None \<Rightarrow> False | Some t \<Rightarrow> t > now)"

definition is_p2wsh :: "utxo_info \<Rightarrow> bool" where
  "is_p2wsh u = (if length (ui_scriptpubkey u) \<noteq> 68 then False else take 4 (ui_scriptpubkey u) = ''0020'')"

definition is_p2wpkh :: "utxo_info \<Rightarrow> bool" where
  "is_p2wpkh u = (if length (ui_scriptpubkey u) \<noteq> 44 then False else take 4 (ui_scriptpubkey u) = ''0014'')"

definition is_p2tr :: "utxo_info \<Rightarrow> bool" where
  "is_p2tr u = (if length (ui_scriptpubkey u) \<noteq> 68 then False else take 4 (ui_scriptpubkey u) = ''5120'')"

lemma script_classes_disjoint:
  "\<not> (is_p2wsh u \<and> is_p2wpkh u)" "\<not> (is_p2wsh u \<and> is_p2tr u)" "\<not> (is_p2wpkh u \<and> is_p2tr u)"
  by (auto simp: is_p2wsh_def is_p2wpkh_def is_p2tr_def split: if_splits)

text \<open>A plain wallet output, for concrete examples.\<close>

definition plain_utxo :: "string \<Rightarrow> int \<Rightarrow> int \<Rightarrow> utxo_info" where
  "plain_utxo txid vout value =
     \<lparr>ui_txid = txid, ui_vout = vout, ui_value = value, ui_address = [], ui_confirmations = 6,
      ui_scriptpubkey = [], ui_path = [], ui_mixdepth = 0, ui_height = None, ui_locktime = None,
      ui_label = None, ui_frozen = False, ui_coinjoin_output = False\<rparr>"

end
