(* ===== verification/Maker_Verify.thy ===== *)
theory Maker_Verify
  imports Btc_Script Jm_Offers Py_Dict Wallet_Utxo
begin

text \<open>
  The maker's check of the transaction it is asked to sign:
  \<open>maker/src/maker/tx_verification.py\<close>. The pair \<open>(is_valid, error_message)\<close> of the code is a value
  of type \<open>verdict\<close>, with one constructor per message and the numbers the message carries. The
  wall clock read by \<open>_verify_locktime\<close> is the argument \<open>now\<close>.
\<close>

datatype reject =
    ParseFailed
  | HeightUnverifiable int
  | HeightAhead int int int
  | LocktimeFuture int int
  | ExternalOverlap "(string \<times> int) list"
  | UtxosMissing "(string \<times> int) list"
  | NegativeProfit int
  | CjValueLow int int
  | ChangeValueLow int int
  | CjAddressCount nat
  | ChangeAddressCount nat
  | VerificationError pyerr

datatype verdict = Accepted | Rejected reject

definition LOCKTIME_THRESHOLD :: int where
  "LOCKTIME_THRESHOLD = 500000000"

definition LOCKTIME_FUTURE_TOLERANCE_SEC :: int where
  "LOCKTIME_FUTURE_TOLERANCE_SEC = 2 * 60 * 60"

definition LOCKTIME_HEIGHT_FUTURE_TOLERANCE_BLOCKS :: int where
  "LOCKTIME_HEIGHT_FUTURE_TOLERANCE_BLOCKS = 12"

definition verify_locktime :: "int \<Rightarrow> int \<Rightarrow> int option \<Rightarrow> verdict" where
  "verify_locktime locktime now current_block_height =
     (if locktime = 0 then Accepted
      else if locktime < LOCKTIME_THRESHOLD then
        (case current_block_height of
           None \<Rightarrow> Rejected (HeightUnverifiable locktime)
         | Some h \<Rightarrow>
             let max_height = h + LOCKTIME_HEIGHT_FUTURE_TOLERANCE_BLOCKS in
             if locktime > max_height then Rejected (HeightAhead locktime h max_height) else Accepted)
      else if locktime > now + LOCKTIME_FUTURE_TOLERANCE_SEC then Rejected (LocktimeFuture locktime now)
      else Accepted)"

text \<open>\<open>script_to_address\<close> answers with the hex of a script that has no address.\<close>

definition script_to_address :: "addr_lib \<Rightarrow> bytes \<Rightarrow> network_type \<Rightarrow> string res" where
  "script_to_address lib script network =
     (case scriptpubkey_to_address lib script network of
        Inl (ValueError _) \<Rightarrow> Inr (bytes_hex script) | r \<Rightarrow> r)"

record maker_tx =
  mt_inputs :: "(string \<times> int) list"
  mt_outputs :: "(string \<times> int) list"
  mt_locktime :: int

text \<open>The maker's own \<open>parse_transaction\<close>, on top of the one of \<open>jmcore\<close>: every failure is \<open>None\<close>.\<close>

definition parse_maker_transaction :: "addr_lib \<Rightarrow> string \<Rightarrow> network_type \<Rightarrow> maker_tx option" where
  "parse_maker_transaction lib tx_hex network =
     (case parse_transaction tx_hex of
        Inl _ \<Rightarrow> None
      | Inr parsed \<Rightarrow>
          if pt_version parsed \<notin> {1, 2, 3} then None
          else if length (pt_inputs parsed) = 0 \<or> length (pt_outputs parsed) = 0 then None
          else (case mapM_res (\<lambda>out. map_res (\<lambda>a. (a, to_value out)) (script_to_address lib (to_script out) network))
                       (pt_outputs parsed) of
              Inl _ \<Rightarrow> None
            | Inr outputs \<Rightarrow> Some \<lparr>mt_inputs = map (\<lambda>i. (txin_txid i, ti_vout i)) (pt_inputs parsed),
                                  mt_outputs = outputs, mt_locktime = pt_locktime parsed\<rparr>))"

fun index_where :: "('a \<Rightarrow> bool) \<Rightarrow> 'a list \<Rightarrow> nat \<Rightarrow> int" where
  "index_where P [] i = - 1"
| "index_where P (x # xs) i = (if P x then int i else index_where P xs (Suc i))"

definition find_output_index :: "addr_lib \<Rightarrow> string \<Rightarrow> string \<Rightarrow> network_type \<Rightarrow> int" where
  "find_output_index lib tx_hex address network =
     (case parse_maker_transaction lib tx_hex network of
        None \<Rightarrow> - 1 | Some tx \<Rightarrow> index_where (\<lambda>out. fst out = address) (mt_outputs tx) 0)"

text \<open>The loop over the outputs: the two counters, or the first output that pays too little.\<close>

fun scan_outputs ::
  "string \<Rightarrow> string \<Rightarrow> int \<Rightarrow> int \<Rightarrow> (string \<times> int) list \<Rightarrow> nat \<Rightarrow> nat \<Rightarrow> reject + nat \<times> nat" where
  "scan_outputs cj_address change_address amount expected [] cj chg = Inr (cj, chg)"
| "scan_outputs cj_address change_address amount expected ((addr, val) # outs) cj chg =
     (if addr = cj_address \<and> val < amount then Inl (CjValueLow val amount)
      else if addr = change_address \<and> val < expected then Inl (ChangeValueLow val expected)
      else scan_outputs cj_address change_address amount expected outs
             (if addr = cj_address then Suc cj else cj) (if addr = change_address then Suc chg else chg))"

definition verify_unsigned_transaction ::
  "addr_lib \<Rightarrow> int \<Rightarrow> string \<Rightarrow> (string \<times> int, utxo_info) dict \<Rightarrow> string \<Rightarrow> string \<Rightarrow> int \<Rightarrow> cjfee \<Rightarrow> int \<Rightarrow>
   offer_type \<Rightarrow> network_type \<Rightarrow> int option \<Rightarrow> (string \<times> int, int \<times> bytes) dict \<Rightarrow> verdict" where
  "verify_unsigned_transaction lib now tx_hex our_utxos cj_address change_address amount fee contribution
      offer_type network current_block_height external =
     (case parse_maker_transaction lib tx_hex network of
        None \<Rightarrow> Rejected ParseFailed
      | Some tx \<Rightarrow>
        (case verify_locktime (mt_locktime tx) now current_block_height of
           Rejected r \<Rightarrow> Rejected r
         | Accepted \<Rightarrow>
           let overlapping = filter (\<lambda>k. k \<in> set (dict_keys external)) (dict_keys our_utxos);
               required = dict_keys our_utxos @ dict_keys external;
               missing = filter (\<lambda>k. k \<notin> set (mt_inputs tx)) required;
               my_total_in = sum_list (map (ui_value \<circ> snd) our_utxos) + sum_list (map (fst \<circ> snd) external)
           in if overlapping \<noteq> [] then Rejected (ExternalOverlap overlapping)
              else if missing \<noteq> [] then Rejected (UtxosMissing missing)
              else (case calculate_cj_fee offer_type fee amount of
                  Inl e \<Rightarrow> Rejected (VerificationError e)
                | Inr real_cjfee \<Rightarrow>
                    let expected_change_value = my_total_in - amount - contribution + real_cjfee;
                        potentially_earned = real_cjfee - contribution
                    in if potentially_earned < 0 then Rejected (NegativeProfit potentially_earned)
                       else (case scan_outputs cj_address change_address amount expected_change_value
                                    (mt_outputs tx) 0 0 of
                           Inl r \<Rightarrow> Rejected r
                         | Inr (times_seen_cj_addr, times_seen_change_addr) \<Rightarrow>
                             if times_seen_cj_addr \<noteq> 1 then Rejected (CjAddressCount times_seen_cj_addr)
                             else if times_seen_change_addr \<noteq> 1
                             then Rejected (ChangeAddressCount times_seen_change_addr)
                             else Accepted))))"

section \<open>What acceptance means\<close>

text \<open>What the transaction pays to an address.\<close>

definition paid_to :: "string \<Rightarrow> (string \<times> int) list \<Rightarrow> int" where
  "paid_to a outs = sum_list (map snd (filter (\<lambda>out. fst out = a) outs))"

definition times_paid :: "string \<Rightarrow> (string \<times> int) list \<Rightarrow> nat" where
  "times_paid a outs = length (filter (\<lambda>out. fst out = a) outs)"

definition accepts_outputs :: "string \<Rightarrow> string \<Rightarrow> int \<Rightarrow> int \<Rightarrow> (string \<times> int) list \<Rightarrow> bool" where
  "accepts_outputs cj chg amount expected outs =
     (\<forall>(a, v) \<in> set outs. (a = cj \<longrightarrow> amount \<le> v) \<and> (a = chg \<longrightarrow> expected \<le> v))"

lemma scan_outputs_Inr:
  "scan_outputs cj chg amount expected outs m n = Inr r \<longleftrightarrow>
     accepts_outputs cj chg amount expected outs \<and> r = (m + times_paid cj outs, n + times_paid chg outs)"
proof (induction outs arbitrary: m n)
  case Nil
  then show ?case by (auto simp: accepts_outputs_def times_paid_def)
next
  case (Cons out outs)
  then show ?case
    by (cases out) (auto simp: accepts_outputs_def times_paid_def)
qed

lemma paid_once:
  assumes "times_paid a outs = 1"
  shows "\<exists>v. (a, v) \<in> set outs \<and> paid_to a outs = v"
proof -
  obtain out where f: "filter (\<lambda>out. fst out = a) outs = [out]"
    using assms unfolding times_paid_def by (auto simp: length_Suc_conv)
  have "out \<in> set (filter (\<lambda>out. fst out = a) outs)" unfolding f by simp
  then have "(a, snd out) \<in> set outs" by auto
  with f show ?thesis by (auto simp: paid_to_def)
qed

lemma verify_locktime_Accepted:
  "verify_locktime t now h = Accepted \<longleftrightarrow>
     t = 0 \<or> (t < LOCKTIME_THRESHOLD \<and> (\<exists>height. h = Some height \<and> t \<le> height + LOCKTIME_HEIGHT_FUTURE_TOLERANCE_BLOCKS))
     \<or> (t \<ge> LOCKTIME_THRESHOLD \<and> t \<le> now + LOCKTIME_FUTURE_TOLERANCE_SEC)"
  by (auto simp: verify_locktime_def Let_def split: option.splits)

definition total_in :: "(string \<times> int, utxo_info) dict \<Rightarrow> (string \<times> int, int \<times> bytes) dict \<Rightarrow> int" where
  "total_in our external = sum_list (map (ui_value \<circ> snd) our) + sum_list (map (fst \<circ> snd) external)"

lemma filter_disjoint: "filter (\<lambda>k. k \<in> set B) A = [] \<longleftrightarrow> set A \<inter> set B = {}"
  by (auto simp: filter_empty_conv)

lemma filter_subset: "filter (\<lambda>k. k \<notin> B) (A @ A') = [] \<longleftrightarrow> set A \<union> set A' \<subseteq> B"
  by (auto simp: filter_empty_conv)

text \<open>Acceptance, unfolded once for every use.\<close>

lemma verify_unsigned_transaction_Accepted:
  "verify_unsigned_transaction lib now tx_hex our cj chg amount fee contribution t network h external = Accepted \<longleftrightarrow>
     (\<exists>tx f. parse_maker_transaction lib tx_hex network = Some tx \<and>
        verify_locktime (mt_locktime tx) now h = Accepted \<and>
        set (dict_keys our) \<inter> set (dict_keys external) = {} \<and>
        set (dict_keys our) \<union> set (dict_keys external) \<subseteq> set (mt_inputs tx) \<and>
        calculate_cj_fee t fee amount = Inr f \<and> contribution \<le> f \<and>
        accepts_outputs cj chg amount (total_in our external - amount - contribution + f) (mt_outputs tx) \<and>
        times_paid cj (mt_outputs tx) = 1 \<and> times_paid chg (mt_outputs tx) = 1)"
  (is "?L = ?R")
proof
  assume ?L
  then obtain tx where tx: "parse_maker_transaction lib tx_hex network = Some tx"
    by (auto simp: verify_unsigned_transaction_def split: option.splits)
  from \<open>?L\<close> show ?R
    unfolding verify_unsigned_transaction_def tx
    by (auto simp: Let_def scan_outputs_Inr total_in_def filter_disjoint filter_subset simp del: set_map filter_append set_append
        split: verdict.splits sum.splits if_splits prod.splits)
next
  assume ?R
  then obtain tx f where *: "parse_maker_transaction lib tx_hex network = Some tx"
    "verify_locktime (mt_locktime tx) now h = Accepted"
    "set (dict_keys our) \<inter> set (dict_keys external) = {}"
    "set (dict_keys our) \<union> set (dict_keys external) \<subseteq> set (mt_inputs tx)"
    "calculate_cj_fee t fee amount = Inr f" "contribution \<le> f"
    "accepts_outputs cj chg amount (total_in our external - amount - contribution + f) (mt_outputs tx)"
    "times_paid cj (mt_outputs tx) = 1" "times_paid chg (mt_outputs tx) = 1"
    by blast
  have "filter (\<lambda>k. k \<in> set (dict_keys external)) (dict_keys our) = []"
    using *(3) by (simp add: filter_disjoint del: set_map)
  moreover have "filter (\<lambda>k. k \<notin> set (mt_inputs tx)) (dict_keys our @ dict_keys external) = []"
    using *(4) by (simp add: filter_subset del: set_map filter_append)
  moreover have "scan_outputs cj chg amount (total_in our external - amount - contribution + f) (mt_outputs tx) 0 0
      = Inr (1, 1)"
    using * by (simp add: scan_outputs_Inr)
  ultimately show ?L
    using * by (simp add: verify_unsigned_transaction_def Let_def total_in_def)
qed

text \<open>C2: a transaction the maker accepts spends every output the maker contributes, pays its CoinJoin
  address and its change address exactly once each, pays the two addresses together at least what the
  maker put in plus its fee less its contribution to the mining fee (so never less than it put in), and
  cannot stay locked: its lock is at most twelve blocks or two hours ahead.\<close>

theorem verify_unsigned_transaction_safe:
  assumes "verify_unsigned_transaction lib now tx_hex our cj chg amount fee contribution t network h external = Accepted"
    and "cj \<noteq> chg"
  shows "\<exists>tx f. parse_maker_transaction lib tx_hex network = Some tx \<and> calculate_cj_fee t fee amount = Inr f \<and>
      set (dict_keys our) \<union> set (dict_keys external) \<subseteq> set (mt_inputs tx) \<and>
      times_paid cj (mt_outputs tx) = 1 \<and> times_paid chg (mt_outputs tx) = 1 \<and> amount \<le> paid_to cj (mt_outputs tx) \<and>
      paid_to cj (mt_outputs tx) + paid_to chg (mt_outputs tx) \<ge> total_in our external + f - contribution \<and>
      total_in our external + f - contribution \<ge> total_in our external \<and>
      (mt_locktime tx \<noteq> 0 \<longrightarrow> (if mt_locktime tx < 500000000
         then \<exists>height. h = Some height \<and> mt_locktime tx \<le> height + 12
         else mt_locktime tx \<le> now + 7200))"
proof -
  from assms(1) obtain tx f where *: "parse_maker_transaction lib tx_hex network = Some tx"
    "verify_locktime (mt_locktime tx) now h = Accepted"
    "set (dict_keys our) \<union> set (dict_keys external) \<subseteq> set (mt_inputs tx)"
    "calculate_cj_fee t fee amount = Inr f" "contribution \<le> f"
    "accepts_outputs cj chg amount (total_in our external - amount - contribution + f) (mt_outputs tx)"
    "times_paid cj (mt_outputs tx) = 1" "times_paid chg (mt_outputs tx) = 1"
    unfolding verify_unsigned_transaction_Accepted by blast
  have "amount \<le> paid_to cj (mt_outputs tx)"
    using paid_once [OF *(7)] *(6) by (auto simp: accepts_outputs_def)
  moreover have "total_in our external - amount - contribution + f \<le> paid_to chg (mt_outputs tx)"
    using paid_once [OF *(8)] *(6) by (auto simp: accepts_outputs_def)
  moreover have "mt_locktime tx \<noteq> 0 \<longrightarrow> (if mt_locktime tx < 500000000
      then \<exists>height. h = Some height \<and> mt_locktime tx \<le> height + 12 else mt_locktime tx \<le> now + 7200)"
    using *(2) unfolding verify_locktime_Accepted
    by (auto simp: LOCKTIME_THRESHOLD_def LOCKTIME_FUTURE_TOLERANCE_SEC_def LOCKTIME_HEIGHT_FUTURE_TOLERANCE_BLOCKS_def)
  ultimately show ?thesis using * by (intro exI [of _ tx] exI [of _ f]) auto
qed

definition ex_txid :: string where
  "ex_txid = bytes_hex (rev (replicate 32 0xAB))"

definition ex_unsigned :: string where
  "ex_unsigned = (case serialize_transaction 2
      [\<lparr>ti_txid_le = replicate 32 0xAB, ti_vout = 1, ti_scriptsig = [], ti_sequence = 0xFFFFFFFE, ti_value = 150000,
        ti_scriptpubkey = []\<rparr>]
      [\<lparr>to_value = 100000, to_script = [0x6A, 0x01]\<rparr>, \<lparr>to_value = 50400, to_script = [0x6A, 0x02]\<rparr>] 800010 None
    of Inl _ \<Rightarrow> [] | Inr bs \<Rightarrow> bytes_hex bs)"

lemma ex_verified:
  "verify_unsigned_transaction letters_lib 0 ex_unsigned [((ex_txid, 1), plain_utxo ex_txid 1 150000)]
     ''6a01'' ''6a02'' 100000 (FeeInt 500) 100 SW0_ABSOLUTE REGTEST (Some 800000) [] = Accepted"
  by code_simp

theorem verify_unsigned_transaction_safe_witness:
  "\<exists>tx. parse_maker_transaction letters_lib ex_unsigned REGTEST = Some tx \<and> (ex_txid, 1) \<in> set (mt_inputs tx) \<and>
     150400 \<le> paid_to ''6a01'' (mt_outputs tx) + paid_to ''6a02'' (mt_outputs tx)"
proof -
  have "calculate_cj_fee SW0_ABSOLUTE (FeeInt 500) 100000 = Inr 500" by code_simp
  then show ?thesis
    using verify_unsigned_transaction_safe [OF ex_verified]
    by (auto simp: total_in_def plain_utxo_def)
qed

end
