(* ===== verification/Cj_Round.thy ===== *)
theory Cj_Round
  imports Taker_Tx_Builder Maker_Verify
begin

text \<open>
  A plain CoinJoin across the two programs: the transaction of the taker's builder
  (\<open>Taker_Tx_Builder\<close>) read and checked by the maker's verifier (\<open>Maker_Verify\<close>).
\<close>

text \<open>An address that the libraries read and write back unchanged.\<close>

definition canonical_address :: "addr_lib \<Rightarrow> network_type \<Rightarrow> string \<Rightarrow> bool" where
  "canonical_address lib network a =
     (case address_to_scriptpubkey lib a of Inl _ \<Rightarrow> False
      | Inr s \<Rightarrow> (case scriptpubkey_to_address lib s network of Inl _ \<Rightarrow> False | Inr a' \<Rightarrow> a' = a))"

lemma pay_back:
  "pay lib (a, v) = Inr out \<Longrightarrow> canonical_address lib network a \<Longrightarrow>
   map_res (\<lambda>a. (a, to_value out)) (script_to_address lib (to_script out) network) = Inr (a, v)"
  by (auto simp: pay_def txout_from_address_Inr canonical_address_def script_to_address_def split: sum.splits)

lemma pays_back:
  "mapM_res (pay lib) ps = Inr outs \<Longrightarrow> list_all (canonical_address lib network \<circ> fst) ps \<Longrightarrow>
   mapM_res (\<lambda>out. map_res (\<lambda>a. (a, to_value out)) (script_to_address lib (to_script out) network)) outs = Inr ps"
proof (induction ps arbitrary: outs)
  case Nil
  then show ?case by simp
next
  case (Cons p ps)
  then obtain out outs' where "pay lib p = Inr out" "mapM_res (pay lib) ps = Inr outs'" "outs = out # outs'"
    by (auto simp: bind_res_Inr_iff)
  with Cons show ?case using pay_back [of lib "fst p" "snd p" out network] by simp
qed

lemma mapM_res_mset:
  assumes "mapM_res f xs = Inr ys" "mset xs' = mset xs"
  shows "\<exists>ys'. mapM_res f xs' = Inr ys' \<and> mset ys' = mset ys"
proof -
  from assms(1) have all: "list_all2 (\<lambda>x y. f x = Inr y) xs ys" by (simp add: mapM_res_Inr_iff)
  then have "ys = map (projr \<circ> f) xs" and def: "\<forall>x \<in> set xs. f x = Inr (projr (f x))"
    by (induction rule: list_all2_induct) auto
  moreover have "mapM_res f xs' = Inr (map (projr \<circ> f) xs')"
    using def mset_eq_setD [OF assms(2)] by (intro mapM_res_all_Inr) auto
  ultimately show ?thesis using assms(2) by auto
qed

text \<open>The transaction a maker reads from a plain CoinJoin of the builder: the negotiated inputs and
  payments in some order.\<close>

lemma maker_reads_build:
  assumes build: "build_coinjoin_tx lib decode sh taker_utxos taker_cj taker_chg tin makers amt fee network thr locktime None
      = Inr (bs, md)"
    and sh: "shuffles sh" and lim: "tx_limits taker_utxos makers amt (taker_change_of tin amt fee makers)"
    and canon: "list_all (canonical_address lib network \<circ> fst) (cj_payments taker_cj makers amt @
      change_payments taker_chg (taker_change_of tin amt fee makers) makers amt)"
  shows "\<exists>tx. parse_maker_transaction lib (bytes_hex bs) network = Some tx \<and> mt_locktime tx = locktime \<and>
    mset (mt_inputs tx) = mset (map outpoint (taker_utxos @ maker_utxos makers)) \<and>
    mset (mt_outputs tx) = mset (cj_payments taker_cj makers amt @
      change_payments taker_chg (taker_change_of tin amt fee makers) makers amt)"
proof -
  let ?ps = "cj_payments taker_cj makers amt @ change_payments taker_chg (taker_change_of tin amt fee makers) makers amt"
  obtain p outs where p: "parse_transaction_bytes bs = Inr p" "pt_version p = 2" "pt_locktime p = locktime"
    "mset (map (\<lambda>i. (txin_txid i, ti_vout i)) (pt_inputs p)) = mset (map outpoint (taker_utxos @ maker_utxos makers))"
    "mapM_res (pay lib) ?ps = Inr outs" "mset (pt_outputs p) = mset outs"
    using build_coinjoin_tx_plain [OF build sh lim] by blast
  obtain rs where rs: "mapM_res (\<lambda>out. map_res (\<lambda>a. (a, to_value out)) (script_to_address lib (to_script out) network))
      (pt_outputs p) = Inr rs" "mset rs = mset ?ps"
    using mapM_res_mset [OF pays_back [OF p(5) canon] p(6)] by blast
  have "length (pt_outputs p) \<noteq> 0"
    using mset_eq_length [OF p(6)] mapM_res_length [OF p(5)] by (simp add: cj_payments_def)
  moreover have "length (pt_inputs p) \<noteq> 0"
    using mset_eq_length [OF p(4)] lim by (auto simp: tx_limits_def)
  ultimately have "parse_maker_transaction lib (bytes_hex bs) network
      = Some \<lparr>mt_inputs = map (\<lambda>i. (txin_txid i, ti_vout i)) (pt_inputs p), mt_outputs = rs, mt_locktime = locktime\<rparr>"
    using p(1-3) rs(1) by (simp add: parse_maker_transaction_def parse_transaction_def)
  with p(4) rs(2) show ?thesis by (simp only: option.inject) auto
qed

lemma times_paid_count: "times_paid a outs = count (mset (map fst outs)) a"
  by (induction outs) (auto simp: times_paid_def)

lemma paid_distinct:
  assumes "mset outs = mset ps" "distinct (map fst ps)" "(a, v) \<in> set ps"
  shows "times_paid a outs = 1" "(a, v') \<in> set outs \<longleftrightarrow> v' = v"
proof -
  have "mset (map fst outs) = mset (map fst ps)" using assms(1) by simp
  then show "times_paid a outs = 1"
    using assms(2,3) by (force simp: times_paid_count distinct_count_atmost_1)
  show "(a, v') \<in> set outs \<longleftrightarrow> v' = v"
    using assms mset_eq_setD [OF assms(1)] by (metis eq_key_imp_eq_value)
qed

text \<open>Every address of the transaction, those of change that is not paid included.\<close>

definition all_addresses :: "string \<Rightarrow> string \<Rightarrow> (string, maker_data) dict \<Rightarrow> string list" where
  "all_addresses taker_cj taker_chg makers =
     taker_cj # map (md_cj_addr \<circ> snd) makers @ taker_chg # map (md_change_addr \<circ> snd) makers"

lemma payment_addresses:
  fixes makers :: "(string, maker_data) dict"
  assumes "distinct (all_addresses taker_cj taker_chg makers)"
  shows "distinct (map fst (cj_payments taker_cj makers amt @ change_payments taker_chg change makers amt))"
    "set (map fst (cj_payments taker_cj makers amt @ change_payments taker_chg change makers amt))
       \<subseteq> set (all_addresses taker_cj taker_chg makers)"
proof -
  let ?kept = "filter (kept_change amt \<circ> snd) makers"
  have e: "map fst (cj_payments taker_cj makers amt @ change_payments taker_chg change makers amt)
      = taker_cj # map (md_cj_addr \<circ> snd) makers @ (if taker_keeps taker_chg change then [taker_chg] else [])
        @ map (md_change_addr \<circ> snd) ?kept"
    by (simp add: cj_payments_def change_payments_def comp_def case_prod_unfold)
  have "distinct (map (md_change_addr \<circ> snd) ?kept)"
    using assms by (intro distinct_map_filter) (simp add: all_addresses_def)
  with assms show "distinct (map fst (cj_payments taker_cj makers amt @ change_payments taker_chg change makers amt))"
    unfolding e by (auto simp: all_addresses_def)
  show "set (map fst (cj_payments taker_cj makers amt @ change_payments taker_chg change makers amt))
       \<subseteq> set (all_addresses taker_cj taker_chg makers)"
    unfolding e by (auto simp: all_addresses_def)
qed

text \<open>The locktime of the taker's policy passes the maker's check when the maker's chain tip is at most
  twelve blocks behind the taker's.\<close>

lemma policy_locktime_verifies:
  assumes "compute_tx_locktime height roll back = Inr locktime" "0 \<le> back" "height < 500000000" "height \<le> h + 12" "0 \<le> h"
  shows "verify_locktime locktime now (Some h) = Accepted"
  using assms by (auto simp: compute_tx_locktime_def verify_locktime_Accepted LOCKTIME_THRESHOLD_def
      LOCKTIME_HEIGHT_FUTURE_TOLERANCE_BLOCKS_def split: if_splits)

lemma maker_payments:
  assumes "(nick, m) \<in> set makers" "kept_change amt m"
  shows "(md_cj_addr m, amt) \<in> set (cj_payments taker_cj makers amt @ change_payments taker_chg change makers amt)"
    "(md_change_addr m, maker_change amt m) \<in> set (cj_payments taker_cj makers amt @ change_payments taker_chg change makers amt)"
proof -
  have "(md_cj_addr m, amt) \<in> (\<lambda>(_, m). (md_cj_addr m, amt)) ` set makers"
    by (rule image_eqI [OF _ assms(1)]) simp
  then show "(md_cj_addr m, amt) \<in> set (cj_payments taker_cj makers amt @ change_payments taker_chg change makers amt)"
    by (simp add: cj_payments_def)
  have "(nick, m) \<in> set (filter (kept_change amt \<circ> snd) makers)" using assms by simp
  then have "(md_change_addr m, maker_change amt m) \<in> (\<lambda>(_, m). (md_change_addr m, maker_change amt m)) `
      set (filter (kept_change amt \<circ> snd) makers)"
    by (rule image_eqI [rotated]) simp
  then show "(md_change_addr m, maker_change amt m) \<in> set (cj_payments taker_cj makers amt @ change_payments taker_chg change makers amt)"
    by (simp add: change_payments_def)
qed

text \<open>C1: the two sides of a CoinJoin fit together. The transaction that the taker's builder assembles
  passes the verification of every maker in it that has change to receive: with the fee both sides
  compute from the offer, the taker's locktime policy, canonical and pairwise different addresses, and
  a maker whose view of the chain is at most twelve blocks behind.\<close>

theorem coinjoin_round_verifies:
  assumes "build_coinjoin_tx lib decode sh taker_utxos taker_cj taker_chg tin makers amt fee network thr locktime None
      = Inr (bs, md)"
    and "shuffles sh" and "tx_limits taker_utxos makers amt (taker_change_of tin amt fee makers)"
    and "list_all (canonical_address lib network \<circ> fst) (cj_payments taker_cj makers amt @
      change_payments taker_chg (taker_change_of tin amt fee makers) makers amt)"
    and "distinct (all_addresses taker_cj taker_chg makers)"
    and "(nick, m) \<in> set makers" "kept_change amt m"
    and "calculate_cj_fee t f amt = Inr (md_cjfee m)" "md_txfee m \<le> md_cjfee m"
    and "dict_keys our = map outpoint (md_utxos m)" "map (ui_value \<circ> snd) our = map ud_value (md_utxos m)"
    and "compute_tx_locktime height roll back = Inr locktime" "0 \<le> back" "height < 500000000" "height \<le> h + 12" "0 \<le> h"
  shows "verify_unsigned_transaction lib now (bytes_hex bs) our (md_cj_addr m) (md_change_addr m) amt f (md_txfee m) t
    network (Some h) [] = Accepted"
proof -
  let ?ps = "cj_payments taker_cj makers amt @ change_payments taker_chg (taker_change_of tin amt fee makers) makers amt"
  obtain tx where tx: "parse_maker_transaction lib (bytes_hex bs) network = Some tx" "mt_locktime tx = locktime"
    "mset (mt_inputs tx) = mset (map outpoint (taker_utxos @ maker_utxos makers))" "mset (mt_outputs tx) = mset ?ps"
    using maker_reads_build [OF assms(1-4)] by blast
  note d = payment_addresses(1) [OF assms(5), of amt "taker_change_of tin amt fee makers"]
  note cj = paid_distinct [OF tx(4) d maker_payments(1) [OF assms(6,7)]]
  note chg = paid_distinct [OF tx(4) d maker_payments(2) [OF assms(6,7)]]
  have "set (dict_keys our) \<subseteq> set (mt_inputs tx)"
    using assms(6,10) mset_eq_setD [OF tx(3)] by (force simp: maker_utxos_def)
  moreover have "total_in our [] - amt - md_txfee m + md_cjfee m = maker_change amt m"
    using assms(11) by (simp add: total_in_def maker_change_def)
  then have "accepts_outputs (md_cj_addr m) (md_change_addr m) amt (total_in our [] - amt - md_txfee m + md_cjfee m) (mt_outputs tx)"
    using cj(2) chg(2) by (auto simp: accepts_outputs_def)
  ultimately show ?thesis
    unfolding verify_unsigned_transaction_Accepted
    using tx(1,2) cj(1) chg(1) assms(8,9) policy_locktime_verifies [OF assms(12-16)] by auto
qed

definition ex_maker :: maker_data where
  "ex_maker = snd (hd ex_makers)"

definition ex_our :: "(string \<times> int, utxo_info) dict" where
  "ex_our = map (\<lambda>u. (outpoint u, plain_utxo (ud_txid u) (ud_vout u) (ud_value u))) (md_utxos ex_maker)"

lemma ex_round:
  "list_all (canonical_address letters_lib REGTEST \<circ> fst) (cj_payments (ex_addr (CHR ''f'')) ex_makers 100000 @
     change_payments (ex_addr (CHR ''g'')) (taker_change_of 200000 100000 2000 ex_makers) ex_makers 100000)"
  "distinct (all_addresses (ex_addr (CHR ''f'')) (ex_addr (CHR ''g'')) ex_makers)"
  "(''m1'', ex_maker) \<in> set ex_makers" "kept_change 100000 ex_maker"
  "calculate_cj_fee SW0_ABSOLUTE (FeeInt 500) 100000 = Inr (md_cjfee ex_maker)" "md_txfee ex_maker \<le> md_cjfee ex_maker"
  "compute_tx_locktime 800000 5 0 = Inr 800000"
       apply code_simp
      apply code_simp
     apply (simp add: ex_makers_def ex_maker_def)
    apply code_simp
   apply code_simp
  apply code_simp
  apply code_simp
  done

theorem coinjoin_round_verifies_witness:
  "verify_unsigned_transaction letters_lib 0 (bytes_hex (fst (projr ex_build))) ex_our (md_cj_addr ex_maker)
     (md_change_addr ex_maker) 100000 (FeeInt 500) (md_txfee ex_maker) SW0_ABSOLUTE REGTEST (Some 799990) [] = Accepted"
proof -
  have keys: "dict_keys ex_our = map outpoint (md_utxos ex_maker)"
    "map (ui_value \<circ> snd) ex_our = map ud_value (md_utxos ex_maker)"
    by (simp_all add: ex_our_def plain_utxo_def comp_def)
  have build: "build_coinjoin_tx letters_lib letters_decode_net ex_sh [ex_utxo (CHR ''3'') 200000] (ex_addr (CHR ''f'')) (ex_addr (CHR ''g'')) 200000
      ex_makers 100000 2000 REGTEST 27300 800000 None = Inr (fst (projr ex_build), snd (projr ex_build))"
    using ex_build_ok by (simp only: ex_build_def)
  show ?thesis
    by (rule coinjoin_round_verifies [OF build ex_sh_shuffles ex_limits ex_round(1-6) keys ex_round(7)])
       simp_all
qed

end
