(* ===== verification/Taker_Signatures.thy ===== *)
theory Taker_Signatures
  imports Taker_Tx_Builder
begin

text \<open>
  \<open>CoinJoinTxBuilder.add_signatures\<close> of \<open>taker/src/taker/tx_builder.py\<close>: the makers' and the taker's
  witnesses are put into the unsigned transaction. A transaction with an input for which its owner sent
  no entry is never assembled. An entry with an empty (or absent) witness counts as a signature, though:
  the input is then left unsigned.
\<close>

record sig_info =
  si_txid :: string
  si_vout :: int
  si_witness :: "string list"

type_synonym signatures = "(string, sig_info list) dict"

definition matching_sig :: "signatures \<Rightarrow> string \<Rightarrow> tx_input \<Rightarrow> sig_info option" where
  "matching_sig sigs owner inp =
     (case dict_get sigs owner of
        None \<Rightarrow> None
      | Some infos \<Rightarrow> List.find (\<lambda>s. si_txid s = txin_txid inp \<and> si_vout s = ti_vout inp) infos)"

text \<open>The loop over the owners: the witnesses, and how many inputs have no signature.\<close>

fun collect_witnesses ::
  "signatures \<Rightarrow> string list \<Rightarrow> tx_input list \<Rightarrow> (bytes list list \<times> nat) res" where
  "collect_witnesses sigs [] inputs = Inr ([], 0)"
| "collect_witnesses sigs (owner # owners) [] = Inl IndexError"
| "collect_witnesses sigs (owner # owners) (inp # inputs) =
     (case matching_sig sigs owner inp of
        Some s \<Rightarrow> bind_res (mapM_res fromhex (si_witness s)) (\<lambda>w.
          map_res (\<lambda>(ws, n). (w # ws, n)) (collect_witnesses sigs owners inputs))
      | None \<Rightarrow> map_res (\<lambda>(ws, n). ([] # ws, Suc n)) (collect_witnesses sigs owners inputs))"

definition add_signatures :: "bytes \<Rightarrow> signatures \<Rightarrow> tx_metadata \<Rightarrow> bytes res" where
  "add_signatures tx_bytes sigs metadata =
     bind_res (parse_transaction_bytes tx_bytes) (\<lambda>parsed.
     bind_res (collect_witnesses sigs (tm_input_owners metadata) (pt_inputs parsed)) (\<lambda>(new_witnesses, unsigned).
       if unsigned \<noteq> 0 then Inl (ValueError ''Cannot assemble transaction'')
       else serialize_transaction (pt_version parsed) (pt_inputs parsed) (pt_outputs parsed)
              (pt_locktime parsed) (Some new_witnesses)))"

section \<open>What the parser guarantees\<close>

lemma dec_many_Inr:
  assumes "dec_many dec n data off = Inr (xs, off')" "\<And>a x b. dec data a = Inr (x, b) \<Longrightarrow> P x"
  shows "length xs = n \<and> list_all P xs"
  using assms(1)
proof (induction n arbitrary: off xs)
  case 0
  then show ?case by simp
next
  case (Suc n)
  then obtain x off1 ys where "dec data off = Inr (x, off1)" "dec_many dec n data off1 = Inr (ys, off')" "xs = x # ys"
    by (auto simp: bind_res_Inr_iff)
  with Suc.IH assms(2) show ?case by auto
qed

lemma parse_input_Inr: "parse_input data off = Inr (i, off') \<Longrightarrow> length (ti_txid_le i) = 32 \<and> wire_input i = i"
  by (auto simp: parse_input_def Let_def bind_res_Inr_iff slice_def wire_input_def split: if_splits prod.splits)

lemma parse_output_Inr: "parse_output data off = Inr (u, off') \<Longrightarrow> to_value u \<le> MAX_MONEY"
  by (auto simp: parse_output_def Let_def bind_res_Inr_iff split: if_splits prod.splits)

lemma parse_transaction_wf:
  assumes "parse_transaction_bytes bs = Inr tx" "pt_inputs tx \<noteq> []"
    and "length ws = length (pt_inputs tx)" "list_all (\<lambda>w. length w \<le> 1000) ws"
  shows "wf_tx (pt_inputs tx) (pt_outputs tx) (Some ws)" "map wire_input (pt_inputs tx) = pt_inputs tx"
proof -
  from assms(1) obtain n off1 off2 m off3 off4 where
    "dec_many parse_input n bs off1 = Inr (pt_inputs tx, off2)" "n \<le> 10000"
    "dec_many parse_output m bs off3 = Inr (pt_outputs tx, off4)" "m \<le> 10000"
    unfolding parse_transaction_bytes_def Let_def
    by (auto simp: bind_res_Inr_iff not_less split: if_splits)
  with dec_many_Inr [of parse_input n bs off1 "pt_inputs tx" off2 "\<lambda>i. length (ti_txid_le i) = 32 \<and> wire_input i = i"]
    dec_many_Inr [of parse_output m bs off3 "pt_outputs tx" off4 "\<lambda>u. to_value u \<le> MAX_MONEY"]
    parse_input_Inr parse_output_Inr
  have "length (pt_inputs tx) \<le> 10000" "list_all (\<lambda>i. length (ti_txid_le i) = 32 \<and> wire_input i = i) (pt_inputs tx)"
    "length (pt_outputs tx) \<le> 10000" "list_all (\<lambda>u. to_value u \<le> MAX_MONEY) (pt_outputs tx)" by blast+
  with assms show "wf_tx (pt_inputs tx) (pt_outputs tx) (Some ws)" "map wire_input (pt_inputs tx) = pt_inputs tx"
    by (auto simp: wf_tx_def list_all_iff intro: map_idI)
qed

section \<open>Every input signed, nothing else changed\<close>

definition signed_by :: "signatures \<Rightarrow> string \<Rightarrow> tx_input \<Rightarrow> bytes list \<Rightarrow> bool" where
  "signed_by sigs owner inp w =
     (case matching_sig sigs owner inp of None \<Rightarrow> False | Some s \<Rightarrow> mapM_res fromhex (si_witness s) = Inr w)"

lemma collect_witnesses_all:
  "length owners = length inputs \<Longrightarrow> collect_witnesses sigs owners inputs = Inr (ws, 0) \<Longrightarrow>
   length ws = length inputs \<and> (\<forall>i < length inputs. signed_by sigs (owners ! i) (inputs ! i) (ws ! i))"
proof (induction owners inputs arbitrary: ws rule: list_induct2)
  case Nil
  then show ?case by simp
next
  case (Cons owner owners inp inputs)
  then obtain s w ws' where "matching_sig sigs owner inp = Some s" "mapM_res fromhex (si_witness s) = Inr w"
    and ws: "collect_witnesses sigs owners inputs = Inr (ws', 0)" "ws = w # ws'"
    by (auto simp: bind_res_Inr_iff map_res_Inr_iff split: option.splits)
  then have "signed_by sigs owner inp w" by (simp add: signed_by_def)
  with Cons.IH [OF ws(1)] ws(2) show ?case by (auto simp: less_Suc_eq_0_disj)
qed

definition small_witnesses :: "signatures \<Rightarrow> bool" where
  "small_witnesses sigs = list_all (\<lambda>(_, infos). list_all (\<lambda>s. length (si_witness s) \<le> 1000) infos) sigs"

lemma signed_by_small: "signed_by sigs owner inp w \<Longrightarrow> small_witnesses sigs \<Longrightarrow> length w \<le> 1000"
  by (auto simp: signed_by_def matching_sig_def small_witnesses_def list_all_iff find_Some_iff
      dest!: mapM_res_length map_of_SomeD split: option.splits)

definition full_witnesses :: "signatures \<Rightarrow> bool" where
  "full_witnesses sigs = list_all (\<lambda>(_, infos). list_all (\<lambda>s. si_witness s \<noteq> []) infos) sigs"

lemma signed_by_full: "signed_by sigs owner inp w \<Longrightarrow> full_witnesses sigs \<Longrightarrow> w \<noteq> []"
  by (auto simp: signed_by_def matching_sig_def full_witnesses_def list_all_iff find_Some_iff
      dest!: mapM_res_length map_of_SomeD split: option.splits)

text \<open>C17: when \<open>add_signatures\<close> returns, every input carries the witness that its owner sent for exactly
  that outpoint, and the signed transaction reads back with the version, inputs, outputs and locktime
  of the unsigned one. (So with an input for which its owner sent no entry it does not return.) An entry with an
  empty witness leaves its input unsigned; if no entry has one, every input is signed.\<close>

theorem add_signatures_sound:
  assumes "parse_transaction_bytes tx_bytes = Inr tx" "pt_inputs tx \<noteq> []"
    and "length (tm_input_owners metadata) = length (pt_inputs tx)" "small_witnesses sigs"
    and "add_signatures tx_bytes sigs metadata = Inr out"
  shows "\<exists>ws. length ws = length (pt_inputs tx) \<and>
    (\<forall>i < length (pt_inputs tx). signed_by sigs (tm_input_owners metadata ! i) (pt_inputs tx ! i) (ws ! i)) \<and>
    (full_witnesses sigs \<longrightarrow> (\<forall>i < length (pt_inputs tx). ws ! i \<noteq> [])) \<and>
    parse_transaction_bytes out = Inr \<lparr>pt_version = pt_version tx, pt_inputs = pt_inputs tx, pt_outputs = pt_outputs tx,
      pt_witnesses = (if list_ex (\<lambda>w. w \<noteq> []) ws then ws else []), pt_locktime = pt_locktime tx,
      pt_has_witness = list_ex (\<lambda>w. w \<noteq> []) ws\<rparr>"
proof -
  from assms obtain ws where c: "collect_witnesses sigs (tm_input_owners metadata) (pt_inputs tx) = Inr (ws, 0)"
    and ser: "serialize_transaction (pt_version tx) (pt_inputs tx) (pt_outputs tx) (pt_locktime tx) (Some ws) = Inr out"
    by (auto simp: add_signatures_def bind_res_Inr_iff split: if_splits)
  note all = collect_witnesses_all [OF assms(3) c]
  have "length w \<le> 1000" if "w \<in> set ws" for w
    using that all signed_by_small [OF _ assms(4)] by (metis in_set_conv_nth)
  then have "list_all (\<lambda>w. length w \<le> 1000) ws" by (simp add: list_all_iff)
  note wf = parse_transaction_wf [OF assms(1,2) conjunct1 [OF all] this]
  from parse_serialize_tx [OF ser wf(1)] all wf(2) signed_by_full show ?thesis
    by (intro exI [of _ ws]) (auto simp: any_witness_def)
qed

text \<open>Two inputs of two owners, each with its signature.\<close>

definition ex_sign_input :: "nat \<Rightarrow> tx_input" where
  "ex_sign_input n = \<lparr>ti_txid_le = replicate 32 (word_of_nat n), ti_vout = int n, ti_scriptsig = [], ti_sequence = 0xFFFFFFFE,
     ti_value = 0, ti_scriptpubkey = []\<rparr>"

definition ex_sign_tx :: bytes where
  "ex_sign_tx = projr (serialize_transaction 2 [ex_sign_input 1, ex_sign_input 2] [\<lparr>to_value = 1000, to_script = [0x6A]\<rparr>] 0 None)"

definition ex_sigs :: signatures where
  "ex_sigs = map (\<lambda>(nick, n). (nick, [\<lparr>si_txid = txin_txid (ex_sign_input n), si_vout = int n, si_witness = [''3044'', ''02'']\<rparr>]))
     [(''taker'', 1), (''maker'', 2)]"

definition ex_sign_md :: tx_metadata where
  "ex_sign_md = \<lparr>tm_input_owners = [''taker'', ''maker''], tm_output_owners = [], tm_input_values = [], tm_fee = 0,
     tm_channel_edges = [], tm_channel_endpoints = []\<rparr>"

definition ex_parsed :: parsed_transaction where
  "ex_parsed = projr (parse_transaction_bytes ex_sign_tx)"

lemma ex_sign_parsed: "parse_transaction_bytes ex_sign_tx = Inr ex_parsed"
proof -
  have "\<not> isl (parse_transaction_bytes ex_sign_tx)" by code_simp
  then show ?thesis unfolding ex_parsed_def by (cases "parse_transaction_bytes ex_sign_tx") auto
qed

lemma ex_signed: "add_signatures ex_sign_tx ex_sigs ex_sign_md = Inr (projr (add_signatures ex_sign_tx ex_sigs ex_sign_md))"
proof -
  have "\<not> isl (add_signatures ex_sign_tx ex_sigs ex_sign_md)" by code_simp
  then show ?thesis by (cases "add_signatures ex_sign_tx ex_sigs ex_sign_md") auto
qed

text \<open>Entries with empty witnesses: the \<open>signed\<close> transaction is the unsigned one.\<close>

lemma empty_witness_assembled:
  "add_signatures ex_sign_tx (map (map_prod id (map (si_witness_update (\<lambda>_. [])))) ex_sigs) ex_sign_md = Inr ex_sign_tx"
  by code_simp

theorem add_signatures_sound_witness:
  "\<exists>tx. parse_transaction_bytes (projr (add_signatures ex_sign_tx ex_sigs ex_sign_md)) = Inr tx \<and>
     pt_outputs tx = [\<lparr>to_value = 1000, to_script = [0x6A]\<rparr>] \<and> pt_has_witness tx"
proof -
  have 1: "pt_inputs ex_parsed \<noteq> []" "length (tm_input_owners ex_sign_md) = length (pt_inputs ex_parsed)"
    "small_witnesses ex_sigs" "pt_outputs ex_parsed = [\<lparr>to_value = 1000, to_script = [0x6A]\<rparr>]" by code_simp+
  have 2: "full_witnesses ex_sigs" "length (pt_inputs ex_parsed) = 2" by code_simp+
  from add_signatures_sound [OF ex_sign_parsed 1(1-3) ex_signed] 2 obtain ws where ws: "length ws = 2" "\<forall>i < 2. ws ! i \<noteq> []"
    "parse_transaction_bytes (projr (add_signatures ex_sign_tx ex_sigs ex_sign_md)) = Inr \<lparr>pt_version = pt_version ex_parsed,
      pt_inputs = pt_inputs ex_parsed, pt_outputs = pt_outputs ex_parsed, pt_witnesses = (if list_ex (\<lambda>w. w \<noteq> []) ws then ws else []),
      pt_locktime = pt_locktime ex_parsed, pt_has_witness = list_ex (\<lambda>w. w \<noteq> []) ws\<rparr>"
    by auto
  have "list_ex (\<lambda>w. w \<noteq> []) ws" using ws(1,2) by (auto simp: list_ex_length intro!: exI [of _ 0])
  with ws(3) 1(4) show ?thesis by auto
qed

end
