(* ===== verification/Py_Datetime.thy ===== *)
theory Py_Datetime
  imports Jm_Prelude
begin

text \<open>
  The part of Python's \<open>datetime\<close> that the code uses, in UTC: the timestamp of a first of month, and
  the calendar date and clock time of a timestamp. Ordinals count days from 1 January of year 1, as in
  the library; years go from 1 to 9999. A timestamp outside the platform's \<open>time_t\<close> raises
  \<open>OverflowError\<close>, one outside the calendar \<open>ValueError\<close> (or \<open>OSError\<close>, depending on the
  platform, which the model does not tell apart).
\<close>

definition is_leap :: "int \<Rightarrow> bool" where
  "is_leap y \<longleftrightarrow> y mod 4 = 0 \<and> (y mod 100 \<noteq> 0 \<or> y mod 400 = 0)"

definition days_before_year :: "int \<Rightarrow> int" where
  "days_before_year y = (let p = y - 1 in p * 365 + p div 4 - p div 100 + p div 400)"

definition year_length :: "int \<Rightarrow> int" where
  "year_length y = (if is_leap y then 366 else 365)"

text \<open>Days of the year before month \<open>m\<close>; month 13 stands for the end of the year.\<close>

definition days_before_month :: "int \<Rightarrow> int \<Rightarrow> int" where
  "days_before_month y m =
     (if m \<le> 1 then 0 else if m = 2 then 31 else
      (if is_leap y then 1 else 0) +
      (if m = 3 then 59 else if m = 4 then 90 else if m = 5 then 120 else if m = 6 then 151 else
       if m = 7 then 181 else if m = 8 then 212 else if m = 9 then 243 else if m = 10 then 273 else
       if m = 11 then 304 else if m = 12 then 334 else 365))"

definition ymd_ord :: "int \<Rightarrow> int \<Rightarrow> int \<Rightarrow> int" where
  "ymd_ord y m d = days_before_year y + days_before_month y m + d"

definition EPOCH_ORD :: int where
  "EPOCH_ORD = 719163"

text \<open>\<open>int(datetime(y, m, 1, 0, 0, 0, tzinfo=UTC).timestamp())\<close>\<close>

definition first_of_month :: "int \<Rightarrow> int \<Rightarrow> int res" where
  "first_of_month y m =
     (if \<not> (1 \<le> y \<and> y \<le> 9999) then Inl (ValueError ''year out of range'')
      else if \<not> (1 \<le> m \<and> m \<le> 12) then Inl (ValueError ''month must be in 1..12'')
      else Inr ((ymd_ord y m 1 - EPOCH_ORD) * 86400))"

lemma div_step: "0 < k \<Longrightarrow> y div k = (y - 1) div k + (if y mod k = 0 then 1 else 0)" for k :: int
proof -
  assume k: "0 < k"
  have e: "y = k * (y div k) + y mod k" by simp
  have m: "0 \<le> y mod k" "y mod k < k" using k by simp_all
  show ?thesis
  proof (cases "y mod k = 0")
    case True
    have "y - 1 = k * (y div k - 1) + (k - 1)" using e True by (simp add: algebra_simps)
    then have "(y - 1) div k = y div k - 1"
      by (rule int_div_pos_eq) (use k in simp_all)
    with True show ?thesis by simp
  next
    case False
    have "y - 1 = k * (y div k) + (y mod k - 1)" using e by simp
    moreover have "0 \<le> y mod k - 1" "y mod k - 1 < k" using m False by simp_all
    ultimately have "(y - 1) div k = y div k" by (rule int_div_pos_eq)
    with False show ?thesis by simp
  qed
qed

lemma days_before_year_Suc: "days_before_year (y + 1) = days_before_year y + year_length y"
proof -
  define P4 P100 P400 where P: "P4 = (y mod 4 = 0)" "P100 = (y mod 100 = 0)" "P400 = (y mod 400 = 0)"
  define a b c where A: "a = (y - 1) div 4" "b = (y - 1) div 100" "c = (y - 1) div 400"
  have "100 dvd y \<Longrightarrow> 4 dvd y" "400 dvd y \<Longrightarrow> 100 dvd y"
    by (rule dvd_trans [of _ 100], simp_all) (rule dvd_trans [of _ 400], simp_all)
  then have imp: "P100 \<Longrightarrow> P4" "P400 \<Longrightarrow> P100" unfolding P by (simp_all add: mod_eq_0_iff_dvd)
  have now: "days_before_year y = (y - 1) * 365 + a - b + c"
    unfolding A by (simp add: days_before_year_def Let_def)
  have "days_before_year (y + 1) = y * 365 + y div 4 - y div 100 + y div 400"
    by (simp add: days_before_year_def)
  also have "y div 4 = a + (if P4 then 1 else 0)" unfolding P A by (rule div_step) simp
  also have "y div 100 = b + (if P100 then 1 else 0)" unfolding P A by (rule div_step) simp
  also have "y div 400 = c + (if P400 then 1 else 0)" unfolding P A by (rule div_step) simp
  finally show ?thesis
    unfolding now year_length_def is_leap_def P [symmetric] using imp by (cases P4; cases P100; cases P400) auto
qed

lemma year_length_pos: "0 < year_length y"
  by (simp add: year_length_def)

lemma days_before_year_mono: "y \<le> y' \<Longrightarrow> days_before_year y \<le> days_before_year y'"
proof (induction "nat (y' - y)" arbitrary: y')
  case 0
  then show ?case by simp
next
  case (Suc n)
  then have "days_before_year y \<le> days_before_year (y' - 1)" by simp
  also have "\<dots> \<le> days_before_year y'"
    using days_before_year_Suc [of "y' - 1"] year_length_pos [of "y' - 1"] by simp
  finally show ?case .
qed

lemma days_before_year_unique:
  assumes "days_before_year y < n" "n \<le> days_before_year (y + 1)"
    and "days_before_year y' < n" "n \<le> days_before_year (y' + 1)"
  shows "y = y'"
proof (rule ccontr)
  assume "y \<noteq> y'"
  then consider "y + 1 \<le> y'" | "y' + 1 \<le> y" by linarith
  then show False
    using assms days_before_year_mono [of "y + 1" y'] days_before_year_mono [of "y' + 1" y] by cases linarith+
qed

text \<open>The year of an ordinal: a first guess from below and a short walk up.\<close>

function year_from :: "int \<Rightarrow> int \<Rightarrow> int" where
  "year_from y n = (if days_before_year (y + 1) < n then year_from (y + 1) n else y)"
  by pat_completeness auto
termination
  by (relation "measure (\<lambda>(y, n). nat (n - days_before_year y))")
     (auto simp: days_before_year_Suc year_length_def split: if_splits)

declare year_from.simps [simp del]

lemma year_from_bounds:
  "days_before_year y < n \<Longrightarrow> days_before_year (year_from y n) < n \<and> n \<le> days_before_year (year_from y n + 1) \<and> y \<le> year_from y n"
proof (induction y n rule: year_from.induct)
  case (1 y n)
  show ?case
  proof (cases "days_before_year (y + 1) < n")
    case True
    with 1 show ?thesis by (subst (1 2 3) year_from.simps) simp
  next
    case False
    with 1 show ?thesis by (subst (1 2 3) year_from.simps) simp
  qed
qed

definition year_of :: "int \<Rightarrow> int" where
  "year_of n = year_from ((n - 1) div 366 + 1) n"

lemma year_of_bounds:
  assumes "1 \<le> n"
  shows "days_before_year (year_of n) < n" "n \<le> days_before_year (year_of n + 1)" "1 \<le> year_of n"
proof -
  define p where "p = (n - 1) div 366"
  have p: "0 \<le> p" "366 * p \<le> n - 1" using assms by (simp_all add: p_def pos_imp_zdiv_nonneg_iff)
  have "days_before_year (p + 1) = p * 365 + p div 4 - p div 100 + p div 400"
    by (simp add: days_before_year_def Let_def)
  moreover have "p div 400 \<le> p div 100" "p div 4 \<le> p"
    using p(1) by (auto intro: zdiv_mono2 simp: div_le_dividend)
  ultimately have "days_before_year (p + 1) < n" using p by linarith
  from year_from_bounds [OF this] p(1)
  show "days_before_year (year_of n) < n" "n \<le> days_before_year (year_of n + 1)" "1 \<le> year_of n"
    unfolding year_of_def p_def [symmetric] by linarith+
qed

text \<open>The month of a day of the year.\<close>

fun month_among :: "int \<Rightarrow> int \<Rightarrow> int list \<Rightarrow> int" where
  "month_among y k [] = 12"
| "month_among y k (m # ms) = (if k \<le> days_before_month y (m + 1) then m else month_among y k ms)"

definition month_of :: "int \<Rightarrow> int \<Rightarrow> int" where
  "month_of y k = month_among y k [1, 2, 3, 4, 5, 6, 7, 8, 9, 10, 11]"

lemma days_before_month_bounds: "days_before_month y 1 = 0" "days_before_month y 13 = year_length y"
  by (simp_all add: days_before_month_def year_length_def)

lemma month_among_bounds:
  assumes "days_before_month y m0 < k" "k \<le> days_before_month y 13" "ms = [m0..11]" "1 \<le> m0" "m0 \<le> 12"
  shows "1 \<le> month_among y k ms \<and> month_among y k ms \<le> 12 \<and> days_before_month y (month_among y k ms) < k \<and>
    k \<le> days_before_month y (month_among y k ms + 1)"
  using assms
proof (induction ms arbitrary: m0)
  case Nil
  then have "m0 = 12" by simp
  with Nil show ?case by simp
next
  case (Cons m ms)
  then have "m0 \<le> 11" by (metis list.distinct(1) upto.simps)
  with Cons.prems(3) have m: "m = m0" "ms = [m0 + 1..11]" by (simp_all add: upto.simps)
  have "1 \<le> month_among y k ms \<and> month_among y k ms \<le> 12 \<and> days_before_month y (month_among y k ms) < k \<and>
      k \<le> days_before_month y (month_among y k ms + 1)" if "days_before_month y (m0 + 1) < k"
    using Cons.IH [of "m0 + 1"] Cons.prems m(2) that \<open>m0 \<le> 11\<close> by simp
  then show ?case using Cons.prems(1,4) m(1) \<open>m0 \<le> 11\<close> by (simp add: not_le)
qed

lemma month_of_bounds:
  assumes "1 \<le> k" "k \<le> year_length y"
  shows "1 \<le> month_of y k" "month_of y k \<le> 12"
    "days_before_month y (month_of y k) < k" "k \<le> days_before_month y (month_of y k + 1)"
proof -
  have "[1, 2, 3, 4, 5, 6, 7, 8, 9, 10, 11] = [1..11::int]" by (simp add: upto.simps)
  from month_among_bounds [OF _ _ this] assms
  show "1 \<le> month_of y k" "month_of y k \<le> 12"
    "days_before_month y (month_of y k) < k" "k \<le> days_before_month y (month_of y k + 1)"
    by (simp_all add: month_of_def days_before_month_bounds del: month_among.simps)
qed

lemma days_before_month_step: "days_before_month y m \<le> days_before_month y (m + 1)"
  by (auto simp: days_before_month_def)

lemma days_before_month_mono: "m \<le> m' \<Longrightarrow> days_before_month y m \<le> days_before_month y m'"
proof (induction "nat (m' - m)" arbitrary: m')
  case 0
  then show ?case by simp
next
  case (Suc n)
  then have "days_before_month y m \<le> days_before_month y (m' - 1)" by simp
  with days_before_month_step [of y "m' - 1"] show ?case by simp
qed

lemma month_of_unique:
  assumes "days_before_month y m < k" "k \<le> days_before_month y (m + 1)"
    and "days_before_month y m' < k" "k \<le> days_before_month y (m' + 1)"
  shows "m = m'"
proof (rule ccontr)
  assume "m \<noteq> m'"
  then consider "m + 1 \<le> m'" | "m' + 1 \<le> m" by linarith
  then show False
    using assms days_before_month_mono [of "m + 1" m' y] days_before_month_mono [of "m' + 1" m y] by cases linarith+
qed

section \<open>Timestamps\<close>

record datetime =
  dt_year :: int
  dt_month :: int
  dt_day :: int
  dt_hour :: int
  dt_minute :: int
  dt_second :: int

definition MAX_ORD :: int where
  "MAX_ORD = 3652059"

definition fromtimestamp :: "int \<Rightarrow> datetime res" where
  "fromtimestamp ts =
     (if ts < - (2 ^ 63) \<or> ts \<ge> 2 ^ 63 then Inl OverflowError
      else let n = ts div 86400 + EPOCH_ORD; s = ts mod 86400 in
        if n < 1 \<or> n > MAX_ORD then Inl (ValueError ''year is out of range'')
        else let y = year_of n; k = n - days_before_year y; m = month_of y k in
          Inr \<lparr>dt_year = y, dt_month = m, dt_day = k - days_before_month y m,
               dt_hour = s div 3600, dt_minute = s mod 3600 div 60, dt_second = s mod 60\<rparr>)"

text \<open>Months in a row: number \<open>k\<close> is month \<open>k mod 12 + 1\<close> of year \<open>k div 12\<close>.\<close>

definition month_start :: "int \<Rightarrow> int" where
  "month_start k = ymd_ord (k div 12) (k mod 12 + 1) 1"

lemma month_start_eq: "1 \<le> m \<Longrightarrow> m \<le> 12 \<Longrightarrow> month_start (12 * y + (m - 1)) = ymd_ord y m 1"
  by (simp add: month_start_def)

lemma month_start_Suc:
  "month_start (k + 1) = ymd_ord (k div 12) (k mod 12 + 1 + 1) 1"
proof (cases "k mod 12 = 11")
  case True
  define q where "q = k div 12"
  have "k = 12 * q + k mod 12" by (simp add: q_def)
  then have "k = 12 * q + 11" by (simp only: True)
  then have "k + 1 = 12 * (k div 12 + 1) + 0" unfolding q_def [symmetric] by simp
  then have "(k + 1) div 12 = k div 12 + 1" "(k + 1) mod 12 = 0"
    by (rule int_div_pos_eq [of _ _ _ 0], simp, simp, rule int_mod_pos_eq [of _ _ "k div 12 + 1"], simp_all)
  then show ?thesis
    unfolding month_start_def ymd_ord_def True
    by (simp only: days_before_year_Suc days_before_month_bounds add_0) (simp add: days_before_month_bounds)
next
  case False
  have "k mod 12 < 12" "0 \<le> k mod 12" by simp_all
  with False have r: "0 \<le> k mod 12 + 1" "k mod 12 + 1 < 12" by linarith+
  have "k + 1 = 12 * (k div 12) + (k mod 12 + 1)" by simp
  then have "(k + 1) div 12 = k div 12" "(k + 1) mod 12 = k mod 12 + 1"
    by (rule int_div_pos_eq [OF _ r], rule int_mod_pos_eq [OF _ r])
  then show ?thesis unfolding month_start_def by (simp only:)
qed

lemma days_before_month_less:
  assumes "1 \<le> m" "m \<le> 12"
  shows "days_before_month y m < days_before_month y (m + 1)"
proof -
  have "m = 1 \<or> m = 2 \<or> m = 3 \<or> m = 4 \<or> m = 5 \<or> m = 6 \<or> m = 7 \<or> m = 8 \<or> m = 9 \<or> m = 10 \<or> m = 11 \<or> m = 12"
    using assms by arith
  then show ?thesis by (elim disjE) (simp_all add: days_before_month_def)
qed

lemma month_start_less: "k < k' \<Longrightarrow> month_start k < month_start k'"
proof (induction "nat (k' - k)" arbitrary: k')
  case 0
  then show ?case by simp
next
  case (Suc n)
  define j where "j = k' - 1"
  have "0 \<le> j mod 12" "j mod 12 < 12" by simp_all
  then have "1 \<le> j mod 12 + 1" "j mod 12 + 1 \<le> 12" by linarith+
  from days_before_month_less [OF this, of "j div 12"] have "month_start j < month_start (j + 1)"
    unfolding month_start_Suc unfolding month_start_def ymd_ord_def by linarith
  moreover have "month_start k < month_start j" if "k \<noteq> j"
    using Suc that by (auto simp: j_def)
  ultimately show ?case by (cases "k = j") (auto simp: j_def)
qed

lemma month_start_le_iff: "month_start k \<le> month_start k' \<longleftrightarrow> k \<le> k'"
  by (metis linorder_not_less month_start_less order_le_less)

definition month_index :: "datetime \<Rightarrow> int" where
  "month_index dt = 12 * dt_year dt + (dt_month dt - 1)"

lemma fromtimestamp_Inr:
  assumes "fromtimestamp ts = Inr dt"
  shows "1 \<le> dt_year dt" "1 \<le> dt_month dt" "dt_month dt \<le> 12"
    "ts = (month_start (month_index dt) - 1 + dt_day dt - EPOCH_ORD) * 86400
       + dt_hour dt * 3600 + dt_minute dt * 60 + dt_second dt"
    "month_start (month_index dt) \<le> ts div 86400 + EPOCH_ORD" "ts div 86400 + EPOCH_ORD < month_start (month_index dt + 1)"
    "1 \<le> dt_day dt" "0 \<le> dt_hour dt" "0 \<le> dt_minute dt" "0 \<le> dt_second dt"
proof -
  define n s where n: "n = ts div 86400 + EPOCH_ORD" "s = ts mod 86400"
  define y where "y = year_of n"
  define k where "k = n - days_before_year y"
  define m where "m = month_of y k"
  from assms have r: "1 \<le> n" and dt: "dt = \<lparr>dt_year = y, dt_month = m, dt_day = k - days_before_month y m,
      dt_hour = s div 3600, dt_minute = s mod 3600 div 60, dt_second = s mod 60\<rparr>"
    by (auto simp: fromtimestamp_def Let_def n y_def k_def m_def split: if_splits)
  note yb = year_of_bounds [OF r, folded y_def]
  have kb: "1 \<le> k" "k \<le> year_length y" using yb days_before_year_Suc [of y] by (simp_all add: k_def)
  note mb = month_of_bounds [OF kb, folded m_def]
  have start: "month_start (month_index dt) = ymd_ord y m 1"
    using month_start_eq [of m y] mb by (simp add: month_index_def dt)
  have "(12 * y + (m - 1)) div 12 = y" "(12 * y + (m - 1)) mod 12 = m - 1" using mb by simp_all
  then have Suc: "month_start (month_index dt + 1) = ymd_ord y (m + 1) 1"
    using month_start_Suc [of "12 * y + (m - 1)"] by (simp only: month_index_def dt datetime.simps diff_add_cancel)
  show "1 \<le> dt_year dt" "1 \<le> dt_month dt" "dt_month dt \<le> 12" "1 \<le> dt_day dt"
    using yb mb by (simp_all add: dt)
  show "month_start (month_index dt) \<le> ts div 86400 + EPOCH_ORD" "ts div 86400 + EPOCH_ORD < month_start (month_index dt + 1)"
    unfolding start Suc n(1) [symmetric] using mb by (simp_all add: ymd_ord_def k_def)
  have "s = s div 3600 * 3600 + s mod 3600" by simp
  also have "s mod 3600 = s mod 3600 div 60 * 60 + s mod 3600 mod 60" by simp
  also have "s mod 3600 mod 60 = s mod 60" by (simp add: mod_mod_cancel)
  finally have "s = s div 3600 * 3600 + s mod 3600 div 60 * 60 + s mod 60" by simp
  moreover have "ts = (n - EPOCH_ORD) * 86400 + s" unfolding n by simp
  ultimately show "ts = (month_start (month_index dt) - 1 + dt_day dt - EPOCH_ORD) * 86400
       + dt_hour dt * 3600 + dt_minute dt * 60 + dt_second dt"
    unfolding start by (simp add: dt ymd_ord_def k_def algebra_simps)
  have "0 \<le> s" by (simp add: n)
  then show "0 \<le> dt_hour dt" "0 \<le> dt_minute dt" "0 \<le> dt_second dt"
    by (simp_all add: dt pos_imp_zdiv_nonneg_iff)
qed

end
