(* ===== verification/Jm_Timenumber.thy ===== *)
theory Jm_Timenumber
  imports Py_Datetime Py_Numeric
begin

text \<open>
  Fidelity-bond locktimes, \<open>jmcore/src/jmcore/timenumber.py\<close>: the numbers 0 to 959 stand for the firsts
  of month from January 2020 to December 2099, at midnight UTC. The wall clock of
  \<open>get_future_locktimes\<close> is an argument.
\<close>

definition TIMELOCK_EPOCH_YEAR :: int where
  "TIMELOCK_EPOCH_YEAR = 2020"

definition TIMELOCK_EPOCH_MONTH :: int where
  "TIMELOCK_EPOCH_MONTH = 1"

definition MONTHS_IN_YEAR :: int where
  "MONTHS_IN_YEAR = 12"

definition TIMENUMBER_COUNT :: int where
  "TIMENUMBER_COUNT = (80 * 12) div 1"

definition timenumber_to_timestamp :: "int \<Rightarrow> int res" where
  "timenumber_to_timestamp timenumber =
     (if timenumber < 0 \<or> timenumber \<ge> TIMENUMBER_COUNT then Inl (ValueError ''Timenumber out of range'')
      else
        let year = TIMELOCK_EPOCH_YEAR + timenumber div MONTHS_IN_YEAR;
            month = TIMELOCK_EPOCH_MONTH + timenumber mod MONTHS_IN_YEAR in
        if month > MONTHS_IN_YEAR then first_of_month (year + 1) (month - MONTHS_IN_YEAR)
        else first_of_month year month)"

definition validate_locktime :: "int \<Rightarrow> unit res" where
  "validate_locktime locktime =
     (case fromtimestamp locktime of
        Inl (ValueError _) \<Rightarrow> Inl (ValueError ''Invalid timestamp'')
      | Inl e \<Rightarrow> Inl e
      | Inr dt \<Rightarrow> raise_if
          [(dt_day dt \<noteq> 1, ''Locktime must be 1st of month''),
           (dt_hour dt \<noteq> 0 \<or> dt_minute dt \<noteq> 0 \<or> dt_second dt \<noteq> 0, ''Locktime must be midnight UTC'')])"

definition timestamp_to_timenumber :: "int \<Rightarrow> int res" where
  "timestamp_to_timenumber locktime =
     bind_res (validate_locktime locktime) (\<lambda>_.
     bind_res (fromtimestamp locktime) (\<lambda>dt.
       let year_diff = dt_year dt - TIMELOCK_EPOCH_YEAR;
           month_diff = dt_month dt - TIMELOCK_EPOCH_MONTH;
           timenumber = year_diff * MONTHS_IN_YEAR + month_diff in
       if timenumber < 0 then Inl (ValueError ''is before epoch'')
       else if timenumber \<ge> TIMENUMBER_COUNT then Inl (ValueError ''is after maximum'')
       else Inr timenumber))"

definition is_valid_locktime :: "int \<Rightarrow> bool res" where
  "is_valid_locktime locktime =
     (case bind_res (validate_locktime locktime) (\<lambda>_. timestamp_to_timenumber locktime) of
        Inr _ \<Rightarrow> Inr True | Inl (ValueError _) \<Rightarrow> Inr False | Inl e \<Rightarrow> Inl e)"

definition get_nearest_valid_locktime :: "int \<Rightarrow> bool \<Rightarrow> int res" where
  "get_nearest_valid_locktime locktime round_up =
     bind_res (fromtimestamp locktime) (\<lambda>dt.
       let (year, month) =
         (if round_up then
            (if dt_day dt \<noteq> 1 \<or> dt_hour dt \<noteq> 0 \<or> dt_minute dt \<noteq> 0 \<or> dt_second dt \<noteq> 0 then
               (if dt_month dt = 12 then (dt_year dt + 1, 1) else (dt_year dt, dt_month dt + 1))
             else (dt_year dt, dt_month dt))
          else (dt_year dt, dt_month dt)) in
       bind_res (first_of_month year month) (\<lambda>result.
       bind_res (timestamp_to_timenumber result) (\<lambda>_. Inr result)))"

definition int_res :: "string \<Rightarrow> int res" where
  "int_res s = (case py_int s of None \<Rightarrow> Inl (ValueError ''invalid literal for int()'') | Some n \<Rightarrow> Inr n)"

definition locktime_of_month :: "int \<Rightarrow> int \<Rightarrow> int res" where
  "locktime_of_month year month =
     bind_res (first_of_month year month) (\<lambda>locktime. bind_res (timestamp_to_timenumber locktime) (\<lambda>_. Inr locktime))"

text \<open>\<open>except (ValueError, IndexError)\<close>\<close>

definition as_date_error :: "int res \<Rightarrow> int res" where
  "as_date_error r = (case r of
     Inl (ValueError _) \<Rightarrow> Inl (ValueError ''Invalid date format'')
   | Inl IndexError \<Rightarrow> Inl (ValueError ''Invalid date format'') | _ \<Rightarrow> r)"

definition parse_locktime_date :: "string \<Rightarrow> int res" where
  "parse_locktime_date s =
     (if length s = 7 \<and> s ! 4 = CHR ''-'' then
        as_date_error (bind_res (int_res (take 4 s)) (\<lambda>year. bind_res (int_res (take 2 (drop 5 s))) (\<lambda>month.
          locktime_of_month year month)))
      else if length s = 10 \<and> s ! 4 = CHR ''-'' \<and> s ! 7 = CHR ''-'' then
        as_date_error (bind_res (int_res (take 4 s)) (\<lambda>year. bind_res (int_res (take 2 (drop 5 s))) (\<lambda>month.
          bind_res (int_res (take 2 (drop 8 s))) (\<lambda>day.
            if day \<noteq> 1 then Inl (ValueError ''Fidelity bond locktime must be 1st of month'')
            else locktime_of_month year month))))
      else Inl (ValueError ''Invalid date format''))"

text \<open>\<open>strftime("%Y-%m-%d")\<close>, for the years of the calendar.\<close>

definition two_digits :: "int \<Rightarrow> string" where
  "two_digits n = (if n < 10 then ''0'' else []) @ nat_digits (nat n)"

definition format_locktime_date :: "int \<Rightarrow> string res" where
  "format_locktime_date locktime =
     bind_res (fromtimestamp locktime) (\<lambda>dt.
       Inr (nat_digits (nat (dt_year dt)) @ ''-'' @ two_digits (dt_month dt) @ ''-'' @ two_digits (dt_day dt)))"

definition get_all_timenumbers :: "int list" where
  "get_all_timenumbers = [0..TIMENUMBER_COUNT - 1]"

definition get_all_locktimes :: "int list res" where
  "get_all_locktimes = mapM_res timenumber_to_timestamp get_all_timenumbers"

definition get_future_locktimes :: "int \<Rightarrow> int list res" where
  "get_future_locktimes from_time = map_res (filter (\<lambda>lt. lt > from_time)) get_all_locktimes"

lemmas timenumber_consts = TIMELOCK_EPOCH_YEAR_def TIMELOCK_EPOCH_MONTH_def MONTHS_IN_YEAR_def TIMENUMBER_COUNT_def

section \<open>The locktimes as month numbers\<close>

text \<open>The timestamp at the start of a month, counted as in \<open>month_start\<close>; timenumber 0 is month 24240.\<close>

definition month_ts :: "int \<Rightarrow> int" where
  "month_ts k = (month_start k - EPOCH_ORD) * 86400"

lemma month_ts_le_iff: "month_ts k \<le> month_ts k' \<longleftrightarrow> k \<le> k'"
  by (simp add: month_ts_def month_start_le_iff)

lemma month_ts_eq_iff: "month_ts k = month_ts k' \<longleftrightarrow> k = k'"
  by (metis month_ts_le_iff order_antisym order_refl)

lemma first_of_month_Inr:
  "first_of_month y m = Inr ts \<longleftrightarrow> 1 \<le> y \<and> y \<le> 9999 \<and> 1 \<le> m \<and> m \<le> 12 \<and> ts = month_ts (12 * y + (m - 1))"
  by (auto simp: first_of_month_def month_ts_def month_start_eq)

text \<open>Every instant lies in one month, the one that \<open>fromtimestamp\<close> names; it is the start of the month
  exactly when it passes \<open>validate_locktime\<close>.\<close>

lemma fromtimestamp_month:
  assumes "fromtimestamp ts = Inr dt"
  shows "month_ts (month_index dt) \<le> ts" "ts < month_ts (month_index dt + 1)"
    "validate_locktime ts = Inr () \<longleftrightarrow> ts = month_ts (month_index dt)"
    "ts = month_ts (month_index dt) \<longleftrightarrow> dt_day dt = 1 \<and> dt_hour dt = 0 \<and> dt_minute dt = 0 \<and> dt_second dt = 0"
proof -
  note f = fromtimestamp_Inr [OF assms]
  define q r where d: "q = ts div 86400" "r = ts mod 86400"
  have "ts = q * 86400 + r" "0 \<le> r" "r < 86400" unfolding d by simp_all
  moreover note f(5,6) [folded d]
  moreover define a b where ab: "a = month_start (month_index dt) - EPOCH_ORD" "b = month_start (month_index dt + 1) - EPOCH_ORD"
  ultimately have "a * 86400 \<le> ts" "ts < b * 86400" by linarith+
  then show "month_ts (month_index dt) \<le> ts" "ts < month_ts (month_index dt + 1)"
    unfolding month_ts_def ab .
  show eq: "ts = month_ts (month_index dt) \<longleftrightarrow> dt_day dt = 1 \<and> dt_hour dt = 0 \<and> dt_minute dt = 0 \<and> dt_second dt = 0"
    using f(4,7-10) unfolding month_ts_def by (auto simp: algebra_simps)
  show "validate_locktime ts = Inr () \<longleftrightarrow> ts = month_ts (month_index dt)"
    unfolding eq by (auto simp: validate_locktime_def assms)
qed

lemma fromtimestamp_unique:
  assumes "fromtimestamp ts = Inr dt" "month_ts k \<le> ts" "ts < month_ts (k + 1)"
  shows "month_index dt = k"
proof -
  have "month_ts k < month_ts (month_index dt + 1)" "month_ts (month_index dt) < month_ts (k + 1)"
    using assms(2,3) fromtimestamp_month(1,2) [OF assms(1)] by linarith+
  then show ?thesis using month_ts_le_iff by (smt (verit))
qed

lemma timestamp_to_timenumber_Inr:
  "timestamp_to_timenumber ts = Inr n \<longleftrightarrow> 0 \<le> n \<and> n < 960 \<and> ts = month_ts (24240 + n) \<and> (\<exists>dt. fromtimestamp ts = Inr dt)"
proof (cases "fromtimestamp ts")
  case (Inl e)
  then show ?thesis by (auto simp: timestamp_to_timenumber_def bind_res_Inr_iff)
next
  case (Inr dt)
  note m = fromtimestamp_month [OF Inr]
  have idx: "(dt_year dt - 2020) * 12 + (dt_month dt - 1) = month_index dt - 24240"
    by (simp add: month_index_def)
  have "timestamp_to_timenumber ts = bind_res (validate_locktime ts) (\<lambda>_.
      if month_index dt - 24240 < 0 then Inl (ValueError ''is before epoch'')
      else if month_index dt - 24240 \<ge> 960 then Inl (ValueError ''is after maximum'')
      else Inr (month_index dt - 24240))"
    unfolding timestamp_to_timenumber_def Inr bind_res_simps Let_def timenumber_consts idx by simp
  then have "timestamp_to_timenumber ts = Inr n \<longleftrightarrow>
      ts = month_ts (month_index dt) \<and> n = month_index dt - 24240 \<and> 0 \<le> n \<and> n < 960"
    using m(3) by (auto simp: bind_res_Inr_iff)
  moreover have "ts = month_ts (24240 + n) \<Longrightarrow> month_index dt = 24240 + n"
    using fromtimestamp_unique [OF Inr, of "24240 + n"] month_ts_le_iff [of "24240 + n + 1" "24240 + n"] by simp
  ultimately show ?thesis using Inr by auto
qed

lemma fromtimestamp_month_ts:
  assumes "12 \<le> k" "k < 120000"
  shows "\<exists>dt. fromtimestamp (month_ts k) = Inr dt"
proof -
  have e: "month_start 12 = 1" "month_start 120000 = 3652060" by code_simp+
  have "month_start 12 \<le> month_start k" "month_start k < month_start 120000"
    using assms by (simp_all add: month_start_le_iff month_start_less)
  then have b: "1 \<le> month_start k" "month_start k \<le> 3652059" unfolding e by linarith+
  moreover define a where "a = month_start k - EPOCH_ORD"
  ultimately have "- 719162 \<le> a" "a \<le> 2932896" by (simp_all add: EPOCH_ORD_def)
  then have "- 62135683200 \<le> month_ts k" "month_ts k \<le> 253402300800"
    unfolding month_ts_def a_def [symmetric] by linarith+
  then have r: "\<not> (month_ts k < - (2 ^ 63) \<or> 2 ^ 63 \<le> month_ts k)" by simp
  have "month_ts k div 86400 + EPOCH_ORD = month_start k" by (simp add: month_ts_def)
  with r b show ?thesis unfolding fromtimestamp_def Let_def MAX_ORD_def by simp
qed

lemma timenumber_to_timestamp_Inr:
  "timenumber_to_timestamp n = Inr ts \<longleftrightarrow> 0 \<le> n \<and> n < 960 \<and> ts = month_ts (24240 + n)"
proof -
  have "0 \<le> n mod 12" "n mod 12 < 12" by simp_all
  then have m: "1 \<le> 1 + n mod 12" "1 + n mod 12 \<le> 12" by linarith+
  have y: "0 \<le> n \<Longrightarrow> n < 960 \<Longrightarrow> 1 \<le> 2020 + n div 12 \<and> 2020 + n div 12 \<le> 9999"
    by (simp add: pos_imp_zdiv_nonneg_iff)
  have "month_ts (12 * (2020 + n div 12) + (1 + n mod 12 - 1)) = month_ts (24240 + n)"
    by (rule arg_cong [of _ _ month_ts]) simp
  with m y show ?thesis
    by (auto simp: timenumber_to_timestamp_def Let_def timenumber_consts first_of_month_Inr)
qed

lemma timenumber_iff_timestamp: "timestamp_to_timenumber ts = Inr n \<longleftrightarrow> timenumber_to_timestamp n = Inr ts"
  using fromtimestamp_month_ts [of "24240 + n"] by (auto simp: timestamp_to_timenumber_Inr timenumber_to_timestamp_Inr)

text \<open>the two conversions are inverse to each other, and defined on exactly the 960 timenumbers and
  their locktimes: a timestamp has timenumber \<open>n\<close> if and only if \<open>n\<close> converts to that timestamp.\<close>

theorem timenumber_bijection:
  "(timestamp_to_timenumber ts = Inr n \<longleftrightarrow> timenumber_to_timestamp n = Inr ts) \<and>
   ((\<exists>t. timenumber_to_timestamp n = Inr t) \<longleftrightarrow> 0 \<le> n \<and> n < 960)"
  by (auto simp: timenumber_iff_timestamp timenumber_to_timestamp_Inr)

section \<open>Rounding\<close>

lemma validate_error: "validate_locktime ts = Inl e \<Longrightarrow> (\<exists>msg. e = ValueError msg) \<or> (e = OverflowError \<and> fromtimestamp ts = Inl e)"
  by (auto simp: validate_locktime_def fromtimestamp_def Let_def split: if_splits dest: raise_if_Inl)

lemma is_valid_locktime_True:
  "is_valid_locktime ts = Inr True \<longleftrightarrow> (\<exists>n. timestamp_to_timenumber ts = Inr n)"
  by (auto simp: is_valid_locktime_def timestamp_to_timenumber_def bind_res_Inr_iff Let_def
      split: sum.splits pyerr.splits if_splits)

text \<open>The month that rounding ends in.\<close>

definition rounded_month :: "int \<Rightarrow> bool \<Rightarrow> int \<Rightarrow> int" where
  "rounded_month ts up k = (if up \<and> ts \<noteq> month_ts k then k + 1 else k)"

definition nearest_month :: "datetime \<Rightarrow> bool \<Rightarrow> int \<times> int" where
  "nearest_month dt up =
     (if up then
        (if dt_day dt \<noteq> 1 \<or> dt_hour dt \<noteq> 0 \<or> dt_minute dt \<noteq> 0 \<or> dt_second dt \<noteq> 0 then
           (if dt_month dt = 12 then (dt_year dt + 1, 1) else (dt_year dt, dt_month dt + 1))
         else (dt_year dt, dt_month dt))
      else (dt_year dt, dt_month dt))"

lemma nearest_month_index:
  assumes "fromtimestamp ts = Inr dt" "nearest_month dt up = (y, m)"
  shows "1 \<le> y" "1 \<le> m" "m \<le> 12" "12 * y + (m - 1) = rounded_month ts up (month_index dt)"
  using assms(2) fromtimestamp_Inr(1-3) [OF assms(1)] fromtimestamp_month(4) [OF assms(1)]
  by (auto simp: nearest_month_def rounded_month_def month_index_def split: if_splits)

lemma get_nearest_Inr:
  assumes dt: "fromtimestamp ts = Inr dt"
  shows "get_nearest_valid_locktime ts up = Inr r \<longleftrightarrow>
    r = month_ts (rounded_month ts up (month_index dt)) \<and> (\<exists>n. timestamp_to_timenumber r = Inr n)"
proof -
  obtain y m where ym: "nearest_month dt up = (y, m)" by (cases "nearest_month dt up")
  note idx = nearest_month_index [OF dt ym]
  have "get_nearest_valid_locktime ts up = bind_res (first_of_month y m) (\<lambda>result.
      bind_res (timestamp_to_timenumber result) (\<lambda>_. Inr result))"
    using ym unfolding get_nearest_valid_locktime_def nearest_month_def dt by (simp add: Let_def)
  then have "get_nearest_valid_locktime ts up = Inr r \<longleftrightarrow> y \<le> 9999 \<and>
      r = month_ts (rounded_month ts up (month_index dt)) \<and> (\<exists>n. timestamp_to_timenumber r = Inr n)"
    using idx by (auto simp: bind_res_Inr_iff first_of_month_Inr)
  moreover have "y \<le> 9999" if "timestamp_to_timenumber (month_ts (rounded_month ts up (month_index dt))) = Inr n" for n
    using that idx by (auto simp: timestamp_to_timenumber_Inr month_ts_eq_iff)
  ultimately show ?thesis by blast
qed

text \<open>\<open>get_nearest_valid_locktime\<close> returns the closest valid locktime on the side asked for: rounding
  up, the least valid locktime that is not before the given time; rounding down, the greatest one that is
  not after it. It returns for every time from the first to the last valid locktime.\<close>

theorem get_nearest_valid_locktime_closest:
  "(get_nearest_valid_locktime ts up = Inr r \<longrightarrow>
      is_valid_locktime r = Inr True \<and>
      (if up then ts \<le> r \<and> (\<forall>v. is_valid_locktime v = Inr True \<and> ts \<le> v \<longrightarrow> r \<le> v)
       else r \<le> ts \<and> (\<forall>v. is_valid_locktime v = Inr True \<and> v \<le> ts \<longrightarrow> v \<le> r))) \<and>
   (1577836800 \<le> ts \<and> ts \<le> 4099766400 \<longrightarrow> (\<exists>r. get_nearest_valid_locktime ts up = Inr r))"
proof (intro conjI impI)
  assume "get_nearest_valid_locktime ts up = Inr r"
  moreover from this obtain dt where dt: "fromtimestamp ts = Inr dt"
    by (auto simp: get_nearest_valid_locktime_def bind_res_Inr_iff)
  ultimately have r: "r = month_ts (rounded_month ts up (month_index dt))" "\<exists>n. timestamp_to_timenumber r = Inr n"
    using get_nearest_Inr [OF dt] by blast+
  note b = fromtimestamp_month(1,2) [OF dt]
  show "is_valid_locktime r = Inr True" using r(2) by (simp add: is_valid_locktime_True)
  have v: "\<exists>k. v = month_ts k" if "is_valid_locktime v = Inr True" for v
    using that by (auto simp: is_valid_locktime_True timestamp_to_timenumber_Inr)
  show "if up then ts \<le> r \<and> (\<forall>v. is_valid_locktime v = Inr True \<and> ts \<le> v \<longrightarrow> r \<le> v)
       else r \<le> ts \<and> (\<forall>v. is_valid_locktime v = Inr True \<and> v \<le> ts \<longrightarrow> v \<le> r)"
  proof (cases up)
    case True
    have "ts \<le> month_ts k \<Longrightarrow> rounded_month ts True (month_index dt) \<le> k" for k
      using b month_ts_le_iff [of k "month_index dt"] by (auto simp: rounded_month_def month_ts_eq_iff)
    with True v b show ?thesis by (fastforce simp: r(1) rounded_month_def month_ts_le_iff)
  next
    case False
    have "month_ts k \<le> ts \<Longrightarrow> k \<le> month_index dt" for k
      using b month_ts_le_iff [of "month_index dt + 1" k] by auto
    with False v b show ?thesis by (fastforce simp: r(1) rounded_month_def month_ts_le_iff)
  qed
next
  assume t: "1577836800 \<le> ts \<and> ts \<le> 4099766400"
  have e: "month_ts 24240 = 1577836800" "month_ts 25199 = 4099766400" by code_simp+
  have "0 \<le> ts div 86400" "ts div 86400 \<le> 50000" using t by linarith+
  with t obtain dt where dt: "fromtimestamp ts = Inr dt"
    unfolding fromtimestamp_def EPOCH_ORD_def MAX_ORD_def Let_def by simp
  note b = fromtimestamp_month(1,2) [OF dt]
  have "24240 \<le> month_index dt" "month_index dt \<le> 25199" "ts \<noteq> month_ts (month_index dt) \<Longrightarrow> month_index dt < 25199"
    using b t month_ts_le_iff [of "month_index dt + 1" 24240] month_ts_le_iff [of 25200 "month_index dt"]
      month_ts_le_iff [of 25199 "month_index dt"] month_ts_le_iff [of "month_index dt" 25199] unfolding e by force+
  then have "24240 \<le> rounded_month ts up (month_index dt)" "rounded_month ts up (month_index dt) < 25200"
    by (auto simp: rounded_month_def)
  then have "timestamp_to_timenumber (month_ts (rounded_month ts up (month_index dt)))
      = Inr (rounded_month ts up (month_index dt) - 24240)"
    using fromtimestamp_month_ts [of "rounded_month ts up (month_index dt)"] by (simp add: timestamp_to_timenumber_Inr)
  then show "\<exists>r. get_nearest_valid_locktime ts up = Inr r" by (auto simp: get_nearest_Inr [OF dt])
qed

theorem get_nearest_valid_locktime_closest_witness:
  "get_nearest_valid_locktime 1577900000 True = Inr 1580515200 \<and> is_valid_locktime 1580515200 = Inr True \<and>
   (\<exists>r. get_nearest_valid_locktime 1577900000 False = Inr r)"
proof -
  have "get_nearest_valid_locktime 1577900000 True = Inr 1580515200" by code_simp
  with get_nearest_valid_locktime_closest [of 1577900000 True 1580515200]
    get_nearest_valid_locktime_closest [of 1577900000 False] show ?thesis by simp
qed

section \<open>Dates as text\<close>

lemma int_res_digits: "list_all is_digit s \<Longrightarrow> s \<noteq> [] \<Longrightarrow> length s \<le> 4300 \<Longrightarrow> int_res s = Inr (int (digits_nat 0 s))"
  by (simp add: int_res_def py_int_digits)

lemma length_nat_digits:
  "n < 10 \<Longrightarrow> length (nat_digits n) = 1" "10 \<le> n \<Longrightarrow> length (nat_digits n) = Suc (length (nat_digits (n div 10)))"
  by (simp_all add: nat_digits.simps [of n])

lemma year_digits:
  assumes "2020 \<le> y" "y \<le> (2099::int)"
  shows "length (nat_digits (nat y)) = 4" "int_res (nat_digits (nat y)) = Inr y"
proof -
  define n where "n = nat y"
  have n: "2020 \<le> n" "n \<le> 2099" using assms by (simp_all add: n_def)
  have "n div 10 div 10 = n div 100" "n div 10 div 10 div 10 = n div 1000" by (simp_all flip: div_mult2_eq)
  moreover have "n div 1000 = 2" "10 \<le> n div 100" "10 \<le> n div 10" using n by linarith+
  ultimately have "length (nat_digits n) = 4"
    using n by (simp add: length_nat_digits)
  then show "length (nat_digits (nat y)) = 4" "int_res (nat_digits (nat y)) = Inr y"
    using assms int_res_digits [of "nat_digits n"] nat_digits_digits [of n] nat_digits_not_Nil [of n]
    by (simp_all add: n_def digits_nat_nat_digits)
qed

lemma two_digits:
  assumes "1 \<le> m" "m \<le> (31::int)"
  shows "length (two_digits m) = 2" "int_res (two_digits m) = Inr m"
proof -
  define n where "n = nat m"
  have n: "1 \<le> n" "n \<le> 31" "m < 10 \<longleftrightarrow> n < 10" using assms by (auto simp: n_def)
  have len: "length (two_digits m) = 2"
    using n by (auto simp: two_digits_def n_def [symmetric] length_nat_digits)
  then show "length (two_digits m) = 2" .
  have "is_digit (CHR ''0'')" "digit_val (CHR ''0'') = 0" by code_simp+
  then have "list_all is_digit (two_digits m)" "digits_nat 0 (two_digits m) = nat m"
    using nat_digits_digits [of n] by (auto simp: two_digits_def n_def digits_nat_nat_digits)
  with len assms show "int_res (two_digits m) = Inr m" using int_res_digits [of "two_digits m"] by force
qed

text \<open>the date text of a valid locktime parses back to the locktime.\<close>

theorem parse_format_locktime:
  assumes "is_valid_locktime ts = Inr True"
  shows "\<exists>s. format_locktime_date ts = Inr s \<and> parse_locktime_date s = Inr ts"
proof -
  obtain n dt where n: "0 \<le> n" "n < 960" "ts = month_ts (24240 + n)" and dt: "fromtimestamp ts = Inr dt"
    using assms by (auto simp: is_valid_locktime_True timestamp_to_timenumber_Inr)
  have idx: "month_index dt = 24240 + n"
    using fromtimestamp_unique [OF dt, of "24240 + n"] month_ts_le_iff [of "24240 + n + 1" "24240 + n"] n(3) by simp
  have m: "1 \<le> dt_month dt" "dt_month dt \<le> 12" using fromtimestamp_Inr [OF dt] by simp_all
  then have y: "2020 \<le> dt_year dt" "dt_year dt \<le> 2099" using idx n by (auto simp: month_index_def)
  have day: "dt_day dt = 1" using fromtimestamp_month(4) [OF dt] idx n(3) by simp
  have ok: "locktime_of_month (dt_year dt) (dt_month dt) = Inr ts"
  proof -
    have "first_of_month (dt_year dt) (dt_month dt) = Inr ts"
      using m y n(3) unfolding idx [symmetric] by (simp add: first_of_month_Inr month_index_def)
    moreover have "timestamp_to_timenumber ts = Inr n" using n dt by (auto simp: timestamp_to_timenumber_Inr)
    ultimately show ?thesis by (simp add: locktime_of_month_def)
  qed
  define Y M D where YMD: "Y = nat_digits (nat (dt_year dt))" "M = two_digits (dt_month dt)" "D = two_digits (dt_day dt)"
  have len: "length Y = 4" "length M = 2" "length D = 2" and val: "int_res Y = Inr (dt_year dt)"
    "int_res M = Inr (dt_month dt)" "int_res D = Inr 1"
    using year_digits [OF y] two_digits [of "dt_month dt"] two_digits [of "dt_day dt"] m day by (simp_all add: YMD)
  let ?s = "Y @ CHR ''-'' # M @ CHR ''-'' # D"
  have cut: "take 4 ?s = Y" "take 2 (drop 5 ?s) = M" "take 2 (drop 8 ?s) = D" "?s ! 4 = CHR ''-''" "?s ! 7 = CHR ''-''"
    using len by (simp_all add: nth_append nth_Cons')
  have "parse_locktime_date ?s = Inr ts"
    unfolding parse_locktime_date_def cut using len by (simp add: val ok as_date_error_def)
  moreover have "format_locktime_date ts = Inr ?s" by (simp add: format_locktime_date_def dt YMD)
  ultimately show ?thesis by blast
qed

theorem parse_format_locktime_witness:
  "\<exists>s. format_locktime_date 1580515200 = Inr s \<and> parse_locktime_date s = Inr 1580515200"
  by (rule parse_format_locktime) code_simp

end
