(* ===== verification/Wallet_Select.thy ===== *)
theory Wallet_Select
  imports Wallet_Utxo Py_Numeric Py_Dict
begin

text \<open>
  Coin selection of \<open>jmwallet/src/jmwallet/wallet/coin_selection.py\<close>: the methods of
  \<open>CoinSelectionMixin\<close>. The host's \<open>utxo_cache\<close> is an argument; the random number of the \<open>random\<close>
  merge algorithm is an argument too. Python's sorts are stable, also with \<open>reverse=True\<close>.
\<close>

type_synonym utxo_cache = "(int, utxo_info list) dict"
type_synonym outpoint_key = "string \<times> int"

definition utxo_key :: "utxo_info \<Rightarrow> outpoint_key" where
  "utxo_key u = (ui_txid u, ui_vout u)"

definition ui_outpoint :: "utxo_info \<Rightarrow> string" where
  "ui_outpoint u = ui_txid u @ '':'' @ str_of_int (ui_vout u)"

definition cached :: "utxo_cache \<Rightarrow> int \<Rightarrow> utxo_info list" where
  "cached cache mixdepth = (case dict_get cache mixdepth of None \<Rightarrow> [] | Some us \<Rightarrow> us)"

definition utxo_sum :: "utxo_info list \<Rightarrow> int" where
  "utxo_sum us = sum_list (map ui_value us)"

text \<open>\<open>get_all_utxos\<close>; the other two methods start with the same four filters.\<close>

definition get_all_utxos :: "utxo_cache \<Rightarrow> int \<Rightarrow> int \<Rightarrow> bool \<Rightarrow> outpoint_key list \<Rightarrow> utxo_info list" where
  "get_all_utxos cache mixdepth min_confirmations include_fidelity_bonds exclude =
     (let eligible = filter (\<lambda>u. ui_confirmations u \<ge> min_confirmations) (cached cache mixdepth);
          eligible = filter (\<lambda>u. \<not> ui_frozen u) eligible;
          eligible = (if exclude \<noteq> [] then filter (\<lambda>u. utxo_key u \<notin> set exclude) eligible else eligible)
      in if \<not> include_fidelity_bonds then filter (\<lambda>u. \<not> is_fidelity_bond u) eligible else eligible)"

definition sort_by_value_desc :: "utxo_info list \<Rightarrow> utxo_info list" where
  "sort_by_value_desc us = sort_key (\<lambda>u. - ui_value u) us"

text \<open>The greedy loop: add outputs until the total reaches the target.\<close>

fun take_until :: "int \<Rightarrow> int \<Rightarrow> utxo_info list \<Rightarrow> utxo_info list \<times> int" where
  "take_until target acc [] = ([], acc)"
| "take_until target acc (u # us) =
     (let t = acc + ui_value u in
      if t \<ge> target then ([u], t) else (let (s, t') = take_until target t us in (u # s, t')))"

definition split_mergeable :: "string list option \<Rightarrow> utxo_info list \<Rightarrow> utxo_info list \<times> utxo_info list" where
  "split_mergeable authorized eligible =
     (let mergeable = filter (\<lambda>u. case authorized of
                 Some ops \<Rightarrow> ui_outpoint u \<in> set ops | None \<Rightarrow> ui_coinjoin_output u) eligible
      in (mergeable, filter (\<lambda>u. ui_outpoint u \<notin> set (map ui_outpoint mergeable)) eligible))"

definition insufficient :: "utxo_cache \<Rightarrow> int \<Rightarrow> int \<Rightarrow> bool \<Rightarrow> pyerr" where
  "insufficient cache mixdepth min_confirmations skip_bonds =
     (let unconfirmed = filter (\<lambda>u. \<not> ui_frozen u \<and> (skip_bonds \<longrightarrow> \<not> is_fidelity_bond u) \<and>
                                   ui_confirmations u < min_confirmations) (cached cache mixdepth)
      in if utxo_sum unconfirmed > 0 then ValueError ''Insufficient confirmed funds''
         else ValueError ''Insufficient funds'')"

text \<open>The pool of \<open>select_utxos\<close>: without the mandatory outputs, the largest first.\<close>

definition select_pool :: "utxo_cache \<Rightarrow> int \<Rightarrow> int \<Rightarrow> utxo_info list \<Rightarrow> bool \<Rightarrow> outpoint_key list \<Rightarrow> utxo_info list" where
  "select_pool cache mixdepth min_confirmations include_utxos include_fidelity_bonds exclude =
     (let eligible = get_all_utxos cache mixdepth min_confirmations include_fidelity_bonds exclude;
          eligible = (if include_utxos \<noteq> [] then filter (\<lambda>u. utxo_key u \<notin> set (map utxo_key include_utxos)) eligible
                      else eligible)
      in sort_by_value_desc eligible)"

definition select_utxos ::
  "utxo_cache \<Rightarrow> int \<Rightarrow> int \<Rightarrow> int \<Rightarrow> utxo_info list \<Rightarrow> bool \<Rightarrow> bool \<Rightarrow> string list option \<Rightarrow> outpoint_key list \<Rightarrow>
   utxo_info list res" where
  "select_utxos cache mixdepth target_amount min_confirmations include_utxos include_fidelity_bonds restrict_md0
      authorized exclude =
     (let eligible = select_pool cache mixdepth min_confirmations include_utxos include_fidelity_bonds exclude;
          tot = utxo_sum include_utxos in
      if tot \<ge> target_amount then Inr include_utxos
      else if mixdepth = 0 \<and> restrict_md0 then
        (let (mergeable, non_mergeable) = split_mergeable authorized eligible;
             remaining = target_amount - tot;
             (added, reached) = (if utxo_sum mergeable \<ge> remaining then take_until target_amount tot mergeable else ([], tot)) in
         if utxo_sum mergeable \<ge> remaining \<and> reached \<ge> target_amount then Inr (include_utxos @ added)
         else if non_mergeable \<noteq> [] \<and> ui_value (hd non_mergeable) \<ge> remaining
         then Inr (include_utxos @ added @ [hd non_mergeable])
         else if eligible = [] then Inl (insufficient cache mixdepth min_confirmations True)
         else Inl (ValueError ''Insufficient funds: cannot merge non-CJ md0 UTXOs for privacy reasons''))
      else
        (let (added, reached) = take_until target_amount tot eligible in
         if reached < target_amount then Inl (insufficient cache mixdepth min_confirmations False)
         else Inr (include_utxos @ added)))"

datatype merge_algorithm = MergeDefault | MergeGradual | MergeGreedy | MergeRandom

text \<open>\<open>_apply_merge_extras\<close>; \<open>extra\<close> is the number drawn between 0 and \<open>min(2, len(remaining))\<close>.\<close>

definition apply_merge_extras :: "nat \<Rightarrow> utxo_info list \<Rightarrow> utxo_info list \<Rightarrow> merge_algorithm \<Rightarrow> utxo_info list" where
  "apply_merge_extras extra selected remaining alg =
     (if alg = MergeGreedy then selected @ remaining
      else if alg = MergeGradual \<and> remaining \<noteq> [] then selected @ [hd (sort_key ui_value remaining)]
      else if alg = MergeRandom \<and> remaining \<noteq> [] then
        (if extra > 0 then selected @ take extra (sort_key ui_value remaining) else selected)
      else selected)"

definition select_utxos_with_merge ::
  "nat \<Rightarrow> utxo_cache \<Rightarrow> int \<Rightarrow> int \<Rightarrow> int \<Rightarrow> merge_algorithm \<Rightarrow> bool \<Rightarrow> bool \<Rightarrow> string list option \<Rightarrow> outpoint_key list \<Rightarrow>
   utxo_info list res" where
  "select_utxos_with_merge extra cache mixdepth target_amount min_confirmations alg include_fidelity_bonds restrict_md0
      authorized exclude =
     (let eligible = sort_by_value_desc (get_all_utxos cache mixdepth min_confirmations include_fidelity_bonds exclude) in
      if mixdepth = 0 \<and> restrict_md0 then
        (if eligible = [] then Inl (ValueError ''Insufficient funds: no eligible UTXOs in mixdepth 0'')
         else
           let (mergeable, non_mergeable) = split_mergeable authorized eligible;
               largest_non_mergeable = (if non_mergeable \<noteq> [] then ui_value (hd non_mergeable) else 0) in
           if utxo_sum mergeable \<ge> target_amount then
             (let (selected, _) = take_until target_amount 0 mergeable
              in Inr (apply_merge_extras extra selected (drop (length selected) mergeable) alg))
           else if largest_non_mergeable \<ge> target_amount then
             (case non_mergeable of [] \<Rightarrow> Inl IndexError | u # _ \<Rightarrow> Inr [u])
           else Inl (ValueError ''Insufficient funds: cannot merge non-CJ md0 UTXOs for privacy reasons''))
      else
        (let (selected, reached) = take_until target_amount 0 eligible in
         if reached < target_amount then Inl (insufficient cache mixdepth min_confirmations False)
         else Inr (apply_merge_extras extra selected (drop (length selected) eligible) alg)))"

section \<open>What is selected\<close>

lemma take_until_props:
  "take_until target acc us = (s, t) \<Longrightarrow>
   t = acc + utxo_sum s \<and> s = take (length s) us \<and> (t < target \<longrightarrow> s = us) \<and>
   (us \<noteq> [] \<longrightarrow> s \<noteq> [])"
proof (induction us arbitrary: acc s t)
  case Nil
  then show ?case by (auto simp: utxo_sum_def)
next
  case (Cons u us)
  show ?case
  proof (cases "acc + ui_value u \<ge> target")
    case True
    with Cons.prems show ?thesis by (auto simp: utxo_sum_def)
  next
    case False
    obtain s' t' where st: "take_until target (acc + ui_value u) us = (s', t')" by fastforce
    with Cons.prems False have "s = u # s'" "t = t'" by auto
    with Cons.IH [OF st] show ?thesis by (auto simp: utxo_sum_def)
  qed
qed

text \<open>What may be selected automatically.\<close>

definition selectable :: "utxo_cache \<Rightarrow> int \<Rightarrow> int \<Rightarrow> bool \<Rightarrow> outpoint_key list \<Rightarrow> utxo_info \<Rightarrow> bool" where
  "selectable cache mixdepth min_confirmations bonds exclude u \<longleftrightarrow>
     u \<in> set (cached cache mixdepth) \<and> min_confirmations \<le> ui_confirmations u \<and> \<not> ui_frozen u \<and>
     utxo_key u \<notin> set exclude \<and> (bonds \<or> \<not> is_fidelity_bond u)"

lemma get_all_utxos_set: "u \<in> set (get_all_utxos cache mixdepth n bonds exclude) \<longleftrightarrow> selectable cache mixdepth n bonds exclude u"
  by (auto simp: get_all_utxos_def selectable_def Let_def)

lemma get_all_utxos_distinct: "distinct (map utxo_key (cached cache mixdepth)) \<Longrightarrow>
    distinct (map utxo_key (get_all_utxos cache mixdepth n bonds exclude))"
  by (auto simp: get_all_utxos_def Let_def distinct_map_filter)

lemma sort_by_value_desc_mset [simp]: "mset (sort_by_value_desc us) = mset us"
  by (simp add: sort_by_value_desc_def)

lemma sort_by_value_desc_set [simp]: "set (sort_by_value_desc us) = set us"
  by (simp add: sort_by_value_desc_def)

lemma sort_by_value_desc_distinct: "distinct (map f us) \<Longrightarrow> distinct (map f (sort_by_value_desc us))"
  by (metis mset_map sort_by_value_desc_mset mset_eq_imp_distinct_iff)

definition may_merge :: "string list option \<Rightarrow> utxo_info \<Rightarrow> bool" where
  "may_merge authorized u = (case authorized of Some ops \<Rightarrow> ui_outpoint u \<in> set ops | None \<Rightarrow> ui_coinjoin_output u)"

text \<open>A privacy-respecting addition from a mixdepth: several outputs of mixdepth 0 only when each of them may
  be merged.\<close>

definition private_choice :: "int \<Rightarrow> bool \<Rightarrow> string list option \<Rightarrow> utxo_info list \<Rightarrow> bool" where
  "private_choice mixdepth restrict authorized added \<longleftrightarrow>
     (mixdepth = 0 \<and> restrict \<longrightarrow> list_all (may_merge authorized) added \<or> length added = 1)"

definition clean_choice :: "utxo_info list \<Rightarrow> utxo_info list \<Rightarrow> bool" where
  "clean_choice pool added \<longleftrightarrow> set added \<subseteq> set pool \<and> (distinct (map utxo_key pool) \<longrightarrow> distinct (map utxo_key added))"

lemma clean_choice_take: "clean_choice pool (take n pool)"
proof -
  have "distinct (map utxo_key (take n pool))" if "distinct (map utxo_key pool)"
    using that by (simp add: take_map [symmetric])
  then show ?thesis by (auto simp: clean_choice_def dest: in_set_takeD)
qed

lemma clean_choice_until: "take_until target acc pool = (s, t) \<Longrightarrow> clean_choice pool s"
  using take_until_props [of target acc pool s t] clean_choice_take [of pool "length s"] by simp

lemma clean_choice_filter: "clean_choice (filter P pool) added \<Longrightarrow> clean_choice pool added"
  by (auto simp: clean_choice_def distinct_map_filter)

lemma clean_choice_one: "u \<in> set pool \<Longrightarrow> clean_choice pool [u]"
  by (simp add: clean_choice_def)

lemma split_mergeable_parts:
  assumes "split_mergeable authorized pool = (mergeable, rest)"
  shows "mergeable = filter (may_merge authorized) pool" "set rest \<subseteq> set pool"
  using assms by (auto simp: split_mergeable_def Let_def may_merge_def [abs_def])

text \<open>The restricted choice in mixdepth 0: enough from the outputs that may be merged, or one other output.\<close>

lemma restricted_choice:
  assumes split: "split_mergeable authorized pool = (mergeable, rest)"
    and until: "(if utxo_sum mergeable \<ge> target - acc then take_until target acc mergeable else ([], acc)) = (added, reached)"
  shows "utxo_sum mergeable \<ge> target - acc \<Longrightarrow> clean_choice pool added \<and> list_all (may_merge authorized) added \<and>
      reached \<ge> target \<and> reached = acc + utxo_sum added"
    and "\<not> utxo_sum mergeable \<ge> target - acc \<Longrightarrow> added = []"
proof -
  note sp = split_mergeable_parts [OF split]
  show "\<not> utxo_sum mergeable \<ge> target - acc \<Longrightarrow> added = []" using until by simp
  assume enough: "utxo_sum mergeable \<ge> target - acc"
  with until have tu: "take_until target acc mergeable = (added, reached)" by simp
  have "list_all (may_merge authorized) added"
    using clean_choice_until [OF tu] by (auto simp: clean_choice_def sp(1) list_all_iff)
  moreover have "clean_choice pool added"
    using clean_choice_until [OF tu] clean_choice_filter unfolding sp(1) by blast
  ultimately show "clean_choice pool added \<and> list_all (may_merge authorized) added \<and>
      reached \<ge> target \<and> reached = acc + utxo_sum added"
    using take_until_props [OF tu] enough by (cases "reached < target") auto
qed

lemma utxo_sum_append [simp]: "utxo_sum (a @ b) = utxo_sum a + utxo_sum b"
  by (simp add: utxo_sum_def)

lemma select_utxos_cases:
  assumes "select_utxos cache mixdepth target n included bonds restrict authorized exclude = Inr sel"
  shows "\<exists>added. sel = included @ added \<and> target \<le> utxo_sum sel \<and>
    clean_choice (select_pool cache mixdepth n included bonds exclude) added \<and> private_choice mixdepth restrict authorized added"
proof -
  let ?pool = "select_pool cache mixdepth n included bonds exclude" and ?acc = "utxo_sum included"
  show ?thesis
  proof (cases "target \<le> ?acc")
    case True
    with assms have "sel = included" by (simp add: select_utxos_def Let_def)
    with True show ?thesis by (intro exI [of _ "[]"]) (simp add: clean_choice_def private_choice_def)
  next
    case short: False
    show ?thesis
    proof (cases "mixdepth = 0 \<and> restrict")
      case True
      obtain mergeable rest where sp: "split_mergeable authorized ?pool = (mergeable, rest)" by fastforce
      obtain added reached where ar: "(if utxo_sum mergeable \<ge> target - ?acc then take_until target ?acc mergeable else ([], ?acc)) = (added, reached)"
        by fastforce
      note rc = restricted_choice [OF sp ar]
      from assms short True have sel: "utxo_sum mergeable \<ge> target - ?acc \<and> reached \<ge> target \<and> sel = included @ added \<or>
          \<not> (utxo_sum mergeable \<ge> target - ?acc \<and> reached \<ge> target) \<and> rest \<noteq> [] \<and> ui_value (hd rest) \<ge> target - ?acc \<and> sel = included @ added @ [hd rest]"
        unfolding select_utxos_def Let_def sp prod.case ar by (simp split: if_splits)
      show ?thesis
      proof (cases "utxo_sum mergeable \<ge> target - ?acc")
        case enough: True
        with sel rc(1) have "sel = included @ added" by blast
        with rc(1) [OF enough] show ?thesis by (auto simp: private_choice_def)
      next
        case few: False
        with sel rc(2) have "rest \<noteq> []" "ui_value (hd rest) \<ge> target - ?acc" "sel = included @ [hd rest]" by auto
        moreover from this have "clean_choice ?pool [hd rest]"
          using split_mergeable_parts(2) [OF sp] hd_in_set [of rest] by (intro clean_choice_one) blast
        ultimately show ?thesis
          by (intro exI [of _ "[hd rest]"]) (auto simp: private_choice_def utxo_sum_def)
      qed
    next
      case False
      obtain added reached where tu: "take_until target ?acc ?pool = (added, reached)" by fastforce
      with assms short False have "reached \<ge> target" "sel = included @ added"
        unfolding select_utxos_def Let_def by (auto split: if_splits)
      with take_until_props [OF tu] clean_choice_until [OF tu] False show ?thesis
        by (auto simp: private_choice_def)
    qed
  qed
qed

text \<open>C34: a selection that \<open>select_utxos\<close> returns starts with the mandatory outputs and reaches the target;
  everything it adds comes from the asked mixdepth, has enough confirmations, is not frozen, not
  excluded, not a fidelity bond unless bonds were asked for and not a mandatory output again; and in the
  restricted mixdepth 0 it adds one output or only outputs that may be merged.\<close>

theorem select_utxos_sound:
  assumes "select_utxos cache mixdepth target n included bonds restrict authorized exclude = Inr sel"
    and "distinct (map utxo_key (cached cache mixdepth))"
  shows "\<exists>added. sel = included @ added \<and> target \<le> utxo_sum sel \<and> distinct (map utxo_key added) \<and>
    (\<forall>u \<in> set added. selectable cache mixdepth n bonds exclude u \<and> utxo_key u \<notin> set (map utxo_key included)) \<and>
    (mixdepth = 0 \<and> restrict \<longrightarrow> list_all (may_merge authorized) added \<or> length added = 1)"
proof -
  obtain added where a: "sel = included @ added" "target \<le> utxo_sum sel"
    "clean_choice (select_pool cache mixdepth n included bonds exclude) added" "private_choice mixdepth restrict authorized added"
    using select_utxos_cases [OF assms(1)] by blast
  have "distinct (map utxo_key (select_pool cache mixdepth n included bonds exclude))"
    using get_all_utxos_distinct [OF assms(2)]
    by (auto simp: select_pool_def Let_def intro!: sort_by_value_desc_distinct distinct_map_filter)
  with a(3) have "distinct (map utxo_key added)" by (simp add: clean_choice_def)
  moreover have "\<forall>u \<in> set added. selectable cache mixdepth n bonds exclude u \<and> utxo_key u \<notin> set (map utxo_key included)"
    using a(3) by (auto simp: clean_choice_def select_pool_def Let_def get_all_utxos_set split: if_splits)
  ultimately show ?thesis using a by (auto simp: private_choice_def)
qed

definition ex_cache :: utxo_cache where
  "ex_cache = [(0, [plain_utxo ''aa'' 0 50000, (plain_utxo ''bb'' 0 70000)\<lparr>ui_coinjoin_output := True\<rparr>,
     (plain_utxo ''bb'' 1 60000)\<lparr>ui_coinjoin_output := True\<rparr>])]"

theorem select_utxos_sound_witness:
  "\<exists>sel. select_utxos ex_cache 0 100000 1 [] False True None [] = Inr sel \<and> 100000 \<le> utxo_sum sel \<and> list_all ui_coinjoin_output sel"
proof -
  have r: "\<not> isl (select_utxos ex_cache 0 100000 1 [] False True None [])" by code_simp
  then obtain sel where sel: "select_utxos ex_cache 0 100000 1 [] False True None [] = Inr sel"
    by (cases "select_utxos ex_cache 0 100000 1 [] False True None []") auto
  have len: "length (projr (select_utxos ex_cache 0 100000 1 [] False True None [])) = 2" by code_simp
  have "distinct (map utxo_key (cached ex_cache 0))" by code_simp
  from select_utxos_sound [OF sel this] sel len show ?thesis
    by (auto simp: may_merge_def [abs_def])
qed

section \<open>Consolidation\<close>

lemma clean_choice_mset:
  assumes "mset added \<subseteq># mset pool"
  shows "clean_choice pool added"
proof -
  obtain zs where "mset zs = mset pool - mset added" using ex_mset by blast
  with assms have m: "mset (added @ zs) = mset pool" by simp
  then have "mset (map utxo_key (added @ zs)) = mset (map utxo_key pool)" by (metis mset_map)
  then have "distinct (map utxo_key (added @ zs)) = distinct (map utxo_key pool)" by (rule mset_eq_imp_distinct_iff)
  with mset_eq_setD [OF m] show ?thesis by (auto simp: clean_choice_def)
qed

lemma apply_merge_extras_mset:
  assumes "pool = selected @ remaining"
  shows "mset (apply_merge_extras extra selected remaining alg) \<subseteq># mset pool"
    "\<exists>extras. apply_merge_extras extra selected remaining alg = selected @ extras \<and> set extras \<subseteq> set remaining"
proof -
  have "mset (take k (sort_key ui_value remaining)) \<subseteq># mset remaining" for k
    using mset_subset_eq_add_left [of "mset (take k (sort_key ui_value remaining))" "mset (drop k (sort_key ui_value remaining))"]
    by (metis append_take_drop_id mset_append mset_sort)
  moreover have "remaining \<noteq> [] \<Longrightarrow> mset [hd (sort_key ui_value remaining)] \<subseteq># mset remaining"
    using hd_sort_key(1) [of remaining ui_value] by simp
  ultimately show "mset (apply_merge_extras extra selected remaining alg) \<subseteq># mset pool"
    by (auto simp: apply_merge_extras_def assms)
  have "set (take k (sort_key ui_value remaining)) \<subseteq> set remaining" for k
    using set_take_subset [of k "sort_key ui_value remaining"] by simp
  then show "\<exists>extras. apply_merge_extras extra selected remaining alg = selected @ extras \<and> set extras \<subseteq> set remaining"
    using hd_sort_key(1) [of remaining ui_value] by (auto simp: apply_merge_extras_def)
qed

lemma take_until_split: "take_until target acc pool = (s, t) \<Longrightarrow> pool = s @ drop (length s) pool"
  using take_until_props [of target acc pool s t] by (metis append_take_drop_id)

text \<open>The greedy minimum and the extras of the merge algorithm.\<close>

lemma merged_choice:
  assumes tu: "take_until target 0 pool = (s, t)" and "target \<le> t" and pos: "\<forall>u \<in> set pool. 0 \<le> ui_value u"
    and sel: "sel = apply_merge_extras extra s (drop (length s) pool) alg"
  shows "target \<le> utxo_sum sel" "clean_choice pool sel"
proof -
  note p = apply_merge_extras_mset [OF take_until_split [OF tu], of extra alg, folded sel]
  obtain extras where e: "sel = s @ extras" "set extras \<subseteq> set (drop (length s) pool)" using p(2) by blast
  have "0 \<le> utxo_sum extras"
    unfolding utxo_sum_def using e(2) pos by (intro sum_list_nonneg_int) (auto dest: in_set_dropD)
  then show "target \<le> utxo_sum sel" using take_until_props [OF tu] assms(2) e(1) by simp
  show "clean_choice pool sel" by (rule clean_choice_mset [OF p(1)])
qed

lemma select_with_merge_cases:
  assumes "select_utxos_with_merge extra cache mixdepth target n alg bonds restrict authorized exclude = Inr sel"
    and pos: "\<forall>u \<in> set (cached cache mixdepth). 0 \<le> ui_value u" and "0 < target"
  shows "target \<le> utxo_sum sel \<and> clean_choice (sort_by_value_desc (get_all_utxos cache mixdepth n bonds exclude)) sel \<and>
    private_choice mixdepth restrict authorized sel"
proof -
  let ?pool = "sort_by_value_desc (get_all_utxos cache mixdepth n bonds exclude)"
  have nonneg: "\<forall>u \<in> set ?pool. 0 \<le> ui_value u" using pos by (simp add: get_all_utxos_set selectable_def)
  show ?thesis
  proof (cases "mixdepth = 0 \<and> restrict")
    case True
    obtain mergeable rest where sp: "split_mergeable authorized ?pool = (mergeable, rest)" by fastforce
    obtain s t where tu: "take_until target 0 mergeable = (s, t)" by fastforce
    note parts = split_mergeable_parts [OF sp]
    show ?thesis
    proof (cases "utxo_sum mergeable \<ge> target")
      case enough: True
      with assms(1) True have sel: "sel = apply_merge_extras extra s (drop (length s) mergeable) alg"
        unfolding select_utxos_with_merge_def Let_def sp prod.case by (simp add: tu split: if_splits)
      have "target \<le> t" using take_until_props [OF tu] enough by (cases "t < target") auto
      note mc = merged_choice [OF tu this _ sel]
      have "clean_choice ?pool sel \<and> list_all (may_merge authorized) sel"
        using mc(2) nonneg clean_choice_filter [of "may_merge authorized" ?pool sel]
        by (auto simp: parts(1) clean_choice_def list_all_iff)
      with mc(1) nonneg show ?thesis by (simp add: parts(1) private_choice_def)
    next
      case False
      with assms(1) True have "rest \<noteq> []" "ui_value (hd rest) \<ge> target" "sel = [hd rest]"
        using \<open>0 < target\<close> unfolding select_utxos_with_merge_def Let_def sp prod.case
        by (auto split: if_splits list.splits)
      moreover from this have "clean_choice ?pool [hd rest]"
        using parts(2) hd_in_set [of rest] by (intro clean_choice_one) blast
      ultimately show ?thesis by (simp add: private_choice_def utxo_sum_def)
    qed
  next
    case False
    obtain s t where tu: "take_until target 0 ?pool = (s, t)" by fastforce
    with assms(1) False have "target \<le> t" "sel = apply_merge_extras extra s (drop (length s) ?pool) alg"
      unfolding select_utxos_with_merge_def Let_def by (auto split: if_splits)
    from merged_choice [OF tu this(1) nonneg this(2)] False show ?thesis by (auto simp: private_choice_def)
  qed
qed

text \<open>the same for the maker's selection with consolidation: whatever the merge algorithm adds, the
  selection reaches the target, holds distinct, confirmed, unfrozen outputs of the mixdepth that no
  other session has reserved, and respects the restriction of mixdepth 0.\<close>

theorem select_utxos_with_merge_sound:
  assumes "select_utxos_with_merge extra cache mixdepth target n alg bonds restrict authorized exclude = Inr sel"
    and "distinct (map utxo_key (cached cache mixdepth))" "\<forall>u \<in> set (cached cache mixdepth). 0 \<le> ui_value u" "0 < target"
  shows "target \<le> utxo_sum sel \<and> distinct (map utxo_key sel) \<and>
    (\<forall>u \<in> set sel. selectable cache mixdepth n bonds exclude u) \<and>
    (mixdepth = 0 \<and> restrict \<longrightarrow> list_all (may_merge authorized) sel \<or> length sel = 1)"
  using select_with_merge_cases [OF assms(1,3,4)] get_all_utxos_distinct [OF assms(2), of n bonds exclude]
  by (auto simp: clean_choice_def private_choice_def get_all_utxos_set sort_by_value_desc_distinct)

theorem select_utxos_with_merge_sound_witness:
  "\<exists>sel. select_utxos_with_merge 2 ex_cache 0 60000 1 MergeRandom False True None [(''cc'', 0)] = Inr sel \<and> 60000 \<le> utxo_sum sel"
proof -
  have r: "\<not> isl (select_utxos_with_merge 2 ex_cache 0 60000 1 MergeRandom False True None [(''cc'', 0)])" by code_simp
  then obtain sel where sel: "select_utxos_with_merge 2 ex_cache 0 60000 1 MergeRandom False True None [(''cc'', 0)] = Inr sel"
    by (cases "select_utxos_with_merge 2 ex_cache 0 60000 1 MergeRandom False True None [(''cc'', 0)]") auto
  have "distinct (map utxo_key (cached ex_cache 0))" "\<forall>u \<in> set (cached ex_cache 0). 0 \<le> ui_value u" by code_simp+
  from select_utxos_with_merge_sound [OF sel this] sel show ?thesis by simp
qed

end
