(* ===== verification/Btc_Size.thy ===== *)
theory Btc_Size
  imports Btc_Tx
begin

text \<open>
  Sizes and shapes of transactions in \<open>jmcore/src/jmcore/bitcoin.py\<close>: the exact virtual size of a
  signed transaction (\<open>calculate_tx_vsize\<close>), the estimate made before signing
  (\<open>estimate_vsize\<close>) and the equal-output CoinJoin heuristic (\<open>analyze_coinjoin_outputs\<close>).

  \<open>calculate_tx_vsize\<close> walks the transaction a second time without building it; each of its
  loop bodies is a \<open>codec\<close> that returns nothing, so that the counted loops read back by the
  same locale lemma as the parser's.
\<close>

section \<open>The virtual size of a signed transaction\<close>

definition skip_input :: "bytes \<Rightarrow> nat \<Rightarrow> (unit \<times> nat) res" where
  "skip_input tx_bytes offset =
     bind_res (decode_varint tx_bytes (offset + (32 + 4))) (\<lambda>(script_len, offset).
       Inr ((), offset + (script_len + 4)))"

definition skip_output :: "bytes \<Rightarrow> nat \<Rightarrow> (unit \<times> nat) res" where
  "skip_output tx_bytes offset =
     bind_res (decode_varint tx_bytes (offset + 8)) (\<lambda>(script_len, offset).
       Inr ((), offset + script_len))"

definition skip_item :: "bytes \<Rightarrow> nat \<Rightarrow> (unit \<times> nat) res" where
  "skip_item tx_bytes offset =
     bind_res (decode_varint tx_bytes offset) (\<lambda>(item_len, offset). Inr ((), offset + item_len))"

definition skip_stack :: "bytes \<Rightarrow> nat \<Rightarrow> (unit \<times> nat) res" where
  "skip_stack tx_bytes offset =
     bind_res (decode_varint tx_bytes offset) (\<lambda>(stack_count, offset).
     bind_res (dec_many skip_item stack_count tx_bytes offset) (\<lambda>(_, offset). Inr ((), offset)))"

definition calculate_tx_vsize :: "bytes \<Rightarrow> int res" where
  "calculate_tx_vsize tx_bytes =
     (let total_size = int (length tx_bytes) in
      if length tx_bytes > 6 \<and> tx_bytes ! 4 = 0x00 \<and> tx_bytes ! 5 = 0x01 then
        bind_res (decode_varint tx_bytes 6) (\<lambda>(input_count, offset).
        bind_res (dec_many skip_input input_count tx_bytes offset) (\<lambda>(_, offset).
        bind_res (decode_varint tx_bytes offset) (\<lambda>(output_count, offset).
        bind_res (dec_many skip_output output_count tx_bytes offset) (\<lambda>(_, witness_start).
        bind_res (dec_many skip_stack input_count tx_bytes witness_start) (\<lambda>(_, witness_end).
          let witness_size = int witness_end - int witness_start;
              non_witness_size = total_size - witness_size - 2;
              weight = non_witness_size * 4 + witness_size + 2
          in Inr ((weight + 3) div 4))))))
      else Inr total_size)"

lemma skip_item_enc:
  "enc_blob b = Inr bs \<Longrightarrow> skip_item (pre @ bs @ post) (length pre) = Inr ((), length pre + length bs)"
  using decode_encode_varint [of "int (length b)" _ pre "b @ post"]
  by (auto simp: skip_item_def enc_blob_def bind_res_Inr_iff)

interpretation sitem: codec enc_blob skip_item "\<lambda>_. ()" "\<lambda>_. True"
  by unfold_locales (rule skip_item_enc)

lemma skip_stack_enc:
  assumes "enc_counted enc_blob w = Inr bs"
  shows "skip_stack (pre @ bs @ post) (length pre) = Inr ((), length pre + length bs)"
proof -
  have "list_all (\<lambda>_. True) w" by (simp add: list_all_iff)
  then show ?thesis
    using parse_counted [OF sitem.codec_axioms assms, of pre post] by (auto simp: skip_stack_def)
qed

interpretation sstack: codec "enc_counted enc_blob" skip_stack "\<lambda>_. ()" "\<lambda>_. True"
  by unfold_locales (rule skip_stack_enc)

lemma skip_input_enc:
  assumes "serialize_input i True = Inr bs" "length (ti_txid_le i) = 32"
  shows "skip_input (pre @ bs @ post) (length pre) = Inr ((), length pre + length bs)"
proof -
  from assms(1) obtain v l q where v: "pack_u 4 (ti_vout i) = Inr v"
    and l: "encode_varint (int (length (ti_scriptsig i))) = Inr l"
    and q: "pack_u 4 (ti_sequence i) = Inr q"
    and bs: "bs = ti_txid_le i @ v @ l @ ti_scriptsig i @ q"
    unfolding serialize_input_blob enc_blob_def by (auto simp: bind_res_Inr_iff)
  note len = pack_u_length [OF v] pack_u_length [OF q] assms(2)
  have "decode_varint (pre @ bs @ post) (length pre + 36)
      = Inr (length (ti_scriptsig i), length pre + 36 + length l)"
    using decode_encode_varint [OF l, of "pre @ ti_txid_le i @ v" "ti_scriptsig i @ q @ post"]
    by (simp add: bs len add.assoc)
  then show ?thesis by (simp add: skip_input_def bs len)
qed

interpretation sinput: codec "\<lambda>i. serialize_input i True" skip_input "\<lambda>_. ()"
    "\<lambda>i. length (ti_txid_le i) = 32"
  by unfold_locales (rule skip_input_enc)

lemma skip_output_enc:
  assumes "serialize_output u = Inr bs"
  shows "skip_output (pre @ bs @ post) (length pre) = Inr ((), length pre + length bs)"
proof -
  from assms obtain v l where v: "pack_u 8 (to_value u) = Inr v"
    and l: "encode_varint (int (length (to_script u))) = Inr l" and bs: "bs = v @ l @ to_script u"
    by (auto simp: serialize_output_def enc_blob_def bind_res_Inr_iff)
  have "decode_varint (pre @ bs @ post) (length pre + 8)
      = Inr (length (to_script u), length pre + 8 + length l)"
    using decode_encode_varint [OF l, of "pre @ v" "to_script u @ post"] pack_u_length [OF v]
    by (simp add: bs add.assoc)
  then show ?thesis using pack_u_length [OF v] by (simp add: skip_output_def bs)
qed

interpretation soutput: codec serialize_output skip_output "\<lambda>_. ()" "\<lambda>_. True"
  by unfold_locales (rule skip_output_enc)

lemma vsize_of_parts:
  assumes v: "length v = 4" and l: "length l = 4"
    and i: "enc_counted (\<lambda>i. serialize_input i True) inputs = Inr i"
    and u: "enc_counted serialize_output outputs = Inr u"
    and w: "enc_many (enc_counted enc_blob) ws = Inr w" "length ws = length inputs"
    and ids: "list_all (\<lambda>i. length (ti_txid_le i) = 32) inputs"
    and bs: "bs = v @ [0x00, 0x01] @ i @ u @ w @ l"
  shows "calculate_tx_vsize bs = Inr ((4 * int (length (v @ i @ u @ l)) + int (length w) + 2 + 3) div 4)"
proof -
  have all: "list_all (\<lambda>_. True) xs" for xs :: "'z list" by (simp add: list_all_iff)
  define o2 o3 where defs: "o2 = 6 + length i" "o3 = o2 + length u"
  obtain n1 where n1: "decode_varint bs 6 = Inr (length inputs, 6 + n1)"
    "dec_many skip_input (length inputs) bs (6 + n1) = Inr (map (\<lambda>_. ()) inputs, o2)"
    using parse_counted [OF sinput.codec_axioms i ids, of "v @ [0x00, 0x01]" "u @ w @ l"]
    by (auto simp: bs defs v)
  obtain n2 where n2: "decode_varint bs o2 = Inr (length outputs, o2 + n2)"
    "dec_many skip_output (length outputs) bs (o2 + n2) = Inr (map (\<lambda>_. ()) outputs, o3)"
    using parse_counted [OF soutput.codec_axioms u all, of "v @ [0x00, 0x01] @ i" "w @ l"]
    by (auto simp: bs defs v add.assoc)
  have n3: "dec_many skip_stack (length inputs) bs o3 = Inr (map (\<lambda>_. ()) ws, o3 + length w)"
    using sstack.dec_many_enc_many [OF w(1) all, of "v @ [0x00, 0x01] @ i @ u" l] w(2)
    by (simp add: bs defs v add.assoc)
  have "length bs > 6 \<and> bs ! 4 = 0x00 \<and> bs ! 5 = 0x01" by (simp add: bs nth_append v l)
  then show ?thesis
    unfolding calculate_tx_vsize_def Let_def
    by (simp only: n1 n2 n3 bind_res_simps prod.case if_True)
       (simp add: bs v l algebra_simps)
qed

lemma serialize_segwit_parts:
  assumes "serialize_transaction version inputs outputs locktime (Some ws) = Inr bs" "any_witness (Some ws)"
  obtains v i u w l where "length v = 4" "length l = 4"
    "enc_counted (\<lambda>i. serialize_input i True) inputs = Inr i"
    "enc_counted serialize_output outputs = Inr u" "enc_many (enc_counted enc_blob) ws = Inr w"
    "bs = v @ [0x00, 0x01] @ i @ u @ w @ l"
    "serialize_transaction version inputs outputs locktime None = Inr (v @ i @ u @ l)"
proof -
  from assms obtain v i u w l where p: "pack_u 4 version = Inr v" "pack_u 4 locktime = Inr l"
    "enc_counted (\<lambda>i. serialize_input i True) inputs = Inr i"
    "enc_counted serialize_output outputs = Inr u" "enc_many (enc_counted enc_blob) ws = Inr w"
    "bs = v @ [0x00, 0x01] @ i @ u @ w @ l"
    by (auto simp: serialize_transaction_def Let_def bind_res_Inr_iff)
  then have "serialize_transaction version inputs outputs locktime None = Inr (v @ i @ u @ l)"
    by (simp add: serialize_transaction_def any_witness_def)
  with that [OF pack_u_length [OF p(1)] pack_u_length [OF p(2)] p(3-6)] show ?thesis .
qed

text \<open>the virtual size that \<open>calculate_tx_vsize\<close> computes from the bytes of a signed
  transaction is the one BIP141 defines from the two serialisations: three times the size without
  the witness plus the size with it, divided by four and rounded up.\<close>

theorem calculate_tx_vsize_segwit:
  assumes ser: "serialize_transaction version inputs outputs locktime (Some ws) = Inr bs"
    and base: "serialize_transaction version inputs outputs locktime None = Inr bs0"
    and wit: "any_witness (Some ws)" "length ws = length inputs"
    and ids: "list_all (\<lambda>i. length (ti_txid_le i) = 32) inputs"
  shows "calculate_tx_vsize bs = Inr ((3 * int (length bs0) + int (length bs) + 3) div 4)"
  using ser wit(1)
proof (rule serialize_segwit_parts)
  fix v i u w l
  assume p: "length v = 4" "length l = 4" "enc_counted (\<lambda>i. serialize_input i True) inputs = Inr i"
    "enc_counted serialize_output outputs = Inr u" "enc_many (enc_counted enc_blob) ws = Inr w"
    and bs: "bs = v @ [0x00, 0x01] @ i @ u @ w @ l"
    and "serialize_transaction version inputs outputs locktime None = Inr (v @ i @ u @ l)"
  then have bs0: "bs0 = v @ i @ u @ l" using base by simp
  show ?thesis
    using vsize_of_parts [OF p wit(2) ids bs] by (simp add: bs bs0 algebra_simps)
qed

definition ex_tx_base :: bytes where
  "ex_tx_base = (case serialize_transaction 2 ex_inputs ex_outputs 500 None of
     Inl _ \<Rightarrow> [] | Inr bs \<Rightarrow> bs)"

lemma ex_tx_base_serialized: "serialize_transaction 2 ex_inputs ex_outputs 500 None = Inr ex_tx_base"
  unfolding ex_tx_base_def by code_simp

lemma ex_tx_lengths: "length ex_tx_base = 105" "length ex_tx_bytes = 114"
  by code_simp+

theorem calculate_tx_vsize_segwit_witness: "calculate_tx_vsize ex_tx_bytes = Inr 108"
proof -
  have w: "any_witness (Some (the ex_witnesses))" "length (the ex_witnesses) = length ex_inputs"
    "list_all (\<lambda>i. length (ti_txid_le i) = 32) ex_inputs"
    by code_simp+
  have "serialize_transaction 2 ex_inputs ex_outputs 500 (Some (the ex_witnesses)) = Inr ex_tx_bytes"
    using ex_tx_serialized by (simp add: ex_witnesses_def)
  then show ?thesis
    using calculate_tx_vsize_segwit [OF _ ex_tx_base_serialized w] by (simp add: ex_tx_lengths)
qed

end
