(* ===== verification/Btc_Shape.thy ===== *)
theory Btc_Shape
  imports Btc_Size Py_Dict
begin

text \<open>
  Two more functions of \<open>jmcore/src/jmcore/bitcoin.py\<close>: the CoinJoin heuristic
  (\<open>analyze_coinjoin_outputs\<close>), characterised by the largest multiplicity of an output value, and
  the size estimate made before signing (\<open>estimate_vsize\<close>), which is an upper bound of the exact
  virtual size of what is signed later.
\<close>

section \<open>The equal-output heuristic\<close>

record coinjoin_analysis =
  is_coinjoin :: bool
  cj_amount :: int
  cj_count :: nat

definition analyze_coinjoin_outputs :: "tx_output list \<Rightarrow> coinjoin_analysis" where
  "analyze_coinjoin_outputs outputs =
     (let script_values = dict_of (map (\<lambda>out. (to_script out, to_value out)) outputs) [] in
      if script_values = [] then \<lparr>is_coinjoin = False, cj_amount = 0, cj_count = 0\<rparr>
      else
        let value_freq = sort_key (\<lambda>x. - int (snd x)) (most_common (counter (map snd script_values) []));
            (top_value, top_count) = hd value_freq;
            non_cj_freq = (if length value_freq = 1 then 0 else sum_list (map snd (tl value_freq)));
            is_cj = (top_count > 1 \<and> (top_count = non_cj_freq \<or> top_count = non_cj_freq + 1))
        in \<lparr>is_coinjoin = is_cj, cj_amount = (if is_cj then top_value else 0), cj_count = top_count\<rparr>)"

text \<open>The largest number of outputs that share one value.\<close>

definition max_multiplicity :: "int list \<Rightarrow> nat" where
  "max_multiplicity vs = Max (count_list vs ` set vs)"

lemma value_freq_top:
  fixes vs :: "int list"
  assumes "vs \<noteq> []"
  defines "f \<equiv> sort_key (\<lambda>x. - int (snd x)) (most_common (counter vs []))"
  obtains v k rest where "f = (v, k) # rest" "k = max_multiplicity vs" "count_list vs v = k"
    "sum_list (map snd rest) = length vs - k" "k \<le> length vs"
proof -
  let ?c = "counter vs []"
  have f: "f = sort_key (\<lambda>x. - int (snd x)) ?c"
    by (simp add: f_def most_common_def sort_key_idem)
  have ne: "?c \<noteq> []" using assms(1) counter_set [of vs] by (metis image_is_empty set_empty)
  obtain v k where vk: "hd f = (v, k)" by fastforce
  have "f \<noteq> []" using ne by (simp add: f) (metis length_0_conv length_sort)
  then obtain rest where fr: "f = (v, k) # rest" using vk by (cases f) auto
  have "(v, k) \<in> set ?c" using hd_sort_key(1) [OF ne] vk by (metis f)
  then have v: "v \<in> set vs" and k: "count_list vs v = k" by (auto simp: counter_set)
  have "count_list vs x \<le> k" if "x \<in> set vs" for x
    using hd_sort_key(2) [OF ne, of "(x, count_list vs x)" "\<lambda>x. - int (snd x)"] that vk
    by (auto simp: counter_set f)
  then have mx: "k = max_multiplicity vs"
    unfolding max_multiplicity_def using v k by (intro Max_eqI [symmetric]) auto
  have "sum_mset (image_mset snd (mset f)) = sum_mset (image_mset snd (mset ?c))" by (simp add: f)
  then have "sum_list (map snd f) = length vs"
    using counter_sum [of "[]" vs] by (simp add: sum_mset_sum_list flip: mset_map)
  then have "k + sum_list (map snd rest) = length vs" by (simp add: fr)
  with that fr mx k show ?thesis by auto
qed

text \<open>on outputs that pay distinct scripts the heuristic is a function of the output values
  as a multiset: with \<open>n\<close> outputs and \<open>k\<close> the largest number of outputs of equal value, it reports
  \<open>k\<close> participants, it says CoinJoin exactly when \<open>k\<close> exceeds one and \<open>2k\<close> is \<open>n\<close> or \<open>n + 1\<close>, and
  then the amount it reports is the value of \<open>k\<close> outputs.\<close>

theorem analyze_coinjoin_outputs_spec:
  assumes "distinct (map to_script outputs)" "outputs \<noteq> []"
  defines "vs \<equiv> map to_value outputs" and "n \<equiv> length outputs" and "a \<equiv> analyze_coinjoin_outputs outputs"
  shows "cj_count a = max_multiplicity vs \<and>
         (is_coinjoin a \<longleftrightarrow> cj_count a > 1 \<and> (2 * cj_count a = n \<or> 2 * cj_count a = n + 1)) \<and>
         (if is_coinjoin a then count_list vs (cj_amount a) = cj_count a else cj_amount a = 0)"
proof -
  let ?sv = "map (\<lambda>out. (to_script out, to_value out)) outputs"
  have sv: "dict_of ?sv [] = ?sv"
    using assms(1) by (subst dict_of_distinct) (auto simp: comp_def)
  have vs: "map snd ?sv = vs" by (simp add: vs_def)
  have "vs \<noteq> []" using assms(2) by (simp add: vs_def)
  then obtain v k rest where
    f: "sort_key (\<lambda>x. - int (snd x)) (most_common (counter vs [])) = (v, k) # rest"
    and k: "k = max_multiplicity vs" "count_list vs v = k"
    and r: "sum_list (map snd rest) = length vs - k" "k \<le> length vs"
    using value_freq_top [of vs] by metis
  have n: "length vs = n" by (simp add: vs_def n_def)
  have ncf: "(if length ((v, k) # rest) = 1 then 0 else sum_list (map snd rest)) = n - k"
    using r n by auto
  have "a = (let is_cj = (k > 1 \<and> (k = n - k \<or> k = n - k + 1)) in
      \<lparr>is_coinjoin = is_cj, cj_amount = (if is_cj then v else 0), cj_count = k\<rparr>)"
    using assms(2) unfolding a_def analyze_coinjoin_outputs_def Let_def sv vs f ncf [symmetric]
    by simp
  moreover have "(k = n - k \<or> k = n - k + 1) \<longleftrightarrow> (2 * k = n \<or> 2 * k = n + 1)"
    using r n by auto
  ultimately show ?thesis using k by (auto simp: Let_def)
qed

definition ex_cj_outputs :: "tx_output list" where
  "ex_cj_outputs =
    [\<lparr>to_value = 7, to_script = [1]\<rparr>, \<lparr>to_value = 50, to_script = [2]\<rparr>, \<lparr>to_value = 50, to_script = [3]\<rparr>]"

theorem analyze_coinjoin_outputs_spec_witness:
  "is_coinjoin (analyze_coinjoin_outputs ex_cj_outputs) \<and>
   cj_count (analyze_coinjoin_outputs ex_cj_outputs) = 2"
proof -
  have "distinct (map to_script ex_cj_outputs)" "ex_cj_outputs \<noteq> []"
    by (simp_all add: ex_cj_outputs_def)
  from analyze_coinjoin_outputs_spec [OF this] show ?thesis
    by (simp add: ex_cj_outputs_def max_multiplicity_def)
qed

section \<open>The size estimate\<close>

definition input_weights :: "string \<Rightarrow> int" where
  "input_weights t =
     (if t = ''p2wpkh'' then 41 * 4 + 108 else if t = ''p2wsh'' then 41 * 4 + 118
      else if t = ''p2tr'' then 41 * 4 + 66 else 272)"

definition output_weights :: "string \<Rightarrow> int" where
  "output_weights t =
     (if t = ''p2wpkh'' then 31 * 4 else if t = ''p2wsh'' then 43 * 4
      else if t = ''p2tr'' then 43 * 4 else if t = ''p2pkh'' then 34 * 4
      else if t = ''p2sh'' then 32 * 4 else 124)"

definition estimate_vsize :: "string list \<Rightarrow> string list \<Rightarrow> int" where
  "estimate_vsize input_types output_types =
     (let base_weight = 40 + 2;
          weight = base_weight + sum_list (map input_weights input_types)
                     + sum_list (map output_weights output_types)
      in (weight + 3) div 4)"

text \<open>What the estimate stands for: a signed input of each type, and an output script of each type.\<close>

definition signed_as :: "string \<Rightarrow> tx_input \<Rightarrow> bytes list \<Rightarrow> bool" where
  "signed_as t i w \<longleftrightarrow> length (ti_txid_le i) = 32 \<and> ti_scriptsig i = [] \<and>
     (t = ''p2wpkh'' \<and> (\<exists>sig pub. w = [sig, pub] \<and> length sig \<le> 72 \<and> length pub = 33) \<or>
      t = ''p2wsh'' \<and> (\<exists>sig script. w = [sig, script] \<and> length sig \<le> 72 \<and> length script \<le> 43) \<or>
      t = ''p2tr'' \<and> (\<exists>sig. w = [sig] \<and> length sig \<le> 64))"

definition script_length_as :: "string \<Rightarrow> tx_output \<Rightarrow> bool" where
  "script_length_as t u \<longleftrightarrow>
     (t, length (to_script u)) \<in> {(''p2wpkh'', 22), (''p2wsh'', 34), (''p2tr'', 34), (''p2pkh'', 25), (''p2sh'', 23)}"

lemma encode_varint_small: "n < 0xFD \<Longrightarrow> encode_varint (int n) = Inr [word_of_nat n]"
  by (simp add: encode_varint_def byte1_def)

lemma enc_blob_small: "length b < 0xFD \<Longrightarrow> enc_blob b = Inr (word_of_nat (length b) # b)"
  by (simp add: enc_blob_def encode_varint_small)

lemma enc_many_length:
  assumes "enc_many enc xs = Inr bs"
    and "\<And>x b. x \<in> set xs \<Longrightarrow> enc x = Inr b \<Longrightarrow> int (length b) = g x"
  shows "int (length bs) = sum_list (map g xs)"
  using assms
proof (induction xs arbitrary: bs)
  case Nil
  then show ?case by simp
next
  case (Cons x xs)
  then obtain b bs' where "enc x = Inr b" "enc_many enc xs = Inr bs'" "bs = b @ bs'"
    by (auto simp: enc_many_Cons_iff)
  with Cons show ?case by simp
qed

lemma enc_counted_length:
  assumes "enc_counted enc xs = Inr bs" "length xs < 0xFD"
    and "\<And>x b. x \<in> set xs \<Longrightarrow> enc x = Inr b \<Longrightarrow> int (length b) = g x"
  shows "int (length bs) = 1 + sum_list (map g xs)"
proof -
  from assms(1,2) obtain b where b: "enc_many enc xs = Inr b" and bs: "length bs = 1 + length b"
    by (auto simp: enc_counted_def bind_res_Inr_iff encode_varint_small)
  show ?thesis using enc_many_length [OF b assms(3)] by (simp add: bs)
qed

lemma signed_as_stack:
  assumes "signed_as t i w" "enc_counted enc_blob w = Inr b"
  shows "164 + int (length b) \<le> input_weights t"
proof -
  have "(\<exists>sig x. w = [sig, x] \<and> length sig < 0xFD \<and> length x < 0xFD \<and> 167 + int (length sig) + int (length x) \<le> input_weights t) \<or>
        (\<exists>sig. w = [sig] \<and> length sig < 0xFD \<and> 166 + int (length sig) \<le> input_weights t)"
    using assms(1) by (auto simp: signed_as_def input_weights_def)
  then show ?thesis
    using assms(2) by (auto simp: enc_counted_def enc_many_def encode_varint_small [of 1, simplified] encode_varint_small [of 2, simplified] enc_blob_small)
qed

lemma signed_as_base:
  assumes "signed_as t i w" "serialize_input i True = Inr b"
  shows "int (length b) = 41"
  using assms by (auto simp: signed_as_def serialize_input_def bind_res_Inr_iff dest!: pack_u_length)

lemma script_length_as_output:
  assumes "script_length_as t u" "serialize_output u = Inr b"
  shows "4 * int (length b) = output_weights t"
proof -
  have "length (to_script u) < 0xFD" "4 * (9 + int (length (to_script u))) = output_weights t"
    using assms(1) by (auto simp: script_length_as_def output_weights_def)
  moreover obtain v where "pack_u 8 (to_value u) = Inr v" "b = v @ word_of_nat (length (to_script u)) # to_script u"
    using assms(2) calculation(1) by (auto simp: serialize_output_def bind_res_Inr_iff enc_blob_small)
  ultimately show ?thesis using pack_u_length by fastforce
qed

lemma stacks_weight:
  assumes "list_all2 (\<lambda>t (i, w). signed_as t i w) ts (zip inputs ws)" "length ws = length inputs"
    and "enc_many (enc_counted enc_blob) ws = Inr b"
  shows "164 * int (length inputs) + int (length b) \<le> sum_list (map input_weights ts)"
  using assms(2) assms(1,3)
proof (induction ws inputs arbitrary: ts b rule: list_induct2)
  case Nil
  then show ?case by simp
next
  case (Cons w ws i inputs)
  from Cons.prems obtain t ts' b1 b2 where ts: "ts = t # ts'" "signed_as t i w"
    "list_all2 (\<lambda>t (i, w). signed_as t i w) ts' (zip inputs ws)"
    and b: "enc_counted enc_blob w = Inr b1" "enc_many (enc_counted enc_blob) ws = Inr b2" "b = b1 @ b2"
    by (auto simp: list_all2_Cons2 enc_many_Cons_iff)
  show ?case using Cons.IH [OF ts(3) b(2)] signed_as_stack [OF ts(2) b(1)] by (simp add: ts b)
qed

lemma outputs_weight:
  assumes "list_all2 script_length_as ts outputs" "enc_many serialize_output outputs = Inr b"
  shows "4 * int (length b) = sum_list (map output_weights ts)"
  using assms
proof (induction ts outputs arbitrary: b rule: list_all2_induct)
  case Nil
  then show ?case by simp
next
  case (Cons t ts u us)
  from Cons.prems obtain b1 b2 where b: "serialize_output u = Inr b1"
    "enc_many serialize_output us = Inr b2" "b = b1 @ b2"
    by (auto simp: enc_many_Cons_iff)
  show ?case using Cons.IH [OF b(2)] script_length_as_output [OF Cons.hyps(1) b(1)] by (simp add: b)
qed

lemma signed_inputs:
  assumes "list_all2 (\<lambda>t (i, w). signed_as t i w) ts (zip inputs ws)" "length ws = length inputs" "i \<in> set inputs"
  shows "\<exists>t w. signed_as t i w"
proof -
  obtain k where "k < length inputs" "i = inputs ! k" using assms(3) by (auto simp: in_set_conv_nth)
  with assms(1,2) have "signed_as (ts ! k) i (ws ! k)" by (auto simp: list_all2_conv_all_nth)
  then show ?thesis by blast
qed

text \<open>C30: the estimate made from the input and output types before signing is an upper bound of the
  virtual size of the signed transaction, when every signature, key and script is at most as long
  as its type says and there are fewer than 253 inputs and outputs (the estimate counts one byte for
  each of the two counts).\<close>

theorem estimate_vsize_upper_bound:
  assumes ser: "serialize_transaction version inputs outputs locktime (Some ws) = Inr bs"
    and inp: "list_all2 (\<lambda>t (i, w). signed_as t i w) input_types (zip inputs ws)" "length ws = length inputs"
    and out: "list_all2 script_length_as output_types outputs"
    and small: "inputs \<noteq> []" "length inputs < 0xFD" "length outputs < 0xFD"
  shows "\<exists>v. calculate_tx_vsize bs = Inr v \<and> v \<le> estimate_vsize input_types output_types"
proof -
  have ne: "w \<noteq> []" if "signed_as t i w" for t i w using that by (auto simp: signed_as_def)
  obtain t i0 w0 where "signed_as t i0 w0" "w0 \<in> set ws"
    using inp small(1) by (cases inputs; cases ws) (auto simp: list_all2_Cons2)
  then have aw: "any_witness (Some ws)" using ne by (auto simp: any_witness_def list_ex_iff)
  obtain v i u w l where vl: "length v = 4" "length l = 4"
    and i: "enc_counted (\<lambda>i. serialize_input i True) inputs = Inr i"
    and u: "enc_counted serialize_output outputs = Inr u" and w: "enc_many (enc_counted enc_blob) ws = Inr w"
    and bs: "bs = v @ [0x00, 0x01] @ i @ u @ w @ l"
    by (rule serialize_segwit_parts [OF ser aw])
  have ids: "list_all (\<lambda>i. length (ti_txid_le i) = 32) inputs"
    using signed_inputs [OF inp] by (auto simp: list_all_iff signed_as_def)
  have li: "int (length i) = 1 + 41 * int (length inputs)"
  proof -
    have "int (length b) = 41" if "x \<in> set inputs" "serialize_input x True = Inr b" for x b
      using signed_inputs [OF inp that(1)] signed_as_base that(2) by blast
    from enc_counted_length [OF i small(2) this] show ?thesis by (simp add: sum_list_triv)
  qed
  obtain b where "u = word_of_nat (length outputs) # b" "enc_many serialize_output outputs = Inr b"
    using u small(3) by (auto simp: enc_counted_def bind_res_Inr_iff encode_varint_small)
  then have lu: "4 * int (length u) = 4 + sum_list (map output_weights output_types)"
    using outputs_weight [OF out] by auto
  have "(4 * int (length (v @ i @ u @ l)) + int (length w) + 2 + 3) div 4
      \<le> estimate_vsize input_types output_types"
    unfolding estimate_vsize_def Let_def
    by (rule zdiv_mono1) (use li lu stacks_weight [OF inp w] vl in simp_all)
  with vsize_of_parts [OF vl i u w inp(2) ids bs] show ?thesis by blast
qed

definition ex_p2wpkh_inputs :: "tx_input list" where
  "ex_p2wpkh_inputs = [\<lparr>ti_txid_le = replicate 32 9, ti_vout = 1, ti_scriptsig = [], ti_sequence = 0xFFFFFFFF,
      ti_value = 0, ti_scriptpubkey = []\<rparr>]"

definition ex_p2tr_outputs :: "tx_output list" where
  "ex_p2tr_outputs = [\<lparr>to_value = 4000, to_script = replicate 34 0x51\<rparr>]"

definition ex_signed :: "bytes res" where
  "ex_signed = serialize_transaction 2 ex_p2wpkh_inputs ex_p2tr_outputs 0
     (Some [[replicate 71 0x30, replicate 33 0x02]])"

theorem estimate_vsize_upper_bound_witness:
  "\<exists>v. calculate_tx_vsize (projr ex_signed) = Inr v \<and> v \<le> 122 \<and> estimate_vsize [''p2wpkh''] [''p2tr''] = 122"
proof -
  have r: "isl ex_signed = False" unfolding ex_signed_def by code_simp
  have s: "serialize_transaction 2 ex_p2wpkh_inputs ex_p2tr_outputs 0
     (Some [[replicate 71 0x30, replicate 33 0x02]]) = Inr (projr ex_signed)"
    using r by (cases ex_signed) (auto simp: ex_signed_def)
  have e: "estimate_vsize [''p2wpkh''] [''p2tr''] = 122"
    by (simp add: estimate_vsize_def input_weights_def output_weights_def)
  show ?thesis
    using estimate_vsize_upper_bound [OF s, of "[''p2wpkh'']" "[''p2tr'']"]
    by (simp add: e ex_p2wpkh_inputs_def ex_p2tr_outputs_def signed_as_def script_length_as_def)
qed

end
