(* ===== verification/Wallet_Direct.thy ===== *)
theory Wallet_Direct
  imports Wallet_Select Btc_Script Btc_Shape "HOL-Library.Product_Lexorder" "HOL-Library.List_Lexorder"
    "HOL-Library.Char_ord" "HOL-Library.Sublist"
begin

text \<open>
  Direct-send selection of \<open>jmwallet/src/jmwallet/wallet/coin_selection.py\<close>: the fee estimate, the
  greedy baseline and the bounded search of \<open>select_direct_send_utxos\<close>.

  The fee rate is a floating-point number. The model takes what the code does with it: whether it is
  finite and not negative, and \<open>math.ceil(vsize * fee_rate)\<close> as a function of the size. The inner
  function \<open>search_group_count\<close> assigns to variables of the enclosing one; they are the record
  \<open>search_state\<close>.
\<close>

record fee_rate =
  fr_valid :: bool
  fr_ceil :: "int \<Rightarrow> int"

record direct_env =
  de_lib :: addr_lib
  de_amount :: int
  de_destination :: string
  de_rate :: fee_rate
  de_dust :: int

record direct_selection =
  ds_utxos :: "utxo_info list"
  ds_fee :: int
  ds_change :: int
  ds_vsize :: int

record script_group =
  sg_script :: string
  sg_utxos :: "utxo_info list"
  sg_value :: int
  sg_all_cj :: bool

definition estimate_direct_send_fee :: "direct_env \<Rightarrow> utxo_info list \<Rightarrow> bool \<Rightarrow> int \<times> int" where
  "estimate_direct_send_fee e utxos has_change =
     (let input_types = map (\<lambda>u. if is_p2wsh u then ''p2wsh'' else ''p2wpkh'') utxos;
          destination_type = (case get_address_type (de_lib e) (de_destination e) of Inl _ \<Rightarrow> ''p2wpkh'' | Inr t \<Rightarrow> t);
          output_types = [destination_type] @ (if has_change then [''p2wpkh''] else []);
          vsize = estimate_vsize input_types output_types
      in (fr_ceil (de_rate e) vsize, vsize))"

definition evaluate_direct_send_selection :: "direct_env \<Rightarrow> utxo_info list \<Rightarrow> direct_selection option" where
  "evaluate_direct_send_selection e utxos =
     (let total_value = utxo_sum utxos;
          (fee_with_change, vsize_with_change) = estimate_direct_send_fee e utxos True;
          change_amount = total_value - de_amount e - fee_with_change in
      if change_amount \<ge> de_dust e
      then Some \<lparr>ds_utxos = utxos, ds_fee = fee_with_change, ds_change = change_amount, ds_vsize = vsize_with_change\<rparr>
      else
        let (fee_without_change, vsize_without_change) = estimate_direct_send_fee e utxos False;
            actual_fee = total_value - de_amount e in
        if actual_fee \<ge> fee_without_change
        then Some \<lparr>ds_utxos = utxos, ds_fee = actual_fee, ds_change = 0, ds_vsize = vsize_without_change\<rparr>
        else None)"

definition group_utxos :: "script_group list \<Rightarrow> utxo_info list" where
  "group_utxos groups = concat (map sg_utxos groups)"

type_synonym score = "nat \<times> nat \<times> int \<times> string list"

definition direct_send_score :: "script_group list \<Rightarrow> score" where
  "direct_send_score groups =
     (let utxos = group_utxos groups in
      (length groups, length utxos, utxo_sum utxos, sort (map ui_outpoint utxos)))"

text \<open>The baseline: the first group that suffices alone, else groups in order until they suffice.\<close>

fun first_single :: "direct_env \<Rightarrow> script_group list \<Rightarrow> (script_group list \<times> direct_selection) option" where
  "first_single e [] = None"
| "first_single e (g # gs) =
     (case evaluate_direct_send_selection e (sg_utxos g) of
        Some r \<Rightarrow> Some ([g], r) | None \<Rightarrow> first_single e gs)"

fun grow_groups :: "direct_env \<Rightarrow> script_group list \<Rightarrow> script_group list \<Rightarrow> (script_group list \<times> direct_selection) option" where
  "grow_groups e sel [] = None"
| "grow_groups e sel (g # gs) =
     (case evaluate_direct_send_selection e (group_utxos (sel @ [g])) of
        Some r \<Rightarrow> Some (sel @ [g], r) | None \<Rightarrow> grow_groups e (sel @ [g]) gs)"

definition direct_send_greedy_baseline ::
  "direct_env \<Rightarrow> script_group list \<Rightarrow> bool \<Rightarrow> (script_group list \<times> direct_selection) option" where
  "direct_send_greedy_baseline e groups restricted =
     (let ordered = sort_key (\<lambda>g. (- sg_value g, length (sg_utxos g), sg_script g)) groups in
      case first_single e ordered of
        Some r \<Rightarrow> Some r
      | None \<Rightarrow> grow_groups e [] (if restricted then filter sg_all_cj ordered else ordered))"

record search_state =
  ss_best :: "(script_group list \<times> direct_selection) option"
  ss_nodes :: nat

definition visit_groups :: "direct_env \<Rightarrow> nat \<Rightarrow> script_group list \<Rightarrow> search_state \<Rightarrow> bool \<times> search_state" where
  "visit_groups e max_nodes selected st =
     (let st = st\<lparr>ss_nodes := ss_nodes st + 1\<rparr> in
      if ss_nodes st > max_nodes then (False, st)
      else case evaluate_direct_send_selection e (sort_key ui_outpoint (group_utxos selected)) of
        None \<Rightarrow> (True, st)
      | Some result \<Rightarrow>
          (case ss_best st of
             None \<Rightarrow> (True, st\<lparr>ss_best := Some (selected, result)\<rparr>)
           | Some (best_groups, _) \<Rightarrow>
               if direct_send_score selected < direct_send_score best_groups
               then (True, st\<lparr>ss_best := Some (selected, result)\<rparr>) else (True, st)))"

text \<open>\<open>search_group_count\<close>, over the candidates from \<open>start\<close> on; \<open>needed\<close> is
  \<open>required_count - len(selected_groups)\<close>, and the loop ends where too few candidates are left.\<close>

fun search_group_count ::
  "direct_env \<Rightarrow> nat \<Rightarrow> nat \<Rightarrow> script_group list \<Rightarrow> script_group list \<Rightarrow> search_state \<Rightarrow> bool \<times> search_state" where
  "search_group_count e max_nodes 0 candidates selected st = visit_groups e max_nodes selected st"
| "search_group_count e max_nodes (Suc needed) [] selected st = (True, st)"
| "search_group_count e max_nodes (Suc needed) (g # gs) selected st =
     (if length (g # gs) < Suc needed then (True, st)
      else let (ok, st1) = search_group_count e max_nodes needed gs (selected @ [g]) st in
        if \<not> ok then (False, st1) else search_group_count e max_nodes (Suc needed) gs selected st1)"

lemma search_group_count_code [code]:
  "search_group_count e max_nodes needed candidates selected st =
     (if needed = 0 then visit_groups e max_nodes selected st
      else case candidates of [] \<Rightarrow> (True, st)
      | g # gs \<Rightarrow>
        if length (g # gs) < needed then (True, st)
        else let (ok, st1) = search_group_count e max_nodes (needed - 1) gs (selected @ [g]) st in
          if \<not> ok then (False, st1) else search_group_count e max_nodes needed gs selected st1)"
  by (cases needed; cases candidates) (simp_all split: prod.split)

definition candidates_for :: "script_group list \<Rightarrow> bool \<Rightarrow> nat \<Rightarrow> script_group list" where
  "candidates_for groups restricted group_count =
     (if restricted \<and> group_count > 1 then filter sg_all_cj groups else groups)"

text \<open>The loop over the group counts; the flag is \<open>search_exhausted\<close>.\<close>

fun search_counts ::
  "direct_env \<Rightarrow> nat \<Rightarrow> script_group list \<Rightarrow> bool \<Rightarrow> nat list \<Rightarrow> search_state \<Rightarrow> bool \<times> search_state" where
  "search_counts e max_nodes groups restricted [] st = (False, st)"
| "search_counts e max_nodes groups restricted (k # ks) st =
     (let candidates = candidates_for groups restricted k in
      if length candidates < k then search_counts e max_nodes groups restricted ks st
      else let (ok, st1) = search_group_count e max_nodes k candidates [] st in
        if \<not> ok then (True, st1)
        else if (case ss_best st1 of None \<Rightarrow> False | Some (gs, _) \<Rightarrow> length gs = k) then (False, st1)
        else search_counts e max_nodes groups restricted ks st1)"

section \<open>The selection\<close>

definition regular_utxos :: "utxo_info list \<Rightarrow> int \<Rightarrow> utxo_info list" where
  "regular_utxos utxos mixdepth = filter (\<lambda>u. ui_mixdepth u = mixdepth \<and> \<not> is_fidelity_bond u) utxos"

definition is_blocked :: "int \<Rightarrow> outpoint_key list \<Rightarrow> utxo_info \<Rightarrow> bool" where
  "is_blocked min_confirmations excluded u \<longleftrightarrow>
     ui_frozen u \<or> ui_confirmations u < min_confirmations \<or> utxo_key u \<in> set excluded"

definition direct_eligible :: "utxo_info list \<Rightarrow> int \<Rightarrow> int \<Rightarrow> outpoint_key list \<Rightarrow> utxo_info list" where
  "direct_eligible utxos mixdepth min_confirmations excluded =
     (let regular = regular_utxos utxos mixdepth;
          blocked_scripts = map ui_scriptpubkey (filter (is_blocked min_confirmations excluded) regular)
      in filter (\<lambda>u. ui_scriptpubkey u \<notin> set blocked_scripts \<and> \<not> ui_frozen u \<and>
                     ui_confirmations u \<ge> min_confirmations \<and> utxo_key u \<notin> set excluded) regular)"

text \<open>\<open>grouped_utxos.setdefault(script, []).append(utxo)\<close>\<close>

fun group_by_script :: "utxo_info list \<Rightarrow> (string, utxo_info list) dict \<Rightarrow> (string, utxo_info list) dict" where
  "group_by_script [] acc = acc"
| "group_by_script (u # us) acc =
     group_by_script us (dict_put (ui_scriptpubkey u)
       ((case dict_get acc (ui_scriptpubkey u) of None \<Rightarrow> [] | Some l \<Rightarrow> l) @ [u]) acc)"

definition make_group :: "string \<times> utxo_info list \<Rightarrow> script_group" where
  "make_group = (\<lambda>(script, us). \<lparr>sg_script = script, sg_utxos = sort_key ui_outpoint us, sg_value = utxo_sum us,
     sg_all_cj = list_all ui_coinjoin_output us\<rparr>)"

definition direct_groups :: "utxo_info list \<Rightarrow> int \<Rightarrow> int \<Rightarrow> outpoint_key list \<Rightarrow> script_group list" where
  "direct_groups utxos mixdepth min_confirmations excluded =
     map make_group (group_by_script (direct_eligible utxos mixdepth min_confirmations excluded) [])"

definition select_direct_send_utxos ::
  "direct_env \<Rightarrow> utxo_info list \<Rightarrow> int \<Rightarrow> int \<Rightarrow> bool \<Rightarrow> int \<Rightarrow> outpoint_key list \<Rightarrow> direct_selection res" where
  "select_direct_send_utxos e utxos mixdepth min_confirmations restrict_md0 max_search_nodes excluded_outpoints =
     bind_res (raise_if
       [(de_amount e \<le> 0, ''Direct-send amount must be positive''),
        (\<not> fr_valid (de_rate e), ''Direct-send fee rate must be a finite non-negative value''),
        (min_confirmations < 0, ''Minimum confirmations cannot be negative''),
        (de_dust e < 0, ''Dust threshold cannot be negative''),
        (max_search_nodes \<le> 0, ''Direct-send selection search limit must be positive'')]) (\<lambda>_.
     let excluded = map (\<lambda>(txid, vout). (ascii_lower txid, vout)) excluded_outpoints;
         groups = direct_groups utxos mixdepth min_confirmations excluded;
         restricted = (mixdepth = 0 \<and> restrict_md0);
         baseline = direct_send_greedy_baseline e groups restricted;
         limit = (case baseline of None \<Rightarrow> length groups | Some (gs, _) \<Rightarrow> length gs) in
     if groups = [] then Inl (ValueError ''No eligible direct-send UTXOs'')
     else
       let (search_exhausted, st) = search_counts e (nat max_search_nodes) groups restricted [1..<Suc limit]
             \<lparr>ss_best = baseline, ss_nodes = 0\<rparr> in
       if search_exhausted then Inl (ValueError ''Direct-send selection search exceeded its limit'')
       else (case ss_best st of
           Some (_, result) \<Rightarrow> Inr result
         | None \<Rightarrow>
             if length groups = 1 then Inl (ValueError ''Insufficient eligible funds'')
             else if restricted then Inl (ValueError ''No privacy-admissible sufficient direct-send selection in mixdepth 0'')
             else Inl (ValueError ''No sufficient eligible direct-send UTXOs'')))"

section \<open>The search finds the best selection\<close>

text \<open>A list of groups that can fund the payment, as the search tests it.\<close>

definition funds :: "direct_env \<Rightarrow> script_group list \<Rightarrow> bool" where
  "funds e gs \<longleftrightarrow> evaluate_direct_send_selection e (sort_key ui_outpoint (group_utxos gs)) \<noteq> None"

text \<open>The best selection so far is at least as good as \<open>gs\<close>.\<close>

definition covers :: "search_state \<Rightarrow> script_group list \<Rightarrow> bool" where
  "covers st gs = (case ss_best st of None \<Rightarrow> False | Some (b, _) \<Rightarrow> direct_send_score b \<le> direct_send_score gs)"

definition improves :: "search_state \<Rightarrow> search_state \<Rightarrow> bool" where
  "improves st st' \<longleftrightarrow> (\<forall>gs. covers st gs \<longrightarrow> covers st' gs)"

lemma improves_refl [simp]: "improves st st"
  by (simp add: improves_def)

lemma improves_trans: "improves a b \<Longrightarrow> improves b c \<Longrightarrow> improves a c"
  by (simp add: improves_def)

lemma visit_groups_True:
  assumes "visit_groups e mx sel st = (True, st')"
  shows "improves st st'" "funds e sel \<Longrightarrow> covers st' sel"
proof -
  show "improves st st'"
    using assms by (auto simp: visit_groups_def Let_def improves_def covers_def split: if_splits option.splits)
  show "funds e sel \<Longrightarrow> covers st' sel"
    using assms by (auto simp: visit_groups_def Let_def funds_def covers_def not_less split: if_splits option.splits)
qed

lemma search_group_count_True:
  "search_group_count e mx r ys sel st = (True, st') \<Longrightarrow>
   improves st st' \<and> (\<forall>c \<in> set (subseqs ys). length c = r \<and> funds e (sel @ c) \<longrightarrow> covers st' (sel @ c))"
proof (induction e mx r ys sel st arbitrary: st' rule: search_group_count.induct)
  case (1 e mx ys sel st)
  then show ?case using visit_groups_True [of e mx sel st st'] by auto
next
  case (2 e mx r sel st)
  then show ?case by simp
next
  case (3 e mx r g gs sel st)
  show ?case
  proof (cases "length (g # gs) < Suc r")
    case True
    have "length c \<le> length (g # gs)" if "c \<in> set (subseqs (g # gs))" for c
      using that by (simp only: set_subseqs_eq mem_Collect_eq list_emb_length)
    with True 3(3) show ?thesis by fastforce
  next
    case False
    obtain ok st1 where s1: "search_group_count e mx r gs (sel @ [g]) st = (ok, st1)" by fastforce
    with 3(3) False have ok: "ok" "search_group_count e mx (Suc r) gs sel st1 = (True, st')"
      by (auto split: if_splits)
    have a: "improves st st1" "\<forall>c \<in> set (subseqs gs). length c = r \<and> funds e (sel @ g # c) \<longrightarrow> covers st1 (sel @ g # c)"
      using 3(1) [OF False] s1 ok(1) by auto
    have b: "improves st1 st'" "\<forall>c \<in> set (subseqs gs). length c = Suc r \<and> funds e (sel @ c) \<longrightarrow> covers st' (sel @ c)"
      using 3(2) [OF False s1 [symmetric]] ok by auto
    have "covers st' (sel @ c)" if "c \<in> set (subseqs (g # gs))" "length c = Suc r" "funds e (sel @ c)" for c
      using that a b by (auto simp: Let_def improves_def)
    then show ?thesis using improves_trans [OF a(1) b(1)] by blast
  qed
qed

lemma score_length_less: "length a < length b \<Longrightarrow> direct_send_score a < direct_send_score b"
  by (simp add: direct_send_score_def Let_def less_prod_def')

lemma covers_shorter: "ss_best st = Some (gs, r) \<Longrightarrow> length gs < length b \<Longrightarrow> covers st b"
  using score_length_less [of gs b] by (simp add: covers_def less_imp_le)

text \<open>The groups that the privacy rule lets together.\<close>

definition admissible :: "bool \<Rightarrow> script_group list \<Rightarrow> bool" where
  "admissible restricted gs \<longleftrightarrow> (restricted \<and> 1 < length gs \<longrightarrow> list_all sg_all_cj gs)"

lemma subseq_filter_all: "subseq c xs \<Longrightarrow> list_all P c \<Longrightarrow> subseq c (filter P xs)"
  by (metis filter_True list_all_iff subseq_filter)

lemma admissible_candidates:
  assumes "c \<in> set (subseqs groups)" "admissible restricted c"
  shows "c \<in> set (subseqs (candidates_for groups restricted (length c)))"
  using assms subseq_filter_all [of c groups sg_all_cj]
  by (auto simp: candidates_for_def admissible_def)

lemma search_counts_False:
  "search_counts e mx groups restricted ks st = (False, st') \<Longrightarrow> sorted_wrt (<) ks \<Longrightarrow>
   improves st st' \<and> (\<forall>c \<in> set (subseqs groups). length c \<in> set ks \<and> admissible restricted c \<and> funds e c \<longrightarrow> covers st' c)"
proof (induction e mx groups restricted ks st arbitrary: st' rule: search_counts.induct)
  case (1 e mx groups restricted st)
  then show ?case by simp
next
  case (2 e mx groups restricted k ks st)
  let ?cand = "candidates_for groups restricted k"
  have cand: "c \<in> set (subseqs ?cand)" if "c \<in> set (subseqs groups)" "admissible restricted c" "length c = k" for c
    using admissible_candidates [OF that(1,2)] that(3) by simp
  have sorted: "sorted_wrt (<) ks" "\<forall>k' \<in> set ks. k < k'" using 2(4) by auto
  show ?case
  proof (cases "length ?cand < k")
    case True
    have "length c \<le> length ?cand" if "c \<in> set (subseqs ?cand)" for c
      using that by (simp only: set_subseqs_eq mem_Collect_eq list_emb_length)
    with True cand have no: "length c \<noteq> k" if "c \<in> set (subseqs groups)" "admissible restricted c" for c
      using that by fastforce
    have "improves st st' \<and> (\<forall>c \<in> set (subseqs groups). length c \<in> set ks \<and> admissible restricted c \<and> funds e c \<longrightarrow> covers st' c)"
      using 2(1) [OF refl True] 2(3) True sorted(1) by (simp add: Let_def)
    with no show ?thesis by (metis set_ConsD)
  next
    case False
    obtain ok st1 where s1: "search_group_count e mx k ?cand [] st = (ok, st1)" by fastforce
    with 2(3) False have ok: "ok" by (auto simp: Let_def split: if_splits)
    have a: "improves st st1" "\<forall>c \<in> set (subseqs ?cand). length c = k \<and> funds e c \<longrightarrow> covers st1 c"
      using search_group_count_True [of e mx k ?cand "[]" st st1] s1 ok by auto
    show ?thesis
    proof (cases "case ss_best st1 of None \<Rightarrow> False | Some (gs, _) \<Rightarrow> length gs = k")
      case brk: True
      with 2(3) False s1 ok have "st' = st1" by (simp add: Let_def)
      moreover have "covers st1 c" if "k < length c" for c
        using brk that covers_shorter [of st1 _ _ c] by (auto split: option.splits)
      ultimately show ?thesis using a cand sorted(2) by auto
    next
      case cont: False
      with 2(3) False s1 ok have rest: "search_counts e mx groups restricted ks st1 = (False, st')"
        by (simp add: Let_def)
      have b: "improves st1 st'" "\<forall>c \<in> set (subseqs groups). length c \<in> set ks \<and> admissible restricted c \<and> funds e c \<longrightarrow> covers st' c"
        using 2(2) [OF refl False s1 [symmetric] refl _ cont rest sorted(1)] ok by auto
      have "covers st' c" if "c \<in> set (subseqs groups)" "length c = k" "admissible restricted c" "funds e c" for c
        using a(2) b(1) cand that by (auto simp: improves_def)
      with b a(1) improves_trans [OF a(1) b(1)] show ?thesis by auto
    qed
  qed
qed

section \<open>What is returned\<close>

text \<open>Where a selection comes from: distinct groups that the privacy rule lets together, whose outputs in
  some order fund the payment.\<close>

definition sound_choice :: "direct_env \<Rightarrow> script_group list \<Rightarrow> bool \<Rightarrow> script_group list \<times> direct_selection \<Rightarrow> bool" where
  "sound_choice e groups restricted = (\<lambda>(gs, r). mset gs \<subseteq># mset groups \<and> admissible restricted gs \<and>
     (\<exists>us. mset us = mset (group_utxos gs) \<and> evaluate_direct_send_selection e us = Some r))"

definition sound_state :: "direct_env \<Rightarrow> script_group list \<Rightarrow> bool \<Rightarrow> search_state \<Rightarrow> bool" where
  "sound_state e groups restricted st = (case ss_best st of None \<Rightarrow> True | Some b \<Rightarrow> sound_choice e groups restricted b)"

lemma visit_groups_sound:
  assumes "visit_groups e mx sel st = (ok, st')" "sound_state e groups restricted st"
    "mset sel \<subseteq># mset groups" "admissible restricted sel"
  shows "sound_state e groups restricted st'"
proof -
  have "sound_choice e groups restricted (sel, r)"
    if "evaluate_direct_send_selection e (sort_key ui_outpoint (group_utxos sel)) = Some r" for r
    unfolding sound_choice_def using assms(3,4) that by (auto intro!: exI [of _ "sort_key ui_outpoint (group_utxos sel)"])
  with assms(1,2) show ?thesis
    by (auto simp: visit_groups_def Let_def sound_state_def split: if_splits option.splits)
qed

lemma search_group_count_sound:
  "search_group_count e mx r ys sel st = (ok, st') \<Longrightarrow> sound_state e groups restricted st \<Longrightarrow>
   mset (sel @ ys) \<subseteq># mset groups \<Longrightarrow>
   (\<forall>c \<in> set (subseqs ys). length c = r \<longrightarrow> admissible restricted (sel @ c)) \<Longrightarrow> sound_state e groups restricted st'"
proof (induction e mx r ys sel st arbitrary: ok st' rule: search_group_count.induct)
  case (1 e mx ys sel st)
  then have "mset sel \<subseteq># mset groups" by (metis mset_append mset_subset_eq_add_left subset_mset.order_trans)
  moreover from 1 have "admissible restricted sel" by force
  ultimately show ?case using 1 visit_groups_sound by auto
next
  case (2 e mx r sel st)
  then show ?case by simp
next
  case (3 e mx r g gs sel st)
  show ?case
  proof (cases "length (g # gs) < Suc r")
    case True
    with 3 show ?thesis by simp
  next
    case False
    obtain ok1 st1 where s1: "search_group_count e mx r gs (sel @ [g]) st = (ok1, st1)" by fastforce
    have sub: "mset (sel @ gs) \<subseteq># mset groups"
      by (rule subset_mset.order_trans [OF _ 3(5)]) simp
    have s: "sound_state e groups restricted st1"
      by (rule 3(1) [OF False s1 3(4)]) (use 3(5,6) in \<open>auto simp: Let_def\<close>)
    show ?thesis
    proof (cases ok1)
      case True
      with 3(3) False s1 have "search_group_count e mx (Suc r) gs sel st1 = (ok, st')" by simp
      then show ?thesis
        by (rule 3(2) [OF False s1 [symmetric] refl _ _ s sub, rotated]) (use 3(6) True in \<open>auto simp: Let_def\<close>)
    next
      case no: False
      with 3(3) False s1 s show ?thesis by simp
    qed
  qed
qed

lemma candidates_admissible:
  assumes "c \<in> set (subseqs (candidates_for groups restricted k))" "length c = k"
  shows "admissible restricted c"
proof -
  from assms(1) have "set c \<subseteq> set (candidates_for groups restricted k)"
    using list_emb_set [of "(=)" c "candidates_for groups restricted k"] by auto
  with assms(2) show ?thesis by (auto simp: admissible_def candidates_for_def list_all_iff split: if_splits)
qed

lemma search_counts_sound:
  "search_counts e mx groups restricted ks st = (ex, st') \<Longrightarrow> sound_state e groups restricted st \<Longrightarrow>
   sound_state e groups restricted st'"
proof (induction e mx groups restricted ks st arbitrary: ex st' rule: search_counts.induct)
  case (1 e mx groups restricted st)
  then show ?case by simp
next
  case (2 e mx groups restricted k ks st)
  let ?cand = "candidates_for groups restricted k"
  obtain ok st1 where s1: "search_group_count e mx k ?cand [] st = (ok, st1)" by fastforce
  have "mset ?cand \<subseteq># mset groups" by (simp add: candidates_for_def multiset_filter_subset)
  then have s: "sound_state e groups restricted st1"
    using search_group_count_sound [OF s1 2(4)] candidates_admissible by auto
  show ?case
  proof (cases "length ?cand < k")
    case True
    with 2(1) [OF refl True] 2(3,4) show ?thesis by (simp add: Let_def)
  next
    case False
    with 2(2) [OF refl False s1 [symmetric] refl] 2(3) s1 s show ?thesis
      by (auto simp: Let_def split: if_splits)
  qed
qed

lemma first_single_sound:
  "first_single e ordered = Some b \<Longrightarrow> set ordered \<subseteq> set groups \<Longrightarrow> sound_choice e groups restricted b"
  by (induction e ordered rule: first_single.induct)
     (auto simp: sound_choice_def admissible_def group_utxos_def split: option.splits)

lemma grow_groups_sound:
  "grow_groups e sel gs = Some b \<Longrightarrow> mset (sel @ gs) \<subseteq># mset groups \<Longrightarrow>
   (restricted \<longrightarrow> list_all sg_all_cj (sel @ gs)) \<Longrightarrow> sound_choice e groups restricted b"
proof (induction e sel gs rule: grow_groups.induct)
  case (1 e sel)
  then show ?case by simp
next
  case (2 e sel g gs)
  show ?case
  proof (cases "evaluate_direct_send_selection e (group_utxos (sel @ [g]))")
    case None
    then show ?thesis using 2(1) [OF None] 2(2-4) by simp
  next
    case (Some r)
    have "mset (sel @ [g]) \<subseteq># mset groups"
      by (rule subset_mset.order_trans [OF _ 2(3)]) simp
    moreover have "admissible restricted (sel @ [g])" using 2(4) by (auto simp: admissible_def)
    ultimately show ?thesis using Some 2(2) by (auto simp: sound_choice_def)
  qed
qed

lemma baseline_sound: "direct_send_greedy_baseline e groups restricted = Some b \<Longrightarrow> sound_choice e groups restricted b"
proof -
  let ?ordered = "sort_key (\<lambda>g. (- sg_value g, length (sg_utxos g), sg_script g)) groups"
  assume "direct_send_greedy_baseline e groups restricted = Some b"
  then consider "first_single e ?ordered = Some b"
    | "grow_groups e [] (if restricted then filter sg_all_cj ?ordered else ?ordered) = Some b"
    by (auto simp: direct_send_greedy_baseline_def Let_def split: option.splits)
  then show ?thesis
  proof cases
    case 1
    then show ?thesis by (rule first_single_sound) simp
  next
    case 2
    then show ?thesis
      by (rule grow_groups_sound) (auto simp: list_all_iff multiset_filter_subset)
  qed
qed

lemma evaluate_props:
  assumes "evaluate_direct_send_selection e us = Some r"
  shows "ds_utxos r = us \<and> utxo_sum us = de_amount e + ds_fee r + ds_change r \<and>
    (ds_change r \<ge> de_dust e \<and> ds_fee r = fst (estimate_direct_send_fee e us True) \<or>
     ds_change r = 0 \<and> ds_fee r \<ge> fst (estimate_direct_send_fee e us False))"
proof -
  obtain f v where "estimate_direct_send_fee e us True = (f, v)" by fastforce
  moreover obtain f' v' where "estimate_direct_send_fee e us False = (f', v')" by fastforce
  ultimately show ?thesis using assms by (auto simp: evaluate_direct_send_selection_def Let_def split: if_splits)
qed

definition direct_excluded :: "outpoint_key list \<Rightarrow> outpoint_key list" where
  "direct_excluded excluded = map (\<lambda>(txid, vout). (ascii_lower txid, vout)) excluded"

lemma select_direct_send_result:
  assumes "select_direct_send_utxos e utxos mixdepth n restrict mx excluded = Inr r"
  defines "groups \<equiv> direct_groups utxos mixdepth n (direct_excluded excluded)"
    and "restricted \<equiv> mixdepth = 0 \<and> restrict"
  shows "\<exists>gs. sound_choice e groups restricted (gs, r) \<and>
    (\<forall>c \<in> set (subseqs groups). c \<noteq> [] \<and> admissible restricted c \<and> funds e c \<longrightarrow> direct_send_score gs \<le> direct_send_score c)"
proof -
  let ?base = "direct_send_greedy_baseline e groups restricted"
  let ?limit = "case ?base of None \<Rightarrow> length groups | Some (gs, _) \<Rightarrow> length gs"
  let ?st0 = "\<lparr>ss_best = ?base, ss_nodes = 0\<rparr>"
  from assms(1) obtain st gs where st: "search_counts e (nat mx) groups restricted [1..<Suc ?limit] ?st0 = (False, st)"
    "ss_best st = Some (gs, r)"
    unfolding select_direct_send_utxos_def direct_excluded_def [symmetric] groups_def [symmetric] restricted_def [symmetric] Let_def
    by (auto simp: bind_res_Inr_iff split: if_splits prod.splits option.splits)
  have "sound_state e groups restricted ?st0"
    using baseline_sound by (auto simp: sound_state_def split: option.split)
  from search_counts_sound [OF st(1) this] have "sound_choice e groups restricted (gs, r)"
    by (simp add: sound_state_def st(2))
  moreover have "direct_send_score gs \<le> direct_send_score c"
    if c: "c \<in> set (subseqs groups)" "c \<noteq> []" "admissible restricted c" "funds e c" for c
  proof -
    have found: "improves ?st0 st" "length c \<in> set [1..<Suc ?limit] \<Longrightarrow> covers st c"
      using search_counts_False [OF st(1)] c by (auto simp del: upt_Suc)
    have "length c \<le> length groups" using c(1) by (simp only: set_subseqs_eq mem_Collect_eq list_emb_length)
    moreover have "covers st c" if "?base = Some (a, b)" "length a < length c" for a b
      using found(1) covers_shorter [of ?st0 a b c] that by (simp add: improves_def)
    ultimately have "covers st c"
      using found(2) c(2) by (cases ?base) (force simp: Suc_le_eq not_le simp del: upt_Suc)+
    then show ?thesis by (simp add: covers_def st(2))
  qed
  ultimately show ?thesis by blast
qed

text \<open>C21: when \<open>select_direct_send_utxos\<close> returns, it has found the best selection: its outputs are those
  of script groups that may be spent together, they pay the amount, the fee and the change exactly (with
  change of at least the dust threshold, or none and at least the fee without it), and no other
  admissible list of groups that can fund the payment has a better score, that is fewer groups, then
  fewer inputs, then less value.\<close>

theorem select_direct_send_optimal:
  assumes "select_direct_send_utxos e utxos mixdepth n restrict mx excluded = Inr r"
  shows "\<exists>gs. mset gs \<subseteq># mset (direct_groups utxos mixdepth n (direct_excluded excluded)) \<and>
    admissible (mixdepth = 0 \<and> restrict) gs \<and> mset (ds_utxos r) = mset (group_utxos gs) \<and>
    utxo_sum (ds_utxos r) = de_amount e + ds_fee r + ds_change r \<and>
    (ds_change r \<ge> de_dust e \<and> ds_fee r = fst (estimate_direct_send_fee e (ds_utxos r) True) \<or>
     ds_change r = 0 \<and> ds_fee r \<ge> fst (estimate_direct_send_fee e (ds_utxos r) False)) \<and>
    (\<forall>c \<in> set (subseqs (direct_groups utxos mixdepth n (direct_excluded excluded))).
       c \<noteq> [] \<and> admissible (mixdepth = 0 \<and> restrict) c \<and> funds e c \<longrightarrow> direct_send_score gs \<le> direct_send_score c)"
proof -
  let ?groups = "direct_groups utxos mixdepth n (direct_excluded excluded)" and ?restricted = "mixdepth = 0 \<and> restrict"
  obtain gs us where gs: "mset gs \<subseteq># mset ?groups" "admissible ?restricted gs" "mset us = mset (group_utxos gs)"
    "evaluate_direct_send_selection e us = Some r"
    and best: "\<forall>c \<in> set (subseqs ?groups). c \<noteq> [] \<and> admissible ?restricted c \<and> funds e c \<longrightarrow> direct_send_score gs \<le> direct_send_score c"
    using select_direct_send_result [OF assms] by (auto simp: sound_choice_def)
  from evaluate_props [OF gs(4)] gs best show ?thesis by (intro exI [of _ gs]) auto
qed

section \<open>Groups are atomic\<close>

lemma group_by_script_get:
  "dict_get (group_by_script us acc) s =
     (if s \<in> set (dict_keys acc) \<or> s \<in> ui_scriptpubkey ` set us
      then Some ((case dict_get acc s of None \<Rightarrow> [] | Some l \<Rightarrow> l) @ filter (\<lambda>u. ui_scriptpubkey u = s) us) else None)"
proof (induction us acc rule: group_by_script.induct)
  case (1 acc)
  then show ?case using dict_get_None_iff [of acc s] by (auto split: option.split)
next
  case (2 u us acc)
  have "s \<in> set (dict_keys acc) \<longleftrightarrow> dict_get acc s \<noteq> None" by (simp add: dict_get_None_iff)
  with 2 show ?case by (auto simp: dict_keys_put update_conv' split: option.splits simp del: set_map)
qed

lemma group_by_script_distinct: "distinct (dict_keys acc) \<Longrightarrow> distinct (dict_keys (group_by_script us acc))"
  by (induction us acc rule: group_by_script.induct) (auto simp: distinct_update)

lemma direct_group_members:
  assumes "g \<in> set (direct_groups utxos mixdepth n excluded)"
  shows "set (sg_utxos g) = {u \<in> set (direct_eligible utxos mixdepth n excluded). ui_scriptpubkey u = sg_script g}"
proof -
  let ?us = "direct_eligible utxos mixdepth n excluded"
  from assms obtain s l where sl: "(s, l) \<in> set (group_by_script ?us [])" "g = make_group (s, l)"
    by (auto simp: direct_groups_def)
  have "distinct (dict_keys (group_by_script ?us []))" by (rule group_by_script_distinct) simp
  with sl(1) have "dict_get (group_by_script ?us []) s = Some l" by simp
  then have "l = filter (\<lambda>u. ui_scriptpubkey u = s) ?us" by (auto simp: group_by_script_get split: if_splits)
  then show ?thesis by (auto simp: sl(2) make_group_def)
qed

lemma direct_eligible_atomic:
  assumes "u \<in> set (direct_eligible utxos mixdepth n excluded)" "v \<in> set (regular_utxos utxos mixdepth)"
    "ui_scriptpubkey v = ui_scriptpubkey u"
  shows "v \<in> set (direct_eligible utxos mixdepth n excluded)" "\<not> is_blocked n excluded v"
  using assms by (auto simp: direct_eligible_def Let_def is_blocked_def image_iff)

text \<open>C35: a direct send spends only regular outputs of the asked mixdepth, and whole script clusters: every
  regular output that shares a script with a selected one is selected with it, and none of them is frozen,
  under-confirmed or excluded.\<close>

theorem select_direct_send_atomic:
  assumes "select_direct_send_utxos e utxos mixdepth n restrict mx excluded = Inr r" and "u \<in> set (ds_utxos r)"
  shows "u \<in> set (regular_utxos utxos mixdepth) \<and>
    (\<forall>v \<in> set (regular_utxos utxos mixdepth). ui_scriptpubkey v = ui_scriptpubkey u \<longrightarrow>
       v \<in> set (ds_utxos r) \<and> \<not> is_blocked n (direct_excluded excluded) v)"
proof -
  let ?groups = "direct_groups utxos mixdepth n (direct_excluded excluded)"
  obtain gs us where gs: "mset gs \<subseteq># mset ?groups" "mset us = mset (group_utxos gs)"
    "evaluate_direct_send_selection e us = Some r"
    using select_direct_send_result [OF assms(1)] by (auto simp: sound_choice_def)
  have members: "set (ds_utxos r) = (\<Union>g \<in> set gs. set (sg_utxos g))"
    using evaluate_props [OF gs(3)] mset_eq_setD [OF gs(2)] by (simp add: group_utxos_def)
  then obtain g where g: "g \<in> set gs" "u \<in> set (sg_utxos g)" using assms(2) by auto
  have "g \<in> set ?groups" using g(1) mset_subset_eqD [OF gs(1), of g] by simp
  note gm = direct_group_members [OF this]
  from g(2) have u: "u \<in> set (direct_eligible utxos mixdepth n (direct_excluded excluded))" "ui_scriptpubkey u = sg_script g"
    by (auto simp: gm)
  have "u \<in> set (regular_utxos utxos mixdepth)" using u(1) by (auto simp: direct_eligible_def Let_def)
  moreover have "v \<in> set (ds_utxos r) \<and> \<not> is_blocked n (direct_excluded excluded) v"
    if "v \<in> set (regular_utxos utxos mixdepth)" "ui_scriptpubkey v = ui_scriptpubkey u" for v
    using direct_eligible_atomic [OF u(1) that] g(1) that(2) u(2) gm by (auto simp: members)
  ultimately show ?thesis by blast
qed

text \<open>A payment from three scripts, one of them a cluster of two outputs.\<close>

definition ex_direct_env :: direct_env where
  "ex_direct_env = \<lparr>de_lib = letters_lib, de_amount = 100000, de_destination = ''x'', de_rate = \<lparr>fr_valid = True, fr_ceil = (\<lambda>v. 2 * v)\<rparr>,
     de_dust = 546\<rparr>"

definition ex_direct_utxos :: "utxo_info list" where
  "ex_direct_utxos = [(plain_utxo ''a'' 0 60000)\<lparr>ui_scriptpubkey := ''s1''\<rparr>, (plain_utxo ''b'' 0 30000)\<lparr>ui_scriptpubkey := ''s2''\<rparr>,
     (plain_utxo ''b'' 1 80000)\<lparr>ui_scriptpubkey := ''s2''\<rparr>, (plain_utxo ''c'' 0 90000)\<lparr>ui_scriptpubkey := ''s3''\<rparr>]"

definition ex_direct :: "direct_selection res" where
  "ex_direct = select_direct_send_utxos ex_direct_env ex_direct_utxos 0 1 True 1000 []"

lemma ex_direct_ok: "select_direct_send_utxos ex_direct_env ex_direct_utxos 0 1 True 1000 [] = Inr (projr ex_direct)"
proof -
  have "\<not> isl ex_direct" by code_simp
  then show ?thesis unfolding ex_direct_def
    by (cases "select_direct_send_utxos ex_direct_env ex_direct_utxos 0 1 True 1000 []") auto
qed

theorem select_direct_send_optimal_witness:
  "utxo_sum (ds_utxos (projr ex_direct)) = 100000 + ds_fee (projr ex_direct) + ds_change (projr ex_direct)"
  using select_direct_send_optimal [OF ex_direct_ok] by (auto simp: ex_direct_env_def)

theorem select_direct_send_atomic_witness:
  "ex_direct_utxos ! 1 \<in> set (ds_utxos (projr ex_direct)) \<and> ex_direct_utxos ! 2 \<in> set (ds_utxos (projr ex_direct))"
proof -
  have 1: "ex_direct_utxos ! 1 \<in> set (ds_utxos (projr ex_direct))"
    "ex_direct_utxos ! 2 \<in> set (regular_utxos ex_direct_utxos 0)"
    "ui_scriptpubkey (ex_direct_utxos ! 2) = ui_scriptpubkey (ex_direct_utxos ! 1)" by code_simp+
  with select_direct_send_atomic [OF ex_direct_ok 1(1)] show ?thesis by blast
qed

end
