(* ===== verification/Maker_Mixdepth.thy ===== *)
theory Maker_Mixdepth
  imports Py_Dict "HOL-Library.Product_Lexorder"
begin

text \<open>
  The order in which a maker tries its mixdepths, \<open>maker/src/maker/mixdepth_selection.py\<close>. The set of
  remaining depths is kept as its sorted list; the type checks of \<open>_validate_inputs\<close> that the model's
  types rule out are left out.
\<close>

datatype mixdepth_policy = BALANCED | CONCENTRATED

definition validate_inputs :: "(int, int) dict \<Rightarrow> int \<Rightarrow> unit res" where
  "validate_inputs eligible mixdepth_count =
     raise_if ((mixdepth_count < 1, ''mixdepth_count must be a positive integer'') #
       concat (map (\<lambda>(mixdepth, balance).
         [(\<not> (0 \<le> mixdepth \<and> mixdepth < mixdepth_count), ''eligible mixdepth is outside the range''),
          (balance < 0, ''balance must be a non-negative integer'')]) eligible))"

text \<open>\<open>max(range(len(ordered)), key=intervals.__getitem__)\<close> takes the first of the largest.\<close>

fun first_max :: "(int \<times> int) list \<Rightarrow> int \<times> int \<Rightarrow> int \<times> int" where
  "first_max [] best = best"
| "first_max (x # xs) best = first_max xs (if fst x > fst best then x else best)"

definition gap_intervals :: "int list \<Rightarrow> int \<Rightarrow> int list" where
  "gap_intervals ordered n = (n + hd ordered - last ordered) # map (\<lambda>(a, b). b - a) (zip ordered (tl ordered))"

definition select_largest_cyclic_gap_end :: "int list \<Rightarrow> int \<Rightarrow> int" where
  "select_largest_cyclic_gap_end ordered n =
     (let pairs = zip (gap_intervals ordered n) ordered in snd (first_max (tl pairs) (hd pairs)))"

function concentrated_order :: "int list \<Rightarrow> int \<Rightarrow> int list" where
  "concentrated_order remaining n =
     (if remaining = [] then []
      else let candidate = select_largest_cyclic_gap_end remaining n
           in candidate # concentrated_order (remove1 candidate remaining) n)"
  by pat_completeness auto

definition balanced_order :: "(int, int) dict \<Rightarrow> int list" where
  "balanced_order eligible = map fst (sort_key (\<lambda>(depth, balance). (- balance, depth)) eligible)"

lemma first_max_in: "first_max xs best \<in> insert best (set xs)"
proof (induction xs arbitrary: best)
  case Nil
  then show ?case by simp
next
  case (Cons y ys)
  show ?case using Cons.IH [of "if fst y > fst best then y else best"] by (auto split: if_splits)
qed

lemma first_max_ge: "x \<in> insert best (set xs) \<Longrightarrow> fst x \<le> fst (first_max xs best)"
proof (induction xs arbitrary: x best)
  case Nil
  then show ?case by simp
next
  case (Cons y ys)
  define b where "b = (if fst y > fst best then y else best)"
  have 1: "fst b \<le> fst (first_max ys b)" by (rule Cons.IH) simp
  have 2: "fst x \<le> fst (first_max ys b)" if "x \<in> set ys" using that by (intro Cons.IH) simp
  have "x = best \<or> x = y \<Longrightarrow> fst x \<le> fst b" by (auto simp: b_def)
  with 1 2 Cons.prems have "fst x \<le> fst (first_max ys b)" by (meson insertE order_trans set_ConsD)
  then show ?case by (simp add: b_def)
qed

lemma gap_pairs:
  assumes "ordered \<noteq> []"
  shows "zip (gap_intervals ordered n) ordered = (n + hd ordered - last ordered, hd ordered) #
    map (\<lambda>(a, b). (b - a, b)) (zip ordered (tl ordered))"
proof -
  have "zip (map (\<lambda>(a, b). b - a) (zip xs ys)) ys = map (\<lambda>(a, b). (b - a, b)) (zip xs ys)" if "length ys \<le> length xs" for xs ys :: "int list"
    using that by (intro nth_equalityI) auto
  from this [of "tl ordered" ordered] assms show ?thesis
    by (cases ordered) (simp_all add: gap_intervals_def)
qed

lemma select_in:
  assumes "ordered \<noteq> []"
  shows "select_largest_cyclic_gap_end ordered n \<in> set ordered"
proof -
  obtain p ps where p: "zip (gap_intervals ordered n) ordered = p # ps"
    using gap_pairs [OF assms] by simp
  have "set (p # ps) \<subseteq> UNIV \<times> set ordered"
    unfolding p [symmetric] by (auto dest: set_zip_rightD)
  with first_max_in [of ps p] show ?thesis
    by (auto simp: select_largest_cyclic_gap_end_def Let_def p)
qed

termination concentrated_order
  by (relation "measure (\<lambda>(remaining, _). length remaining)")
     (auto simp: length_remove1 select_in length_greater_0_conv)

declare concentrated_order.simps [simp del]

definition mixdepth_attempt_order :: "(int, int) dict \<Rightarrow> int \<Rightarrow> mixdepth_policy \<Rightarrow> int list res" where
  "mixdepth_attempt_order eligible mixdepth_count policy =
     bind_res (validate_inputs eligible mixdepth_count) (\<lambda>_.
       Inr (case policy of BALANCED \<Rightarrow> balanced_order eligible
            | CONCENTRATED \<Rightarrow> concentrated_order (sort (dict_keys eligible)) mixdepth_count))"

section \<open>What the order is\<close>

text \<open>The distance from a depth back to the previous available one, around the circle.\<close>

definition cyclic_gap :: "int set \<Rightarrow> int \<Rightarrow> int \<Rightarrow> int" where
  "cyclic_gap S n d = (if d = Min S then n + d - Max S else d - Max {x \<in> S. x < d})"

lemma sorted_prev:
  fixes ordered :: "int list"
  assumes "sorted_wrt (<) ordered" "(a, b) \<in> set (zip ordered (tl ordered))"
  shows "Max {x \<in> set ordered. x < b} = a" "a < b" "a \<in> set ordered"
proof -
  obtain i where i: "i < length (tl ordered)" "a = ordered ! i" "b = ordered ! Suc i"
    using assms(2) by (auto simp: set_zip nth_tl)
  then have "Suc i < length ordered" by simp
  with i have ord: "ordered ! j < ordered ! k \<longleftrightarrow> j < k" if "j < length ordered" "k < length ordered" for j k
    using assms(1) that by (metis linorder_neqE_nat not_less_iff_gr_or_eq sorted_wrt_nth_less)
  show "a < b" "a \<in> set ordered" using i \<open>Suc i < length ordered\<close> ord [of i "Suc i"] by auto
  show "Max {x \<in> set ordered. x < b} = a"
  proof (rule Max_eqI)
    show "a \<in> {x \<in> set ordered. x < b}" using \<open>a < b\<close> \<open>a \<in> set ordered\<close> by simp
    fix x assume "x \<in> {x \<in> set ordered. x < b}"
    then obtain j where "j < length ordered" "x = ordered ! j" "j < Suc i"
      using i \<open>Suc i < length ordered\<close> ord by (auto simp: in_set_conv_nth)
    then show "x \<le> a" using i ord [of j i] \<open>Suc i < length ordered\<close> by (cases "j = i") auto
  qed simp
qed

lemma le_last: "sorted_wrt (<) xs \<Longrightarrow> x \<in> set xs \<Longrightarrow> x \<le> last xs" for xs :: "int list"
  by (induction xs) (auto dest: last_in_set split: if_splits intro: less_imp_le)

lemma gap_pairs_spec:
  assumes "sorted_wrt (<) ordered" "ordered \<noteq> []"
  shows "set (zip (gap_intervals ordered n) ordered) = (\<lambda>d. (cyclic_gap (set ordered) n d, d)) ` set ordered"
proof -
  obtain x xs where x: "ordered = x # xs" using assms(2) by (cases ordered) auto
  have min: "Min (set ordered) = hd ordered" using assms(1) by (intro Min_eqI) (auto simp: x)
  have max: "Max (set ordered) = last ordered"
    using assms by (intro Max_eqI) (auto simp: le_last)
  have "(b - a, b) = (cyclic_gap (set ordered) n b, b)" if "(a, b) \<in> set (zip ordered (tl ordered))" for a b
    using sorted_prev [OF assms(1) that] assms(1) min that by (auto simp: cyclic_gap_def x dest: set_zip_rightD)
  then have "set (map (\<lambda>(a, b). (b - a, b)) (zip ordered (tl ordered)))
      = (\<lambda>d. (cyclic_gap (set ordered) n d, d)) ` snd ` set (zip ordered (tl ordered))"
    by (force simp: image_iff)
  also have "snd ` set (zip ordered (tl ordered)) = set (tl ordered)"
    using arg_cong [of _ _ set, OF map_snd_zip_take [of ordered "tl ordered"]] by (simp add: x)
  finally have rest: "set (map (\<lambda>(a, b). (b - a, b)) (zip ordered (tl ordered)))
      = (\<lambda>d. (cyclic_gap (set ordered) n d, d)) ` set (tl ordered)" .
  have first: "n + hd ordered - last ordered = cyclic_gap (set ordered) n (hd ordered)"
    by (simp add: cyclic_gap_def min max)
  have "set ordered = insert (hd ordered) (set (tl ordered))" by (simp add: x)
  then have "(\<lambda>d. (cyclic_gap (set ordered) n d, d)) ` set ordered
      = insert (cyclic_gap (set ordered) n (hd ordered), hd ordered) ((\<lambda>d. (cyclic_gap (set ordered) n d, d)) ` set (tl ordered))"
    by (metis (no_types, lifting) image_insert)
  then show ?thesis unfolding gap_pairs [OF assms(2)] list.set(2) rest first by (rule sym)
qed

text \<open>Each turn takes a depth with the largest gap behind it.\<close>

lemma select_largest:
  assumes "sorted_wrt (<) ordered" "d \<in> set ordered"
  shows "cyclic_gap (set ordered) n d \<le> cyclic_gap (set ordered) n (select_largest_cyclic_gap_end ordered n)"
proof -
  have ne: "ordered \<noteq> []" using assms(2) by auto
  obtain p ps where p: "zip (gap_intervals ordered n) ordered = p # ps" using gap_pairs [OF ne] by simp
  note spec = gap_pairs_spec [OF assms(1) ne, of n, unfolded p]
  have "(cyclic_gap (set ordered) n d, d) \<in> insert p (set ps)"
    using assms(2) spec by (auto simp flip: list.set(2))
  from first_max_ge [OF this] have ge: "cyclic_gap (set ordered) n d \<le> fst (first_max ps p)" by simp
  have "first_max ps p \<in> set (p # ps)" using first_max_in [of ps p] by simp
  then have "fst (first_max ps p) = cyclic_gap (set ordered) n (snd (first_max ps p))" unfolding spec by auto
  with ge show ?thesis by (simp add: select_largest_cyclic_gap_end_def Let_def p)
qed

text \<open>A run of choices of largest gaps from a set of depths.\<close>

fun largest_gaps_first :: "int set \<Rightarrow> int \<Rightarrow> int list \<Rightarrow> bool" where
  "largest_gaps_first S n [] \<longleftrightarrow> S = {}"
| "largest_gaps_first S n (d # ds) \<longleftrightarrow>
     d \<in> S \<and> (\<forall>d' \<in> S. cyclic_gap S n d' \<le> cyclic_gap S n d) \<and> largest_gaps_first (S - {d}) n ds"

lemma concentrated_order_spec:
  "sorted_wrt (<) remaining \<Longrightarrow> largest_gaps_first (set remaining) n (concentrated_order remaining n) \<and>
   mset (concentrated_order remaining n) = mset remaining"
proof (induction remaining n rule: concentrated_order.induct)
  case (1 remaining n)
  show ?case
  proof (cases "remaining = []")
    case True
    then show ?thesis by (simp add: concentrated_order.simps)
  next
    case False
    define c where "c = select_largest_cyclic_gap_end remaining n"
    have c: "c \<in> set remaining" "\<forall>d \<in> set remaining. cyclic_gap (set remaining) n d \<le> cyclic_gap (set remaining) n c"
      using select_in [OF False] select_largest [OF 1(2)] by (auto simp: c_def)
    have s: "sorted_wrt (<) (remove1 c remaining)" "set (remove1 c remaining) = set remaining - {c}"
      using 1(2) strict_sorted_iff [of remaining] by (auto simp: strict_sorted_iff sorted_remove1 distinct_remove1)
    have "concentrated_order remaining n = c # concentrated_order (remove1 c remaining) n"
      using False by (subst concentrated_order.simps) (simp add: c_def Let_def)
    with 1(1) [OF False c_def s(1)] c s(2) show ?thesis by simp
  qed
qed

text \<open>C36: on a dictionary of valid balances the maker tries every eligible mixdepth exactly once. Under the
  balanced policy the larger balance comes first, and the smaller depth on a tie; under the
  concentrated policy each turn takes a depth with the largest cyclic gap to the previous one that is
  still available.\<close>

theorem mixdepth_attempt_order_spec:
  assumes "mixdepth_attempt_order eligible mixdepth_count policy = Inr ds" "distinct (dict_keys eligible)"
  shows "mset ds = mset (dict_keys eligible) \<and>
    (policy = BALANCED \<longrightarrow> sorted_wrt (\<lambda>a b. (- the (dict_get eligible a), a) \<le> (- the (dict_get eligible b), b)) ds) \<and>
    (policy = CONCENTRATED \<longrightarrow> largest_gaps_first (set (dict_keys eligible)) mixdepth_count ds)"
proof (cases policy)
  case BALANCED
  let ?key = "\<lambda>(depth, balance). (- balance, depth :: int) :: int \<times> int"
  from assms(1) BALANCED have ds: "ds = map fst (sort_key ?key eligible)"
    by (auto simp: mixdepth_attempt_order_def bind_res_Inr_iff balanced_order_def)
  have "sorted_wrt (\<lambda>x y. ?key x \<le> ?key y) (sort_key ?key eligible)"
    using sorted_sort_key [of ?key eligible] by (simp add: sorted_map)
  moreover have "?key x = (- the (dict_get eligible (fst x)), fst x)" if "x \<in> set eligible" for x
    using map_of_is_SomeI [OF assms(2), of "fst x" "snd x"] that by (simp add: case_prod_unfold)
  ultimately have "sorted_wrt (\<lambda>x y. (- the (dict_get eligible (fst x)), fst x) \<le> (- the (dict_get eligible (fst y)), fst y))
      (sort_key ?key eligible)"
    by (auto elim!: sorted_wrt_mono_rel [rotated])
  then show ?thesis by (simp add: ds BALANCED sorted_wrt_map)
next
  case CONCENTRATED
  with assms(1) have ds: "ds = concentrated_order (sort (dict_keys eligible)) mixdepth_count"
    by (auto simp: mixdepth_attempt_order_def bind_res_Inr_iff)
  have "sorted_wrt (<) (sort (dict_keys eligible))" using assms(2) by (simp add: strict_sorted_iff)
  from concentrated_order_spec [OF this, of mixdepth_count] show ?thesis by (simp add: ds CONCENTRATED)
qed

theorem mixdepth_attempt_order_spec_witness:
  "mixdepth_attempt_order [(0, 10), (1, 50), (3, 20)] 5 CONCENTRATED = Inr [0, 1, 3] \<and>
   largest_gaps_first {0, 1, 3} 5 [0, 1, 3]"
proof -
  have "mixdepth_attempt_order [(0, 10), (1, 50), (3, 20)] 5 CONCENTRATED = Inr [0, 1, 3]" by code_simp
  with mixdepth_attempt_order_spec [OF this] show ?thesis by simp
qed

end
