(* ===== verification/Py_Text.thy ===== *)
theory Py_Text
  imports Jm_Prelude Py_Numeric "HOL-Library.List_Lexorder" "HOL-Library.Char_ord"
begin

text \<open>
  Python strings as the wire formats use them: \<open>str.split(sep)\<close> with a separator of one character,
  \<open>str.split()\<close> on white space, \<open>sep.join\<close>, \<open>str.isprintable\<close>, \<open>str.isspace\<close> and \<open>startswith\<close>.
  A character is one of the first 256 code points. The order on strings is the order of code points, as
  \<open>sorted\<close> uses it, so \<open>sorted_list_of_set\<close> is \<open>sorted\<close> on a set of strings.
\<close>

named_theorems text_simps \<open>splitting and joining\<close>

fun split_on :: "char \<Rightarrow> string \<Rightarrow> string list" where
  "split_on c [] = [[]]"
| "split_on c (x # xs) =
     (if x = c then [] # split_on c xs
      else case split_on c xs of [] \<Rightarrow> [[x]] | p # ps \<Rightarrow> (x # p) # ps)"

fun join_with :: "string \<Rightarrow> string list \<Rightarrow> string" where
  "join_with sep [] = []"
| "join_with sep [p] = p"
| "join_with sep (p # q # ps) = p @ sep @ join_with sep (q # ps)"

definition isspace_char :: "char \<Rightarrow> bool" where
  "isspace_char c = (str_space c \<or> (of_char c :: nat) = 133 \<or> (of_char c :: nat) = 160)"

definition isprintable_char :: "char \<Rightarrow> bool" where
  "isprintable_char c =
     (let n = (of_char c :: nat) in (32 \<le> n \<and> n \<le> 126) \<or> (161 \<le> n \<and> n \<noteq> 173))"

definition isascii :: "string \<Rightarrow> bool" where
  "isascii s = list_all (\<lambda>c. (of_char c :: nat) < 128) s"

text \<open>\<open>s.split()\<close>: the maximal runs of characters that are not white space.\<close>

fun split_ws :: "string \<Rightarrow> string list" where
  "split_ws [] = []"
| "split_ws (c # cs) =
     (if isspace_char c then split_ws cs
      else case cs of
             [] \<Rightarrow> [[c]]
           | d # ds \<Rightarrow> if isspace_char d then [c] # split_ws cs
                     else case split_ws cs of [] \<Rightarrow> [[c]] | w # ws \<Rightarrow> (c # w) # ws)"

section \<open>Splitting and joining\<close>

lemma split_on_nonempty [simp]: "split_on c s \<noteq> []"
  by (induction s) (auto split: list.splits)

lemma split_on_free: "c \<notin> set s \<Longrightarrow> split_on c s = [s]"
  by (induction s) auto

lemma split_on_append: "c \<notin> set p \<Longrightarrow> split_on c (p @ c # s) = p # split_on c s"
  by (induction p) auto

lemma join_with_Cons: "ps \<noteq> [] \<Longrightarrow> join_with sep (p # ps) = p @ sep @ join_with sep ps"
  by (cases ps) auto

lemma join_split [text_simps]: "join_with [c] (split_on c s) = s"
proof (induction s)
  case Nil
  then show ?case by simp
next
  case (Cons x xs)
  obtain p ps where "split_on c xs = p # ps" by (cases "split_on c xs") auto
  with Cons show ?case by (cases ps) auto
qed

lemma split_join:
  "ps \<noteq> [] \<Longrightarrow> \<forall>p \<in> set ps. c \<notin> set p \<Longrightarrow> split_on c (join_with [c] ps) = ps"
proof (induction ps rule: induct_list012)
  case (3 p q ps)
  then show ?case using split_on_append [of c p] by (simp add: join_with_Cons)
qed (auto simp: split_on_free)

lemma split_on_parts_free: "p \<in> set (split_on c s) \<Longrightarrow> c \<notin> set p"
proof (induction s arbitrary: p)
  case Nil
  then show ?case by simp
next
  case (Cons x xs)
  obtain q qs where "split_on c xs = q # qs" by (cases "split_on c xs") auto
  with Cons show ?case by (auto split: if_splits)
qed

lemma split_on_chars: "p \<in> set (split_on c s) \<Longrightarrow> set p \<subseteq> set s"
proof (induction s arbitrary: p)
  case Nil
  then show ?case by simp
next
  case (Cons x xs)
  obtain q qs where "split_on c xs = q # qs" by (cases "split_on c xs") auto
  with Cons show ?case by (fastforce split: if_splits)
qed

lemma set_join_with: "x \<in> set (join_with sep ps) \<Longrightarrow> x \<in> set sep \<or> (\<exists>p \<in> set ps. x \<in> set p)"
  by (induction ps rule: induct_list012) auto

lemma join_with_empty_iff: "[] \<notin> set ps \<Longrightarrow> join_with sep ps = [] \<longleftrightarrow> ps = []"
  by (induction ps rule: induct_list012) auto

lemma strip_clean:
  assumes "\<And>c. c \<in> set s \<Longrightarrow> \<not> str_space c"
  shows "strip s = s"
proof (cases "s = []")
  case True
  then show ?thesis by (simp add: strip_def)
next
  case False
  with assms show ?thesis by (intro strip_id) auto
qed

section \<open>Numbers\<close>

text \<open>A decimal text below this bound has at most 4300 digits, the most \<open>int(str)\<close> reads.\<close>

definition int_limit :: nat where
  "int_limit = 10 ^ 4300"

lemma num_digits_int_limit: "n < int_limit \<Longrightarrow> num_digits n \<le> 4300"
  unfolding int_limit_def by (erule num_digits_le) (rule zero_less_numeral)

lemma py_int_nat_digits:
  assumes "n < int_limit"
  shows "py_int (nat_digits n) = Some (int n)"
proof -
  have "length (nat_digits n) \<le> 4300" using num_digits_int_limit [OF assms] by (simp add: num_digits_def)
  then show ?thesis
    by (simp add: py_int_digits nat_digits_digits nat_digits_not_Nil digits_nat_nat_digits)
qed

lemma py_int_str_of_int: "0 \<le> n \<Longrightarrow> nat n < int_limit \<Longrightarrow> py_int (str_of_int n) = Some n"
  by (simp add: str_of_int_def py_int_nat_digits)

lemma str_of_int_digits: "0 \<le> n \<Longrightarrow> c \<in> set (str_of_int n) \<Longrightarrow> is_digit c"
  using nat_digits_digits [of "nat n"] by (simp add: str_of_int_def list_all_iff)

lemma lt_int_limit:
  assumes "n < 10 ^ k" "k \<le> 4300"
  shows "n < int_limit"
proof -
  note assms(1)
  also have "(10::nat) ^ k \<le> int_limit" unfolding int_limit_def by (rule power_increasing [OF assms(2)]) simp
  finally show ?thesis .
qed

end
