(* ===== verification/Py_Json.thy ===== *)
theory Py_Json
  imports Py_Text Py_Dict
begin

text \<open>
  The values \<open>json.loads\<close> returns, with the Python operations the protocol code applies to them:
  truth value, \<open>dict.get\<close>, \<open>isinstance\<close>, \<open>is True\<close>. A float is kept as \<open>m * 2 ^ e\<close>, an infinity
  or a NaN. An object is a dictionary in insertion order.
\<close>

datatype pyfloat = FNaN | FInf bool | FFin int int

datatype json =
    JNull
  | JBool bool
  | JInt int
  | JFloat pyfloat
  | JStr string
  | JArr "json list"
  | JObj "(string \<times> json) list"

type_synonym json_dict = "(string, json) dict"

fun truthy :: "json \<Rightarrow> bool" where
  "truthy JNull = False"
| "truthy (JBool b) = b"
| "truthy (JInt n) = (n \<noteq> 0)"
| "truthy (JFloat (FFin m _)) = (m \<noteq> 0)"
| "truthy (JFloat _) = True"
| "truthy (JStr s) = (s \<noteq> [])"
| "truthy (JArr xs) = (xs \<noteq> [])"
| "truthy (JObj d) = (d \<noteq> [])"

text \<open>\<open>d.get(k, default)\<close> and \<open>d.get(k)\<close>.\<close>

definition get_or :: "json_dict \<Rightarrow> string \<Rightarrow> json \<Rightarrow> json" where
  "get_or d k v = (case dict_get d k of None \<Rightarrow> v | Some x \<Rightarrow> x)"

abbreviation get_none :: "json_dict \<Rightarrow> string \<Rightarrow> json" where
  "get_none d k \<equiv> get_or d k JNull"

text \<open>The numeric value compared with an integer: \<open>True\<close> and \<open>False\<close> are 1 and 0; \<open>None\<close> is \<open>TypeError\<close>.\<close>

fun num_eq_int :: "json \<Rightarrow> int \<Rightarrow> bool option" where
  "num_eq_int (JBool b) n = Some (n = (if b then 1 else 0))"
| "num_eq_int (JInt m) n = Some (m = n)"
| "num_eq_int (JFloat (FFin m e)) n =
     Some (if e \<ge> 0 then m * 2 ^ nat e = n else m = n * 2 ^ nat (- e))"
| "num_eq_int (JFloat _) n = Some False"
| "num_eq_int _ n = None"

text \<open>The keys of a dictionary whose value \<open>is True\<close>.\<close>

definition true_keys :: "json_dict \<Rightarrow> string set" where
  "true_keys d = set (map fst (filter (\<lambda>kv. snd kv = JBool True) d))"

lemma finite_true_keys [simp]: "finite (true_keys d)"
  by (simp add: true_keys_def)

lemma true_keys_iff: "distinct (dict_keys d) \<Longrightarrow> k \<in> true_keys d \<longleftrightarrow> dict_get d k = Some (JBool True)"
  by (force simp: true_keys_def dest: map_of_SomeD)

end
