(* ===== verification/Jm_Protocol.thy ===== *)
theory Jm_Protocol
  imports Py_Json Py_Bytes
begin

text \<open>
  The wire protocol of \<open>jmcore/protocol.py\<close>: feature sets, the values a peerlist may carry, extended
  UTXO metadata, peer locations, peerlist entries, message framing and handshake payloads.
  A \<open>FeatureSet\<close> is the finite set of its feature names.
\<close>

section \<open>Constants\<close>

definition JM_VERSION :: int where
  "JM_VERSION = 5"

definition COMMAND_PREFIX :: char where
  "COMMAND_PREFIX = CHR ''!''"

definition NICK_PEERLOCATOR_SEPARATOR :: char where
  "NICK_PEERLOCATOR_SEPARATOR = CHR '';''"

definition NOT_SERVING_ONION_HOSTNAME :: string where
  "NOT_SERVING_ONION_HOSTNAME = ''NOT-SERVING-ONION''"

datatype message_type =
    PRIVMSG | PUBMSG | PEERLIST | GETPEERLIST | HANDSHAKE | DN_HANDSHAKE | PING | PONG | DISCONNECT
  | NICK_AUTH_CHALLENGE | NICK_AUTH_PROOF | NICK_AUTH_RESULT | CONNECT | CONNECT_IN

fun message_type_value :: "message_type \<Rightarrow> int" where
  "message_type_value PRIVMSG = 685"
| "message_type_value PUBMSG = 687"
| "message_type_value PEERLIST = 789"
| "message_type_value GETPEERLIST = 791"
| "message_type_value HANDSHAKE = 793"
| "message_type_value DN_HANDSHAKE = 795"
| "message_type_value PING = 798"
| "message_type_value PONG = 799"
| "message_type_value DISCONNECT = 801"
| "message_type_value NICK_AUTH_CHALLENGE = 803"
| "message_type_value NICK_AUTH_PROOF = 805"
| "message_type_value NICK_AUTH_RESULT = 807"
| "message_type_value CONNECT = 785"
| "message_type_value CONNECT_IN = 797"

section \<open>Values a peerlist may carry\<close>

definition peerlist_field_delimiters :: "char set" where
  "peerlist_field_delimiters = {CHR '','', NICK_PEERLOCATOR_SEPARATOR, COMMAND_PREFIX}"

definition feature_identifier_delimiters :: "char set" where
  "feature_identifier_delimiters = insert (CHR ''+'') peerlist_field_delimiters"

definition is_safe_peerlist_value :: "string \<Rightarrow> char set \<Rightarrow> bool" where
  "is_safe_peerlist_value v delimiters =
     (v \<noteq> [] \<and> list_all (\<lambda>c. c \<notin> delimiters \<and> isprintable_char c \<and> \<not> isspace_char c) v)"

definition is_safe_peerlist_nick :: "string \<Rightarrow> bool" where
  "is_safe_peerlist_nick nick = is_safe_peerlist_value nick peerlist_field_delimiters"

definition is_safe_peerlist_location :: "string \<Rightarrow> bool" where
  "is_safe_peerlist_location location = is_safe_peerlist_value location peerlist_field_delimiters"

definition is_safe_peerlist_feature :: "string \<Rightarrow> bool" where
  "is_safe_peerlist_feature feature = is_safe_peerlist_value feature feature_identifier_delimiters"

text \<open>The same tests on an arbitrary value: \<open>isinstance(value, str)\<close> first.\<close>

definition safe_json :: "(string \<Rightarrow> bool) \<Rightarrow> json \<Rightarrow> bool" where
  "safe_json p v = (case v of JStr s \<Rightarrow> p s | _ \<Rightarrow> False)"

section \<open>Feature sets\<close>

type_synonym feature_set = "string set"

definition FEATURE_NEUTRINO_COMPAT :: string where
  "FEATURE_NEUTRINO_COMPAT = ''neutrino_compat''"

definition FEATURE_PUSH_ENCRYPTED :: string where
  "FEATURE_PUSH_ENCRYPTED = ''push_encrypted''"

definition FEATURE_PRIVATE_CHANNEL_RING :: string where
  "FEATURE_PRIVATE_CHANNEL_RING = ''private_channel_ring''"

definition FEATURE_PEERLIST_FEATURES :: string where
  "FEATURE_PEERLIST_FEATURES = ''peerlist_features''"

definition FEATURE_PING :: string where
  "FEATURE_PING = ''ping''"

definition FEATURE_DIRECT_PING_V1 :: string where
  "FEATURE_DIRECT_PING_V1 = ''direct_ping_v1''"

definition FEATURE_NICK_AUTH :: string where
  "FEATURE_NICK_AUTH = ''nick_auth''"

definition FEATURE_DEPENDENCIES :: "(string, string list) dict" where
  "FEATURE_DEPENDENCIES =
     [(FEATURE_NEUTRINO_COMPAT, []), (FEATURE_PUSH_ENCRYPTED, []), (FEATURE_PRIVATE_CHANNEL_RING, []),
      (FEATURE_PEERLIST_FEATURES, []), (FEATURE_PING, []), (FEATURE_DIRECT_PING_V1, []),
      (FEATURE_NICK_AUTH, [])]"

definition bad_feature :: pyerr where
  "bad_feature = ValueError ''Invalid feature identifier''"

definition features_from_handshake :: "json_dict \<Rightarrow> feature_set res" where
  "features_from_handshake hs =
     (case get_or hs ''features'' (JObj []) of
        JObj d \<Rightarrow> if list_all is_safe_peerlist_feature (dict_keys d) then Inr (true_keys d)
                  else Inl bad_feature
      | _ \<Rightarrow> Inl bad_feature)"

definition features_from_list :: "string list \<Rightarrow> feature_set res" where
  "features_from_list xs =
     (if list_all is_safe_peerlist_feature xs then Inr (set xs) else Inl bad_feature)"

definition features_from_comma_string :: "string \<Rightarrow> feature_set res" where
  "features_from_comma_string s =
     (if s = [] \<or> strip s = [] then Inr {}
      else let sep = (if CHR ''+'' \<in> set s then CHR ''+'' else CHR '','');
               fs = filter (\<lambda>f. f \<noteq> []) (split_on sep s)
           in if list_all is_safe_peerlist_feature fs then Inr (set fs) else Inl bad_feature)"

definition features_to_dict :: "feature_set \<Rightarrow> json_dict" where
  "features_to_dict fs = map (\<lambda>f. (f, JBool True)) (sorted_list_of_set fs)"

definition features_to_comma_string :: "feature_set \<Rightarrow> string res" where
  "features_to_comma_string fs =
     (if \<forall>f \<in> fs. is_safe_peerlist_feature f then Inr (join_with ''+'' (sorted_list_of_set fs))
      else Inl bad_feature)"

text \<open>\<open>validate_dependencies\<close>: whether every required feature of a member is a member.\<close>

definition validate_dependencies :: "feature_set \<Rightarrow> bool" where
  "validate_dependencies fs =
     (\<forall>f \<in> fs. list_all (\<lambda>d. d \<in> fs)
        (case dict_get FEATURE_DEPENDENCIES f of None \<Rightarrow> [] | Some ds \<Rightarrow> ds))"

definition features_intersection :: "feature_set \<Rightarrow> feature_set \<Rightarrow> feature_set" where
  "features_intersection a b = a \<inter> b"

text \<open>\<open>RequiredFeatures.is_compatible\<close>\<close>

definition is_compatible :: "string set \<Rightarrow> feature_set \<Rightarrow> bool" where
  "is_compatible required peer_features = (required - peer_features = {})"

definition peer_supports_neutrino_compat :: "json_dict \<Rightarrow> bool res" where
  "peer_supports_neutrino_compat hs =
     (case get_or hs ''features'' (JObj []) of
        JObj d \<Rightarrow> Inr (get_none d FEATURE_NEUTRINO_COMPAT = JBool True)
      | _ \<Rightarrow> Inl AttributeError)"

section \<open>Nicks\<close>

text \<open>\<open>str.isdigit\<close> also holds of the superscripts one, two and three, which \<open>int\<close> refuses.\<close>

definition isdigit_char :: "char \<Rightarrow> bool" where
  "isdigit_char c = (is_digit c \<or> (of_char c :: nat) \<in> {178, 179, 185})"

definition get_nick_version :: "string \<Rightarrow> int res" where
  "get_nick_version nick =
     (case nick of
        a # b # _ \<Rightarrow>
          if a = CHR ''J'' \<and> isdigit_char b
          then case py_int [b] of Some n \<Rightarrow> Inr n | None \<Rightarrow> Inl (ValueError ''invalid literal for int()'')
          else Inr JM_VERSION
      | _ \<Rightarrow> Inr JM_VERSION)"

definition in_range :: "char \<Rightarrow> char \<Rightarrow> char \<Rightarrow> bool" where
  "in_range a b c = ((of_char a :: nat) \<le> of_char c \<and> (of_char c :: nat) \<le> of_char b)"

definition NICK_MAX_ENCODED :: nat where
  "NICK_MAX_ENCODED = 14"

definition nick_hash_char :: "char \<Rightarrow> bool" where
  "nick_hash_char c =
     (in_range (CHR ''1'') (CHR ''9'') c \<or> in_range (CHR ''A'') (CHR ''H'') c \<or>
      in_range (CHR ''J'') (CHR ''N'') c \<or> in_range (CHR ''P'') (CHR ''Z'') c \<or>
      in_range (CHR ''a'') (CHR ''k'') c \<or> in_range (CHR ''m'') (CHR ''z'') c \<or> c = CHR ''O'')"

definition is_valid_nick :: "string \<Rightarrow> bool" where
  "is_valid_nick nick =
     (case nick of
        a # b # cs \<Rightarrow> a = CHR ''J'' \<and> is_digit b \<and> length cs = NICK_MAX_ENCODED \<and> list_all nick_hash_char cs
      | _ \<Rightarrow> False)"

section \<open>Messages\<close>

definition format_jm_message :: "string \<Rightarrow> string \<Rightarrow> string \<Rightarrow> string \<Rightarrow> string" where
  "format_jm_message from_nick to_nick cmd message =
     from_nick @ [COMMAND_PREFIX] @ to_nick @ [COMMAND_PREFIX] @ cmd @ '' '' @ message"

definition parse_jm_message :: "string \<Rightarrow> (string \<times> string \<times> string) option" where
  "parse_jm_message msg =
     (case split_on COMMAND_PREFIX msg of
        a # b # c # rest \<Rightarrow> Some (a, b, join_with [COMMAND_PREFIX] (c # rest))
      | _ \<Rightarrow> None)"

section \<open>Peerlist entries\<close>

definition create_peerlist_entry ::
  "string \<Rightarrow> string \<Rightarrow> bool \<Rightarrow> feature_set option \<Rightarrow> string res" where
  "create_peerlist_entry nick location disconnected features =
     bind_res (raise_if
       [(\<not> is_safe_peerlist_nick nick, ''Invalid peerlist nickname''),
        (\<not> is_safe_peerlist_location location, ''Invalid peerlist location'')]) (\<lambda>_.
     let entry = nick @ [NICK_PEERLOCATOR_SEPARATOR] @ location
                 @ (if disconnected then NICK_PEERLOCATOR_SEPARATOR # ''D'' else [])
     in case features of
          None \<Rightarrow> Inr entry
        | Some fs \<Rightarrow>
            if fs = {} then Inr entry
            else bind_res (features_to_comma_string fs) (\<lambda>s.
                 Inr (entry @ [NICK_PEERLOCATOR_SEPARATOR] @ ''F:'' @ s)))"

fun parse_entry_parts :: "string list \<Rightarrow> bool \<Rightarrow> feature_set \<Rightarrow> (bool \<times> feature_set) res" where
  "parse_entry_parts [] d fs = Inr (d, fs)"
| "parse_entry_parts (part # parts) d fs =
     (if part = ''D'' then parse_entry_parts parts True fs
      else if take 2 part = ''F:'' then
        (if CHR '','' \<in> set (drop 2 part) then Inl (ValueError ''Invalid peerlist feature identifier'')
         else bind_res (features_from_comma_string (drop 2 part)) (\<lambda>fs'. parse_entry_parts parts d fs'))
      else parse_entry_parts parts d fs)"

definition parse_peerlist_entry :: "string \<Rightarrow> (string \<times> string \<times> bool \<times> feature_set) res" where
  "parse_peerlist_entry entry =
     (case split_on NICK_PEERLOCATOR_SEPARATOR entry of
        nick # location # parts \<Rightarrow>
          bind_res (raise_if
            [(\<not> is_safe_peerlist_nick nick, ''Invalid peerlist nickname''),
             (\<not> is_safe_peerlist_location location, ''Invalid peerlist location'')]) (\<lambda>_.
          bind_res (parse_entry_parts parts False {}) (\<lambda>(d, fs). Inr (nick, location, d, fs)))
      | _ \<Rightarrow> Inl (ValueError ''Invalid peerlist entry''))"

section \<open>UTXO metadata\<close>

record utxo_metadata =
  um_txid :: string
  um_vout :: int
  um_scriptpubkey :: "string option"
  um_blockheight :: "int option"

text \<open>\<open>binascii.unhexlify\<close>: pairs of hexadecimal digits and nothing else.\<close>

definition unhexlifies :: "string \<Rightarrow> bool" where
  "unhexlifies s = (even (length s) \<and> list_all (\<lambda>c. hex_val c \<noteq> None) s)"

text \<open>\<open>re.match(r"^[0-9a-fA-F]+$", s)\<close>: the dollar sign also matches before a final newline.\<close>

definition matches_hex_line :: "string \<Rightarrow> bool" where
  "matches_hex_line s =
     (let body = (if s \<noteq> [] \<and> last s = CHR 0x0A then butlast s else s)
      in body \<noteq> [] \<and> list_all (\<lambda>c. hex_val c \<noteq> None) body)"

definition is_valid_scriptpubkey :: "string \<Rightarrow> bool" where
  "is_valid_scriptpubkey s =
     (s \<noteq> [] \<and> matches_hex_line s \<and> even (length s) \<and> \<not> (length s < 4 \<or> length s > 200))"

definition validate_utxo_metadata :: "utxo_metadata \<Rightarrow> utxo_metadata res" where
  "validate_utxo_metadata u =
     bind_res (raise_if
       [(length (um_txid u) \<noteq> 64, ''Invalid TXID length''),
        (\<not> unhexlifies (um_txid u), ''Invalid TXID hex''),
        (um_vout u < 0, ''Invalid vout (must be non-negative)''),
        (um_vout u > 0xFFFFFFFF, ''Invalid vout (overflow, max 4294967295)''),
        (case um_scriptpubkey u of None \<Rightarrow> False | Some s \<Rightarrow> \<not> is_valid_scriptpubkey s, ''Invalid scriptpubkey''),
        (case um_blockheight u of None \<Rightarrow> False | Some h \<Rightarrow> h < 0, ''Invalid blockheight (must be non-negative)'')])
     (\<lambda>_. Inr u)"

definition to_legacy_str :: "utxo_metadata \<Rightarrow> string" where
  "to_legacy_str u = um_txid u @ '':'' @ str_of_int (um_vout u)"

definition to_extended_str :: "utxo_metadata \<Rightarrow> string" where
  "to_extended_str u =
     (case (um_scriptpubkey u, um_blockheight u) of
        (Some s, Some h) \<Rightarrow> um_txid u @ '':'' @ str_of_int (um_vout u) @ '':'' @ s @ '':'' @ str_of_int h
      | _ \<Rightarrow> to_legacy_str u)"

definition int_or :: "string \<Rightarrow> string \<Rightarrow> int res" where
  "int_or s msg = (case py_int s of Some n \<Rightarrow> Inr n | None \<Rightarrow> Inl (ValueError msg))"

definition utxo_from_str :: "string \<Rightarrow> utxo_metadata res" where
  "utxo_from_str s =
     (case split_on (CHR '':'') s of
        [txid, v] \<Rightarrow>
          bind_res (int_or v ''Invalid vout (not an integer)'') (\<lambda>vout.
          validate_utxo_metadata \<lparr>um_txid = txid, um_vout = vout, um_scriptpubkey = None, um_blockheight = None\<rparr>)
      | [txid, v, spk, h] \<Rightarrow>
          bind_res (int_or v ''Invalid vout (not an integer)'') (\<lambda>vout.
          bind_res (int_or h ''Invalid blockheight (not an integer)'') (\<lambda>height.
          validate_utxo_metadata
            \<lparr>um_txid = txid, um_vout = vout, um_scriptpubkey = Some spk, um_blockheight = Some height\<rparr>))
      | _ \<Rightarrow> Inl (ValueError ''Invalid UTXO format''))"

definition has_neutrino_metadata :: "utxo_metadata \<Rightarrow> bool" where
  "has_neutrino_metadata u = (um_scriptpubkey u \<noteq> None \<and> um_blockheight u \<noteq> None)"

definition parse_utxo_list :: "string \<Rightarrow> bool \<Rightarrow> utxo_metadata list res" where
  "parse_utxo_list s require_metadata =
     (if s = [] then Inr []
      else mapM_res (\<lambda>utxo_str.
             bind_res (utxo_from_str (strip utxo_str)) (\<lambda>u.
             if require_metadata \<and> \<not> has_neutrino_metadata u
             then Inl (ValueError ''UTXO missing Neutrino metadata'') else Inr u))
           (split_on (CHR '','') s))"

definition format_utxo_list :: "utxo_metadata list \<Rightarrow> bool \<Rightarrow> string" where
  "format_utxo_list us extended =
     join_with '','' (map (if extended then to_extended_str else to_legacy_str) us)"

section \<open>Peer locations\<close>

text \<open>
  \<open>ipaddress.ip_address\<close>. An IPv4 address is four decimal octets without leading zeros. An IPv6
  address is eight groups of one to four hexadecimal digits, of which one run of zero groups may be
  left out and the last two may be written as an IPv4 address, with an optional scope.
\<close>

definition ipv4_octet :: "string \<Rightarrow> bool" where
  "ipv4_octet s =
     (s \<noteq> [] \<and> list_all is_digit s \<and> length s \<le> 3 \<and> \<not> (s \<noteq> ''0'' \<and> hd s = CHR ''0'')
      \<and> digits_nat 0 s \<le> 255)"

definition is_ipv4 :: "string \<Rightarrow> bool" where
  "is_ipv4 s = (let os = split_on (CHR ''.'') s in length os = 4 \<and> list_all ipv4_octet os)"

definition ipv6_hextet :: "string \<Rightarrow> bool" where
  "ipv6_hextet s = (s \<noteq> [] \<and> length s \<le> 4 \<and> list_all (\<lambda>c. hex_val c \<noteq> None) s)"

text \<open>The two groups an IPv4 tail stands for; their value does not matter to validity.\<close>

definition ipv6_parts :: "string \<Rightarrow> string list option" where
  "ipv6_parts s =
     (let ps = split_on (CHR '':'') s in
      if length ps < 3 then None
      else if CHR ''.'' \<in> set (last ps)
           then (if is_ipv4 (last ps) then Some (butlast ps @ [''0'', ''0'']) else None)
      else Some ps)"

definition ipv6_groups_ok :: "string list \<Rightarrow> bool" where
  "ipv6_groups_ok ps =
     (let skips = filter (\<lambda>i. ps ! i = []) [1..<length ps - 1] in
      length ps \<le> 9 \<and>
      (case skips of
         [] \<Rightarrow> length ps = 8 \<and> list_all ipv6_hextet ps
       | [i] \<Rightarrow>
           let hi = (if hd ps = [] then i - 1 else i);
               lo = (if last ps = [] then length ps - i - 2 else length ps - i - 1)
           in (hd ps = [] \<longrightarrow> hi = 0) \<and> (last ps = [] \<longrightarrow> lo = 0) \<and> hi + lo \<le> 7
              \<and> list_all ipv6_hextet (take hi ps) \<and> list_all ipv6_hextet (drop (length ps - lo) ps)
       | _ \<Rightarrow> False))"

definition is_ipv6 :: "string \<Rightarrow> bool" where
  "is_ipv6 s =
     (let addr = takeWhile (\<lambda>c. c \<noteq> CHR ''%'') s; rest = drop (length addr) s in
      CHR ''/'' \<notin> set s \<and>
      (rest = [] \<or> (tl rest \<noteq> [] \<and> CHR ''%'' \<notin> set (tl rest))) \<and>
      (case ipv6_parts addr of None \<Rightarrow> False | Some ps \<Rightarrow> ipv6_groups_ok ps))"

definition is_alnum :: "char \<Rightarrow> bool" where
  "is_alnum c = (in_range (CHR ''A'') (CHR ''Z'') c \<or> in_range (CHR ''a'') (CHR ''z'') c \<or> is_digit c)"

text \<open>\<open>[A-Za-z0-9](?:[A-Za-z0-9-]{0,61}[A-Za-z0-9])?\<close>, the whole label.\<close>

definition hostname_label :: "string \<Rightarrow> bool" where
  "hostname_label s =
     (s \<noteq> [] \<and> length s \<le> 63 \<and> is_alnum (hd s) \<and> is_alnum (last s)
      \<and> list_all (\<lambda>c. is_alnum c \<or> c = CHR ''-'') s)"

definition MAX_HOSTNAME_LENGTH :: nat where
  "MAX_HOSTNAME_LENGTH = 253"

definition is_valid_peer_hostname :: "string \<Rightarrow> bool" where
  "is_valid_peer_hostname h =
     (if h = [] \<or> length h > MAX_HOSTNAME_LENGTH \<or> \<not> isascii h then False
      else if is_ipv4 h \<or> is_ipv6 h then True
      else list_all hostname_label (split_on (CHR ''.'') h))"

definition bad_location :: pyerr where
  "bad_location = ValueError ''Invalid location string''"

definition parse_peer_location :: "string \<Rightarrow> (string \<times> int) res" where
  "parse_peer_location location =
     (if location = NOT_SERVING_ONION_HOSTNAME then Inr (location, -1)
      else case split_on (CHR '':'') location of
             [host, port_str] \<Rightarrow>
               if \<not> isascii port_str \<or> port_str = [] \<or> \<not> list_all isdigit_char port_str then Inl bad_location
               else (case py_int port_str of
                       None \<Rightarrow> Inl bad_location
                     | Some port \<Rightarrow>
                         if port \<le> 0 \<or> port > 65535 then Inl bad_location
                         else if \<not> is_valid_peer_hostname host then Inl bad_location
                         else Inr (host, port))
           | _ \<Rightarrow> Inl bad_location)"

definition ascii_lower_char :: "char \<Rightarrow> char" where
  "ascii_lower_char c =
     (if in_range (CHR ''A'') (CHR ''Z'') c then char_of ((of_char c :: nat) + 32) else c)"

definition ends_with :: "string \<Rightarrow> string \<Rightarrow> bool" where
  "ends_with s suffix = (length suffix \<le> length s \<and> drop (length s - length suffix) s = suffix)"

definition is_onion_hostname :: "string \<Rightarrow> bool" where
  "is_onion_hostname h = (is_valid_peer_hostname h \<and> ends_with (map ascii_lower_char h) ''.onion'')"

definition is_onion_peer_location :: "string \<Rightarrow> bool" where
  "is_onion_peer_location location =
     (if location = NOT_SERVING_ONION_HOSTNAME then False
      else case parse_peer_location location of Inl _ \<Rightarrow> False | Inr (h, _) \<Rightarrow> is_onion_hostname h)"

section \<open>Handshake payloads\<close>

definition advertised_features :: "feature_set option \<Rightarrow> bool \<Rightarrow> json_dict" where
  "advertised_features features neutrino_compat =
     (case features of
        Some fs \<Rightarrow> features_to_dict fs
      | None \<Rightarrow> if neutrino_compat then [(FEATURE_NEUTRINO_COMPAT, JBool True)] else [])"

definition create_handshake_request ::
  "string \<Rightarrow> string \<Rightarrow> string \<Rightarrow> bool \<Rightarrow> bool \<Rightarrow> feature_set option \<Rightarrow> json_dict" where
  "create_handshake_request nick location network directory neutrino_compat features =
     [(''app-name'', JStr ''joinmarket''), (''directory'', JBool directory),
      (''location-string'', JStr location), (''proto-ver'', JInt JM_VERSION),
      (''features'', JObj (advertised_features features neutrino_compat)),
      (''nick'', JStr nick), (''network'', JStr network)]"

definition create_handshake_response ::
  "string \<Rightarrow> string \<Rightarrow> bool \<Rightarrow> string \<Rightarrow> bool \<Rightarrow> feature_set option \<Rightarrow> json_dict" where
  "create_handshake_response nick network accepted motd neutrino_compat features =
     [(''app-name'', JStr ''joinmarket''), (''directory'', JBool True),
      (''proto-ver-min'', JInt JM_VERSION), (''proto-ver-max'', JInt JM_VERSION),
      (''features'', JObj (advertised_features features neutrino_compat)),
      (''accepted'', JBool accepted), (''nick'', JStr nick), (''network'', JStr network),
      (''motd'', JStr motd)]"

section \<open>Message framing\<close>

lemma split_on_three:
  "split_on c s = a # b # r # rs \<longleftrightarrow>
     (\<exists>t. s = a @ c # b @ c # t \<and> c \<notin> set a \<and> c \<notin> set b \<and> split_on c t = r # rs)"
proof
  assume sp: "split_on c s = a # b # r # rs"
  have "c \<notin> set a" "c \<notin> set b" using split_on_parts_free [of _ c s] by (auto simp: sp)
  moreover have "s = a @ c # b @ c # join_with [c] (r # rs)"
    using join_split [of c s] by (simp add: sp)
  moreover have "split_on c (join_with [c] (r # rs)) = r # rs"
    using split_on_parts_free [of _ c s] by (intro split_join) (auto simp: sp)
  ultimately show "\<exists>t. s = a @ c # b @ c # t \<and> c \<notin> set a \<and> c \<notin> set b \<and> split_on c t = r # rs"
    by blast
next
  assume "\<exists>t. s = a @ c # b @ c # t \<and> c \<notin> set a \<and> c \<notin> set b \<and> split_on c t = r # rs"
  then show "split_on c s = a # b # r # rs" by (auto simp: split_on_append)
qed

lemma parse_jm_message_Some:
  "parse_jm_message m = Some (a, b, t) \<longleftrightarrow>
     m = a @ COMMAND_PREFIX # b @ COMMAND_PREFIX # t \<and> COMMAND_PREFIX \<notin> set a \<and> COMMAND_PREFIX \<notin> set b"
proof
  assume "parse_jm_message m = Some (a, b, t)"
  then obtain r rs where "split_on COMMAND_PREFIX m = a # b # r # rs"
      and t: "t = join_with [COMMAND_PREFIX] (r # rs)"
    by (auto simp: parse_jm_message_def split: list.splits)
  then obtain t' where t': "m = a @ COMMAND_PREFIX # b @ COMMAND_PREFIX # t'" "COMMAND_PREFIX \<notin> set a"
      "COMMAND_PREFIX \<notin> set b" "split_on COMMAND_PREFIX t' = r # rs"
    using split_on_three by blast
  then have "t = t'" using join_split [of COMMAND_PREFIX t'] t by simp
  with t' show "m = a @ COMMAND_PREFIX # b @ COMMAND_PREFIX # t \<and> COMMAND_PREFIX \<notin> set a \<and> COMMAND_PREFIX \<notin> set b"
    by simp
next
  assume m: "m = a @ COMMAND_PREFIX # b @ COMMAND_PREFIX # t \<and> COMMAND_PREFIX \<notin> set a \<and> COMMAND_PREFIX \<notin> set b"
  obtain r rs where "split_on COMMAND_PREFIX t = r # rs" by (cases "split_on COMMAND_PREFIX t") auto
  with m show "parse_jm_message m = Some (a, b, t)"
    using join_split [of COMMAND_PREFIX t] by (simp add: parse_jm_message_def split_on_append)
qed

text \<open>a wire message is accepted exactly when it has the form \<open>from!to!rest\<close> with no command
  prefix in the two nicks, and what is read back is what was formatted.\<close>

theorem jm_message_framing:
  "(parse_jm_message m = Some (a, b, t) \<longleftrightarrow>
      (m = a @ ''!'' @ b @ ''!'' @ t \<and> CHR ''!'' \<notin> set a \<and> CHR ''!'' \<notin> set b)) \<and>
   (parse_jm_message (format_jm_message a b cmd msg) = Some (a, b, cmd @ '' '' @ msg) \<longleftrightarrow>
      CHR ''!'' \<notin> set a \<and> CHR ''!'' \<notin> set b)"
  by (auto simp: parse_jm_message_Some format_jm_message_def COMMAND_PREFIX_def)

section \<open>Feature sets and peerlist entries\<close>

lemma safe_value_free: "is_safe_peerlist_value v ds \<Longrightarrow> c \<in> ds \<Longrightarrow> c \<notin> set v"
  by (auto simp: is_safe_peerlist_value_def list_all_iff)

lemma safe_value_nonspace: "is_safe_peerlist_value v ds \<Longrightarrow> c \<in> set v \<Longrightarrow> \<not> str_space c"
  by (auto simp: is_safe_peerlist_value_def list_all_iff isspace_char_def)

lemma safe_value_not_Nil: "is_safe_peerlist_value v ds \<Longrightarrow> v \<noteq> []"
  by (simp add: is_safe_peerlist_value_def)

lemmas delimiter_defs = peerlist_field_delimiters_def feature_identifier_delimiters_def
  NICK_PEERLOCATOR_SEPARATOR_def COMMAND_PREFIX_def

lemma safe_feature_free:
  assumes "is_safe_peerlist_feature f"
  shows "CHR ''+'' \<notin> set f" "CHR '','' \<notin> set f" "CHR '';'' \<notin> set f" "CHR ''!'' \<notin> set f"
  using assms safe_value_free [of f feature_identifier_delimiters]
  by (auto simp: is_safe_peerlist_feature_def delimiter_defs)

lemma safe_nick_free:
  assumes "is_safe_peerlist_nick n"
  shows "CHR '','' \<notin> set n" "CHR '';'' \<notin> set n" "CHR ''!'' \<notin> set n"
  using assms safe_value_free [of n peerlist_field_delimiters]
  by (auto simp: is_safe_peerlist_nick_def delimiter_defs)

lemma safe_location_free:
  assumes "is_safe_peerlist_location n"
  shows "CHR '','' \<notin> set n" "CHR '';'' \<notin> set n" "CHR ''!'' \<notin> set n"
  using assms safe_value_free [of n peerlist_field_delimiters]
  by (auto simp: is_safe_peerlist_location_def delimiter_defs)

lemma comma_string_roundtrip:
  assumes fin: "finite fs" and safe: "\<forall>f \<in> fs. is_safe_peerlist_feature f" and ne: "fs \<noteq> {}"
  defines "s \<equiv> join_with ''+'' (sorted_list_of_set fs)"
  shows "features_from_comma_string s = Inr fs" and "c \<in> {CHR '','', CHR '';'', CHR ''!''} \<Longrightarrow> c \<notin> set s"
proof -
  let ?l = "sorted_list_of_set fs"
  have set_l [simp]: "set ?l = fs" using fin by simp
  have l_ne: "?l \<noteq> []" using fin ne by simp
  have nonempty: "[] \<notin> fs" using safe by (auto simp: is_safe_peerlist_feature_def is_safe_peerlist_value_def)
  have plus: "\<forall>p \<in> set ?l. CHR ''+'' \<notin> set p" using safe safe_feature_free(1) by auto
  have s_ne: "s \<noteq> []" unfolding s_def using join_with_empty_iff [of ?l "''+''"] l_ne nonempty by simp
  show free: "c \<notin> set s" if "c \<in> {CHR '','', CHR '';'', CHR ''!''}" for c
    using set_join_with [of c "''+''" ?l] safe safe_feature_free that unfolding s_def by auto
  have "\<not> str_space c" if "c \<in> set s" for c
    using set_join_with [of c "''+''" ?l] safe that safe_value_nonspace
    unfolding s_def is_safe_peerlist_feature_def by (auto simp: str_space_def)
  then have strip: "strip s = s" by (rule strip_clean)
  have parts: "split_on (if CHR ''+'' \<in> set s then CHR ''+'' else CHR '','') s = ?l"
  proof (cases "CHR ''+'' \<in> set s")
    case True
    then show ?thesis using split_join [OF l_ne plus] by (simp add: s_def)
  next
    case False
    then have "\<exists>f. ?l = [f]"
      unfolding s_def using l_ne by (cases ?l rule: remdups_adj.cases) auto
    then obtain f where f: "?l = [f]" ..
    moreover have "CHR '','' \<notin> set f" using safe safe_feature_free(2) set_l f by (metis list.set_intros(1))
    ultimately show ?thesis using False by (simp add: s_def split_on_free)
  qed
  have "filter (\<lambda>f. f \<noteq> []) ?l = ?l" using nonempty by (intro filter_True) auto
  with parts strip s_ne safe show "features_from_comma_string s = Inr fs"
    by (simp add: features_from_comma_string_def Let_def list_all_iff)
qed

lemma create_peerlist_entry_eq:
  "create_peerlist_entry nick location d features =
     (if \<not> is_safe_peerlist_nick nick then Inl (ValueError ''Invalid peerlist nickname'')
      else if \<not> is_safe_peerlist_location location then Inl (ValueError ''Invalid peerlist location'')
      else let entry = nick @ '';'' @ location @ (if d then '';D'' else [])
           in case features of
                None \<Rightarrow> Inr entry
              | Some fs \<Rightarrow> if fs = {} then Inr entry
                          else if \<forall>f \<in> fs. is_safe_peerlist_feature f
                          then Inr (entry @ '';F:'' @ join_with ''+'' (sorted_list_of_set fs))
                          else Inl bad_feature)"
  by (auto simp: create_peerlist_entry_def features_to_comma_string_def NICK_PEERLOCATOR_SEPARATOR_def Let_def
      split: option.split)

text \<open>The pieces of an entry between the separators.\<close>

definition entry_parts :: "string \<Rightarrow> string \<Rightarrow> bool \<Rightarrow> feature_set \<Rightarrow> string list" where
  "entry_parts nick location d fs =
     [nick, location] @ (if d then [''D''] else [])
     @ (if fs = {} then [] else [''F:'' @ join_with ''+'' (sorted_list_of_set fs)])"

lemma create_peerlist_entry_parts:
  assumes "is_safe_peerlist_nick nick" "is_safe_peerlist_location location"
    "\<forall>f \<in> fs. is_safe_peerlist_feature f"
  shows "create_peerlist_entry nick location d (Some fs) = Inr (join_with '';'' (entry_parts nick location d fs))"
  using assms by (simp add: create_peerlist_entry_eq entry_parts_def Let_def)

lemma entry_parts_free:
  assumes "is_safe_peerlist_nick nick" "is_safe_peerlist_location location"
    "finite fs" "\<forall>f \<in> fs. is_safe_peerlist_feature f"
    "p \<in> set (entry_parts nick location d fs)" "c \<in> {CHR '','', CHR '';'', CHR ''!''}"
  shows "c \<notin> set p"
  using assms safe_nick_free [of nick] safe_location_free [of location] comma_string_roundtrip(2) [of fs c]
  by (auto simp: entry_parts_def split: if_splits)

lemma parse_entry_parts_roundtrip:
  assumes "finite fs" "\<forall>f \<in> fs. is_safe_peerlist_feature f"
  shows "parse_entry_parts (drop 2 (entry_parts nick location d fs)) False {} = Inr (d, fs)"
proof (cases "fs = {}")
  case True
  then show ?thesis by (simp add: entry_parts_def)
next
  case False
  with comma_string_roundtrip [OF assms] show ?thesis by (simp add: entry_parts_def)
qed

lemma peerlist_entry_parse:
  assumes "is_safe_peerlist_nick nick" "is_safe_peerlist_location location"
    "finite fs" "\<forall>f \<in> fs. is_safe_peerlist_feature f"
  shows "parse_peerlist_entry (join_with '';'' (entry_parts nick location d fs)) = Inr (nick, location, d, fs)"
proof -
  let ?ps = "entry_parts nick location d fs"
  have "split_on (CHR '';'') (join_with '';'' ?ps) = ?ps"
    using entry_parts_free [OF assms] by (intro split_join) (auto simp: entry_parts_def)
  then have "split_on (CHR '';'') (join_with '';'' ?ps) = nick # location # drop 2 ?ps"
    by (simp add: entry_parts_def)
  then show ?thesis
    unfolding parse_peerlist_entry_def NICK_PEERLOCATOR_SEPARATOR_def
    using assms(1,2) parse_entry_parts_roundtrip [OF assms(3,4), of nick location d] by simp
qed

lemma set_entry:
  assumes "is_safe_peerlist_nick nick" "is_safe_peerlist_location location"
    "finite fs" "\<forall>f \<in> fs. is_safe_peerlist_feature f" "c \<in> {CHR '','', CHR ''!''}"
  shows "c \<notin> set (join_with '';'' (entry_parts nick location d fs))"
  using set_join_with [of c "'';''" "entry_parts nick location d fs"] entry_parts_free [OF assms(1-4), of _ d c] assms(5)
  by auto

text \<open>a peerlist entry built from a safe nick, a safe location and a set of safe features is read
  back unchanged, and contains neither the separator of entries nor the command prefix; with an unsafe
  nick, location or feature no entry is built.\<close>

theorem peerlist_entry_roundtrip:
  assumes "finite fs"
  shows "if is_safe_peerlist_nick nick \<and> is_safe_peerlist_location location \<and> (\<forall>f \<in> fs. is_safe_peerlist_feature f)
         then \<exists>e. create_peerlist_entry nick location d (Some fs) = Inr e
                \<and> parse_peerlist_entry e = Inr (nick, location, d, fs) \<and> CHR '','' \<notin> set e \<and> CHR ''!'' \<notin> set e
         else \<exists>msg. create_peerlist_entry nick location d (Some fs) = Inl (ValueError msg)"
proof (cases "is_safe_peerlist_nick nick \<and> is_safe_peerlist_location location \<and> (\<forall>f \<in> fs. is_safe_peerlist_feature f)")
  case True
  then show ?thesis
    using create_peerlist_entry_parts [of nick location fs d] peerlist_entry_parse [of nick location fs d]
      set_entry [of nick location fs _ d] assms by simp
next
  case False
  then show ?thesis by (auto simp: create_peerlist_entry_eq bad_feature_def Let_def)
qed

theorem peerlist_entry_roundtrip_witness:
  "\<exists>e. create_peerlist_entry ''J5maker'' ''a.onion:5222'' True (Some {''ping'', ''neutrino_compat''}) = Inr e
     \<and> parse_peerlist_entry e = Inr (''J5maker'', ''a.onion:5222'', True, {''ping'', ''neutrino_compat''})
     \<and> CHR '','' \<notin> set e \<and> CHR ''!'' \<notin> set e"
proof -
  have "is_safe_peerlist_nick ''J5maker''" "is_safe_peerlist_location ''a.onion:5222''"
    "is_safe_peerlist_feature ''ping''" "is_safe_peerlist_feature ''neutrino_compat''"
    by code_simp+
  then show ?thesis
    using peerlist_entry_roundtrip [of "{''ping'', ''neutrino_compat''}" "''J5maker''" "''a.onion:5222''" True]
    by simp
qed

section \<open>UTXO lists\<close>

lemma hex_val_plain:
  assumes "hex_val c \<noteq> None"
  shows "c \<noteq> CHR '':''" "c \<noteq> CHR '',''" "\<not> str_space c"
  using assms by (auto simp: hex_val_def Let_def str_space_def split: if_splits)

lemma digit_plain:
  assumes "is_digit c"
  shows "c \<noteq> CHR '':''" "c \<noteq> CHR '',''" "\<not> str_space c"
  using assms by (auto simp: is_digit_def str_space_def)

lemma scriptpubkey_plain:
  assumes "is_valid_scriptpubkey s" "c \<in> set s"
  shows "c \<noteq> CHR '':''" "c \<noteq> CHR '',''"
proof -
  have "hex_val c \<noteq> None \<or> c = CHR 0x0A"
  proof (cases "s \<noteq> [] \<and> last s = CHR 0x0A")
    case True
    then have "s = butlast s @ [CHR 0x0A]" by (metis append_butlast_last_id)
    then have "c \<in> set (butlast s) \<or> c = CHR 0x0A"
      using assms(2) by (metis Un_iff empty_iff list.set(1) set_append set_ConsD)
    with True assms show ?thesis
      by (auto simp: is_valid_scriptpubkey_def matches_hex_line_def list_all_iff Let_def)
  next
    case False
    with assms show ?thesis by (auto simp: is_valid_scriptpubkey_def matches_hex_line_def list_all_iff Let_def)
  qed
  then show "c \<noteq> CHR '':''" "c \<noteq> CHR '',''" using hex_val_plain by auto
qed

definition valid_utxo :: "utxo_metadata \<Rightarrow> bool" where
  "valid_utxo u = (validate_utxo_metadata u = Inr u)"

lemma valid_utxo_iff:
  "valid_utxo u \<longleftrightarrow>
     length (um_txid u) = 64 \<and> unhexlifies (um_txid u) \<and> 0 \<le> um_vout u \<and> um_vout u \<le> 0xFFFFFFFF
     \<and> (\<forall>s. um_scriptpubkey u = Some s \<longrightarrow> is_valid_scriptpubkey s) \<and> (\<forall>h. um_blockheight u = Some h \<longrightarrow> 0 \<le> h)"
  by (auto simp: valid_utxo_def validate_utxo_metadata_def bind_res_Inr_iff split: option.splits)

text \<open>What the text of a UTXO carries: the extended format needs both extra fields.\<close>

definition carried :: "bool \<Rightarrow> utxo_metadata \<Rightarrow> utxo_metadata" where
  "carried extended u =
     (if extended \<and> has_neutrino_metadata u then u else u\<lparr>um_scriptpubkey := None, um_blockheight := None\<rparr>)"

definition utxo_text :: "bool \<Rightarrow> utxo_metadata \<Rightarrow> string" where
  "utxo_text extended u = (if extended then to_extended_str u else to_legacy_str u)"

definition utxo_fields :: "bool \<Rightarrow> utxo_metadata \<Rightarrow> string list" where
  "utxo_fields extended u =
     [um_txid u, str_of_int (um_vout u)] @
     (case (um_scriptpubkey u, um_blockheight u) of
        (Some s, Some h) \<Rightarrow> if extended then [s, str_of_int h] else []
      | _ \<Rightarrow> [])"

lemma utxo_text_fields: "utxo_text extended u = join_with '':'' (utxo_fields extended u)"
  by (auto simp: utxo_text_def utxo_fields_def to_extended_str_def to_legacy_str_def split: option.splits)

lemma utxo_fields_plain:
  assumes "valid_utxo u" "p \<in> set (utxo_fields extended u)"
  shows "CHR '':'' \<notin> set p" "CHR '','' \<notin> set p"
proof -
  have "c \<noteq> CHR '':'' \<and> c \<noteq> CHR '',''" if c: "c \<in> set p" for c
  proof -
    consider "p = um_txid u" | "p = str_of_int (um_vout u)" | "um_scriptpubkey u = Some p"
      | h where "um_blockheight u = Some h" "p = str_of_int h"
      using assms(2) by (cases "um_scriptpubkey u"; cases "um_blockheight u"; cases extended)
        (auto simp: utxo_fields_def)
    then show ?thesis
    proof cases
      case 1
      with assms(1) c have "hex_val c \<noteq> None" by (auto simp: valid_utxo_iff unhexlifies_def list_all_iff)
      then show ?thesis using hex_val_plain by blast
    next
      case 3
      with assms(1) c show ?thesis using scriptpubkey_plain by (auto simp: valid_utxo_iff)
    qed (use assms(1) c str_of_int_digits digit_plain in \<open>auto simp: valid_utxo_iff\<close>)
  qed
  then show "CHR '':'' \<notin> set p" "CHR '','' \<notin> set p" by auto
qed

lemma valid_utxo_carried: "valid_utxo u \<Longrightarrow> valid_utxo (carried extended u)"
  by (auto simp: valid_utxo_iff carried_def)

lemma int_or_str_of_int: "0 \<le> n \<Longrightarrow> nat n < int_limit \<Longrightarrow> int_or (str_of_int n) msg = Inr n"
  by (simp add: int_or_def py_int_str_of_int)

lemma vout_int_limit: "n \<le> 0xFFFFFFFF \<Longrightarrow> nat n < int_limit"
  by (rule lt_int_limit [of _ 10]) simp_all

text \<open>Heights are small enough for \<open>int(str)\<close> to read them back.\<close>

definition readable_height :: "utxo_metadata \<Rightarrow> bool" where
  "readable_height u = (\<forall>h. um_blockheight u = Some h \<longrightarrow> nat h < int_limit)"

lemma utxo_from_str_text:
  assumes u: "valid_utxo u" "readable_height u"
  shows "utxo_from_str (utxo_text extended u) = Inr (carried extended u)"
proof -
  have sp: "split_on (CHR '':'') (utxo_text extended u) = utxo_fields extended u"
    unfolding utxo_text_fields using utxo_fields_plain(1) [OF u(1)]
    by (intro split_join) (auto simp: utxo_fields_def)
  have v: "int_or (str_of_int (um_vout u)) msg = Inr (um_vout u)" for msg
    using u by (intro int_or_str_of_int vout_int_limit) (auto simp: valid_utxo_iff)
  have val: "validate_utxo_metadata (carried extended u) = Inr (carried extended u)"
    using valid_utxo_carried [OF u(1)] by (simp add: valid_utxo_def)
  show ?thesis
  proof (cases "extended \<and> has_neutrino_metadata u")
    case True
    then obtain s h where sh: "um_scriptpubkey u = Some s" "um_blockheight u = Some h"
      by (auto simp: has_neutrino_metadata_def)
    then have "int_or (str_of_int h) msg = Inr h" for msg
      using u by (intro int_or_str_of_int) (auto simp: valid_utxo_iff readable_height_def)
    moreover have "validate_utxo_metadata
        \<lparr>um_txid = um_txid u, um_vout = um_vout u, um_scriptpubkey = Some s, um_blockheight = Some h\<rparr> = Inr u"
    proof -
      have "u = \<lparr>um_txid = um_txid u, um_vout = um_vout u, um_scriptpubkey = Some s, um_blockheight = Some h\<rparr>"
        using sh by simp
      with val True show ?thesis by (simp only: carried_def simp_thms if_True)
    qed
    ultimately show ?thesis using sp sh v val True by (simp add: utxo_from_str_def utxo_fields_def carried_def)
  next
    case False
    then have "utxo_fields extended u = [um_txid u, str_of_int (um_vout u)]"
      by (auto simp: utxo_fields_def has_neutrino_metadata_def split: option.splits)
    moreover have "\<lparr>um_txid = um_txid u, um_vout = um_vout u, um_scriptpubkey = None, um_blockheight = None\<rparr>
      = carried extended u"
      using False by (auto simp: carried_def)
    ultimately show ?thesis using sp v val by (simp add: utxo_from_str_def)
  qed
qed

lemma strip_utxo_text:
  assumes u: "valid_utxo u"
  shows "strip (utxo_text extended u) = utxo_text extended u"
proof (rule strip_id)
  let ?fs = "utxo_fields extended u"
  obtain c cs where t: "um_txid u = c # cs" using u by (cases "um_txid u") (auto simp: valid_utxo_iff)
  have "utxo_text extended u = um_txid u @ '':'' @ join_with '':'' (tl ?fs)"
    by (simp add: utxo_text_fields utxo_fields_def split: option.split)
  then have hd: "utxo_text extended u = c # cs @ '':'' @ join_with '':'' (tl ?fs)" by (simp add: t)
  then show "utxo_text extended u \<noteq> []" by simp
  have "hex_val c \<noteq> None" using u t by (auto simp: valid_utxo_iff unhexlifies_def)
  then show "\<not> str_space (hd (utxo_text extended u))" using hex_val_plain(3) hd by auto
  have "\<exists>n pre. 0 \<le> n \<and> utxo_text extended u = pre @ str_of_int n"
  proof (cases "extended \<and> has_neutrino_metadata u")
    case True
    then obtain s h where "um_scriptpubkey u = Some s" "um_blockheight u = Some h"
      by (auto simp: has_neutrino_metadata_def)
    with True u show ?thesis
      by (intro exI [of _ h] exI [of _ "um_txid u @ '':'' @ str_of_int (um_vout u) @ '':'' @ s @ '':''"])
        (auto simp: utxo_text_def to_extended_str_def valid_utxo_iff)
  next
    case False
    with u show ?thesis
      by (intro exI [of _ "um_vout u"] exI [of _ "um_txid u @ '':''"])
        (auto simp: utxo_text_def to_extended_str_def to_legacy_str_def has_neutrino_metadata_def valid_utxo_iff
          split: option.splits)
  qed
  then obtain n pre where n: "0 \<le> n" "utxo_text extended u = pre @ str_of_int n" by blast
  have "str_of_int n \<noteq> []" using n(1) nat_digits_not_Nil by (simp add: str_of_int_def)
  then have "last (utxo_text extended u) \<in> set (str_of_int n)" using n by simp
  then show "\<not> str_space (last (utxo_text extended u))"
    using str_of_int_digits [OF n(1)] digit_not_space by blast
qed

lemma utxo_text_no_comma: "valid_utxo u \<Longrightarrow> CHR '','' \<notin> set (utxo_text extended u)"
  using set_join_with [of "CHR '',''" "'':''" "utxo_fields extended u"] utxo_fields_plain(2) [of u]
  unfolding utxo_text_fields by auto

text \<open>a list of valid UTXOs written in either format is read back: the transaction id and the
  index of every UTXO in order, and in the extended format also the script and the height of every UTXO
  that has both. Asking for the metadata refuses the text exactly when some UTXO comes without it.\<close>

theorem utxo_list_roundtrip:
  assumes "\<forall>u \<in> set us. valid_utxo u \<and> readable_height u"
  shows "parse_utxo_list (format_utxo_list us extended) False = Inr (map (carried extended) us)
       \<and> (isl (parse_utxo_list (format_utxo_list us extended) True)
          \<longleftrightarrow> (\<exists>u \<in> set us. \<not> (extended \<and> has_neutrino_metadata u)))"
proof (cases "us = []")
  case True
  then show ?thesis by (simp add: parse_utxo_list_def format_utxo_list_def)
next
  case False
  let ?ts = "map (utxo_text extended) us"
  let ?f = "\<lambda>r t. bind_res (utxo_from_str (strip t)) (\<lambda>u. if r \<and> \<not> has_neutrino_metadata u
    then Inl (ValueError ''UTXO missing Neutrino metadata'') else Inr u)"
  have fmt: "format_utxo_list us extended = join_with '','' ?ts"
    by (simp add: format_utxo_list_def utxo_text_def [abs_def])
  have sp: "split_on (CHR '','') (join_with '','' ?ts) = ?ts"
    using False assms utxo_text_no_comma by (intro split_join) auto
  have ne: "join_with '','' ?ts \<noteq> []"
    using False sp by (cases us; cases "tl us") (auto simp: utxo_text_fields utxo_fields_def split: option.splits)
  have one: "?f r (utxo_text extended u) = (if r \<and> \<not> has_neutrino_metadata (carried extended u)
      then Inl (ValueError ''UTXO missing Neutrino metadata'') else Inr (carried extended u))"
    if "u \<in> set us" for r u
    using assms that by (simp add: strip_utxo_text utxo_from_str_text)
  have p: "parse_utxo_list (format_utxo_list us extended) r = mapM_res (\<lambda>u. ?f r (utxo_text extended u)) us" for r
    using ne by (simp add: parse_utxo_list_def fmt sp mapM_res_map)
  have has: "has_neutrino_metadata (carried extended u) \<longleftrightarrow> extended \<and> has_neutrino_metadata u" for u
    by (simp add: carried_def has_neutrino_metadata_def)
  have "mapM_res (\<lambda>u. ?f False (utxo_text extended u)) us = Inr (map (carried extended) us)"
    using one [of _ False] by (intro mapM_res_all_Inr) simp
  moreover have "isl (mapM_res (\<lambda>u. ?f True (utxo_text extended u)) us)
      \<longleftrightarrow> (\<exists>u \<in> set us. isl (?f True (utxo_text extended u)))"
    by (rule isl_mapM_res)
  moreover have "isl (?f True (utxo_text extended u)) \<longleftrightarrow> \<not> (extended \<and> has_neutrino_metadata u)" if "u \<in> set us" for u
    using one [OF that, of True] has [of u] by simp
  ultimately show ?thesis unfolding p by auto
qed

definition ex_utxos :: "utxo_metadata list" where
  "ex_utxos =
     [\<lparr>um_txid = replicate 64 (CHR ''a''), um_vout = 7, um_scriptpubkey = Some (replicate 44 (CHR ''0'')),
       um_blockheight = Some 800000\<rparr>,
      \<lparr>um_txid = replicate 64 (CHR ''B''), um_vout = 4294967295, um_scriptpubkey = None, um_blockheight = None\<rparr>]"

theorem utxo_list_roundtrip_witness:
  "parse_utxo_list (format_utxo_list ex_utxos True) False = Inr ex_utxos
   \<and> isl (parse_utxo_list (format_utxo_list ex_utxos True) True)"
proof -
  have v: "\<forall>u \<in> set ex_utxos. valid_utxo u" unfolding valid_utxo_def by code_simp
  have l: "(800000::nat) < int_limit" by (rule lt_int_limit [of _ 6]) simp_all
  have r: "\<forall>u \<in> set ex_utxos. readable_height u"
    by (simp add: ex_utxos_def readable_height_def l)
  have "map (carried True) ex_utxos = ex_utxos" by (simp add: ex_utxos_def carried_def has_neutrino_metadata_def)
  moreover have "\<exists>u \<in> set ex_utxos. \<not> has_neutrino_metadata u" by (simp add: ex_utxos_def has_neutrino_metadata_def)
  ultimately show ?thesis using utxo_list_roundtrip [of ex_utxos True] v r by auto
qed

section \<open>Locations and nicks\<close>

lemma split_on_two: "split_on c s = [a, b] \<longleftrightarrow> s = a @ c # b \<and> c \<notin> set a \<and> c \<notin> set b"
proof
  assume sp: "split_on c s = [a, b]"
  then show "s = a @ c # b \<and> c \<notin> set a \<and> c \<notin> set b"
    using join_split [of c s] split_on_parts_free [of _ c s] by (auto simp: sp)
next
  assume "s = a @ c # b \<and> c \<notin> set a \<and> c \<notin> set b"
  then show "split_on c s = [a, b]" by (simp add: split_on_append split_on_free)
qed

lemma ascii_isdigit: "isascii s \<and> list_all isdigit_char s \<longleftrightarrow> list_all is_digit s"
  by (induction s) (auto simp: isascii_def isdigit_char_def is_digit_def)

definition port_digits :: "string \<Rightarrow> bool" where
  "port_digits ds = (ds \<noteq> [] \<and> list_all is_digit ds \<and> length ds \<le> 4300)"

lemma py_int_all_digits:
  assumes "ds \<noteq> []" "list_all is_digit ds"
  shows "py_int ds = (if length ds \<le> 4300 then Some (int (digits_nat 0 ds)) else None)"
proof -
  have h: "is_digit (hd ds)" "is_digit (last ds)" using assms by (auto simp: list_all_iff)
  then have "strip ds = ds" using assms(1) by (intro strip_id) (auto dest: digit_not_space)
  with h assms show ?thesis by (simp add: py_int_def split_sign_digit int_digits_digits)
qed

lemma parse_port_iff:
  "(if \<not> isascii d \<or> d = [] \<or> \<not> list_all isdigit_char d then None else py_int d) = Some n
   \<longleftrightarrow> port_digits d \<and> n = int (digits_nat 0 d)"
  using ascii_isdigit [of d] py_int_all_digits [of d] by (auto simp: port_digits_def split: if_splits)

text \<open>a peer location is accepted exactly when it is the marker of a peer that serves no onion
  address, or a valid host name, one colon and a decimal port from 1 to 65535; the host and the port
  returned are the ones written.\<close>

theorem peer_location_accepted:
  "parse_peer_location l = Inr (h, p) \<longleftrightarrow>
     (if l = NOT_SERVING_ONION_HOSTNAME then h = l \<and> p = -1
      else \<exists>ds. l = h @ '':'' @ ds \<and> CHR '':'' \<notin> set h \<and> port_digits ds \<and> p = int (digits_nat 0 ds)
             \<and> 1 \<le> p \<and> p \<le> 65535 \<and> is_valid_peer_hostname h)"
proof -
  have eq: "parse_peer_location l = Inr (h, p) \<longleftrightarrow>
      (\<exists>ds. split_on (CHR '':'') l = [h, ds] \<and>
        (if \<not> isascii ds \<or> ds = [] \<or> \<not> list_all isdigit_char ds then None else py_int ds) = Some p
        \<and> 1 \<le> p \<and> p \<le> 65535 \<and> is_valid_peer_hostname h)"
    if "l \<noteq> NOT_SERVING_ONION_HOSTNAME"
    using that by (auto simp: parse_peer_location_def bad_location_def split: list.splits option.splits if_splits)
  have colon: "port_digits ds \<Longrightarrow> CHR '':'' \<notin> set ds" for ds
    using digit_plain(1) by (auto simp: port_digits_def list_all_iff)
  show ?thesis
  proof (cases "l = NOT_SERVING_ONION_HOSTNAME")
    case True
    then show ?thesis by (auto simp: parse_peer_location_def)
  next
    case False
    then show ?thesis unfolding eq [OF False] parse_port_iff split_on_two using colon by auto
  qed
qed

text \<open>A script whose hexadecimal text is odd and ends in a newline passes the check, and is not
  hexadecimal.\<close>

lemma scriptpubkey_accepts_newline:
  "is_valid_scriptpubkey (''abc'' @ [CHR 0x0A]) \<and> isl (fromhex (''abc'' @ [CHR 0x0A]))"
  by code_simp

text \<open>A nick whose second character is a superscript two has no version, and the default is not returned.\<close>

lemma nick_version_superscript: "isl (get_nick_version [CHR ''J'', char_of (178 :: nat)])"
  by code_simp

lemma valid_nick_version: "is_valid_nick nick \<Longrightarrow> get_nick_version nick = Inr (int (digit_val (nick ! 1)))"
  using py_int_all_digits [of "[nick ! 1]"]
  by (auto simp: is_valid_nick_def get_nick_version_def isdigit_char_def split: list.splits)

end
