(* ===== verification/Jm_Models.thy ===== *)
theory Jm_Models
  imports Jm_Protocol Btc_Script
begin

text \<open>
  The data models of \<open>jmcore/models.py\<close> that the directory uses: peers, with the checks pydantic runs when
  a \<open>PeerInfo\<close> is built, and the message envelope with its JSON text. A \<open>datetime\<close> is the number of
  microseconds since the epoch. A \<open>TIMESTAMP\<close> field that no code reads is left out of the envelope.
\<close>

datatype peer_status = UNCONNECTED | CONNECTED | HANDSHAKED | DISCONNECTED

fun network_value :: "network_type \<Rightarrow> string" where
  "network_value MAINNET = ''mainnet''"
| "network_value TESTNET = ''testnet''"
| "network_value SIGNET = ''signet''"
| "network_value REGTEST = ''regtest''"

text \<open>\<open>NetworkType(value)\<close>; \<open>None\<close> is \<open>ValueError\<close>.\<close>

definition network_of :: "string \<Rightarrow> network_type option" where
  "network_of s = find (\<lambda>n. network_value n = s) [MAINNET, TESTNET, SIGNET, REGTEST]"

lemma network_of_value [simp]: "network_of (network_value n) = Some n"
  by (cases n) (simp_all add: network_of_def)

record peer_info =
  pi_nick :: string
  pi_onion_address :: string
  pi_port :: int
  pi_status :: peer_status
  pi_is_directory :: bool
  pi_network :: network_type
  pi_last_seen :: "int option"
  pi_features :: json_dict
  pi_protocol_version :: int
  pi_neutrino_compat :: bool

definition base32_char :: "char \<Rightarrow> bool" where
  "base32_char c = (in_range (CHR ''a'') (CHR ''z'') c \<or> in_range (CHR ''2'') (CHR ''7'') c)"

text \<open>\<open>^[a-z2-7]{56}\.onion$|^NOT-SERVING-ONION$\<close>, in pydantic's regular expressions.\<close>

definition onion_pattern :: "string \<Rightarrow> bool" where
  "onion_pattern s =
     ((length s = 62 \<and> list_all base32_char (take 56 s) \<and> drop 56 s = ''.onion'') \<or> s = ''NOT-SERVING-ONION'')"

definition validate_onion :: "string \<Rightarrow> bool" where
  "validate_onion v = (v = ''NOT-SERVING-ONION'' \<or> ends_with v ''.onion'')"

definition validate_port :: "int \<Rightarrow> string \<Rightarrow> bool" where
  "validate_port v onion = ((v = -1 \<and> onion = ''NOT-SERVING-ONION'') \<or> \<not> (v < 1 \<or> v > 65535))"

definition validate_peer_info :: "peer_info \<Rightarrow> peer_info res" where
  "validate_peer_info p =
     (if 1 \<le> length (pi_nick p) \<and> length (pi_nick p) \<le> 64
        \<and> onion_pattern (pi_onion_address p) \<and> validate_onion (pi_onion_address p)
        \<and> -1 \<le> pi_port p \<and> pi_port p \<le> 65535 \<and> validate_port (pi_port p) (pi_onion_address p)
        \<and> 5 \<le> pi_protocol_version p \<and> pi_protocol_version p \<le> 10
      then Inr p else Inl (ValueError ''validation error for PeerInfo''))"

definition location_string :: "peer_info \<Rightarrow> string" where
  "location_string p =
     (if pi_onion_address p = ''NOT-SERVING-ONION'' then ''NOT-SERVING-ONION''
      else pi_onion_address p @ '':'' @ str_of_int (pi_port p))"

section \<open>Envelopes\<close>

record envelope =
  env_type :: int
  env_payload :: string

text \<open>\<open>json.dumps\<close> of a string, with \<open>ensure_ascii\<close>.\<close>

definition json_escape :: "char \<Rightarrow> string" where
  "json_escape c =
     (let n = (of_char c :: nat) in
      if c = CHR 0x22 then [CHR 0x5C, CHR 0x22]
      else if c = CHR 0x5C then [CHR 0x5C, CHR 0x5C]
      else if n = 10 then [CHR 0x5C, CHR ''n''] else if n = 13 then [CHR 0x5C, CHR ''r'']
      else if n = 9 then [CHR 0x5C, CHR ''t''] else if n = 12 then [CHR 0x5C, CHR ''f'']
      else if n = 8 then [CHR 0x5C, CHR ''b'']
      else if 32 \<le> n \<and> n \<le> 126 then [c]
      else [CHR 0x5C, CHR ''u'', CHR ''0'', CHR ''0'', hex_digit (n div 16), hex_digit (n mod 16)])"

definition json_string :: "string \<Rightarrow> string" where
  "json_string s = [CHR 0x22] @ concat (map json_escape s) @ [CHR 0x22]"

definition to_bytes :: "envelope \<Rightarrow> string" where
  "to_bytes e =
     ''{'' @ json_string ''type'' @ '': '' @ str_of_int (env_type e) @ '', ''
     @ json_string ''line'' @ '': '' @ json_string (env_payload e) @ ''}''"

fun json_depth_ok :: "nat \<Rightarrow> nat \<Rightarrow> json \<Rightarrow> bool" where
  "json_depth_ok max_depth current (JObj d) =
     (current \<le> max_depth \<and> list_all (\<lambda>v. json_depth_ok max_depth (Suc current) v) (map snd d))"
| "json_depth_ok max_depth current (JArr xs) =
     (current \<le> max_depth \<and> list_all (\<lambda>v. json_depth_ok max_depth (Suc current) v) xs)"
| "json_depth_ok max_depth current _ = (current \<le> max_depth)"

end
