(* ===== verification/Dir_Registry.thy ===== *)
theory Dir_Registry
  imports Jm_Models
begin

text \<open>
  The directory's peer registry, \<open>directory_server/peer_registry.py\<close>: the two dictionaries from nicks to
  peers and to the connection that owns the nick, every operation on them, the states the operations
  reach, and the contract the router and the heartbeat rely on. A \<open>PeerInfo\<close> the registry holds is
  changed through the registry only, so the dictionary holds its value; \<open>datetime.now\<close> and the fresh
  \<open>uuid4\<close> of a registration are arguments.
\<close>

section \<open>State\<close>

datatype pubkey_id = PkBytes bytes | PkStr string

record peer_owner =
  po_connection_id :: string
  po_verified_pubkey :: "pubkey_id option"

definition po_verified :: "peer_owner \<Rightarrow> bool" where
  "po_verified w = (po_verified_pubkey w \<noteq> None)"

record displaced_peer =
  dp_peer_key :: string
  dp_peer :: peer_info
  dp_connection_id :: string

record registration_result =
  rr_peer_key :: string
  rr_connection_id :: string
  rr_displaced :: "displaced_peer list"

record registry =
  rg_max_peers :: int
  rg_peers :: "(string, peer_info) dict"
  rg_owners :: "(string, peer_owner) dict"

definition registry_init :: "int \<Rightarrow> registry" where
  "registry_init n = \<lparr>rg_max_peers = n, rg_peers = [], rg_owners = []\<rparr>"

datatype registry_error = PeerOwnershipConflictError string | MaximumPeersReached

section \<open>Operations\<close>

definition registry_remove :: "string \<Rightarrow> registry \<Rightarrow> peer_info option \<times> registry" where
  "registry_remove key r =
     (case dict_get (rg_peers r) key of
        None \<Rightarrow> (None, r)
      | Some p \<Rightarrow> (Some p, r\<lparr>rg_peers := dict_del key (rg_peers r), rg_owners := dict_del key (rg_owners r)\<rparr>))"

definition displaced_by ::
  "string \<Rightarrow> pubkey_id option \<Rightarrow> registry \<Rightarrow> registry_error + displaced_peer list" where
  "displaced_by key vpk r =
     (case (dict_get (rg_peers r) key, dict_get (rg_owners r) key) of
        (Some p, Some w) \<Rightarrow>
          if vpk = None then Inl (PeerOwnershipConflictError ''Peer nick already registered'')
          else if po_verified w \<and> po_verified_pubkey w \<noteq> vpk
          then Inl (PeerOwnershipConflictError ''Verified nick already registered'')
          else Inr [\<lparr>dp_peer_key = key, dp_peer = p, dp_connection_id = po_connection_id w\<rparr>]
      | _ \<Rightarrow> Inr [])"

definition conn_or_fresh :: "string option \<Rightarrow> string \<Rightarrow> string" where
  "conn_or_fresh cid fresh = (case cid of Some c \<Rightarrow> if c = [] then fresh else c | None \<Rightarrow> fresh)"

definition register ::
  "int \<Rightarrow> string \<Rightarrow> peer_info \<Rightarrow> string option \<Rightarrow> pubkey_id option \<Rightarrow> registry
   \<Rightarrow> registry_error + (registration_result \<times> registry)" where
  "register now fresh p cid vpk r =
     (let c = conn_or_fresh cid fresh; key = pi_nick p in
      bind_res (displaced_by key vpk r) (\<lambda>displaced.
      if int (length (rg_peers r)) - int (length displaced) \<ge> rg_max_peers r then Inl MaximumPeersReached
      else
        let r1 = foldl (\<lambda>s old. snd (registry_remove (dp_peer_key old) s)) r displaced;
            r2 = r1\<lparr>rg_peers := dict_put key (p\<lparr>pi_last_seen := Some now\<rparr>) (rg_peers r1),
                    rg_owners := dict_put key \<lparr>po_connection_id = c, po_verified_pubkey = vpk\<rparr> (rg_owners r1)\<rparr>
        in Inr (\<lparr>rr_peer_key = key, rr_connection_id = c, rr_displaced = displaced\<rparr>, r2)))"

definition is_current_owner :: "string \<Rightarrow> string option \<Rightarrow> registry \<Rightarrow> bool" where
  "is_current_owner key expected r =
     (case dict_get (rg_owners r) key of
        None \<Rightarrow> False
      | Some w \<Rightarrow> expected = None \<or> Some (po_connection_id w) = expected)"

definition unregister :: "string \<Rightarrow> string option \<Rightarrow> registry \<Rightarrow> bool \<times> registry" where
  "unregister key expected r =
     (if \<not> is_current_owner key expected r then (False, r)
      else case registry_remove key r of (None, r') \<Rightarrow> (False, r') | (Some _, r') \<Rightarrow> (True, r'))"

definition get_owner :: "string \<Rightarrow> registry \<Rightarrow> peer_owner option" where
  "get_owner key r = dict_get (rg_owners r) key"

definition get_connection_id :: "string \<Rightarrow> registry \<Rightarrow> string option" where
  "get_connection_id key r = map_option po_connection_id (get_owner key r)"

definition get_by_key :: "string \<Rightarrow> registry \<Rightarrow> peer_info option" where
  "get_by_key key r = dict_get (rg_peers r) key"

definition get_by_nick :: "string \<Rightarrow> registry \<Rightarrow> peer_info option" where
  "get_by_nick nick r = dict_get (rg_peers r) nick"

definition get_key_by_nick :: "string \<Rightarrow> registry \<Rightarrow> string option" where
  "get_key_by_nick nick r = (if nick \<in> set (dict_keys (rg_peers r)) then Some nick else None)"

definition update_status ::
  "int \<Rightarrow> string \<Rightarrow> peer_status \<Rightarrow> string option \<Rightarrow> registry \<Rightarrow> bool \<times> registry" where
  "update_status now key status expected r =
     (if \<not> is_current_owner key expected r then (False, r)
      else case get_by_key key r of
             None \<Rightarrow> (False, r)
           | Some p \<Rightarrow>
               let p1 = p\<lparr>pi_status := status\<rparr>;
                   p2 = (if status \<in> {CONNECTED, HANDSHAKED} then p1\<lparr>pi_last_seen := Some now\<rparr> else p1)
               in (True, r\<lparr>rg_peers := dict_put key p2 (rg_peers r)\<rparr>))"

definition update_last_seen :: "int \<Rightarrow> string \<Rightarrow> string option \<Rightarrow> registry \<Rightarrow> bool \<times> registry" where
  "update_last_seen now key expected r =
     (if \<not> is_current_owner key expected r then (False, r)
      else case get_by_key key r of
             None \<Rightarrow> (False, r)
           | Some p \<Rightarrow> (True, r\<lparr>rg_peers := dict_put key (p\<lparr>pi_last_seen := Some now\<rparr>) (rg_peers r)\<rparr>))"

text \<open>The test the iterators share.\<close>

definition is_connected :: "network_type option \<Rightarrow> peer_info \<Rightarrow> bool" where
  "is_connected network p =
     (pi_status p = HANDSHAKED \<and> \<not> pi_is_directory p \<and> (network = None \<or> Some (pi_network p) = network))"

definition iter_connected :: "network_type option \<Rightarrow> registry \<Rightarrow> peer_info list" where
  "iter_connected network r = filter (is_connected network) (map snd (rg_peers r))"

definition owned :: "registry \<Rightarrow> string \<times> peer_info \<Rightarrow> (string \<times> peer_info \<times> string) option" where
  "owned r kp = map_option (\<lambda>w. (fst kp, snd kp, po_connection_id w)) (dict_get (rg_owners r) (fst kp))"

definition iter_connected_owners :: "network_type option \<Rightarrow> registry \<Rightarrow> (string \<times> peer_info \<times> string) list" where
  "iter_connected_owners network r =
     List.map_filter (owned r) (filter (\<lambda>kp. is_connected network (snd kp)) (rg_peers r))"

definition get_peerlist_for_network :: "network_type \<Rightarrow> registry \<Rightarrow> (string \<times> string) list" where
  "get_peerlist_for_network network r =
     map (\<lambda>p. (pi_nick p, location_string p)) (iter_connected (Some network) r)"

definition get_peerlist_with_features :: "network_type \<Rightarrow> registry \<Rightarrow> (string \<times> string \<times> feature_set) list" where
  "get_peerlist_with_features network r =
     map (\<lambda>p. (pi_nick p, location_string p, true_keys (pi_features p))) (iter_connected (Some network) r)"

definition registry_count :: "registry \<Rightarrow> nat" where
  "registry_count r = length (rg_peers r)"

definition registry_clear :: "registry \<Rightarrow> registry" where
  "registry_clear r = r\<lparr>rg_peers := [], rg_owners := []\<rparr>"

definition is_passive :: "peer_info \<Rightarrow> bool" where
  "is_passive p = (pi_onion_address p = NOT_SERVING_ONION_HOSTNAME)"

definition get_passive_peers :: "network_type option \<Rightarrow> registry \<Rightarrow> peer_info list" where
  "get_passive_peers network r = filter is_passive (iter_connected network r)"

definition get_active_peers :: "network_type option \<Rightarrow> registry \<Rightarrow> peer_info list" where
  "get_active_peers network r = filter (\<lambda>p. \<not> is_passive p) (iter_connected network r)"

definition get_neutrino_compat_peers :: "network_type option \<Rightarrow> registry \<Rightarrow> peer_info list" where
  "get_neutrino_compat_peers network r = filter pi_neutrino_compat (iter_connected network r)"

record registry_stats =
  st_total :: nat
  st_connected :: nat
  st_passive :: nat
  st_active :: nat
  st_neutrino_compat :: nat
  st_peerlist_features :: nat
  st_push_encrypted :: nat

definition bump :: "bool \<Rightarrow> nat \<Rightarrow> nat" where
  "bump b n = (if b then n + 1 else n)"

definition has_feature :: "string \<Rightarrow> peer_info \<Rightarrow> bool" where
  "has_feature f p = truthy (get_none (pi_features p) f)"

definition stats_step :: "registry_stats \<Rightarrow> peer_info \<Rightarrow> registry_stats" where
  "stats_step st p =
     (if pi_status p = HANDSHAKED \<and> \<not> pi_is_directory p then
        st\<lparr>st_connected := st_connected st + 1,
           st_passive := bump (is_passive p) (st_passive st),
           st_active := bump (\<not> is_passive p) (st_active st),
           st_neutrino_compat := bump (has_feature FEATURE_NEUTRINO_COMPAT p) (st_neutrino_compat st),
           st_peerlist_features := bump (has_feature FEATURE_PEERLIST_FEATURES p) (st_peerlist_features st),
           st_push_encrypted := bump (has_feature FEATURE_PUSH_ENCRYPTED p) (st_push_encrypted st)\<rparr>
      else st)"

definition get_stats :: "registry \<Rightarrow> registry_stats" where
  "get_stats r =
     foldl stats_step
       \<lparr>st_total = length (rg_peers r), st_connected = 0, st_passive = 0, st_active = 0,
        st_neutrino_compat = 0, st_peerlist_features = 0, st_push_encrypted = 0\<rparr>
       (map snd (rg_peers r))"

definition get_peers_idle_since :: "int \<Rightarrow> registry \<Rightarrow> (string \<times> peer_info \<times> string) list" where
  "get_peers_idle_since cutoff r =
     List.map_filter (owned r)
       (filter (\<lambda>kp. is_connected None (snd kp) \<and>
                     (case pi_last_seen (snd kp) of None \<Rightarrow> False | Some t \<Rightarrow> t < cutoff)) (rg_peers r))"

definition supports_ping :: "string \<Rightarrow> string option \<Rightarrow> registry \<Rightarrow> bool" where
  "supports_ping key expected r =
     (is_current_owner key expected r \<and>
      (case get_by_key key r of None \<Rightarrow> False | Some p \<Rightarrow> get_or (pi_features p) FEATURE_PING (JBool False) = JBool True))"

definition is_maker :: "string \<Rightarrow> string option \<Rightarrow> registry \<Rightarrow> bool" where
  "is_maker key expected r =
     (is_current_owner key expected r \<and> (case get_by_key key r of None \<Rightarrow> False | Some p \<Rightarrow> \<not> is_passive p))"

section \<open>The states the operations reach\<close>

datatype registry_event =
    Registered peer_info string "pubkey_id option"
  | Unregistered string "string option"
  | StatusSet string peer_status "string option"
  | Seen string "string option"
  | Cleared

inductive registry_step :: "registry \<Rightarrow> registry_event \<Rightarrow> registry \<Rightarrow> bool" where
  step_register: "register now fresh p cid vpk r = Inr (res, r') \<Longrightarrow>
     registry_step r (Registered p (conn_or_fresh cid fresh) vpk) r'"
| step_unregister: "registry_step r (Unregistered key expected) (snd (unregister key expected r))"
| step_status: "registry_step r (StatusSet key status expected) (snd (update_status now key status expected r))"
| step_seen: "registry_step r (Seen key expected) (snd (update_last_seen now key expected r))"
| step_clear: "registry_step r Cleared (registry_clear r)"

inductive registry_trace :: "registry \<Rightarrow> registry_event list \<Rightarrow> registry \<Rightarrow> bool" where
  trace_nil: "registry_trace r [] r"
| trace_snoc: "registry_trace r es r' \<Longrightarrow> registry_step r' e r'' \<Longrightarrow> registry_trace r (es @ [e]) r''"

inductive_cases registry_stepE: "registry_step r e r'"

definition registry_ok :: "registry \<Rightarrow> bool" where
  "registry_ok r =
     (distinct (dict_keys (rg_peers r)) \<and> distinct (dict_keys (rg_owners r))
      \<and> set (dict_keys (rg_owners r)) = set (dict_keys (rg_peers r))
      \<and> (\<forall>(k, p) \<in> set (rg_peers r). pi_nick p = k)
      \<and> int (length (rg_peers r)) \<le> max 0 (rg_max_peers r))"

section \<open>What registering and removing do\<close>

named_theorems reg_simps \<open>the fields of the registry after an operation\<close>

lemma registry_okD:
  assumes "registry_ok r"
  shows "distinct (dict_keys (rg_peers r))" "distinct (dict_keys (rg_owners r))"
    "set (dict_keys (rg_owners r)) = set (dict_keys (rg_peers r))"
    "dict_get (rg_peers r) k = Some p \<Longrightarrow> pi_nick p = k"
    "int (length (rg_peers r)) \<le> max 0 (rg_max_peers r)"
  using assms by (auto simp: registry_ok_def dest!: map_of_SomeD simp del: set_map)

lemma registry_ok_get:
  assumes "registry_ok r"
  shows "dict_get (rg_peers r) k = None \<longleftrightarrow> dict_get (rg_owners r) k = None"
  using registry_okD(3) [OF assms] by (simp add: map_of_eq_None_iff)

text \<open>When a nick may be taken over.\<close>

definition may_replace :: "pubkey_id option \<Rightarrow> peer_owner option \<Rightarrow> bool" where
  "may_replace vpk w =
     (case w of None \<Rightarrow> True | Some w \<Rightarrow> vpk \<noteq> None \<and> (po_verified_pubkey w = None \<or> po_verified_pubkey w = vpk))"

lemma register_ok:
  fixes p :: peer_info
  assumes r: "registry_ok r"
  defines "k \<equiv> pi_nick p"
  defines "others \<equiv> dict_del k (rg_peers r)"
  shows "register now fresh p cid vpk r =
    (if \<not> may_replace vpk (dict_get (rg_owners r) k)
     then Inl (PeerOwnershipConflictError
                 (if vpk = None then ''Peer nick already registered'' else ''Verified nick already registered''))
     else if rg_max_peers r \<le> int (length others) then Inl MaximumPeersReached
     else Inr (\<lparr>rr_peer_key = k, rr_connection_id = conn_or_fresh cid fresh,
                rr_displaced = (case (dict_get (rg_peers r) k, dict_get (rg_owners r) k) of
                   (Some q, Some w) \<Rightarrow> [\<lparr>dp_peer_key = k, dp_peer = q, dp_connection_id = po_connection_id w\<rparr>]
                 | _ \<Rightarrow> [])\<rparr>,
               \<lparr>rg_max_peers = rg_max_peers r,
                rg_peers = others @ [(k, p\<lparr>pi_last_seen := Some now\<rparr>)],
                rg_owners = dict_del k (rg_owners r)
                  @ [(k, \<lparr>po_connection_id = conn_or_fresh cid fresh, po_verified_pubkey = vpk\<rparr>)]\<rparr>))"
proof (cases "dict_get (rg_peers r) k")
  case None
  then have "dict_get (rg_owners r) k = None" using registry_ok_get [OF r] by simp
  moreover have "k \<notin> set (dict_keys (rg_peers r))" "k \<notin> set (dict_keys (rg_owners r))"
    using None calculation by (simp_all add: map_of_eq_None_iff)
  ultimately show ?thesis using None
    by (simp add: register_def displaced_by_def k_def [symmetric] others_def dict_del_fresh may_replace_def
        dict_put_fresh Let_def)
next
  case (Some q)
  then obtain w where w: "dict_get (rg_owners r) k = Some w"
    using registry_ok_get [OF r, of k] by (cases "dict_get (rg_owners r) k") auto
  have "k \<in> set (dict_keys (rg_peers r))" using Some by (metis map_of_eq_None_iff option.distinct(1) list.set_map)
  then have "Suc (length others) = length (rg_peers r)"
    unfolding others_def by (intro length_dict_del registry_okD(1) [OF r])
  then have len: "int (length (rg_peers r)) - 1 = int (length others)" by simp
  have put: "dict_put k v others = others @ [(k, v)]" for v
    unfolding others_def by (rule dict_del_put)
  show ?thesis
    using Some w len
    by (auto simp: put register_def displaced_by_def k_def [symmetric] others_def [symmetric] may_replace_def po_verified_def
        registry_remove_def dict_del_put Let_def)
qed

lemma registry_remove_fields:
  "rg_max_peers (snd (registry_remove k r)) = rg_max_peers r"
  "registry_ok r \<Longrightarrow> rg_peers (snd (registry_remove k r)) = dict_del k (rg_peers r)"
  "registry_ok r \<Longrightarrow> rg_owners (snd (registry_remove k r)) = dict_del k (rg_owners r)"
proof -
  show "rg_max_peers (snd (registry_remove k r)) = rg_max_peers r"
    by (simp add: registry_remove_def split: option.split)
  have "dict_get (rg_owners r) k = None" if "registry_ok r" "dict_get (rg_peers r) k = None"
    using registry_ok_get that by blast
  then show "registry_ok r \<Longrightarrow> rg_peers (snd (registry_remove k r)) = dict_del k (rg_peers r)"
    "registry_ok r \<Longrightarrow> rg_owners (snd (registry_remove k r)) = dict_del k (rg_owners r)"
    by (auto simp: registry_remove_def map_of_eq_None_iff dict_del_fresh split: option.split)
qed

lemma unregister_eq:
  assumes "registry_ok r"
  shows "unregister k expected r =
    (if is_current_owner k expected r then (True, snd (registry_remove k r)) else (False, r))"
proof (cases "is_current_owner k expected r")
  case True
  then have "dict_get (rg_owners r) k \<noteq> None" by (auto simp: is_current_owner_def split: option.splits)
  then have "dict_get (rg_peers r) k \<noteq> None" using registry_ok_get [OF assms] by simp
  with True show ?thesis by (auto simp: unregister_def registry_remove_def split: option.splits)
qed (simp add: unregister_def)

section \<open>The invariant\<close>

lemma registry_ok_remove:
  assumes "registry_ok r"
  shows "registry_ok (snd (registry_remove k r))"
  using assms registry_okD [OF assms] length_delete_le [of k "rg_peers r"]
  by (auto simp: registry_ok_def registry_remove_fields distinct_delete dict_keys_del set_dict_del
      simp del: set_map dest!: subsetD [OF set_dict_del] split: prod.splits)

lemma registry_ok_register:
  assumes r: "registry_ok r" and reg: "register now fresh p cid vpk r = Inr (res, r')"
  shows "registry_ok r'"
proof -
  let ?k = "pi_nick p"
  have r': "rg_max_peers r' = rg_max_peers r" "rg_peers r' = dict_del ?k (rg_peers r) @ [(?k, p\<lparr>pi_last_seen := Some now\<rparr>)]"
    "dict_keys (rg_owners r') = dict_keys (dict_del ?k (rg_owners r)) @ [?k]"
    and len: "int (length (dict_del ?k (rg_peers r))) < rg_max_peers r"
    using reg by (auto simp: register_ok [OF r] split: if_splits)
  have d: "distinct (dict_keys (dict_del ?k (rg_peers r)))" "distinct (dict_keys (dict_del ?k (rg_owners r)))"
    using registry_okD(1,2) [OF r] by (simp_all add: distinct_delete)
  have nicks: "\<forall>(k, q) \<in> set (dict_del ?k (rg_peers r)). pi_nick q = k"
    using r set_dict_del [of ?k "rg_peers r"] by (auto simp: registry_ok_def)
  have keys: "?k \<notin> set (dict_keys (dict_del ?k (rg_peers r)))" "?k \<notin> set (dict_keys (dict_del ?k (rg_owners r)))"
    "set (dict_keys (dict_del ?k (rg_owners r))) = set (dict_keys (dict_del ?k (rg_peers r)))"
    using registry_okD(3) [OF r] by (simp_all add: dict_keys_del del: set_map)
  show ?thesis
    unfolding registry_ok_def r' map_append set_append distinct_append using d nicks keys len by (simp del: set_map)
qed

lemma dict_put_nicks:
  assumes "\<forall>(k, p) \<in> set d. pi_nick p = k" "pi_nick q = key"
  shows "\<forall>(k, p) \<in> set (dict_put key q d). pi_nick p = k"
  using assms by (induction d) auto

lemma registry_ok_put:
  assumes r: "registry_ok r" and k: "dict_get (rg_peers r) key = Some p" and q: "pi_nick q = pi_nick p"
  shows "registry_ok (r\<lparr>rg_peers := dict_put key q (rg_peers r)\<rparr>)"
proof -
  have key: "key \<in> set (dict_keys (rg_peers r))" using k by (metis map_of_eq_None_iff option.distinct(1) list.set_map)
  have "\<forall>(k, p) \<in> set (dict_put key q (rg_peers r)). pi_nick p = k"
    using r q registry_okD(4) [OF r k] by (intro dict_put_nicks) (auto simp: registry_ok_def)
  then show ?thesis
    using r key by (simp add: registry_ok_def distinct_update dict_keys_put insert_absorb length_dict_put del: set_map)
qed

lemma registry_ok_status:
  assumes "registry_ok r"
  shows "registry_ok (snd (update_status now key status expected r))"
  using assms by (auto simp: update_status_def get_by_key_def Let_def intro!: registry_ok_put split: option.split)

lemma registry_ok_seen:
  assumes "registry_ok r"
  shows "registry_ok (snd (update_last_seen now key expected r))"
  using assms by (auto simp: update_last_seen_def get_by_key_def intro!: registry_ok_put split: option.split)

lemma registry_ok_init: "registry_ok (registry_init n)"
  by (simp add: registry_ok_def registry_init_def)

lemma registry_ok_clear: "registry_ok (registry_clear r)"
  by (simp add: registry_ok_def registry_clear_def)

lemma registry_ok_step:
  assumes "registry_step r e r'" "registry_ok r"
  shows "registry_ok r'"
  using assms
proof cases
  case step_unregister
  then show ?thesis using assms(2) registry_ok_remove by (simp add: unregister_eq)
qed (use assms(2) registry_ok_register registry_ok_status registry_ok_seen registry_ok_clear in auto)

lemma registry_ok_trace: "registry_trace r es r' \<Longrightarrow> registry_ok r \<Longrightarrow> registry_ok r'"
  by (induction rule: registry_trace.induct) (auto intro: registry_ok_step)

text \<open>C37: in every state the directory's operations reach, a nick has a peer exactly when it has an
  owner, no nick occurs twice, a peer is filed under its own nick, and there are at most
  \<open>max_peers\<close> of them.\<close>

theorem registry_invariant:
  assumes "registry_trace (registry_init n) es r" "0 \<le> n"
  shows "distinct (dict_keys (rg_peers r)) \<and> (get_by_key k r = None \<longleftrightarrow> get_owner k r = None)
       \<and> (\<forall>p. get_by_key k r = Some p \<longrightarrow> pi_nick p = k) \<and> int (registry_count r) \<le> n"
proof -
  have ok: "registry_ok r" using registry_ok_trace [OF assms(1)] registry_ok_init by blast
  have "rg_max_peers r = n"
    using assms(1)
  proof (induction "registry_init n" es r rule: registry_trace.induct)
    case trace_nil
    then show ?case by (simp add: registry_init_def)
  next
    case (trace_snoc es r' e r'')
    have "registry_ok r'" using registry_ok_trace [OF trace_snoc(1)] registry_ok_init by blast
    with trace_snoc(2,3) show ?case
      by (auto elim!: registry_stepE simp: register_ok unregister_eq registry_remove_fields update_status_def
          update_last_seen_def registry_clear_def Let_def split: if_splits option.splits)
  qed
  with registry_okD(1,4,5) [OF ok] registry_ok_get [OF ok] assms(2) show ?thesis
    by (auto simp: get_by_key_def get_owner_def registry_count_def)
qed

definition ex_peer :: "string \<Rightarrow> network_type \<Rightarrow> peer_info" where
  "ex_peer nick network =
     \<lparr>pi_nick = nick, pi_onion_address = NOT_SERVING_ONION_HOSTNAME, pi_port = -1, pi_status = CONNECTED,
      pi_is_directory = False, pi_network = network, pi_last_seen = None, pi_features = [],
      pi_protocol_version = 5, pi_neutrino_compat = False\<rparr>"

definition ex_registry :: registry where
  "ex_registry = \<lparr>rg_max_peers = 3,
     rg_peers = [(''alice'', (ex_peer ''alice'' MAINNET)\<lparr>pi_last_seen := Some 7\<rparr>)],
     rg_owners = [(''alice'', \<lparr>po_connection_id = ''c1'', po_verified_pubkey = Some (PkStr ''02ab'')\<rparr>)]\<rparr>"

lemma ex_registry_trace:
  "registry_trace (registry_init 3) [Registered (ex_peer ''alice'' MAINNET) ''c1'' (Some (PkStr ''02ab''))] ex_registry"
proof -
  have "\<exists>res. register 7 ''c1'' (ex_peer ''alice'' MAINNET) None (Some (PkStr ''02ab'')) (registry_init 3) = Inr (res, ex_registry)"
    unfolding register_ok [OF registry_ok_init]
    by (simp add: registry_init_def ex_registry_def ex_peer_def may_replace_def conn_or_fresh_def)
  then show ?thesis
    using step_register [of 7 "''c1''" "ex_peer ''alice'' MAINNET" None] trace_snoc [OF trace_nil]
    by (fastforce simp: conn_or_fresh_def)
qed

theorem registry_invariant_witness:
  "get_by_key ''bob'' ex_registry = None \<longleftrightarrow> get_owner ''bob'' ex_registry = None"
  using registry_invariant [OF ex_registry_trace, of "''bob''"] by simp

section \<open>Ownership of verified nicks\<close>

text \<open>The connections that have registered \<open>key\<close> with the key \<open>pk\<close>.\<close>

definition registrants :: "string \<Rightarrow> pubkey_id \<Rightarrow> registry_event list \<Rightarrow> string set" where
  "registrants key pk es = {c. \<exists>p. Registered p c (Some pk) \<in> set es \<and> pi_nick p = key}"

text \<open>Nobody but such a connection has unregistered \<open>key\<close>, and the registry was not cleared.\<close>

definition unprivileged :: "string \<Rightarrow> string set \<Rightarrow> registry_event \<Rightarrow> bool" where
  "unprivileged key conns e =
     (case e of
        Cleared \<Rightarrow> False
      | Unregistered k expected \<Rightarrow> k = key \<longrightarrow> (\<exists>c. expected = Some c \<and> c \<notin> conns)
      | _ \<Rightarrow> True)"

definition held_by :: "string \<Rightarrow> pubkey_id \<Rightarrow> string set \<Rightarrow> registry \<Rightarrow> bool" where
  "held_by key pk conns r =
     (case get_owner key r of None \<Rightarrow> False
      | Some w \<Rightarrow> po_verified_pubkey w = Some pk \<and> po_connection_id w \<in> conns)"

lemma held_by_step:
  assumes step: "registry_step r e r'" and ok: "registry_ok r" and held: "held_by key pk conns r"
    and e: "unprivileged key conns e" "registrants key pk [e] \<subseteq> conns"
  shows "held_by key pk conns r'"
  using step
proof cases
  case (step_register now fresh p cid vpk res)
  have w: "dict_get (rg_owners r') key =
      (if pi_nick p = key then Some \<lparr>po_connection_id = conn_or_fresh cid fresh, po_verified_pubkey = vpk\<rparr>
       else dict_get (rg_owners r) key)"
    using step_register(2)
    by (auto simp: register_ok [OF ok] map_add_def delete_conv' split: if_splits option.splits)
  have "vpk = Some pk" if "pi_nick p = key"
    using step_register(2) held that
    by (auto simp: register_ok [OF ok] may_replace_def held_by_def get_owner_def split: if_splits option.splits)
  with w held e(2) step_register(1) show ?thesis
    by (auto simp: held_by_def get_owner_def registrants_def)
next
  case (step_unregister k expected)
  with held e(1) show ?thesis
    by (auto simp: unregister_eq [OF ok] registry_remove_fields ok held_by_def get_owner_def delete_conv'
        is_current_owner_def unprivileged_def split: option.splits)
next
  case step_clear
  with e(1) show ?thesis by (simp add: unprivileged_def)
qed (use held in \<open>auto simp: held_by_def get_owner_def update_status_def update_last_seen_def Let_def
      split: option.split\<close>)

lemma held_by_trace:
  assumes "registry_trace r es r'" "registry_ok r" "held_by key pk conns r"
    "\<forall>e \<in> set es. unprivileged key conns e" "registrants key pk es \<subseteq> conns"
  shows "held_by key pk conns r'"
  using assms
proof (induction rule: registry_trace.induct)
  case (trace_snoc r es r' e r'')
  then have "registry_ok r'" using registry_ok_trace by blast
  moreover have "registrants key pk es \<subseteq> conns" "registrants key pk [e] \<subseteq> conns"
    using trace_snoc.prems(4) by (auto simp: registrants_def)
  ultimately show ?case using trace_snoc held_by_step by simp
qed

text \<open>C8: a nick held under a verified public key stays with that key, whatever others register, set or
  unregister, until one of the connections that proved the key unregisters it (or somebody unregisters
  it without naming a connection, or the registry is cleared).\<close>

theorem verified_nick_kept:
  assumes "registry_trace (registry_init n) es0 r"
    and "get_owner key r = Some w" "po_verified_pubkey w = Some pk"
    and "registry_trace r es r'"
    and "\<forall>e \<in> set es. unprivileged key (insert (po_connection_id w) (registrants key pk es)) e"
  shows "\<exists>w'. get_owner key r' = Some w' \<and> po_verified_pubkey w' = Some pk
       \<and> po_connection_id w' \<in> insert (po_connection_id w) (registrants key pk es)"
proof -
  let ?cs = "insert (po_connection_id w) (registrants key pk es)"
  have "registry_ok r" using registry_ok_trace [OF assms(1)] registry_ok_init by blast
  moreover have "held_by key pk ?cs r" using assms(2,3) by (simp add: held_by_def)
  ultimately have "held_by key pk ?cs r'" using held_by_trace [OF assms(4)] assms(5) by blast
  then show ?thesis by (auto simp: held_by_def split: option.splits)
qed

theorem verified_nick_kept_witness:
  "\<exists>w'. get_owner ''alice'' (snd (unregister ''alice'' (Some ''c9'') ex_registry)) = Some w'
     \<and> po_verified_pubkey w' = Some (PkStr ''02ab'')"
proof -
  have tr: "registry_trace ex_registry [Unregistered ''alice'' (Some ''c9'')]
      (snd (unregister ''alice'' (Some ''c9'') ex_registry))"
    using trace_snoc [OF trace_nil step_unregister] by simp
  show ?thesis
    using verified_nick_kept [OF ex_registry_trace _ _ tr, of "''alice''"
      "\<lparr>po_connection_id = ''c1'', po_verified_pubkey = Some (PkStr ''02ab'')\<rparr>" "PkStr ''02ab''"]
    by (auto simp: get_owner_def ex_registry_def unprivileged_def registrants_def)
qed

section \<open>The registry as a map from nicks\<close>

text \<open>The abstract registry maps a nick to its peer and its owner.\<close>

type_synonym reg_view = "string \<rightharpoonup> peer_info \<times> peer_owner"

definition reg_view :: "registry \<Rightarrow> reg_view" where
  "reg_view r k = (case (get_by_key k r, get_owner k r) of (Some p, Some w) \<Rightarrow> Some (p, w) | _ \<Rightarrow> None)"

definition spec_owns :: "reg_view \<Rightarrow> string \<Rightarrow> string option \<Rightarrow> bool" where
  "spec_owns m k expected =
     (case m k of None \<Rightarrow> False | Some (_, w) \<Rightarrow> expected = None \<or> expected = Some (po_connection_id w))"

definition spec_may_register :: "int \<Rightarrow> reg_view \<Rightarrow> string \<Rightarrow> pubkey_id option \<Rightarrow> bool" where
  "spec_may_register n m k vpk =
     (may_replace vpk (map_option snd (m k)) \<and> int (card (dom m - {k})) < n)"

definition spec_modify :: "reg_view \<Rightarrow> string \<Rightarrow> string option \<Rightarrow> (peer_info \<Rightarrow> peer_info) \<Rightarrow> reg_view" where
  "spec_modify m k expected f =
     (case m k of Some (p, w) \<Rightarrow> if spec_owns m k expected then m(k \<mapsto> (f p, w)) else m | None \<Rightarrow> m)"

definition touched :: "int \<Rightarrow> peer_status \<Rightarrow> peer_info \<Rightarrow> peer_info" where
  "touched now status p =
     (let p1 = p\<lparr>pi_status := status\<rparr> in
      if status \<in> {CONNECTED, HANDSHAKED} then p1\<lparr>pi_last_seen := Some now\<rparr> else p1)"

lemma reg_view_owner: "registry_ok r \<Longrightarrow> map_option snd (reg_view r k) = dict_get (rg_owners r) k"
  using registry_ok_get [of r k] by (auto simp: reg_view_def get_by_key_def get_owner_def split: option.splits)

lemma reg_view_peer: "registry_ok r \<Longrightarrow> map_option fst (reg_view r k) = dict_get (rg_peers r) k"
  using registry_ok_get [of r k] by (auto simp: reg_view_def get_by_key_def get_owner_def split: option.splits)

lemma dom_reg_view:
  assumes "registry_ok r"
  shows "dom (reg_view r) = set (dict_keys (rg_peers r))"
proof -
  have "reg_view r k = None \<longleftrightarrow> dict_get (rg_peers r) k = None" for k
    using reg_view_peer [OF assms, of k] by (metis option.map_disc_iff)
  then show ?thesis by (auto simp: dom_def map_of_eq_None_iff)
qed

lemma card_others:
  assumes "registry_ok r"
  shows "card (dom (reg_view r) - {k}) = length (dict_del k (rg_peers r))"
proof -
  have "dom (reg_view r) - {k} = set (dict_keys (dict_del k (rg_peers r)))"
    using dom_reg_view [OF assms] by (simp add: dict_keys_del del: set_map)
  moreover have "distinct (dict_keys (dict_del k (rg_peers r)))"
    using registry_okD(1) [OF assms] by (simp add: distinct_delete)
  ultimately show ?thesis by (metis distinct_card length_map)
qed

lemma spec_owns_iff: "registry_ok r \<Longrightarrow> spec_owns (reg_view r) k expected \<longleftrightarrow> is_current_owner k expected r"
  using reg_view_owner [of r k]
  by (cases "reg_view r k") (auto simp: spec_owns_def is_current_owner_def split: option.splits)

lemma reg_view_modify:
  assumes ok: "registry_ok r"
  shows "reg_view (if is_current_owner k expected r then (case get_by_key k r of None \<Rightarrow> r
            | Some p \<Rightarrow> r\<lparr>rg_peers := dict_put k (f p) (rg_peers r)\<rparr>) else r)
       = spec_modify (reg_view r) k expected f"
proof (cases "reg_view r k")
  case None
  then have "dict_get (rg_owners r) k = None" using reg_view_owner [OF ok, of k] by simp
  with None show ?thesis by (simp add: is_current_owner_def spec_modify_def)
next
  case (Some pw)
  then have "dict_get (rg_peers r) k = Some (fst pw)" "dict_get (rg_owners r) k = Some (snd pw)"
    "get_by_key k r = Some (fst pw)"
    using reg_view_owner [OF ok, of k] reg_view_peer [OF ok, of k] by (simp_all add: get_by_key_def)
  moreover from this have eq: "(if is_current_owner k expected r then (case get_by_key k r of None \<Rightarrow> r
      | Some p \<Rightarrow> r\<lparr>rg_peers := dict_put k (f p) (rg_peers r)\<rparr>) else r)
    = (if is_current_owner k expected r then r\<lparr>rg_peers := dict_put k (f (fst pw)) (rg_peers r)\<rparr> else r)" by simp
  ultimately show ?thesis using Some unfolding eq
    by (cases pw) (auto simp: spec_modify_def spec_owns_iff [OF ok] reg_view_def get_owner_def get_by_key_def
        update_conv' fun_eq_iff cong: option.case_cong)
qed

lemma update_status_eq:
  "update_status now k status expected r =
     (is_current_owner k expected r \<and> get_by_key k r \<noteq> None,
      if is_current_owner k expected r then (case get_by_key k r of None \<Rightarrow> r
        | Some p \<Rightarrow> r\<lparr>rg_peers := dict_put k (touched now status p) (rg_peers r)\<rparr>) else r)"
  by (auto simp: update_status_def touched_def Let_def split: option.split)

lemma update_last_seen_eq:
  "update_last_seen now k expected r =
     (is_current_owner k expected r \<and> get_by_key k r \<noteq> None,
      if is_current_owner k expected r then (case get_by_key k r of None \<Rightarrow> r
        | Some p \<Rightarrow> r\<lparr>rg_peers := dict_put k (p\<lparr>pi_last_seen := Some now\<rparr>) (rg_peers r)\<rparr>) else r)"
  by (auto simp: update_last_seen_def split: option.split)

lemma reg_view_unregister:
  assumes ok: "registry_ok r"
  shows "reg_view (snd (unregister k expected r)) = (if spec_owns (reg_view r) k expected then (reg_view r)(k := None) else reg_view r)"
  by (auto simp: unregister_eq [OF ok] spec_owns_iff [OF ok] reg_view_def get_by_key_def get_owner_def
      registry_remove_fields ok delete_conv' fun_eq_iff split: option.splits)

lemma reg_view_register:
  assumes ok: "registry_ok r"
  shows "case register now fresh p cid vpk r of
           Inl _ \<Rightarrow> \<not> spec_may_register (rg_max_peers r) (reg_view r) (pi_nick p) vpk
         | Inr (res, r') \<Rightarrow> spec_may_register (rg_max_peers r) (reg_view r) (pi_nick p) vpk
             \<and> reg_view r' = (reg_view r)(pi_nick p \<mapsto> (p\<lparr>pi_last_seen := Some now\<rparr>,
                  \<lparr>po_connection_id = conn_or_fresh cid fresh, po_verified_pubkey = vpk\<rparr>))"
  by (auto simp: register_ok [OF ok] spec_may_register_def reg_view_owner [OF ok] card_others [OF ok])
     (auto simp: reg_view_def get_by_key_def get_owner_def map_add_def delete_conv' fun_eq_iff split: option.splits)

text \<open>C23: the registry implements the map from nicks to owned peers. Registration succeeds exactly when
  the nick is free, held by an unverified owner while the newcomer is verified, or held under the same
  key, and a place is left; it then binds the nick to the newcomer and nothing else changes. Removal,
  status changes and liveness updates act on the nick they name when the connection they name owns it,
  and change nothing otherwise.\<close>

theorem registry_refines_map:
  assumes "registry_trace (registry_init n) es r"
  shows "(case register now fresh p cid vpk r of
            Inl _ \<Rightarrow> \<not> spec_may_register (rg_max_peers r) (reg_view r) (pi_nick p) vpk
          | Inr (res, r') \<Rightarrow> spec_may_register (rg_max_peers r) (reg_view r) (pi_nick p) vpk
              \<and> reg_view r' = (reg_view r)(pi_nick p \<mapsto> (p\<lparr>pi_last_seen := Some now\<rparr>,
                   \<lparr>po_connection_id = conn_or_fresh cid fresh, po_verified_pubkey = vpk\<rparr>)))
       \<and> unregister k expected r =
            (spec_owns (reg_view r) k expected, snd (unregister k expected r))
       \<and> reg_view (snd (unregister k expected r)) =
            (if spec_owns (reg_view r) k expected then (reg_view r)(k := None) else reg_view r)
       \<and> reg_view (snd (update_status now k status expected r)) =
            spec_modify (reg_view r) k expected (touched now status)
       \<and> reg_view (snd (update_last_seen now k expected r)) =
            spec_modify (reg_view r) k expected (\<lambda>p. p\<lparr>pi_last_seen := Some now\<rparr>)
       \<and> reg_view (registry_clear r) = (\<lambda>_. None)"
proof -
  have ok: "registry_ok r" using registry_ok_trace [OF assms] registry_ok_init by blast
  have "unregister k expected r = (spec_owns (reg_view r) k expected, snd (unregister k expected r))"
    by (simp add: unregister_eq [OF ok] spec_owns_iff [OF ok])
  moreover have "reg_view (registry_clear r) = (\<lambda>_. None)"
    by (simp add: reg_view_def registry_clear_def get_by_key_def fun_eq_iff)
  ultimately show ?thesis
    using reg_view_register [OF ok] reg_view_unregister [OF ok] reg_view_modify [OF ok]
    by (simp add: update_status_eq update_last_seen_eq)
qed

theorem registry_refines_map_witness:
  "\<not> spec_may_register 3 (reg_view ex_registry) ''alice'' (Some (PkStr ''03cd''))
   \<and> isl (register 9 ''c2'' (ex_peer ''alice'' MAINNET) None (Some (PkStr ''03cd'')) ex_registry)"
proof -
  let ?reg = "register 9 ''c2'' (ex_peer ''alice'' MAINNET) None (Some (PkStr ''03cd'')) ex_registry"
  have l: "isl ?reg" by code_simp
  then obtain e where e: "?reg = Inl e" by (cases ?reg) simp_all
  have f: "rg_max_peers ex_registry = 3" "pi_nick (ex_peer ''alice'' MAINNET) = ''alice''"
    by (simp_all add: ex_registry_def ex_peer_def)
  have "case ?reg of Inl _ \<Rightarrow> \<not> spec_may_register 3 (reg_view ex_registry) ''alice'' (Some (PkStr ''03cd'')) | Inr _ \<Rightarrow> True"
    using registry_refines_map [OF ex_registry_trace, where now = 9 and fresh = "''c2''"
      and p = "ex_peer ''alice'' MAINNET" and cid = None and vpk = "Some (PkStr ''03cd'')"]
    unfolding e f by simp
  with l show ?thesis by (simp add: e)
qed

section \<open>Statistics\<close>

lemma stats_foldl:
  "foldl stats_step st ps =
     (let live = filter (is_connected None) ps; n = (\<lambda>f. length (filter f live)) in
      \<lparr>st_total = st_total st, st_connected = st_connected st + length live,
       st_passive = st_passive st + n is_passive, st_active = st_active st + n (\<lambda>p. \<not> is_passive p),
       st_neutrino_compat = st_neutrino_compat st + n (has_feature FEATURE_NEUTRINO_COMPAT),
       st_peerlist_features = st_peerlist_features st + n (has_feature FEATURE_PEERLIST_FEATURES),
       st_push_encrypted = st_push_encrypted st + n (has_feature FEATURE_PUSH_ENCRYPTED)\<rparr>)"
  by (induction ps arbitrary: st) (simp_all add: Let_def stats_step_def is_connected_def bump_def)

text \<open>the one-pass statistics equal what the queries count: the connected, passive and active peers
  are the lengths of the lists the registry returns for them, passive and active peers make up the
  connected ones, and no count exceeds the number of registered peers.\<close>

theorem stats_agree_with_queries:
  "st_total (get_stats r) = registry_count r
   \<and> st_connected (get_stats r) = length (iter_connected None r)
   \<and> st_passive (get_stats r) = length (get_passive_peers None r)
   \<and> st_active (get_stats r) = length (get_active_peers None r)
   \<and> st_passive (get_stats r) + st_active (get_stats r) = st_connected (get_stats r)
   \<and> st_connected (get_stats r) \<le> st_total (get_stats r)
   \<and> max (st_neutrino_compat (get_stats r)) (max (st_peerlist_features (get_stats r)) (st_push_encrypted (get_stats r)))
       \<le> st_connected (get_stats r)"
proof -
  define live where "live = iter_connected None r"
  have st: "st_total (get_stats r) = registry_count r" "st_connected (get_stats r) = length live"
    "st_passive (get_stats r) = length (filter is_passive live)"
    "st_active (get_stats r) = length (filter (\<lambda>p. \<not> is_passive p) live)"
    "st_neutrino_compat (get_stats r) = length (filter (has_feature FEATURE_NEUTRINO_COMPAT) live)"
    "st_peerlist_features (get_stats r) = length (filter (has_feature FEATURE_PEERLIST_FEATURES) live)"
    "st_push_encrypted (get_stats r) = length (filter (has_feature FEATURE_PUSH_ENCRYPTED) live)"
    unfolding get_stats_def stats_foldl Let_def live_def iter_connected_def registry_count_def by simp_all
  have "length live \<le> registry_count r"
    unfolding live_def iter_connected_def registry_count_def by (metis length_filter_le length_map)
  then show ?thesis
    unfolding st by (simp add: live_def get_passive_peers_def get_active_peers_def sum_length_filter_compl)
qed

section \<open>The contract of the registry\<close>

text \<open>What the router and the heartbeat use of the registry.\<close>

locale peer_directory =
  fixes ok :: "'r \<Rightarrow> bool"
    and peer_at :: "string \<Rightarrow> 'r \<Rightarrow> peer_info option"
    and conn_of :: "string \<Rightarrow> 'r \<Rightarrow> string option"
    and owns :: "string \<Rightarrow> string option \<Rightarrow> 'r \<Rightarrow> bool"
    and live :: "network_type option \<Rightarrow> 'r \<Rightarrow> (string \<times> peer_info \<times> string) list"
    and idle :: "int \<Rightarrow> 'r \<Rightarrow> (string \<times> peer_info \<times> string) list"
  assumes owns_iff: "owns k (Some c) r \<longleftrightarrow> conn_of k r = Some c"
    and live_iff: "ok r \<Longrightarrow> (k, p, c) \<in> set (live n r) \<longleftrightarrow>
      peer_at k r = Some p \<and> conn_of k r = Some c \<and> is_connected n p"
    and live_distinct: "ok r \<Longrightarrow> distinct (map fst (live n r))"
    and idle_iff: "ok r \<Longrightarrow> (k, p, c) \<in> set (idle t r) \<longleftrightarrow>
      peer_at k r = Some p \<and> conn_of k r = Some c \<and> is_connected None p \<and> (\<exists>s. pi_last_seen p = Some s \<and> s < t)"
    and idle_distinct: "ok r \<Longrightarrow> distinct (map fst (idle t r))"
    and nick_key: "ok r \<Longrightarrow> peer_at k r = Some p \<Longrightarrow> pi_nick p = k"
begin

text \<open>Everything a broadcast is addressed to still passes the checks made before the send.\<close>

lemma target_sendable:
  assumes "ok r" "(k, p, c) \<in> set (live n r)"
  shows "owns k (Some c) r \<and> peer_at k r = Some p \<and> pi_status p = HANDSHAKED \<and> pi_nick p = k"
  using assms live_iff nick_key owns_iff by (auto simp: is_connected_def)

text \<open>The idle peers at an earlier time are idle at a later one.\<close>

lemma idle_mono: "ok r \<Longrightarrow> t \<le> t' \<Longrightarrow> set (idle t r) \<subseteq> set (idle t' r)"
  by (auto simp: idle_iff)

lemma live_length:
  assumes "ok r" "finite S" "\<And>k p. peer_at k r = Some p \<Longrightarrow> k \<in> S"
  shows "length (live n r) \<le> card S"
proof -
  have "set (map fst (live n r)) \<subseteq> S" using assms live_iff by auto
  then have "card (set (map fst (live n r))) \<le> card S" using assms(2) by (rule card_mono [rotated])
  moreover have "card (set (map fst (live n r))) = length (live n r)"
    using live_distinct [OF assms(1)] distinct_card by (metis length_map)
  ultimately show ?thesis by simp
qed

end

lemma set_owned:
  assumes "distinct (dict_keys (rg_peers r))"
  shows "(k, p, c) \<in> set (List.map_filter (owned r) (filter P (rg_peers r))) \<longleftrightarrow>
    get_by_key k r = Some p \<and> get_connection_id k r = Some c \<and> P (k, p)"
  using assms
  by (force simp: List.map_filter_def owned_def get_by_key_def get_connection_id_def get_owner_def image_iff)

lemma distinct_owned:
  assumes "distinct (dict_keys d)"
  shows "distinct (map fst (List.map_filter (owned r) (filter P d)))"
proof -
  have "map fst (List.map_filter (owned r) (filter P d)) = map fst (filter (\<lambda>kp. owned r kp \<noteq> None) (filter P d))"
    by (induction d) (auto simp: List.map_filter_simps owned_def split: option.split)
  also have "distinct \<dots>" using assms by (simp add: filter_filter distinct_map_filter)
  finally show ?thesis .
qed

interpretation reg: peer_directory registry_ok get_by_key get_connection_id is_current_owner
    iter_connected_owners get_peers_idle_since
proof unfold_locales
  fix k c :: string and r :: registry
  show "is_current_owner k (Some c) r \<longleftrightarrow> get_connection_id k r = Some c"
    by (auto simp: is_current_owner_def get_connection_id_def get_owner_def split: option.split)
next
  fix r :: registry and k c p n t
  assume ok: "registry_ok r"
  note d = registry_okD(1) [OF ok]
  show "(k, p, c) \<in> set (iter_connected_owners n r) \<longleftrightarrow>
      get_by_key k r = Some p \<and> get_connection_id k r = Some c \<and> is_connected n p"
    by (simp add: iter_connected_owners_def set_owned [OF d])
  show "distinct (map fst (iter_connected_owners n r))"
    by (simp add: iter_connected_owners_def distinct_owned [OF d])
  show "(k, p, c) \<in> set (get_peers_idle_since t r) \<longleftrightarrow> get_by_key k r = Some p \<and> get_connection_id k r = Some c
      \<and> is_connected None p \<and> (\<exists>s. pi_last_seen p = Some s \<and> s < t)"
    by (auto simp: get_peers_idle_since_def set_owned [OF d] split: option.splits)
  show "distinct (map fst (get_peers_idle_since t r))"
    by (simp add: get_peers_idle_since_def distinct_owned [OF d])
  show "get_by_key k r = Some p \<Longrightarrow> pi_nick p = k"
    using registry_okD(4) [OF ok] by (simp add: get_by_key_def)
qed

end
