(* ===== verification/Jm_Rate_Limiter.thy ===== *)
theory Jm_Rate_Limiter
  imports Py_Text Py_Dict Complex_Main
begin

text \<open>
  Token buckets and the per-peer rate limiter, \<open>jmcore/rate_limiter.py\<close>. A Python float is a rational
  number; every float operation is followed by the rounding function \<open>fl\<close>, an argument of the
  definitions, as the hardware rounds to the nearest double. The time of \<open>time.monotonic()\<close> is an argument.
\<close>

record token_bucket =
  tb_capacity :: int
  tb_refill_rate :: rat
  tb_tokens :: rat
  tb_last_refill :: rat

definition new_bucket :: "(rat \<Rightarrow> rat) \<Rightarrow> rat \<Rightarrow> int \<Rightarrow> rat \<Rightarrow> token_bucket" where
  "new_bucket fl now capacity rate =
     \<lparr>tb_capacity = capacity, tb_refill_rate = rate, tb_tokens = fl (of_int capacity), tb_last_refill = now\<rparr>"

definition refilled :: "(rat \<Rightarrow> rat) \<Rightarrow> rat \<Rightarrow> token_bucket \<Rightarrow> rat" where
  "refilled fl now b =
     min (of_int (tb_capacity b))
         (fl (tb_tokens b + fl (fl (now - tb_last_refill b) * tb_refill_rate b)))"

definition consume :: "(rat \<Rightarrow> rat) \<Rightarrow> rat \<Rightarrow> int \<Rightarrow> token_bucket \<Rightarrow> bool \<times> token_bucket" where
  "consume fl now n b =
     (let t = refilled fl now b; b' = b\<lparr>tb_last_refill := now\<rparr> in
      if t \<ge> of_int n then (True, b'\<lparr>tb_tokens := fl (t - of_int n)\<rparr>)
      else (False, b'\<lparr>tb_tokens := t\<rparr>))"

definition get_delay_seconds :: "(rat \<Rightarrow> rat) \<Rightarrow> token_bucket \<Rightarrow> rat" where
  "get_delay_seconds fl b =
     (if tb_tokens b \<ge> 1 then 0 else fl (fl (1 - tb_tokens b) / tb_refill_rate b))"

definition bucket_reset :: "(rat \<Rightarrow> rat) \<Rightarrow> rat \<Rightarrow> token_bucket \<Rightarrow> token_bucket" where
  "bucket_reset fl now b = b\<lparr>tb_tokens := fl (of_int (tb_capacity b)), tb_last_refill := now\<rparr>"

section \<open>The limiter\<close>

datatype rate_limit_action = ALLOW | DELAY | RL_DISCONNECT

record rate_limiter =
  rl_rate_limit :: int
  rl_burst_limit :: int
  rl_disconnect_threshold :: "int option"
  rl_buckets :: "(string, token_bucket) dict"
  rl_violation_counts :: "(string, int) dict"

definition rate_limiter_init :: "int \<Rightarrow> int option \<Rightarrow> int option \<Rightarrow> rate_limiter" where
  "rate_limiter_init rate burst threshold =
     \<lparr>rl_rate_limit = rate,
      rl_burst_limit = (case burst of Some b \<Rightarrow> if b \<noteq> 0 then b else rate * 10 | None \<Rightarrow> rate * 10),
      rl_disconnect_threshold = threshold, rl_buckets = [], rl_violation_counts = []\<rparr>"

definition get_violation_count :: "rate_limiter \<Rightarrow> string \<Rightarrow> int" where
  "get_violation_count rl key = (case dict_get (rl_violation_counts rl) key of None \<Rightarrow> 0 | Some n \<Rightarrow> n)"

definition rl_check ::
  "(rat \<Rightarrow> rat) \<Rightarrow> rat \<Rightarrow> string \<Rightarrow> rate_limiter \<Rightarrow> (rate_limit_action \<times> rat) \<times> rate_limiter" where
  "rl_check fl now key rl =
     (let b = (case dict_get (rl_buckets rl) key of
                 Some b \<Rightarrow> b
               | None \<Rightarrow> new_bucket fl now (rl_burst_limit rl) (fl (of_int (rl_rate_limit rl))));
          (allowed, b') = consume fl now 1 b;
          rl1 = rl\<lparr>rl_buckets := dict_put key b' (rl_buckets rl)\<rparr>
      in if allowed then ((ALLOW, 0), rl1)
         else
           let violations = get_violation_count rl key + 1;
               rl2 = rl1\<lparr>rl_violation_counts := dict_put key violations (rl_violation_counts rl)\<rparr>
           in if (case rl_disconnect_threshold rl of None \<Rightarrow> False | Some t \<Rightarrow> violations \<ge> t)
              then ((RL_DISCONNECT, 0), rl2)
              else ((DELAY, get_delay_seconds fl b'), rl2))"

definition remove_peer :: "string \<Rightarrow> rate_limiter \<Rightarrow> rate_limiter" where
  "remove_peer key rl =
     rl\<lparr>rl_buckets := dict_del key (rl_buckets rl), rl_violation_counts := dict_del key (rl_violation_counts rl)\<rparr>"

definition get_delay_for_peer :: "(rat \<Rightarrow> rat) \<Rightarrow> rate_limiter \<Rightarrow> string \<Rightarrow> rat" where
  "get_delay_for_peer fl rl key =
     (case dict_get (rl_buckets rl) key of None \<Rightarrow> 0 | Some b \<Rightarrow> get_delay_seconds fl b)"

definition cleanup_old_peers :: "(rat \<Rightarrow> rat) \<Rightarrow> rat \<Rightarrow> rat \<Rightarrow> rate_limiter \<Rightarrow> nat \<times> rate_limiter" where
  "cleanup_old_peers fl now max_idle rl =
     (let stale = map fst (filter (\<lambda>kb. fl (now - tb_last_refill (snd kb)) > max_idle) (rl_buckets rl))
      in (length stale, foldl (\<lambda>s k. remove_peer k s) rl stale))"

definition total_violations :: "rate_limiter \<Rightarrow> int" where
  "total_violations rl = sum_list (map snd (rl_violation_counts rl))"

definition top_violators :: "rate_limiter \<Rightarrow> (string \<times> int) list" where
  "top_violators rl = take 10 (sort_key (\<lambda>kv. - snd kv) (rl_violation_counts rl))"

definition rl_clear :: "rate_limiter \<Rightarrow> rate_limiter" where
  "rl_clear rl = rl\<lparr>rl_buckets := [], rl_violation_counts := []\<rparr>"

section \<open>Buckets\<close>

text \<open>What rounding to the nearest double is known to do: it is monotone and keeps small integers.\<close>

definition rounding :: "(rat \<Rightarrow> rat) \<Rightarrow> bool" where
  "rounding fl = (mono fl \<and> (\<forall>n. \<bar>n\<bar> \<le> 2 ^ 53 \<longrightarrow> fl (of_int n) = of_int n))"

definition bucket_ok :: "token_bucket \<Rightarrow> bool" where
  "bucket_ok b = (0 \<le> tb_tokens b \<and> tb_tokens b \<le> of_int (tb_capacity b)
     \<and> tb_capacity b \<le> 2 ^ 53 \<and> 0 \<le> tb_refill_rate b)"

lemma rounding_id: "rounding (\<lambda>x. x)"
  by (simp add: rounding_def mono_def)

lemma rounding_nonneg:
  assumes "rounding fl" "0 \<le> x"
  shows "0 \<le> fl x"
proof -
  have "fl (of_int 0) = of_int 0" using assms(1) by (simp add: rounding_def del: of_int_0)
  moreover have "fl 0 \<le> fl x" using assms by (auto simp: rounding_def mono_def)
  ultimately show ?thesis by simp
qed

lemma rounding_le_int:
  assumes fl: "rounding fl" and n: "\<bar>n\<bar> \<le> 2 ^ 53" and x: "x \<le> of_int n"
  shows "fl x \<le> of_int n"
proof -
  have "fl x \<le> fl (of_int n)" using fl x by (simp add: rounding_def mono_def)
  also have "\<dots> = of_int n" using fl n by (simp only: rounding_def)
  finally show ?thesis .
qed

lemma refilled_bounds:
  assumes "rounding fl" "bucket_ok b" "tb_last_refill b \<le> now"
  shows "0 \<le> refilled fl now b" "refilled fl now b \<le> of_int (tb_capacity b)"
proof -
  have cap: "0 \<le> (of_int (tb_capacity b) :: rat)" using assms(2) unfolding bucket_ok_def by linarith
  have "0 \<le> fl (fl (now - tb_last_refill b) * tb_refill_rate b)"
    using assms(2,3) rounding_nonneg [OF assms(1), of "now - tb_last_refill b"]
    by (intro rounding_nonneg [OF assms(1)]) (simp add: bucket_ok_def)
  then have "0 \<le> fl (tb_tokens b + fl (fl (now - tb_last_refill b) * tb_refill_rate b))"
    using assms(2) by (intro rounding_nonneg [OF assms(1)]) (simp add: bucket_ok_def)
  with cap show "0 \<le> refilled fl now b" by (simp add: refilled_def)
  show "refilled fl now b \<le> of_int (tb_capacity b)" by (simp add: refilled_def)
qed

lemma consume_ok:
  assumes fl: "rounding fl" and b: "bucket_ok b" and t: "tb_last_refill b \<le> now" and n: "0 \<le> n"
  shows "bucket_ok (snd (consume fl now n b)) \<and> tb_last_refill (snd (consume fl now n b)) = now"
proof -
  note r = refilled_bounds [OF fl b t]
  have "fl (refilled fl now b - of_int n) \<le> of_int (tb_capacity b)"
    if "of_int n \<le> refilled fl now b"
  proof (rule rounding_le_int [OF fl])
    have "(0 :: rat) \<le> of_int (tb_capacity b)" using r by linarith
    then show "\<bar>tb_capacity b\<bar> \<le> 2 ^ 53" using b by (simp add: bucket_ok_def)
    show "refilled fl now b - of_int n \<le> of_int (tb_capacity b)" using r n by (simp add: order_trans)
  qed
  with r b rounding_nonneg [OF fl] show ?thesis by (auto simp: consume_def bucket_ok_def Let_def)
qed

text \<open>A run of requests: the time, the size asked for and whether it was granted.\<close>

fun run_bucket :: "(rat \<Rightarrow> rat) \<Rightarrow> (rat \<times> int) list \<Rightarrow> token_bucket \<Rightarrow> bool list \<times> token_bucket" where
  "run_bucket fl [] b = ([], b)"
| "run_bucket fl ((now, n) # rs) b =
     (let (g, b1) = consume fl now n b; (gs, b2) = run_bucket fl rs b1 in (g # gs, b2))"

definition granted :: "(rat \<times> int) list \<Rightarrow> bool list \<Rightarrow> int" where
  "granted rs gs = sum_list (map (\<lambda>((_, n), g). if g then n else 0) (zip rs gs))"

text \<open>
  Rounding to the nearest double, round half to even: beside the above, the relative error is at most \<open>2\<^sup>-\<^sup>5\<^sup>3\<close> and
  the absolute error of a subnormal result at most \<open>2\<^sup>-\<^sup>1\<^sup>0\<^sup>7\<^sup>4\<close>, far from overflow.
\<close>

definition float_eps :: rat where
  "float_eps = 1 / 2 ^ 53"

definition float_tiny :: rat where
  "float_tiny = 1 / 2 ^ 1074"

definition nearest_double :: "(rat \<Rightarrow> rat) \<Rightarrow> bool" where
  "nearest_double fl \<longleftrightarrow> rounding fl \<and> (\<forall>x. \<bar>x\<bar> \<le> 2 ^ 200 \<longrightarrow> \<bar>fl x - x\<bar> \<le> float_eps * \<bar>x\<bar> + float_tiny)"

lemma float_eps_bounds: "0 < float_eps" "float_eps \<le> 1"
  by (simp_all add: float_eps_def)

lemma float_tiny_bounds: "0 < float_tiny" "(2 ^ 55) * float_tiny \<le> 2 * float_eps"
  by (simp_all add: float_tiny_def float_eps_def)

lemma nearest_double_le:
  assumes "nearest_double fl" "0 \<le> x" "x \<le> 2 ^ 200"
  shows "fl x \<le> x + (float_eps * x + float_tiny)"
proof -
  have "\<bar>fl x - x\<bar> \<le> float_eps * x + float_tiny" using assms unfolding nearest_double_def by (metis abs_of_nonneg)
  then show ?thesis by linarith
qed

text \<open>What a refill adds, and that a value which is cut off at the capacity has the error of the capacity.\<close>

lemma refill_le:
  assumes fl: "nearest_double fl" and d: "0 \<le> d" "d \<le> 2 ^ 53" and r: "0 \<le> r" "r \<le> 2 ^ 53"
  shows "fl (fl d * r) \<le> (1 + 4 * float_eps) * (d * r) + (2 ^ 54 + 1) * float_tiny" "0 \<le> fl (fl d * r)" "fl (fl d * r) \<le> 2 ^ 110"
proof -
  note eps = float_eps_bounds and tiny = float_tiny_bounds
  have rd: "rounding fl" using fl by (simp add: nearest_double_def)
  have e0: "0 \<le> fl d" using rounding_nonneg [OF rd d(1)] .
  have e1: "fl d \<le> 2 ^ 53" using rounding_le_int [OF rd, of "2 ^ 53" d] d(2) by simp
  have e2: "fl d \<le> (1 + float_eps) * d + float_tiny"
    using nearest_double_le [OF fl d(1)] d(2) by (simp add: algebra_simps)
  have p0: "0 \<le> fl d * r" using e0 r(1) by simp
  have p1: "fl d * r \<le> 2 ^ 53 * 2 ^ 53" by (rule mult_mono) (use e0 e1 r in auto)
  then have p2: "fl (fl d * r) \<le> (1 + float_eps) * (fl d * r) + float_tiny"
    using nearest_double_le [OF fl p0] by (simp add: algebra_simps)
  show "0 \<le> fl (fl d * r)" using rounding_nonneg [OF rd p0] .
  have "fl d * r \<le> ((1 + float_eps) * d + float_tiny) * r" using e2 r(1) by (rule mult_right_mono)
  then have "(1 + float_eps) * (fl d * r) \<le> (1 + float_eps) * (((1 + float_eps) * d + float_tiny) * r)"
    using eps by (intro mult_left_mono) auto
  also have "\<dots> = (1 + float_eps) * (1 + float_eps) * (d * r) + (1 + float_eps) * r * float_tiny" by (simp add: algebra_simps)
  also have "(1 + float_eps) * (1 + float_eps) * (d * r) \<le> (1 + 4 * float_eps) * (d * r)"
  proof (rule mult_right_mono)
    have "float_eps * float_eps \<le> 1 * float_eps" using eps by (intro mult_right_mono) auto
    then show "(1 + float_eps) * (1 + float_eps) \<le> 1 + 4 * float_eps" using eps by (simp add: algebra_simps)
    show "0 \<le> d * r" using d r by simp
  qed
  also have "(1 + float_eps) * r * float_tiny \<le> 2 ^ 54 * float_tiny"
  proof (rule mult_right_mono)
    have "(1 + float_eps) * r \<le> 2 * 2 ^ 53" by (rule mult_mono) (use eps r in auto)
    then show "(1 + float_eps) * r \<le> 2 ^ 54" by simp
  qed (use tiny in simp)
  finally show "fl (fl d * r) \<le> (1 + 4 * float_eps) * (d * r) + (2 ^ 54 + 1) * float_tiny"
    using p2 by (simp add: algebra_simps)
  have "(1 + float_eps) * (fl d * r) \<le> 2 * (2 ^ 53 * 2 ^ 53)" by (rule mult_mono) (use eps p0 p1 in auto)
  moreover have "float_tiny \<le> 1" by (simp add: float_tiny_def)
  ultimately show "fl (fl d * r) \<le> 2 ^ 110" using p2 by simp
qed

lemma capped_le:
  assumes fl: "nearest_double fl" and x: "0 \<le> x" "x \<le> 2 ^ 200" and c: "0 \<le> c"
  shows "min c (fl x) \<le> x + (float_eps * c + float_tiny)"
proof (cases "x \<le> c")
  case True
  then have "float_eps * x \<le> float_eps * c" using float_eps_bounds by (intro mult_left_mono) auto
  with nearest_double_le [OF fl x] show ?thesis by linarith
next
  case False
  have "0 \<le> float_eps * c" using float_eps_bounds c by simp
  with False show ?thesis using float_tiny_bounds(1) by linarith
qed

definition request_error :: "int \<Rightarrow> rat" where
  "request_error capacity = 2 * float_eps * (of_int capacity + 1)"

lemma consume_spent:
  assumes fl: "nearest_double fl" and b: "bucket_ok b" and rate: "tb_refill_rate b \<le> 2 ^ 53"
    and t: "0 \<le> tb_last_refill b" "tb_last_refill b \<le> now" "now \<le> 2 ^ 53" and n: "0 \<le> n" and c: "consume fl now n b = (g, b1)"
  shows "of_int (if g then n else 0) + tb_tokens b1 \<le>
    tb_tokens b + (1 + 4 * float_eps) * ((now - tb_last_refill b) * tb_refill_rate b) + request_error (tb_capacity b)"
proof -
  define cap where "cap = (of_int (tb_capacity b) :: rat)"
  define x where "x = tb_tokens b + fl (fl (now - tb_last_refill b) * tb_refill_rate b)"
  have tok: "0 \<le> tb_tokens b" "tb_tokens b \<le> cap" "0 \<le> tb_refill_rate b" using b by (simp_all add: bucket_ok_def cap_def)
  have "tb_capacity b \<le> 2 ^ 53" using b by (simp add: bucket_ok_def)
  then have cap53: "cap \<le> 2 ^ 53" unfolding cap_def using of_int_le_iff [of "tb_capacity b" "2 ^ 53", where ?'a = rat] by simp
  have cap0: "0 \<le> cap" using tok by linarith
  note refill = refill_le [OF fl _ _ tok(3) rate, of "now - tb_last_refill b"]
  have add: "fl (fl (now - tb_last_refill b) * tb_refill_rate b) \<le>
      (1 + 4 * float_eps) * ((now - tb_last_refill b) * tb_refill_rate b) + (2 ^ 54 + 1) * float_tiny"
    and x: "0 \<le> x" "x \<le> 2 ^ 200" using refill t tok cap53 by (auto simp: x_def)
  have r: "refilled fl now b = min cap (fl x)" by (simp add: refilled_def cap_def x_def)
  have rx: "refilled fl now b \<le> x + (float_eps * cap + float_tiny)" unfolding r by (rule capped_le [OF fl x cap0])
  have rb: "refilled fl now b \<le> cap" by (simp add: r)
  have spent: "of_int (if g then n else 0) + tb_tokens b1 \<le> refilled fl now b + (float_eps * cap + float_tiny)"
  proof (cases "of_int n \<le> refilled fl now b")
    case True
    define y where "y = refilled fl now b - of_int n"
    have y: "0 \<le> y" "y \<le> cap" using True rb n by (auto simp: y_def)
    have "fl y \<le> y + (float_eps * y + float_tiny)" using y cap53 by (intro nearest_double_le [OF fl]) auto
    moreover have "float_eps * y \<le> float_eps * cap" using float_eps_bounds y by (intro mult_left_mono) auto
    ultimately have "fl y \<le> y + (float_eps * cap + float_tiny)" by linarith
    then show ?thesis using True c by (auto simp: consume_def Let_def y_def)
  next
    case False
    have "0 \<le> float_eps * cap" using float_eps_bounds cap0 by simp
    then show ?thesis using False c float_tiny_bounds(1) by (auto simp: consume_def Let_def)
  qed
  have "(2 ^ 54 + 1) * float_tiny + 2 * (float_eps * cap + float_tiny) \<le> request_error (tb_capacity b)"
  proof -
    have "(2 ^ 54 + 3) * float_tiny \<le> (2 ^ 55) * float_tiny" using float_tiny_bounds by (intro mult_right_mono) auto
    then show ?thesis using float_tiny_bounds(2) by (simp add: request_error_def cap_def algebra_simps)
  qed
  with spent rx add show ?thesis by (simp add: x_def)
qed

lemma run_bucket_spent:
  assumes fl: "nearest_double fl" and "sorted (tb_last_refill b # map fst rs)" "\<forall>(t, n) \<in> set rs. 0 \<le> n" "bucket_ok b"
    and "0 \<le> tb_last_refill b" "last (tb_last_refill b # map fst rs) \<le> 2 ^ 53" "tb_refill_rate b \<le> 2 ^ 53"
  shows "of_int (granted rs (fst (run_bucket fl rs b))) + tb_tokens (snd (run_bucket fl rs b))
       \<le> tb_tokens b + (1 + 4 * float_eps) * ((last (tb_last_refill b # map fst rs) - tb_last_refill b) * tb_refill_rate b)
         + of_nat (length rs) * request_error (tb_capacity b)
     \<and> bucket_ok (snd (run_bucket fl rs b))"
  using assms(2-)
proof (induction rs arbitrary: b)
  case Nil
  then show ?case by (simp add: granted_def)
next
  case (Cons r rs)
  obtain now n where r: "r = (now, n)" by (cases r)
  obtain g b1 where c: "consume fl now n b = (g, b1)" by (cases "consume fl now n b")
  obtain gs b2 where rb: "run_bucket fl rs b1 = (gs, b2)" by (cases "run_bucket fl rs b1")
  have rd: "rounding fl" using fl by (simp add: nearest_double_def)
  have t: "tb_last_refill b \<le> now" and n: "0 \<le> n" using Cons.prems by (auto simp: r)
  have late: "now \<le> last (now # map fst rs)" using Cons.prems(1) by (cases rs rule: rev_cases) (auto simp: r)
  have b1: "bucket_ok b1" "tb_last_refill b1 = now" using consume_ok [OF rd Cons.prems(3) t n] c by simp_all
  have same: "tb_refill_rate b1 = tb_refill_rate b" "tb_capacity b1 = tb_capacity b"
    using c by (auto simp: consume_def Let_def split: if_splits)
  have spent: "of_int (if g then n else 0) + tb_tokens b1 \<le>
      tb_tokens b + (1 + 4 * float_eps) * ((now - tb_last_refill b) * tb_refill_rate b) + request_error (tb_capacity b)"
    using late Cons.prems(4-6) by (intro consume_spent [OF fl Cons.prems(3) _ _ t _ n c]) (auto simp: r)
  have "of_int (granted rs gs) + tb_tokens b2
      \<le> tb_tokens b1 + (1 + 4 * float_eps) * ((last (now # map fst rs) - now) * tb_refill_rate b)
        + of_nat (length rs) * request_error (tb_capacity b) \<and> bucket_ok b2"
    using Cons.IH [of b1] Cons.prems b1 rb same t by (simp add: r)
  moreover have "granted (r # rs) (g # gs) = (if g then n else 0) + granted rs gs" by (simp add: granted_def r)
  moreover have "(1 + 4 * float_eps) * ((now - tb_last_refill b) * tb_refill_rate b) + (1 + 4 * float_eps) * ((last (now # map fst rs) - now) * tb_refill_rate b)
      = (1 + 4 * float_eps) * ((last (now # map fst rs) - tb_last_refill b) * tb_refill_rate b)"
    by (simp add: algebra_simps)
  ultimately show ?case using spent c rb by (simp add: r distrib_right)
qed

text \<open>C40: whatever is asked of a full token bucket and whenever, what it grants in total never exceeds its capacity plus the
  refill rate times the time that has passed, up to the rounding of its double arithmetic: the refill may be larger by a
  factor \<open>1 + 2\<^sup>-\<^sup>5\<^sup>1\<close>, and every request may gain \<open>2\<^sup>-\<^sup>5\<^sup>2\<close> of the capacity and one. Capacity, rate and clock are at most \<open>2\<^sup>5\<^sup>3\<close>.\<close>

theorem token_bucket_limits_rate:
  assumes "nearest_double fl" "sorted (start # map fst rs)" "\<forall>(t, n) \<in> set rs. 0 \<le> n"
    and "0 \<le> capacity" "capacity \<le> 2 ^ 53" "0 \<le> rate" "rate \<le> 2 ^ 53" "0 \<le> start" "last (start # map fst rs) \<le> 2 ^ 53"
  shows "of_int (granted rs (fst (run_bucket fl rs (new_bucket fl start capacity rate))))
       \<le> of_int capacity + (1 + 1 / 2 ^ 51) * ((last (start # map fst rs) - start) * rate)
         + of_nat (length rs) * ((of_int capacity + 1) / 2 ^ 52)"
proof -
  let ?b = "new_bucket fl start capacity rate"
  have cap: "fl (of_int capacity) = of_int capacity" using assms(1,4,5) by (simp add: nearest_double_def rounding_def)
  then have "bucket_ok ?b" using assms by (simp add: bucket_ok_def new_bucket_def)
  then have "of_int (granted rs (fst (run_bucket fl rs ?b))) + tb_tokens (snd (run_bucket fl rs ?b))
      \<le> of_int capacity + (1 + 4 * float_eps) * ((last (start # map fst rs) - start) * rate) + of_nat (length rs) * request_error capacity
      \<and> bucket_ok (snd (run_bucket fl rs ?b))"
    using run_bucket_spent [of fl ?b rs] assms cap by (simp add: new_bucket_def)
  moreover have "4 * float_eps = 1 / 2 ^ 51" "request_error capacity = (of_int capacity + 1) / 2 ^ 52"
    by (simp_all add: float_eps_def request_error_def)
  ultimately show ?thesis by (auto simp: bucket_ok_def)
qed

lemma nearest_double_id: "nearest_double (\<lambda>x. x)"
  using float_eps_bounds(1) float_tiny_bounds(1) by (auto simp: nearest_double_def rounding_id intro: order_trans [OF mult_nonneg_nonneg])

theorem token_bucket_limits_rate_witness:
  "granted [(0, 2), (1, 2), (1, 1)] (fst (run_bucket (\<lambda>x. x) [(0, 2), (1, 2), (1, 1)] (new_bucket (\<lambda>x. x) 0 3 1))) \<le> 4"
proof -
  let ?rs = "[(0, 2), (1, 2), (1, 1)]"
  have "of_int (granted ?rs (fst (run_bucket (\<lambda>x. x) ?rs (new_bucket (\<lambda>x. x) 0 3 1)))) < (5 :: rat)"
    by (rule le_less_trans [OF token_bucket_limits_rate [OF nearest_double_id, of 0 ?rs 3 1]]) simp_all
  then show ?thesis by simp
qed

section \<open>Violations\<close>

text \<open>A run of checks, each of one peer at one time, with the actions it returned.\<close>

fun run_checks ::
  "(rat \<Rightarrow> rat) \<Rightarrow> (rat \<times> string) list \<Rightarrow> rate_limiter \<Rightarrow> rate_limit_action list \<times> rate_limiter" where
  "run_checks fl [] rl = ([], rl)"
| "run_checks fl ((now, key) # cs) rl =
     (let ((a, _), rl1) = rl_check fl now key rl; (as, rl2) = run_checks fl cs rl1 in (a # as, rl2))"

definition refusals :: "string \<Rightarrow> (rat \<times> string) list \<Rightarrow> rate_limit_action list \<Rightarrow> int" where
  "refusals key cs as = int (length (filter (\<lambda>(c, a). snd c = key \<and> a \<noteq> ALLOW) (zip cs as)))"

lemma rl_check_violations:
  assumes "rl_check fl now key rl = ((a, d), rl')"
  shows "get_violation_count rl' k = get_violation_count rl k + (if k = key \<and> a \<noteq> ALLOW then 1 else 0)"
    and "rl_disconnect_threshold rl' = rl_disconnect_threshold rl"
    and "a = RL_DISCONNECT \<longleftrightarrow>
      a \<noteq> ALLOW \<and> (\<exists>t. rl_disconnect_threshold rl = Some t \<and> t \<le> get_violation_count rl key + 1)"
  using assms
  by (auto simp: rl_check_def Let_def get_violation_count_def update_conv' split: prod.splits if_splits option.splits)

lemma run_checks_violations:
  assumes "run_checks fl cs rl = (as, rl')"
  shows "length as = length cs \<and> rl_disconnect_threshold rl' = rl_disconnect_threshold rl
     \<and> (\<forall>k. get_violation_count rl' k = get_violation_count rl k + refusals k cs as)"
  using assms
proof (induction cs arbitrary: rl as)
  case Nil
  then show ?case by (simp add: refusals_def)
next
  case (Cons c cs)
  obtain now key where c: "c = (now, key)" by (cases c)
  obtain a d rl1 where chk: "rl_check fl now key rl = ((a, d), rl1)" by (metis prod.exhaust)
  obtain as' where as: "as = a # as'" and rest: "run_checks fl cs rl1 = (as', rl')"
    using Cons.prems by (auto simp: c chk split: prod.splits)
  have "refusals k (c # cs) as = (if k = key \<and> a \<noteq> ALLOW then 1 else 0) + refusals k cs as'" for k
    by (simp add: refusals_def as c)
  with Cons.IH [OF rest] rl_check_violations(1,2) [OF chk] show ?case by (simp add: as)
qed

text \<open>starting from a fresh limiter, the violation count of a peer is the number of its messages that
  were not allowed, whatever others send, and a message disconnects its peer exactly when it is refused
  and brings that count to the configured threshold; without a threshold no peer is disconnected.\<close>

theorem rate_limiter_disconnects:
  assumes "run_checks fl (cs @ [(now, key)]) (rate_limiter_init rate burst threshold) = (as @ [a], rl)"
    and "length as = length cs"
  shows "(\<forall>k. get_violation_count rl k = refusals k (cs @ [(now, key)]) (as @ [a]))
       \<and> (a = RL_DISCONNECT \<longleftrightarrow> a \<noteq> ALLOW
            \<and> (\<exists>t. threshold = Some t \<and> t \<le> refusals key (cs @ [(now, key)]) (as @ [a])))"
proof -
  let ?rl0 = "rate_limiter_init rate burst threshold"
  obtain as1 rl1 where first: "run_checks fl cs ?rl0 = (as1, rl1)" by (metis prod.exhaust)
  have app: "run_checks fl (xs @ ys) r = (fst (run_checks fl xs r) @ fst (run_checks fl ys (snd (run_checks fl xs r))),
      snd (run_checks fl ys (snd (run_checks fl xs r))))" for xs ys r
    by (induction xs arbitrary: r) (auto split: prod.splits)
  obtain a' d rl2 where last: "rl_check fl now key rl1 = ((a', d), rl2)" by (metis prod.exhaust)
  have eqs: "as = as1" "a = a'" "rl = rl2" using assms(1) by (auto simp: app first last)
  have init: "get_violation_count ?rl0 k = 0" "rl_disconnect_threshold ?rl0 = threshold" for k
    by (simp_all add: rate_limiter_init_def get_violation_count_def)
  have v1: "get_violation_count rl1 k = refusals k cs as" "rl_disconnect_threshold rl1 = threshold" for k
    using run_checks_violations [OF first] init by (simp_all add: eqs)
  have snoc: "refusals k (cs @ [(now, key)]) (as @ [a]) = refusals k cs as + (if k = key \<and> a \<noteq> ALLOW then 1 else 0)" for k
    using assms(2) by (auto simp: refusals_def)
  show ?thesis
    using rl_check_violations(1,3) [OF last] v1 unfolding snoc unfolding eqs by auto
qed

definition ex_checks :: "(rat \<times> string) list" where
  "ex_checks = [(0, ''a''), (0, ''a''), (0, ''b''), (0, ''a'')]"

theorem rate_limiter_disconnects_witness:
  "\<exists>rl. run_checks (\<lambda>x. x) ex_checks (rate_limiter_init 1 (Some 1) (Some 2)) = ([ALLOW, DELAY, ALLOW, RL_DISCONNECT], rl)
     \<and> get_violation_count rl ''a'' = 2 \<and> get_violation_count rl ''b'' = 0"
proof -
  let ?rl = "rate_limiter_init 1 (Some 1) (Some 2)"
  have "\<exists>rl. run_checks (\<lambda>x. x) ex_checks ?rl = ([ALLOW, DELAY, ALLOW, RL_DISCONNECT], rl)"
    by (simp add: ex_checks_def rl_check_def consume_def refilled_def new_bucket_def rate_limiter_init_def
        get_violation_count_def Let_def)
  then obtain rl where rl: "run_checks (\<lambda>x. x) ex_checks ?rl = ([ALLOW, DELAY, ALLOW, RL_DISCONNECT], rl)" ..
  have "refusals ''a'' ex_checks [ALLOW, DELAY, ALLOW, RL_DISCONNECT] = 2"
    "refusals ''b'' ex_checks [ALLOW, DELAY, ALLOW, RL_DISCONNECT] = 0"
    by (simp_all add: refusals_def ex_checks_def)
  with rl rate_limiter_disconnects [of "\<lambda>x. x" "butlast ex_checks" 0 "''a''" 1 "Some 1" "Some 2"
      "[ALLOW, DELAY, ALLOW]" RL_DISCONNECT rl]
  show ?thesis by (auto simp: ex_checks_def)
qed

end
