(* ===== verification/Dir_Router.thy ===== *)
theory Dir_Router
  imports Dir_Registry Jm_Rate_Limiter
begin

text \<open>
  The directory's message router, \<open>directory_server/message_router.py\<close>, and the state it shares with the
  rest of the server. The callbacks the router is built with (sending to a peer, cleaning up after a
  failed send, handling a PONG) are arguments: a send returns whether it came back normally, with the
  server it left behind. The tasks of one \<open>asyncio.gather\<close> run one after the other. \<open>TokenBucket\<close> reads
  the clock twice for a public message; the two times are arguments.
\<close>

type_synonym owner_id = "string \<times> string"

record router_state =
  rt_offers :: "(owner_id, string set) dict"
  rt_ingress :: "(owner_id, token_bucket) dict"
  rt_drops :: "(owner_id, int) dict"
  rt_outgoing :: token_bucket
  rt_outgoing_drops :: int

text \<open>
  The server: its registry, its router, the owners a PONG is awaited from, the connection of each nick
  (\<open>peer_key_to_conn_id\<close>), the pool of open connections, the rate limiter, and what has been written to
  the connections, with the number of writes attempted.
\<close>

record server =
  sv_reg :: registry
  sv_router :: router_state
  sv_pong_pending :: "owner_id set"
  sv_key_conn :: "(string, string) dict"
  sv_conns :: "string set"
  sv_limiter :: rate_limiter
  sv_log :: "(string \<times> string \<times> string) list"
  sv_attempts :: nat

record router_cfg =
  rc_send :: "string \<Rightarrow> string \<Rightarrow> string option \<Rightarrow> server \<Rightarrow> bool \<times> server"
  rc_failed :: "(string \<Rightarrow> string \<Rightarrow> server \<Rightarrow> server) option"
  rc_pong :: "(string \<Rightarrow> string \<Rightarrow> server \<Rightarrow> server) option"
  rc_batch :: int
  rc_fl :: "rat \<Rightarrow> rat"

definition PUBLIC_INGRESS_BYTES_PER_SEC :: int where
  "PUBLIC_INGRESS_BYTES_PER_SEC = 32 * 1024"

definition PUBLIC_INGRESS_BURST_BYTES :: int where
  "PUBLIC_INGRESS_BURST_BYTES = 256 * 1024"

definition MAX_OFFERS_PER_OWNER :: nat where
  "MAX_OFFERS_PER_OWNER = 256"

definition MAX_OFFER_ID_LENGTH :: nat where
  "MAX_OFFER_ID_LENGTH = 64"

definition upd_router :: "(router_state \<Rightarrow> router_state) \<Rightarrow> server \<Rightarrow> server" where
  "upd_router f s = s\<lparr>sv_router := f (sv_router s)\<rparr>"

text \<open>\<open>connection_id or registry.get_connection_id(key)\<close>\<close>

definition or_conn :: "string option \<Rightarrow> string \<Rightarrow> server \<Rightarrow> string option" where
  "or_conn cid key s =
     (case cid of Some c \<Rightarrow> if c \<noteq> [] then Some c else get_connection_id key (sv_reg s)
      | None \<Rightarrow> get_connection_id key (sv_reg s))"

section \<open>Sending\<close>

definition call_send :: "router_cfg \<Rightarrow> string \<Rightarrow> string \<Rightarrow> string option \<Rightarrow> server \<Rightarrow> bool \<times> server" where
  "call_send cfg key data expected s =
     (if expected \<noteq> None \<and> \<not> is_current_owner key expected (sv_reg s) then (True, s)
      else rc_send cfg key data expected s)"

definition call_failed :: "router_cfg \<Rightarrow> string \<Rightarrow> string \<Rightarrow> server \<Rightarrow> server" where
  "call_failed cfg key c s = (case rc_failed cfg of None \<Rightarrow> s | Some f \<Rightarrow> f key c s)"

definition call_pong :: "router_cfg \<Rightarrow> string \<Rightarrow> string \<Rightarrow> server \<Rightarrow> server" where
  "call_pong cfg key c s = (case rc_pong cfg of None \<Rightarrow> s | Some f \<Rightarrow> f key c s)"

definition sendable :: "string \<Rightarrow> string \<Rightarrow> server \<Rightarrow> bool" where
  "sendable key c s =
     (case get_by_key key (sv_reg s) of
        None \<Rightarrow> False
      | Some p \<Rightarrow> pi_status p = HANDSHAKED \<and> is_current_owner key (Some c) (sv_reg s))"

definition safe_send ::
  "router_cfg \<Rightarrow> string \<Rightarrow> string \<Rightarrow> string option \<Rightarrow> owner_id set \<times> server \<Rightarrow> owner_id set \<times> server" where
  "safe_send cfg data key expected fs =
     (let (failed, s) = fs in
      case or_conn expected key s of
        None \<Rightarrow> fs
      | Some c \<Rightarrow>
          if (key, c) \<in> failed \<or> \<not> sendable key c s then fs
          else (case call_send cfg key data (Some c) s of
                  (True, s1) \<Rightarrow> (failed, s1)
                | (False, s1) \<Rightarrow> (insert (key, c) failed, call_failed cfg key c s1)))"

definition send_batch ::
  "router_cfg \<Rightarrow> string \<Rightarrow> (string \<times> string) list \<Rightarrow> owner_id set \<times> server \<Rightarrow> owner_id set \<times> server" where
  "send_batch cfg data batch fs = foldl (\<lambda>fs (k, c). safe_send cfg data k (Some c) fs) fs batch"

text \<open>
  The targets come from a generator over a snapshot of the peers; whether a peer still is a target, and
  its connection, is looked up when the generator reaches it.
\<close>

definition next_target ::
  "network_type option \<Rightarrow> (string \<Rightarrow> peer_info \<Rightarrow> string \<Rightarrow> bool) \<Rightarrow> server \<Rightarrow> string \<times> peer_info \<Rightarrow> (string \<times> string) option" where
  "next_target network keep s kp =
     (let k = fst kp; p = (case get_by_key k (sv_reg s) of Some q \<Rightarrow> q | None \<Rightarrow> snd kp) in
      case get_connection_id k (sv_reg s) of
        None \<Rightarrow> None
      | Some c \<Rightarrow> if is_connected network p \<and> keep k p c then Some (k, c) else None)"

fun broadcast_iter ::
  "router_cfg \<Rightarrow> (server \<Rightarrow> string \<times> peer_info \<Rightarrow> (string \<times> string) option) \<Rightarrow> string \<Rightarrow> (string \<times> peer_info) list
   \<Rightarrow> (string \<times> string) list \<Rightarrow> owner_id set \<times> server \<Rightarrow> nat \<Rightarrow> nat \<times> server" where
  "broadcast_iter cfg gen data [] batch fs sent =
     (if batch = [] then (sent, snd fs)
      else (sent + length batch, snd (send_batch cfg data batch fs)))"
| "broadcast_iter cfg gen data (kp # kps) batch fs sent =
     (case gen (snd fs) kp of
        None \<Rightarrow> broadcast_iter cfg gen data kps batch fs sent
      | Some (k, c) \<Rightarrow>
          if (k, c) \<in> fst fs then broadcast_iter cfg gen data kps batch fs sent
          else let batch' = batch @ [(k, c)] in
               if int (length batch') \<ge> rc_batch cfg
               then broadcast_iter cfg gen data kps [] (send_batch cfg data batch' fs) (sent + length batch')
               else broadcast_iter cfg gen data kps batch' fs sent)"

definition broadcast ::
  "router_cfg \<Rightarrow> network_type option \<Rightarrow> (string \<Rightarrow> peer_info \<Rightarrow> string \<Rightarrow> bool) \<Rightarrow> string \<Rightarrow> server \<Rightarrow> nat \<times> server" where
  "broadcast cfg network keep data s =
     broadcast_iter cfg (next_target network keep) data (rg_peers (sv_reg s)) [] ({}, s) 0"

section \<open>Public messages\<close>

definition record_public_drop :: "owner_id \<Rightarrow> router_state \<Rightarrow> router_state" where
  "record_public_drop owner rt =
     rt\<lparr>rt_drops := dict_put owner ((case dict_get (rt_drops rt) owner of None \<Rightarrow> 0 | Some n \<Rightarrow> n) + 1) (rt_drops rt)\<rparr>"

definition consume_public_ingress ::
  "(rat \<Rightarrow> rat) \<Rightarrow> rat \<Rightarrow> owner_id \<Rightarrow> nat \<Rightarrow> router_state \<Rightarrow> bool \<times> router_state" where
  "consume_public_ingress fl now owner n rt =
     (let b = (case dict_get (rt_ingress rt) owner of
                 Some b \<Rightarrow> b
               | None \<Rightarrow> new_bucket fl now PUBLIC_INGRESS_BURST_BYTES (fl (of_int PUBLIC_INGRESS_BYTES_PER_SEC)));
          (ok, b') = consume fl now (int n) b;
          rt1 = rt\<lparr>rt_ingress := dict_put owner b' (rt_ingress rt)\<rparr>
      in if ok then (True, rt1) else (False, record_public_drop owner rt1))"

definition consume_public_outgoing ::
  "(rat \<Rightarrow> rat) \<Rightarrow> rat \<Rightarrow> nat \<Rightarrow> nat \<Rightarrow> router_state \<Rightarrow> bool \<times> router_state" where
  "consume_public_outgoing fl now msg_size recipients rt =
     (if recipients = 0 then (True, rt)
      else let (ok, b) = consume fl now (int msg_size * int recipients) (rt_outgoing rt);
               rt1 = rt\<lparr>rt_outgoing := b\<rparr>
           in if ok then (True, rt1) else (False, rt1\<lparr>rt_outgoing_drops := rt_outgoing_drops rt1 + 1\<rparr>))"

definition OFFER_COMMANDS :: "string list" where
  "OFFER_COMMANDS =
     [''!absorder'', ''!absoffer'', ''!reloffer'', ''!relorder'', ''sw0absorder'', ''sw0absoffer'',
      ''sw0reloffer'', ''sw0relorder'', ''tr0absorder'', ''tr0absoffer'', ''tr0reloffer'', ''tr0relorder'']"

definition offers_of :: "owner_id \<Rightarrow> router_state \<Rightarrow> string set" where
  "offers_of owner rt = (case dict_get (rt_offers rt) owner of None \<Rightarrow> {} | Some ids \<Rightarrow> ids)"

text \<open>Offer tracking; the flag says that the message goes on to be broadcast.\<close>

definition track_offer :: "owner_id \<Rightarrow> string \<Rightarrow> router_state \<Rightarrow> bool \<times> router_state" where
  "track_offer owner rest rt =
     (let parts = split_ws rest in
      if length parts \<ge> 2 \<and> parts ! 0 \<in> set OFFER_COMMANDS then
        let order_id = parts ! 1 in
        if length order_id > MAX_OFFER_ID_LENGTH then (False, record_public_drop owner rt)
        else
          let offers = offers_of owner rt;
              rt1 = rt\<lparr>rt_offers := dict_put owner offers (rt_offers rt)\<rparr>
          in if order_id \<notin> offers \<and> card offers \<ge> MAX_OFFERS_PER_OWNER
             then (False, record_public_drop owner rt1)
             else (True, rt1\<lparr>rt_offers := dict_put owner (insert order_id offers) (rt_offers rt1)\<rparr>)
      else if length parts = 2 \<and> parts ! 0 \<in> {''cancel'', ''!cancel''} \<and> isascii (parts ! 1)
              \<and> parts ! 1 \<noteq> [] \<and> list_all is_digit (parts ! 1) then
        (True, case dict_get (rt_offers rt) owner of
                 None \<Rightarrow> rt
               | Some offers \<Rightarrow>
                   let offers' = offers - {parts ! 1} in
                   rt\<lparr>rt_offers := (if offers' = {} then dict_del owner (rt_offers rt)
                                    else dict_put owner offers' (rt_offers rt))\<rparr>)
      else (True, rt))"

definition public_targets :: "string \<Rightarrow> network_type \<Rightarrow> registry \<Rightarrow> (string \<times> peer_info \<times> string) list" where
  "public_targets from_key network r = filter (\<lambda>t. fst t \<noteq> from_key) (iter_connected_owners (Some network) r)"

definition handle_public_message ::
  "router_cfg \<Rightarrow> rat \<Rightarrow> rat \<Rightarrow> envelope \<Rightarrow> string \<Rightarrow> string option \<Rightarrow> server \<Rightarrow> server" where
  "handle_public_message cfg t1 t2 env from_key cid s =
     (case or_conn cid from_key s of
        None \<Rightarrow> s
      | Some c \<Rightarrow>
          if \<not> is_current_owner from_key (Some c) (sv_reg s) then s
          else case parse_jm_message (env_payload env) of
                 None \<Rightarrow> s
               | Some (from_nick, to_nick, rest) \<Rightarrow>
          if to_nick \<noteq> ''PUBLIC'' then s
          else case get_by_key from_key (sv_reg s) of
                 None \<Rightarrow> s
               | Some from_peer \<Rightarrow>
          if from_nick \<noteq> pi_nick from_peer then s
          else
            let bytes = to_bytes env; owner = (from_key, c);
                (ok1, rt1) = consume_public_ingress (rc_fl cfg) t1 owner (length bytes) (sv_router s)
            in if \<not> ok1 then s\<lparr>sv_router := rt1\<rparr>
               else
                 let (ok2, rt2) = track_offer owner rest rt1 in
                 if \<not> ok2 then s\<lparr>sv_router := rt2\<rparr>
                 else
                   let recipients = length (public_targets from_key (pi_network from_peer) (sv_reg s));
                       (ok3, rt3) = consume_public_outgoing (rc_fl cfg) t2 (length bytes) recipients rt2;
                       s3 = s\<lparr>sv_router := rt3\<rparr>
                   in if \<not> ok3 then s3
                      else snd (broadcast cfg (Some (pi_network from_peer)) (\<lambda>k _ _. k \<noteq> from_key) bytes s3))"

section \<open>Private messages, peer lists and pings\<close>

definition peerlist_envelope :: "string \<Rightarrow> envelope" where
  "peerlist_envelope payload = \<lparr>env_type = message_type_value PEERLIST, env_payload = payload\<rparr>"

text \<open>\<open>False\<close> when the entry cannot be built; a failed send is ignored.\<close>

definition send_peer_location ::
  "router_cfg \<Rightarrow> string \<Rightarrow> peer_info \<Rightarrow> string option \<Rightarrow> server \<Rightarrow> bool \<times> server" where
  "send_peer_location cfg to_key p expected s =
     (if is_passive p then (True, s)
      else case create_peerlist_entry (pi_nick p) (location_string p) False (Some (true_keys (pi_features p))) of
             Inl _ \<Rightarrow> (False, s)
           | Inr entry \<Rightarrow> (True, snd (call_send cfg to_key (to_bytes (peerlist_envelope entry)) expected s)))"

definition handle_private_message ::
  "router_cfg \<Rightarrow> envelope \<Rightarrow> string \<Rightarrow> string option \<Rightarrow> server \<Rightarrow> server" where
  "handle_private_message cfg env from_key cid s =
     (case or_conn cid from_key s of
        None \<Rightarrow> s
      | Some c \<Rightarrow>
          if \<not> is_current_owner from_key (Some c) (sv_reg s) then s
          else case parse_jm_message (env_payload env) of
                 None \<Rightarrow> s
               | Some (from_nick, to_nick, rest) \<Rightarrow>
          (case get_by_nick to_nick (sv_reg s) of
             None \<Rightarrow> s
           | Some to_peer \<Rightarrow>
          if pi_status to_peer \<noteq> HANDSHAKED then s
          else case get_by_key from_key (sv_reg s) of
                 None \<Rightarrow> s
               | Some from_peer \<Rightarrow>
          if pi_network from_peer \<noteq> pi_network to_peer then s
          else if from_nick \<noteq> pi_nick from_peer then s
          else
            let to_key = pi_nick to_peer in
            case get_connection_id to_key (sv_reg s) of
              None \<Rightarrow> s
            | Some to_c \<Rightarrow>
                (case call_send cfg to_key (to_bytes env) (Some to_c) s of
                   (False, s1) \<Rightarrow> call_failed cfg to_key to_c s1
                 | (True, s1) \<Rightarrow>
                     (case send_peer_location cfg to_key from_peer (Some to_c) s1 of
                        (True, s2) \<Rightarrow> s2
                      | (False, s2) \<Rightarrow> call_failed cfg to_key to_c s2))))"

fun chunks :: "nat \<Rightarrow> 'a list \<Rightarrow> 'a list list" where
  "chunks n xs = (if xs = [] \<or> n = 0 then [] else take n xs # chunks n (drop n xs))"

declare chunks.simps [simp del]

fun send_chunks :: "router_cfg \<Rightarrow> string \<Rightarrow> string option \<Rightarrow> string list list \<Rightarrow> server \<Rightarrow> server" where
  "send_chunks cfg to_key expected [] s = s"
| "send_chunks cfg to_key expected (c # cs) s =
     (case call_send cfg to_key (to_bytes (peerlist_envelope (join_with '','' c))) expected s of
        (False, s1) \<Rightarrow> s1
      | (True, s1) \<Rightarrow> send_chunks cfg to_key expected cs s1)"

definition peerlist_entries :: "network_type \<Rightarrow> bool \<Rightarrow> registry \<Rightarrow> string list res" where
  "peerlist_entries network include_features r =
     (if include_features
      then mapM_res (\<lambda>(nick, loc, fs). create_peerlist_entry nick loc False (Some fs)) (get_peerlist_with_features network r)
      else mapM_res (\<lambda>(nick, loc). create_peerlist_entry nick loc False None) (get_peerlist_for_network network r))"

definition send_peerlist ::
  "router_cfg \<Rightarrow> string \<Rightarrow> network_type \<Rightarrow> bool \<Rightarrow> nat \<Rightarrow> string option \<Rightarrow> server \<Rightarrow> server res" where
  "send_peerlist cfg to_key network include_features chunk_size expected s =
     (let expected = or_conn expected to_key s in
      bind_res (peerlist_entries network include_features (sv_reg s)) (\<lambda>entries.
      if entries = [] then Inr (snd (call_send cfg to_key (to_bytes (peerlist_envelope [])) expected s))
      else Inr (send_chunks cfg to_key expected (chunks chunk_size entries) s)))"

definition PEERLIST_CHUNK_SIZE :: nat where
  "PEERLIST_CHUNK_SIZE = 20"

definition handle_peerlist_request :: "router_cfg \<Rightarrow> string \<Rightarrow> string option \<Rightarrow> server \<Rightarrow> server res" where
  "handle_peerlist_request cfg from_key cid s =
     (case or_conn cid from_key s of
        None \<Rightarrow> Inr s
      | Some c \<Rightarrow>
          if \<not> is_current_owner from_key (Some c) (sv_reg s) then Inr s
          else case get_by_key from_key (sv_reg s) of
                 None \<Rightarrow> Inr s
               | Some p \<Rightarrow>
                   send_peerlist cfg from_key (pi_network p)
                     (truthy (get_or (pi_features p) FEATURE_PEERLIST_FEATURES (JBool False)))
                     PEERLIST_CHUNK_SIZE (Some c) s)"

definition handle_ping :: "router_cfg \<Rightarrow> string \<Rightarrow> string option \<Rightarrow> server \<Rightarrow> server" where
  "handle_ping cfg from_key cid s =
     (case or_conn cid from_key s of
        None \<Rightarrow> s
      | Some c \<Rightarrow>
          if \<not> is_current_owner from_key (Some c) (sv_reg s) then s
          else snd (call_send cfg from_key (to_bytes \<lparr>env_type = message_type_value PONG, env_payload = []\<rparr>) (Some c) s))"

definition handle_pong :: "router_cfg \<Rightarrow> string \<Rightarrow> string option \<Rightarrow> server \<Rightarrow> server" where
  "handle_pong cfg from_key cid s =
     (case or_conn cid from_key s of None \<Rightarrow> s | Some c \<Rightarrow> call_pong cfg from_key c s)"

definition route_message ::
  "router_cfg \<Rightarrow> rat \<Rightarrow> rat \<Rightarrow> envelope \<Rightarrow> string \<Rightarrow> string option \<Rightarrow> server \<Rightarrow> server res" where
  "route_message cfg t1 t2 env from_key cid s =
     (case (or_conn cid from_key s, get_by_key from_key (sv_reg s)) of
        (Some c, Some p) \<Rightarrow>
          if pi_status p \<noteq> HANDSHAKED \<or> \<not> is_current_owner from_key (Some c) (sv_reg s) then Inr s
          else if env_type env = message_type_value PUBMSG
          then Inr (handle_public_message cfg t1 t2 env from_key (Some c) s)
          else if env_type env = message_type_value PRIVMSG
          then Inr (handle_private_message cfg env from_key (Some c) s)
          else if env_type env = message_type_value GETPEERLIST then handle_peerlist_request cfg from_key (Some c) s
          else if env_type env = message_type_value PING then Inr (handle_ping cfg from_key (Some c) s)
          else if env_type env = message_type_value PONG then Inr (handle_pong cfg from_key (Some c) s)
          else Inr s
      | _ \<Rightarrow> Inr s)"

section \<open>Disconnects and offers\<close>

definition broadcast_peer_disconnect ::
  "router_cfg \<Rightarrow> string \<Rightarrow> network_type \<Rightarrow> string option \<Rightarrow> server \<Rightarrow> server res" where
  "broadcast_peer_disconnect cfg peer_key network expected s =
     (case get_by_key peer_key (sv_reg s) of
        None \<Rightarrow> Inr s
      | Some p \<Rightarrow>
          if pi_nick p = [] \<or> \<not> is_current_owner peer_key expected (sv_reg s) then Inr s
          else bind_res (create_peerlist_entry (pi_nick p) (location_string p) True None) (\<lambda>entry.
               Inr (snd (broadcast cfg (Some network) (\<lambda>k _ _. k \<noteq> peer_key) (to_bytes (peerlist_envelope entry)) s))))"

definition broadcast_displaced_peer_disconnect ::
  "router_cfg \<Rightarrow> peer_info \<Rightarrow> string \<Rightarrow> server \<Rightarrow> server res" where
  "broadcast_displaced_peer_disconnect cfg p c s =
     (if pi_status p \<noteq> HANDSHAKED then Inr s
      else bind_res (create_peerlist_entry (pi_nick p) (location_string p) True None) (\<lambda>entry.
           Inr (snd (broadcast cfg (Some (pi_network p)) (\<lambda>_ q c'. c' \<noteq> c \<and> pi_nick q \<noteq> pi_nick p)
                       (to_bytes (peerlist_envelope entry)) s))))"

definition remove_peer_offers :: "string \<Rightarrow> string option \<Rightarrow> router_state \<Rightarrow> router_state" where
  "remove_peer_offers key expected rt =
     (case expected of
        None \<Rightarrow>
          let owners = map fst (rt_ingress rt) in
          rt\<lparr>rt_offers := filter (\<lambda>kv. fst (fst kv) \<noteq> key) (rt_offers rt),
             rt_ingress := filter (\<lambda>kv. fst (fst kv) \<noteq> key) (rt_ingress rt),
             rt_drops := filter (\<lambda>kv. \<not> (fst (fst kv) = key \<and> fst kv \<in> set owners)) (rt_drops rt)\<rparr>
      | Some c \<Rightarrow>
          rt\<lparr>rt_offers := dict_del (key, c) (rt_offers rt), rt_ingress := dict_del (key, c) (rt_ingress rt),
             rt_drops := dict_del (key, c) (rt_drops rt)\<rparr>)"

definition current_offers :: "server \<Rightarrow> (owner_id, string set) dict" where
  "current_offers s =
     filter (\<lambda>kv. is_current_owner (fst (fst kv)) (Some (snd (fst kv))) (sv_reg s)) (rt_offers (sv_router s))"

definition get_offer_stats :: "server \<Rightarrow> nat \<times> nat \<times> (string \<times> nat) list" where
  "get_offer_stats s =
     (let cur = current_offers s;
          many = map (\<lambda>kv. (case get_by_key (fst (fst kv)) (sv_reg s) of Some p \<Rightarrow> pi_nick p | None \<Rightarrow> fst (fst kv),
                            card (snd kv)))
                     (filter (\<lambda>kv. card (snd kv) > 2) cur)
      in (sum_list (map (card \<circ> snd) cur), length (filter (\<lambda>kv. snd kv \<noteq> {}) cur),
          take 10 (sort_key (\<lambda>x. - int (snd x)) many)))"

end
