(* ===== verification/Dir_Handshake.thy ===== *)
theory Dir_Handshake
  imports Jm_Models
begin

text \<open>
  The directory's handshake, \<open>directory_server/handshake_handler.py\<close>. The payload is the value
  \<open>json.loads\<close> returns for it; \<open>None\<close> stands for its \<open>JSONDecodeError\<close>. Exceptions of the code that are
  not \<open>HandshakeError\<close>, \<open>KeyError\<close> or \<open>ValueError\<close> leave the handler as they are.
\<close>

datatype nick_auth_mode = PREFER_VERIFIED | REQUIRE_VERIFIED | NA_DISABLED

record handshake_handler =
  hh_network :: network_type
  hh_server_nick :: string
  hh_motd :: string
  hh_neutrino_compat :: bool
  hh_nick_auth_mode :: nick_auth_mode
  hh_nick_auth_directory_id :: "string option"

datatype handshake_error = HandshakeError string | HsTypeError | HsAttributeError

definition advertises_nick_auth :: "handshake_handler \<Rightarrow> bool" where
  "advertises_nick_auth h =
     (hh_nick_auth_mode h \<noteq> NA_DISABLED \<and>
      (case hh_nick_auth_directory_id h of None \<Rightarrow> False | Some i \<Rightarrow> i \<noteq> []))"

definition negotiates_nick_auth :: "handshake_handler \<Rightarrow> peer_info \<Rightarrow> bool" where
  "negotiates_nick_auth h p =
     (advertises_nick_auth h \<and> get_none (pi_features p) FEATURE_NICK_AUTH = JBool True)"

definition parse_network :: "json \<Rightarrow> handshake_error + network_type" where
  "parse_network v =
     (case v of
        JStr s \<Rightarrow> (case network_of (map ascii_lower_char s) of
                    None \<Rightarrow> Inl (HandshakeError ''Invalid network'') | Some n \<Rightarrow> Inr n)
      | _ \<Rightarrow> Inl HsAttributeError)"

definition parse_location :: "string option \<Rightarrow> string \<times> int" where
  "parse_location location =
     (let default = (NOT_SERVING_ONION_HOSTNAME, -1) in
      case location of
        None \<Rightarrow> default
      | Some l \<Rightarrow>
          if l = NOT_SERVING_ONION_HOSTNAME then default
          else if l = [] \<or> CHR '':'' \<notin> set l then default
          else (case split_on (CHR '':'') l of
                  [host, port_str] \<Rightarrow>
                    (case py_int port_str of
                       None \<Rightarrow> default
                     | Some port \<Rightarrow> if port \<le> 0 \<or> port > 65535 then default else (host, port))
                | _ \<Rightarrow> default))"

definition server_features :: "handshake_handler \<Rightarrow> feature_set" where
  "server_features h =
     {FEATURE_PEERLIST_FEATURES, FEATURE_PING}
     \<union> (if hh_neutrino_compat h then {FEATURE_NEUTRINO_COMPAT} else {})
     \<union> (if advertises_nick_auth h then {FEATURE_NICK_AUTH} else {})"

text \<open>The checks, in their order; the location is \<open>None\<close> or a safe string once they pass.\<close>

definition check_handshake :: "json_dict \<Rightarrow> handshake_error + (string \<times> string option \<times> json_dict)" where
  "check_handshake hs =
     (let app_name = get_none hs ''app-name''; proto_ver = get_none hs ''proto-ver'';
          features = get_or hs ''features'' (JObj []); location = get_none hs ''location-string'';
          nick = get_none hs ''nick''; network = get_none hs ''network''
      in
      bind_res (guard_res (truthy app_name \<and> truthy proto_ver \<and> truthy nick \<and> truthy network)
                  (HandshakeError ''Missing required handshake fields'')) (\<lambda>_.
      bind_res (case nick of JStr s \<Rightarrow> if is_safe_peerlist_nick s then Inr s
                                      else Inl (HandshakeError ''Invalid nickname for peerlist'')
                | _ \<Rightarrow> Inl (HandshakeError ''Invalid nickname for peerlist'')) (\<lambda>n.
      bind_res (case location of
                  JNull \<Rightarrow> Inr None
                | JStr s \<Rightarrow> if is_safe_peerlist_location s then Inr (Some s)
                           else Inl (HandshakeError ''Invalid location string for peerlist'')
                | _ \<Rightarrow> Inl (HandshakeError ''Invalid location string for peerlist'')) (\<lambda>loc.
      bind_res (case features of
                  JObj d \<Rightarrow> if list_all is_safe_peerlist_feature (dict_keys d) then Inr d
                           else Inl (HandshakeError ''Invalid feature identifier'')
                | _ \<Rightarrow> Inl (HandshakeError ''Invalid feature identifier'')) (\<lambda>fs.
      bind_res (case app_name of
                  JStr s \<Rightarrow> if map ascii_lower_char s \<noteq> ''joinmarket''
                           then Inl (HandshakeError ''Invalid app name'') else Inr ()
                | _ \<Rightarrow> Inl HsAttributeError) (\<lambda>_.
      bind_res (guard_res (\<not> truthy (get_or hs ''directory'' (JBool False)))
                  (HandshakeError ''Directory nodes not accepted as clients'')) (\<lambda>_.
      bind_res (case num_eq_int proto_ver JM_VERSION of
                  None \<Rightarrow> Inl HsTypeError
                | Some b \<Rightarrow> if b then Inr () else Inl (HandshakeError ''Protocol version not in supported range'')) (\<lambda>_.
      Inr (n, loc, fs)))))))))"

definition claimed_peer :: "network_type \<Rightarrow> string \<Rightarrow> string option \<Rightarrow> json_dict \<Rightarrow> peer_info" where
  "claimed_peer network nick loc features =
     \<lparr>pi_nick = nick, pi_onion_address = fst (parse_location loc), pi_port = snd (parse_location loc),
      pi_status = CONNECTED, pi_is_directory = False, pi_network = network, pi_last_seen = None,
      pi_features = features, pi_protocol_version = JM_VERSION,
      pi_neutrino_compat = (get_none features FEATURE_NEUTRINO_COMPAT = JBool True)\<rparr>"

text \<open>\<open>except ValueError\<close>\<close>

definition as_format_error :: "'a res \<Rightarrow> handshake_error + 'a" where
  "as_format_error r = (case r of Inl _ \<Rightarrow> Inl (HandshakeError ''Invalid handshake format'') | Inr x \<Rightarrow> Inr x)"

definition handshake_accepted :: "handshake_handler \<Rightarrow> peer_info \<Rightarrow> bool" where
  "handshake_accepted h p = (\<not> (hh_nick_auth_mode h = REQUIRE_VERIFIED \<and> \<not> negotiates_nick_auth h p))"

definition handshake_response :: "handshake_handler \<Rightarrow> bool \<Rightarrow> json_dict" where
  "handshake_response h accepted =
     create_handshake_response (hh_server_nick h) (network_value (hh_network h)) accepted
       (if accepted then hh_motd h else ''Rejected: verified nick authentication required'')
       False (Some (server_features h))"

definition process_handshake ::
  "handshake_handler \<Rightarrow> json option \<Rightarrow> handshake_error + (peer_info \<times> json_dict)" where
  "process_handshake h payload =
     (case payload of
        None \<Rightarrow> Inl (HandshakeError ''Invalid handshake format'')
      | Some (JObj hs) \<Rightarrow>
          bind_res (check_handshake hs) (\<lambda>(nick, loc, features).
          bind_res (parse_network (get_none hs ''network'')) (\<lambda>network.
          bind_res (guard_res (network = hh_network h) (HandshakeError ''Network mismatch'')) (\<lambda>_.
          bind_res (as_format_error (validate_peer_info (claimed_peer network nick loc features))) (\<lambda>p.
          Inr (p, handshake_response h (handshake_accepted h p))))))
      | Some _ \<Rightarrow> Inl HsAttributeError)"

definition create_rejection_response :: "handshake_handler \<Rightarrow> string \<Rightarrow> json_dict" where
  "create_rejection_response h reason =
     create_handshake_response (hh_server_nick h) (network_value (hh_network h)) False (''Rejected: '' @ reason) False None"

section \<open>What an accepted handshake guarantees\<close>

lemma response_accepted [simp]: "get_none (handshake_response h acc) ''accepted'' = JBool acc"
  by (simp add: handshake_response_def create_handshake_response_def get_or_def)

lemma as_format_error_simps [simp]: "as_format_error (Inr x) = Inr x"
  by (simp add: as_format_error_def)

lemma as_format_error_Inr [simp]: "as_format_error r = Inr x \<longleftrightarrow> r = Inr x"
  by (auto simp: as_format_error_def split: sum.splits)

lemma validate_peer_info_Inr: "validate_peer_info p = Inr q \<Longrightarrow> q = p"
  by (auto simp: validate_peer_info_def split: if_splits)

lemma check_handshake_Inr:
  assumes "check_handshake hs = Inr (nick, loc, fs)"
  shows "is_safe_peerlist_nick nick" "get_none hs ''nick'' = JStr nick"
    "\<forall>l. loc = Some l \<longrightarrow> is_safe_peerlist_location l" "list_all is_safe_peerlist_feature (dict_keys fs)"
    "get_or hs ''features'' (JObj []) = JObj fs" "num_eq_int (get_none hs ''proto-ver'') JM_VERSION = Some True"
    "\<not> truthy (get_or hs ''directory'' (JBool False))"
  using assms
  by (auto simp: check_handshake_def Let_def bind_res_Inr_iff split: json.splits if_splits option.splits)

text \<open>C38: a handshake that yields a peer comes from a client of the directory's network and protocol
  version; the peer's nick and feature names can be written in a peerlist, its address is an onion
  address with a port or the marker for none, it starts in the state \<open>CONNECTED\<close>, and under the
  policy that requires verified nicks it is accepted only if nick authentication is negotiated.\<close>

theorem handshake_sound:
  assumes "process_handshake h payload = Inr (p, resp)"
  shows "is_safe_peerlist_nick (pi_nick p) \<and> length (pi_nick p) \<le> 64
       \<and> list_all is_safe_peerlist_feature (dict_keys (pi_features p))
       \<and> onion_pattern (pi_onion_address p)
       \<and> (pi_onion_address p = NOT_SERVING_ONION_HOSTNAME \<or> (1 \<le> pi_port p \<and> pi_port p \<le> 65535))
       \<and> pi_network p = hh_network h \<and> pi_status p = CONNECTED \<and> \<not> pi_is_directory p
       \<and> pi_protocol_version p = JM_VERSION
       \<and> (get_none resp ''accepted'' = JBool True \<longleftrightarrow>
            hh_nick_auth_mode h \<noteq> REQUIRE_VERIFIED \<or> negotiates_nick_auth h p)"
proof -
  obtain hs nick loc fs where hs: "payload = Some (JObj hs)" "check_handshake hs = Inr (nick, loc, fs)"
    and v0: "validate_peer_info (claimed_peer (hh_network h) nick loc fs) = Inr p"
    and resp: "resp = handshake_response h (handshake_accepted h p)"
    using assms by (auto simp: process_handshake_def bind_res_Inr_iff split: option.splits json.splits)
  then have p: "p = claimed_peer (hh_network h) nick loc fs" by (rule_tac validate_peer_info_Inr)
  note v = v0 [folded p]
  from v have "length (pi_nick p) \<le> 64" "onion_pattern (pi_onion_address p)"
    "validate_port (pi_port p) (pi_onion_address p)"
    by (auto simp: validate_peer_info_def split: if_splits)
  then show ?thesis
    using check_handshake_Inr [OF hs(2)]
    by (auto simp: p resp claimed_peer_def handshake_accepted_def validate_port_def NOT_SERVING_ONION_HOSTNAME_def)
qed

definition ex_handler :: handshake_handler where
  "ex_handler = \<lparr>hh_network = SIGNET, hh_server_nick = ''dir'', hh_motd = ''hi'', hh_neutrino_compat = False,
     hh_nick_auth_mode = REQUIRE_VERIFIED, hh_nick_auth_directory_id = Some ''dir:5222''\<rparr>"

definition ex_request :: json_dict where
  "ex_request = create_handshake_request ''J5alice'' ''NOT-SERVING-ONION'' ''signet'' False False (Some {''ping''})"

theorem handshake_sound_witness:
  "\<exists>p resp. process_handshake ex_handler (Some (JObj ex_request)) = Inr (p, resp)
     \<and> pi_network p = SIGNET \<and> (get_none resp ''accepted'' = JBool True \<longleftrightarrow> negotiates_nick_auth ex_handler p)"
proof -
  have "\<not> isl (process_handshake ex_handler (Some (JObj ex_request)))" by code_simp
  then obtain p resp where "process_handshake ex_handler (Some (JObj ex_request)) = Inr (p, resp)"
    by (cases "process_handshake ex_handler (Some (JObj ex_request))") auto
  with handshake_sound [OF this] show ?thesis by (auto simp: ex_handler_def)
qed

section \<open>Handshakes of the project's own clients\<close>

definition serves :: "string \<Rightarrow> int \<Rightarrow> string \<Rightarrow> bool" where
  "serves host port location =
     ((location = NOT_SERVING_ONION_HOSTNAME \<and> host = location \<and> port = -1)
      \<or> (host \<noteq> NOT_SERVING_ONION_HOSTNAME \<and> onion_pattern host \<and> 1 \<le> port \<and> port \<le> 65535
         \<and> location = host @ '':'' @ str_of_int port))"

lemma onion_no_colon:
  assumes "onion_pattern host"
  shows "CHR '':'' \<notin> set host"
proof -
  have "CHR '':'' \<notin> set (take 56 host)" if "list_all base32_char (take 56 host)"
    using that by (auto simp: list_all_iff base32_char_def in_range_def)
  moreover have "CHR '':'' \<in> set host \<Longrightarrow> CHR '':'' \<in> set (take 56 host) \<or> CHR '':'' \<in> set (drop 56 host)"
    by (metis Un_iff append_take_drop_id set_append)
  ultimately show ?thesis using assms by (auto simp: onion_pattern_def)
qed

lemma parse_location_serves:
  assumes "serves host port location"
  shows "parse_location (Some location) = (host, port)"
proof (cases "location = NOT_SERVING_ONION_HOSTNAME")
  case True
  with assms have "host = NOT_SERVING_ONION_HOSTNAME \<and> port = -1"
    by (auto simp: serves_def NOT_SERVING_ONION_HOSTNAME_def dest: arg_cong [where f = "\<lambda>s. CHR '':'' \<in> set s"])
  with True show ?thesis by (simp add: parse_location_def)
next
  case False
  then have l: "location = host @ CHR '':'' # str_of_int port" "1 \<le> port" "port \<le> 65535" "onion_pattern host"
    using assms by (auto simp: serves_def)
  have "CHR '':'' \<notin> set (str_of_int port)" using str_of_int_digits [of port] digit_plain(1) l(2) by fastforce
  then have "split_on (CHR '':'') location = [host, str_of_int port]"
    using l onion_no_colon by (simp add: split_on_append split_on_free)
  moreover have "py_int (str_of_int port) = Some port"
    using l by (intro py_int_str_of_int lt_int_limit [of _ 5]) auto
  ultimately show ?thesis using False l by (simp add: parse_location_def)
qed

lemma network_lower: "map ascii_lower_char (network_value n) = network_value n" "network_value n \<noteq> []"
  by (cases n; simp add: ascii_lower_char_def in_range_def)+

lemma dict_keys_to_dict: "finite fs \<Longrightarrow> dict_keys (features_to_dict fs) = sorted_list_of_set fs"
  by (simp add: features_to_dict_def comp_def)

lemma true_keys_to_dict: "finite fs \<Longrightarrow> true_keys (features_to_dict fs) = fs"
  by (simp add: true_keys_def features_to_dict_def filter_map comp_def)

lemma get_feature_to_dict:
  assumes "finite fs"
  shows "get_none (features_to_dict fs) f = JBool True \<longleftrightarrow> f \<in> fs"
proof -
  have "map_of (features_to_dict fs) f = (if f \<in> fs then Some (JBool True) else None)"
    using assms by (simp add: features_to_dict_def map_of_map_restrict restrict_map_def)
  then show ?thesis by (simp add: get_or_def)
qed

text \<open>a client that sends the handshake the project's own code builds, with a nick of at most 64
  safe characters, a location it serves and safe feature names, on the directory's network, is given
  the peer it described, with exactly its features; it is accepted unless verified nicks are required
  and it does not offer to authenticate (or the directory does not advertise it).\<close>

theorem client_handshake_accepted:
  assumes "is_safe_peerlist_nick nick" "length nick \<le> 64" "serves host port location"
    and "is_safe_peerlist_location location" "finite fs" "\<forall>f \<in> fs. is_safe_peerlist_feature f"
  shows "\<exists>p. process_handshake h (Some (JObj (create_handshake_request nick location
               (network_value (hh_network h)) False nc (Some fs))))
           = Inr (p, handshake_response h (hh_nick_auth_mode h \<noteq> REQUIRE_VERIFIED
                        \<or> (advertises_nick_auth h \<and> FEATURE_NICK_AUTH \<in> fs)))
         \<and> pi_nick p = nick \<and> location_string p = location \<and> true_keys (pi_features p) = fs
         \<and> (pi_neutrino_compat p \<longleftrightarrow> FEATURE_NEUTRINO_COMPAT \<in> fs)"
proof -
  let ?hs = "create_handshake_request nick location (network_value (hh_network h)) False nc (Some fs)"
  let ?p = "claimed_peer (hh_network h) nick (Some location) (features_to_dict fs)"
  have get: "get_none ?hs ''app-name'' = JStr ''joinmarket''" "get_none ?hs ''proto-ver'' = JInt JM_VERSION"
    "get_none ?hs ''nick'' = JStr nick" "get_none ?hs ''network'' = JStr (network_value (hh_network h))"
    "get_none ?hs ''location-string'' = JStr location" "get_or ?hs ''features'' (JObj []) = JObj (features_to_dict fs)"
    "get_or ?hs ''directory'' (JBool False) = JBool False"
    by (simp_all add: create_handshake_request_def get_or_def advertised_features_def)
  have low: "map ascii_lower_char ''joinmarket'' = ''joinmarket''"
    by (simp add: ascii_lower_char_def in_range_def)
  note net = network_lower
  have "nick \<noteq> []" using assms(1) by (simp add: is_safe_peerlist_nick_def is_safe_peerlist_value_def)
  then have chk: "check_handshake ?hs = Inr (nick, Some location, features_to_dict fs)"
    using assms get low net by (simp add: check_handshake_def dict_keys_to_dict list_all_iff JM_VERSION_def)
  have loc: "parse_location (Some location) = (host, port)" using parse_location_serves [OF assms(3)] .
  have "onion_pattern host \<and> validate_onion host \<and> validate_port port host \<and> -1 \<le> port \<and> port \<le> 65535"
    using assms(3)
    by (auto simp: serves_def onion_pattern_def validate_onion_def validate_port_def ends_with_def
        NOT_SERVING_ONION_HOSTNAME_def)
  then have val: "validate_peer_info ?p = Inr ?p"
    using assms(2) \<open>nick \<noteq> []\<close> loc
    by (simp add: validate_peer_info_def claimed_peer_def JM_VERSION_def Suc_le_eq)
  have neg: "negotiates_nick_auth h ?p \<longleftrightarrow> advertises_nick_auth h \<and> FEATURE_NICK_AUTH \<in> fs"
    by (simp add: negotiates_nick_auth_def claimed_peer_def get_feature_to_dict [OF assms(5)])
  have "location_string ?p = location"
    using assms(3) loc by (auto simp: location_string_def claimed_peer_def serves_def NOT_SERVING_ONION_HOSTNAME_def)
  then show ?thesis
    using chk get net val neg assms(5)
    by (intro exI [of _ ?p])
      (simp add: process_handshake_def parse_network_def handshake_accepted_def get_feature_to_dict true_keys_to_dict claimed_peer_def)
qed

theorem client_handshake_accepted_witness:
  "\<exists>p. process_handshake ex_handler (Some (JObj (create_handshake_request ''J5alice'' ''NOT-SERVING-ONION''
           (network_value (hh_network ex_handler)) False False (Some {''ping''}))))
       = Inr (p, handshake_response ex_handler False) \<and> true_keys (pi_features p) = {''ping''}"
proof -
  have "is_safe_peerlist_nick ''J5alice''" "is_safe_peerlist_location ''NOT-SERVING-ONION''"
    "is_safe_peerlist_feature ''ping''"
    by code_simp+
  then show ?thesis
    using client_handshake_accepted [of "''J5alice''" "''NOT-SERVING-ONION''" "-1" "''NOT-SERVING-ONION''" "{''ping''}"
      ex_handler False]
    by (auto simp: serves_def NOT_SERVING_ONION_HOSTNAME_def ex_handler_def FEATURE_NICK_AUTH_def)
qed

end
