(* ===== verification/Dir_Server.thy ===== *)
theory Dir_Server
  imports Dir_Router Dir_Handshake
begin

text \<open>
  The heartbeat, \<open>directory_server/heartbeat.py\<close>, and the server that ties the registry, the router, the
  heartbeat and the connections together, \<open>directory_server/server.py\<close>. Whether the n-th write to a
  connection succeeds (in time) is decided by \<open>se_write\<close>, any function. A failed send removes its peer and
  tells the others, which may fail in turn; the depth of that recursion is bounded by an argument, and
  the number of registered peers is shown to be always enough.
\<close>

section \<open>Heartbeat\<close>

record heartbeat_cfg =
  hb_send :: "string \<Rightarrow> string \<Rightarrow> string option \<Rightarrow> server \<Rightarrow> bool \<times> server"
  hb_evict :: "string \<Rightarrow> string \<Rightarrow> server \<Rightarrow> server"
  hb_idle_threshold :: int
  hb_hard_evict :: int
  hb_server_nick :: string

definition discard_pending :: "owner_id \<Rightarrow> server \<Rightarrow> server" where
  "discard_pending w s = s\<lparr>sv_pong_pending := sv_pong_pending s - {w}\<rparr>"

definition hb_handle_pong :: "string \<Rightarrow> string option \<Rightarrow> server \<Rightarrow> server" where
  "hb_handle_pong key cid s =
     (case or_conn cid key s of
        None \<Rightarrow> s
      | Some c \<Rightarrow> if (key, c) \<in> sv_pong_pending s then discard_pending (key, c) s else s)"

definition forget_owner :: "string \<Rightarrow> string \<Rightarrow> server \<Rightarrow> server" where
  "forget_owner key c s = discard_pending (key, c) s"

definition hb_call_send :: "heartbeat_cfg \<Rightarrow> string \<Rightarrow> string \<Rightarrow> string \<Rightarrow> server \<Rightarrow> bool \<times> server" where
  "hb_call_send hb key data c s =
     (if \<not> is_current_owner key (Some c) (sv_reg s) then (True, s) else hb_send hb key data (Some c) s)"

definition send_ping :: "heartbeat_cfg \<Rightarrow> string \<Rightarrow> string \<Rightarrow> server \<Rightarrow> bool \<times> server" where
  "send_ping hb key c s =
     (case hb_call_send hb key (to_bytes \<lparr>env_type = message_type_value PING, env_payload = []\<rparr>) c s of
        (True, s1) \<Rightarrow> (True, s1)
      | (False, s1) \<Rightarrow> (False, hb_evict hb key c (discard_pending (key, c) s1)))"

definition send_orderbook_probe :: "heartbeat_cfg \<Rightarrow> string \<Rightarrow> string \<Rightarrow> server \<Rightarrow> server" where
  "send_orderbook_probe hb key c s =
     (let payload = hb_server_nick hb @ [COMMAND_PREFIX] @ ''PUBLIC'' @ [COMMAND_PREFIX] @ ''orderbook'' in
      snd (hb_call_send hb key (to_bytes \<lparr>env_type = message_type_value PUBMSG, env_payload = payload\<rparr>) c s))"

definition hard_evict_one :: "heartbeat_cfg \<Rightarrow> string \<times> peer_info \<times> string \<Rightarrow> server \<Rightarrow> server" where
  "hard_evict_one hb t s = (case t of (key, p, c) \<Rightarrow> hb_evict hb key c (discard_pending (key, c) s))"

definition probe_one ::
  "heartbeat_cfg \<Rightarrow> owner_id set \<Rightarrow> owner_id list \<times> server \<Rightarrow> string \<times> peer_info \<times> string \<Rightarrow> owner_id list \<times> server" where
  "probe_one hb hard_evicted acc t =
     (case (acc, t) of ((pinged, s), (key, p, c)) \<Rightarrow>
        if (key, c) \<in> hard_evicted \<or> \<not> is_current_owner key (Some c) (sv_reg s) then (pinged, s)
        else if supports_ping key (Some c) (sv_reg s) then
          (case send_ping hb key c (s\<lparr>sv_pong_pending := insert (key, c) (sv_pong_pending s)\<rparr>) of
             (True, s1) \<Rightarrow> (pinged @ [(key, c)], s1)
           | (False, s1) \<Rightarrow> (pinged, s1))
        else if is_maker key (Some c) (sv_reg s) then (pinged, send_orderbook_probe hb key c s)
        else (pinged, s))"

text \<open>The sweep up to its wait, with the owners that were pinged, and what follows the wait.\<close>

definition sweep_start :: "heartbeat_cfg \<Rightarrow> int \<Rightarrow> server \<Rightarrow> owner_id list \<times> server" where
  "sweep_start hb now s =
     (let hard = get_peers_idle_since (now - hb_hard_evict hb) (sv_reg s);
          s1 = foldl (\<lambda>s t. hard_evict_one hb t s) s hard;
          hard_evicted = set (map (\<lambda>(k, p, c). (k, c)) hard);
          idle = get_peers_idle_since (now - hb_idle_threshold hb) (sv_reg s1)
      in foldl (probe_one hb hard_evicted) ([], s1) idle)"

definition sweep_finish :: "heartbeat_cfg \<Rightarrow> owner_id list \<Rightarrow> server \<Rightarrow> server" where
  "sweep_finish hb pinged s =
     (let timed_out = filter (\<lambda>w. w \<in> sv_pong_pending s) pinged in
      foldl (\<lambda>s w. hb_evict hb (fst w) (snd w) (discard_pending w s)) s timed_out)"

section \<open>Connections\<close>

record server_env =
  se_write :: "nat \<Rightarrow> bool"
  se_batch :: int
  se_fl :: "rat \<Rightarrow> rat"

definition conn_write :: "server_env \<Rightarrow> string \<Rightarrow> string \<Rightarrow> string \<Rightarrow> server \<Rightarrow> bool \<times> server" where
  "conn_write e key c data s =
     (let ok = se_write e (sv_attempts s) in
      (ok, s\<lparr>sv_attempts := Suc (sv_attempts s),
             sv_log := (if ok then sv_log s @ [(key, c, data)] else sv_log s)\<rparr>))"

definition send_to_peer ::
  "server_env \<Rightarrow> string \<Rightarrow> string \<Rightarrow> string option \<Rightarrow> server \<Rightarrow> bool \<times> server" where
  "send_to_peer e key data expected s =
     (case dict_get (sv_key_conn s) key of
        None \<Rightarrow> (False, s)
      | Some conn_id \<Rightarrow>
          if conn_id = [] then (False, s)
          else
            let c = (case expected of Some x \<Rightarrow> if x \<noteq> [] then x else conn_id | None \<Rightarrow> conn_id) in
            if conn_id \<noteq> c \<or> \<not> sendable key c s then (False, s)
            else if c \<notin> sv_conns s then (False, s)
            else conn_write e key c data s)"

section \<open>Registration and removal\<close>

definition activate_registration :: "registration_result \<Rightarrow> server \<Rightarrow> server" where
  "activate_registration reg s =
     (let s1 = foldl (\<lambda>s d.
                 let s' = upd_router (remove_peer_offers (dp_peer_key d) (Some (dp_connection_id d)))
                            (forget_owner (dp_peer_key d) (dp_connection_id d) s)
                 in if dict_get (sv_key_conn s') (dp_peer_key d) = Some (dp_connection_id d)
                    then s'\<lparr>sv_key_conn := dict_del (dp_peer_key d) (sv_key_conn s')\<rparr> else s')
               s (rr_displaced reg)
      in s1\<lparr>sv_key_conn := dict_put (rr_peer_key reg) (rr_connection_id reg) (sv_key_conn s1)\<rparr>)"

definition register_peer ::
  "int \<Rightarrow> string \<Rightarrow> peer_info \<Rightarrow> string \<Rightarrow> pubkey_id option \<Rightarrow> server \<Rightarrow> registry_error + (registration_result \<times> server)" where
  "register_peer now fresh p c vpk s =
     bind_res (register now fresh p (Some c) vpk (sv_reg s)) (\<lambda>(reg, r).
     Inr (reg, activate_registration reg (s\<lparr>sv_reg := r\<rparr>)))"

definition ok_or :: "server \<Rightarrow> server res \<Rightarrow> server" where
  "ok_or s m = (case m of Inl _ \<Rightarrow> s | Inr s' \<Rightarrow> s')"

text \<open>The part done under the owner's lock.\<close>

definition drop_owner :: "int \<Rightarrow> string \<Rightarrow> string \<Rightarrow> bool \<Rightarrow> server \<Rightarrow> server" where
  "drop_owner now key c clear_unqualified s =
     (let r1 = snd (update_status now key DISCONNECTED (Some c) (sv_reg s));
          r2 = snd (unregister key (Some c) r1);
          s1 = forget_owner key c (upd_router (remove_peer_offers key (Some c)) (s\<lparr>sv_reg := r2\<rparr>))
      in if clear_unqualified \<or> dict_get (sv_key_conn s1) key = Some c
         then s1\<lparr>sv_key_conn := dict_del key (sv_key_conn s1)\<rparr> else s1)"

definition remove_owned_peer_state ::
  "router_cfg \<Rightarrow> int \<Rightarrow> string \<Rightarrow> string \<Rightarrow> bool \<Rightarrow> bool \<Rightarrow> server \<Rightarrow> peer_info option \<times> server" where
  "remove_owned_peer_state cfg now key c broadcast_disconnect clear_unqualified s =
     (if \<not> is_current_owner key (Some c) (sv_reg s) then (None, s)
      else case get_by_key key (sv_reg s) of
             None \<Rightarrow> (None, s)
           | Some p \<Rightarrow>
               let s1 = drop_owner now key c clear_unqualified s in
               (Some (p\<lparr>pi_status := DISCONNECTED\<rparr>),
                if broadcast_disconnect \<and> pi_status p = HANDSHAKED
                then ok_or s1 (broadcast_displaced_peer_disconnect cfg p c s1) else s1))"

definition close_connection_generation :: "string \<Rightarrow> server \<Rightarrow> server" where
  "close_connection_generation c s =
     s\<lparr>sv_limiter := remove_peer c (sv_limiter s), sv_conns := sv_conns s - {c}\<rparr>"

definition server_router_cfg :: "server_env \<Rightarrow> (string \<Rightarrow> string \<Rightarrow> server \<Rightarrow> server) \<Rightarrow> router_cfg" where
  "server_router_cfg e failed =
     \<lparr>rc_send = send_to_peer e, rc_failed = Some failed,
      rc_pong = Some (\<lambda>key c. hb_handle_pong key (Some c)), rc_batch = se_batch e, rc_fl = se_fl e\<rparr>"

text \<open>\<open>_handle_send_failed\<close>; the first argument bounds how deep failures of the notices may nest.\<close>

primrec handle_send_failed ::
  "nat \<Rightarrow> server_env \<Rightarrow> int \<Rightarrow> string \<Rightarrow> string option \<Rightarrow> server \<Rightarrow> server" where
  "handle_send_failed 0 = (\<lambda>e now key expected s. s)"
| "handle_send_failed (Suc n) = (\<lambda>e now key expected s.
     (case or_conn expected key s of
        None \<Rightarrow> s
      | Some c \<Rightarrow>
          if \<not> is_current_owner key (Some c) (sv_reg s) then s
          else
            let cfg = server_router_cfg e (\<lambda>k c'. handle_send_failed n e now k (Some c')) in
            case remove_owned_peer_state cfg now key c True (expected = None) s of
              (None, s1) \<Rightarrow> s1
            | (Some _, s1) \<Rightarrow> close_connection_generation c s1))"

definition server_cfg :: "server_env \<Rightarrow> int \<Rightarrow> server \<Rightarrow> router_cfg" where
  "server_cfg e now s =
     server_router_cfg e (\<lambda>k c. handle_send_failed (registry_count (sv_reg s)) e now k (Some c))"

definition evict_peer :: "server_env \<Rightarrow> int \<Rightarrow> string \<Rightarrow> string option \<Rightarrow> server \<Rightarrow> server" where
  "evict_peer e now key expected s =
     (case (or_conn expected key s, get_by_key key (sv_reg s)) of
        (Some c, Some p) \<Rightarrow>
          if \<not> is_current_owner key (Some c) (sv_reg s) then s
          else (case remove_owned_peer_state (server_cfg e now s) now key c True False s of
                  (None, s1) \<Rightarrow> s1
                | (Some _, s1) \<Rightarrow> close_connection_generation c s1)
      | _ \<Rightarrow> s)"

definition close_displaced_connections :: "server_env \<Rightarrow> int \<Rightarrow> registration_result \<Rightarrow> server \<Rightarrow> server" where
  "close_displaced_connections e now reg s =
     foldl (\<lambda>s d. ok_or s (broadcast_displaced_peer_disconnect (server_cfg e now s) (dp_peer d) (dp_connection_id d) s))
       s (rr_displaced reg)"

definition cleanup_peer :: "server_env \<Rightarrow> int \<Rightarrow> string \<Rightarrow> string option \<Rightarrow> server \<Rightarrow> server" where
  "cleanup_peer e now c key s =
     (let s1 = (case key of
                  Some k \<Rightarrow> if k \<noteq> [] then snd (remove_owned_peer_state (server_cfg e now s) now k c True False s) else s
                | None \<Rightarrow> s)
      in s1\<lparr>sv_limiter := remove_peer c (sv_limiter s1), sv_conns := sv_conns s1 - {c}\<rparr>)"

definition server_heartbeat :: "server_env \<Rightarrow> int \<Rightarrow> int \<Rightarrow> int \<Rightarrow> string \<Rightarrow> heartbeat_cfg" where
  "server_heartbeat e now idle hard nick =
     \<lparr>hb_send = send_to_peer e, hb_evict = (\<lambda>key c. evict_peer e now key (Some c)),
      hb_idle_threshold = idle, hb_hard_evict = hard, hb_server_nick = nick\<rparr>"

end
