(* ===== verification/Dir_Delivery.thy ===== *)
theory Dir_Delivery
  imports Dir_Server
begin

text \<open>
  What the directory delivers. Handling a message, a failed send or a timeout only ever removes peers
  from the registry, and everything written to a connection is addressed to the current owner of a nick
  in the state the handler started from. From this: whom a public message reaches, that failures
  of failures end, and that a nick's messages cannot be forged.
\<close>

section \<open>Registries that only lose peers\<close>

definition shrinks :: "registry \<Rightarrow> registry \<Rightarrow> bool" where
  "shrinks r r' = (\<exists>K. rg_max_peers r' = rg_max_peers r
     \<and> rg_peers r' = filter (\<lambda>kv. fst kv \<notin> K) (rg_peers r) \<and> rg_owners r' = filter (\<lambda>kv. fst kv \<notin> K) (rg_owners r))"

lemma shrinks_refl [simp]: "shrinks r r"
  unfolding shrinks_def by (rule exI [of _ "{}"]) simp

lemma shrinks_trans [trans]: "shrinks r r' \<Longrightarrow> shrinks r' r'' \<Longrightarrow> shrinks r r''"
  unfolding shrinks_def by (elim exE, rule_tac x = "K \<union> Ka" in exI) (auto simp: filter_filter intro!: filter_cong)

lemma map_of_filter_keys: "map_of (filter (\<lambda>kv. fst kv \<notin> K) d) k = (if k \<in> K then None else map_of d k)"
  by (induction d) auto

lemma shrinks_get:
  assumes "shrinks r r'"
  shows "get_by_key k r' = Some p \<Longrightarrow> get_by_key k r = Some p"
    "get_owner k r' = Some w \<Longrightarrow> get_owner k r = Some w"
    "get_connection_id k r' = Some c \<Longrightarrow> get_connection_id k r = Some c"
  using assms
  by (auto simp: shrinks_def get_by_key_def get_owner_def get_connection_id_def map_of_filter_keys split: if_splits)

lemma shrinks_ok: "shrinks r r' \<Longrightarrow> registry_ok r \<Longrightarrow> registry_ok r'"
proof -
  assume "shrinks r r'" and ok: "registry_ok r"
  then obtain K where r': "rg_max_peers r' = rg_max_peers r" "rg_peers r' = filter (\<lambda>kv. fst kv \<notin> K) (rg_peers r)"
      "rg_owners r' = filter (\<lambda>kv. fst kv \<notin> K) (rg_owners r)"
    by (auto simp: shrinks_def)
  have keys: "set (dict_keys (filter (\<lambda>kv. fst kv \<notin> K) d)) = set (dict_keys d) - K" for d :: "(string, 'v) dict"
    by auto
  have "int (length (filter (\<lambda>kv. fst kv \<notin> K) (rg_peers r))) \<le> max 0 (rg_max_peers r)"
    using registry_okD(5) [OF ok] length_filter_le [of "\<lambda>kv. fst kv \<notin> K" "rg_peers r"] by linarith
  with ok show "registry_ok r'"
    by (simp add: registry_ok_def r' distinct_map_filter keys del: set_map)
qed

lemma shrinks_count: "shrinks r r' \<Longrightarrow> registry_count r' \<le> registry_count r"
  by (auto simp: shrinks_def registry_count_def)

lemma dict_del_filter: "dict_del k d = filter (\<lambda>kv. fst kv \<notin> {k}) d"
  by (induction d) auto

lemma shrinks_del:
  "shrinks r (r\<lparr>rg_peers := dict_del k (rg_peers r), rg_owners := dict_del k (rg_owners r)\<rparr>)"
  unfolding shrinks_def by (rule exI [of _ "{k}"]) (simp add: dict_del_filter)

lemma dict_del_put_same: "dict_del k (dict_put k v d) = dict_del k d"
  by (induction d) auto

text \<open>What \<open>_remove_owned_peer_state\<close> does to the registry.\<close>

lemma remove_registry:
  assumes ok: "registry_ok r" and own: "is_current_owner k (Some c) r"
  shows "snd (unregister k (Some c) (snd (update_status now k DISCONNECTED (Some c) r)))
       = r\<lparr>rg_peers := dict_del k (rg_peers r), rg_owners := dict_del k (rg_owners r)\<rparr>"
proof -
  from own have "dict_get (rg_owners r) k \<noteq> None" by (auto simp: is_current_owner_def split: option.splits)
  then obtain p where p: "dict_get (rg_peers r) k = Some p" using registry_ok_get [OF ok, of k] by auto
  let ?r1 = "r\<lparr>rg_peers := dict_put k (p\<lparr>pi_status := DISCONNECTED\<rparr>) (rg_peers r)\<rparr>"
  have r1: "snd (update_status now k DISCONNECTED (Some c) r) = ?r1"
    using own p by (simp add: update_status_def get_by_key_def)
  moreover have "registry_ok ?r1" using registry_ok_status [OF ok] r1 by metis
  moreover have "is_current_owner k (Some c) ?r1" using own by (simp add: is_current_owner_def)
  ultimately show ?thesis
    by (simp add: unregister_eq registry_remove_def dict_del_put_same p dict_get_put [unfolded update_conv'] update_conv')
qed

section \<open>What a handler may do\<close>

lemma sendable_iff: "sendable k c s \<longleftrightarrow>
    (\<exists>p. get_by_key k (sv_reg s) = Some p \<and> pi_status p = HANDSHAKED) \<and> get_connection_id k (sv_reg s) = Some c"
  by (auto simp: sendable_def reg.owns_iff split: option.splits)

lemma shrinks_sendable: "shrinks (sv_reg s) (sv_reg s') \<Longrightarrow> sendable k c s' \<Longrightarrow> sendable k c s"
  using shrinks_get [of "sv_reg s" "sv_reg s'"] by (auto simp: sendable_iff)

text \<open>The registry loses peers only, and what is written goes to owners that could be sent to at the
  start and satisfies \<open>Q\<close>.\<close>

definition steps_to :: "(string \<Rightarrow> string \<Rightarrow> string \<Rightarrow> bool) \<Rightarrow> server \<Rightarrow> server \<Rightarrow> bool" where
  "steps_to Q s s' =
     (shrinks (sv_reg s) (sv_reg s') \<and>
      (\<exists>xs. sv_log s' = sv_log s @ xs \<and> (\<forall>(k, c, d) \<in> set xs. sendable k c s \<and> Q k c d)))"

lemma steps_to_refl [simp]: "steps_to Q s s"
  by (simp add: steps_to_def)

lemma steps_to_same: "sv_reg s' = sv_reg s \<Longrightarrow> sv_log s' = sv_log s \<Longrightarrow> steps_to Q s s'"
  by (simp add: steps_to_def)

lemma steps_to_trans: "steps_to Q s s' \<Longrightarrow> steps_to Q s' s'' \<Longrightarrow> steps_to Q s s''"
  unfolding steps_to_def by (auto intro: shrinks_trans dest!: shrinks_sendable [rotated]) blast?

lemma steps_to_mono: "steps_to Q s s' \<Longrightarrow> (\<And>k c d. sendable k c s \<Longrightarrow> Q k c d \<Longrightarrow> Q' k c d) \<Longrightarrow> steps_to Q' s s'"
  unfolding steps_to_def by fastforce

lemma steps_to_shrinks: "steps_to Q s s' \<Longrightarrow> shrinks (sv_reg s) (sv_reg s')"
  by (simp add: steps_to_def)

lemma steps_to_ok: "steps_to Q s s' \<Longrightarrow> registry_ok (sv_reg s) \<Longrightarrow> registry_ok (sv_reg s')"
  using shrinks_ok steps_to_shrinks by blast

lemma send_to_peer_steps:
  "(\<And>c. sendable k c s \<Longrightarrow> Q k c d) \<Longrightarrow> steps_to Q s (snd (send_to_peer e k d expected s))"
  by (auto simp: send_to_peer_def conn_write_def steps_to_def Let_def split: option.splits if_splits)

text \<open>A router whose sends go to a connection of the nick's owner and whose clean-up only removes peers and
  notifies with data satisfying \<open>N\<close>.\<close>

definition tame :: "(string \<Rightarrow> bool) \<Rightarrow> router_cfg \<Rightarrow> bool" where
  "tame N cfg =
     ((\<forall>k d ex s Q. (\<forall>c. sendable k c s \<longrightarrow> Q k c d) \<longrightarrow> steps_to Q s (snd (rc_send cfg k d ex s)))
      \<and> (\<forall>f k c s. rc_failed cfg = Some f \<longrightarrow> registry_ok (sv_reg s) \<longrightarrow> steps_to (\<lambda>_ _. N) s (f k c s)))"

lemma call_send_steps:
  assumes "tame N cfg" "\<And>c. sendable k c s \<Longrightarrow> Q k c d"
  shows "steps_to Q s (snd (call_send cfg k d expected s))"
  using assms by (simp add: call_send_def tame_def)

lemma call_failed_steps:
  assumes "tame N cfg" "registry_ok (sv_reg s)"
  shows "steps_to (\<lambda>_ _. N) s (call_failed cfg k c s)"
  using assms by (simp add: call_failed_def tame_def split: option.split)

text \<open>The owner \<open>(k, c)\<close> is one the broadcast is meant for.\<close>

definition live_target ::
  "network_type option \<Rightarrow> (string \<Rightarrow> peer_info \<Rightarrow> string \<Rightarrow> bool) \<Rightarrow> server \<Rightarrow> string \<Rightarrow> string \<Rightarrow> bool" where
  "live_target network keep s k c =
     (\<exists>p. (k, p, c) \<in> set (iter_connected_owners network (sv_reg s)) \<and> keep k p c)"

lemma next_target_live:
  assumes ok: "registry_ok (sv_reg s)" and t: "next_target network keep s kp = Some (k, c)"
  shows "live_target network keep s k c"
proof -
  have kc: "k = fst kp" "get_connection_id k (sv_reg s) = Some c"
    using t by (auto simp: next_target_def Let_def split: option.splits if_splits)
  then have "get_owner k (sv_reg s) \<noteq> None" by (auto simp: get_connection_id_def)
  then obtain p where p: "get_by_key k (sv_reg s) = Some p"
    using registry_ok_get [OF ok, of k] by (auto simp: get_by_key_def get_owner_def)
  with t kc have "is_connected network p \<and> keep k p c"
    by (auto simp: next_target_def Let_def split: option.splits if_splits)
  with p kc(2) show ?thesis by (auto simp: live_target_def reg.live_iff [OF ok])
qed

lemma live_target_shrinks:
  assumes "shrinks (sv_reg s) (sv_reg s')" "registry_ok (sv_reg s)" "live_target network keep s' k c"
  shows "live_target network keep s k c"
  using assms shrinks_ok [OF assms(1,2)] shrinks_get [OF assms(1)]
  by (auto simp: live_target_def reg.live_iff)

definition addressed ::
  "(string \<Rightarrow> string \<Rightarrow> bool) \<Rightarrow> string \<Rightarrow> (string \<Rightarrow> bool) \<Rightarrow> string \<Rightarrow> string \<Rightarrow> string \<Rightarrow> bool" where
  "addressed T data N k c d = ((d = data \<and> T k c) \<or> N d)"

lemma safe_send_steps:
  assumes cfg: "tame N cfg" and ok: "registry_ok (sv_reg (snd fs))" and T: "T k c"
    and c: "\<And>c'. sendable k c' (snd fs) \<Longrightarrow> T k c'"
  shows "steps_to (addressed T data N) (snd fs) (snd (safe_send cfg data k (Some c) fs))"
proof -
  obtain failed s where fs: "fs = (failed, s)" by (cases fs)
  have 1: "steps_to (addressed T data N) s (snd (call_send cfg k data (Some c') s))" for c'
    using call_send_steps [OF cfg, of k s "addressed T data N" data] c by (auto simp: fs addressed_def)
  have 2: "steps_to (addressed T data N) s1 (call_failed cfg k c' s1)" if "registry_ok (sv_reg s1)" for c' s1
    using call_failed_steps [OF cfg that] by (rule steps_to_mono) (simp add: addressed_def)
  have 3: "steps_to (addressed T data N) s (call_failed cfg k c' s1)" if "snd (call_send cfg k data (Some c') s) = s1" for c' s1
    using 1 [of c'] 2 [of s1] that steps_to_ok ok fs steps_to_trans by (metis snd_conv)
  show ?thesis
  proof (cases "or_conn (Some c) k s")
    case None
    then show ?thesis by (simp add: fs safe_send_def)
  next
    case (Some c')
    obtain b s1 where "call_send cfg k data (Some c') s = (b, s1)" by (cases "call_send cfg k data (Some c') s")
    with 1 [of c'] 3 [of c' s1] Some show ?thesis by (cases b) (simp_all add: fs safe_send_def)
  qed
qed

section \<open>Broadcasts\<close>

lemma live_target_unique:
  assumes "registry_ok (sv_reg s0)" "shrinks (sv_reg s0) (sv_reg s)" "live_target network keep s0 k c" "sendable k c' s"
  shows "c' = c"
  using assms shrinks_get(3) [OF assms(2), of k c'] by (auto simp: live_target_def sendable_iff reg.live_iff)

lemma send_batch_steps:
  assumes cfg: "tame N cfg" and ok: "registry_ok (sv_reg s0)"
    and batch: "\<forall>(k, c) \<in> set batch. live_target network keep s0 k c"
    and fs: "steps_to (addressed (live_target network keep s0) data N) s0 (snd fs)"
  shows "steps_to (addressed (live_target network keep s0) data N) s0 (snd (send_batch cfg data batch fs))"
  using batch fs unfolding send_batch_def
proof (induction batch arbitrary: fs)
  case Nil
  then show ?case by simp
next
  case (Cons kc batch)
  obtain k c where kc: "kc = (k, c)" by (cases kc)
  let ?T = "live_target network keep s0"
  have T: "?T k c" using Cons.prems(1) by (simp add: kc)
  have "steps_to (addressed ?T data N) (snd fs) (snd (safe_send cfg data k (Some c) fs))"
    using T live_target_unique [OF ok steps_to_shrinks [OF Cons.prems(2)] T]
    by (intro safe_send_steps [OF cfg steps_to_ok [OF Cons.prems(2) ok]]) auto
  then have "steps_to (addressed ?T data N) s0 (snd (safe_send cfg data k (Some c) fs))"
    using Cons.prems(2) steps_to_trans by blast
  with Cons show ?case by (simp add: kc)
qed

lemma broadcast_iter_steps:
  assumes cfg: "tame N cfg" and ok: "registry_ok (sv_reg s0)"
    and batch: "\<forall>(k, c) \<in> set batch. live_target network keep s0 k c"
    and fs: "steps_to (addressed (live_target network keep s0) data N) s0 (snd fs)"
  shows "steps_to (addressed (live_target network keep s0) data N) s0
           (snd (broadcast_iter cfg (next_target network keep) data kps batch fs sent))"
  using batch fs
proof (induction kps arbitrary: batch fs sent)
  case Nil
  then show ?case using send_batch_steps [OF cfg ok] by simp
next
  case (Cons kp kps)
  show ?case
  proof (cases "next_target network keep (snd fs) kp")
    case None
    with Cons show ?thesis by simp
  next
    case (Some kc)
    obtain k c where kc: "kc = (k, c)" by (cases kc)
    have "live_target network keep (snd fs) k c"
      using next_target_live steps_to_ok [OF Cons.prems(2) ok] Some kc by blast
    then have "live_target network keep s0 k c"
      using live_target_shrinks [OF steps_to_shrinks [OF Cons.prems(2)] ok] by blast
    then have b: "\<forall>(k, c) \<in> set (batch @ [(k, c)]). live_target network keep s0 k c" using Cons.prems(1) by auto
    show ?thesis
      using Cons.IH [OF Cons.prems] Cons.IH [OF b Cons.prems(2)]
        Cons.IH [of "[]" "send_batch cfg data (batch @ [(k, c)]) fs"] send_batch_steps [OF cfg ok b Cons.prems(2)]
      by (simp add: Some kc Let_def)
  qed
qed

lemma broadcast_steps:
  assumes "tame N cfg" "registry_ok (sv_reg s)"
  shows "steps_to (addressed (live_target network keep s) data N) s (snd (broadcast cfg network keep data s))"
  unfolding broadcast_def by (rule broadcast_iter_steps [OF assms]) simp_all

section \<open>Failed sends\<close>

text \<open>A notice that a peer is gone.\<close>

definition notice :: "string \<Rightarrow> bool" where
  "notice d = (\<exists>nick loc entry. create_peerlist_entry nick loc True None = Inr entry \<and> d = to_bytes (peerlist_envelope entry))"

lemma displaced_steps:
  assumes "tame notice cfg" "registry_ok (sv_reg s)"
  shows "steps_to (\<lambda>_ _. notice) s (ok_or s (broadcast_displaced_peer_disconnect cfg p c s))"
proof (cases "create_peerlist_entry (pi_nick p) (location_string p) True None")
  case (Inr entry)
  then have "notice (to_bytes (peerlist_envelope entry))" unfolding notice_def by blast
  then have "steps_to (\<lambda>_ _. notice) s (snd (broadcast cfg (Some (pi_network p)) keep (to_bytes (peerlist_envelope entry)) s))" for keep
    by (intro steps_to_mono [OF broadcast_steps [OF assms]]) (auto simp: addressed_def)
  with Inr show ?thesis by (simp add: broadcast_displaced_peer_disconnect_def ok_or_def)
qed (simp add: broadcast_displaced_peer_disconnect_def ok_or_def)

lemma drop_owner_fields:
  assumes "registry_ok (sv_reg s)" "is_current_owner k (Some c) (sv_reg s)"
  shows "sv_reg (drop_owner now k c cl s) = (sv_reg s)\<lparr>rg_peers := dict_del k (rg_peers (sv_reg s)),
           rg_owners := dict_del k (rg_owners (sv_reg s))\<rparr>"
    and "sv_log (drop_owner now k c cl s) = sv_log s"
  by (simp_all add: drop_owner_def Let_def forget_owner_def discard_pending_def upd_router_def
      remove_registry [OF assms])

lemma drop_owner_steps:
  assumes "registry_ok (sv_reg s)" "is_current_owner k (Some c) (sv_reg s)"
  shows "steps_to Q s (drop_owner now k c cl s)"
  by (simp add: steps_to_def drop_owner_fields [OF assms] shrinks_del)

lemma remove_owned_steps:
  assumes cfg: "tame notice cfg" and ok: "registry_ok (sv_reg s)"
  shows "steps_to (\<lambda>_ _. notice) s (snd (remove_owned_peer_state cfg now k c bc cl s))"
proof (cases "is_current_owner k (Some c) (sv_reg s)")
  case True
  note d = drop_owner_steps [OF ok True, of "\<lambda>_ _. notice" now cl]
  have "steps_to (\<lambda>_ _. notice) s (ok_or (drop_owner now k c cl s)
      (broadcast_displaced_peer_disconnect cfg p c (drop_owner now k c cl s)))" for p
    using d displaced_steps [OF cfg steps_to_ok [OF d ok]] steps_to_trans by blast
  with d show ?thesis by (simp add: remove_owned_peer_state_def Let_def split: option.split)
qed (simp add: remove_owned_peer_state_def)

lemma close_connection_steps: "steps_to Q s (close_connection_generation c s)"
  by (simp add: steps_to_same close_connection_generation_def)

lemma tame_server: "(\<And>k c s. registry_ok (sv_reg s) \<Longrightarrow> steps_to (\<lambda>_ _. N) s (f k c s)) \<Longrightarrow> tame N (server_router_cfg e f)"
  by (simp add: tame_def server_router_cfg_def send_to_peer_steps)

lemma handle_send_failed_steps:
  "registry_ok (sv_reg s) \<Longrightarrow> steps_to (\<lambda>_ _. notice) s (handle_send_failed n e now k expected s)"
proof (induction n arbitrary: k expected s)
  case 0
  then show ?case by simp
next
  case (Suc n)
  let ?cfg = "server_router_cfg e (\<lambda>k c'. handle_send_failed n e now k (Some c'))"
  have cfg: "tame notice ?cfg" using Suc.IH by (intro tame_server)
  note rm = remove_owned_steps [OF cfg Suc.prems, of now k _ True "expected = None"]
  have "steps_to (\<lambda>_ _. notice) s (close_connection_generation c (snd (remove_owned_peer_state ?cfg now k c' True (expected = None) s)))"
    for c c' using rm close_connection_steps steps_to_trans by blast
  with rm show ?case by (simp add: Let_def split: option.split prod.split) (metis snd_conv)
qed

lemma tame_server_cfg: "tame notice (server_cfg e now s)"
  unfolding server_cfg_def by (intro tame_server handle_send_failed_steps)

section \<open>The depth of nested failures\<close>

lemma shrinks_registry_count: "steps_to Q s s' \<Longrightarrow> registry_count (sv_reg s') \<le> registry_count (sv_reg s)"
  using shrinks_count steps_to_shrinks by blast

lemma drop_owner_count:
  assumes ok: "registry_ok (sv_reg s)" and own: "is_current_owner k (Some c) (sv_reg s)"
  shows "Suc (registry_count (sv_reg (drop_owner now k c cl s))) = registry_count (sv_reg s)"
proof -
  have "k \<in> set (dict_keys (rg_owners (sv_reg s)))"
    using own by (force simp: is_current_owner_def dest!: map_of_SomeD split: option.splits)
  then have "k \<in> set (dict_keys (rg_peers (sv_reg s)))" using registry_okD(3) [OF ok] by simp
  then show ?thesis
    using length_dict_del registry_okD(1) [OF ok] by (simp add: drop_owner_fields [OF assms] registry_count_def)
qed

text \<open>Two routers that differ only in how they clean up behave alike on servers with at most \<open>m\<close> peers
  when their clean-ups do.\<close>

definition agree :: "nat \<Rightarrow> router_cfg \<Rightarrow> router_cfg \<Rightarrow> bool" where
  "agree m cfg cfg' =
     (rc_send cfg = rc_send cfg' \<and> rc_batch cfg = rc_batch cfg'
      \<and> (\<forall>k c s. registry_ok (sv_reg s) \<longrightarrow> registry_count (sv_reg s) \<le> m \<longrightarrow> call_failed cfg k c s = call_failed cfg' k c s))"

definition small :: "nat \<Rightarrow> server \<Rightarrow> bool" where
  "small m s = (registry_ok (sv_reg s) \<and> registry_count (sv_reg s) \<le> m)"

lemma small_steps: "small m s \<Longrightarrow> steps_to Q s s' \<Longrightarrow> small m s'"
  using steps_to_ok shrinks_registry_count le_trans unfolding small_def by blast

lemma call_send_agree: "agree m cfg cfg' \<Longrightarrow> call_send cfg k d ex s = call_send cfg' k d ex s"
  by (simp add: agree_def call_send_def)

lemma safe_send_agree:
  assumes ag: "agree m cfg cfg'" and cfg: "tame N cfg" and s: "small m (snd fs)"
  shows "safe_send cfg data k ex fs = safe_send cfg' data k ex fs" "small m (snd (safe_send cfg data k ex fs))"
proof -
  obtain failed s where fs: "fs = (failed, s)" by (cases fs)
  have st: "steps_to (\<lambda>_ _ _. True) s (snd (call_send cfg k data (Some c') s))" for c'
    by (rule call_send_steps [OF cfg]) simp
  have sm: "small m (snd (call_send cfg k data (Some c') s))" for c'
    using small_steps [OF _ st] s by (simp add: fs)
  have cf: "call_failed cfg k c' (snd (call_send cfg k data (Some c') s)) = call_failed cfg' k c' (snd (call_send cfg k data (Some c') s))" for c'
    using ag sm [of c'] by (simp add: agree_def small_def)
  have sf: "small m (call_failed cfg k c' (snd (call_send cfg k data (Some c') s)))" for c'
    using small_steps [OF sm call_failed_steps [OF cfg]] sm by (simp add: small_def)
  show "safe_send cfg data k ex fs = safe_send cfg' data k ex fs"
    using cf by (simp add: safe_send_def fs call_send_agree [OF ag] split: option.split prod.split bool.split) (metis snd_conv)
  show "small m (snd (safe_send cfg data k ex fs))"
    using s sm sf by (simp add: safe_send_def fs split: option.split prod.split bool.split) (metis snd_conv)
qed

lemma send_batch_agree:
  assumes "agree m cfg cfg'" "tame N cfg" "small m (snd fs)"
  shows "send_batch cfg data batch fs = send_batch cfg' data batch fs \<and> small m (snd (send_batch cfg data batch fs))"
  using assms(3) unfolding send_batch_def
proof (induction batch arbitrary: fs)
  case (Cons kc batch)
  obtain k c where kc: "kc = (k, c)" by (cases kc)
  show ?case
    using Cons.IH [OF safe_send_agree(2) [OF assms(1,2) Cons.prems, of data k "Some c"]]
      safe_send_agree(1) [OF assms(1,2) Cons.prems, of data k "Some c"]
    by (auto simp: kc)
qed simp

lemma broadcast_iter_agree:
  assumes ag: "agree m cfg cfg'" and cfg: "tame N cfg" and "small m (snd fs)"
  shows "broadcast_iter cfg gen data kps batch fs sent = broadcast_iter cfg' gen data kps batch fs sent"
  using assms(3)
proof (induction kps arbitrary: batch fs sent)
  case Nil
  then show ?case using send_batch_agree [OF ag cfg] by simp
next
  case (Cons kp kps)
  have b: "rc_batch cfg = rc_batch cfg'" using ag by (simp add: agree_def)
  have sb: "send_batch cfg data b fs = send_batch cfg' data b fs" "small m (snd (send_batch cfg' data b fs))" for b
    using send_batch_agree [OF ag cfg Cons.prems, of data b] by auto
  show ?case
    using Cons.IH [OF Cons.prems] Cons.IH [OF sb(2)] by (simp add: b sb(1) Let_def split: option.split prod.split)
qed

lemma displaced_agree:
  assumes "agree m cfg cfg'" "tame N cfg" "small m s"
  shows "broadcast_displaced_peer_disconnect cfg p c s = broadcast_displaced_peer_disconnect cfg' p c s"
  using broadcast_iter_agree [OF assms(1,2)] assms(3)
  by (simp add: broadcast_displaced_peer_disconnect_def broadcast_def)

lemma remove_owned_agree:
  assumes ag: "agree m cfg cfg'" and cfg: "tame N cfg" and s: "small (Suc m) s"
  shows "remove_owned_peer_state cfg now k c bc cl s = remove_owned_peer_state cfg' now k c bc cl s"
proof (cases "is_current_owner k (Some c) (sv_reg s)")
  case True
  have ok: "registry_ok (sv_reg s)" using s by (simp add: small_def)
  have "small m (drop_owner now k c cl s)"
    using drop_owner_count [OF ok True, of now cl] s steps_to_ok [OF drop_owner_steps [OF ok True] ok]
    by (simp add: small_def)
  then have "broadcast_displaced_peer_disconnect cfg p c (drop_owner now k c cl s)
      = broadcast_displaced_peer_disconnect cfg' p c (drop_owner now k c cl s)" for p
    using displaced_agree [OF ag cfg] by blast
  then show ?thesis by (simp add: remove_owned_peer_state_def Let_def split: option.split)
qed (simp add: remove_owned_peer_state_def)

lemma handle_send_failed_depth:
  "small m s \<Longrightarrow> m \<le> n \<Longrightarrow> handle_send_failed n e now k ex s = handle_send_failed m e now k ex s"
proof (induction m arbitrary: n k ex s)
  case 0
  then have "\<not> is_current_owner k (Some c) (sv_reg s)" for c
    using registry_okD(3) [of "sv_reg s"] by (auto simp: small_def registry_count_def is_current_owner_def)
  then show ?case by (cases n) (simp_all add: Let_def split: option.split)
next
  case (Suc m)
  then obtain n' where n: "n = Suc n'" "m \<le> n'" by (cases n) auto
  let ?cfg = "\<lambda>j. server_router_cfg e (\<lambda>k c'. handle_send_failed j e now k (Some c'))"
  have tm: "tame notice (?cfg j)" for j by (intro tame_server handle_send_failed_steps)
  have "agree m (?cfg n') (?cfg m)"
    using Suc.IH [OF _ n(2)] by (simp only: agree_def server_router_cfg_def call_failed_def small_def
        router_cfg.simps option.case simp_thms) blast
  then have "remove_owned_peer_state (?cfg n') now k c True (ex = None) s
      = remove_owned_peer_state (?cfg m) now k c True (ex = None) s" for c
    using remove_owned_agree tm Suc.prems(1) by blast
  then show ?case by (simp add: n Let_def split: option.split)
qed

lemma remove_owned_gone:
  assumes cfg: "tame notice cfg" and ok: "registry_ok (sv_reg s)" and own: "is_current_owner k (Some c) (sv_reg s)"
  shows "get_connection_id k (sv_reg (snd (remove_owned_peer_state cfg now k c bc cl s))) = None"
proof -
  have gone: "get_connection_id k (sv_reg (drop_owner now k c cl s)) = None"
    by (simp add: drop_owner_fields [OF ok own] get_connection_id_def get_owner_def delete_conv')
  note d = drop_owner_steps [OF ok own]
  have "get_connection_id k (sv_reg (ok_or (drop_owner now k c cl s)
      (broadcast_displaced_peer_disconnect cfg p c (drop_owner now k c cl s)))) = None" for p
    using shrinks_get(3) [OF steps_to_shrinks [OF displaced_steps [OF cfg steps_to_ok [OF d ok]]], of k] gone
    by (metis option.exhaust)
  moreover obtain p where "get_by_key k (sv_reg s) = Some p"
    using own registry_ok_get [OF ok, of k]
    by (auto simp: is_current_owner_def get_by_key_def split: option.splits)
  ultimately show ?thesis using own gone by (simp add: remove_owned_peer_state_def Let_def)
qed

text \<open>C20: cleaning up after a failed send ends: the notices it sends may fail and be cleaned up after in
  turn, but no deeper than there are registered peers, so that any bound from that number on gives the
  same server. Afterwards the connection that failed owns the nick no more, and the registry has only
  lost peers.\<close>

theorem failure_depth_suffices:
  assumes "registry_ok (sv_reg s)" "registry_count (sv_reg s) \<le> n"
  shows "handle_send_failed n e now k ex s = handle_send_failed (registry_count (sv_reg s)) e now k ex s
       \<and> (\<forall>c. or_conn ex k s = Some c \<longrightarrow> \<not> is_current_owner k (Some c) (sv_reg (handle_send_failed n e now k ex s)))
       \<and> shrinks (sv_reg s) (sv_reg (handle_send_failed n e now k ex s))"
proof -
  have "\<not> is_current_owner k (Some c) (sv_reg (handle_send_failed n e now k ex s))" if c: "or_conn ex k s = Some c" for c
  proof (cases "is_current_owner k (Some c) (sv_reg s)")
    case False
    then show ?thesis
      using shrinks_get(3) [OF steps_to_shrinks [OF handle_send_failed_steps [OF assms(1)]]] by (auto simp: reg.owns_iff)
  next
    case True
    then have "0 < registry_count (sv_reg s)" using drop_owner_count [OF assms(1) True] by (metis zero_less_Suc)
    then obtain n' where n: "n = Suc n'" using assms(2) by (cases n) auto
    let ?cfg = "server_router_cfg e (\<lambda>k c'. handle_send_failed n' e now k (Some c'))"
    have "tame notice ?cfg" by (intro tame_server handle_send_failed_steps)
    note gone = remove_owned_gone [OF this assms(1) True, of now True "ex = None"]
    obtain po s1 where rm: "remove_owned_peer_state ?cfg now k c True (ex = None) s = (po, s1)" by (metis prod.exhaust)
    have "handle_send_failed n e now k ex s = (case po of None \<Rightarrow> s1 | Some _ \<Rightarrow> close_connection_generation c s1)"
      using c True rm by (simp add: n Let_def)
    then have "sv_reg (handle_send_failed n e now k ex s) = sv_reg s1"
      by (simp add: close_connection_generation_def split: option.split)
    with gone rm show ?thesis by (simp add: reg.owns_iff)
  qed
  moreover have "small (registry_count (sv_reg s)) s" using assms(1) by (simp add: small_def)
  ultimately show ?thesis
    using handle_send_failed_depth [OF _ assms(2)] steps_to_shrinks [OF handle_send_failed_steps [OF assms(1)]] by blast
qed

definition ex_router :: router_state where
  "ex_router = \<lparr>rt_offers = [], rt_ingress = [], rt_drops = [], rt_outgoing = new_bucket (\<lambda>x. x) 0 1000 1000,
     rt_outgoing_drops = 0\<rparr>"

text \<open>A server with two connected peers and one that is still shaking hands.\<close>

definition ex_server_registry :: registry where
  "ex_server_registry =
     (let live = (\<lambda>n. (n, (ex_peer n SIGNET)\<lparr>pi_status := HANDSHAKED\<rparr>));
          own = (\<lambda>n c. (n, \<lparr>po_connection_id = c, po_verified_pubkey = None\<rparr>)) in
      \<lparr>rg_max_peers = 10, rg_peers = [live ''alice'', live ''bob'', (''carol'', ex_peer ''carol'' SIGNET)],
       rg_owners = [own ''alice'' ''c1'', own ''bob'' ''c2'', own ''carol'' ''c3'']\<rparr>)"

definition ex_server :: server where
  "ex_server =
     \<lparr>sv_reg = ex_server_registry, sv_router = ex_router, sv_pong_pending = {},
      sv_key_conn = [(''alice'', ''c1''), (''bob'', ''c2''), (''carol'', ''c3'')], sv_conns = {''c1'', ''c2'', ''c3''},
      sv_limiter = rate_limiter_init 10 None None, sv_log = [], sv_attempts = 0\<rparr>"

definition ex_env :: server_env where
  "ex_env = \<lparr>se_write = (\<lambda>_. True), se_batch = 50, se_fl = (\<lambda>x. x)\<rparr>"

lemma ex_server_registry_ok: "registry_ok (sv_reg ex_server)"
  by (simp add: ex_server_def ex_server_registry_def registry_ok_def ex_peer_def Let_def)

theorem failure_depth_suffices_witness:
  "handle_send_failed 7 ex_env 0 ''alice'' (Some ''c1'') ex_server
     = handle_send_failed (registry_count (sv_reg ex_server)) ex_env 0 ''alice'' (Some ''c1'') ex_server
   \<and> \<not> is_current_owner ''alice'' (Some ''c1'') (sv_reg (handle_send_failed 7 ex_env 0 ''alice'' (Some ''c1'') ex_server))"
proof -
  have "registry_count (sv_reg ex_server) \<le> 7"
    by (simp add: ex_server_def ex_server_registry_def registry_count_def Let_def)
  from failure_depth_suffices [OF ex_server_registry_ok this, of ex_env 0 "''alice''" "Some ''c1''"]
  show ?thesis by (auto simp: or_conn_def)
qed

section \<open>Delivery when writes succeed\<close>

text \<open>The connection of a nick is known under the nick and open.\<close>

definition linked :: "server \<Rightarrow> bool" where
  "linked s =
     (\<forall>k c. get_connection_id k (sv_reg s) = Some c \<longrightarrow> dict_get (sv_key_conn s) k = Some c \<and> c \<noteq> [] \<and> c \<in> sv_conns s)"

definition deliver :: "string \<Rightarrow> (string \<times> string) list \<Rightarrow> server \<Rightarrow> server" where
  "deliver data kcs s =
     s\<lparr>sv_log := sv_log s @ map (\<lambda>(k, c). (k, c, data)) kcs, sv_attempts := sv_attempts s + length kcs\<rparr>"

lemma deliver_fields [simp]:
  "sv_reg (deliver data kcs s) = sv_reg s" "sv_router (deliver data kcs s) = sv_router s"
  "sv_key_conn (deliver data kcs s) = sv_key_conn s" "sv_conns (deliver data kcs s) = sv_conns s"
  "sv_log (deliver data kcs s) = sv_log s @ map (\<lambda>(k, c). (k, c, data)) kcs"
  by (simp_all add: deliver_def)

lemma deliver_Nil [simp]: "deliver data [] s = s"
  by (simp add: deliver_def)

lemma deliver_deliver [simp]: "deliver data ys (deliver data xs s) = deliver data (xs @ ys) s"
  by (simp add: deliver_def)

lemma linked_deliver [simp]: "linked (deliver data kcs s) = linked s"
  by (simp add: linked_def)

lemma sendable_deliver [simp]: "sendable k c (deliver data kcs s) = sendable k c s"
  by (simp add: sendable_def split: option.split)

lemma send_to_peer_ok:
  assumes "linked s" "sendable k c s" "\<And>n. se_write e n"
  shows "send_to_peer e k data (Some c) s = (True, deliver data [(k, c)] s)"
proof -
  have "get_connection_id k (sv_reg s) = Some c" using assms(2) by (simp add: sendable_iff)
  with assms show ?thesis by (simp add: linked_def send_to_peer_def conn_write_def deliver_def Let_def)
qed

lemma safe_send_ok:
  assumes "linked s" "sendable k c s" "\<And>n. se_write e n"
  shows "safe_send (server_router_cfg e f) data k (Some c) ({}, s) = ({}, deliver data [(k, c)] s)"
proof -
  have c: "get_connection_id k (sv_reg s) = Some c" using assms(2) by (simp add: sendable_iff)
  then have "or_conn (Some c) k s = Some c" using assms(1) by (auto simp: or_conn_def linked_def)
  with c assms send_to_peer_ok [OF assms] show ?thesis
    by (simp add: safe_send_def call_send_def server_router_cfg_def reg.owns_iff)
qed

lemma send_batch_ok:
  assumes "\<And>n. se_write e n"
  shows "linked s \<Longrightarrow> \<forall>(k, c) \<in> set batch. sendable k c s \<Longrightarrow>
    send_batch (server_router_cfg e f) data batch ({}, s) = ({}, deliver data batch s)"
  unfolding send_batch_def
proof (induction batch arbitrary: s)
  case (Cons kc batch)
  obtain k c where kc: "kc = (k, c)" by (cases kc)
  have "safe_send (server_router_cfg e f) data k (Some c) ({}, s) = ({}, deliver data [(k, c)] s)"
    using Cons.prems by (intro safe_send_ok assms) (auto simp: kc)
  with Cons show ?case by (simp add: kc)
qed simp

lemma broadcast_iter_ok:
  assumes w: "\<And>n. se_write e n" and gen: "\<And>kcs kp. gen (deliver data kcs s) kp = gen s kp"
    and ok: "linked s" "\<And>kp k c. gen s kp = Some (k, c) \<Longrightarrow> sendable k c s"
    and batch: "\<forall>(k, c) \<in> set batch. sendable k c s"
  shows "snd (broadcast_iter (server_router_cfg e f) gen data kps batch ({}, deliver data done s) sent)
       = deliver data (done @ batch @ List.map_filter (gen s) kps) s"
  using batch
proof (induction kps arbitrary: batch "done" sent)
  case Nil
  then show ?case using send_batch_ok [OF w, of "deliver data done s" batch f data] ok(1)
    by (simp add: List.map_filter_simps)
next
  case (Cons kp kps)
  show ?case
  proof (cases "gen s kp")
    case None
    with Cons show ?thesis by (simp add: gen List.map_filter_simps)
  next
    case (Some kc)
    obtain k c where kc: "kc = (k, c)" by (cases kc)
    have b: "\<forall>(k, c) \<in> set (batch @ [(k, c)]). sendable k c s" using Cons.prems ok(2) [of kp k c] Some kc by auto
    have "send_batch (server_router_cfg e f) data (batch @ [(k, c)]) ({}, deliver data done s)
        = ({}, deliver data (done @ batch @ [(k, c)]) s)"
      using send_batch_ok [OF w, of "deliver data done s" "batch @ [(k, c)]" f data] ok(1) b by simp
    with Cons.IH [of "[]" "done @ batch @ [(k, c)]"] Cons.IH [OF b] Some kc show ?thesis
      by (simp add: gen List.map_filter_simps Let_def)
  qed
qed

lemma targets_eq:
  assumes ok: "registry_ok (sv_reg s)"
  shows "List.map_filter (next_target network keep s) (rg_peers (sv_reg s))
       = map (\<lambda>(k, p, c). (k, c)) (filter (\<lambda>(k, p, c). keep k p c) (iter_connected_owners network (sv_reg s)))"
proof -
  let ?r = "sv_reg s"
  have "List.map_filter (next_target network keep s) kps =
      map (\<lambda>(k, p, c). (k, c)) (filter (\<lambda>(k, p, c). keep k p c)
        (List.map_filter (owned ?r) (filter (\<lambda>kp. is_connected network (snd kp)) kps)))"
    if "set kps \<subseteq> set (rg_peers ?r)" for kps
    using that
  proof (induction kps)
    case (Cons kp kps)
    obtain k p where kp: "kp = (k, p)" by (cases kp)
    have "get_by_key k ?r = Some p"
      using Cons.prems registry_okD(1) [OF ok] by (simp add: kp get_by_key_def map_of_is_SomeI)
    with Cons show ?case
      by (cases "dict_get (rg_owners ?r) k")
        (auto simp: kp List.map_filter_simps next_target_def owned_def get_connection_id_def get_owner_def)
  qed (simp add: List.map_filter_simps)
  then show ?thesis by (simp add: iter_connected_owners_def)
qed

lemma broadcast_ok:
  assumes "\<And>n. se_write e n" "registry_ok (sv_reg s)" "linked s"
  shows "snd (broadcast (server_router_cfg e f) network keep data s)
       = deliver data (map (\<lambda>(k, p, c). (k, c)) (filter (\<lambda>(k, p, c). keep k p c) (iter_connected_owners network (sv_reg s)))) s"
proof -
  have gen: "next_target network keep (deliver data kcs s) kp = next_target network keep s kp" for kcs kp
    by (simp add: next_target_def Let_def)
  have send: "sendable k c s" if "next_target network keep s kp = Some (k, c)" for kp k c
    using next_target_live [OF assms(2) that] reg.target_sendable [OF assms(2)]
    by (auto simp: live_target_def sendable_def)
  show ?thesis
    using broadcast_iter_ok [OF assms(1), of "next_target network keep" data s "[]" f "rg_peers (sv_reg s)" "[]" 0] gen send assms(3)
    by (simp add: broadcast_def targets_eq [OF assms(2)])
qed

text \<open>What the limits decide about a public message of \<open>n\<close> bytes for \<open>m\<close> recipients: the router
  state they leave when they let it pass.\<close>

definition admitted ::
  "(rat \<Rightarrow> rat) \<Rightarrow> rat \<Rightarrow> rat \<Rightarrow> owner_id \<Rightarrow> string \<Rightarrow> nat \<Rightarrow> nat \<Rightarrow> router_state \<Rightarrow> router_state option" where
  "admitted fl t1 t2 owner rest n m rt =
     (let (ok1, rt1) = consume_public_ingress fl t1 owner n rt; (ok2, rt2) = track_offer owner rest rt1;
          (ok3, rt3) = consume_public_outgoing fl t2 n m rt2
      in if ok1 \<and> ok2 \<and> ok3 then Some rt3 else None)"

lemma public_message_effect:
  assumes "get_connection_id key (sv_reg s) = Some c" "c \<noteq> []" "get_by_key key (sv_reg s) = Some p" "pi_nick p = key"
    and "env_payload env = key @ ''!PUBLIC!'' @ rest" "CHR ''!'' \<notin> set key"
    and "admitted (rc_fl cfg) t1 t2 (key, c) rest (length (to_bytes env))
           (length (public_targets key (pi_network p) (sv_reg s))) (sv_router s) = Some rt"
  shows "handle_public_message cfg t1 t2 env key (Some c) s
       = snd (broadcast cfg (Some (pi_network p)) (\<lambda>k _ _. k \<noteq> key) (to_bytes env) (s\<lparr>sv_router := rt\<rparr>))"
proof -
  have "parse_jm_message (env_payload env) = Some (key, ''PUBLIC'', rest)"
    using assms(5,6) by (simp add: parse_jm_message_Some COMMAND_PREFIX_def)
  moreover have "is_current_owner key (Some c) (sv_reg s)" using assms(1) by (simp add: reg.owns_iff)
  ultimately show ?thesis
    using assms by (auto simp: handle_public_message_def or_conn_def admitted_def Let_def split: prod.splits if_splits)
qed

text \<open>when the writes to the connections succeed, a public message of a connected peer that the limits
  let pass is written once to every other connected peer of the same network, in registration order,
  and to nobody else.\<close>

theorem public_message_delivered:
  assumes "\<And>n. se_write e n" "registry_ok (sv_reg s)" "linked s"
    and "get_by_key key (sv_reg s) = Some p" "pi_status p = HANDSHAKED" "get_connection_id key (sv_reg s) = Some c"
    and "env_type env = 687" "env_payload env = key @ ''!PUBLIC!'' @ rest" "CHR ''!'' \<notin> set key"
    and "admitted (se_fl e) t1 t2 (key, c) rest (length (to_bytes env))
           (length (public_targets key (pi_network p) (sv_reg s))) (sv_router s) = Some rt"
  shows "\<exists>s'. route_message (server_cfg e now s) t1 t2 env key (Some c) s = Inr s'
       \<and> sv_log s' = sv_log s @ map (\<lambda>(k, q, c'). (k, c', to_bytes env)) (public_targets key (pi_network p) (sv_reg s))
       \<and> distinct (map fst (public_targets key (pi_network p) (sv_reg s)))
       \<and> sv_reg s' = sv_reg s \<and> sv_router s' = rt"
proof -
  let ?t = "public_targets key (pi_network p) (sv_reg s)"
  let ?s = "s\<lparr>sv_router := rt\<rparr>"
  have c: "c \<noteq> []" using assms(3,6) by (auto simp: linked_def)
  have fl: "rc_fl (server_cfg e now s) = se_fl e" by (simp add: server_cfg_def server_router_cfg_def)
  have n: "pi_nick p = key" using reg.nick_key [OF assms(2,4)] .
  have "handle_public_message (server_cfg e now s) t1 t2 env key (Some c) s
      = snd (broadcast (server_cfg e now s) (Some (pi_network p)) (\<lambda>k _ _. k \<noteq> key) (to_bytes env) ?s)"
    using assms c n fl by (intro public_message_effect) auto
  also have "\<dots> = deliver (to_bytes env) (map (\<lambda>(k, p, c). (k, c)) ?t) ?s"
    using broadcast_ok [OF assms(1), of ?s _ "Some (pi_network p)" "\<lambda>k _ _. k \<noteq> key" "to_bytes env"] assms(2,3)
    by (simp add: server_cfg_def linked_def public_targets_def case_prod_unfold)
  finally have h: "handle_public_message (server_cfg e now s) t1 t2 env key (Some c) s
      = deliver (to_bytes env) (map (\<lambda>(k, p, c). (k, c)) ?t) ?s" .
  have "distinct (map fst ?t)"
    using reg.live_distinct [OF assms(2)] by (simp add: public_targets_def distinct_map_filter)
  moreover have "route_message (server_cfg e now s) t1 t2 env key (Some c) s
      = Inr (handle_public_message (server_cfg e now s) t1 t2 env key (Some c) s)"
    using assms(4-7) c by (simp add: route_message_def or_conn_def reg.owns_iff)
  ultimately show ?thesis by (simp add: h case_prod_unfold)
qed

definition ex_public :: envelope where
  "ex_public = \<lparr>env_type = 687, env_payload = ''alice!PUBLIC!hi''\<rparr>"

theorem public_message_delivered_witness:
  "\<exists>s'. route_message (server_cfg ex_env 0 ex_server) 0 0 ex_public ''alice'' (Some ''c1'') ex_server = Inr s'
     \<and> map (\<lambda>(k, c, d). (k, c)) (sv_log s') = [(''bob'', ''c2'')]"
proof -
  let ?t = "public_targets ''alice'' SIGNET (sv_reg ex_server)"
  have t: "map (\<lambda>(k, q, c). (k, c)) ?t = [(''bob'', ''c2'')]" by code_simp
  have "length ?t = 1" by (metis t length_map length_Cons list.size(3) One_nat_def)
  have "admitted (\<lambda>x. x) 0 0 (''alice'', ''c1'') ''hi'' (length (to_bytes ex_public)) 1 ex_router \<noteq> None" by code_simp
  then obtain rt where rt: "admitted (\<lambda>x. x) 0 0 (''alice'', ''c1'') ''hi'' (length (to_bytes ex_public)) (length ?t) ex_router = Some rt"
    using \<open>length ?t = 1\<close> by auto
  let ?p = "(ex_peer ''alice'' SIGNET)\<lparr>pi_status := HANDSHAKED\<rparr>"
  have l: "linked ex_server"
    by (auto simp: linked_def ex_server_def ex_server_registry_def get_connection_id_def get_owner_def Let_def split: if_splits)
  have f: "get_by_key ''alice'' (sv_reg ex_server) = Some ?p" "get_connection_id ''alice'' (sv_reg ex_server) = Some ''c1''"
    "sv_router ex_server = ex_router" "sv_log ex_server = []" "pi_network ?p = SIGNET" "pi_status ?p = HANDSHAKED"
    by (simp_all add: ex_server_def ex_server_registry_def get_by_key_def get_connection_id_def get_owner_def ex_peer_def Let_def)
  have e: "se_write ex_env n" "se_fl ex_env = (\<lambda>x. x)" for n by (simp_all add: ex_env_def)
  have pl: "env_type ex_public = 687" "env_payload ex_public = ''alice'' @ ''!PUBLIC!'' @ ''hi''" "CHR ''!'' \<notin> set ''alice''"
    by (simp_all add: ex_public_def)
  from public_message_delivered [OF e(1) ex_server_registry_ok l f(1,6,2) pl, of 0 0 rt 0] rt t
  show ?thesis by (auto simp: e f case_prod_unfold comp_def)
qed

section \<open>Whom a message reaches\<close>

definition has_type :: "int \<Rightarrow> string \<Rightarrow> bool" where
  "has_type t d = (\<exists>payload. d = to_bytes \<lparr>env_type = t, env_payload = payload\<rparr>)"

lemma nat_digits_inj: "nat_digits m = nat_digits n \<Longrightarrow> m = n"
  by (metis digits_nat_nat_digits)

lemma to_bytes_type:
  assumes "to_bytes a = to_bytes b" "0 \<le> env_type a" "0 \<le> env_type b"
  shows "env_type a = env_type b"
proof -
  have pre: "\<exists>r. to_bytes x = (''{'' @ json_string ''type'' @ '': '') @ str_of_int (env_type x) @ CHR '','' # r" for x
    by (simp add: to_bytes_def)
  have tw: "takeWhile is_digit (str_of_int n @ CHR '','' # r) = str_of_int n" if "0 \<le> n" for n r
    using str_of_int_digits [OF that] by (subst takeWhile_append2) (auto simp: is_digit_def)
  obtain r1 r2 where "str_of_int (env_type a) @ CHR '','' # r1 = str_of_int (env_type b) @ CHR '','' # r2"
    using pre [of a] pre [of b] assms(1) by (metis same_append_eq)
  then have "str_of_int (env_type a) = str_of_int (env_type b)" using tw assms(2,3) by metis
  then show ?thesis using assms(2,3) nat_digits_inj by (force simp: str_of_int_def)
qed

lemma has_type_unique: "has_type t (to_bytes env) \<Longrightarrow> 0 \<le> t \<Longrightarrow> 0 \<le> env_type env \<Longrightarrow> env_type env = t"
  using to_bytes_type by (fastforce simp: has_type_def)

lemma peerlist_has_type: "has_type 789 (to_bytes (peerlist_envelope payload))"
  by (auto simp: has_type_def peerlist_envelope_def)

lemma notice_has_type: "notice d \<Longrightarrow> has_type 789 d"
  using peerlist_has_type by (auto simp: notice_def)

lemma send_chunks_steps:
  assumes cfg: "tame N cfg"
  shows "steps_to (\<lambda>_ _. has_type 789) s (send_chunks cfg k expected cs s)"
proof (induction cs arbitrary: s)
  case (Cons c cs)
  have "steps_to (\<lambda>_ _. has_type 789) s (snd (call_send cfg k (to_bytes (peerlist_envelope (join_with '','' c))) expected s))"
    by (rule call_send_steps [OF cfg]) (rule peerlist_has_type)
  with Cons.IH show ?case
    by (auto split: prod.split bool.split intro: steps_to_trans)
qed simp

lemma peerlist_request_steps:
  assumes "tame N cfg" "handle_peerlist_request cfg k cid s = Inr s'"
  shows "steps_to (\<lambda>_ _. has_type 789) s s'"
  using assms(2) send_chunks_steps [OF assms(1)] call_send_steps [OF assms(1)] peerlist_has_type
  by (auto simp: handle_peerlist_request_def send_peerlist_def bind_res_Inr_iff Let_def split: option.splits if_splits)

lemma ping_steps: "tame N cfg \<Longrightarrow> steps_to (\<lambda>_ _. has_type 799) s (handle_ping cfg k cid s)"
  by (auto simp: handle_ping_def has_type_def intro!: call_send_steps split: option.split)

text \<open>The relayed message comes from its sender's nick and goes to peers of the sender's network.\<close>

definition relayed :: "envelope \<Rightarrow> string \<Rightarrow> server \<Rightarrow> string \<Rightarrow> bool" where
  "relayed env key s k =
     (\<exists>to_nick rest p q. env_payload env = key @ ''!'' @ to_nick @ ''!'' @ rest
        \<and> get_by_key key (sv_reg s) = Some p \<and> get_by_key k (sv_reg s) = Some q \<and> pi_network q = pi_network p
        \<and> (if env_type env = 687 then to_nick = ''PUBLIC'' \<and> k \<noteq> key else env_type env = 685 \<and> k = to_nick))"

lemma parsed_payload:
  "parse_jm_message (env_payload env) = Some (a, b, rest) \<Longrightarrow> env_payload env = a @ ''!'' @ b @ ''!'' @ rest"
  by (simp add: parse_jm_message_Some COMMAND_PREFIX_def)

lemma public_steps:
  assumes cfg: "tame notice cfg" and ok: "registry_ok (sv_reg s)" and t: "env_type env = 687"
  shows "steps_to (\<lambda>k _ d. d = to_bytes env \<and> relayed env key s k \<or> has_type 789 d) s
           (handle_public_message cfg t1 t2 env key cid s)"
    (is "steps_to ?Q s _")
proof -
  have bc: "steps_to ?Q s (snd (broadcast cfg (Some (pi_network p)) (\<lambda>k _ _. k \<noteq> key) (to_bytes env) (s\<lparr>sv_router := rt\<rparr>)))"
    if m: "parse_jm_message (env_payload env) = Some (pi_nick p, ''PUBLIC'', rest)"
      and p: "get_by_key key (sv_reg s) = Some p" for p rest rt
  proof -
    let ?s = "s\<lparr>sv_router := rt\<rparr>"
    have pl: "env_payload env = key @ ''!'' @ ''PUBLIC'' @ ''!'' @ rest"
      using parsed_payload [OF m] reg.nick_key [OF ok p] by simp
    have "relayed env key s k"
      if "live_target (Some (pi_network p)) (\<lambda>k _ _. k \<noteq> key) ?s k c" for k c
      using that p pl t ok by (auto simp: relayed_def live_target_def reg.live_iff is_connected_def)
    then have "steps_to ?Q ?s (snd (broadcast cfg (Some (pi_network p)) (\<lambda>k _ _. k \<noteq> key) (to_bytes env) ?s))"
      using ok by (intro steps_to_mono [OF broadcast_steps [OF cfg]]) (auto simp: addressed_def notice_has_type)
    moreover have "steps_to ?Q s ?s" by (rule steps_to_same) simp_all
    ultimately show ?thesis using steps_to_trans by blast
  qed
  have same: "steps_to ?Q s (s\<lparr>sv_router := rt\<rparr>)" for rt by (rule steps_to_same) simp_all
  show ?thesis
    using bc same by (auto simp: handle_public_message_def Let_def split: option.split prod.split)
qed

lemma location_steps:
  assumes "tame N cfg"
  shows "steps_to (\<lambda>_ _. has_type 789) s (snd (send_peer_location cfg k p ex s))"
  using call_send_steps [OF assms] peerlist_has_type
  by (auto simp: send_peer_location_def split: sum.split)

lemma private_steps:
  assumes cfg: "tame notice cfg" and ok: "registry_ok (sv_reg s)" and t: "env_type env = 685"
  shows "steps_to (\<lambda>k _ d. d = to_bytes env \<and> relayed env key s k \<or> has_type 789 d) s
           (handle_private_message cfg env key cid s)"
    (is "steps_to ?Q s _")
proof -
  have fin: "steps_to ?Q s (case call_send cfg k (to_bytes env) (Some c) s of
        (False, s1) \<Rightarrow> call_failed cfg k c s1
      | (True, s1) \<Rightarrow> (case send_peer_location cfg k p (Some c) s1 of
                        (True, s2) \<Rightarrow> s2 | (False, s2) \<Rightarrow> call_failed cfg k c s2))"
    if r: "relayed env key s k" for k c p
  proof -
    obtain b s1 where b: "call_send cfg k (to_bytes env) (Some c) s = (b, s1)" by (metis prod.exhaust)
    obtain b2 s2 where b2: "send_peer_location cfg k p (Some c) s1 = (b2, s2)" by (metis prod.exhaust)
    have 1: "steps_to ?Q s s1" using call_send_steps [OF cfg, of k s ?Q "to_bytes env" "Some c"] r b by simp
    have "steps_to ?Q s1 s2"
      using steps_to_mono [OF location_steps [OF cfg, of s1 k p "Some c"], of ?Q] b2 by simp
    then have 2: "steps_to ?Q s s2" using 1 steps_to_trans by blast
    have "steps_to ?Q x (call_failed cfg k c x)" if "steps_to ?Q s x" for x
      using steps_to_mono [OF call_failed_steps [OF cfg steps_to_ok [OF that ok]], of ?Q] notice_has_type by blast
    then show ?thesis using 1 2 steps_to_trans b b2 by (auto split: bool.split)
  qed
  have rel: "relayed env key s (pi_nick q)"
    if m: "parse_jm_message (env_payload env) = Some (pi_nick p, to_nick, rest)" "get_by_key key (sv_reg s) = Some p"
      "get_by_nick to_nick (sv_reg s) = Some q" "pi_network p = pi_network q" for p q to_nick rest
  proof -
    have "get_by_key to_nick (sv_reg s) = Some q" using m(3) by (simp add: get_by_nick_def get_by_key_def)
    moreover from this have "pi_nick q = to_nick" using reg.nick_key [OF ok] by blast
    ultimately show ?thesis
      using parsed_payload [OF m(1)] reg.nick_key [OF ok m(2)] m(2,4) t by (auto simp: relayed_def)
  qed
  show ?thesis
    unfolding handle_private_message_def Let_def
    using fin [OF rel] by (auto split: option.split)
qed

text \<open>C7: whatever writes fail, handling a message writes only to connections that owned a connected nick
  when it arrived. A copy of the message itself goes out only if it names the nick of the connection it
  came from as its sender, and only to peers of that network: to others for a public message, to the
  one addressed for a private message. The registry only loses peers.\<close>

theorem message_scope:
  assumes "registry_ok (sv_reg s)" "0 \<le> env_type env"
    and "route_message (server_cfg e now s) t1 t2 env key cid s = Inr s'"
  shows "shrinks (sv_reg s) (sv_reg s')
       \<and> (\<exists>xs. sv_log s' = sv_log s @ xs
            \<and> (\<forall>(k, c, d) \<in> set xs. sendable k c s \<and> (d = to_bytes env \<longrightarrow> relayed env key s k)))"
proof -
  let ?cfg = "server_cfg e now s"
  let ?Q = "\<lambda>k (c :: string) d. d = to_bytes env \<longrightarrow> relayed env key s k"
  have other: "?Q k c d" if "has_type ty d" "ty \<noteq> env_type env" "0 \<le> ty" for k c d ty
    using has_type_unique assms(2) that by blast
  note tm = tame_server_cfg [of e now s]
  consider "s' = s" | c where "env_type env = 687" "s' = handle_public_message ?cfg t1 t2 env key (Some c) s"
    | c where "env_type env = 685" "s' = handle_private_message ?cfg env key (Some c) s"
    | c where "env_type env = 791" "handle_peerlist_request ?cfg key (Some c) s = Inr s'"
    | c where "env_type env = 798" "s' = handle_ping ?cfg key (Some c) s"
    | c where "env_type env = 799" "s' = handle_pong ?cfg key (Some c) s"
    using assms(3) by (auto simp: route_message_def split: option.splits if_splits)
  then have "steps_to ?Q s s'"
  proof cases
    case (2 c)
    show ?thesis unfolding 2(2) by (rule steps_to_mono [OF public_steps [OF tm assms(1) 2(1)]]) (use other [of 789] 2(1) in auto)
  next
    case (3 c)
    show ?thesis unfolding 3(2) by (rule steps_to_mono [OF private_steps [OF tm assms(1) 3(1)]]) (use other [of 789] 3(1) in auto)
  next
    case (4 c)
    then show ?thesis by (intro steps_to_mono [OF peerlist_request_steps [OF tm 4(2)]]) (use other [of 789] 4(1) in auto)
  next
    case (5 c)
    show ?thesis unfolding 5(2) by (rule steps_to_mono [OF ping_steps [OF tm]]) (use other [of 799] 5(1) in auto)
  next
    case (6 c)
    then have "sv_reg s' = sv_reg s" "sv_log s' = sv_log s"
      by (auto simp: handle_pong_def call_pong_def server_cfg_def server_router_cfg_def hb_handle_pong_def
          discard_pending_def split: option.split)
    then show ?thesis by (rule steps_to_same)
  qed simp
  then show ?thesis by (simp add: steps_to_def)
qed

theorem message_scope_witness:
  "\<exists>s' xs. route_message (server_cfg ex_env 0 ex_server) 0 0 \<lparr>env_type = 685, env_payload = ''alice!bob!hello''\<rparr>
        ''carol'' (Some ''c3'') ex_server = Inr s' \<and> sv_log s' = xs
      \<and> (\<forall>(k, c, d) \<in> set xs. sendable k c ex_server)"
proof -
  let ?env = "\<lparr>env_type = 685, env_payload = ''alice!bob!hello''\<rparr>"
  obtain s' where s': "route_message (server_cfg ex_env 0 ex_server) 0 0 ?env ''carol'' (Some ''c3'') ex_server = Inr s'"
    by (auto simp: route_message_def ex_server_def ex_server_registry_def get_by_key_def ex_peer_def or_conn_def Let_def)
  from message_scope [OF ex_server_registry_ok _ s'] have "\<exists>xs. sv_log s' = sv_log ex_server @ xs
      \<and> (\<forall>(k, c, d) \<in> set xs. sendable k c ex_server)"
    by auto
  moreover have "sv_log ex_server = []" by (simp add: ex_server_def)
  ultimately show ?thesis using s' by auto
qed

end
