(* ===== verification/Dir_Liveness.thy ===== *)
theory Dir_Liveness
  imports Dir_Delivery
begin

text \<open>
  What a heartbeat sweep does to the registry, whatever writes to the connections fail and exactly what when none does,
  and the bounds on the offers the router remembers.
\<close>

section \<open>Evicting a peer\<close>

definition drop_keys :: "string set \<Rightarrow> registry \<Rightarrow> registry" where
  "drop_keys K r =
     r\<lparr>rg_peers := filter (\<lambda>kv. fst kv \<notin> K) (rg_peers r), rg_owners := filter (\<lambda>kv. fst kv \<notin> K) (rg_owners r)\<rparr>"

lemma drop_keys_empty [simp]: "drop_keys {} r = r"
  by (simp add: drop_keys_def)

lemma drop_keys_union [simp]: "drop_keys K (drop_keys K' r) = drop_keys (K' \<union> K) r"
  by (auto simp: drop_keys_def filter_filter intro!: filter_cong)

lemma drop_keys_get:
  "get_by_key k (drop_keys K r) = (if k \<in> K then None else get_by_key k r)"
  "get_connection_id k (drop_keys K r) = (if k \<in> K then None else get_connection_id k r)"
  by (simp_all add: drop_keys_def get_by_key_def get_connection_id_def get_owner_def map_of_filter_keys)

lemma drop_keys_shrinks: "shrinks r (drop_keys K r)"
  by (auto simp: shrinks_def drop_keys_def)

lemma drop_owner_reg:
  assumes "registry_ok (sv_reg s)" "is_current_owner k (Some c) (sv_reg s)"
  shows "sv_reg (drop_owner now k c cl s) = drop_keys {k} (sv_reg s)"
  by (simp add: drop_owner_fields [OF assms] drop_keys_def dict_del_filter)

text \<open>No two nicks share a connection.\<close>

definition conn_inj :: "registry \<Rightarrow> bool" where
  "conn_inj r = (\<forall>k k' c. get_connection_id k r = Some c \<longrightarrow> get_connection_id k' r = Some c \<longrightarrow> k = k')"

definition healthy :: "server \<Rightarrow> bool" where
  "healthy s = (registry_ok (sv_reg s) \<and> linked s \<and> conn_inj (sv_reg s))"

lemma healthyD: "healthy s \<Longrightarrow> registry_ok (sv_reg s)" "healthy s \<Longrightarrow> linked s" "healthy s \<Longrightarrow> conn_inj (sv_reg s)"
  by (simp_all add: healthy_def)

lemma drop_owner_linked:
  assumes h: "healthy s" and own: "is_current_owner k (Some c) (sv_reg s)"
  shows "linked (drop_owner now k c cl s)"
    "sv_key_conn (drop_owner now k c cl s) = dict_del k (sv_key_conn s)"
    "sv_conns (drop_owner now k c cl s) = sv_conns s"
    "sv_pong_pending (drop_owner now k c cl s) = sv_pong_pending s - {(k, c)}"
proof -
  have "get_connection_id k (sv_reg s) = Some c" using own by (simp add: reg.owns_iff)
  then have kc: "dict_get (sv_key_conn s) k = Some c" using healthyD(2) [OF h] by (simp add: linked_def)
  show f: "sv_key_conn (drop_owner now k c cl s) = dict_del k (sv_key_conn s)"
    "sv_conns (drop_owner now k c cl s) = sv_conns s"
    "sv_pong_pending (drop_owner now k c cl s) = sv_pong_pending s - {(k, c)}"
    using kc by (simp_all add: drop_owner_def Let_def forget_owner_def discard_pending_def upd_router_def)
  show "linked (drop_owner now k c cl s)"
    using healthyD(2) [OF h]
    by (auto simp: linked_def f drop_owner_reg [OF healthyD(1) [OF h] own] drop_keys_get delete_conv' split: if_splits)
qed

lemma displaced_ok:
  assumes "\<And>n. se_write e n" "registry_ok (sv_reg s)" "linked s"
  shows "\<exists>data kcs. ok_or s (broadcast_displaced_peer_disconnect (server_router_cfg e f) p c s) = deliver data kcs s"
proof (cases "pi_status p = HANDSHAKED \<and> \<not> isl (create_peerlist_entry (pi_nick p) (location_string p) True None)")
  case True
  then obtain entry where "create_peerlist_entry (pi_nick p) (location_string p) True None = Inr entry"
    by (cases "create_peerlist_entry (pi_nick p) (location_string p) True None") auto
  with True show ?thesis
    unfolding broadcast_displaced_peer_disconnect_def ok_or_def by (simp add: broadcast_ok [OF assms]) blast
next
  case False
  then have "ok_or s (broadcast_displaced_peer_disconnect (server_router_cfg e f) p c s) = deliver [] [] s"
    by (cases "create_peerlist_entry (pi_nick p) (location_string p) True None")
      (auto simp: broadcast_displaced_peer_disconnect_def ok_or_def)
  then show ?thesis by blast
qed

lemma evict_ok:
  assumes w: "\<And>n. se_write e n" and h: "healthy s" and own: "get_connection_id k (sv_reg s) = Some c"
  shows "healthy (evict_peer e now k (Some c) s)"
    "sv_reg (evict_peer e now k (Some c) s) = drop_keys {k} (sv_reg s)"
    "sv_pong_pending (evict_peer e now k (Some c) s) = sv_pong_pending s - {(k, c)}"
proof -
  note ok = healthyD(1) [OF h] and lk = healthyD(2) [OF h]
  have own': "is_current_owner k (Some c) (sv_reg s)" using own by (simp add: reg.owns_iff)
  obtain p where p: "get_by_key k (sv_reg s) = Some p"
    using own registry_ok_get [OF ok, of k] by (auto simp: get_by_key_def get_connection_id_def get_owner_def)
  let ?d = "drop_owner now k c False s"
  note d = drop_owner_linked [OF h own', of now False] and dr = drop_owner_reg [OF ok own', of now False]
  have okd: "registry_ok (sv_reg ?d)" unfolding dr by (rule shrinks_ok [OF drop_keys_shrinks ok])
  let ?b = "if pi_status p = HANDSHAKED then ok_or ?d (broadcast_displaced_peer_disconnect (server_cfg e now s) p c ?d) else ?d"
  have "\<exists>data kcs. ?b = deliver data kcs ?d"
    using displaced_ok [OF w okd d(1)] deliver_Nil unfolding server_cfg_def by (cases "pi_status p = HANDSHAKED") (simp, metis)
  then obtain data kcs where b: "?b = deliver data kcs ?d" by blast
  have c: "c \<noteq> []" using lk own by (auto simp: linked_def)
  have ev: "evict_peer e now k (Some c) s = close_connection_generation c (deliver data kcs ?d)"
    using c p own' b by (simp add: evict_peer_def or_conn_def remove_owned_peer_state_def Let_def)
  show reg: "sv_reg (evict_peer e now k (Some c) s) = drop_keys {k} (sv_reg s)"
    by (simp add: ev close_connection_generation_def dr)
  show "sv_pong_pending (evict_peer e now k (Some c) s) = sv_pong_pending s - {(k, c)}"
    by (simp add: ev close_connection_generation_def deliver_def d)
  have "conn_inj (drop_keys {k} (sv_reg s))"
    using healthyD(3) [OF h] by (auto simp: conn_inj_def drop_keys_get split: if_splits)
  moreover have "c' \<noteq> c" if "get_connection_id k' (drop_keys {k} (sv_reg s)) = Some c'" for k' c'
    using healthyD(3) [OF h] own that by (auto simp: conn_inj_def drop_keys_get split: if_splits)
  ultimately show "healthy (evict_peer e now k (Some c) s)"
    using okd d(1) by (auto simp: healthy_def reg dr) (auto simp: linked_def ev close_connection_generation_def dr)
qed

section \<open>The sweep\<close>

lemma discard_pending_fields [simp]:
  "sv_reg (discard_pending w s) = sv_reg s" "healthy (discard_pending w s) = healthy s"
  "sv_pong_pending (discard_pending w s) = sv_pong_pending s - {w}"
  by (simp_all add: discard_pending_def healthy_def linked_def)

lemma healthy_deliver [simp]: "healthy (deliver data kcs s) = healthy s"
  by (simp add: healthy_def)

lemma evict_all_ok:
  assumes w: "\<And>n. se_write e n"
  shows "healthy s \<Longrightarrow> distinct (map fst ws) \<Longrightarrow> \<forall>(k, c) \<in> set ws. get_connection_id k (sv_reg s) = Some c \<Longrightarrow>
    (let s' = foldl (\<lambda>s w. evict_peer e now (fst w) (Some (snd w)) (discard_pending w s)) s ws in
     healthy s' \<and> sv_reg s' = drop_keys (set (map fst ws)) (sv_reg s) \<and> sv_pong_pending s' = sv_pong_pending s - set ws)"
proof (induction ws arbitrary: s)
  case Nil
  then show ?case by simp
next
  case (Cons w ws)
  obtain k c where kc: "w = (k, c)" by (cases w)
  let ?s = "discard_pending (k, c) s"
  let ?s1 = "evict_peer e now k (Some c) ?s"
  have own: "get_connection_id k (sv_reg ?s) = Some c" using Cons.prems(3) by (simp add: kc)
  have h: "healthy ?s" using Cons.prems(1) by simp
  note ev = evict_ok [OF w h own, of now]
  have "\<forall>(k', c') \<in> set ws. get_connection_id k' (sv_reg ?s1) = Some c'"
  proof clarify
    fix k' c' assume "(k', c') \<in> set ws"
    moreover from this have "k' \<noteq> k" using Cons.prems(2) by (force simp: kc)
    ultimately show "get_connection_id k' (sv_reg ?s1) = Some c'"
      using Cons.prems(3) unfolding ev(2) by (auto simp: drop_keys_get)
  qed
  from Cons.IH [OF ev(1) _ this] Cons.prems(2) show ?case
    by (auto simp: kc ev Let_def insert_commute)
qed

definition owners_of :: "(string \<times> peer_info \<times> string) list \<Rightarrow> owner_id list" where
  "owners_of ts = map (\<lambda>(k, p, c). (k, c)) ts"

lemma owners_of_iff: "(k, c) \<in> set (owners_of ts) \<longleftrightarrow> (\<exists>p. (k, p, c) \<in> set ts)"
  by (force simp: owners_of_def)

lemma map_fst_owners_of [simp]: "map fst (owners_of ts) = map fst ts"
  by (induction ts) (auto simp: owners_of_def)

lemma probe_all_ok:
  assumes w: "\<And>n. se_write e n" and hb: "hb_send hb = send_to_peer e"
    and ts: "\<forall>(k, p, c) \<in> set ts. (k, c) \<notin> hard \<and> sendable k c s" and h: "healthy s"
  shows "\<exists>log att. foldl (probe_one hb hard) (pinged, s) ts =
    (pinged @ filter (\<lambda>(k, c). supports_ping k (Some c) (sv_reg s)) (owners_of ts),
     s\<lparr>sv_log := log, sv_attempts := att, sv_pong_pending := sv_pong_pending s
        \<union> set (filter (\<lambda>(k, c). supports_ping k (Some c) (sv_reg s)) (owners_of ts))\<rparr>)"
  using ts h
proof (induction ts arbitrary: pinged s)
  case Nil
  then show ?case by (auto simp: owners_of_def intro!: exI [of _ "sv_log s"] exI [of _ "sv_attempts s"])
next
  case (Cons t ts)
  obtain k p c where t: "t = (k, p, c)" by (cases t)
  have tk: "(k, c) \<notin> hard" "sendable k c s" using Cons.prems(1) by (auto simp: t)
  then have own: "is_current_owner k (Some c) (sv_reg s)" by (simp add: sendable_iff reg.owns_iff)
  have send: "hb_call_send hb k data c x = (True, deliver data [(k, c)] x)"
    if "sv_reg x = sv_reg s" "linked x" for x data
  proof -
    have "sendable k c x" using tk(2) that(1) by (simp add: sendable_iff)
    then show ?thesis using send_to_peer_ok [OF that(2) _ w] own that(1) by (simp add: hb_call_send_def hb)
  qed
  let ?ping = "supports_ping k (Some c) (sv_reg s)"
  have "\<exists>log att. probe_one hb hard (pinged, s) t = (if ?ping then pinged @ [(k, c)] else pinged,
      s\<lparr>sv_log := log, sv_attempts := att, sv_pong_pending := sv_pong_pending s \<union> (if ?ping then {(k, c)} else {})\<rparr>)"
  proof (cases ?ping)
    case True
    let ?x = "s\<lparr>sv_pong_pending := insert (k, c) (sv_pong_pending s)\<rparr>"
    have "linked ?x" using healthyD(2) [OF Cons.prems(2)] by (simp add: linked_def)
    then show ?thesis using True tk own send [of ?x]
      by (intro exI [of _ "sv_log s @ [(k, c, to_bytes \<lparr>env_type = 798, env_payload = []\<rparr>)]"]
          exI [of _ "Suc (sv_attempts s)"]) (simp add: probe_one_def t send_ping_def deliver_def)
  next
    case False
    show ?thesis
    proof (cases "is_maker k (Some c) (sv_reg s)")
      case True
      then show ?thesis using False tk own send [of s] healthyD(2) [OF Cons.prems(2)]
        by (simp add: probe_one_def t send_orderbook_probe_def Let_def deliver_def)
           (intro exI, rule refl)
    next
      case False2: False
      then show ?thesis using False tk own
        by (intro exI [of _ "sv_log s"] exI [of _ "sv_attempts s"]) (simp add: probe_one_def t)
    qed
  qed
  then obtain log att where one: "probe_one hb hard (pinged, s) t = (if ?ping then pinged @ [(k, c)] else pinged,
      s\<lparr>sv_log := log, sv_attempts := att, sv_pong_pending := sv_pong_pending s \<union> (if ?ping then {(k, c)} else {})\<rparr>)"
    by blast
  let ?s1 = "s\<lparr>sv_log := log, sv_attempts := att, sv_pong_pending := sv_pong_pending s \<union> (if ?ping then {(k, c)} else {})\<rparr>"
  have "\<forall>(k, p, c) \<in> set ts. (k, c) \<notin> hard \<and> sendable k c ?s1" "healthy ?s1"
    using Cons.prems by (auto simp: sendable_iff healthy_def linked_def)
  from Cons.IH [OF this, of "if ?ping then pinged @ [(k, c)] else pinged"] show ?case
    unfolding foldl_Cons one by (cases ?ping) (auto simp: owners_of_def t Un_commute)
qed

text \<open>The connected peers not heard of since \<open>t\<close>, by owner.\<close>

definition idle_owners :: "int \<Rightarrow> server \<Rightarrow> owner_id set" where
  "idle_owners t s = {(k, c). \<exists>p u. get_by_key k (sv_reg s) = Some p \<and> get_connection_id k (sv_reg s) = Some c
     \<and> is_connected None p \<and> pi_last_seen p = Some u \<and> u < t}"

lemma set_owners_idle:
  "registry_ok (sv_reg s) \<Longrightarrow> set (owners_of (get_peers_idle_since t (sv_reg s))) = idle_owners t s"
  by (auto simp: owners_of_iff idle_owners_def reg.idle_iff)

lemma idle_owners_key:
  "get_connection_id k (sv_reg s) = Some c \<Longrightarrow> k \<in> fst ` idle_owners t s \<Longrightarrow> (k, c) \<in> idle_owners t s"
  by (auto simp: idle_owners_def)

lemma idle_owners_conn: "(k, c) \<in> idle_owners t s \<Longrightarrow> get_connection_id k (sv_reg s) = Some c"
  by (auto simp: idle_owners_def)

lemma idle_owners_drop:
  assumes "sv_reg s1 = drop_keys (fst ` idle_owners t' s) (sv_reg s)"
  shows "idle_owners t s1 = idle_owners t s - idle_owners t' s"
proof -
  have "(k, c) \<in> idle_owners t s1 \<longleftrightarrow> (k, c) \<in> idle_owners t s \<and> k \<notin> fst ` idle_owners t' s" for k c
    using assms by (simp add: idle_owners_def [of t] drop_keys_get)
  moreover have "k \<in> fst ` idle_owners t' s \<longleftrightarrow> (k, c) \<in> idle_owners t' s" if "(k, c) \<in> idle_owners t s" for k c
    using idle_owners_key [OF idle_owners_conn [OF that]] by force
  ultimately show ?thesis by auto
qed

lemma idle_sendable: "(k, c) \<in> idle_owners t s \<Longrightarrow> sendable k c s"
  by (auto simp: idle_owners_def sendable_iff is_connected_def)

lemma sweep_start_ok:
  fixes now idle hard :: int and nick :: string
  assumes w: "\<And>n. se_write e n" and h: "healthy s"
  defines "hb \<equiv> server_heartbeat e now idle hard nick"
  shows "\<exists>pinged s1. sweep_start hb now s = (pinged, s1) \<and> healthy s1
    \<and> sv_reg s1 = drop_keys (fst ` idle_owners (now - hard) s) (sv_reg s)
    \<and> set pinged = {(k, c) \<in> idle_owners (now - idle) s - idle_owners (now - hard) s. supports_ping k (Some c) (sv_reg s)}
    \<and> distinct (map fst pinged) \<and> sv_pong_pending s1 = sv_pong_pending s - idle_owners (now - hard) s \<union> set pinged"
proof -
  note ok = healthyD(1) [OF h]
  let ?hard = "get_peers_idle_since (now - hard) (sv_reg s)"
  have hard_set: "set (owners_of ?hard) = idle_owners (now - hard) s" by (rule set_owners_idle [OF ok])
  have cb: "hb_evict hb k c x = evict_peer e now k (Some c) x" "hb_send hb = send_to_peer e"
    "hb_hard_evict hb = hard" "hb_idle_threshold hb = idle" for k c x
    by (simp_all add: hb_def server_heartbeat_def)
  have "foldl (\<lambda>s t. hard_evict_one hb t s) x ts =
      foldl (\<lambda>s w. evict_peer e now (fst w) (Some (snd w)) (discard_pending w s)) x (owners_of ts)" for x ts
    by (induction ts arbitrary: x) (auto simp: owners_of_def hard_evict_one_def cb)
  note fold = this
  define s1 where "s1 = foldl (\<lambda>s t. hard_evict_one hb t s) s ?hard"
  have s1: "healthy s1" "sv_reg s1 = drop_keys (fst ` idle_owners (now - hard) s) (sv_reg s)"
    "sv_pong_pending s1 = sv_pong_pending s - idle_owners (now - hard) s"
  proof -
    have "\<forall>(k, c) \<in> set (owners_of ?hard). get_connection_id k (sv_reg s) = Some c"
      unfolding hard_set by (auto simp: idle_owners_def)
    moreover have "distinct (map fst (owners_of ?hard))" using reg.idle_distinct [OF ok] by simp
    moreover have "fst ` set ?hard = fst ` idle_owners (now - hard) s"
      using hard_set map_fst_owners_of by (metis list.set_map)
    ultimately show "healthy s1" "sv_reg s1 = drop_keys (fst ` idle_owners (now - hard) s) (sv_reg s)"
      "sv_pong_pending s1 = sv_pong_pending s - idle_owners (now - hard) s"
      using evict_all_ok [OF w h, of "owners_of ?hard" now] by (simp_all add: s1_def fold Let_def hard_set)
  qed
  let ?idle = "get_peers_idle_since (now - idle) (sv_reg s1)"
  note ok1 = healthyD(1) [OF s1(1)]
  note drop = idle_owners_drop [OF s1(2), of "now - idle"]
  have idle1: "\<forall>(k, p, c) \<in> set ?idle. (k, c) \<notin> set (owners_of ?hard) \<and> sendable k c s1"
  proof clarify
    fix k p c assume "(k, p, c) \<in> set ?idle"
    then have "(k, c) \<in> idle_owners (now - idle) s1"
      using set_owners_idle [OF ok1, of "now - idle"] owners_of_iff by blast
    then show "(k, c) \<notin> set (owners_of ?hard) \<and> sendable k c s1" using idle_sendable drop hard_set by blast
  qed
  have "\<exists>log att. foldl (probe_one hb (set (owners_of ?hard))) ([], s1) ?idle =
    ([] @ filter (\<lambda>(k, c). supports_ping k (Some c) (sv_reg s1)) (owners_of ?idle),
     s1\<lparr>sv_log := log, sv_attempts := att, sv_pong_pending := sv_pong_pending s1
        \<union> set (filter (\<lambda>(k, c). supports_ping k (Some c) (sv_reg s1)) (owners_of ?idle))\<rparr>)"
    by (rule probe_all_ok [OF w cb(2) idle1 s1(1)])
  then obtain log att where fin: "sweep_start hb now s = (filter (\<lambda>(k, c). supports_ping k (Some c) (sv_reg s1)) (owners_of ?idle),
     s1\<lparr>sv_log := log, sv_attempts := att, sv_pong_pending := sv_pong_pending s1
        \<union> set (filter (\<lambda>(k, c). supports_ping k (Some c) (sv_reg s1)) (owners_of ?idle))\<rparr>)"
    by (auto simp: sweep_start_def cb s1_def [symmetric] owners_of_def [symmetric] Let_def)
  have same: "supports_ping k (Some c) (sv_reg s1) = supports_ping k (Some c) (sv_reg s)"
    if "(k, c) \<in> idle_owners (now - idle) s1" for k c
    using that by (auto simp: idle_owners_def supports_ping_def reg.owns_iff s1(2) drop_keys_get split: if_splits)
  have "set (filter (\<lambda>(k, c). supports_ping k (Some c) (sv_reg s1)) (owners_of ?idle))
      = {(k, c) \<in> idle_owners (now - idle) s - idle_owners (now - hard) s. supports_ping k (Some c) (sv_reg s)}"
    using same set_owners_idle [OF ok1] drop by auto
  moreover have "distinct (map fst (filter (\<lambda>(k, c). supports_ping k (Some c) (sv_reg s1)) (owners_of ?idle)))"
    using reg.idle_distinct [OF ok1] by (intro distinct_map_filter) simp
  moreover have "healthy (s1\<lparr>sv_log := log, sv_attempts := att, sv_pong_pending := P\<rparr>)" for P
    using s1(1) by (simp add: healthy_def linked_def)
  ultimately show ?thesis unfolding fin using s1 by simp
qed

section \<open>The sweep when writes fail\<close>

lemma evict_steps:
  assumes "registry_ok (sv_reg s)"
  shows "steps_to (\<lambda>_ _. notice) s (evict_peer e now k ex s)"
proof -
  have rm: "steps_to (\<lambda>_ _. notice) s (snd (remove_owned_peer_state (server_cfg e now s) now k c True False s))" for c
    by (rule remove_owned_steps [OF tame_server_cfg assms])
  have "steps_to (\<lambda>_ _. notice) s (close_connection_generation c (snd (remove_owned_peer_state (server_cfg e now s) now k c' True False s)))" for c c'
    using rm close_connection_steps steps_to_trans by blast
  with rm show ?thesis by (simp add: evict_peer_def split: option.split prod.split) (metis snd_conv)
qed

lemma evict_not_owner: "get_connection_id k (sv_reg s) \<noteq> Some c \<Longrightarrow> c \<noteq> [] \<Longrightarrow> evict_peer e now k (Some c) s = s"
  by (simp add: evict_peer_def or_conn_def reg.owns_iff split: option.split)

lemma evict_gone:
  assumes ok: "registry_ok (sv_reg s)" and c: "c \<noteq> []"
  shows "get_connection_id k (sv_reg (evict_peer e now k (Some c) s)) \<noteq> Some c"
proof (cases "is_current_owner k (Some c) (sv_reg s)")
  case True
  obtain p where p: "get_by_key k (sv_reg s) = Some p"
    using True registry_ok_get [OF ok, of k] by (auto simp: is_current_owner_def get_by_key_def split: option.splits)
  obtain po s1 where rm: "remove_owned_peer_state (server_cfg e now s) now k c True False s = (po, s1)" by (metis prod.exhaust)
  have "evict_peer e now k (Some c) s = (case po of None \<Rightarrow> s1 | Some _ \<Rightarrow> close_connection_generation c s1)"
    using c p True rm by (simp add: evict_peer_def or_conn_def)
  then have "sv_reg (evict_peer e now k (Some c) s) = sv_reg s1" by (simp add: close_connection_generation_def split: option.split)
  moreover have "get_connection_id k (sv_reg s1) = None"
    using remove_owned_gone [OF tame_server_cfg ok True, of e now s now True False] rm by simp
  ultimately show ?thesis by simp
next
  case False
  then show ?thesis using evict_not_owner [of k s c e now] c by (simp add: reg.owns_iff)
qed

lemma shrinks_gone: "shrinks r r' \<Longrightarrow> get_connection_id k r \<noteq> Some c \<Longrightarrow> get_connection_id k r' \<noteq> Some c"
  using shrinks_get(3) by blast

lemma evict_all_any:
  assumes "registry_ok (sv_reg s)" "\<forall>(k, c) \<in> set ws. c \<noteq> []"
  shows "shrinks (sv_reg s) (sv_reg (foldl (\<lambda>s w. evict_peer e now (fst w) (Some (snd w)) (discard_pending w s)) s ws)) \<and>
    (\<forall>(k, c) \<in> set ws. get_connection_id k (sv_reg (foldl (\<lambda>s w. evict_peer e now (fst w) (Some (snd w)) (discard_pending w s)) s ws)) \<noteq> Some c)"
  using assms
proof (induction ws arbitrary: s)
  case Nil
  then show ?case by simp
next
  case (Cons w ws)
  obtain k c where kc: "w = (k, c)" by (cases w)
  let ?s1 = "evict_peer e now k (Some c) (discard_pending (k, c) s)"
  have sh: "shrinks (sv_reg s) (sv_reg ?s1)"
    using steps_to_shrinks [OF evict_steps, of "discard_pending (k, c) s"] Cons.prems(1) by simp
  have gone: "get_connection_id k (sv_reg ?s1) \<noteq> Some c" using Cons.prems by (intro evict_gone) (auto simp: kc)
  have "registry_ok (sv_reg ?s1)" using shrinks_ok [OF sh Cons.prems(1)] .
  from Cons.IH [OF this] Cons.prems(2) show ?case
    using shrinks_trans [OF sh] shrinks_gone [OF _ gone] by (auto simp: kc)
qed

lemma supports_ping_shrinks:
  assumes "shrinks r r'" "registry_ok r'" "get_connection_id k r' = Some c"
  shows "supports_ping k (Some c) r' = supports_ping k (Some c) r"
proof -
  obtain p where p: "get_by_key k r' = Some p"
    using assms(3) registry_ok_get [OF assms(2), of k] by (auto simp: get_by_key_def get_connection_id_def get_owner_def)
  with shrinks_get [OF assms(1)] assms(3) have "get_by_key k r = Some p" "get_connection_id k r = Some c" by blast+
  with p assms(3) show ?thesis by (simp add: supports_ping_def reg.owns_iff)
qed

text \<open>One probe, of an owner that is not evicted already: it is pinged, or cannot be, or is gone.\<close>

lemma probe_one_any:
  fixes e now idle hard_limit nick
  defines "hb \<equiv> server_heartbeat e now idle hard_limit nick"
  assumes ok: "registry_ok (sv_reg s)" and c: "c \<noteq> []" and pr: "probe_one hb hard (pinged, s) (k, p, c) = (pinged', s')"
  shows "shrinks (sv_reg s) (sv_reg s')"
    "pinged' = pinged \<or> pinged' = pinged @ [(k, c)] \<and> (k, c) \<notin> hard \<and> get_connection_id k (sv_reg s) = Some c \<and> supports_ping k (Some c) (sv_reg s)"
    "(k, c) \<notin> hard \<Longrightarrow> supports_ping k (Some c) (sv_reg s) \<Longrightarrow> (k, c) \<in> set pinged' \<or> get_connection_id k (sv_reg s') \<noteq> Some c"
proof -
  have cb: "hb_send hb = send_to_peer e" "hb_evict hb k' c' = evict_peer e now k' (Some c')" for k' c'
    by (simp_all add: hb_def server_heartbeat_def)
  have send: "shrinks (sv_reg x) (sv_reg (snd (hb_call_send hb k d c x)))" for x d
    using steps_to_shrinks [OF send_to_peer_steps, of k x "\<lambda>_ _ _. True" d e "Some c"] by (simp add: hb_call_send_def cb)
  let ?x = "s\<lparr>sv_pong_pending := insert (k, c) (sv_pong_pending s)\<rparr>"
  obtain b s1 where b: "hb_call_send hb k (to_bytes \<lparr>env_type = message_type_value PING, env_payload = []\<rparr>) c ?x = (b, s1)" by (metis prod.exhaust)
  let ?s2 = "evict_peer e now k (Some c) (discard_pending (k, c) s1)"
  have s1: "shrinks (sv_reg s) (sv_reg s1)" using send [of ?x "to_bytes \<lparr>env_type = message_type_value PING, env_payload = []\<rparr>"] unfolding b by simp
  have ok1: "registry_ok (sv_reg (discard_pending (k, c) s1))" using shrinks_ok [OF s1 ok] by simp
  have s2: "shrinks (sv_reg s) (sv_reg ?s2)" "get_connection_id k (sv_reg ?s2) \<noteq> Some c"
    using shrinks_trans [OF s1] steps_to_shrinks [OF evict_steps [OF ok1]] evict_gone [OF ok1 c] by simp_all
  have ping: "send_ping hb k c ?x = (if b then (True, s1) else (False, ?s2))" unfolding send_ping_def b cb by simp
  have probe: "shrinks (sv_reg s) (sv_reg (send_orderbook_probe hb k c s))" using send by (simp add: send_orderbook_probe_def Let_def)
  show "shrinks (sv_reg s) (sv_reg s')"
    using pr ping s1 s2(1) probe by (auto simp: probe_one_def split: if_splits)
  show "pinged' = pinged \<or> pinged' = pinged @ [(k, c)] \<and> (k, c) \<notin> hard \<and> get_connection_id k (sv_reg s) = Some c \<and> supports_ping k (Some c) (sv_reg s)"
    using pr ping by (auto simp: probe_one_def reg.owns_iff split: if_splits)
  show "(k, c) \<in> set pinged' \<or> get_connection_id k (sv_reg s') \<noteq> Some c" if "(k, c) \<notin> hard" "supports_ping k (Some c) (sv_reg s)"
    using pr ping s2(2) that by (auto simp: probe_one_def reg.owns_iff split: if_splits)
qed


lemma probe_all_any:
  fixes e now idle hard_limit nick
  defines "hb \<equiv> server_heartbeat e now idle hard_limit nick"
  assumes "registry_ok (sv_reg s)" "\<forall>(k, p, c) \<in> set ts. c \<noteq> []" "foldl (probe_one hb hard) (pinged, s) ts = (pinged', s')"
  shows "shrinks (sv_reg s) (sv_reg s')
    \<and> set pinged \<subseteq> set pinged'
    \<and> set pinged' \<subseteq> set pinged \<union> {(k, c) \<in> set (owners_of ts) - hard. get_connection_id k (sv_reg s) = Some c \<and> supports_ping k (Some c) (sv_reg s)}
    \<and> (\<forall>(k, c) \<in> set (owners_of ts) - hard. supports_ping k (Some c) (sv_reg s) \<longrightarrow>
         (k, c) \<in> set pinged' \<or> get_connection_id k (sv_reg s') \<noteq> Some c)"
  using assms(2-)
proof (induction ts arbitrary: pinged s)
  case Nil
  then show ?case by (simp add: owners_of_def)
next
  case (Cons t ts)
  obtain k p c where t: "t = (k, p, c)" by (cases t)
  obtain pinged1 s1 where one: "probe_one hb hard (pinged, s) (k, p, c) = (pinged1, s1)" by (metis prod.exhaust)
  have c: "c \<noteq> []" using Cons.prems(2) by (simp add: t)
  note o = probe_one_any [OF Cons.prems(1) c, of e now idle hard_limit nick hard pinged k p pinged1 s1, folded hb_def, OF one]
  have ok1: "registry_ok (sv_reg s1)" using shrinks_ok [OF o(1) Cons.prems(1)] .
  have fold: "foldl (probe_one hb hard) (pinged1, s1) ts = (pinged', s')" using Cons.prems(3) one by (simp add: t)
  have rest: "\<forall>(k, p, c) \<in> set ts. c \<noteq> []" using Cons.prems(2) by simp
  note ih = Cons.IH [OF ok1 rest fold]
  have sh: "shrinks (sv_reg s) (sv_reg s')" using shrinks_trans [OF o(1)] ih by blast
  have pull: "get_connection_id k' (sv_reg s1) = Some c' \<Longrightarrow>
      get_connection_id k' (sv_reg s) = Some c' \<and> supports_ping k' (Some c') (sv_reg s1) = supports_ping k' (Some c') (sv_reg s)" for k' c'
    using shrinks_get(3) [OF o(1)] supports_ping_shrinks [OF o(1) ok1] by blast
  have owners: "set (owners_of (t # ts)) = insert (k, c) (set (owners_of ts))" by (simp add: owners_of_def t)
  have sub: "set pinged \<subseteq> set pinged'" using o(2) ih by auto
  have new: "set pinged' \<subseteq> set pinged \<union> {(k', c') \<in> set (owners_of (t # ts)) - hard. get_connection_id k' (sv_reg s) = Some c' \<and> supports_ping k' (Some c') (sv_reg s)}"
    using o(2) ih pull unfolding owners by auto
  have all: "(k', c') \<in> set pinged' \<or> get_connection_id k' (sv_reg s') \<noteq> Some c'"
    if w: "(k', c') \<in> set (owners_of (t # ts)) - hard" and sp: "supports_ping k' (Some c') (sv_reg s)" for k' c'
  proof (cases "(k', c') = (k, c)")
    case True
    then have "(k, c) \<in> set pinged1 \<or> get_connection_id k (sv_reg s1) \<noteq> Some c" using o(3) w sp by simp
    moreover have "set pinged1 \<subseteq> set pinged'" "shrinks (sv_reg s1) (sv_reg s')" using ih by blast+
    ultimately show ?thesis using True shrinks_gone by blast
  next
    case False
    then have w': "(k', c') \<in> set (owners_of ts) - hard" using w by (auto simp: owners)
    show ?thesis
    proof (cases "get_connection_id k' (sv_reg s1) = Some c'")
      case True
      then have "supports_ping k' (Some c') (sv_reg s1)" using pull sp by blast
      then show ?thesis using ih w' by blast
    next
      case False
      moreover have "shrinks (sv_reg s1) (sv_reg s')" using ih by blast
      ultimately show ?thesis using shrinks_gone by blast
    qed
  qed
  show ?case using sh sub new all by blast
qed

definition pingable :: "int \<Rightarrow> server \<Rightarrow> owner_id set" where
  "pingable t s = {(k, c) \<in> idle_owners t s. supports_ping k (Some c) (sv_reg s)}"

lemma sweep_start_any:
  fixes now idle hard :: int and nick :: string
  assumes h: "healthy s" and st: "sweep_start (server_heartbeat e now idle hard nick) now s = (pinged, s1)"
  shows "shrinks (sv_reg s) (sv_reg s1)" "\<forall>(k, c) \<in> idle_owners (now - hard) s. get_connection_id k (sv_reg s1) \<noteq> Some c"
    "set pinged \<subseteq> pingable (now - idle) s - idle_owners (now - hard) s"
    "\<forall>(k, c) \<in> pingable (now - idle) s. (k, c) \<in> set pinged \<or> get_connection_id k (sv_reg s1) \<noteq> Some c"
proof -
  let ?hb = "server_heartbeat e now idle hard nick"
  let ?hard = "get_peers_idle_since (now - hard) (sv_reg s)"
  note ok = healthyD(1) [OF h]
  have hard_set: "set (owners_of ?hard) = idle_owners (now - hard) s" by (rule set_owners_idle [OF ok])
  have ne: "c \<noteq> []" if "get_connection_id k (sv_reg s) = Some c" for k c using healthyD(2) [OF h] that by (auto simp: linked_def)
  define s0 where "s0 = foldl (\<lambda>s t. hard_evict_one ?hb t s) s ?hard"
  have "foldl (\<lambda>s t. hard_evict_one ?hb t s) x ts =
      foldl (\<lambda>s w. evict_peer e now (fst w) (Some (snd w)) (discard_pending w s)) x (owners_of ts)" for x ts
    by (induction ts arbitrary: x) (auto simp: owners_of_def hard_evict_one_def server_heartbeat_def)
  then have "s0 = foldl (\<lambda>s w. evict_peer e now (fst w) (Some (snd w)) (discard_pending w s)) s (owners_of ?hard)" by (simp add: s0_def)
  moreover have "\<forall>(k, c) \<in> set (owners_of ?hard). c \<noteq> []" using ne idle_owners_conn unfolding hard_set by fastforce
  ultimately have s0: "shrinks (sv_reg s) (sv_reg s0)" "\<forall>(k, c) \<in> idle_owners (now - hard) s. get_connection_id k (sv_reg s0) \<noteq> Some c"
    using evict_all_any [OF ok, of "owners_of ?hard" e now] unfolding hard_set by simp_all
  have ok0: "registry_ok (sv_reg s0)" using shrinks_ok [OF s0(1) ok] .
  let ?idle = "get_peers_idle_since (now - idle) (sv_reg s0)"
  have idle_set: "set (owners_of ?idle) = idle_owners (now - idle) s0" by (rule set_owners_idle [OF ok0])
  have idle_ne: "\<forall>(k, p, c) \<in> set ?idle. c \<noteq> []"
  proof clarify
    fix k p assume "(k, p, []) \<in> set ?idle"
    then have "(k, []) \<in> idle_owners (now - idle) s0" using idle_set owners_of_iff by blast
    then show False using ne [OF shrinks_get(3) [OF s0(1) idle_owners_conn]] by blast
  qed
  have "foldl (probe_one ?hb (idle_owners (now - hard) s)) ([], s0) ?idle = (pinged, s1)"
    using st hard_set by (simp add: sweep_start_def s0_def [symmetric] owners_of_def Let_def) (simp add: server_heartbeat_def s0_def)
  note pr = probe_all_any [OF ok0 idle_ne this, unfolded idle_set]
  have pull: "(k, c) \<in> idle_owners (now - idle) s \<and> supports_ping k (Some c) (sv_reg s0) = supports_ping k (Some c) (sv_reg s)"
    if "(k, c) \<in> idle_owners (now - idle) s0" for k c
    using that shrinks_get [OF s0(1)] supports_ping_shrinks [OF s0(1) ok0 idle_owners_conn [OF that]] by (auto simp: idle_owners_def)
  have forth: "(k, c) \<in> idle_owners (now - idle) s0"
    if io: "(k, c) \<in> idle_owners (now - idle) s" and co: "get_connection_id k (sv_reg s0) = Some c" for k c
  proof -
    obtain p where p: "get_by_key k (sv_reg s0) = Some p"
      using co registry_ok_get [OF ok0, of k] by (auto simp: get_by_key_def get_connection_id_def get_owner_def)
    then show ?thesis using io co shrinks_get(1) [OF s0(1) p] by (auto simp: idle_owners_def)
  qed
  show sh: "shrinks (sv_reg s) (sv_reg s1)" using shrinks_trans [OF s0(1)] pr by blast
  have sh1: "shrinks (sv_reg s0) (sv_reg s1)" using pr by blast
  show hard_gone: "\<forall>(k, c) \<in> idle_owners (now - hard) s. get_connection_id k (sv_reg s1) \<noteq> Some c"
    using s0(2) shrinks_gone [OF sh1] by blast
  show "set pinged \<subseteq> pingable (now - idle) s - idle_owners (now - hard) s"
    using pr pull by (auto simp: pingable_def)
  show "\<forall>(k, c) \<in> pingable (now - idle) s. (k, c) \<in> set pinged \<or> get_connection_id k (sv_reg s1) \<noteq> Some c"
  proof clarify
    fix k c
    assume w: "(k, c) \<in> pingable (now - idle) s" "(k, c) \<notin> set pinged" "get_connection_id k (sv_reg s1) = Some c"
    then have "get_connection_id k (sv_reg s0) = Some c" using shrinks_get(3) [OF sh1] by blast
    then have "(k, c) \<in> idle_owners (now - idle) s0" using w(1) forth by (simp add: pingable_def)
    moreover have "(k, c) \<notin> idle_owners (now - hard) s" using hard_gone w(3) by blast
    moreover have "supports_ping k (Some c) (sv_reg s0)" using pull [OF calculation(1)] w(1) by (simp add: pingable_def)
    ultimately show False using pr w(2,3) by blast
  qed
qed

section \<open>After the wait\<close>

lemma evict_current_ok:
  assumes w: "\<And>n. se_write e n"
  shows "healthy s \<Longrightarrow> distinct (map fst ws) \<Longrightarrow> \<forall>(k, c) \<in> set ws. c \<noteq> [] \<Longrightarrow>
    sv_reg (foldl (\<lambda>s w. evict_peer e now (fst w) (Some (snd w)) (discard_pending w s)) s ws) =
    drop_keys (fst ` {(k, c) \<in> set ws. get_connection_id k (sv_reg s) = Some c}) (sv_reg s)"
proof (induction ws arbitrary: s)
  case Nil
  then show ?case by simp
next
  case (Cons w ws)
  obtain k c where kc: "w = (k, c)" by (cases w)
  let ?s = "discard_pending (k, c) s" and ?K = "\<lambda>s. {(k, c) \<in> set ws. get_connection_id k (sv_reg s) = Some c}"
  have h: "healthy ?s" using Cons.prems(1) by simp
  have ws: "distinct (map fst ws)" "\<forall>(k, c) \<in> set ws. c \<noteq> []" "c \<noteq> []" using Cons.prems(2,3) by (auto simp: kc)
  show ?case
  proof (cases "get_connection_id k (sv_reg s) = Some c")
    case True
    then have own: "get_connection_id k (sv_reg ?s) = Some c" by simp
    note ev = evict_ok [OF w h own, of now]
    have "k' \<noteq> k" if "(k', c') \<in> set ws" for k' c' using Cons.prems(2) that by (force simp: kc)
    then have same: "?K (evict_peer e now k (Some c) ?s) = ?K s" unfolding ev(2) by (auto simp: drop_keys_get)
    from Cons.IH [OF ev(1) ws(1,2)] have ih: "sv_reg (foldl (\<lambda>s w. evict_peer e now (fst w) (Some (snd w)) (discard_pending w s)) s (w # ws)) =
        drop_keys (fst ` ?K s) (drop_keys {k} (sv_reg s))" unfolding same by (simp add: kc ev(2))
    have keys: "{(k, c) \<in> set (w # ws). get_connection_id k (sv_reg s) = Some c} = insert (k, c) (?K s)"
      using True by (auto simp: kc)
    show ?thesis unfolding keys ih by simp
  next
    case False
    then have "evict_peer e now k (Some c) ?s = ?s" using evict_not_owner [of k ?s c e now] ws(3) by simp
    moreover have keys: "{(k, c) \<in> set (w # ws). get_connection_id k (sv_reg s) = Some c} = ?K s" using False by (auto simp: kc)
    ultimately show ?thesis unfolding keys using Cons.IH [OF h ws(1,2)] by (simp add: kc)
  qed
qed


definition ex_sweep_server :: server where
  "ex_sweep_server =
     (let seen = (\<lambda>n t f. (n, (ex_peer n SIGNET)\<lparr>pi_status := HANDSHAKED, pi_last_seen := Some t, pi_features := f\<rparr>));
          own = (\<lambda>n c. (n, \<lparr>po_connection_id = c, po_verified_pubkey = None\<rparr>)) in
      ex_server\<lparr>sv_reg := \<lparr>rg_max_peers = 10,
        rg_peers = [seen ''alice'' 0 [], seen ''bob'' 400 [(''ping'', JBool True)], seen ''carol'' 900 []],
        rg_owners = [own ''alice'' ''c1'', own ''bob'' ''c2'', own ''carol'' ''c3'']\<rparr>\<rparr>)"

lemma ex_sweep_healthy: "healthy ex_sweep_server"
proof -
  have "registry_ok (sv_reg ex_sweep_server)"
    by (simp add: ex_sweep_server_def registry_ok_def ex_peer_def Let_def)
  moreover have "linked ex_sweep_server" "conn_inj (sv_reg ex_sweep_server)"
    by (auto simp: linked_def conn_inj_def ex_sweep_server_def ex_server_def get_connection_id_def get_owner_def Let_def
        split: if_splits)
  ultimately show ?thesis by (simp add: healthy_def)
qed


section \<open>Remembered offers\<close>

definition offers_ok :: "router_state \<Rightarrow> bool" where
  "offers_ok rt =
     (distinct (dict_keys (rt_offers rt)) \<and>
      (\<forall>(w, ids) \<in> set (rt_offers rt). finite ids \<and> card ids \<le> MAX_OFFERS_PER_OWNER
         \<and> (\<forall>i \<in> ids. length i \<le> MAX_OFFER_ID_LENGTH)))"

definition ids_ok :: "string set \<Rightarrow> bool" where
  "ids_ok ids = (finite ids \<and> card ids \<le> MAX_OFFERS_PER_OWNER \<and> (\<forall>i \<in> ids. length i \<le> MAX_OFFER_ID_LENGTH))"

lemma offers_ok_iff: "offers_ok rt \<longleftrightarrow> distinct (dict_keys (rt_offers rt)) \<and> (\<forall>ids \<in> snd ` set (rt_offers rt). ids_ok ids)"
  by (auto simp: offers_ok_def ids_ok_def)

lemma ids_ok_empty [simp]: "ids_ok {}"
  by (simp add: ids_ok_def)

lemma offers_ok_of: "offers_ok rt \<Longrightarrow> ids_ok (offers_of w rt)"
  by (auto simp: offers_ok_iff offers_of_def dest!: map_of_SomeD split: option.split)

lemma offers_ok_put:
  assumes "offers_ok rt" "ids_ok ids"
  shows "offers_ok (rt\<lparr>rt_offers := dict_put w ids (rt_offers rt)\<rparr>)"
proof -
  have "ids_ok x" if "x \<in> snd ` set (dict_put w ids (rt_offers rt))" for x
  proof -
    from that have "x \<in> insert ids (snd ` set (rt_offers rt))"
      using dict_put_values [of w ids "rt_offers rt"] unfolding list.set_map by (rule rev_subsetD)
    then show ?thesis using assms unfolding offers_ok_iff by blast
  qed
  then show ?thesis using assms(1) unfolding offers_ok_iff by (simp add: distinct_update)
qed

lemma offers_ok_del: "offers_ok rt \<Longrightarrow> offers_ok (rt\<lparr>rt_offers := dict_del w (rt_offers rt)\<rparr>)"
  using set_dict_del [of w "rt_offers rt"] by (auto simp: offers_ok_iff distinct_delete)

lemma drop_offers [simp]: "rt_offers (record_public_drop w rt) = rt_offers rt"
  by (simp add: record_public_drop_def)

lemma offers_ok_drop [simp]: "offers_ok (record_public_drop w rt) = offers_ok rt"
  by (simp add: offers_ok_def)

text \<open>the router never remembers more than 256 offers of one connection, each with an identifier of
  at most 64 characters, whatever a peer publishes; an announcement that would exceed this is not
  broadcast and leaves the set as it was; a message of one connection never changes what is remembered
  of another.\<close>

theorem offers_bounded:
  assumes "offers_ok rt" "track_offer w rest rt = (go, rt')"
  shows "offers_ok rt' \<and> (\<forall>w'. card (offers_of w' rt') \<le> 256)
       \<and> (\<forall>w'. w' \<noteq> w \<longrightarrow> offers_of w' rt' = offers_of w' rt)
       \<and> (\<not> go \<longrightarrow> offers_of w rt' = offers_of w rt)
       \<and> (\<forall>cmd id r. split_ws rest = cmd # id # r \<longrightarrow> cmd \<in> set OFFER_COMMANDS \<longrightarrow>
            (go \<longleftrightarrow> length id \<le> 64 \<and> (id \<in> offers_of w rt \<or> card (offers_of w rt) < 256))
            \<and> (go \<longrightarrow> offers_of w rt' = insert id (offers_of w rt)))"
proof -
  define ps where "ps = split_ws rest"
  have o: "ids_ok (offers_of w rt)" by (rule offers_ok_of [OF assms(1)])
  have "offers_ok rt'"
  proof (cases "length ps \<ge> 2 \<and> ps ! 0 \<in> set OFFER_COMMANDS")
    case True
    have ins: "ids_ok (insert (ps ! 1) (offers_of w rt))"
      if "length (ps ! 1) \<le> MAX_OFFER_ID_LENGTH" "ps ! 1 \<in> offers_of w rt \<or> card (offers_of w rt) < MAX_OFFERS_PER_OWNER"
      using o that by (auto simp: ids_ok_def card_insert_if)
    show ?thesis
      using assms True offers_ok_put [OF assms(1) ins, of w] offers_ok_put [OF assms(1) o, of w]
      by (auto simp: track_offer_def ps_def [symmetric] Let_def not_le split: if_splits)
  next
    case False
    have "ids_ok (offers - {i})" if "dict_get (rt_offers rt) w = Some offers" for offers i
      using o that by (auto simp: offers_of_def ids_ok_def intro: le_trans [OF card_Diff1_le])
    then show ?thesis
      using assms False by (auto simp: track_offer_def ps_def [symmetric] Let_def intro: offers_ok_put offers_ok_del
          split: if_splits option.splits)
  qed
  moreover have "\<forall>w'. w' \<noteq> w \<longrightarrow> offers_of w' rt' = offers_of w' rt"
    using assms(2) by (auto simp: track_offer_def Let_def offers_of_def update_conv' delete_conv'
        split: if_splits option.splits)
  moreover have "\<not> go \<longrightarrow> offers_of w rt' = offers_of w rt"
    using assms(2) by (auto simp: track_offer_def Let_def offers_of_def update_conv' delete_conv'
        split: if_splits option.splits)
  moreover have "(go \<longleftrightarrow> length id \<le> 64 \<and> (id \<in> offers_of w rt \<or> card (offers_of w rt) < 256))
      \<and> (go \<longrightarrow> offers_of w rt' = insert id (offers_of w rt))"
    if "split_ws rest = cmd # id # r" "cmd \<in> set OFFER_COMMANDS" for cmd id r
    using assms(2) that
    by (auto simp: track_offer_def Let_def offers_of_def update_conv' MAX_OFFERS_PER_OWNER_def MAX_OFFER_ID_LENGTH_def
        split: if_splits option.splits)
  ultimately show ?thesis
    using offers_ok_of [of rt'] by (auto simp: ids_ok_def MAX_OFFERS_PER_OWNER_def)
qed

theorem offers_bounded_witness:
  "\<exists>go rt'. track_offer (''alice'', ''c1'') ''sw0reloffer 7 100'' ex_router = (go, rt') \<and> go
     \<and> offers_of (''alice'', ''c1'') rt' = {''7''}"
proof -
  let ?w = "(''alice'', ''c1'')"
  obtain go rt' where t: "track_offer ?w ''sw0reloffer 7 100'' ex_router = (go, rt')" by (metis prod.exhaust)
  have "offers_ok ex_router" "offers_of ?w ex_router = {}" by (simp_all add: offers_ok_def ex_router_def offers_of_def)
  moreover have "split_ws ''sw0reloffer 7 100'' = ''sw0reloffer'' # ''7'' # [''100'']" by code_simp
  moreover have "''sw0reloffer'' \<in> set OFFER_COMMANDS" by (simp add: OFFER_COMMANDS_def)
  ultimately have "go \<and> offers_of ?w rt' = {''7''}" using offers_bounded [OF _ t] by auto
  with t show ?thesis by blast
qed

end
