(* ===== verification/Dir_Client.thy ===== *)
theory Dir_Client
  imports Jm_Protocol Py_Dict
begin

text \<open>
  The peer list in the directory client, \<open>jmcore/src/jmcore/directory_client.py\<close>: the caches a client keeps of peers, features and
  offers, what a PEERLIST message does to them, and the loop that collects the messages that answer GETPEERLIST while the
  client listens (the chunks come out of a queue, \<open>None\<close> when the connection is lost; the end of the list is
  the timeout between chunks; the queue itself, its bounds and the byte count are the listen loop's). The cached features of a peer are a dictionary whose values are all true, hence a set. The limits
  raise an error that ends the client, so that the caches are of no use after it.
\<close>

section \<open>Limits\<close>

definition MAX_RETAINED_PEERS :: nat where
  "MAX_RETAINED_PEERS = 20000"

definition MAX_PEER_FEATURES :: nat where
  "MAX_PEER_FEATURES = 64"

definition MAX_NICK_UTF8_BYTES :: nat where
  "MAX_NICK_UTF8_BYTES = 64"

definition MAX_LOCATION_UTF8_BYTES :: nat where
  "MAX_LOCATION_UTF8_BYTES = 300"

definition MAX_FEATURE_UTF8_BYTES :: nat where
  "MAX_FEATURE_UTF8_BYTES = 128"

datatype client_error = LimitError | ConnectionLost

type_synonym 'a client_res = "client_error + 'a"

text \<open>Characters are code points below 256, of one or two bytes.\<close>

definition utf8_size :: "string \<Rightarrow> nat" where
  "utf8_size s = sum_list (map (\<lambda>c. if (of_char c :: nat) < 128 then 1 else 2) s)"

definition limit :: "bool \<Rightarrow> unit client_res" where
  "limit exceeded = (if exceeded then Inl LimitError else Inr ())"

definition validate_nick_storage :: "string \<Rightarrow> unit client_res" where
  "validate_nick_storage nick = limit (MAX_NICK_UTF8_BYTES < utf8_size nick)"

definition validate_peer_storage :: "string \<Rightarrow> string \<Rightarrow> unit client_res" where
  "validate_peer_storage nick location =
     bind_res (validate_nick_storage nick) (\<lambda>_. limit (MAX_LOCATION_UTF8_BYTES < utf8_size location))"

definition validate_feature_storage :: "feature_set \<Rightarrow> unit client_res" where
  "validate_feature_storage fs = limit (\<exists>f \<in> fs. MAX_FEATURE_UTF8_BYTES < utf8_size f)"

section \<open>Caches\<close>

record cached_offer =
  cof_features :: "(string, bool) dict"
  cof_bond_key :: "string option"

record dir_client =
  dc_supported :: "bool option"
  dc_timeouts :: nat
  dc_peerlist_features :: bool
  dc_active :: "(string, string) dict"
  dc_features :: "(string, feature_set) dict"
  dc_offers :: "(string \<times> int, cached_offer) dict"
  dc_bonds :: "(string, string) dict"
  dc_bond_offers :: "(string, (string \<times> int) set) dict"

definition merge_peer_features :: "string \<Rightarrow> feature_set \<Rightarrow> dir_client \<Rightarrow> dir_client client_res" where
  "merge_peer_features nick new_features cl =
     bind_res (validate_nick_storage nick) (\<lambda>_.
     bind_res (validate_feature_storage new_features) (\<lambda>_.
     bind_res (limit (dict_get (dc_features cl) nick = None \<and> MAX_RETAINED_PEERS \<le> length (dc_features cl))) (\<lambda>_.
     let existing = (case dict_get (dc_features cl) nick of None \<Rightarrow> {} | Some fs \<Rightarrow> fs) in
     bind_res (limit (MAX_PEER_FEATURES < card existing + card (new_features - existing))) (\<lambda>_.
     Inr (cl\<lparr>dc_features := dict_put nick (existing \<union> new_features) (dc_features cl)\<rparr>)))))"

definition positive_features :: "cached_offer \<Rightarrow> string set" where
  "positive_features co = set (map fst (filter snd (cof_features co)))"

definition add_features :: "feature_set \<Rightarrow> cached_offer \<Rightarrow> cached_offer" where
  "add_features fs co = co\<lparr>cof_features := foldl (\<lambda>d f. dict_put f True d) (cof_features co) (sorted_list_of_set fs)\<rparr>"

definition update_offer_features :: "string \<Rightarrow> feature_set \<Rightarrow> dir_client \<Rightarrow> dir_client client_res" where
  "update_offer_features nick fs cl =
     bind_res (validate_nick_storage nick) (\<lambda>_.
     bind_res (validate_feature_storage fs) (\<lambda>_.
     bind_res (limit (\<exists>(key, co) \<in> set (dc_offers cl). fst key = nick \<and> MAX_PEER_FEATURES < card (positive_features co \<union> fs))) (\<lambda>_.
     Inr (cl\<lparr>dc_offers := map (\<lambda>(key, co). (key, if fst key = nick then add_features fs co else co)) (dc_offers cl)\<rparr>))))"

definition remove_offer :: "string \<times> int \<Rightarrow> dir_client \<Rightarrow> dir_client" where
  "remove_offer key cl =
     (case dict_get (dc_offers cl) key of
        None \<Rightarrow> cl
      | Some co \<Rightarrow>
          let cl1 = cl\<lparr>dc_offers := dict_del key (dc_offers cl)\<rparr> in
          (case cof_bond_key co of
             None \<Rightarrow> cl1
           | Some bond \<Rightarrow>
               (case dict_get (dc_bond_offers cl1) bond of
                  None \<Rightarrow> cl1
                | Some keys \<Rightarrow>
                    if keys - {key} = {}
                    then cl1\<lparr>dc_bond_offers := dict_del bond (dc_bond_offers cl1), dc_bonds := dict_del bond (dc_bonds cl1)\<rparr>
                    else cl1\<lparr>dc_bond_offers := dict_put bond (keys - {key}) (dc_bond_offers cl1)\<rparr>)))"

definition remove_offers_for_nick :: "string \<Rightarrow> dir_client \<Rightarrow> dir_client" where
  "remove_offers_for_nick nick cl =
     (let cl1 = foldl (\<lambda>cl key. remove_offer key cl) cl (filter (\<lambda>key. fst key = nick) (dict_keys (dc_offers cl))) in
      cl1\<lparr>dc_features := dict_del nick (dc_features cl1), dc_active := dict_del nick (dc_active cl1),
          dc_bonds := filter (\<lambda>(bond, counterparty). counterparty \<noteq> nick) (dc_bonds cl1)\<rparr>)"

section \<open>A PEERLIST message\<close>

type_synonym listed_peer = "string \<times> string \<times> feature_set"

record chunk_state =
  ck_peers :: "listed_peer list"
  ck_disconnected :: "string list"
  ck_malformed :: bool
  ck_client :: dir_client

definition accept_peer :: "string \<Rightarrow> string \<Rightarrow> feature_set \<Rightarrow> chunk_state \<Rightarrow> chunk_state client_res" where
  "accept_peer nick location features st =
     bind_res (limit (MAX_RETAINED_PEERS \<le> length (ck_peers st))) (\<lambda>_.
     bind_res (validate_peer_storage nick location) (\<lambda>_.
     let cl = ck_client st in
     bind_res (limit (dict_get (dc_active cl) nick = None \<and> MAX_RETAINED_PEERS \<le> length (dc_active cl))) (\<lambda>_.
     bind_res (merge_peer_features nick features cl) (\<lambda>cl1.
     bind_res (update_offer_features nick features (cl1\<lparr>dc_active := dict_put nick location (dc_active cl1)\<rparr>)) (\<lambda>cl2.
     Inr (st\<lparr>ck_peers := ck_peers st @ [(nick, location, features)], ck_client := cl2\<rparr>))))))"

definition process_entry :: "string \<Rightarrow> chunk_state \<Rightarrow> chunk_state client_res" where
  "process_entry entry st =
     (if list_all isspace_char entry then Inr st
      else if NICK_PEERLOCATOR_SEPARATOR \<notin> set entry then Inr st
      else case parse_peerlist_entry entry of
        Inl _ \<Rightarrow> Inr (st\<lparr>ck_malformed := True\<rparr>)
      | Inr (nick, location, disconnected, features) \<Rightarrow>
          if disconnected
          then if nick \<in> set (ck_disconnected st) then Inr st
               else bind_res (limit (MAX_RETAINED_PEERS \<le> length (ck_disconnected st))) (\<lambda>_.
                    Inr (st\<lparr>ck_disconnected := ck_disconnected st @ [nick]\<rparr>))
          else accept_peer nick location features st)"

fun process_entries :: "string list \<Rightarrow> chunk_state \<Rightarrow> chunk_state client_res" where
  "process_entries [] st = Inr st"
| "process_entries (entry # entries) st = bind_res (process_entry entry st) (process_entries entries)"

definition process_peerlist_response :: "string \<Rightarrow> dir_client \<Rightarrow> (listed_peer list \<times> bool \<times> dir_client) client_res" where
  "process_peerlist_response peerlist_str cl =
     (let cl1 = cl\<lparr>dc_supported := Some True\<rparr> in
      if peerlist_str = [] then Inr ([], False, cl1)
      else bind_res (process_entries (split_on (CHR '','') peerlist_str)
             \<lparr>ck_peers = [], ck_disconnected = [], ck_malformed = False, ck_client = cl1\<rparr>) (\<lambda>st.
           Inr (ck_peers st, ck_malformed st, foldl (\<lambda>cl nick. remove_offers_for_nick nick cl) (ck_client st) (ck_disconnected st))))"

section \<open>The answer to GETPEERLIST\<close>

definition extend_peerlist_peers :: "listed_peer list \<Rightarrow> listed_peer list \<Rightarrow> listed_peer list client_res" where
  "extend_peerlist_peers all_peers chunk_peers =
     bind_res (limit (MAX_RETAINED_PEERS < length all_peers + length chunk_peers)) (\<lambda>_. Inr (all_peers @ chunk_peers))"

definition handle_peerlist_timeout :: "dir_client \<Rightarrow> dir_client" where
  "handle_peerlist_timeout cl =
     (let cl1 = cl\<lparr>dc_timeouts := Suc (dc_timeouts cl)\<rparr> in
      if dc_peerlist_features cl then cl1 else cl1\<lparr>dc_supported := Some False\<rparr>)"

record fetch_result =
  fr_peers :: "listed_peer list"
  fr_snapshot :: "listed_peer list option"
  fr_client :: dir_client

definition finish_fetch :: "listed_peer list \<Rightarrow> bool \<Rightarrow> dir_client \<Rightarrow> fetch_result" where
  "finish_fetch peers incomplete cl =
     (let cl1 = cl\<lparr>dc_timeouts := 0, dc_supported := Some True\<rparr> in
      if incomplete then \<lparr>fr_peers = peers, fr_snapshot = None, fr_client = cl1\<rparr>
      else \<lparr>fr_peers = peers, fr_snapshot = Some peers,
            fr_client = cl1\<lparr>dc_active := dict_of (map (\<lambda>(nick, location, features). (nick, location)) peers) []\<rparr>\<rparr>)"

fun fetch_peerlist :: "string option list \<Rightarrow> bool \<Rightarrow> bool \<Rightarrow> listed_peer list \<Rightarrow> dir_client \<Rightarrow> fetch_result client_res" where
  "fetch_peerlist [] got_first incomplete peers cl =
     (if got_first then Inr (finish_fetch peers incomplete cl)
      else Inr \<lparr>fr_peers = [], fr_snapshot = None, fr_client = handle_peerlist_timeout cl\<rparr>)"
| "fetch_peerlist (None # chunks) got_first incomplete peers cl = Inl ConnectionLost"
| "fetch_peerlist (Some peerlist_str # chunks) got_first incomplete peers cl =
     bind_res (process_peerlist_response peerlist_str cl) (\<lambda>(chunk_peers, malformed, cl1).
     bind_res (extend_peerlist_peers peers chunk_peers) (\<lambda>peers1.
     fetch_peerlist chunks True (incomplete \<or> malformed) peers1 cl1))"

section \<open>Reading a list of peers\<close>

text \<open>A client that has cached the peers \<open>ps\<close> and no offers.\<close>

definition knows :: "listed_peer list \<Rightarrow> dir_client \<Rightarrow> bool" where
  "knows ps cl \<longleftrightarrow> dc_active cl = map (\<lambda>(n, l, f). (n, l)) ps \<and> dc_features cl = map (\<lambda>(n, l, f). (n, f)) ps \<and> dc_offers cl = []"

definition storable :: "listed_peer \<Rightarrow> bool" where
  "storable = (\<lambda>(n, l, f). utf8_size n \<le> 64 \<and> utf8_size l \<le> 300 \<and> card f \<le> 64 \<and> (\<forall>x \<in> f. utf8_size x \<le> 128))"

lemma limit_False [simp]: "limit False = Inr ()"
  by (simp add: limit_def)

lemma knows_get:
  assumes "knows ps cl"
  shows "dict_get (dc_active cl) n = None \<longleftrightarrow> n \<notin> fst ` set ps" "dict_get (dc_features cl) n = None \<longleftrightarrow> n \<notin> fst ` set ps"
    "length (dc_active cl) = length ps" "length (dc_features cl) = length ps"
  using assms by (auto simp: knows_def map_of_eq_None_iff image_image case_prod_unfold)

lemma accept_peer_new:
  assumes k: "knows ps (ck_client st)" and new: "n \<notin> fst ` set ps" and room: "length ps < MAX_RETAINED_PEERS" "length (ck_peers st) \<le> length ps"
    and s: "storable (n, l, f)"
  shows "\<exists>cl. accept_peer n l f st = Inr (st\<lparr>ck_peers := ck_peers st @ [(n, l, f)], ck_client := cl\<rparr>) \<and> knows (ps @ [(n, l, f)]) cl"
proof -
  have v: "validate_nick_storage n = Inr ()" "validate_peer_storage n l = Inr ()" "validate_feature_storage f = Inr ()"
    using s by (auto simp: storable_def validate_nick_storage_def validate_peer_storage_def validate_feature_storage_def limit_def
        MAX_NICK_UTF8_BYTES_def MAX_LOCATION_UTF8_BYTES_def MAX_FEATURE_UTF8_BYTES_def)
  note g = knows_get [OF k]
  let ?cl1 = "(ck_client st)\<lparr>dc_features := dc_features (ck_client st) @ [(n, f)]\<rparr>"
  let ?cl2 = "?cl1\<lparr>dc_active := dc_active (ck_client st) @ [(n, l)], dc_offers := []\<rparr>"
  have none: "dict_get (dc_features (ck_client st)) n = None" "dict_get (dc_active (ck_client st)) n = None" using g new by auto
  then have put: "dict_put n f (dc_features (ck_client st)) = dc_features (ck_client st) @ [(n, f)]"
      "dict_put n l (dc_active (ck_client st)) = dc_active (ck_client st) @ [(n, l)]"
    by (auto simp: dict_get_None_iff intro: dict_put_fresh)
  have "card f \<le> 64" using s by (simp add: storable_def)
  then have "merge_peer_features n f (ck_client st) = Inr ?cl1"
    using v none put(1) room g(4) by (simp add: merge_peer_features_def Let_def MAX_PEER_FEATURES_def)
  moreover have "update_offer_features n f (?cl1\<lparr>dc_active := dict_put n l (dc_active ?cl1)\<rparr>) = Inr ?cl2"
    using v k put(2) by (simp add: update_offer_features_def knows_def)
  ultimately have "accept_peer n l f st = Inr (st\<lparr>ck_peers := ck_peers st @ [(n, l, f)], ck_client := ?cl2\<rparr>)"
    using v room none(2) g(3) by (simp add: accept_peer_def Let_def)
  moreover have "knows (ps @ [(n, l, f)]) ?cl2" using k by (simp add: knows_def)
  ultimately show ?thesis by blast
qed

text \<open>An entry as the directory writes it.\<close>

definition entry_text :: "listed_peer \<Rightarrow> string \<Rightarrow> bool" where
  "entry_text = (\<lambda>(n, l, f) entry. parse_peerlist_entry entry = Inr (n, l, False, f) \<and> \<not> list_all isspace_char entry \<and>
     NICK_PEERLOCATOR_SEPARATOR \<in> set entry \<and> CHR '','' \<notin> set entry)"

lemma process_entries_new:
  assumes "list_all2 entry_text qs entries" "knows ps (ck_client st)" "distinct (map fst (ps @ qs))" "length (ps @ qs) \<le> MAX_RETAINED_PEERS"
    and "list_all storable qs" "length (ck_peers st) \<le> length ps"
  shows "\<exists>cl. process_entries entries st = Inr (st\<lparr>ck_peers := ck_peers st @ qs, ck_client := cl\<rparr>) \<and> knows (ps @ qs) cl"
  using assms
proof (induction qs entries arbitrary: ps st rule: list_all2_induct)
  case Nil
  then show ?case by (intro exI [of _ "ck_client st"]) simp
next
  case (Cons q qs entry entries)
  obtain n l f where q: "q = (n, l, f)" by (cases q)
  have "process_entry entry st = accept_peer n l f st" using Cons.hyps(1) by (simp add: q entry_text_def process_entry_def)
  moreover obtain cl where cl: "accept_peer n l f st = Inr (st\<lparr>ck_peers := ck_peers st @ [q], ck_client := cl\<rparr>)" "knows (ps @ [q]) cl"
    using accept_peer_new [OF Cons.prems(1), of n l f] Cons.prems by (auto simp: q)
  ultimately have one: "process_entry entry st = Inr (st\<lparr>ck_peers := ck_peers st @ [q], ck_client := cl\<rparr>)" by simp
  obtain cl' where "process_entries entries (st\<lparr>ck_peers := ck_peers st @ [q], ck_client := cl\<rparr>) =
      Inr ((st\<lparr>ck_peers := ck_peers st @ [q], ck_client := cl\<rparr>)\<lparr>ck_peers := (ck_peers st @ [q]) @ qs, ck_client := cl'\<rparr>)" "knows ((ps @ [q]) @ qs) cl'"
    using Cons.IH [of "ps @ [q]" "st\<lparr>ck_peers := ck_peers st @ [q], ck_client := cl\<rparr>"] cl(2) Cons.prems by auto
  then show ?case using one by (intro exI [of _ cl']) simp
qed

lemma process_chunk_new:
  assumes qs: "qs \<noteq> []" "list_all2 entry_text qs entries" and k: "knows ps cl" and d: "distinct (map fst (ps @ qs))"
    and n: "length (ps @ qs) \<le> MAX_RETAINED_PEERS" "list_all storable qs"
  shows "\<exists>cl'. process_peerlist_response (join_with '','' entries) cl = Inr (qs, False, cl') \<and> knows (ps @ qs) cl'"
proof -
  have ne: "entries \<noteq> []" using qs by auto
  have free: "CHR '','' \<notin> set e" if e: "e \<in> set entries" for e
  proof -
    obtain i where "i < length entries" "e = entries ! i" using e by (metis in_set_conv_nth)
    then have "entry_text (qs ! i) e" using list_all2_nthD2 [OF qs(2)] by simp
    then show ?thesis by (cases "qs ! i") (simp add: entry_text_def)
  qed
  have sp: "split_on (CHR '','') (join_with '','' entries) = entries" using ne free by (intro split_join) auto
  have "hd entries \<noteq> []" using qs by (cases qs; cases entries) (auto simp: entry_text_def split: prod.splits)
  then have "join_with '','' entries \<noteq> []" using sp ne by (cases entries) (auto simp: split_on.simps)
  moreover have "knows ps (cl\<lparr>dc_supported := Some True\<rparr>)" using k by (simp add: knows_def)
  then obtain cl' where "process_entries entries \<lparr>ck_peers = [], ck_disconnected = [], ck_malformed = False, ck_client = cl\<lparr>dc_supported := Some True\<rparr>\<rparr> =
      Inr (\<lparr>ck_peers = [], ck_disconnected = [], ck_malformed = False, ck_client = cl\<lparr>dc_supported := Some True\<rparr>\<rparr>\<lparr>ck_peers := [] @ qs, ck_client := cl'\<rparr>)"
      "knows (ps @ qs) cl'"
    using process_entries_new [OF qs(2), of ps "\<lparr>ck_peers = [], ck_disconnected = [], ck_malformed = False, ck_client = cl\<lparr>dc_supported := Some True\<rparr>\<rparr>"] d n
    by auto
  ultimately show ?thesis by (intro exI [of _ cl']) (simp add: process_peerlist_response_def sp)
qed

lemma fetch_chunks_new:
  assumes "list_all2 (\<lambda>qs entries. qs \<noteq> [] \<and> list_all2 entry_text qs entries) qss chunks" "knows ps cl"
    and "distinct (map fst (ps @ concat qss))" "length (ps @ concat qss) \<le> MAX_RETAINED_PEERS" "list_all storable (concat qss)" "got \<or> qss \<noteq> []"
  shows "\<exists>cl'. fetch_peerlist (map (\<lambda>entries. Some (join_with '','' entries)) chunks) got False ps cl =
      Inr \<lparr>fr_peers = ps @ concat qss, fr_snapshot = Some (ps @ concat qss), fr_client = cl'\<rparr>
    \<and> dc_active cl' = map (\<lambda>(n, l, f). (n, l)) (ps @ concat qss)"
  using assms
proof (induction qss chunks arbitrary: ps cl got rule: list_all2_induct)
  case Nil
  have "map fst (map (\<lambda>(n, l, f). (n, l)) ps) = map fst ps" by (induction ps) auto
  then have "distinct (map fst (map (\<lambda>(n, l, f). (n, l)) ps))" using Nil.prems(2) by (metis append_Nil2 concat.simps(1))
  then have "dict_of (map (\<lambda>(n, l, f). (n, l)) ps) [] = map (\<lambda>(n, l, f). (n, l)) ps" by (simp add: dict_of_distinct)
  then show ?case using Nil.prems by (simp add: finish_fetch_def Let_def)
next
  case (Cons qs qss entries chunks)
  have "distinct (map fst (ps @ qs))" using Cons.prems(2) by (simp add: Int_Un_distrib)
  then obtain cl1 where one: "process_peerlist_response (join_with '','' entries) cl = Inr (qs, False, cl1)" "knows (ps @ qs) cl1"
    using process_chunk_new [of qs entries ps cl] Cons.hyps(1) Cons.prems by auto
  have "extend_peerlist_peers ps qs = Inr (ps @ qs)" using Cons.prems(3) by (simp add: extend_peerlist_peers_def limit_def)
  then show ?case using Cons.IH [of "ps @ qs" cl1 True] one Cons.prems by simp
qed

end
