(* ===== verification/Dir_Peerlist.thy ===== *)
theory Dir_Peerlist
  imports Dir_Delivery Dir_Client
begin

text \<open>
  The directory's answer to GETPEERLIST and the client that reads it, composed: the router of \<open>Dir_Router\<close> builds the
  entries, cuts them into chunks and sends each chunk through the server of \<open>Dir_Server\<close>, and the fetch loop of
  \<open>Dir_Client\<close> splits, parses and caches what was sent.
\<close>

section \<open>The entries of the directory\<close>

lemma concat_chunks: "0 < n \<Longrightarrow> concat (chunks n xs) = xs"
proof (induction n xs rule: chunks.induct)
  case (1 n xs)
  then show ?case by (subst chunks.simps) auto
qed

lemma chunks_bounds: "c \<in> set (chunks n xs) \<Longrightarrow> c \<noteq> [] \<and> length c \<le> n \<and> set c \<subseteq> set xs"
proof (induction n xs rule: chunks.induct)
  case (1 n xs)
  show ?case
  proof (cases "xs = [] \<or> n = 0")
    case True
    with 1(2) show ?thesis by (simp add: chunks.simps [of n xs])
  next
    case False
    then have "c = take n xs \<or> c \<in> set (chunks n (drop n xs))" using 1(2) by (simp add: chunks.simps [of n xs])
    then show ?thesis
    proof
      assume "c = take n xs"
      then show ?thesis using False by (auto dest: in_set_takeD)
    next
      assume c: "c \<in> set (chunks n (drop n xs))"
      then have "c \<noteq> [] \<and> length c \<le> n \<and> set c \<subseteq> set (drop n xs)" using 1(1) False by blast
      then show ?thesis using set_drop_subset [of n xs] by blast
    qed
  qed
qed

text \<open>A peer whose nick, location and features can be written in a list.\<close>

definition listable :: "peer_info \<Rightarrow> bool" where
  "listable p = (is_safe_peerlist_nick (pi_nick p) \<and> is_safe_peerlist_location (location_string p)
     \<and> list_all is_safe_peerlist_feature (dict_keys (pi_features p)))"

definition entry_of :: "peer_info \<Rightarrow> string" where
  "entry_of p = join_with '';'' (entry_parts (pi_nick p) (location_string p) False (true_keys (pi_features p)))"

lemma true_keys_safe: "list_all is_safe_peerlist_feature (dict_keys d) \<Longrightarrow> \<forall>f \<in> true_keys d. is_safe_peerlist_feature f"
  by (auto simp: true_keys_def list_all_iff)

lemma entries_with_features:
  assumes "\<forall>p \<in> set (iter_connected (Some network) r). listable p"
  shows "peerlist_entries network True r = Inr (map entry_of (iter_connected (Some network) r))"
proof -
  have "mapM_res (\<lambda>p. create_peerlist_entry (pi_nick p) (location_string p) False (Some (true_keys (pi_features p))))
      (iter_connected (Some network) r) = Inr (map entry_of (iter_connected (Some network) r))"
  proof (rule mapM_res_all_Inr)
    fix p assume "p \<in> set (iter_connected (Some network) r)"
    then have "listable p" using assms by blast
    then show "create_peerlist_entry (pi_nick p) (location_string p) False (Some (true_keys (pi_features p))) = Inr (entry_of p)"
      unfolding entry_of_def listable_def by (intro create_peerlist_entry_parts true_keys_safe) auto
  qed
  then show ?thesis by (simp add: peerlist_entries_def get_peerlist_with_features_def mapM_res_map)
qed

section \<open>The messages of the directory\<close>

lemma call_send_ok:
  assumes "linked s" "sendable k c s" "\<And>n. se_write e n"
  shows "call_send (server_router_cfg e f) k d (Some c) s = (True, deliver d [(k, c)] s)"
proof -
  have "is_current_owner k (Some c) (sv_reg s)" using assms(2) by (simp add: sendable_iff reg.owns_iff)
  then show ?thesis using send_to_peer_ok [OF assms] by (simp add: call_send_def server_router_cfg_def)
qed

lemma send_chunks_ok:
  assumes w: "\<And>n. se_write e n"
  shows "linked s \<Longrightarrow> sendable k c s \<Longrightarrow> \<exists>s'. send_chunks (server_router_cfg e f) k (Some c) cs s = s' \<and> sv_reg s' = sv_reg s
    \<and> sv_log s' = sv_log s @ map (\<lambda>es. (k, c, to_bytes (peerlist_envelope (join_with '','' es)))) cs"
proof (induction cs arbitrary: s)
  case (Cons es cs)
  let ?d = "to_bytes (peerlist_envelope (join_with '','' es))"
  have "call_send (server_router_cfg e f) k ?d (Some c) s = (True, deliver ?d [(k, c)] s)"
    by (rule call_send_ok [OF Cons.prems w])
  then show ?case using Cons.IH [of "deliver ?d [(k, c)] s"] Cons.prems by auto
qed simp

lemma peerlist_request_ok:
  assumes w: "\<And>n. se_write e n" and s: "linked s" "sendable key c s"
    and p: "get_by_key key (sv_reg s) = Some p" "truthy (get_or (pi_features p) FEATURE_PEERLIST_FEATURES (JBool False))"
    and peers: "\<forall>q \<in> set (iter_connected (Some (pi_network p)) (sv_reg s)). listable q"
  defines "css \<equiv> chunks PEERLIST_CHUNK_SIZE (map entry_of (iter_connected (Some (pi_network p)) (sv_reg s)))"
  shows "\<exists>s'. handle_peerlist_request (server_cfg e now s) key (Some c) s = Inr s' \<and> sv_reg s' = sv_reg s
    \<and> sv_log s' = sv_log s @ map (\<lambda>d. (key, c, to_bytes (peerlist_envelope d))) (if css = [] then [[]] else map (join_with '','') css)"
proof -
  let ?cfg = "server_cfg e now s"
  have c: "get_connection_id key (sv_reg s) = Some c" using s(2) by (simp add: sendable_iff)
  then have "c \<noteq> []" using s(1) by (simp add: linked_def)
  then have orc: "or_conn (Some c) key s = Some c" by (simp add: or_conn_def)
  have "is_current_owner key (Some c) (sv_reg s)" using c by (simp add: reg.owns_iff)
  then have req: "handle_peerlist_request ?cfg key (Some c) s
      = send_peerlist ?cfg key (pi_network p) True PEERLIST_CHUNK_SIZE (Some c) s"
    using orc p by (simp add: handle_peerlist_request_def)
  have css: "css = [] \<longleftrightarrow> iter_connected (Some (pi_network p)) (sv_reg s) = []"
    by (simp add: css_def PEERLIST_CHUNK_SIZE_def chunks.simps [of _ "map entry_of _"])
  show ?thesis
  proof (cases "css = []")
    case True
    let ?d = "to_bytes (peerlist_envelope [])"
    have "call_send ?cfg key ?d (Some c) s = (True, deliver ?d [(key, c)] s)"
      unfolding server_cfg_def by (rule call_send_ok [OF s w])
    then show ?thesis using True css entries_with_features [OF peers] orc by (simp add: req send_peerlist_def)
  next
    case False
    obtain s' where "send_chunks ?cfg key (Some c) css s = s'" "sv_reg s' = sv_reg s"
        "sv_log s' = sv_log s @ map (\<lambda>es. (key, c, to_bytes (peerlist_envelope (join_with '','' es)))) css"
      using send_chunks_ok [OF w s, of _ css] by (auto simp: server_cfg_def)
    then show ?thesis using False css entries_with_features [OF peers] orc
      by (simp add: req send_peerlist_def comp_def flip: css_def)
  qed
qed

section \<open>What the client reads\<close>

lemma chunks_map: "chunks n (map f xs) = map (map f) (chunks n xs)"
proof (induction n xs rule: chunks.induct)
  case (1 n xs)
  then show ?case by (cases "xs = [] \<or> n = 0") (simp_all add: chunks.simps [of n] take_map drop_map)
qed

definition listed :: "peer_info \<Rightarrow> listed_peer" where
  "listed p = (pi_nick p, location_string p, true_keys (pi_features p))"

lemma entry_of_text:
  assumes "listable p"
  shows "entry_text (listed p) (entry_of p)"
proof -
  have safe: "is_safe_peerlist_nick (pi_nick p)" "is_safe_peerlist_location (location_string p)"
      "\<forall>f \<in> true_keys (pi_features p). is_safe_peerlist_feature f" "finite (true_keys (pi_features p))"
    using assms true_keys_safe [of "pi_features p"] by (auto simp: listable_def true_keys_def)
  obtain x xs where nick: "pi_nick p = x # xs" "\<not> isspace_char x"
    using safe(1) by (cases "pi_nick p") (auto simp: is_safe_peerlist_nick_def is_safe_peerlist_value_def)
  have "\<exists>zs. entry_of p = pi_nick p @ '';'' @ zs"
    by (auto simp: entry_of_def entry_parts_def)
  then obtain zs where "entry_of p = pi_nick p @ '';'' @ zs" by blast
  then show ?thesis
    using nick peerlist_entry_parse [OF safe(1,2,4,3), of False] set_entry [OF safe(1,2,4,3), of "CHR '',''" False]
    by (simp add: entry_text_def listed_def entry_of_def NICK_PEERLOCATOR_SEPARATOR_def)
qed

lemma chunk_texts:
  assumes "\<forall>p \<in> set ps. listable p"
  shows "list_all2 (\<lambda>qs entries. qs \<noteq> [] \<and> list_all2 entry_text qs entries)
    (map (map listed) (chunks n ps)) (map (map entry_of) (chunks n ps))"
proof -
  have "list_all2 entry_text (map listed c) (map entry_of c)" if "set c \<subseteq> set ps" for c
    using assms that entry_of_text by (auto simp: list_all2_conv_all_nth intro: nth_mem)
  then show ?thesis using chunks_bounds [of _ n ps] by (auto simp: list_all2_conv_all_nth in_set_conv_nth)
qed

lemma chunk_entries:
  assumes "\<forall>p \<in> set ps. listable p" "c \<in> set (chunks n ps)"
  shows "length (split_on (CHR '','') (join_with '','' (map entry_of c))) \<le> n"
proof -
  have c: "c \<noteq> []" "length c \<le> n" "set c \<subseteq> set ps" using chunks_bounds [OF assms(2)] by auto
  have "CHR '','' \<notin> set (entry_of p)" if "p \<in> set c" for p
    using entry_of_text [of p] assms(1) c(3) that by (auto simp: entry_text_def listed_def)
  then have "split_on (CHR '','') (join_with '','' (map entry_of c)) = map entry_of c"
    using c(1) by (intro split_join) auto
  then show ?thesis using c(2) by simp
qed

lemma listed_nicks:
  assumes "registry_ok r"
  shows "distinct (map fst (map listed (iter_connected network r)))"
proof -
  have "map (\<lambda>p. fst (listed p)) (map snd (rg_peers r)) = dict_keys (rg_peers r)"
    using assms by (auto simp: registry_ok_def listed_def)
  then have "distinct (map (\<lambda>p. fst (listed p)) (map snd (rg_peers r)))"
    using assms unfolding registry_ok_def by metis
  then show ?thesis by (simp add: iter_connected_def comp_def distinct_map_filter)
qed

lemma fetch_listed:
  assumes peers: "\<forall>p \<in> set ps. listable p" "list_all storable (map listed ps)" "length ps \<le> MAX_RETAINED_PEERS"
    and d: "distinct (map fst (map listed ps))" and cl: "knows [] cl" and n: "0 < n"
  shows "\<exists>cl'. fetch_peerlist (map Some (if ps = [] then [[]] else map (join_with '','') (chunks n (map entry_of ps)))) False False [] cl
      = Inr \<lparr>fr_peers = map listed ps, fr_snapshot = Some (map listed ps), fr_client = cl'\<rparr>
    \<and> dc_active cl' = map (\<lambda>(n, l, f). (n, l)) (map listed ps)"
proof (cases "ps = []")
  case True
  then show ?thesis using cl
    by (simp add: knows_def process_peerlist_response_def extend_peerlist_peers_def limit_def finish_fetch_def Let_def)
next
  case False
  have c: "concat (map (map listed) (chunks n ps)) = map listed ps" using concat_chunks [OF n, of ps] by (metis map_concat)
  have "chunks n ps \<noteq> []" using False n by (simp add: chunks.simps [of n ps])
  then show ?thesis
    using fetch_chunks_new [OF chunk_texts [OF peers(1), of n] cl, of False] peers d False
    by (simp only: c append_Nil) (simp add: chunks_map comp_def)
qed


text \<open>Alice announced \<open>peerlist_features\<close>, Bob did not.\<close>

definition ex_list_server :: server where
  "ex_list_server = ex_server\<lparr>sv_reg := ex_server_registry\<lparr>rg_peers :=
     [(''alice'', (ex_peer ''alice'' SIGNET)\<lparr>pi_status := HANDSHAKED, pi_features := [(FEATURE_PEERLIST_FEATURES, JBool True)]\<rparr>),
      (''bob'', (ex_peer ''bob'' SIGNET)\<lparr>pi_status := HANDSHAKED\<rparr>), (''carol'', ex_peer ''carol'' SIGNET)]\<rparr>\<rparr>"

definition ex_client :: dir_client where
  "ex_client = \<lparr>dc_supported = None, dc_timeouts = 0, dc_peerlist_features = True, dc_active = [], dc_features = [],
     dc_offers = [], dc_bonds = [], dc_bond_offers = []\<rparr>"


end
