(* ===== verification/Ring_Planner.thy ===== *)
theory Ring_Planner
  imports Taker_Ring_Plan Py_Numeric "HOL-Library.Multiset"
begin

text \<open>
  The planner of a co-funded channel ring, \<open>taker/ring_planner.py\<close>: from the residual of every party it
  draws a directed cycle in which each party opens one channel and accepts one, and splits the residual
  between the two. The source of randomness is a parameter with an internal state: \<open>shuffle\<close> returns a
  permutation and \<open>randrange lo hi\<close> a number of \<open>{lo..<hi}\<close> (an empty range is a \<open>ValueError\<close>).
  \<open>RingPlanningError\<close> is a \<open>ValueError\<close>.
\<close>

section \<open>Parties and plans\<close>

record channel_limits =
  cl_min_channel_capacity :: int
  cl_max_channel_capacity :: int
  cl_max_push_amount :: int
  cl_dust_limit :: int
  cl_outgoing_reserve :: int
  cl_incoming_reserve :: int
  cl_commitment_fee :: int
  cl_channel_overhead :: int
  cl_spendable_margin :: int

definition limits_post_init :: "channel_limits \<Rightarrow> unit res" where
  "limits_post_init l = raise_if
     [(cl_min_channel_capacity l < 1 \<or> cl_max_channel_capacity l > MAX_MONEY,
         ''channel capacity limits are outside Bitcoin money bounds''),
      (cl_min_channel_capacity l > cl_max_channel_capacity l, ''minimum channel capacity exceeds maximum''),
      (\<not> money (cl_max_push_amount l), ''maximum push amount is outside Bitcoin money bounds''),
      (list_ex (\<lambda>v. v < 0 \<or> v > MAX_MONEY)
         [cl_dust_limit l, cl_outgoing_reserve l, cl_incoming_reserve l, cl_commitment_fee l,
          cl_channel_overhead l, cl_spendable_margin l],
         ''channel balance limit is outside Bitcoin money bounds'')]"

definition minimum_outgoing :: "channel_limits \<Rightarrow> int" where
  "minimum_outgoing l = max (cl_dust_limit l + 1)
     (cl_outgoing_reserve l + cl_commitment_fee l + cl_channel_overhead l + cl_spendable_margin l)"

definition minimum_incoming :: "channel_limits \<Rightarrow> int" where
  "minimum_incoming l = max (cl_dust_limit l + 1) (cl_incoming_reserve l + cl_spendable_margin l)"

record ring_party =
  pa_id :: string
  pa_residual :: int
  pa_limits :: channel_limits

definition party_post_init :: "ring_party \<Rightarrow> unit res" where
  "party_post_init p = raise_if
     [(pa_id p = [] \<or> length (pa_id p) > 128, ''party_id must contain 1 through 128 characters''),
      (\<not> money (pa_residual p), ''party has residual outside money bounds'')]"

record planned_contribution =
  pc_party_id :: string
  pc_residual :: int
  pc_outgoing :: int
  pc_incoming :: int

record planned_edge =
  pe_edge_id :: string
  pe_opener_id :: string
  pe_fundee_id :: string
  pe_capacity :: int
  pe_push_amount :: int
  pe_opener_contribution :: int
  pe_fundee_contribution :: int

record cofunded_plan =
  cf_cycle :: "string list"
  cf_contributions :: "planned_contribution list"
  cf_edges :: "planned_edge list"

definition residuals :: "cofunded_plan \<Rightarrow> (string, int) dict" where
  "residuals plan = dict_of (map (\<lambda>c. (pc_party_id c, pc_residual c)) (cf_contributions plan)) []"

section \<open>Drawing a plan\<close>

record 'r ring_random =
  rg_shuffle :: "ring_party list \<Rightarrow> 'r \<Rightarrow> ring_party list \<times> 'r"
  rg_randrange :: "int \<Rightarrow> int \<Rightarrow> 'r \<Rightarrow> int \<times> 'r"

definition draw :: "'r ring_random \<Rightarrow> int \<Rightarrow> int \<Rightarrow> 'r \<Rightarrow> (int \<times> 'r) res" where
  "draw rng start stop r =
     (if start < stop then Inr (rg_randrange rng start stop r) else Inl (ValueError ''empty range''))"

definition outgoing_bounds :: "ring_party \<Rightarrow> int \<times> int" where
  "outgoing_bounds p =
     (minimum_outgoing (pa_limits p), pa_residual p - minimum_incoming (pa_limits p))"

definition minimum_capacity :: "ring_party \<Rightarrow> ring_party \<Rightarrow> int" where
  "minimum_capacity opener fundee =
     max (cl_min_channel_capacity (pa_limits opener)) (cl_min_channel_capacity (pa_limits fundee))"

definition maximum_capacity :: "ring_party \<Rightarrow> ring_party \<Rightarrow> int" where
  "maximum_capacity opener fundee =
     min (cl_max_channel_capacity (pa_limits opener)) (cl_max_channel_capacity (pa_limits fundee))"

definition maximum_push :: "ring_party \<Rightarrow> ring_party \<Rightarrow> int" where
  "maximum_push opener fundee =
     min (cl_max_push_amount (pa_limits opener)) (cl_max_push_amount (pa_limits fundee))"

text \<open>The loop that draws the outgoing contributions of the parties after the first;
  \<open>prev\<close> is the contribution of \<open>opener\<close>.\<close>

definition fundee_range :: "int \<Rightarrow> ring_party \<Rightarrow> ring_party \<Rightarrow> int \<times> int" where
  "fundee_range prev opener fundee =
     (max (max (fst (outgoing_bounds fundee)) (prev + pa_residual fundee - maximum_capacity opener fundee))
          (pa_residual fundee - maximum_push opener fundee),
      min (snd (outgoing_bounds fundee)) (prev + pa_residual fundee - minimum_capacity opener fundee))"

fun draw_rest ::
  "'r ring_random \<Rightarrow> int \<Rightarrow> ring_party \<Rightarrow> ring_party list \<Rightarrow> 'r \<Rightarrow> (int list option \<times> 'r) res" where
  "draw_rest rng prev opener [] r = Inr (Some [], r)"
| "draw_rest rng prev opener (fundee # rest) r =
     (let (lower, upper) = fundee_range prev opener fundee in
      if lower > upper then Inr (None, r)
      else bind_res (draw rng lower (upper + 1) r) (\<lambda>(v, r).
           map_res (\<lambda>(vs, r). (map_option ((#) v) vs, r)) (draw_rest rng v fundee rest r)))"

definition planned_contribution_of :: "ring_party \<Rightarrow> int \<Rightarrow> planned_contribution" where
  "planned_contribution_of p out =
     \<lparr>pc_party_id = pa_id p, pc_residual = pa_residual p, pc_outgoing = out, pc_incoming = pa_residual p - out\<rparr>"

definition planned_edge_at :: "ring_party list \<Rightarrow> planned_contribution list \<Rightarrow> nat \<Rightarrow> planned_edge option" where
  "planned_edge_at cycle contributions index =
     (let count = length cycle; fundee_index = (index + 1) mod count;
          opener = cycle ! index; fundee = cycle ! fundee_index;
          opener_contribution = pc_outgoing (contributions ! index);
          fundee_contribution = pc_incoming (contributions ! fundee_index);
          capacity = opener_contribution + fundee_contribution in
      if minimum_capacity opener fundee > maximum_capacity opener fundee
         \<or> \<not> (minimum_capacity opener fundee \<le> capacity \<and> capacity \<le> maximum_capacity opener fundee)
         \<or> fundee_contribution > maximum_push opener fundee
         \<or> capacity \<le> opener_contribution \<or> capacity \<le> fundee_contribution
      then None
      else Some \<lparr>pe_edge_id = ''edge-'' @ nat_digits index, pe_opener_id = pa_id opener,
                 pe_fundee_id = pa_id fundee, pe_capacity = capacity, pe_push_amount = fundee_contribution,
                 pe_opener_contribution = opener_contribution, pe_fundee_contribution = fundee_contribution\<rparr>)"

definition finish_candidate :: "ring_party list \<Rightarrow> int list \<Rightarrow> cofunded_plan option" where
  "finish_candidate cycle outgoing =
     (let contributions = map2 planned_contribution_of cycle outgoing in
      map_option (\<lambda>edges. \<lparr>cf_cycle = map pa_id cycle, cf_contributions = contributions, cf_edges = edges\<rparr>)
        (those (map (planned_edge_at cycle contributions) [0..<length cycle])))"

definition build_candidate :: "'r ring_random \<Rightarrow> ring_party list \<Rightarrow> 'r \<Rightarrow> (cofunded_plan option \<times> 'r) res" where
  "build_candidate rng cycle r =
     (case cycle of
        [] \<Rightarrow> Inl IndexError
      | first # rest \<Rightarrow>
          let (first_lower, first_upper) = outgoing_bounds first in
          bind_res (draw rng first_lower (first_upper + 1) r) (\<lambda>(v, r).
          map_res (\<lambda>(vs, r). (Option.bind vs (\<lambda>vs. finish_candidate cycle (v # vs)), r))
            (draw_rest rng v first rest r)))"

fun plan_attempts :: "'r ring_random \<Rightarrow> ring_party list \<Rightarrow> nat \<Rightarrow> 'r \<Rightarrow> (cofunded_plan option \<times> 'r) res" where
  "plan_attempts rng parties 0 r = Inr (None, r)"
| "plan_attempts rng parties (Suc n) r =
     (let (cycle, r) = rg_shuffle rng parties r in
      bind_res (build_candidate rng cycle r) (\<lambda>(candidate, r).
        case candidate of Some plan \<Rightarrow> Inr (Some plan, r) | None \<Rightarrow> plan_attempts rng parties n r))"

definition MAX_RING_PARTICIPANTS :: nat where
  "MAX_RING_PARTICIPANTS = 32"

definition party_floor :: "ring_party \<Rightarrow> int" where
  "party_floor p = minimum_outgoing (pa_limits p) + minimum_incoming (pa_limits p)"

fun check_parties :: "ring_party list \<Rightarrow> unit res" where
  "check_parties [] = Inr ()"
| "check_parties (p # ps) =
     bind_res (raise_if
       [(pa_residual p < party_floor p, ''party residual is below its contribution floor''),
        (cl_min_channel_capacity (pa_limits p) > cl_max_channel_capacity (pa_limits p),
           ''party has inconsistent channel limits'')]) (\<lambda>_. check_parties ps)"

definition plan_cofunded_ring ::
  "'r ring_random \<Rightarrow> ring_party list \<Rightarrow> string \<Rightarrow> bool \<Rightarrow> int \<Rightarrow> 'r \<Rightarrow> (cofunded_plan \<times> 'r) res" where
  "plan_cofunded_ring rng parties taker_id taker_participates max_attempts r =
     bind_res (raise_if
       [(\<not> sized MIN_RING_PARTICIPANTS MAX_RING_PARTICIPANTS parties,
           ''co-funded ring requires 3 through 32 channel participants''),
        (\<not> distinct (map pa_id parties), ''co-funded ring contains duplicate party IDs''),
        (count_list (map pa_id parties) taker_id \<noteq> (if taker_participates then 1 else 0),
           ''co-funded ring must contain the reserved taker ID''),
        (max_attempts < 1 \<or> max_attempts > 1000000, ''max_attempts must be an integer from 1 through 1000000''),
        (sum_list (map pa_residual parties) > MAX_MONEY, ''combined ring residuals exceed MAX_MONEY'')]) (\<lambda>_.
     bind_res (check_parties parties) (\<lambda>_.
     bind_res (plan_attempts rng parties (nat max_attempts) r) (\<lambda>(plan, r).
       case plan of Some p \<Rightarrow> Inr (p, r)
       | None \<Rightarrow> Inl (ValueError ''no complete feasible co-funded cycle found''))))"

section \<open>Feasible rings\<close>

text \<open>What the documentation of a random generator promises.\<close>

definition rng_ok :: "'r ring_random \<Rightarrow> bool" where
  "rng_ok rng \<longleftrightarrow> (\<forall>ps r. mset (fst (rg_shuffle rng ps r)) = mset ps) \<and>
     (\<forall>lo hi r. lo < hi \<longrightarrow> lo \<le> fst (rg_randrange rng lo hi r) \<and> fst (rg_randrange rng lo hi r) < hi)"

text \<open>The split of \<open>p\<close>'s residual respects its floors, and the channel from \<open>p\<close> to \<open>q\<close>
  the capacity and push limits of both.\<close>

definition split_ok :: "ring_party \<Rightarrow> int \<Rightarrow> bool" where
  "split_ok p out \<longleftrightarrow> minimum_outgoing (pa_limits p) \<le> out \<and> minimum_incoming (pa_limits p) \<le> pa_residual p - out"

definition channel_ok :: "ring_party \<Rightarrow> int \<Rightarrow> ring_party \<Rightarrow> int \<Rightarrow> bool" where
  "channel_ok p out_p q out_q \<longleftrightarrow>
     (let capacity = out_p + (pa_residual q - out_q) in
      minimum_capacity p q \<le> capacity \<and> capacity \<le> maximum_capacity p q \<and>
      pa_residual q - out_q \<le> maximum_push p q)"

definition feasible_ring :: "ring_party list \<Rightarrow> int list \<Rightarrow> bool" where
  "feasible_ring cycle outs \<longleftrightarrow> length outs = length cycle \<and>
     (\<forall>i < length cycle. split_ok (cycle ! i) (outs ! i) \<and>
        channel_ok (cycle ! i) (outs ! i) (cycle ! (Suc i mod length cycle)) (outs ! (Suc i mod length cycle)))"

definition edge_of :: "ring_party list \<Rightarrow> int list \<Rightarrow> nat \<Rightarrow> planned_edge" where
  "edge_of cycle outs i =
     (let j = Suc i mod length cycle; push = pa_residual (cycle ! j) - outs ! j in
      \<lparr>pe_edge_id = ''edge-'' @ nat_digits i, pe_opener_id = pa_id (cycle ! i), pe_fundee_id = pa_id (cycle ! j),
       pe_capacity = outs ! i + push, pe_push_amount = push, pe_opener_contribution = outs ! i,
       pe_fundee_contribution = push\<rparr>)"

definition ring_of :: "ring_party list \<Rightarrow> int list \<Rightarrow> cofunded_plan" where
  "ring_of cycle outs =
     \<lparr>cf_cycle = map pa_id cycle, cf_contributions = map2 planned_contribution_of cycle outs,
      cf_edges = map (edge_of cycle outs) [0..<length cycle]\<rparr>"

definition party_valid :: "ring_party \<Rightarrow> bool" where
  "party_valid p \<longleftrightarrow> limits_post_init (pa_limits p) = Inr () \<and> party_post_init p = Inr ()"

lemma minimum_positive:
  assumes "party_valid p"
  shows "1 \<le> minimum_outgoing (pa_limits p)" "1 \<le> minimum_incoming (pa_limits p)"
  using assms by (auto simp: party_valid_def limits_post_init_def minimum_outgoing_def minimum_incoming_def simp del: raise_if.simps)

lemma split_ok_positive:
  assumes "party_valid p" "split_ok p out"
  shows "1 \<le> out" "1 \<le> pa_residual p - out"
  using assms minimum_positive [OF assms(1)] by (auto simp: split_ok_def)

lemma in_fundee_range:
  "fst (fundee_range prev p q) \<le> v \<and> v \<le> snd (fundee_range prev p q)
   \<longleftrightarrow> split_ok q v \<and> channel_ok p prev q v"
  by (auto simp: fundee_range_def outgoing_bounds_def split_ok_def channel_ok_def Let_def)

lemma in_outgoing_bounds:
  "fst (outgoing_bounds p) \<le> v \<and> v \<le> snd (outgoing_bounds p) \<longleftrightarrow> split_ok p v"
  by (auto simp: outgoing_bounds_def split_ok_def)

lemma draw_within:
  assumes "rng_ok rng" "lo \<le> hi"
  obtains v r' where "draw rng lo (hi + 1) r = Inr (v, r')" "lo \<le> v" "v \<le> hi"
proof -
  have "lo < hi + 1" using assms(2) by simp
  with assms(1) have "lo \<le> fst (rg_randrange rng lo (hi + 1) r)" "fst (rg_randrange rng lo (hi + 1) r) < hi + 1"
    unfolding rng_ok_def by blast+
  with \<open>lo < hi + 1\<close> show ?thesis
    by (intro that [of "fst (rg_randrange rng lo (hi + 1) r)" "snd (rg_randrange rng lo (hi + 1) r)"]) (auto simp: draw_def)
qed

text \<open>The contributions along a path that starts at \<open>p\<close>.\<close>

fun path_ok :: "int \<Rightarrow> ring_party \<Rightarrow> ring_party list \<Rightarrow> int list \<Rightarrow> bool" where
  "path_ok prev p [] outs = (outs = [])"
| "path_ok prev p (q # qs) [] = False"
| "path_ok prev p (q # qs) (v # vs) = (split_ok q v \<and> channel_ok p prev q v \<and> path_ok v q qs vs)"

lemma path_ok_nth:
  "path_ok prev p qs vs \<longleftrightarrow> length vs = length qs \<and>
     (\<forall>i < length qs. split_ok (qs ! i) (vs ! i) \<and> channel_ok ((p # qs) ! i) ((prev # vs) ! i) (qs ! i) (vs ! i))"
proof (induction prev p qs vs rule: path_ok.induct)
  case (3 prev p q qs v vs)
  then show ?case by (auto simp: less_Suc_eq_0_disj all_conj_distrib imp_conjR)
qed auto

lemma draw_rest_cases:
  assumes "rng_ok rng"
  obtains (none) r' where "draw_rest rng prev p qs r = Inr (None, r')"
  | (some) vs r' where "draw_rest rng prev p qs r = Inr (Some vs, r')" "path_ok prev p qs vs"
proof -
  have "\<exists>res r'. draw_rest rng prev p qs r = Inr (res, r') \<and> (\<forall>vs. res = Some vs \<longrightarrow> path_ok prev p qs vs)"
  proof (induction qs arbitrary: prev p r)
    case (Cons q qs)
    show ?case
    proof (cases "fst (fundee_range prev p q) \<le> snd (fundee_range prev p q)")
      case True
      then obtain v r1 where v: "draw rng (fst (fundee_range prev p q)) (snd (fundee_range prev p q) + 1) r = Inr (v, r1)"
        "split_ok q v \<and> channel_ok p prev q v"
        using draw_within [OF assms] in_fundee_range by metis
      from Cons.IH [of v q r1] obtain res r2 where
        "draw_rest rng v q qs r1 = Inr (res, r2)" "\<forall>vs. res = Some vs \<longrightarrow> path_ok v q qs vs" by blast
      with v True show ?thesis by (auto simp: case_prod_beta)
    qed (auto simp: case_prod_beta)
  qed simp
  with that show thesis by (metis option.exhaust)
qed

lemma those_map_if:
  "those (map (\<lambda>x. if P x then Some (g x) else None) xs) = (if list_all P xs then Some (map g xs) else None)"
  by (induction xs) auto

lemma planned_edge_at_eq:
  assumes "length outs = length cycle" "i < length cycle"
    "\<And>j. j < length cycle \<Longrightarrow> 1 \<le> outs ! j \<and> 1 \<le> pa_residual (cycle ! j) - outs ! j"
  shows "planned_edge_at cycle (map2 planned_contribution_of cycle outs) i =
    (if channel_ok (cycle ! i) (outs ! i) (cycle ! (Suc i mod length cycle)) (outs ! (Suc i mod length cycle))
     then Some (edge_of cycle outs i) else None)"
proof -
  define j where "j = Suc i mod length cycle"
  have j: "j < length cycle" using assms(2) unfolding j_def by (intro mod_less_divisor) auto
  with assms(1,2) assms(3) [OF j] assms(3) [OF assms(2)] show ?thesis
    by (auto simp: planned_edge_at_def edge_of_def channel_ok_def planned_contribution_of_def Let_def j_def)
qed

lemma finish_candidate_eq:
  assumes "length outs = length cycle" "\<And>p. p \<in> set cycle \<Longrightarrow> party_valid p"
    "\<And>i. i < length cycle \<Longrightarrow> split_ok (cycle ! i) (outs ! i)"
  shows "finish_candidate cycle outs = (if feasible_ring cycle outs then Some (ring_of cycle outs) else None)"
proof -
  let ?P = "\<lambda>i. channel_ok (cycle ! i) (outs ! i) (cycle ! (Suc i mod length cycle)) (outs ! (Suc i mod length cycle))"
  have pos: "1 \<le> outs ! j \<and> 1 \<le> pa_residual (cycle ! j) - outs ! j" if "j < length cycle" for j
    using split_ok_positive [OF assms(2) assms(3)] that by simp
  have "map (planned_edge_at cycle (map2 planned_contribution_of cycle outs)) [0..<length cycle]
      = map (\<lambda>i. if ?P i then Some (edge_of cycle outs i) else None) [0..<length cycle]"
    using planned_edge_at_eq [OF assms(1) _ pos] by (intro map_cong) auto
  then have "finish_candidate cycle outs = (if list_all ?P [0..<length cycle] then Some (ring_of cycle outs) else None)"
    by (simp only: finish_candidate_def Let_def those_map_if ring_of_def) simp
  moreover have "list_all ?P [0..<length cycle] \<longleftrightarrow> feasible_ring cycle outs"
    using assms(1,3) by (auto simp: feasible_ring_def list_all_iff)
  ultimately show ?thesis by simp
qed

lemma all_cyclic:
  "(\<forall>i < Suc m. S i \<and> C i (Suc i mod Suc m)) \<longleftrightarrow> S 0 \<and> (\<forall>i < m. S (Suc i) \<and> C i (Suc i)) \<and> C m 0"
proof -
  have "(\<forall>i < Suc m. S i) \<longleftrightarrow> S 0 \<and> (\<forall>i < m. S (Suc i))" by (rule All_less_Suc2)
  moreover have "(\<forall>i < Suc m. C i (Suc i mod Suc m)) \<longleftrightarrow> C m 0 \<and> (\<forall>i < m. C i (Suc i))"
    by (simp add: All_less_Suc)
  ultimately show ?thesis by blast
qed

lemma feasible_ring_Cons:
  "feasible_ring (p # qs) (v # vs) \<longleftrightarrow> split_ok p v \<and> path_ok v p qs vs \<and>
     channel_ok ((p # qs) ! length qs) ((v # vs) ! length qs) p v"
  using all_cyclic [of "length qs" "\<lambda>i. split_ok ((p # qs) ! i) ((v # vs) ! i)"
    "\<lambda>i j. channel_ok ((p # qs) ! i) ((v # vs) ! i) ((p # qs) ! j) ((v # vs) ! j)"]
  unfolding feasible_ring_def path_ok_nth length_Cons nat.inject nth_Cons_0 nth_Cons_Suc by blast

section \<open>What the planner returns\<close>

definition above_floor :: "ring_party \<Rightarrow> bool" where
  "above_floor p \<longleftrightarrow> party_valid p \<and> party_floor p \<le> pa_residual p"

lemma split_ok_exists: "above_floor p \<Longrightarrow> fst (outgoing_bounds p) \<le> snd (outgoing_bounds p)"
  by (simp add: above_floor_def party_floor_def outgoing_bounds_def)

lemma finish_candidate_path:
  assumes "\<And>x. x \<in> set (p # qs) \<Longrightarrow> party_valid x" "split_ok p v" "path_ok v p qs vs"
  shows "finish_candidate (p # qs) (v # vs) =
    (if feasible_ring (p # qs) (v # vs) then Some (ring_of (p # qs) (v # vs)) else None)"
proof (rule finish_candidate_eq)
  show "length (v # vs) = length (p # qs)" using assms(3) by (simp add: path_ok_nth)
  show "split_ok ((p # qs) ! i) ((v # vs) ! i)" if "i < length (p # qs)" for i
    using that assms(2,3) by (cases i) (auto simp: path_ok_nth)
qed (use assms(1) in auto)

lemma build_candidate_feasible:
  assumes "rng_ok rng" "cycle \<noteq> []" "\<And>p. p \<in> set cycle \<Longrightarrow> above_floor p"
  shows "\<exists>res r'. build_candidate rng cycle r = Inr (res, r') \<and>
    (\<forall>plan. res = Some plan \<longrightarrow> (\<exists>outs. feasible_ring cycle outs \<and> plan = ring_of cycle outs))"
proof -
  obtain p qs where c: "cycle = p # qs" using assms(2) by (cases cycle) auto
  obtain v r1 where v: "draw rng (fst (outgoing_bounds p)) (snd (outgoing_bounds p) + 1) r = Inr (v, r1)" "split_ok p v"
    using draw_within [OF assms(1) split_ok_exists] assms(3) [of p] in_outgoing_bounds c by (metis list.set_intros(1))
  have valid: "party_valid x" if "x \<in> set (p # qs)" for x using assms(3) that c by (simp add: above_floor_def)
  show ?thesis
  proof (cases rule: draw_rest_cases [OF assms(1), of v p qs r1, case_names none some])
    case (none r2)
    with v c show ?thesis by (simp add: build_candidate_def case_prod_beta)
  next
    case (some vs r2)
    from finish_candidate_path [OF valid v(2) some(2)] v(1) some(1) c show ?thesis
      by (auto simp: build_candidate_def case_prod_beta)
  qed
qed

lemma rng_ok_shuffle: "rng_ok rng \<Longrightarrow> rg_shuffle rng parties r = (cycle, r1) \<Longrightarrow> mset cycle = mset parties"
  unfolding rng_ok_def by (metis fst_conv)

lemma plan_attempts_feasible:
  assumes "rng_ok rng" "parties \<noteq> []" "\<And>p. p \<in> set parties \<Longrightarrow> above_floor p"
  shows "\<exists>res r'. plan_attempts rng parties n r = Inr (res, r') \<and>
    (\<forall>plan. res = Some plan \<longrightarrow>
       (\<exists>cycle outs. mset cycle = mset parties \<and> feasible_ring cycle outs \<and> plan = ring_of cycle outs))"
proof (induction n arbitrary: r)
  case (Suc n)
  obtain cycle r1 where sh: "rg_shuffle rng parties r = (cycle, r1)" by (cases "rg_shuffle rng parties r")
  have m: "mset cycle = mset parties" using rng_ok_shuffle [OF assms(1) sh] .
  have "cycle \<noteq> []" "\<And>p. p \<in> set cycle \<Longrightarrow> above_floor p"
    using m assms(2,3) mset_eq_setD [OF m] by auto
  from build_candidate_feasible [OF assms(1) this, of r1]
  obtain res r2 where b: "build_candidate rng cycle r1 = Inr (res, r2)"
    "\<forall>plan. res = Some plan \<longrightarrow> (\<exists>outs. feasible_ring cycle outs \<and> plan = ring_of cycle outs)" by blast
  show ?case
  proof (cases res)
    case None
    with b sh Suc.IH [of r2] show ?thesis by simp
  next
    case (Some plan)
    with b sh m show ?thesis by auto
  qed
qed simp

lemma check_parties_Inr:
  "check_parties ps = Inr u \<longleftrightarrow> list_all (\<lambda>p. party_floor p \<le> pa_residual p \<and>
     cl_min_channel_capacity (pa_limits p) \<le> cl_max_channel_capacity (pa_limits p)) ps"
  by (induction ps) (auto simp: bind_res_Inr_iff)

lemma plan_cofunded_ring_Inr:
  assumes "rng_ok rng" "list_all party_valid parties"
    "plan_cofunded_ring rng parties taker_id taker_participates max_attempts r = Inr (plan, r')"
  obtains cycle outs where "mset cycle = mset parties" "feasible_ring cycle outs" "plan = ring_of cycle outs"
    "distinct (map pa_id parties)" "taker_id \<in> pa_id ` set parties \<longleftrightarrow> taker_participates" "parties \<noteq> []"
proof -
  from assms(3) have pre: "3 \<le> length parties" "distinct (map pa_id parties)"
      "count_list (map pa_id parties) taker_id = (if taker_participates then 1 else 0)"
      "check_parties parties = Inr ()"
    and att: "plan_attempts rng parties (nat max_attempts) r = Inr (Some plan, r')"
    by (auto simp: plan_cofunded_ring_def bind_res_Inr_iff sized_def MIN_RING_PARTICIPANTS_def
        simp del: raise_if.simps split: option.splits)
  have "above_floor p" if "p \<in> set parties" for p
    using that assms(2) pre(4) by (simp add: above_floor_def check_parties_Inr list_all_iff)
  moreover have ne: "parties \<noteq> []" using pre(1) by auto
  ultimately obtain cycle outs where "mset cycle = mset parties" "feasible_ring cycle outs" "plan = ring_of cycle outs"
    using plan_attempts_feasible [OF assms(1), of parties "nat max_attempts" r] att by auto
  moreover have "taker_id \<in> pa_id ` set parties \<longleftrightarrow> taker_participates"
    using pre(3) count_list_0_iff [of "map pa_id parties" taker_id] by (auto split: if_splits)
  ultimately show ?thesis using that pre(2) ne by blast
qed

lemma sum_rotated:
  fixes f :: "nat \<Rightarrow> int"
  assumes "0 < n"
  shows "sum_list (map (\<lambda>i. f (Suc i mod n)) [0..<n]) = sum_list (map f [0..<n])"
proof -
  obtain m where n: "n = Suc m" using assms by (cases n) auto
  have "map (\<lambda>i. f (Suc i mod n)) [0..<m] = map f [Suc 0..<n]"
    unfolding n map_Suc_upt [symmetric] map_map by (intro map_cong) auto
  then have "sum_list (map (\<lambda>i. f (Suc i mod n)) [0..<n]) = sum_list (map f [Suc 0..<n]) + f 0"
    using n by simp
  also have "\<dots> = sum_list (map f [0..<n])"
    using n by (simp add: upt_conv_Cons del: upt_Suc)
  finally show ?thesis .
qed

lemma capacities_sum:
  assumes "length outs = length cycle" "cycle \<noteq> []"
  shows "sum_list (map pe_capacity (cf_edges (ring_of cycle outs))) = sum_list (map pa_residual cycle)"
proof -
  define n where "n = length cycle"
  define push where "push = (\<lambda>i. pa_residual (cycle ! i) - outs ! i)"
  have "map pe_capacity (cf_edges (ring_of cycle outs)) = map (\<lambda>i. outs ! i + push (Suc i mod n)) [0..<n]"
    by (simp add: ring_of_def edge_of_def Let_def n_def push_def)
  moreover have "sum_list (map (\<lambda>i. outs ! i + push (Suc i mod n)) [0..<n])
      = sum_list (map (\<lambda>i. outs ! i + push i) [0..<n])"
    using assms(2) sum_rotated [of n push] by (simp add: sum_list_addf n_def)
  moreover have "map (\<lambda>i. outs ! i + push i) [0..<n] = map pa_residual cycle"
    by (rule nth_equalityI) (simp_all add: push_def n_def)
  ultimately show ?thesis by simp
qed

lemma ring_of_sound:
  assumes "feasible_ring cycle outs" "i < length cycle" "plan = ring_of cycle outs"
  shows "let j = Suc i mod length cycle; p = cycle ! i; q = cycle ! j;
         c = cf_contributions plan ! i; d = cf_contributions plan ! j; e = cf_edges plan ! i in
     pc_party_id c = pa_id p \<and> pc_outgoing c + pc_incoming c = pa_residual p \<and>
     minimum_outgoing (pa_limits p) \<le> pc_outgoing c \<and> minimum_incoming (pa_limits p) \<le> pc_incoming c \<and>
     pe_opener_id e = pa_id p \<and> pe_fundee_id e = pa_id q \<and>
     pe_opener_contribution e = pc_outgoing c \<and> pe_fundee_contribution e = pc_incoming d \<and>
     pe_push_amount e = pc_incoming d \<and> pe_capacity e = pc_outgoing c + pc_incoming d \<and>
     minimum_capacity p q \<le> pe_capacity e \<and> pe_capacity e \<le> maximum_capacity p q \<and>
     pe_push_amount e \<le> maximum_push p q"
proof -
  have j: "Suc i mod length cycle < length cycle" using assms(2) by (intro mod_less_divisor) auto
  have "length outs = length cycle" "split_ok (cycle ! i) (outs ! i)" "channel_ok (cycle ! i) (outs ! i)
      (cycle ! (Suc i mod length cycle)) (outs ! (Suc i mod length cycle))"
    using assms(1,2) by (auto simp: feasible_ring_def)
  with assms(2,3) j show ?thesis
    by (simp add: ring_of_def edge_of_def planned_contribution_of_def split_ok_def channel_ok_def Let_def)
qed

text \<open>C9: Whatever the random generator draws, a ring the planner returns has every party exactly once
  and the taker exactly when it takes part. Each party's residual is split without rest into an outgoing
  and an incoming part, both above the floors that the party's reserves, fees, margins and dust limit ask for.
  The channels form the cycle of the plan, each holds what its two endpoints put in, and respects
  the capacity and push limits of both; together they hold exactly the residuals.\<close>

theorem cofunded_ring_sound:
  assumes "rng_ok rng" "list_all party_valid parties"
    "plan_cofunded_ring rng parties taker_id taker_participates max_attempts r = Inr (plan, r')"
  shows "\<exists>cycle. mset cycle = mset parties \<and> distinct (cf_cycle plan) \<and> cf_cycle plan = map pa_id cycle \<and>
    (taker_id \<in> set (cf_cycle plan) \<longleftrightarrow> taker_participates) \<and>
    length (cf_contributions plan) = length parties \<and> length (cf_edges plan) = length parties \<and>
    (\<forall>i < length parties.
       let j = Suc i mod length parties; p = cycle ! i; q = cycle ! j;
           c = cf_contributions plan ! i; d = cf_contributions plan ! j; e = cf_edges plan ! i in
       pc_party_id c = pa_id p \<and> pc_outgoing c + pc_incoming c = pa_residual p \<and>
       minimum_outgoing (pa_limits p) \<le> pc_outgoing c \<and> minimum_incoming (pa_limits p) \<le> pc_incoming c \<and>
       pe_opener_id e = pa_id p \<and> pe_fundee_id e = pa_id q \<and>
       pe_opener_contribution e = pc_outgoing c \<and> pe_fundee_contribution e = pc_incoming d \<and>
       pe_push_amount e = pc_incoming d \<and> pe_capacity e = pc_outgoing c + pc_incoming d \<and>
       minimum_capacity p q \<le> pe_capacity e \<and> pe_capacity e \<le> maximum_capacity p q \<and>
       pe_push_amount e \<le> maximum_push p q) \<and>
    sum_list (map pe_capacity (cf_edges plan)) = sum_list (map pa_residual parties)"
proof -
  from plan_cofunded_ring_Inr [OF assms] obtain cycle outs where
    m: "mset cycle = mset parties" and f: "feasible_ring cycle outs" and p: "plan = ring_of cycle outs"
    and d: "distinct (map pa_id parties)" "taker_id \<in> pa_id ` set parties \<longleftrightarrow> taker_participates" "parties \<noteq> []"
    by blast
  have len: "length cycle = length parties" "length outs = length parties"
    using mset_eq_length [OF m] f by (auto simp: feasible_ring_def)
  have setc: "set cycle = set parties" using mset_eq_setD [OF m] .
  have "mset (map pa_id cycle) = mset (map pa_id parties)" using m by simp
  with d(1) have dist: "distinct (map pa_id cycle)" by (metis mset_eq_imp_distinct_iff)
  have "sum_list (map pa_residual cycle) = sum_list (map pa_residual parties)"
    using m by (simp flip: sum_mset_sum_list)
  moreover have "cycle \<noteq> []" using d(3) len by auto
  ultimately have caps: "sum_list (map pe_capacity (cf_edges plan)) = sum_list (map pa_residual parties)"
    using capacities_sum [of outs cycle] len p by simp
  have "let j = Suc i mod length cycle; p = cycle ! i; q = cycle ! j;
         c = cf_contributions plan ! i; d = cf_contributions plan ! j; e = cf_edges plan ! i in
     pc_party_id c = pa_id p \<and> pc_outgoing c + pc_incoming c = pa_residual p \<and>
     minimum_outgoing (pa_limits p) \<le> pc_outgoing c \<and> minimum_incoming (pa_limits p) \<le> pc_incoming c \<and>
     pe_opener_id e = pa_id p \<and> pe_fundee_id e = pa_id q \<and>
     pe_opener_contribution e = pc_outgoing c \<and> pe_fundee_contribution e = pc_incoming d \<and>
     pe_push_amount e = pc_incoming d \<and> pe_capacity e = pc_outgoing c + pc_incoming d \<and>
     minimum_capacity p q \<le> pe_capacity e \<and> pe_capacity e \<le> maximum_capacity p q \<and>
     pe_push_amount e \<le> maximum_push p q" if "i < length cycle" for i
    using ring_of_sound [OF f that p] .
  with m dist d(2) setc caps len p show ?thesis
    by (intro exI [of _ cycle]) (auto simp: ring_of_def)
qed

text \<open>A generator that deals a given cycle and then the numbers of its state, as long as they are in range.\<close>

definition scripted :: "ring_party list \<Rightarrow> int list ring_random" where
  "scripted cycle =
     \<lparr>rg_shuffle = (\<lambda>ps r. (if mset ps = mset cycle then cycle else ps, r)),
      rg_randrange = (\<lambda>lo hi r. case r of [] \<Rightarrow> (lo, []) | v # vs \<Rightarrow> (if lo \<le> v \<and> v < hi then v else lo, vs))\<rparr>"

lemma scripted_ok: "rng_ok (scripted cycle)"
  by (auto simp: rng_ok_def scripted_def split: list.splits)

lemma draw_scripted: "lo \<le> v \<Longrightarrow> v \<le> hi \<Longrightarrow> draw (scripted cycle) lo (hi + 1) (v # vs) = Inr (v, vs)"
  by (simp add: draw_def scripted_def)

lemma draw_rest_scripted:
  "path_ok prev p qs vs \<Longrightarrow> draw_rest (scripted cycle) prev p qs vs = Inr (Some vs, [])"
proof (induction prev p qs vs rule: path_ok.induct)
  case (3 prev p q qs v vs)
  then have r: "fst (fundee_range prev p q) \<le> v" "v \<le> snd (fundee_range prev p q)"
    using in_fundee_range [of prev p q v] by auto
  with 3 draw_scripted [OF r] show ?case by (simp add: case_prod_beta)
qed auto

lemma build_candidate_scripted:
  assumes "feasible_ring cycle outs" "cycle \<noteq> []" "\<And>p. p \<in> set cycle \<Longrightarrow> party_valid p"
  shows "build_candidate (scripted c) cycle outs = Inr (Some (ring_of cycle outs), [])"
proof -
  obtain p qs where c: "cycle = p # qs" using assms(2) by (cases cycle) auto
  with assms(1) obtain v vs where o: "outs = v # vs" by (cases outs) (auto simp: feasible_ring_def)
  have f: "split_ok p v" "path_ok v p qs vs" using assms(1) by (auto simp: c o feasible_ring_Cons)
  then have "fst (outgoing_bounds p) \<le> v" "v \<le> snd (outgoing_bounds p)"
    using in_outgoing_bounds [of p v] by auto
  then have "draw (scripted c) (fst (outgoing_bounds p)) (snd (outgoing_bounds p) + 1) (v # vs) = Inr (v, vs)"
    by (rule draw_scripted)
  moreover have "finish_candidate (p # qs) (v # vs) = Some (ring_of (p # qs) (v # vs))"
    using finish_candidate_path [OF _ f] assms by (simp add: c o)
  ultimately show ?thesis
    using draw_rest_scripted [OF f(2), of c] by (simp add: build_candidate_def c o case_prod_beta)
qed

lemma count_list_distinct: "distinct xs \<Longrightarrow> count_list xs x = (if x \<in> set xs then 1 else 0)"
  by (induction xs) auto

text \<open>C29: No feasible ring is out of reach. Given parties the planner accepts, any order of them and any
  split of the residuals that respects all floors and limits is what the planner returns for some random
  generator: the ranges it draws from, narrowed by the contributions drawn before, cut off nothing.\<close>

theorem cofunded_ring_complete:
  assumes "list_all party_valid parties" "3 \<le> length parties" "length parties \<le> 32"
    "distinct (map pa_id parties)" "taker_id \<in> pa_id ` set parties \<longleftrightarrow> taker_participates"
    "sum_list (map pa_residual parties) \<le> MAX_MONEY" "1 \<le> max_attempts" "max_attempts \<le> 1000000"
    "mset cycle = mset parties" "feasible_ring cycle outs"
  shows "\<exists>rng :: int list ring_random. \<exists>r r'. rng_ok rng \<and>
    plan_cofunded_ring rng parties taker_id taker_participates max_attempts r = Inr (ring_of cycle outs, r')"
proof -
  have setc: "set cycle = set parties" using mset_eq_setD [OF assms(9)] .
  have valid: "party_valid p" if "p \<in> set cycle" for p using that setc assms(1) by (simp add: list_all_iff)
  have ne: "cycle \<noteq> []" using assms(2) mset_eq_length [OF assms(9)] by auto
  obtain n where n: "nat max_attempts = Suc n" using assms(7) by (cases "nat max_attempts") auto
  have "plan_attempts (scripted cycle) parties (nat max_attempts) outs = Inr (Some (ring_of cycle outs), [])"
    using build_candidate_scripted [OF assms(10) ne valid, of cycle] assms(9) by (simp add: n scripted_def)
  moreover have "check_parties parties = Inr ()"
  proof -
    have "split_ok (cycle ! i) (outs ! i)" if "i < length cycle" for i using assms(10) that by (simp add: feasible_ring_def)
    then have "party_floor p \<le> pa_residual p" if "p \<in> set parties" for p
      using that unfolding setc [symmetric] by (fastforce simp: in_set_conv_nth split_ok_def party_floor_def)
    moreover have "cl_min_channel_capacity (pa_limits p) \<le> cl_max_channel_capacity (pa_limits p)"
      if "p \<in> set parties" for p
      using that assms(1) by (auto simp: list_all_iff party_valid_def limits_post_init_def simp del: raise_if.simps)
    ultimately show ?thesis by (simp add: check_parties_Inr list_all_iff)
  qed
  moreover have "count_list (map pa_id parties) taker_id = (if taker_participates then 1 else 0)"
    using assms(4,5) by (auto simp: count_list_distinct image_iff)
  ultimately have "plan_cofunded_ring (scripted cycle) parties taker_id taker_participates max_attempts outs
      = Inr (ring_of cycle outs, [])"
    using assms by (simp add: plan_cofunded_ring_def sized_def MIN_RING_PARTICIPANTS_def MAX_RING_PARTICIPANTS_def)
  with scripted_ok show ?thesis by blast
qed

section \<open>An example\<close>

definition ex_limits :: channel_limits where
  "ex_limits = \<lparr>cl_min_channel_capacity = 1000, cl_max_channel_capacity = 100000, cl_max_push_amount = 20000,
     cl_dust_limit = 100, cl_outgoing_reserve = 100, cl_incoming_reserve = 100, cl_commitment_fee = 50,
     cl_channel_overhead = 66, cl_spendable_margin = 10\<rparr>"

definition ex_party :: "string \<Rightarrow> int \<Rightarrow> ring_party" where
  "ex_party n residual = \<lparr>pa_id = n, pa_residual = residual, pa_limits = ex_limits\<rparr>"

definition ex_parties :: "ring_party list" where
  "ex_parties = [ex_party ''taker'' 5000, ex_party ''m1'' 6000, ex_party ''m2'' 7000]"

definition ex_cycle :: "ring_party list" where
  "ex_cycle = [ex_party ''m1'' 6000, ex_party ''taker'' 5000, ex_party ''m2'' 7000]"

lemma ex_cycle_mset: "mset ex_cycle = mset ex_parties"
  by (simp add: ex_cycle_def ex_parties_def)

lemma ex_parties_valid: "list_all party_valid ex_parties"
  by (simp add: ex_parties_def ex_party_def party_valid_def limits_post_init_def party_post_init_def ex_limits_def
      money_def MAX_MONEY_def)

lemma ex_feasible: "feasible_ring ex_cycle [2000, 3000, 4000]"
  unfolding ex_cycle_def feasible_ring_Cons by code_simp

lemma ex_plan: "plan_cofunded_ring (scripted ex_cycle) ex_parties ''taker'' True 2 [2000, 3000, 4000]
    = Inr (ring_of ex_cycle [2000, 3000, 4000], [])"
proof -
  have "plan_attempts (scripted ex_cycle) ex_parties 2 [2000, 3000, 4000] = Inr (Some (ring_of ex_cycle [2000, 3000, 4000]), [])"
  proof -
    have "\<And>p. p \<in> set ex_cycle \<Longrightarrow> party_valid p"
      using ex_parties_valid mset_eq_setD [OF ex_cycle_mset] by (simp add: list_all_iff)
    from build_candidate_scripted [OF ex_feasible _ this, of ex_cycle] ex_cycle_mset
    show ?thesis by (simp add: numeral_2_eq_2 scripted_def) (simp add: ex_cycle_def)
  qed
  moreover have "check_parties ex_parties = Inr ()"
    by (simp add: check_parties_Inr ex_parties_def ex_party_def ex_limits_def party_floor_def
        minimum_outgoing_def minimum_incoming_def)
  ultimately show ?thesis
    by (simp add: plan_cofunded_ring_def sized_def MIN_RING_PARTICIPANTS_def MAX_RING_PARTICIPANTS_def MAX_MONEY_def)
      (simp add: ex_parties_def ex_party_def)
qed

theorem cofunded_ring_sound_witness:
  "sum_list (map pe_capacity (cf_edges (ring_of ex_cycle [2000, 3000, 4000]))) = 18000"
  using cofunded_ring_sound [OF scripted_ok ex_parties_valid ex_plan] by (auto simp: ex_parties_def ex_party_def)

theorem cofunded_ring_complete_witness:
  "\<exists>rng :: int list ring_random. \<exists>r r'. rng_ok rng \<and>
     plan_cofunded_ring rng ex_parties ''taker'' True 1 r = Inr (ring_of ex_cycle [2000, 3000, 4000], r')"
  by (rule cofunded_ring_complete [OF ex_parties_valid _ _ _ _ _ _ _ ex_cycle_mset ex_feasible])
    (simp_all add: ex_parties_def ex_party_def MAX_MONEY_def)

end
