(* ===== verification/Ring_Models.thy ===== *)
theory Ring_Models
  imports Ring_Planner
begin

text \<open>
  The objects of the channel-ring protocol, \<open>jmcore/cofunded_ring.py\<close>: every pydantic model is a record
  and a \<open>validate_\<close> function with the bounds of its field_checks and its \<open>model_validator\<close>; the models it
  contains are validated before it. Members with a single literal value are left out of the records.

  The curve, hash and signature libraries are the record \<open>ring_lib\<close>.
\<close>

section \<open>Libraries and field checks\<close>

record ring_lib =
  rl_fullyvalid :: "bytes \<Rightarrow> bool"
  rl_sha256 :: "bytes \<Rightarrow> bytes"
  rl_verify_schnorr :: "bytes \<Rightarrow> bytes \<Rightarrow> bytes \<Rightarrow> bool"
  rl_xonly_pub :: "bytes \<Rightarrow> bytes option"
  rl_sign_schnorr :: "bytes \<Rightarrow> bytes \<Rightarrow> bytes \<Rightarrow> bytes"

definition field_checks :: "bool list \<Rightarrow> unit res" where
  "field_checks bs = guard_res (list_all (\<lambda>b. b) bs) (ValueError ''field constraint'')"

lemma field_checks_Inr [simp]: "field_checks bs = Inr u \<longleftrightarrow> list_all (\<lambda>b. b) bs"
  by (simp add: field_checks_def)

definition between :: "int \<Rightarrow> int \<Rightarrow> int \<Rightarrow> bool" where
  "between lo hi n \<longleftrightarrow> lo \<le> n \<and> n \<le> hi"

abbreviation amount0 :: "int \<Rightarrow> bool" where
  "amount0 \<equiv> between 0 MAX_MONEY"

definition MAX_REVISION :: int where
  "MAX_REVISION = 2147483647"

definition validate_hex :: "nat \<Rightarrow> string \<Rightarrow> unit res" where
  "validate_hex byte_length value =
     (if length value \<noteq> byte_length * 2 \<or> ascii_lower value \<noteq> value
      then Inl (ValueError ''must be lowercase hex'')
      else case fromhex value of Inl _ \<Rightarrow> Inl (ValueError ''must be valid lowercase hex'') | Inr _ \<Rightarrow> Inr ())"

definition validate_xonly_key :: "ring_lib \<Rightarrow> string \<Rightarrow> unit res" where
  "validate_xonly_key lib value =
     bind_res (validate_hex 32 value) (\<lambda>_.
     bind_res (fromhex value) (\<lambda>raw.
       guard_res (rl_fullyvalid lib (0x02 # raw)) (ValueError ''is not a valid BIP340 public key'')))"

definition validate_node_id :: "ring_lib \<Rightarrow> string \<Rightarrow> unit res" where
  "validate_node_id lib value =
     bind_res (validate_hex 33 value) (\<lambda>_.
     bind_res (fromhex value) (\<lambda>raw.
       case raw of
         [] \<Rightarrow> Inl IndexError
       | b # _ \<Rightarrow>
           if b \<noteq> 2 \<and> b \<noteq> 3 then Inl (ValueError ''node_id must be a compressed secp256k1 public key'')
           else guard_res (rl_fullyvalid lib raw) (ValueError ''node_id is not a valid secp256k1 public key'')))"

definition validate_script :: "string \<Rightarrow> unit res" where
  "validate_script value =
     (if value = [] \<or> length value > 10000 \<or> odd (length value)
      then Inl (ValueError ''script_pubkey must be non-empty even-length hex'')
      else if ascii_lower value \<noteq> value then Inl (ValueError ''script_pubkey must be lowercase hex'')
      else case fromhex value of Inl _ \<Rightarrow> Inl (ValueError ''script_pubkey must be valid hex'') | Inr _ \<Rightarrow> Inr ())"

definition validate_p2tr_script :: "string \<Rightarrow> unit res" where
  "validate_p2tr_script value =
     bind_res (validate_script value) (\<lambda>_.
       guard_res (length value = 68 \<and> starts_with value ''5120'') (ValueError ''must be a P2TR script_pubkey''))"

lemma bytes_hex_lower: "ascii_lower (bytes_hex bs) = bytes_hex bs"
proof (rule ascii_lower_id)
  fix c assume "c \<in> set (bytes_hex bs)"
  then obtain b :: byte where "c = hex_digit (unat b div 16) \<or> c = hex_digit (unat b mod 16)"
    by (auto simp: bytes_hex_def hex_of_byte_def)
  moreover have "unat b div 16 < 16" using byte_less_256 [of b] by (simp add: less_mult_imp_div_less)
  ultimately obtain n where "n < 16" "c = hex_digit n" by (metis mod_less_divisor zero_less_numeral)
  then show "\<not> (65 \<le> (of_char c :: nat) \<and> (of_char c :: nat) \<le> 90)" by (auto simp: hex_digit_def)
qed

lemma length_bytes_hex: "length (bytes_hex bs) = 2 * length bs"
  by (induction bs) (simp_all add: bytes_hex_def hex_of_byte_def)

lemma validate_hex_bytes: "length bs = n \<Longrightarrow> validate_hex n (bytes_hex bs) = Inr ()"
  by (simp add: validate_hex_def bytes_hex_lower length_bytes_hex)

text \<open>\<open>bytes.fromhex\<close> skips ASCII whitespace, so the length of the text does not bound the number of bytes from below:
  blank text passes as hexadecimal of any length, and as a node id it raises an \<open>IndexError\<close>.\<close>

lemma fromhex_blank: "fromhex (replicate n (CHR '' '')) = Inr []"
  by (induction n) (simp_all add: py_space_def)

lemma validate_hex_blank: "validate_hex n (replicate (n * 2) (CHR '' '')) = Inr ()"
  by (simp add: validate_hex_def fromhex_blank ascii_lower_def)

lemma validate_node_id_blank: "validate_node_id lib (replicate 66 (CHR '' '')) = Inl IndexError"
  using validate_hex_blank [of 33] by (simp add: validate_node_id_def fromhex_blank)

definition all_unique :: "'a list \<Rightarrow> string \<Rightarrow> unit res" where
  "all_unique values name = guard_res (distinct values) (ValueError (''duplicate '' @ name))"

lemma all_unique_Inr [simp]: "all_unique xs name = Inr u \<longleftrightarrow> distinct xs"
  by (simp add: all_unique_def)

section \<open>Policies and participants\<close>

record channel_policy =
  cp_fundee_csv_delay :: int
  cp_fundee_reserve :: int
  cp_min_depth :: int
  cp_opener_csv_delay :: int
  cp_opener_reserve :: int

definition validate_channel_policy :: "channel_policy \<Rightarrow> unit res" where
  "validate_channel_policy p = field_checks
     [between 1 2016 (cp_fundee_csv_delay p), amount0 (cp_fundee_reserve p), between 1 144 (cp_min_depth p),
      between 1 2016 (cp_opener_csv_delay p), amount0 (cp_opener_reserve p)]"

record policy_bounds =
  pb_min_csv_delay :: int
  pb_max_csv_delay :: int
  pb_min_depth :: int
  pb_max_depth :: int
  pb_min_reserve :: int
  pb_max_reserve :: int

definition validate_policy_bounds :: "policy_bounds \<Rightarrow> unit res" where
  "validate_policy_bounds b = all_res
     [field_checks [between 1 2016 (pb_min_csv_delay b), between 1 2016 (pb_max_csv_delay b),
        between 1 144 (pb_min_depth b), between 1 144 (pb_max_depth b),
        amount0 (pb_min_reserve b), amount0 (pb_max_reserve b)],
      raise_if
       [(pb_min_csv_delay b > pb_max_csv_delay b, ''CSV delay bounds do not intersect''),
        (pb_min_depth b > pb_max_depth b, ''confirmation depth bounds do not intersect''),
        (pb_min_reserve b > pb_max_reserve b, ''reserve bounds do not intersect'')]]"

definition accepts :: "policy_bounds \<Rightarrow> channel_policy \<Rightarrow> bool" where
  "accepts b p =
     (between (pb_min_csv_delay b) (pb_max_csv_delay b) (cp_opener_csv_delay p) \<and>
      between (pb_min_csv_delay b) (pb_max_csv_delay b) (cp_fundee_csv_delay p) \<and>
      between (pb_min_depth b) (pb_max_depth b) (cp_min_depth p) \<and>
      between (pb_min_reserve b) (pb_max_reserve b) (cp_opener_reserve p) \<and>
      between (pb_min_reserve b) (pb_max_reserve b) (cp_fundee_reserve p))"

datatype tr0_offer_type = TR0_ABS | TR0_REL

record backend_limits =
  bl_network :: network_type
  bl_offer_type :: tr0_offer_type
  bl_min_channel_capacity :: int
  bl_max_channel_capacity :: int
  bl_max_push_amount :: int
  bl_dust_limit :: int
  bl_max_reserve :: int
  bl_max_commitment_fee :: int
  bl_max_pending_channels :: int

definition validate_backend_limits :: "backend_limits \<Rightarrow> unit res" where
  "validate_backend_limits b = all_res
     [field_checks [money (bl_min_channel_capacity b), money (bl_max_channel_capacity b), money (bl_max_push_amount b),
        amount0 (bl_dust_limit b), amount0 (bl_max_reserve b), amount0 (bl_max_commitment_fee b),
        between 1 64 (bl_max_pending_channels b)],
      raise_if
       [(bl_min_channel_capacity b > bl_max_channel_capacity b, ''backend channel capacity bounds do not intersect''),
        (bl_max_push_amount b > bl_max_channel_capacity b, ''max_push_amount exceeds max_channel_capacity'')]]"

record private_participant =
  pp_participant_key :: string
  pp_node_id :: string
  pp_onion_endpoint :: string
  pp_backend_limits :: backend_limits

text \<open>\<open>endpoint.rpartition(":")\<close>: the text before and after the last colon, if there is one.\<close>

definition rpartition_colon :: "string \<Rightarrow> (string \<times> string) option" where
  "rpartition_colon s =
     (if CHR '':'' \<in> set s
      then Some (rev (tl (dropWhile (\<lambda>c. c \<noteq> CHR '':'') (rev s))), rev (takeWhile (\<lambda>c. c \<noteq> CHR '':'') (rev s)))
      else None)"

definition base32_lower :: "char \<Rightarrow> bool" where
  "base32_lower c \<longleftrightarrow> c \<in> set ''abcdefghijklmnopqrstuvwxyz234567''"

definition onion_endpoint_ok :: "string \<Rightarrow> bool" where
  "onion_endpoint_ok endpoint =
     (list_all (\<lambda>c. of_char c < (128 :: nat)) endpoint \<and>
      (case rpartition_colon endpoint of
         None \<Rightarrow> False
       | Some (host, port_text) \<Rightarrow>
           drop (length host - 6) host = ''.onion'' \<and> length host = 62 \<and>
           list_all base32_lower (take 56 host) \<and>
           port_text \<noteq> [] \<and> list_all is_digit port_text \<and>
           between 1 65535 (int (digits_nat 0 port_text))))"

definition validate_participant :: "ring_lib \<Rightarrow> private_participant \<Rightarrow> unit res" where
  "validate_participant lib p = all_res
     [field_checks [sized 1 320 (pp_onion_endpoint p)],
      validate_backend_limits (pp_backend_limits p),
      validate_xonly_key lib (pp_participant_key p),
      validate_node_id lib (pp_node_id p),
      raise_if [(\<not> onion_endpoint_ok (pp_onion_endpoint p), ''onion_endpoint must be a v3 onion host and valid port'')]]"

record local_contribution =
  lc_participant_key :: string
  lc_residual :: int
  lc_outgoing :: int
  lc_incoming :: int

definition validate_contribution :: "ring_lib \<Rightarrow> local_contribution \<Rightarrow> unit res" where
  "validate_contribution lib c = all_res
     [field_checks [money (lc_residual c), money (lc_outgoing c), money (lc_incoming c)],
      validate_xonly_key lib (lc_participant_key c),
      raise_if [(lc_outgoing c + lc_incoming c \<noteq> lc_residual c,
        ''outgoing and incoming contributions must equal residual'')]]"

section \<open>The manifest\<close>

record ring_edge =
  re_opener_key :: string
  re_acceptor_key :: string
  re_pending_channel_id :: string
  re_capacity :: int
  re_output_index :: int
  re_script_pubkey :: string
  re_policy :: channel_policy

definition validate_edge :: "ring_lib \<Rightarrow> ring_edge \<Rightarrow> unit res" where
  "validate_edge lib e = all_res
     [field_checks [money (re_capacity e), between 0 65535 (re_output_index e)],
      validate_channel_policy (re_policy e),
      validate_hex 32 (re_pending_channel_id e),
      validate_xonly_key lib (re_opener_key e),
      validate_xonly_key lib (re_acceptor_key e),
      validate_p2tr_script (re_script_pubkey e),
      raise_if [(re_opener_key e = re_acceptor_key e, ''an edge must have two distinct endpoints'')]]"

record manifest_output =
  mo_index :: int
  mo_amount :: int
  mo_script_pubkey :: string

definition validate_manifest_output :: "manifest_output \<Rightarrow> unit res" where
  "validate_manifest_output u = all_res
     [field_checks [between 0 65535 (mo_index u), money (mo_amount u)], validate_script (mo_script_pubkey u)]"

record ring_manifest =
  rm_network :: network_type
  rm_round_nonce :: string
  rm_revision :: int
  rm_unsigned_tx_hash :: string
  rm_unsigned_txid :: string
  rm_participant_keys :: "string list"
  rm_edges :: "ring_edge list"
  rm_equal_output_indices :: "int list"
  rm_outputs :: "manifest_output list"

text \<open>\<open>output_by_index\<close>, and the indices that are neither equal nor channel outputs.\<close>

definition output_at :: "ring_manifest \<Rightarrow> int \<Rightarrow> manifest_output option" where
  "output_at m i = dict_get (dict_of (map (\<lambda>u. (mo_index u, u)) (rm_outputs m)) []) i"

definition ordinary_indices :: "ring_manifest \<Rightarrow> int list" where
  "ordinary_indices m = filter (\<lambda>i. i \<notin> set (rm_equal_output_indices m) \<and> i \<notin> set (map re_output_index (rm_edges m)))
     (map mo_index (rm_outputs m))"

definition cycle_edges_ok :: "string list \<Rightarrow> ring_edge list \<Rightarrow> bool" where
  "cycle_edges_ok keys edges =
     list_all (\<lambda>(i, e). re_opener_key e = keys ! i \<and> re_acceptor_key e = keys ! ((i + 1) mod length keys))
       (enumerate 0 edges)"

definition output_p2tr :: "ring_manifest \<Rightarrow> int \<Rightarrow> unit res" where
  "output_p2tr m i =
     (case output_at m i of None \<Rightarrow> Inl KeyError | Some u \<Rightarrow> validate_p2tr_script (mo_script_pubkey u))"

definition edge_matches_output :: "ring_manifest \<Rightarrow> ring_edge \<Rightarrow> bool" where
  "edge_matches_output m e =
     (case output_at m (re_output_index e) of
        None \<Rightarrow> False
      | Some u \<Rightarrow> mo_amount u = re_capacity e \<and> mo_script_pubkey u = re_script_pubkey e)"

definition validate_manifest :: "ring_lib \<Rightarrow> ring_manifest \<Rightarrow> unit res" where
  "validate_manifest lib m =
     (let keys = rm_participant_keys m; edges = rm_edges m; equal = rm_equal_output_indices m;
          outputs = rm_outputs m; output_indices = map mo_index outputs; channel = map re_output_index edges in
      all_res
       [field_checks [between 0 MAX_REVISION (rm_revision m),
          sized MIN_RING_PARTICIPANTS MAX_RING_PARTICIPANTS keys, sized MIN_RING_PARTICIPANTS MAX_RING_PARTICIPANTS edges,
          sized MIN_RING_PARTICIPANTS 64 equal, sized (2 * MIN_RING_PARTICIPANTS) 128 outputs],
        all_res (map (validate_edge lib) edges),
        all_res (map validate_manifest_output outputs),
        validate_hex 32 (rm_round_nonce m),
        validate_hex 32 (rm_unsigned_tx_hash m),
        validate_hex 32 (rm_unsigned_txid m),
        raise_if
         [(length edges \<noteq> length keys, ''manifest participant and edge counts differ''),
          (\<not> (length keys \<le> length equal \<and> length equal \<le> 64), ''equal output count must be between the ring size and 64''),
          (length outputs \<noteq> 2 * length equal, ''manifest must contain exactly twice as many outputs as equal outputs'')],
        all_res (map (validate_xonly_key lib) keys),
        all_unique keys ''participant key'',
        all_unique (map re_pending_channel_id edges) ''pending_channel_id'',
        all_unique (map re_script_pubkey edges) ''channel script_pubkey'',
        all_unique channel ''channel output_index'',
        all_unique equal ''equal output_index'',
        raise_if [(\<not> cycle_edges_ok keys edges, ''edges do not form the declared directed cycle'')],
        all_unique output_indices ''manifest output index'',
        all_unique (map mo_script_pubkey outputs) ''manifest output script_pubkey'',
        raise_if
         [(sort output_indices \<noteq> map int [0..<length outputs], ''manifest outputs must cover every transaction output in order''),
          (list_ex (\<lambda>i. i \<in> set channel) equal, ''equal and channel output indices overlap''),
          (\<not> list_all (\<lambda>i. i \<in> set output_indices) (equal @ channel), ''manifest output classification index is absent from outputs''),
          (length (ordinary_indices m) \<noteq> length equal - length keys, ''manifest ordinary output count does not match the mixed round shape'')],
        all_res (map (output_p2tr m) equal),
        raise_if [(length (remdups (map (map_option mo_amount \<circ> output_at m) equal)) \<noteq> 1, ''equal output amounts must be identical'')],
        all_res (map (output_p2tr m) (ordinary_indices m)),
        raise_if
         [(\<not> list_all (edge_matches_output m) edges, ''channel edge does not match its transaction output''),
          (sum_list (map mo_amount outputs) > MAX_MONEY, ''manifest output sum exceeds MAX_MONEY'')]])"

section \<open>Channel states and readiness\<close>

record pending_state =
  ps_pending_channel_id :: string
  ps_opener_key :: string
  ps_acceptor_key :: string
  ps_script_pubkey :: string
  ps_capacity :: int
  ps_opener_balance :: int
  ps_fundee_balance :: int
  ps_push_amount :: int
  ps_opener_reserve :: int
  ps_fundee_reserve :: int
  ps_commitment_fee :: int
  ps_commitment_overhead :: int
  ps_policy :: channel_policy

definition validate_pending_state :: "ring_lib \<Rightarrow> 'a pending_state_scheme \<Rightarrow> unit res" where
  "validate_pending_state lib s = all_res
     [field_checks [money (ps_capacity s), money (ps_opener_balance s), money (ps_fundee_balance s),
        money (ps_push_amount s), amount0 (ps_opener_reserve s), amount0 (ps_fundee_reserve s),
        amount0 (ps_commitment_fee s), amount0 (ps_commitment_overhead s)],
      validate_channel_policy (ps_policy s),
      validate_hex 32 (ps_pending_channel_id s),
      validate_xonly_key lib (ps_opener_key s),
      validate_xonly_key lib (ps_acceptor_key s),
      validate_p2tr_script (ps_script_pubkey s),
      raise_if
       [(ps_opener_balance s + ps_fundee_balance s + ps_commitment_fee s + ps_commitment_overhead s \<noteq> ps_capacity s,
           ''endpoint balances, commitment fee, and commitment overhead do not equal channel capacity''),
        (ps_push_amount s \<noteq> ps_fundee_balance s, ''push_amount must equal the fundee contribution''),
        (ps_opener_reserve s \<noteq> cp_opener_reserve (ps_policy s), ''opener reserve does not match channel policy''),
        (ps_fundee_reserve s \<noteq> cp_fundee_reserve (ps_policy s), ''fundee reserve does not match channel policy'')]]"

datatype endpoint_role = OPENER | FUNDEE

record readiness_state = pending_state +
  rs_role :: endpoint_role
  rs_signer_key :: string
  rs_round_nonce :: string
  rs_revision :: int
  rs_manifest_hash :: string
  rs_unsigned_tx_hash :: string
  rs_unsigned_txid :: string
  rs_output_index :: int
  rs_state_salt :: string

definition validate_readiness :: "ring_lib \<Rightarrow> readiness_state \<Rightarrow> unit res" where
  "validate_readiness lib s = all_res
     [field_checks [between 0 MAX_REVISION (rs_revision s), between 0 65535 (rs_output_index s)],
      validate_pending_state lib s,
      validate_xonly_key lib (rs_signer_key s),
      validate_hex 32 (rs_round_nonce s),
      validate_hex 32 (rs_manifest_hash s),
      validate_hex 32 (rs_unsigned_tx_hash s),
      validate_hex 32 (rs_unsigned_txid s),
      validate_hex 32 (rs_state_salt s),
      raise_if [(rs_signer_key s \<noteq> (if rs_role s = OPENER then ps_opener_key s else ps_acceptor_key s),
        ''readiness signer does not match its endpoint role'')]]"

record attestation =
  at_edge :: string
  at_manifest_hash :: string
  at_revision :: int
  at_role :: endpoint_role
  at_round_nonce :: string
  at_signer_key :: string
  at_state_hash :: string

definition validate_attestation :: "ring_lib \<Rightarrow> attestation \<Rightarrow> unit res" where
  "validate_attestation lib a = all_res
     [field_checks [between 0 MAX_REVISION (at_revision a)],
      validate_hex 32 (at_edge a), validate_hex 32 (at_manifest_hash a), validate_hex 32 (at_round_nonce a),
      validate_xonly_key lib (at_signer_key a), validate_hex 32 (at_state_hash a)]"

record signed_attestation =
  sa_attestation :: attestation
  sa_signature :: string

definition validate_signed_attestation :: "ring_lib \<Rightarrow> signed_attestation \<Rightarrow> unit res" where
  "validate_signed_attestation lib s = all_res
     [validate_attestation lib (sa_attestation s), validate_hex 64 (sa_signature s)]"

section \<open>What a manifest commits to\<close>

lemma list_all_map: "list_all P (map f xs) \<longleftrightarrow> (\<forall>x \<in> set xs. P (f x))"
  by (simp add: list_all_iff)

lemma manifest_checks:
  assumes "validate_manifest lib m = Inr ()"
  shows "sized 3 32 (rm_participant_keys m)" "length (rm_edges m) = length (rm_participant_keys m)"
    "distinct (rm_participant_keys m)" "cycle_edges_ok (rm_participant_keys m) (rm_edges m)"
    "distinct (map re_output_index (rm_edges m))" "distinct (rm_equal_output_indices m)"
    "distinct (map mo_index (rm_outputs m))"
    "sort (map mo_index (rm_outputs m)) = map int [0..<length (rm_outputs m)]"
    "length (rm_outputs m) = 2 * length (rm_equal_output_indices m)"
    "length (rm_participant_keys m) \<le> length (rm_equal_output_indices m)"
    "set (rm_equal_output_indices m) \<inter> set (map re_output_index (rm_edges m)) = {}"
    "set (rm_equal_output_indices m) \<subseteq> set (map mo_index (rm_outputs m))"
    "set (map re_output_index (rm_edges m)) \<subseteq> set (map mo_index (rm_outputs m))"
    "length (ordinary_indices m) = length (rm_equal_output_indices m) - length (rm_participant_keys m)"
    "\<forall>i \<in> set (rm_equal_output_indices m) \<union> set (ordinary_indices m). output_p2tr m i = Inr ()"
    "length (remdups (map (map_option mo_amount \<circ> output_at m) (rm_equal_output_indices m))) = 1"
    "\<forall>e \<in> set (rm_edges m). edge_matches_output m e"
    "sum_list (map mo_amount (rm_outputs m)) \<le> MAX_MONEY"
    "\<forall>e \<in> set (rm_edges m). validate_edge lib e = Inr ()"
    "\<forall>u \<in> set (rm_outputs m). validate_manifest_output u = Inr ()"
  using assms
  unfolding validate_manifest_def Let_def all_res_Inr list.pred_inject list_all_map raise_if_Inr field_checks_Inr
    all_unique_Inr
  by (auto simp: MIN_RING_PARTICIPANTS_def MAX_RING_PARTICIPANTS_def list_ex_iff list_all_iff)

lemma output_at_eq: "distinct (map mo_index (rm_outputs m)) \<Longrightarrow>
    output_at m i = Some u \<longleftrightarrow> u \<in> set (rm_outputs m) \<and> mo_index u = i"
proof -
  assume d: "distinct (map mo_index (rm_outputs m))"
  then have "distinct (map fst (map (\<lambda>u. (mo_index u, u)) (rm_outputs m)))" by (simp add: comp_def)
  then have eq: "dict_of (map (\<lambda>u. (mo_index u, u)) (rm_outputs m)) [] = map (\<lambda>u. (mo_index u, u)) (rm_outputs m)"
    and "\<And>x y. map_of (map (\<lambda>u. (mo_index u, u)) (rm_outputs m)) x = Some y \<longleftrightarrow>
      (x, y) \<in> set (map (\<lambda>u. (mo_index u, u)) (rm_outputs m))"
    by (auto simp: dict_of_distinct)
  then show ?thesis unfolding output_at_def eq by auto
qed

definition value_at :: "ring_manifest \<Rightarrow> int \<Rightarrow> int" where
  "value_at m i = (case output_at m i of None \<Rightarrow> 0 | Some u \<Rightarrow> mo_amount u)"

lemma sum_values:
  assumes "distinct (map mo_index (rm_outputs m))"
  shows "sum_list (map mo_amount (rm_outputs m)) = (\<Sum>i \<in> mo_index ` set (rm_outputs m). value_at m i)"
proof -
  have v: "value_at m (mo_index u) = mo_amount u" if "u \<in> set (rm_outputs m)" for u
    using that output_at_eq [OF assms, of "mo_index u" u] by (simp add: value_at_def)
  have "inj_on mo_index (set (rm_outputs m))" "distinct (rm_outputs m)"
    using assms by (auto simp: distinct_map)
  then have "(\<Sum>i \<in> mo_index ` set (rm_outputs m). value_at m i) = (\<Sum>u \<in> set (rm_outputs m). mo_amount u)"
    by (simp add: sum.reindex v)
  with \<open>distinct (rm_outputs m)\<close> show ?thesis by (simp add: sum_list_distinct_conv_sum_set)
qed

lemma remdups_singleton: "length (remdups (map f xs)) = 1 \<Longrightarrow> \<exists>a. \<forall>x \<in> set xs. f x = a"
proof -
  assume "length (remdups (map f xs)) = 1"
  then obtain a where "remdups (map f xs) = [a]" by (cases "remdups (map f xs)") auto
  then have "f ` set xs = {a}" by (metis list.set(1) list.simps(15) set_map set_remdups)
  then show ?thesis by blast
qed

lemma edge_matches_output_iff:
  "edge_matches_output m e \<longleftrightarrow> (\<exists>u. output_at m (re_output_index e) = Some u \<and> mo_amount u = re_capacity e \<and>
     mo_script_pubkey u = re_script_pubkey e)"
  by (auto simp: edge_matches_output_def split: option.split)

lemma cycle_edges_nth:
  "cycle_edges_ok keys edges \<longleftrightarrow>
     (\<forall>i < length edges. re_opener_key (edges ! i) = keys ! i \<and> re_acceptor_key (edges ! i) = keys ! (Suc i mod length keys))"
  by (auto simp: cycle_edges_ok_def list_all_length nth_enumerate_eq)

text \<open>C27: A ring manifest that passes validation describes one directed cycle through all its participants and
  sorts every output of the transaction into exactly one class: equal outputs of one common amount, one
  channel output per participant with the capacity and script of its edge, and ordinary outputs, one for
  each equal output beyond the ring. The amounts of the three classes add up to the outputs, within the
  money supply.\<close>

theorem manifest_classifies_outputs:
  assumes "validate_manifest lib m = Inr ()"
  defines "keys \<equiv> rm_participant_keys m" and "edges \<equiv> rm_edges m"
  defines "eq \<equiv> set (rm_equal_output_indices m)" and "ch \<equiv> re_output_index ` set (rm_edges m)"
    and "ord \<equiv> set (ordinary_indices m)"
  shows "3 \<le> length keys \<and> length keys \<le> 32 \<and> distinct keys \<and> length edges = length keys \<and>
    (\<forall>i < length keys. re_opener_key (edges ! i) = keys ! i \<and> re_acceptor_key (edges ! i) = keys ! (Suc i mod length keys)) \<and>
    {0..<int (length (rm_outputs m))} = eq \<union> ch \<union> ord \<and> eq \<inter> ch = {} \<and> eq \<inter> ord = {} \<and> ch \<inter> ord = {} \<and>
    card ch = length keys \<and> card eq = length keys + card ord \<and>
    (\<forall>e \<in> set edges. \<exists>u \<in> set (rm_outputs m). mo_index u = re_output_index e \<and> mo_amount u = re_capacity e \<and>
       mo_script_pubkey u = re_script_pubkey e) \<and>
    (\<exists>amount. (\<forall>i \<in> eq. value_at m i = amount) \<and>
       int (card eq) * amount + sum_list (map re_capacity edges) + (\<Sum>i \<in> ord. value_at m i)
         = sum_list (map mo_amount (rm_outputs m))) \<and>
    sum_list (map mo_amount (rm_outputs m)) \<le> MAX_MONEY"
proof -
  note c = manifest_checks [OF assms(1)]
  have idx: "mo_index ` set (rm_outputs m) = {0..<int (length (rm_outputs m))}"
  proof -
    have "set (sort (map mo_index (rm_outputs m))) = int ` {0..<length (rm_outputs m)}" by (simp only: c(8)) simp
    then show ?thesis by (simp add: image_int_atLeastLessThan)
  qed
  have ord_eq: "ord = mo_index ` set (rm_outputs m) - eq - ch" by (auto simp: ord_def ordinary_indices_def eq_def ch_def)
  have sub: "eq \<subseteq> mo_index ` set (rm_outputs m)" "ch \<subseteq> mo_index ` set (rm_outputs m)"
    using c(12,13) by (auto simp: eq_def ch_def)
  have disj: "eq \<inter> ch = {}" using c(11) by (auto simp: eq_def ch_def)
  have fin: "finite eq" "finite ch" "finite ord" by (simp_all add: eq_def ch_def ord_def)
  have parts: "mo_index ` set (rm_outputs m) = eq \<union> ch \<union> ord" "eq \<inter> ord = {}" "ch \<inter> ord = {}" using ord_eq sub by auto
  have "distinct (ordinary_indices m)" using c(7) by (simp add: ordinary_indices_def)
  then have cards: "card ch = length keys" "card eq = length keys + card ord"
    using c(2,5,6,10,14) distinct_card [of "map re_output_index (rm_edges m)"]
    by (simp_all add: ch_def eq_def ord_def keys_def distinct_card)
  have match: "\<exists>u \<in> set (rm_outputs m). mo_index u = re_output_index e \<and> mo_amount u = re_capacity e \<and>
      mo_script_pubkey u = re_script_pubkey e" and cap: "value_at m (re_output_index e) = re_capacity e"
    if e: "e \<in> set edges" for e
  proof -
    obtain u where u: "output_at m (re_output_index e) = Some u" "mo_amount u = re_capacity e"
        "mo_script_pubkey u = re_script_pubkey e"
      using c(17) e by (auto simp: edges_def edge_matches_output_iff)
    then show "value_at m (re_output_index e) = re_capacity e" by (simp add: value_at_def)
    from u show "\<exists>u \<in> set (rm_outputs m). mo_index u = re_output_index e \<and> mo_amount u = re_capacity e \<and>
        mo_script_pubkey u = re_script_pubkey e"
      using output_at_eq [OF c(7)] by auto
  qed
  obtain a where a: "\<forall>i \<in> eq. map_option mo_amount (output_at m i) = a"
    using remdups_singleton [OF c(16)] by (auto simp: eq_def)
  then have amt: "\<forall>i \<in> eq. value_at m i = (case a of None \<Rightarrow> 0 | Some n \<Rightarrow> n)"
    by (auto simp: value_at_def split: option.splits)
  have "inj_on re_output_index (set edges)" "distinct edges"
    using c(5) by (auto simp: distinct_map edges_def)
  then have chsum: "(\<Sum>i \<in> ch. value_at m i) = sum_list (map re_capacity edges)"
    by (simp add: ch_def edges_def [symmetric] sum.reindex sum_list_distinct_conv_sum_set cap)
  have "sum_list (map mo_amount (rm_outputs m)) = (\<Sum>i \<in> eq \<union> ch \<union> ord. value_at m i)"
    using sum_values [OF c(7)] parts(1) by simp
  also have "\<dots> = (\<Sum>i \<in> eq. value_at m i) + (\<Sum>i \<in> ch. value_at m i) + (\<Sum>i \<in> ord. value_at m i)"
    using fin disj parts by (simp add: sum.union_disjoint Int_Un_distrib2)
  finally have total: "int (card eq) * (case a of None \<Rightarrow> 0 | Some n \<Rightarrow> n) + sum_list (map re_capacity edges)
      + (\<Sum>i \<in> ord. value_at m i) = sum_list (map mo_amount (rm_outputs m))"
    using amt chsum by simp
  show ?thesis
    using c(1,2,3,4,18) cycle_edges_nth [of keys edges] idx parts disj cards match amt total
    by (auto simp: keys_def edges_def sized_def)
qed

section \<open>An example ring\<close>

definition ex_lib :: ring_lib where
  "ex_lib = \<lparr>rl_fullyvalid = (\<lambda>_. True), rl_sha256 = (\<lambda>b. replicate 31 0 @ [fold (+) b 0]),
     rl_verify_schnorr = (\<lambda>pub msg sig. sig = pub @ msg), rl_xonly_pub = Some,
     rl_sign_schnorr = (\<lambda>sec msg aux. sec @ msg)\<rparr>"

definition ex_hex :: "nat \<Rightarrow> string" where
  "ex_hex n = replicate 63 (CHR ''0'') @ [hex_digit n]"

lemma ex_hex_bytes: "n < 16 \<Longrightarrow> ex_hex n = bytes_hex (replicate 31 0 @ [word_of_nat n])"
proof -
  assume "n < 16"
  then have "unat (word_of_nat n :: byte) = n" by (simp add: unat_of_nat)
  moreover have z: "hex_digit 0 = CHR ''0''" by code_simp
  ultimately have "hex_of_byte (word_of_nat n) = [CHR ''0'', hex_digit n]" using \<open>n < 16\<close> by (simp add: hex_of_byte_def z)
  note h = this
  have r: "replicate 63 (CHR ''0'') = concat (map hex_of_byte (replicate 31 0)) @ [CHR ''0'']" by code_simp
  show ?thesis unfolding ex_hex_def r bytes_hex_def map_append concat_append list.map concat.simps h by simp
qed

lemma ex_hex_valid: "n < 16 \<Longrightarrow> validate_hex 32 (ex_hex n) = Inr ()"
  by (simp add: ex_hex_bytes validate_hex_bytes)

definition ex_policy :: channel_policy where
  "ex_policy = \<lparr>cp_fundee_csv_delay = 144, cp_fundee_reserve = 1000, cp_min_depth = 3, cp_opener_csv_delay = 144,
     cp_opener_reserve = 1000\<rparr>"

definition ex_edge :: "nat \<Rightarrow> nat \<Rightarrow> nat \<Rightarrow> ring_edge" where
  "ex_edge opener acceptor i = \<lparr>re_opener_key = ex_hex opener, re_acceptor_key = ex_hex acceptor,
     re_pending_channel_id = ex_hex (7 + i), re_capacity = 20000 + int i, re_output_index = int i,
     re_script_pubkey = ''5120'' @ ex_hex i, re_policy = ex_policy\<rparr>"

definition ex_manifest :: ring_manifest where
  "ex_manifest = \<lparr>rm_network = REGTEST, rm_round_nonce = ex_hex 9, rm_revision = 0, rm_unsigned_tx_hash = ex_hex 10,
     rm_unsigned_txid = ex_hex 11, rm_participant_keys = map ex_hex [1, 2, 3],
     rm_edges = [ex_edge 1 2 0, ex_edge 2 3 1, ex_edge 3 1 2], rm_equal_output_indices = [3, 4, 5],
     rm_outputs = map (\<lambda>i. \<lparr>mo_index = int i, mo_amount = (if i < 3 then 20000 + int i else 50000),
       mo_script_pubkey = ''5120'' @ ex_hex i\<rparr>) [0, 1, 2, 3, 4, 5]\<rparr>"

lemma ex_manifest_valid: "validate_manifest ex_lib ex_manifest = Inr ()"
  by code_simp

theorem manifest_classifies_outputs_witness:
  "sum_list (map mo_amount (rm_outputs ex_manifest)) \<le> MAX_MONEY \<and> card (set (ordinary_indices ex_manifest)) = 0 \<and>
   card (re_output_index ` set (rm_edges ex_manifest)) = 3"
proof -
  have "length (rm_participant_keys ex_manifest) = 3" "card (set (rm_equal_output_indices ex_manifest)) = 3"
    by (simp_all add: ex_manifest_def)
  with manifest_classifies_outputs [OF ex_manifest_valid] show ?thesis by simp
qed

end
