(* ===== verification/Canonical_Json.thy ===== *)
theory Canonical_Json
  imports Jm_Models "HOL-Library.List_Lexorder" "HOL-Library.Char_ord"
begin

text \<open>
  The canonical JSON of the ring protocol, \<open>canonical_json\<close> and \<open>_validate_encoded_depth\<close> of
  \<open>jmcore/cofunded_ring.py\<close>: \<open>json.dumps\<close> with sorted keys, no spaces and ASCII output, of values made
  of integers, strings, booleans, lists and objects. The text determines the value up to the order of
  keys, and the scanner that bounds the nesting of received bytes computes the depth of the value.
\<close>

datatype cjson = CBool bool | CInt int | CStr string | CArr "cjson list" | CObj "(string \<times> cjson) list"

section \<open>Writing\<close>

fun cdumps :: "cjson \<Rightarrow> string" where
  "cdumps (CBool b) = (if b then ''true'' else ''false'')"
| "cdumps (CInt n) = str_of_int n"
| "cdumps (CStr s) = json_string s"
| "cdumps (CArr xs) = ''['' @ join_with '','' (map cdumps xs) @ '']''"
| "cdumps (CObj d) =
     ''{'' @ join_with '','' (map (\<lambda>(k, t). json_string k @ '':'' @ t)
               (sort_key fst (map (\<lambda>kv. (fst kv, cdumps (snd kv))) d))) @ ''}''"

text \<open>The same value with every object in key order, and the text of such a value.\<close>

fun cnorm :: "cjson \<Rightarrow> cjson" where
  "cnorm (CArr xs) = CArr (map cnorm xs)"
| "cnorm (CObj d) = CObj (sort_key fst (map (\<lambda>kv. (fst kv, cnorm (snd kv))) d))"
| "cnorm v = v"

fun cwrite :: "cjson \<Rightarrow> string" where
  "cwrite (CBool b) = (if b then ''true'' else ''false'')"
| "cwrite (CInt n) = str_of_int n"
| "cwrite (CStr s) = json_string s"
| "cwrite (CArr xs) = ''['' @ join_with '','' (map cwrite xs) @ '']''"
| "cwrite (CObj d) = ''{'' @ join_with '','' (map (\<lambda>kv. json_string (fst kv) @ '':'' @ cwrite (snd kv)) d) @ ''}''"

lemma sort_key_map_value:
  fixes d :: "('a :: linorder \<times> 'c) list"
  shows "sort_key fst (map (\<lambda>kv. (fst kv, f (snd kv))) d) = map (\<lambda>kv. (fst kv, f (snd kv))) (sort_key fst d)"
proof -
  have ins: "insort_key fst (fst x, f (snd x)) (map (\<lambda>kv. (fst kv, f (snd kv))) xs)
      = map (\<lambda>kv. (fst kv, f (snd kv))) (insort_key fst x xs)" for x and xs :: "('a \<times> 'c) list"
    by (induction xs) auto
  show ?thesis by (induction d) (simp_all add: ins)
qed

lemma cdumps_cnorm: "cdumps v = cwrite (cnorm v)"
proof (induction v)
  case (CArr xs)
  then have eq: "map cdumps xs = map (cwrite \<circ> cnorm) xs" by simp
  show ?case by (simp add: eq del: map_eq_conv)
next
  case (CObj d)
  then have eq: "map (\<lambda>kv. json_string (fst kv) @ CHR '':'' # cdumps (snd kv)) (sort_key fst d)
      = map (\<lambda>kv. json_string (fst kv) @ CHR '':'' # cwrite (cnorm (snd kv))) (sort_key fst d)"
    by (intro map_cong) (auto simp: snds.simps)
  show ?case by (simp add: sort_key_map_value comp_def case_prod_beta eq del: map_eq_conv)
qed auto

section \<open>The text determines the value\<close>

text \<open>Reading back one escaped character.\<close>

fun unesc :: "string \<Rightarrow> (char \<times> string) option" where
  "unesc [] = None"
| "unesc (c # cs) =
     (if c \<noteq> CHR 0x5C then Some (c, cs)
      else case cs of
        [] \<Rightarrow> None
      | e # es \<Rightarrow>
          if e = CHR ''u''
          then Some (char_of (16 * the (hex_val (es ! 2)) + the (hex_val (es ! 3))), drop 4 es)
          else Some (if e = CHR ''n'' then char_of (10 :: nat) else if e = CHR ''r'' then char_of (13 :: nat)
                     else if e = CHR ''t'' then char_of (9 :: nat) else if e = CHR ''f'' then char_of (12 :: nat)
                     else if e = CHR ''b'' then char_of (8 :: nat) else e, es))"

lemma unesc_escape: "unesc (json_escape c @ r) = Some (c, r)"
proof -
  let ?n = "of_char c :: nat"
  have "?n < 256" by simp
  then have "?n div 16 < 16" "?n mod 16 < 16" by (simp_all add: less_mult_imp_div_less)
  moreover have "char_of (16 * (?n div 16) + ?n mod 16) = c" by simp
  moreover have chr: "char_of k = c" if "?n = k" for k using that by (metis char_of_char)
  ultimately show ?thesis unfolding json_escape_def Let_def by (auto intro: chr)
qed

lemma escape_cancel: "json_escape c @ r = json_escape d @ s \<Longrightarrow> c = d \<and> r = s"
  using unesc_escape [of c r] unesc_escape [of d s] by (metis option.inject prod.inject)

lemma escape_no_quote: "json_escape c @ r \<noteq> CHR 0x22 # s"
proof
  assume eq: "json_escape c @ r = CHR 0x22 # s"
  with unesc_escape [of c r] have "c = CHR 0x22" by simp
  with eq show False by (simp add: json_escape_def)
qed

lemma escapes_cancel:
  "concat (map json_escape a) @ CHR 0x22 # r = concat (map json_escape b) @ CHR 0x22 # s \<Longrightarrow> a = b \<and> r = s"
proof (induction a arbitrary: b)
  case Nil
  then show ?case using escape_no_quote [THEN not_sym] by (cases b) auto
next
  case (Cons c a)
  then obtain d b' where b: "b = d # b'" using escape_no_quote by (cases b) auto
  with Cons.prems escape_cancel [of c _ d] have "c = d"
    "concat (map json_escape a) @ CHR 0x22 # r = concat (map json_escape b') @ CHR 0x22 # s" by auto
  with Cons.IH b show ?case by simp
qed

lemma json_string_cancel: "json_string a @ r = json_string b @ s \<Longrightarrow> a = b \<and> r = s"
  by (rule escapes_cancel) (simp add: json_string_def)

definition stops :: "string \<Rightarrow> bool" where
  "stops r \<longleftrightarrow> (case r of [] \<Rightarrow> True | c # _ \<Rightarrow> c \<in> {CHR '','', CHR '']'', CHR ''}''})"

lemma stops_simps [simp]: "stops []" "stops (CHR '','' # r)" "stops (CHR '']'' # r)" "stops (CHR ''}'' # r)"
  by (simp_all add: stops_def)

lemma str_of_int_chars: "c \<in> set (str_of_int n) \<Longrightarrow> c = CHR ''-'' \<or> is_digit c"
  using nat_digits_digits by (auto simp: str_of_int_def list_all_iff split: if_splits)

lemma str_of_int_inj: "str_of_int m = str_of_int n \<Longrightarrow> m = n"
proof -
  assume eq: "str_of_int m = str_of_int n"
  have hd: "hd (str_of_int k) = CHR ''-'' \<longleftrightarrow> k < 0" for k
  proof -
    have "is_digit (hd (nat_digits (nat k)))"
      using nat_digits_digits [of "nat k"] nat_digits_not_Nil by (metis hd_in_set list_all_iff)
    then show ?thesis by (auto simp: str_of_int_def is_digit_def)
  qed
  from eq hd [of m] hd [of n] have "nat_digits (nat \<bar>m\<bar>) = nat_digits (nat \<bar>n\<bar>)" "m < 0 \<longleftrightarrow> n < 0"
    by (auto simp: str_of_int_def split: if_splits)
  then have "\<bar>m\<bar> = \<bar>n\<bar>" by (metis abs_ge_zero digits_nat_nat_digits eq_nat_nat_iff)
  with \<open>m < 0 \<longleftrightarrow> n < 0\<close> show "m = n" by auto
qed

lemma str_of_int_cancel:
  assumes "str_of_int m @ r = str_of_int n @ s" "stops r" "stops s"
  shows "m = n \<and> r = s"
proof -
  let ?P = "\<lambda>c. c \<notin> {CHR '','', CHR '']'', CHR ''}''}"
  have "takeWhile ?P (str_of_int k @ t) = str_of_int k" if "stops t" for k t
  proof -
    have "?P c" if "c \<in> set (str_of_int k)" for c using str_of_int_chars [OF that] by (auto simp: is_digit_def)
    moreover have "takeWhile ?P t = []" using \<open>stops t\<close> by (auto simp: stops_def split: list.splits)
    ultimately show ?thesis by (subst takeWhile_append2) auto
  qed
  with assms have "str_of_int m = str_of_int n" by metis
  with assms(1) str_of_int_inj show ?thesis by auto
qed

text \<open>A comma-separated sequence before a closing bracket, of items that can be told from what follows.\<close>

lemma join_cancel:
  assumes "\<And>x y r s. x \<in> set xs \<Longrightarrow> f x @ r = f y @ s \<Longrightarrow> stops r \<Longrightarrow> stops s \<Longrightarrow> x = y \<and> r = s"
    "\<And>x r s. f x @ r \<noteq> close # s" "close = CHR '']'' \<or> close = CHR ''}''"
    "join_with '','' (map f xs) @ close # r = join_with '','' (map f ys) @ close # s"
  shows "xs = ys \<and> r = s"
  using assms(1,4)
proof (induction xs arbitrary: ys)
  case Nil
  then show ?case
    using assms(2) [THEN not_sym] by (cases ys rule: list.exhaust; cases "tl ys") auto
next
  case (Cons x xs)
  obtain y ys' where ys: "ys = y # ys'"
    using Cons.prems(2) assms(2) by (cases ys; cases xs) auto
  define t where "t = (if xs = [] then close # r else CHR '','' # join_with '','' (map f xs) @ close # r)"
  define u where "u = (if ys' = [] then close # s else CHR '','' # join_with '','' (map f ys') @ close # s)"
  have "f x @ t = f y @ u"
    using Cons.prems(2) by (cases xs; cases ys') (simp_all add: ys t_def u_def)
  moreover have "stops t" "stops u" using assms(3) by (auto simp: t_def u_def)
  ultimately have xy: "x = y" "t = u" using Cons.prems(1) [of x t y u] by auto
  show ?case
  proof (cases "xs = [] \<or> ys' = []")
    case True
    with xy assms(3) show ?thesis by (auto simp: ys t_def u_def split: if_splits)
  next
    case False
    with xy(2) have eq: "join_with '','' (map f xs) @ close # r = join_with '','' (map f ys') @ close # s"
      by (simp add: t_def u_def)
    have "xs = ys' \<and> r = s"
      by (rule Cons.IH [OF _ eq]) (rule Cons.prems(1), simp_all)
    with xy ys show ?thesis by simp
  qed
qed

lemma str_of_int_hd: "\<exists>c t. str_of_int n = c # t \<and> (c = CHR ''-'' \<or> is_digit c)"
proof -
  have "str_of_int n \<noteq> []" using nat_digits_not_Nil by (simp add: str_of_int_def)
  then obtain c t where "str_of_int n = c # t" by (cases "str_of_int n") auto
  with str_of_int_chars [of c n] show ?thesis by auto
qed

text \<open>The first character tells the kind of a value.\<close>

fun kind :: "cjson \<Rightarrow> nat" where
  "kind (CBool b) = (if b then 0 else 1)"
| "kind (CInt n) = 2"
| "kind (CStr s) = 3"
| "kind (CArr xs) = 4"
| "kind (CObj d) = 5"

definition kind_of_char :: "char \<Rightarrow> nat" where
  "kind_of_char c = (if c = CHR ''t'' then 0 else if c = CHR ''f'' then 1 else if c = CHR 0x22 then 3
     else if c = CHR ''['' then 4 else if c = CHR ''{'' then 5 else if c = CHR '']'' \<or> c = CHR ''}'' then 6 else 2)"

lemma digit_kind: "is_digit c \<Longrightarrow> kind_of_char c = 2"
proof -
  assume d: "is_digit c"
  have "c \<noteq> CHR ''t''" "c \<noteq> CHR ''f''" "c \<noteq> CHR 0x22" "c \<noteq> CHR ''[''" "c \<noteq> CHR ''{''" "c \<noteq> CHR '']''" "c \<noteq> CHR ''}''"
    by (rule notI, use d in \<open>simp add: is_digit_def\<close>)+
  then show ?thesis by (simp only: kind_of_char_def if_False simp_thms)
qed

lemma minus_kind: "kind_of_char (CHR ''-'') = 2"
  by (simp add: kind_of_char_def)

lemma kind_of_cwrite: "\<exists>c t. cwrite v = c # t \<and> kind_of_char c = kind v"
proof (cases v)
  case (CInt n)
  obtain c t where "str_of_int n = c # t" "c = CHR ''-'' \<or> is_digit c" using str_of_int_hd by blast
  moreover from this(2) have "kind_of_char c = 2" using digit_kind minus_kind by blast
  ultimately show ?thesis using CInt by simp
qed (auto simp: kind_of_char_def json_string_def)

lemma kind_bound: "kind v < 6"
  by (cases v) auto

lemma cwrite_not_close: "close = CHR '']'' \<or> close = CHR ''}'' \<Longrightarrow> cwrite v @ r \<noteq> close # s"
proof
  assume "close = CHR '']'' \<or> close = CHR ''}''" "cwrite v @ r = close # s"
  moreover obtain c t where "cwrite v = c # t" "kind_of_char c = kind v" using kind_of_cwrite by blast
  ultimately have "kind v = 6" by (auto simp: kind_of_char_def)
  with kind_bound [of v] show False by simp
qed

lemma cwrite_kind: "cwrite v @ r = cwrite w @ s \<Longrightarrow> kind v = kind w"
  using kind_of_cwrite [of v] kind_of_cwrite [of w] by (metis append_Cons list.inject)

lemma cwrite_cancel:
  "cwrite v @ r = cwrite w @ s \<Longrightarrow> stops r \<Longrightarrow> stops s \<Longrightarrow> v = w \<and> r = s"
proof (induction v arbitrary: w r s)
  case (CBool b)
  then show ?case using cwrite_kind [OF CBool.prems(1)] by (cases w) (auto split: if_splits)
next
  case (CInt n)
  then obtain m where w: "w = CInt m" using cwrite_kind [OF CInt.prems(1)] by (cases w) (auto split: if_splits)
  with CInt.prems str_of_int_cancel [of n r m s] show ?case by simp
next
  case (CStr a)
  then obtain b where w: "w = CStr b" using cwrite_kind [OF CStr.prems(1)] by (cases w) (auto split: if_splits)
  with CStr.prems json_string_cancel [of a r b s] show ?case by simp
next
  case (CArr xs)
  then obtain ys where w: "w = CArr ys" using cwrite_kind [OF CArr.prems(1)] by (cases w) (auto split: if_splits)
  have "join_with '','' (map cwrite xs) @ CHR '']'' # r = join_with '','' (map cwrite ys) @ CHR '']'' # s"
    using CArr.prems(1) w by simp
  then have "xs = ys \<and> r = s"
    by (rule join_cancel [where f = cwrite and close = "CHR '']''", rotated -1])
      (erule CArr.IH, assumption+, rule cwrite_not_close, simp_all)
  with w show ?case by simp
next
  case (CObj d)
  then obtain e where w: "w = CObj e" using cwrite_kind [OF CObj.prems(1)] by (cases w) (auto split: if_splits)
  let ?f = "\<lambda>kv. json_string (fst kv) @ '':'' @ cwrite (snd kv)"
  have item: "x = y \<and> r = s" if "x \<in> set d" "?f x @ r = ?f y @ s" "stops r" "stops s" for x y r s
  proof -
    have "fst x = fst y" and "cwrite (snd x) @ r = cwrite (snd y) @ s"
      using json_string_cancel [of "fst x" "CHR '':'' # cwrite (snd x) @ r" "fst y"] that(2) by auto
    with CObj.IH [OF that(1), of "snd x"] that(3,4) show ?thesis by (auto simp: snds.simps prod_eq_iff)
  qed
  have "join_with '','' (map ?f d) @ CHR ''}'' # r = join_with '','' (map ?f e) @ CHR ''}'' # s"
    using CObj.prems(1) w by simp
  then have "d = e \<and> r = s"
    by (rule join_cancel [where f = ?f and close = "CHR ''}''", OF item, rotated -1]) (simp_all add: json_string_def)
  with w show ?case by simp
qed

lemma cdumps_eq_iff: "cdumps v = cdumps w \<longleftrightarrow> cnorm v = cnorm w"
  using cwrite_cancel [of "cnorm v" "[]" "cnorm w" "[]"] by (auto simp: cdumps_cnorm)

section \<open>The depth of the text\<close>

definition MAX_RING_JSON_DEPTH :: nat where
  "MAX_RING_JSON_DEPTH = 10"

text \<open>The loop of \<open>_validate_encoded_depth\<close>, over the bytes of the text.\<close>

fun scan_depth :: "nat \<Rightarrow> string \<Rightarrow> int \<Rightarrow> bool \<Rightarrow> bool \<Rightarrow> (int \<times> bool) res" where
  "scan_depth max_depth [] depth in_string escaped = Inr (depth, in_string)"
| "scan_depth max_depth (c # cs) depth in_string escaped =
     (if in_string then
        if escaped then scan_depth max_depth cs depth True False
        else if c = CHR 0x5C then scan_depth max_depth cs depth True True
        else if c = CHR 0x22 then scan_depth max_depth cs depth False False
        else scan_depth max_depth cs depth True False
      else if c = CHR 0x22 then scan_depth max_depth cs depth True escaped
      else if c = CHR ''{'' \<or> c = CHR ''['' then
        if depth + 1 > int max_depth then Inl (ValueError ''ring JSON exceeds maximum depth'')
        else scan_depth max_depth cs (depth + 1) False escaped
      else if c = CHR ''}'' \<or> c = CHR '']'' then
        if depth - 1 < 0 then Inl (ValueError ''ring JSON has unbalanced containers'')
        else scan_depth max_depth cs (depth - 1) False escaped
      else scan_depth max_depth cs depth False escaped)"

definition validate_encoded_depth :: "string \<Rightarrow> nat \<Rightarrow> unit res" where
  "validate_encoded_depth data max_depth =
     bind_res (scan_depth max_depth data 0 False False) (\<lambda>(depth, in_string).
       if in_string \<or> depth \<noteq> 0 then Inl (ValueError ''ring JSON is incomplete'') else Inr ())"

fun cdepth :: "cjson \<Rightarrow> nat" where
  "cdepth (CArr xs) = Suc (Max (set (0 # map cdepth xs)))"
| "cdepth (CObj d) = Suc (Max (set (0 # map (\<lambda>kv. cdepth (snd kv)) d)))"
| "cdepth v = 0"

abbreviation too_deep :: "(int \<times> bool) res" where
  "too_deep \<equiv> Inl (ValueError ''ring JSON exceeds maximum depth'')"

lemma scan_escape: "scan_depth m (json_escape c @ r) d True False = scan_depth m r d True False"
proof -
  have "hex_digit n \<noteq> CHR 0x5C" "hex_digit n \<noteq> CHR 0x22" if "n < 16" for n
    using that hex_val_digit [of n] by (auto simp: hex_val_def)
  moreover have "(of_char c :: nat) < 256" by simp
  then have "(of_char c :: nat) div 16 < 16" "(of_char c :: nat) mod 16 < 16" by (simp_all add: less_mult_imp_div_less)
  ultimately show ?thesis by (simp add: json_escape_def Let_def)
qed

lemma scan_string: "scan_depth m (json_string s @ r) d False False = scan_depth m r d False False"
proof -
  have "scan_depth m (concat (map json_escape s) @ CHR 0x22 # r) d True False = scan_depth m r d False False"
    by (induction s) (simp_all add: scan_escape)
  then show ?thesis by (simp add: json_string_def)
qed

definition plain_char :: "char \<Rightarrow> bool" where
  "plain_char c \<longleftrightarrow> c \<notin> {CHR 0x22, CHR ''{'', CHR ''['', CHR ''}'', CHR '']''}"

lemma scan_plain: "list_all plain_char t \<Longrightarrow> scan_depth m (t @ r) d False False = scan_depth m r d False False"
  by (induction t) (auto simp: plain_char_def)

lemma plain_str_of_int: "list_all plain_char (str_of_int n)"
proof -
  have "plain_char c" if "is_digit c" for c
    using digit_kind [OF that] by (auto simp: plain_char_def kind_of_char_def)
  moreover have "plain_char (CHR ''-'')" by (simp add: plain_char_def)
  ultimately show ?thesis using str_of_int_chars by (auto simp: list_all_iff)
qed

lemma scan_join:
  assumes "\<And>x r. x \<in> set xs \<Longrightarrow>
    scan_depth m (f x @ r) d False False = (if d + int (g x) \<le> int m then scan_depth m r d False False else too_deep)"
  shows "scan_depth m (join_with '','' (map f xs) @ r) d False False =
    (if \<forall>x \<in> set xs. d + int (g x) \<le> int m then scan_depth m r d False False else too_deep)"
  using assms
proof (induction xs rule: induct_list012)
  case (3 x y xs)
  then show ?case by simp
qed simp_all

lemma scan_container:
  assumes "0 \<le> d" "a \<in> {CHR ''['', CHR ''{''}" "b \<in> {CHR '']'', CHR ''}''}"
    "\<And>r. d + 1 \<le> int m \<Longrightarrow> scan_depth m (t @ r) (d + 1) False False =
      (if \<forall>x \<in> set xs. d + 1 + int (g x) \<le> int m then scan_depth m r (d + 1) False False else too_deep)"
  shows "scan_depth m (a # t @ b # r) d False False =
    (if d + int (Suc (Max (insert 0 (g ` set xs)))) \<le> int m then scan_depth m r d False False else too_deep)"
proof -
  have "(d + int (Suc k) \<le> int m) \<longleftrightarrow> k \<le> nat (int m - d - 1) \<and> d + 1 \<le> int m" for k
    using assms(1) by auto
  moreover have "Max (insert 0 (g ` set xs)) \<le> z \<longleftrightarrow> (\<forall>x \<in> set xs. g x \<le> z)" for z by simp
  moreover have "g x \<le> nat (int m - d - 1) \<longleftrightarrow> d + 1 + int (g x) \<le> int m" if "d + 1 \<le> int m" for x
    using that by auto
  ultimately have "(d + int (Suc (Max (insert 0 (g ` set xs)))) \<le> int m) \<longleftrightarrow>
      d + 1 \<le> int m \<and> (\<forall>x \<in> set xs. d + 1 + int (g x) \<le> int m)" by metis
  with assms show ?thesis by auto
qed

lemma scan_cwrite:
  "0 \<le> d \<Longrightarrow> d \<le> int m \<Longrightarrow> scan_depth m (cwrite v @ r) d False False =
     (if d + int (cdepth v) \<le> int m then scan_depth m r d False False else too_deep)"
proof (induction v arbitrary: d r)
  case (CBool b)
  then show ?case by simp
next
  case (CInt n)
  then show ?case by (simp add: scan_plain plain_str_of_int)
next
  case (CStr t)
  then show ?case by (simp add: scan_string)
next
  case (CArr xs)
  have "scan_depth m (join_with '','' (map cwrite xs) @ r) (d + 1) False False =
      (if \<forall>x \<in> set xs. d + 1 + int (cdepth x) \<le> int m then scan_depth m r (d + 1) False False else too_deep)"
    if "d + 1 \<le> int m" for r
    by (rule scan_join) (use CArr.IH CArr.prems(1) that in simp)
  with scan_container [OF CArr.prems(1), of "CHR ''[''" "CHR '']''" m "join_with '','' (map cwrite xs)" xs cdepth r]
  show ?case by simp
next
  case (CObj d')
  let ?f = "\<lambda>kv. json_string (fst kv) @ '':'' @ cwrite (snd kv)"
  have "scan_depth m (join_with '','' (map ?f d') @ r) (d + 1) False False =
      (if \<forall>x \<in> set d'. d + 1 + int (cdepth (snd x)) \<le> int m then scan_depth m r (d + 1) False False else too_deep)"
    if m: "d + 1 \<le> int m" for r
  proof (rule scan_join)
    fix x s assume "x \<in> set d'"
    from CObj.IH [OF this, of "snd x" "d + 1" s] CObj.prems(1) m
    show "scan_depth m (?f x @ s) (d + 1) False False =
        (if d + 1 + int (cdepth (snd x)) \<le> int m then scan_depth m s (d + 1) False False else too_deep)"
      by (simp add: scan_string snds.simps)
  qed
  with scan_container [OF CObj.prems(1), of "CHR ''{''" "CHR ''}''" m "join_with '','' (map ?f d')" d' "\<lambda>kv. cdepth (snd kv)" r]
  show ?case by simp
qed

lemma cdepth_cnorm: "cdepth (cnorm v) = cdepth v"
proof (induction v)
  case (CObj d)
  then have "(\<lambda>kv. cdepth (cnorm (snd kv))) ` set d = (\<lambda>kv. cdepth (snd kv)) ` set d"
    by (intro image_cong) (auto simp: snds.simps)
  then show ?case by (simp add: image_image)
qed (simp_all add: image_image)

text \<open>The scanner that guards the JSON decoder against deep nesting, which only tracks quotes, escapes and
  brackets of the raw bytes, measures the real nesting: on the canonical text of any value it accepts exactly
  when the value is nested at most as deep as the limit, whatever its strings contain.\<close>

theorem encoded_depth_exact:
  "validate_encoded_depth (cdumps v) max_depth =
     (if cdepth v \<le> max_depth then Inr () else Inl (ValueError ''ring JSON exceeds maximum depth''))"
  using scan_cwrite [of 0 max_depth "cnorm v" "[]"]
  by (simp add: validate_encoded_depth_def cdumps_cnorm cdepth_cnorm)

end
