(* ===== verification/Ring_Hash.thy ===== *)
theory Ring_Hash
  imports Ring_Models Canonical_Json
begin

text \<open>
  The bytes that ring participants hash and sign, \<open>jmcore/cofunded_ring.py\<close>: \<open>_canonical_value\<close> of each
  model (\<open>model_dump\<close> with the literal members), \<open>ring_hash\<close> with its domain prefix, \<open>manifest_hash\<close>, and
  the attestation signatures. The object types that \<open>ring_hash\<close> gets are ASCII literals.
\<close>

section \<open>Canonical values of the models\<close>

fun offer_value :: "tr0_offer_type \<Rightarrow> string" where
  "offer_value TR0_ABS = ''tr0absoffer''"
| "offer_value TR0_REL = ''tr0reloffer''"

fun role_value :: "endpoint_role \<Rightarrow> string" where
  "role_value OPENER = ''opener''"
| "role_value FUNDEE = ''fundee''"

definition policy_value :: "channel_policy \<Rightarrow> cjson" where
  "policy_value p = CObj
     [(''commitment_type'', CStr ''TAPROOT''), (''fundee_csv_delay'', CInt (cp_fundee_csv_delay p)),
      (''fundee_reserve'', CInt (cp_fundee_reserve p)), (''min_depth'', CInt (cp_min_depth p)),
      (''opener_csv_delay'', CInt (cp_opener_csv_delay p)), (''opener_reserve'', CInt (cp_opener_reserve p)),
      (''private'', CBool True), (''zero_conf'', CBool False)]"

definition edge_value :: "ring_edge \<Rightarrow> cjson" where
  "edge_value e = CObj
     [(''opener_key'', CStr (re_opener_key e)), (''acceptor_key'', CStr (re_acceptor_key e)),
      (''pending_channel_id'', CStr (re_pending_channel_id e)), (''capacity'', CInt (re_capacity e)),
      (''output_index'', CInt (re_output_index e)), (''script_pubkey'', CStr (re_script_pubkey e)),
      (''policy'', policy_value (re_policy e))]"

definition output_value :: "manifest_output \<Rightarrow> cjson" where
  "output_value u = CObj
     [(''index'', CInt (mo_index u)), (''amount'', CInt (mo_amount u)), (''script_pubkey'', CStr (mo_script_pubkey u))]"

definition manifest_value :: "ring_manifest \<Rightarrow> cjson" where
  "manifest_value m = CObj
     [(''payload_format'', CStr ''canonical_json''), (''network'', CStr (network_value (rm_network m))),
      (''round_nonce'', CStr (rm_round_nonce m)), (''revision'', CInt (rm_revision m)),
      (''unsigned_tx_hash'', CStr (rm_unsigned_tx_hash m)), (''unsigned_txid'', CStr (rm_unsigned_txid m)),
      (''participant_keys'', CArr (map CStr (rm_participant_keys m))), (''edges'', CArr (map edge_value (rm_edges m))),
      (''equal_output_indices'', CArr (map CInt (rm_equal_output_indices m))),
      (''outputs'', CArr (map output_value (rm_outputs m)))]"

definition readiness_value :: "readiness_state \<Rightarrow> cjson" where
  "readiness_value s = CObj
     [(''pending_channel_id'', CStr (ps_pending_channel_id s)), (''opener_key'', CStr (ps_opener_key s)),
      (''acceptor_key'', CStr (ps_acceptor_key s)), (''script_pubkey'', CStr (ps_script_pubkey s)),
      (''capacity'', CInt (ps_capacity s)), (''opener_balance'', CInt (ps_opener_balance s)),
      (''fundee_balance'', CInt (ps_fundee_balance s)), (''push_amount'', CInt (ps_push_amount s)),
      (''opener_reserve'', CInt (ps_opener_reserve s)), (''fundee_reserve'', CInt (ps_fundee_reserve s)),
      (''commitment_fee'', CInt (ps_commitment_fee s)), (''commitment_overhead'', CInt (ps_commitment_overhead s)),
      (''policy'', policy_value (ps_policy s)), (''role'', CStr (role_value (rs_role s))),
      (''signer_key'', CStr (rs_signer_key s)), (''round_nonce'', CStr (rs_round_nonce s)),
      (''revision'', CInt (rs_revision s)), (''manifest_hash'', CStr (rs_manifest_hash s)),
      (''unsigned_tx_hash'', CStr (rs_unsigned_tx_hash s)), (''unsigned_txid'', CStr (rs_unsigned_txid s)),
      (''output_index'', CInt (rs_output_index s)), (''state_salt'', CStr (rs_state_salt s))]"

definition attestation_value :: "attestation \<Rightarrow> cjson" where
  "attestation_value a = CObj
     [(''edge'', CStr (at_edge a)), (''manifest_hash'', CStr (at_manifest_hash a)), (''revision'', CInt (at_revision a)),
      (''role'', CStr (role_value (at_role a))), (''round_nonce'', CStr (at_round_nonce a)),
      (''signer_key'', CStr (at_signer_key a)), (''state_hash'', CStr (at_state_hash a))]"

section \<open>Hashes and signatures\<close>

text \<open>\<open>str.encode\<close> of ASCII text.\<close>

definition text_bytes :: "string \<Rightarrow> bytes" where
  "text_bytes s = map (\<lambda>c. word_of_nat (of_char c)) s"

definition canonical_json :: "cjson \<Rightarrow> bytes" where
  "canonical_json v = text_bytes (cdumps v)"

definition ring_preimage :: "string \<Rightarrow> cjson \<Rightarrow> bytes" where
  "ring_preimage object_type v = text_bytes (''JMP0014/'' @ object_type @ ''/v1'' @ [CHR 0x00]) @ canonical_json v"

definition ring_hash :: "ring_lib \<Rightarrow> string \<Rightarrow> cjson \<Rightarrow> bytes" where
  "ring_hash lib object_type v = rl_sha256 lib (ring_preimage object_type v)"

definition manifest_hash :: "ring_lib \<Rightarrow> ring_manifest \<Rightarrow> bytes" where
  "manifest_hash lib m = ring_hash lib ''manifest'' (manifest_value m)"

definition verify_hash :: "ring_lib \<Rightarrow> string \<Rightarrow> bytes \<Rightarrow> string \<Rightarrow> bool" where
  "verify_hash lib public_key message_hash signature =
     (case all_res [validate_xonly_key lib public_key, validate_hex 64 signature] of
        Inl _ \<Rightarrow> False
      | Inr _ \<Rightarrow>
          length message_hash = 32 \<and>
          (case (fromhex public_key, fromhex signature) of
             (Inr pub, Inr sig) \<Rightarrow> rl_verify_schnorr lib pub message_hash sig
           | _ \<Rightarrow> False))"

definition sign_hash :: "ring_lib \<Rightarrow> bytes \<Rightarrow> bytes \<Rightarrow> bytes \<Rightarrow> string res" where
  "sign_hash lib secret_key message_hash auxiliary =
     (if length message_hash \<noteq> 32 then Inl (ValueError ''BIP340 message hash must be 32 bytes'')
      else if length auxiliary \<noteq> 32 then Inl (ValueError ''BIP340 auxiliary randomness must be 32 bytes'')
      else case rl_xonly_pub lib secret_key of
        None \<Rightarrow> Inl (ValueError ''invalid BIP340 secret key'')
      | Some _ \<Rightarrow> Inr (bytes_hex (rl_sign_schnorr lib secret_key message_hash auxiliary)))"

record ring_key_pair =
  kp_secret_key :: bytes
  kp_public_key :: string

definition key_pair_from_secret :: "ring_lib \<Rightarrow> bytes \<Rightarrow> ring_key_pair res" where
  "key_pair_from_secret lib secret_key =
     (if length secret_key \<noteq> 32 then Inl (ValueError ''ring secret key must be 32 bytes'')
      else case rl_xonly_pub lib secret_key of
        None \<Rightarrow> Inl (ValueError ''ring secret key is outside the secp256k1 range'')
      | Some pub \<Rightarrow> Inr \<lparr>kp_secret_key = secret_key, kp_public_key = bytes_hex pub\<rparr>)"

definition sign_attestation :: "ring_lib \<Rightarrow> attestation \<Rightarrow> bytes \<Rightarrow> bytes \<Rightarrow> signed_attestation res" where
  "sign_attestation lib a secret_key auxiliary =
     bind_res (key_pair_from_secret lib secret_key) (\<lambda>kp.
       if at_signer_key a \<noteq> kp_public_key kp then Inl (ValueError ''attestation signer_key does not match secret key'')
       else map_res (\<lambda>sig. \<lparr>sa_attestation = a, sa_signature = sig\<rparr>)
              (sign_hash lib secret_key (ring_hash lib ''ready'' (attestation_value a)) auxiliary))"

definition verify_attestation :: "ring_lib \<Rightarrow> signed_attestation \<Rightarrow> bool" where
  "verify_attestation lib s =
     verify_hash lib (at_signer_key (sa_attestation s)) (ring_hash lib ''ready'' (attestation_value (sa_attestation s)))
       (sa_signature s)"

section \<open>The hashed bytes determine the object\<close>

definition char_byte :: "char \<Rightarrow> byte" where
  "char_byte c = word_of_nat (of_char c)"

lemma unat_char_byte: "unat (char_byte c) = of_char c"
proof -
  have "(of_char c :: nat) < 256" by (rule nat_of_char_less_256)
  then show ?thesis unfolding char_byte_def unat_of_nat by simp
qed

lemma inj_char_byte: "inj char_byte"
proof (rule injI)
  fix c d assume "char_byte c = char_byte d"
  then have "(of_char c :: nat) = of_char d" unfolding unat_char_byte [symmetric] by simp
  then show "c = d" by (rule of_char_eq_iff [THEN iffD1])
qed

lemma text_bytes_inj: "text_bytes s = text_bytes t \<longleftrightarrow> s = t"
  unfolding text_bytes_def char_byte_def [symmetric] by (rule inj_map_eq_map [OF inj_char_byte])

lemma text_bytes_append: "text_bytes (s @ t) = text_bytes s @ text_bytes t"
  by (simp add: text_bytes_def)

lemma cnorm_obj_eq:
  assumes "distinct (map fst d)" "map fst d = map fst e"
  shows "cnorm (CObj d) = cnorm (CObj e) \<longleftrightarrow> map (\<lambda>kv. cnorm (snd kv)) d = map (\<lambda>kv. cnorm (snd kv)) e"
proof
  assume "cnorm (CObj d) = cnorm (CObj e)"
  then have "sort_key fst (map (\<lambda>kv. (fst kv, cnorm (snd kv))) d) = sort_key fst (map (\<lambda>kv. (fst kv, cnorm (snd kv))) e)"
    unfolding cnorm.simps by (rule cjson.inject(5) [THEN iffD1])
  from arg_cong [OF this, of set]
  have s: "set (map (\<lambda>kv. (fst kv, cnorm (snd kv))) d) = set (map (\<lambda>kv. (fst kv, cnorm (snd kv))) e)"
    unfolding set_sort .
  have len: "length d = length e" using assms(2) by (metis length_map)
  show "map (\<lambda>kv. cnorm (snd kv)) d = map (\<lambda>kv. cnorm (snd kv)) e"
  proof (rule nth_equalityI)
    fix i assume i: "i < length (map (\<lambda>kv. cnorm (snd kv)) d)"
    have k: "fst (d ! i) = fst (e ! i)" using assms(2) i len by (metis length_map nth_map)
    from i have "(fst (d ! i), cnorm (snd (d ! i))) \<in> set (map (\<lambda>kv. (fst kv, cnorm (snd kv))) e)"
      unfolding s [symmetric] by auto
    then obtain j where j: "j < length e" "fst (e ! j) = fst (d ! i)" "cnorm (snd (e ! j)) = cnorm (snd (d ! i))"
      by (auto simp: in_set_conv_nth)
    have "distinct (map fst e)" using assms by simp
    then have "j = i" using j(1,2) k i len by (simp add: distinct_conv_nth) (metis nth_map)
    with j i len show "map (\<lambda>kv. cnorm (snd kv)) d ! i = map (\<lambda>kv. cnorm (snd kv)) e ! i" by simp
  qed (simp add: len)
next
  assume eq: "map (\<lambda>kv. cnorm (snd kv)) d = map (\<lambda>kv. cnorm (snd kv)) e"
  have "map (\<lambda>kv. (fst kv, cnorm (snd kv))) d = zip (map fst d) (map (\<lambda>kv. cnorm (snd kv)) d)"
    by (simp add: zip_map_map zip_same_conv_map)
  also have "\<dots> = zip (map fst e) (map (\<lambda>kv. cnorm (snd kv)) e)" using assms(2) eq by simp
  also have "\<dots> = map (\<lambda>kv. (fst kv, cnorm (snd kv))) e" by (simp add: zip_map_map zip_same_conv_map)
  finally show "cnorm (CObj d) = cnorm (CObj e)" by simp
qed

named_theorems value_inj \<open>a model is determined by the normal form of its canonical value\<close>

lemma map_inj_eq:
  assumes "\<And>x y. f x = f y \<longleftrightarrow> x = y"
  shows "map f xs = map f ys \<longleftrightarrow> xs = ys"
  using assms by (intro inj_map_eq_map) (simp add: inj_def)

lemma policy_value_inj [value_inj]: "cnorm (policy_value p) = cnorm (policy_value q) \<longleftrightarrow> p = q"
  unfolding policy_value_def by (subst cnorm_obj_eq) auto

lemma edge_value_inj [value_inj]: "cnorm (edge_value e) = cnorm (edge_value f) \<longleftrightarrow> e = f"
  unfolding edge_value_def by (subst cnorm_obj_eq) (auto simp: value_inj)

lemma output_value_inj [value_inj]: "cnorm (output_value u) = cnorm (output_value v) \<longleftrightarrow> u = v"
  unfolding output_value_def by (subst cnorm_obj_eq) auto

lemma role_value_inj [value_inj]: "role_value r = role_value r' \<longleftrightarrow> r = r'"
  by (cases r; cases r') auto

lemma network_value_inj [value_inj]: "network_value n = network_value n' \<longleftrightarrow> n = n'"
  by (cases n; cases n') auto

lemma cnorm_map_inj [value_inj]:
  "map CStr ss = map CStr ts \<longleftrightarrow> ss = ts"
  "map CInt is = map CInt js \<longleftrightarrow> is = js"
  "map (\<lambda>x. cnorm (edge_value x)) es = map (\<lambda>x. cnorm (edge_value x)) fs \<longleftrightarrow> es = fs"
  "map (\<lambda>x. cnorm (output_value x)) us = map (\<lambda>x. cnorm (output_value x)) vs \<longleftrightarrow> us = vs"
  by (rule map_inj_eq; simp add: value_inj)+

lemma manifest_value_inj [value_inj]: "cnorm (manifest_value m) = cnorm (manifest_value m') \<longleftrightarrow> m = m'"
  unfolding manifest_value_def
  by (subst cnorm_obj_eq) (auto simp: value_inj comp_def)

lemma attestation_value_inj [value_inj]: "cnorm (attestation_value a) = cnorm (attestation_value b) \<longleftrightarrow> a = b"
  unfolding attestation_value_def by (subst cnorm_obj_eq) (auto simp: value_inj)

lemma readiness_value_inj [value_inj]: "cnorm (readiness_value s) = cnorm (readiness_value t) \<longleftrightarrow> s = t"
  unfolding readiness_value_def by (subst cnorm_obj_eq) (auto simp: value_inj)

section \<open>Domains\<close>

lemma split_at_nul:
  assumes "z \<notin> set a" "z \<notin> set b" "a @ z # x = b @ z # y"
  shows "a = b \<and> x = y"
proof -
  have "takeWhile (\<lambda>c. c \<noteq> z) (a @ z # x) = a" "takeWhile (\<lambda>c. c \<noteq> z) (b @ z # y) = b"
    using assms(1,2) by (auto intro!: takeWhile_tail [THEN trans] takeWhile_append2 [THEN trans])
  with assms(3) show ?thesis by auto
qed

text \<open>A domain has no NUL byte, so the first one of the hashed bytes ends it.\<close>

lemma domain_preimage_inj:
  assumes "CHR 0x00 \<notin> set s" "CHR 0x00 \<notin> set t"
  shows "text_bytes (s @ [CHR 0x00]) @ canonical_json v = text_bytes (t @ [CHR 0x00]) @ canonical_json w
    \<longleftrightarrow> s = t \<and> cnorm v = cnorm w"
proof -
  have "text_bytes (s @ [CHR 0x00]) @ canonical_json v = text_bytes (s @ CHR 0x00 # cdumps v)" for s v
    by (simp add: canonical_json_def text_bytes_def)
  then show ?thesis
    using split_at_nul [OF assms, of "cdumps v" "cdumps w"] by (auto simp: text_bytes_inj cdumps_eq_iff)
qed

lemma ring_preimage_inj:
  assumes "CHR 0x00 \<notin> set s" "CHR 0x00 \<notin> set t"
  shows "ring_preimage s v = ring_preimage t w \<longleftrightarrow> s = t \<and> cnorm v = cnorm w"
proof -
  have "CHR 0x00 \<notin> set (''JMP0014/'' @ x @ ''/v1'')" if "CHR 0x00 \<notin> set x" for x :: string
    using that by auto
  from domain_preimage_inj [OF this this, OF assms]
  show ?thesis unfolding ring_preimage_def by simp
qed

text \<open>C26: What participants hash and sign names one object. As long as SHA-256 does not collide on the byte
  strings at hand, two manifests with the same \<open>manifest_hash\<close> are equal in every field (participants,
  edges with their policies, outputs, transaction), two readiness attestations with the same signed hash
  are equal, two readiness states with the same state hash are equal, and no manifest hash is the hash
  of an attestation.
\<close>

theorem ring_hash_binding:
  assumes "inj_on (rl_sha256 lib)
     {ring_preimage ''manifest'' (manifest_value m), ring_preimage ''manifest'' (manifest_value m'),
      ring_preimage ''ready'' (attestation_value a), ring_preimage ''ready'' (attestation_value b),
      ring_preimage ''ready-state'' (readiness_value s), ring_preimage ''ready-state'' (readiness_value t)}"
  shows "(manifest_hash lib m = manifest_hash lib m' \<longleftrightarrow> m = m') \<and>
    (ring_hash lib ''ready'' (attestation_value a) = ring_hash lib ''ready'' (attestation_value b) \<longleftrightarrow> a = b) \<and>
    (ring_hash lib ''ready-state'' (readiness_value s) = ring_hash lib ''ready-state'' (readiness_value t) \<longleftrightarrow> s = t) \<and>
    manifest_hash lib m \<noteq> ring_hash lib ''ready'' (attestation_value a)"
proof -
  have iff: "rl_sha256 lib x = rl_sha256 lib y \<longleftrightarrow> x = y"
    if "x \<in> {ring_preimage ''manifest'' (manifest_value m), ring_preimage ''manifest'' (manifest_value m'),
      ring_preimage ''ready'' (attestation_value a), ring_preimage ''ready'' (attestation_value b),
      ring_preimage ''ready-state'' (readiness_value s), ring_preimage ''ready-state'' (readiness_value t)}"
      "y \<in> {ring_preimage ''manifest'' (manifest_value m), ring_preimage ''manifest'' (manifest_value m'),
      ring_preimage ''ready'' (attestation_value a), ring_preimage ''ready'' (attestation_value b),
      ring_preimage ''ready-state'' (readiness_value s), ring_preimage ''ready-state'' (readiness_value t)}" for x y
    using inj_on_eq_iff [OF assms that] .
  have p: "ring_preimage ''manifest'' v = ring_preimage ''manifest'' w \<longleftrightarrow> cnorm v = cnorm w"
    "ring_preimage ''ready'' v = ring_preimage ''ready'' w \<longleftrightarrow> cnorm v = cnorm w"
    "ring_preimage ''ready-state'' v = ring_preimage ''ready-state'' w \<longleftrightarrow> cnorm v = cnorm w"
    "ring_preimage ''manifest'' v \<noteq> ring_preimage ''ready'' w" for v w
    by (simp_all add: ring_preimage_inj)
  show ?thesis
    unfolding manifest_hash_def ring_hash_def by (intro conjI; subst iff) (simp_all add: p value_inj)
qed

theorem ring_hash_binding_witness:
  "manifest_hash (ex_lib\<lparr>rl_sha256 := \<lambda>b. b\<rparr>) ex_manifest
   \<noteq> manifest_hash (ex_lib\<lparr>rl_sha256 := \<lambda>b. b\<rparr>) (ex_manifest\<lparr>rm_revision := 1\<rparr>)"
proof -
  have "inj_on (rl_sha256 (ex_lib\<lparr>rl_sha256 := \<lambda>b. b\<rparr>)) X" for X by (simp add: inj_on_def)
  note h = this
  have "rm_revision ex_manifest \<noteq> rm_revision (ex_manifest\<lparr>rm_revision := 1\<rparr>)" by (simp add: ex_manifest_def)
  then have "ex_manifest \<noteq> ex_manifest\<lparr>rm_revision := 1\<rparr>" by (rule contrapos_nn) (rule arg_cong)
  then show ?thesis by (rule contrapos_nn) (erule ring_hash_binding [OF h, THEN conjunct1, THEN iffD1])
qed

end
