(* ===== verification/Py_Base64.thy ===== *)
theory Py_Base64
  imports Py_Bytes
begin

text \<open>
  Python's \<open>base64\<close> as the ring protocol uses it: \<open>b64encode\<close>, \<open>urlsafe_b64encode\<close> without its
  padding, and \<open>b64decode\<close> with \<open>validate=True\<close>, which accepts characters of the alphabet followed by at
  most two padding characters, ignores padding after a complete group and drops left-over bits.
\<close>

definition std_char :: "nat \<Rightarrow> char" where
  "std_char n =
     (if n < 26 then char_of (65 + n) else if n < 52 then char_of (71 + n) else if n < 62 then char_of (n - 4)
      else if n = 62 then CHR ''+'' else CHR ''/'')"

definition url_char :: "nat \<Rightarrow> char" where
  "url_char n = (if n = 62 then CHR ''-'' else if n = 63 then CHR ''_'' else std_char n)"

definition std_index :: "char \<Rightarrow> nat option" where
  "std_index c = (let n = (of_char c :: nat) in
     if 65 \<le> n \<and> n \<le> 90 then Some (n - 65) else if 97 \<le> n \<and> n \<le> 122 then Some (n - 71)
     else if 48 \<le> n \<and> n \<le> 57 then Some (n + 4) else if c = CHR ''+'' then Some 62
     else if c = CHR ''/'' then Some 63 else None)"

definition url_index :: "char \<Rightarrow> nat option" where
  "url_index c = (if c = CHR ''-'' then Some 62 else if c = CHR ''_'' then Some 63
     else if c = CHR ''+'' \<or> c = CHR ''/'' then None else std_index c)"

fun sextets :: "bytes \<Rightarrow> nat list" where
  "sextets [] = []"
| "sextets [a] = [unat a div 4, unat a mod 4 * 16]"
| "sextets [a, b] = [unat a div 4, unat a mod 4 * 16 + unat b div 16, unat b mod 16 * 4]"
| "sextets (a # b # c # r) =
     unat a div 4 # (unat a mod 4 * 16 + unat b div 16) # (unat b mod 16 * 4 + unat c div 64) # unat c mod 64 # sextets r"

fun octets :: "nat list \<Rightarrow> bytes option" where
  "octets [] = Some []"
| "octets [x] = None"
| "octets [x, y] = Some [word_of_nat (x * 4 + y div 16)]"
| "octets [x, y, z] = Some [word_of_nat (x * 4 + y div 16), word_of_nat (y mod 16 * 16 + z div 4)]"
| "octets (x # y # z # w # r) =
     map_option (\<lambda>bs. word_of_nat (x * 4 + y div 16) # word_of_nat (y mod 16 * 16 + z div 4) # word_of_nat (z mod 4 * 64 + w) # bs)
       (octets r)"

definition padding :: "bytes \<Rightarrow> string" where
  "padding bs = (case length bs mod 3 of 0 \<Rightarrow> [] | Suc 0 \<Rightarrow> ''=='' | _ \<Rightarrow> ''='')"

definition b64encode :: "bytes \<Rightarrow> string" where
  "b64encode bs = map std_char (sextets bs) @ padding bs"

definition urlsafe_unpadded :: "bytes \<Rightarrow> string" where
  "urlsafe_unpadded bs = map url_char (sextets bs)"

fun pads_ok :: "nat \<Rightarrow> nat \<Rightarrow> bool" where
  "pads_ok n pads = (n mod 4 = 0 \<or> n mod 4 = 2 \<and> 2 \<le> pads \<or> n mod 4 = 3 \<and> 1 \<le> pads)"

definition b64decode :: "(char \<Rightarrow> nat option) \<Rightarrow> string \<Rightarrow> bytes option" where
  "b64decode index s =
     (let data = takeWhile (\<lambda>c. c \<noteq> CHR ''='') s; pads = dropWhile (\<lambda>c. c \<noteq> CHR ''='') s in
      if \<not> (list_all (\<lambda>c. c = CHR ''='') pads \<and> length pads \<le> 2 \<and> pads_ok (length data) (length pads)) then None
      else Option.bind (those (map index data)) octets)"

lemma div_less: "n < 256 \<Longrightarrow> 0 < k \<Longrightarrow> k * (256 div k) = 256 \<Longrightarrow> n div k < 256 div k" for n k :: nat
  by (metis less_mult_imp_div_less mult.commute)

lemma octets_sextets: "octets (sextets bs) = Some bs"
proof (induction bs rule: sextets.induct)
  case (2 a)
  show ?case by simp
next
  case (3 a b)
  have "unat a div 4 * 4 + (unat a mod 4 * 16 + unat b div 16) div 16 = unat a"
    "(unat a mod 4 * 16 + unat b div 16) mod 16 * 16 + unat b mod 16 * 4 div 4 = unat b"
    using byte_less_256 [of a] byte_less_256 [of b] by (simp_all add: div_add_self1 less_mult_imp_div_less)
  then show ?case by simp
next
  case (4 a b c r)
  have "unat a div 4 * 4 + (unat a mod 4 * 16 + unat b div 16) div 16 = unat a"
    "(unat a mod 4 * 16 + unat b div 16) mod 16 * 16 + (unat b mod 16 * 4 + unat c div 64) div 4 = unat b"
    "(unat b mod 16 * 4 + unat c div 64) mod 4 * 64 + unat c mod 64 = unat c"
    using div_less [OF byte_less_256 [of b], of 16] div_less [OF byte_less_256 [of c], of 64] by simp_all
  with 4 show ?case by simp
qed simp

lemma sextets_less: "n \<in> set (sextets bs) \<Longrightarrow> n < 64"
proof (induction bs rule: sextets.induct)
  case (2 a)
  then show ?case using byte_less_256 [of a] by auto
next
  case (3 a b)
  then show ?case using byte_less_256 [of a] byte_less_256 [of b] by auto
next
  case (4 a b c r)
  then show ?case using byte_less_256 [of a] byte_less_256 [of b] byte_less_256 [of c] by auto
qed simp

lemma length_sextets: "length (sextets bs) mod 4 = (case length bs mod 3 of 0 \<Rightarrow> 0 | Suc 0 \<Rightarrow> 2 | _ \<Rightarrow> 3)"
proof (induction bs rule: sextets.induct)
  case (4 a b c r)
  have "length (sextets (a # b # c # r)) mod 4 = length (sextets r) mod 4" "length (a # b # c # r) mod 3 = length r mod 3"
    by simp_all
  with 4 show ?case by metis
qed (simp_all add: numeral_2_eq_2)

lemma std_index_char: "n < 64 \<Longrightarrow> std_index (std_char n) = Some n"
  by (auto simp: std_index_def std_char_def Let_def)

lemma std_char_not_pad: "n < 64 \<Longrightarrow> std_char n \<noteq> CHR ''=''"
  using std_index_char [of n] by (auto simp: std_index_def)

lemma url_index_char: "n < 64 \<Longrightarrow> url_index (url_char n) = Some n"
proof -
  assume n: "n < 64"
  have "std_char n \<notin> {CHR ''-'', CHR ''_'', CHR ''+'', CHR ''/''}" if "n < 62"
    using that std_index_char [OF n] by (auto simp: std_index_def)
  with n std_index_char [OF n] show ?thesis by (auto simp: url_index_def url_char_def)
qed

lemma url_char_not_pad: "n < 64 \<Longrightarrow> url_char n \<noteq> CHR ''=''"
  using std_char_not_pad by (auto simp: url_char_def)

lemma b64decode_sextets:
  assumes "\<And>n. n < 64 \<Longrightarrow> index (ch n) = Some n" "\<And>n. n < 64 \<Longrightarrow> ch n \<noteq> CHR ''=''"
    "length pads \<le> 2" "list_all (\<lambda>c. c = CHR ''='') pads" "pads_ok (length (sextets bs)) (length pads)"
  shows "b64decode index (map ch (sextets bs) @ pads) = Some bs"
proof -
  have data: "list_all (\<lambda>c. c \<noteq> CHR ''='') (map ch (sextets bs))"
    using assms(2) sextets_less by (auto simp: list_all_iff)
  have ends: "takeWhile (\<lambda>c. c \<noteq> CHR ''='') pads = []" "dropWhile (\<lambda>c. c \<noteq> CHR ''='') pads = pads"
    using assms(4) by (cases pads; simp)+
  have "takeWhile (\<lambda>c. c \<noteq> CHR ''='') (map ch (sextets bs) @ pads) = map ch (sextets bs)"
    "dropWhile (\<lambda>c. c \<noteq> CHR ''='') (map ch (sextets bs) @ pads) = pads"
    using data ends by (simp_all add: takeWhile_append dropWhile_append list_all_iff)
  moreover have "those (map index (map ch xs)) = Some xs" if "set xs \<subseteq> {..<64}" for xs
    using that assms(1) by (induction xs) auto
  then have "those (map index (map ch (sextets bs))) = Some (sextets bs)" using sextets_less by blast
  ultimately show ?thesis using assms(3-5) by (simp add: b64decode_def octets_sextets del: map_map)
qed

lemma b64decode_encode: "b64decode std_index (b64encode bs) = Some bs"
  unfolding b64encode_def
  by (rule b64decode_sextets)
    (auto simp: std_index_char std_char_not_pad padding_def length_sextets split: nat.splits)

lemma b64decode_urlsafe:
  "b64decode url_index (urlsafe_unpadded bs @ replicate ((4 - length (urlsafe_unpadded bs) mod 4) mod 4) (CHR ''='')) = Some bs"
  unfolding urlsafe_unpadded_def
  by (rule b64decode_sextets)
    (auto simp: url_index_char url_char_not_pad length_sextets list_all_iff split: nat.splits)

end
