(* ===== verification/Btc_Psbt.thy ===== *)
theory Btc_Psbt
  imports Btc_Tx Py_Dict
begin

text \<open>
  Partially signed transactions. The strict parser and the serialiser of \<open>jmwallet/wallet/psbt.py\<close> for
  BIP174 version 0 and BIP370 version 2, the writer \<open>create_psbt\<close> of \<open>jmcore/bitcoin.py\<close>, the writer
  \<open>build_unsigned_psbt\<close> of \<open>jmswap/lnd.py\<close> and the reader \<open>_psbt_unsigned_transaction\<close> of
  \<open>jmcore/cofunded_ring.py\<close>. A map is the list of its records in file order. \<open>PSBTError\<close> and
  \<open>LndValidationError\<close> are \<open>ValueError\<close>s.
\<close>

section \<open>Reading maps\<close>

type_synonym psbt_map = "(bytes \<times> bytes) list"

datatype map_kind = GlobalMap | InputMap | OutputMap

definition PSBT_MAGIC :: bytes where
  "PSBT_MAGIC = [0x70, 0x73, 0x62, 0x74, 0xFF]"

definition psbt_append :: "psbt_map \<Rightarrow> bytes \<Rightarrow> bytes \<Rightarrow> psbt_map res" where
  "psbt_append m key value =
     (if key = [] then Inl (ValueError ''PSBT map keys must not be empty'')
      else if list_ex (\<lambda>r. fst r = key) m then Inl (ValueError ''Duplicate PSBT key'')
      else Inr (m @ [(key, value)]))"

fun psbt_records :: "psbt_map \<Rightarrow> bytes res" where
  "psbt_records [] = Inr []"
| "psbt_records ((key, value) # m) =
     bind_res (enc_blob key) (\<lambda>k. bind_res (enc_blob value) (\<lambda>v. map_res (\<lambda>bs. k @ v @ bs) (psbt_records m)))"

definition psbt_map_serialize :: "psbt_map \<Rightarrow> bytes res" where
  "psbt_map_serialize m = map_res (\<lambda>bs. bs @ [0]) (psbt_records m)"

definition psbt_read_bytes :: "bytes \<Rightarrow> nat \<Rightarrow> nat \<Rightarrow> (bytes \<times> nat) res" where
  "psbt_read_bytes data offset len =
     (if int len > int (length data) - int offset then Inl (ValueError ''Truncated'')
      else Inr (slice data offset (offset + len), offset + len))"

definition psbt_compact_size :: "bytes \<Rightarrow> nat \<Rightarrow> (nat \<times> nat) res" where
  "psbt_compact_size data offset =
     (if offset \<ge> length data then Inl (ValueError ''Truncated'')
      else let first = data ! offset in
        if unat first < 0xFD then Inr (unat first, offset + 1)
        else
          let len = (if first = 0xFD then 2 else if first = 0xFE then 4 else 8);
              minimum = (if first = 0xFD then 0xFD else if first = 0xFE then 0x10000 else 0x100000000) in
          bind_res (psbt_read_bytes data (offset + 1) len) (\<lambda>(encoded, offset).
            if le_nat encoded < minimum then Inl (ValueError ''Noncanonical CompactSize'')
            else Inr (le_nat encoded, offset)))"

fun singleton_types :: "map_kind \<Rightarrow> byte list" where
  "singleton_types GlobalMap = [0x00, 0x02, 0x03, 0x04, 0x05, 0x06, 0xFB]"
| "singleton_types InputMap = [0x00, 0x01, 0x03, 0x04, 0x05, 0x07, 0x08, 0x09, 0x0E, 0x0F, 0x10, 0x11, 0x12]"
| "singleton_types OutputMap = [0x00, 0x01, 0x03, 0x04]"

fun keyed_pubkey_types :: "map_kind \<Rightarrow> byte list" where
  "keyed_pubkey_types GlobalMap = []"
| "keyed_pubkey_types InputMap = [0x02, 0x06]"
| "keyed_pubkey_types OutputMap = [0x02]"

definition psbt_validate_key :: "map_kind \<Rightarrow> bytes \<Rightarrow> unit res" where
  "psbt_validate_key kind key =
     (case key of
        [] \<Rightarrow> Inl (ValueError ''PSBT map keys must not be empty'')
      | key_type # _ \<Rightarrow> raise_if
          [(key_type \<in> set (singleton_types kind) \<and> length key \<noteq> 1, ''PSBT singleton key must not carry key data''),
           (kind = GlobalMap \<and> key_type = 0x01 \<and> length key \<noteq> 79,
              ''PSBT global xpub key must contain a 78-byte extended public key''),
           (key_type \<in> set (keyed_pubkey_types kind) \<and> (length key \<noteq> 34 \<or> key ! 1 \<noteq> 2 \<and> key ! 1 \<noteq> 3),
              ''PSBT key must contain a compressed public key'')])"

lemma psbt_read_bytes_progress:
  "psbt_read_bytes data off n = Inr (bs, off') \<Longrightarrow>
     bs = slice data off off' \<and> length bs = n \<and> off' = off + n \<and> (n > 0 \<or> off \<le> length data \<longrightarrow> off' \<le> length data)"
  by (auto simp: psbt_read_bytes_def split: if_splits)

lemma psbt_compact_size_progress:
  "psbt_compact_size data off = Inr (n, off') \<Longrightarrow> off < off' \<and> off' \<le> length data"
  by (auto simp: psbt_compact_size_def Let_def bind_res_Inr_iff dest!: psbt_read_bytes_progress split: if_splits)

function psbt_read_map :: "map_kind \<Rightarrow> bytes \<Rightarrow> nat \<Rightarrow> psbt_map \<Rightarrow> (psbt_map \<times> nat) res" where
  "psbt_read_map kind data offset parsed_map =
     bind_res (psbt_compact_size data offset) (\<lambda>(key_length, offset1).
       if key_length = 0 then Inr (parsed_map, offset1)
       else
         bind_res (psbt_read_bytes data offset1 key_length) (\<lambda>(key, offset2).
         bind_res (psbt_validate_key kind key) (\<lambda>_.
         bind_res (psbt_compact_size data offset2) (\<lambda>(value_length, offset3).
         bind_res (psbt_read_bytes data offset3 value_length) (\<lambda>(value, offset4).
         bind_res (psbt_append parsed_map key value) (\<lambda>parsed_map.
           psbt_read_map kind data offset4 parsed_map))))))"
  by pat_completeness auto
termination
  by (relation "measure (\<lambda>(kind, data, offset, m). length data - offset)")
    (auto dest!: psbt_compact_size_progress psbt_read_bytes_progress)

declare psbt_read_map.simps [simp del]

fun psbt_read_maps :: "map_kind \<Rightarrow> bytes \<Rightarrow> nat \<Rightarrow> nat \<Rightarrow> (psbt_map list \<times> nat) res" where
  "psbt_read_maps kind data offset 0 = Inr ([], offset)"
| "psbt_read_maps kind data offset (Suc n) =
     (if offset = length data then Inl (ValueError ''Truncated PSBT: missing map'')
      else bind_res (psbt_read_map kind data offset []) (\<lambda>(m, offset).
           map_res (\<lambda>(ms, offset). (m # ms, offset)) (psbt_read_maps kind data offset n)))"

section \<open>The values of the records\<close>

definition psbt_find_value :: "psbt_map \<Rightarrow> byte \<Rightarrow> bytes option" where
  "psbt_find_value m key_type = map_option snd (find (\<lambda>r. fst r = [key_type]) m)"

definition psbt_require :: "string \<Rightarrow> psbt_map \<Rightarrow> byte \<Rightarrow> bytes res" where
  "psbt_require msg m key_type =
     (case psbt_find_value m key_type of None \<Rightarrow> Inl (ValueError msg) | Some v \<Rightarrow> Inr v)"

definition psbt_exact_compact_size :: "bytes \<Rightarrow> nat res" where
  "psbt_exact_compact_size value =
     bind_res (psbt_compact_size value 0) (\<lambda>(n, offset).
       if offset \<noteq> length value then Inl (ValueError ''Trailing data'') else Inr n)"

definition parse_witness_utxo :: "bytes \<Rightarrow> (int \<times> bytes) res" where
  "parse_witness_utxo value =
     (if length value < 8 then Inl (ValueError ''Truncated witness UTXO value'')
      else let amount = unpack_u (take 8 value) in
        if amount > MAX_MONEY then Inl (ValueError ''Witness UTXO amount exceeds Bitcoin MAX_MONEY'')
        else bind_res (psbt_compact_size value 8) (\<lambda>(script_length, offset).
          let remaining = int (length value) - int offset in
          if int script_length > remaining then Inl (ValueError ''Truncated witness UTXO scriptPubKey'')
          else if int script_length \<noteq> remaining then Inl (ValueError ''Trailing data after witness UTXO scriptPubKey'')
          else Inr (amount, drop offset value)))"

definition validate_key_origin_value :: "bytes \<Rightarrow> unit res" where
  "validate_key_origin_value value =
     guard_res (4 \<le> length value \<and> (length value - 4) mod 4 = 0)
       (ValueError ''PSBT key origin must contain a fingerprint and uint32 path'')"

fun uint32s :: "bytes \<Rightarrow> int list" where
  "uint32s (a # b # c # d # r) = unpack_u [a, b, c, d] # uint32s r"
| "uint32s _ = []"

definition parse_bip32_derivation :: "bytes \<Rightarrow> bytes \<Rightarrow> (bytes \<times> bytes \<times> int list) res" where
  "parse_bip32_derivation key value =
     (if length key \<noteq> 34 then Inl (ValueError ''BIP32 derivation key must contain a type byte and 33-byte public key'')
      else if key ! 1 \<noteq> 2 \<and> key ! 1 \<noteq> 3 then Inl (ValueError ''BIP32 derivation key must contain a compressed public key'')
      else map_res (\<lambda>_. (tl key, take 4 value, uint32s (drop 4 value))) (validate_key_origin_value value))"

definition PSBT_LOCKTIME_THRESHOLD :: int where
  "PSBT_LOCKTIME_THRESHOLD = 500000000"

definition validate_required_locktime :: "bytes \<Rightarrow> bool \<Rightarrow> unit res" where
  "validate_required_locktime value height_based = raise_if
     [(length value \<noteq> 4, ''PSBT input required locktime must be a 4-byte uint32''),
      (height_based \<and> \<not> (0 < unpack_u value \<and> unpack_u value < PSBT_LOCKTIME_THRESHOLD),
         ''PSBT input required height-based locktime out of range''),
      (\<not> height_based \<and> unpack_u value < PSBT_LOCKTIME_THRESHOLD, ''PSBT input required time-based locktime out of range'')]"

definition validate_global_value :: "byte \<Rightarrow> bytes \<Rightarrow> unit res" where
  "validate_global_value key_type value =
     (if key_type = 0x01 then validate_key_origin_value value
      else if key_type = 0x02 \<and> length value \<noteq> 4 then Inl (ValueError ''PSBT transaction version must be a 4-byte integer'')
      else if key_type = 0x03 \<and> length value \<noteq> 4 then Inl (ValueError ''PSBT fallback locktime must be a 4-byte uint32'')
      else if key_type = 0x04 \<or> key_type = 0x05 then map_res (\<lambda>_. ()) (psbt_exact_compact_size value)
      else if key_type = 0x06 \<and> length value \<noteq> 1 then Inl (ValueError ''PSBT transaction modifiable flags must be a single byte'')
      else Inr ())"

definition validate_input_value :: "bytes \<Rightarrow> bytes \<Rightarrow> unit res" where
  "validate_input_value key value =
     (let key_type = key ! 0 in
      if key_type = 0x01 then map_res (\<lambda>_. ()) (parse_witness_utxo value)
      else if key_type = 0x03 \<and> length value \<noteq> 4 then Inl (ValueError ''PSBT input sighash type must be a 4-byte uint32'')
      else if key_type = 0x02 \<and> value = [] then Inl (ValueError ''PSBT input partial signature must not be empty'')
      else if key_type = 0x06 then map_res (\<lambda>_. ()) (parse_bip32_derivation key value)
      else if key_type = 0x0E \<and> length value \<noteq> 32 then Inl (ValueError ''PSBT input previous txid must be 32 bytes'')
      else if key_type = 0x0F \<and> length value \<noteq> 4 then Inl (ValueError ''PSBT input spent output index must be a 4-byte uint32'')
      else if key_type = 0x10 \<and> length value \<noteq> 4 then Inl (ValueError ''PSBT input sequence must be a 4-byte uint32'')
      else if key_type = 0x11 then validate_required_locktime value False
      else if key_type = 0x12 then validate_required_locktime value True
      else Inr ())"

definition validate_output_value :: "bytes \<Rightarrow> bytes \<Rightarrow> unit res" where
  "validate_output_value key value =
     (let key_type = key ! 0 in
      if key_type = 0x02 then map_res (\<lambda>_. ()) (parse_bip32_derivation key value)
      else if key_type = 0x03 then
        (if length value \<noteq> 8 then Inl (ValueError ''PSBT output amount must be an 8-byte integer'')
         else if unpack_q value < 0 \<or> unpack_q value > MAX_MONEY
         then Inl (ValueError ''PSBT output amount is outside the Bitcoin money range'') else Inr ())
      else Inr ())"

fun v2_only_key_types :: "map_kind \<Rightarrow> byte list" where
  "v2_only_key_types GlobalMap = [0x02, 0x03, 0x04, 0x05, 0x06]"
| "v2_only_key_types InputMap = [0x0E, 0x0F, 0x10, 0x11, 0x12]"
| "v2_only_key_types OutputMap = [0x03, 0x04]"

definition psbt_validate_record :: "map_kind \<Rightarrow> int \<Rightarrow> bytes \<times> bytes \<Rightarrow> unit res" where
  "psbt_validate_record kind version r =
     (if version = 0 \<and> fst r ! 0 \<in> set (v2_only_key_types kind)
      then Inl (ValueError ''PSBT key type is a BIP370 field that is not allowed in PSBT v0'')
      else case kind of
        GlobalMap \<Rightarrow> validate_global_value (fst r ! 0) (snd r)
      | InputMap \<Rightarrow> validate_input_value (fst r) (snd r)
      | OutputMap \<Rightarrow> validate_output_value (fst r) (snd r))"

definition validate_map_records :: "map_kind \<Rightarrow> psbt_map \<Rightarrow> int \<Rightarrow> unit res" where
  "validate_map_records kind m version = all_res (map (psbt_validate_record kind version) m)"

section \<open>Parsing and serialising\<close>

record parsed_psbt =
  px_unsigned_tx :: bytes
  px_transaction :: parsed_transaction
  px_global_map :: psbt_map
  px_input_maps :: "psbt_map list"
  px_output_maps :: "psbt_map list"
  px_version :: int

definition psbt_serialize :: "parsed_psbt \<Rightarrow> bytes res" where
  "psbt_serialize p =
     map_res (\<lambda>bss. PSBT_MAGIC @ concat bss)
       (mapM_res psbt_map_serialize (px_global_map p # px_input_maps p @ px_output_maps p))"

definition append_input_key_value :: "parsed_psbt \<Rightarrow> int \<Rightarrow> bytes \<Rightarrow> bytes \<Rightarrow> parsed_psbt res" where
  "append_input_key_value p input_index key value =
     (if input_index < 0 \<or> input_index \<ge> int (length (px_input_maps p))
      then Inl (ValueError ''PSBT input index out of range'')
      else
        bind_res (psbt_validate_key InputMap key) (\<lambda>_.
        bind_res (validate_map_records InputMap [(key, value)] (px_version p)) (\<lambda>_.
        map_res (\<lambda>m. p\<lparr>px_input_maps := (px_input_maps p)[nat input_index := m]\<rparr>)
          (psbt_append (px_input_maps p ! nat input_index) key value))))"

definition psbt_read_version :: "psbt_map \<Rightarrow> int res" where
  "psbt_read_version global_map =
     (case filter (\<lambda>r. fst r = [0xFB]) global_map of
        [] \<Rightarrow> Inr 0
      | [(_, encoded)] \<Rightarrow>
          if length encoded \<noteq> 4 then Inl (ValueError ''PSBT version must be a 4-byte uint32'')
          else if unpack_u encoded \<noteq> 0 \<and> unpack_u encoded \<noteq> 2 then Inl (ValueError ''Only PSBT version 0 or 2 is supported'')
          else Inr (unpack_u encoded)
      | _ \<Rightarrow> Inl (ValueError ''PSBT global map has multiple version records''))"

definition get_unsigned_transaction :: "psbt_map \<Rightarrow> bytes res" where
  "get_unsigned_transaction global_map =
     (case filter (\<lambda>r. fst r = [0x00]) global_map of
        [] \<Rightarrow> Inl (ValueError ''PSBT global map is missing the unsigned transaction'')
      | [(_, tx)] \<Rightarrow> Inr tx
      | _ \<Rightarrow> Inl (ValueError ''PSBT global map has multiple unsigned transactions''))"

definition read_remaining_maps :: "bytes \<Rightarrow> nat \<Rightarrow> nat \<Rightarrow> nat \<Rightarrow> int \<Rightarrow> (psbt_map list \<times> psbt_map list) res" where
  "read_remaining_maps data offset input_count output_count version =
     bind_res (psbt_read_maps InputMap data offset input_count) (\<lambda>(input_maps, offset).
     bind_res (psbt_read_maps OutputMap data offset output_count) (\<lambda>(output_maps, offset).
     bind_res (all_res (map (\<lambda>m. validate_map_records InputMap m version) input_maps)) (\<lambda>_.
     bind_res (all_res (map (\<lambda>m. validate_map_records OutputMap m version) output_maps)) (\<lambda>_.
       if offset \<noteq> length data then Inl (ValueError ''Trailing data after PSBT maps'')
       else Inr (input_maps, output_maps)))))"

definition parse_psbt_v0 :: "bytes \<Rightarrow> nat \<Rightarrow> psbt_map \<Rightarrow> parsed_psbt res" where
  "parse_psbt_v0 data offset global_map =
     bind_res (get_unsigned_transaction global_map) (\<lambda>unsigned_tx.
       case parse_transaction_bytes unsigned_tx of
         Inl _ \<Rightarrow> Inl (ValueError ''Invalid PSBT unsigned transaction'')
       | Inr transaction \<Rightarrow>
           if pt_has_witness transaction
           then Inl (ValueError ''PSBT unsigned transaction must not contain witness data'')
           else if list_ex (\<lambda>i. ti_scriptsig i \<noteq> []) (pt_inputs transaction)
           then Inl (ValueError ''PSBT unsigned transaction must have empty scriptSigs'')
           else
             map_res (\<lambda>(input_maps, output_maps).
                 \<lparr>px_unsigned_tx = unsigned_tx, px_transaction = transaction, px_global_map = global_map,
                  px_input_maps = input_maps, px_output_maps = output_maps, px_version = 0\<rparr>)
               (read_remaining_maps data offset (length (pt_inputs transaction)) (length (pt_outputs transaction)) 0))"

definition SEQUENCE_FINAL :: int where
  "SEQUENCE_FINAL = 0xFFFFFFFF"

definition v2_input :: "psbt_map \<Rightarrow> tx_input res" where
  "v2_input m =
     bind_res (psbt_require ''PSBT v2 input is missing the previous txid'' m 0x0E) (\<lambda>txid.
     bind_res (psbt_require ''PSBT v2 input is missing the spent output index'' m 0x0F) (\<lambda>vout.
       Inr \<lparr>ti_txid_le = txid, ti_vout = unpack_u vout, ti_scriptsig = [],
            ti_sequence = (case psbt_find_value m 0x10 of None \<Rightarrow> SEQUENCE_FINAL | Some s \<Rightarrow> unpack_u s),
            ti_value = 0, ti_scriptpubkey = []\<rparr>))"

definition v2_output :: "psbt_map \<Rightarrow> tx_output res" where
  "v2_output m =
     bind_res (psbt_require ''PSBT v2 output is missing the output amount'' m 0x03) (\<lambda>amount.
     bind_res (psbt_require ''PSBT v2 output is missing the output script'' m 0x04) (\<lambda>script.
       Inr \<lparr>to_value = unpack_q amount, to_script = script\<rparr>))"

text \<open>The locktimes of one kind that the inputs require; an input that requires the other kind alone rules
  this kind out.\<close>

definition required_locktimes :: "byte \<Rightarrow> psbt_map list \<Rightarrow> int list" where
  "required_locktimes key_type ms = map unpack_u (List.map_filter (\<lambda>m. psbt_find_value m key_type) ms)"

definition derive_locktime :: "psbt_map \<Rightarrow> psbt_map list \<Rightarrow> int res" where
  "derive_locktime global_map input_maps =
     (let heights = required_locktimes 0x12 input_maps; times = required_locktimes 0x11 input_maps;
          heights_allowed = list_all (\<lambda>m. psbt_find_value m 0x12 \<noteq> None \<or> psbt_find_value m 0x11 = None) input_maps;
          times_allowed = list_all (\<lambda>m. psbt_find_value m 0x11 \<noteq> None \<or> psbt_find_value m 0x12 = None) input_maps in
      if heights = [] \<and> times = []
      then Inr (case psbt_find_value global_map 0x03 of None \<Rightarrow> 0 | Some v \<Rightarrow> unpack_u v)
      else if heights_allowed then Inr (Max (set heights))
      else if times_allowed then Inr (Max (set times))
      else Inl (ValueError ''PSBT v2 inputs require incompatible locktime types''))"

definition parse_psbt_v2 :: "bytes \<Rightarrow> nat \<Rightarrow> psbt_map \<Rightarrow> parsed_psbt res" where
  "parse_psbt_v2 data offset global_map =
     (if psbt_find_value global_map 0x00 \<noteq> None then Inl (ValueError ''PSBT v2 must not contain an unsigned transaction'')
      else
        bind_res (psbt_require ''PSBT v2 global map is missing the transaction version'' global_map 0x02) (\<lambda>tx_version.
        bind_res (bind_res (psbt_require ''PSBT v2 global map is missing the input count'' global_map 0x04) psbt_exact_compact_size) (\<lambda>input_count.
        bind_res (bind_res (psbt_require ''PSBT v2 global map is missing the output count'' global_map 0x05) psbt_exact_compact_size) (\<lambda>output_count.
        bind_res (read_remaining_maps data offset input_count output_count 2) (\<lambda>(input_maps, output_maps).
        bind_res (mapM_res v2_input input_maps) (\<lambda>inputs.
        bind_res (mapM_res v2_output output_maps) (\<lambda>outputs.
        bind_res (derive_locktime global_map input_maps) (\<lambda>locktime.
        let transaction = \<lparr>pt_version = unpack_u tx_version, pt_inputs = inputs, pt_outputs = outputs,
              pt_witnesses = [], pt_locktime = locktime, pt_has_witness = False\<rparr> in
        map_res (\<lambda>unsigned_tx.
            \<lparr>px_unsigned_tx = unsigned_tx, px_transaction = transaction, px_global_map = global_map,
             px_input_maps = input_maps, px_output_maps = output_maps, px_version = 2\<rparr>)
          (serialize_transaction (pt_version transaction) inputs outputs locktime None)))))))))"

definition parse_psbt :: "bytes \<Rightarrow> parsed_psbt res" where
  "parse_psbt data =
     (if take 5 data \<noteq> PSBT_MAGIC then Inl (ValueError ''Invalid PSBT magic bytes'')
      else
        bind_res (psbt_read_map GlobalMap data 5 []) (\<lambda>(global_map, offset).
        bind_res (psbt_read_version global_map) (\<lambda>version.
        bind_res (validate_map_records GlobalMap global_map version) (\<lambda>_.
          if version = 2 then parse_psbt_v2 data offset global_map
          else parse_psbt_v0 data offset global_map))))"

section \<open>The other readers and writers\<close>

text \<open>\<open>create_psbt\<close> and \<open>build_unsigned_psbt\<close>.\<close>

definition psbt_pair :: "byte \<Rightarrow> bytes \<Rightarrow> bytes \<Rightarrow> bytes res" where
  "psbt_pair key_type value key_data =
     bind_res (enc_blob (key_type # key_data)) (\<lambda>k. map_res (\<lambda>v. k @ v) (enc_blob value))"

record bip32_derivation =
  bd_pubkey :: bytes
  bd_fingerprint :: bytes
  bd_path :: "int list"

definition derivation_post_init :: "bip32_derivation \<Rightarrow> unit res" where
  "derivation_post_init d = raise_if
     [(length (bd_pubkey d) \<noteq> 33, ''pubkey must be 33 bytes''),
      (length (bd_fingerprint d) \<noteq> 4, ''fingerprint must be 4 bytes'')]"

record psbt_input =
  pn_witness_utxo_value :: int
  pn_witness_utxo_script :: bytes
  pn_witness_script :: bytes
  pn_sighash_type :: int
  pn_bip32_derivations :: "bip32_derivation list option"

definition derivation_pair :: "bip32_derivation \<Rightarrow> bytes res" where
  "derivation_pair d =
     bind_res (mapM_res (pack_u 4) (bd_path d)) (\<lambda>path.
       psbt_pair 0x06 (bd_fingerprint d @ concat path) (bd_pubkey d))"

definition create_input_map :: "psbt_input \<Rightarrow> bytes res" where
  "create_input_map pin =
     bind_res (pack_u 8 (pn_witness_utxo_value pin)) (\<lambda>amount.
     bind_res (enc_blob (pn_witness_utxo_script pin)) (\<lambda>script.
     bind_res (psbt_pair 0x01 (amount @ script) []) (\<lambda>utxo.
     bind_res (bind_res (pack_u 4 (pn_sighash_type pin)) (\<lambda>v. psbt_pair 0x03 v [])) (\<lambda>sighash.
     bind_res (if pn_witness_script pin \<noteq> [] then psbt_pair 0x05 (pn_witness_script pin) [] else Inr []) (\<lambda>wscript.
     bind_res (mapM_res derivation_pair (case pn_bip32_derivations pin of None \<Rightarrow> [] | Some ds \<Rightarrow> ds)) (\<lambda>derivs.
       Inr (utxo @ sighash @ wscript @ concat derivs @ [0])))))))"

definition create_psbt ::
  "int \<Rightarrow> tx_input list \<Rightarrow> tx_output list \<Rightarrow> int \<Rightarrow> psbt_input list \<Rightarrow> bytes res" where
  "create_psbt version inputs outputs locktime psbt_inputs =
     (if length inputs \<noteq> length psbt_inputs then Inl (ValueError ''inputs and psbt_inputs must have the same length'')
      else
        bind_res (serialize_transaction version inputs outputs locktime None) (\<lambda>unsigned_tx.
        bind_res (psbt_pair 0x00 unsigned_tx []) (\<lambda>g.
        bind_res (mapM_res create_input_map psbt_inputs) (\<lambda>maps.
          Inr (PSBT_MAGIC @ g @ [0] @ concat maps @ replicate (length outputs) 0)))))"

record witness_utxo =
  wu_value_sat :: int
  wu_script_pubkey :: bytes

definition validate_witness_utxo :: "witness_utxo \<Rightarrow> unit res" where
  "validate_witness_utxo u =
     (let script = wu_script_pubkey u;
          is_v0 = (length script = 22 \<or> length script = 34) \<and> script ! 0 = 0 \<and> unat (script ! 1) = length script - 2;
          is_v1 = length script = 34 \<and> take 2 script = [0x51, 0x20] in
      raise_if [(\<not> 0 < wu_value_sat u, ''Input should be greater than 0''),
        (\<not> (is_v0 \<or> is_v1), ''witness UTXO must be a native SegWit v0 or v1 output'')])"

definition utxo_map :: "witness_utxo \<Rightarrow> bytes res" where
  "utxo_map u =
     bind_res (serialize_output \<lparr>to_value = wu_value_sat u, to_script = wu_script_pubkey u\<rparr>) (\<lambda>v.
       map_res (\<lambda>kv. kv @ [0]) (psbt_pair 0x01 v []))"

definition build_unsigned_psbt :: "(bytes \<Rightarrow> bytes) \<Rightarrow> string \<Rightarrow> witness_utxo list \<Rightarrow> (bytes \<times> string) res" where
  "build_unsigned_psbt hash256 raw_transaction_hex input_utxos =
     (case bind_res (fromhex raw_transaction_hex) (\<lambda>b. map_res (Pair b) (parse_transaction raw_transaction_hex)) of
        Inl _ \<Rightarrow> Inl (ValueError ''external funding transaction is invalid'')
      | Inr (transaction_bytes, tx) \<Rightarrow>
          if length input_utxos \<noteq> length (pt_inputs tx) then Inl (ValueError ''input_utxos and inputs differ in number'')
          else if list_ex (\<lambda>i. ti_scriptsig i \<noteq> []) (pt_inputs tx)
          then Inl (ValueError ''external funding inputs must use native SegWit with empty scriptSig'')
          else if pt_has_witness tx then Inl (ValueError ''external funding transaction must not contain witness data'')
          else
            bind_res (serialize_transaction (pt_version tx) (pt_inputs tx) (pt_outputs tx) (pt_locktime tx) None) (\<lambda>unsigned_tx.
            if unsigned_tx \<noteq> transaction_bytes
            then Inl (ValueError ''external funding transaction must use canonical serialization'')
            else
              bind_res (get_txid hash256 raw_transaction_hex) (\<lambda>txid.
              bind_res (get_txid hash256 (bytes_hex unsigned_tx)) (\<lambda>stripped_txid.
              if stripped_txid \<noteq> txid then Inl (ValueError ''removing witnesses changed the funding transaction TXID'')
              else
                bind_res (psbt_pair 0x00 unsigned_tx []) (\<lambda>g.
                bind_res (mapM_res utxo_map input_utxos) (\<lambda>maps.
                  Inr (PSBT_MAGIC @ g @ [0] @ concat maps @ replicate (length (pt_outputs tx)) 0, txid)))))))"

text \<open>The reader of the ring protocol.\<close>

definition ring_compact_size :: "bytes \<Rightarrow> nat \<Rightarrow> (nat \<times> nat) res" where
  "ring_compact_size data offset =
     (if offset \<ge> length data then Inl (ValueError ''truncated PSBT compact size'')
      else
        let first = data ! offset; offset = offset + 1 in
        if first \<noteq> 0xFD \<and> first \<noteq> 0xFE \<and> first \<noteq> 0xFF then Inr (unat first, offset)
        else
          let width = (if first = 0xFD then 2 else if first = 0xFE then 4 else 8) in
          if offset + width > length data then Inl (ValueError ''truncated PSBT compact size'')
          else
            let value = le_nat (slice data offset (offset + width));
                minimum = (if width = 2 then 0xFD else if width = 4 then 0x10000 else 0x100000000) in
            if value < minimum then Inl (ValueError ''non-canonical PSBT compact size'')
            else Inr (value, offset + width))"

lemma ring_compact_size_progress:
  "ring_compact_size data off = Inr (n, off') \<Longrightarrow> off < off' \<and> off' \<le> length data"
  by (auto simp: ring_compact_size_def Let_def split: if_splits)

function ring_psbt_map :: "bytes \<Rightarrow> nat \<Rightarrow> (bytes, bytes) dict \<Rightarrow> ((bytes, bytes) dict \<times> nat) res" where
  "ring_psbt_map data offset entries =
     bind_res (ring_compact_size data offset) (\<lambda>(key_length, offset1).
       if key_length = 0 then Inr (entries, offset1)
       else if offset1 + key_length > length data then Inl (ValueError ''truncated PSBT key'')
       else
         let key = slice data offset1 (offset1 + key_length) in
         if key \<in> set (dict_keys entries) then Inl (ValueError ''duplicate PSBT key'')
         else bind_res (ring_compact_size data (offset1 + key_length)) (\<lambda>(value_length, offset2).
           if offset2 + value_length > length data then Inl (ValueError ''truncated PSBT value'')
           else ring_psbt_map data (offset2 + value_length)
                  (dict_put key (slice data offset2 (offset2 + value_length)) entries)))"
  by pat_completeness auto
termination
  by (relation "measure (\<lambda>(data, offset, m). length data - offset)") (auto dest!: ring_compact_size_progress)

declare ring_psbt_map.simps [simp del]

fun skip_psbt_maps :: "bytes \<Rightarrow> nat \<Rightarrow> nat \<Rightarrow> nat res" where
  "skip_psbt_maps data offset 0 = Inr offset"
| "skip_psbt_maps data offset (Suc n) =
     bind_res (ring_psbt_map data offset []) (\<lambda>(_, offset). skip_psbt_maps data offset n)"

definition psbt_unsigned_transaction :: "bytes \<Rightarrow> bytes res" where
  "psbt_unsigned_transaction psbt =
     (if take 5 psbt \<noteq> PSBT_MAGIC then Inl (ValueError ''psbt does not have the PSBT magic prefix'')
      else
        bind_res (ring_psbt_map psbt 5 []) (\<lambda>(global_map, offset).
          case dict_get global_map [0x00] of
            None \<Rightarrow> Inl (ValueError ''PSBT has no global unsigned transaction'')
          | Some unsigned_tx \<Rightarrow>
              (case parse_transaction_bytes unsigned_tx of
                 Inl _ \<Rightarrow> Inl (ValueError ''PSBT global unsigned transaction is invalid'')
               | Inr transaction \<Rightarrow>
                   if pt_has_witness transaction \<or> list_ex (\<lambda>i. ti_scriptsig i \<noteq> []) (pt_inputs transaction)
                   then Inl (ValueError ''PSBT global transaction is not unsigned'')
                   else
                     bind_res (skip_psbt_maps psbt offset (length (pt_inputs transaction) + length (pt_outputs transaction))) (\<lambda>offset.
                       if offset \<noteq> length psbt then Inl (ValueError ''PSBT map count does not match its unsigned transaction'')
                       else Inr unsigned_tx))))"

end
