(* ===== verification/Psbt_Roundtrip.thy ===== *)
theory Psbt_Roundtrip
  imports Btc_Psbt
begin

text \<open>
  What the PSBT readers and writers agree on: the strict parser loses nothing, the reader of the ring
  protocol sees the transaction that the strict parser sees, and what \<open>create_psbt\<close> writes is read back.
\<close>

section \<open>Compact sizes\<close>

lemma slice_append: "i \<le> j \<Longrightarrow> j \<le> k \<Longrightarrow> slice xs i j @ slice xs j k = slice xs i k"
proof -
  assume "i \<le> j" "j \<le> k"
  then obtain a b where "j = i + a" "k = i + a + b" by (metis le_Suc_ex)
  then show ?thesis by (simp add: slice_def take_add add.commute)
qed

lemma slice_Cons: "i < length xs \<Longrightarrow> i < j \<Longrightarrow> slice xs i j = xs ! i # slice xs (Suc i) j"
  by (simp add: slice_def Cons_nth_drop_Suc [symmetric] take_Cons')

lemma slice_full: "j = length xs \<Longrightarrow> slice xs i j = drop i xs"
  by (simp add: slice_def)

lemma pack_u_le_nat: "length bs = k \<Longrightarrow> pack_u k (int (le_nat bs)) = Inr bs"
  using le_nat_bound [of bs] le_bytes_le_nat [of bs] by (auto simp: pack_u_def simp flip: of_nat_power of_nat_less_iff)

lemma byte_cases_big:
  fixes b :: byte
  shows "unat b < 0xFD \<longleftrightarrow> b \<noteq> 0xFD \<and> b \<noteq> 0xFE \<and> b \<noteq> 0xFF"
proof -
  have "unat b = 253 \<longleftrightarrow> b = 0xFD" "unat b = 254 \<longleftrightarrow> b = 0xFE" "unat b = 255 \<longleftrightarrow> b = 0xFF"
    using word_unat_eq_iff [of b 253] word_unat_eq_iff [of b 254] word_unat_eq_iff [of b 255] by simp_all
  with byte_less_256 [of b] show ?thesis by linarith
qed

lemma compact_size_canonical:
  assumes "psbt_compact_size data off = Inr (n, off')"
  shows "encode_varint (int n) = Inr (slice data off off')"
proof -
  define first where "first = data ! off"
  from assms have off: "off < length data" by (auto simp: psbt_compact_size_def split: if_splits)
  show ?thesis
  proof (cases "unat first < 0xFD")
    case True
    with assms off have "n = unat first" "off' = Suc off" by (auto simp: psbt_compact_size_def first_def)
    moreover have "slice data off (Suc off) = [first]" using off by (simp add: slice_Cons first_def) (simp add: slice_def)
    moreover have "int (unat first) < 253" using True by linarith
    then have "uint first < 253" by simp
    ultimately show ?thesis by (simp add: encode_varint_def byte1_def)
  next
    case False
    define len where "len = (if first = 0xFD then 2 else if first = 0xFE then 4 else (8 :: nat))"
    obtain enc where e: "psbt_read_bytes data (Suc off) len = Inr (enc, off')" "n = le_nat enc"
      "(if first = 0xFD then 0xFD else if first = 0xFE then 0x10000 else (0x100000000 :: nat)) \<le> n"
      using assms False off by (auto simp: psbt_compact_size_def Let_def first_def len_def bind_res_Inr_iff split: if_splits)
    have enc: "enc = slice data (Suc off) off'" "length enc = len" "off' = Suc off + len"
      using psbt_read_bytes_progress [OF e(1)] by auto
    have sl: "slice data off off' = first # enc" using off enc by (simp add: slice_Cons first_def)
    have bound: "n < 256 ^ len" using le_nat_bound [of enc] enc e(2) by simp
    have "first = 0xFD \<or> first = 0xFE \<or> first = 0xFF" using False byte_cases_big [of first] by blast
    then show ?thesis
      using e(3) bound pack_u_le_nat [OF enc(2)] e(2) sl
      by (auto simp: encode_varint_def len_def split: if_splits)
  qed
qed

lemma ring_compact_size_eq: "ring_compact_size data off = Inr r \<longleftrightarrow> psbt_compact_size data off = Inr r"
proof -
  have big: "first \<noteq> 0xFD \<and> first \<noteq> 0xFE \<and> first \<noteq> 0xFF \<longleftrightarrow> unat first < 0xFD" for first :: byte
    using byte_cases_big by simp
  show ?thesis
    unfolding ring_compact_size_def psbt_compact_size_def psbt_read_bytes_def Let_def big
    by (auto simp: bind_res_Inr_iff split: if_splits)
qed

section \<open>Nothing is lost\<close>

lemma read_map_lossless:
  "psbt_read_map kind data off acc = Inr (m, off') \<Longrightarrow>
     off < off' \<and> off' \<le> length data \<and>
     (\<exists>recs. m = acc @ recs \<and> psbt_map_serialize recs = Inr (slice data off off'))"
proof (induction kind data off acc arbitrary: m off' rule: psbt_read_map.induct)
  case (1 kind data off acc)
  from "1.prems" obtain kl o1 where c: "psbt_compact_size data off = Inr (kl, o1)"
    by (subst (asm) psbt_read_map.simps) (auto simp: bind_res_Inr_iff)
  note p1 = psbt_compact_size_progress [OF c] and e1 = compact_size_canonical [OF c]
  show ?case
  proof (cases "kl = 0")
    case True
    with "1.prems" c have "m = acc" "off' = o1" by (subst (asm) psbt_read_map.simps, simp)+
    moreover have "slice data off o1 = [0]" using e1 True by (simp add: encode_varint_def byte1_def)
    ultimately show ?thesis using p1 by (simp add: psbt_map_serialize_def)
  next
    case False
    from "1.prems" c False obtain key o2 vl o3 val o4 acc' where
      k: "psbt_read_bytes data o1 kl = Inr (key, o2)" and vk: "psbt_validate_key kind key = Inr ()" and
      v: "psbt_compact_size data o2 = Inr (vl, o3)" "psbt_read_bytes data o3 vl = Inr (val, o4)" and
      a: "psbt_append acc key val = Inr acc'" and r: "psbt_read_map kind data o4 acc' = Inr (m, off')"
      by (subst (asm) psbt_read_map.simps) (auto simp: bind_res_Inr_iff)
    note pk = psbt_read_bytes_progress [OF k] and pv = psbt_compact_size_progress [OF v(1)]
      and pw = psbt_read_bytes_progress [OF v(2)] and e2 = compact_size_canonical [OF v(1)]
    have acc': "acc' = acc @ [(key, val)]" using a by (auto simp: psbt_append_def split: if_splits)
    from "1.IH" [OF c refl False k refl vk v(1) refl v(2) refl a r]
    obtain recs where ih: "o4 < off'" "off' \<le> length data" "m = acc' @ recs"
      "psbt_map_serialize recs = Inr (slice data o4 off')" by blast
    have "enc_blob key = Inr (slice data off o2)" "enc_blob val = Inr (slice data o2 o4)"
      using e1 e2 pk pv pw p1 slice_append [of off o1 o2 data] slice_append [of o2 o3 o4 data] by (auto simp: enc_blob_def)
    then have "psbt_map_serialize ((key, val) # recs) = Inr (slice data off o2 @ slice data o2 o4 @ slice data o4 off')"
      using ih(4) by (auto simp: psbt_map_serialize_def map_res_Inr_iff)
    also have "slice data off o2 @ slice data o2 o4 @ slice data o4 off' = slice data off off'"
      using p1 pk pv pw ih(1) by (simp add: slice_append)
    finally show ?thesis using ih p1 pk pv pw acc' by (intro conjI exI [of _ "(key, val) # recs"]) auto
  qed
qed

lemma read_maps_lossless:
  "psbt_read_maps kind data off n = Inr (ms, off') \<Longrightarrow> off \<le> length data \<Longrightarrow>
     off \<le> off' \<and> off' \<le> length data \<and> length ms = n \<and>
     (\<exists>bss. mapM_res psbt_map_serialize ms = Inr bss \<and> concat bss = slice data off off')"
proof (induction kind data off n arbitrary: ms off' rule: psbt_read_maps.induct)
  case (1 kind data off)
  then show ?case by (simp add: slice_def)
next
  case (2 kind data off n)
  then obtain m o1 ms' where r: "psbt_read_map kind data off [] = Inr (m, o1)" "psbt_read_maps kind data o1 n = Inr (ms', off')"
    "ms = m # ms'" and ne: "off \<noteq> length data"
    by (auto simp: bind_res_Inr_iff map_res_Inr_iff split: if_splits)
  from read_map_lossless [OF r(1)] have l: "off < o1" "o1 \<le> length data" "psbt_map_serialize m = Inr (slice data off o1)" by auto
  from "2.IH" [OF ne r(1) refl r(2) l(2)] obtain bss where ih: "o1 \<le> off'" "off' \<le> length data" "length ms' = n"
    "mapM_res psbt_map_serialize ms' = Inr bss" "concat bss = slice data o1 off'" by blast
  with l r(3) slice_append [of off o1 off' data] show ?case by auto
qed

lemma read_remaining_lossless:
  assumes "read_remaining_maps data off n k version = Inr (ims, oms)" "off \<le> length data"
  shows "length ims = n \<and> length oms = k \<and>
    (\<exists>bss. mapM_res psbt_map_serialize (ims @ oms) = Inr bss \<and> concat bss = drop off data)"
proof -
  from assms(1) obtain o1 where r: "psbt_read_maps InputMap data off n = Inr (ims, o1)"
    "psbt_read_maps OutputMap data o1 k = Inr (oms, length data)"
    by (auto simp: read_remaining_maps_def bind_res_Inr_iff split: if_splits)
  from read_maps_lossless [OF r(1) assms(2)] obtain b1 where
    i: "off \<le> o1" "o1 \<le> length data" "length ims = n" "mapM_res psbt_map_serialize ims = Inr b1" "concat b1 = slice data off o1"
    by blast
  from read_maps_lossless [OF r(2) i(2)] obtain b2 where
    o: "length oms = k" "mapM_res psbt_map_serialize oms = Inr b2" "concat b2 = slice data o1 (length data)" by blast
  have "concat (b1 @ b2) = drop off data"
    using i o slice_append [of off o1 "length data" data] by (simp add: slice_full)
  with mapM_res_append [OF i(4) o(2)] i(3) o(1) show ?thesis by blast
qed

lemma parse_psbt_v0_Inr:
  assumes "parse_psbt_v0 data off g = Inr p"
  obtains tx t ims oms where "get_unsigned_transaction g = Inr tx" "parse_transaction_bytes tx = Inr t"
    "\<not> pt_has_witness t" "\<not> list_ex (\<lambda>i. ti_scriptsig i \<noteq> []) (pt_inputs t)"
    "read_remaining_maps data off (length (pt_inputs t)) (length (pt_outputs t)) 0 = Inr (ims, oms)"
    "p = \<lparr>px_unsigned_tx = tx, px_transaction = t, px_global_map = g, px_input_maps = ims, px_output_maps = oms, px_version = 0\<rparr>"
proof -
  from assms obtain tx where tx: "get_unsigned_transaction g = Inr tx" by (auto simp: parse_psbt_v0_def bind_res_Inr_iff)
  with assms obtain t where t: "parse_transaction_bytes tx = Inr t"
    by (cases "parse_transaction_bytes tx") (auto simp: parse_psbt_v0_def)
  from assms tx t that show ?thesis by (auto simp: parse_psbt_v0_def map_res_Inr_iff split: if_splits)
qed

lemma parse_psbt_v2_Inr:
  assumes "parse_psbt_v2 data off g = Inr p"
  obtains n k where "psbt_find_value g 0x00 = None" "px_global_map p = g" "px_version p = 2"
    "read_remaining_maps data off n k 2 = Inr (px_input_maps p, px_output_maps p)"
  using assms by (auto simp: parse_psbt_v2_def bind_res_Inr_iff map_res_Inr_iff Let_def split: if_splits)

lemma parse_psbt_parts:
  assumes "parse_psbt data = Inr p"
  obtains off version where "take 5 data = PSBT_MAGIC" "psbt_read_map GlobalMap data 5 [] = Inr (px_global_map p, off)"
    "psbt_read_version (px_global_map p) = Inr version" "px_version p = version" "version = 0 \<or> version = 2"
    "validate_map_records GlobalMap (px_global_map p) version = Inr ()"
    "read_remaining_maps data off (length (px_input_maps p)) (length (px_output_maps p)) version
       = Inr (px_input_maps p, px_output_maps p)"
    "if version = 2 then parse_psbt_v2 data off (px_global_map p) = Inr p else parse_psbt_v0 data off (px_global_map p) = Inr p"
proof -
  from assms obtain g off version where g: "take 5 data = PSBT_MAGIC" "psbt_read_map GlobalMap data 5 [] = Inr (g, off)"
    "psbt_read_version g = Inr version" "validate_map_records GlobalMap g version = Inr ()"
    "(if version = 2 then parse_psbt_v2 data off g else parse_psbt_v0 data off g) = Inr p"
    by (auto simp: parse_psbt_def bind_res_Inr_iff split: if_splits)
  have v: "version = 0 \<or> version = 2" using g(3) by (auto simp: psbt_read_version_def split: list.splits if_splits)
  have off: "off \<le> length data" using read_map_lossless [OF g(2)] by simp
  have "px_global_map p = g \<and> px_version p = version \<and>
    (\<exists>n k. read_remaining_maps data off n k version = Inr (px_input_maps p, px_output_maps p))"
    using v
  proof
    assume v0: "version = 0"
    with g(5) have "parse_psbt_v0 data off g = Inr p" by simp
    then show ?thesis using v0 by (elim parse_psbt_v0_Inr) auto
  next
    assume v2: "version = 2"
    with g(5) have "parse_psbt_v2 data off g = Inr p" by simp
    then show ?thesis using v2 by (elim parse_psbt_v2_Inr) auto
  qed
  then obtain n k where nk: "px_global_map p = g" "px_version p = version"
    "read_remaining_maps data off n k version = Inr (px_input_maps p, px_output_maps p)" by blast
  with read_remaining_lossless [OF nk(3) off]
  have "read_remaining_maps data off (length (px_input_maps p)) (length (px_output_maps p)) version
       = Inr (px_input_maps p, px_output_maps p)" by auto
  with that g v nk(1,2) show ?thesis by auto
qed

text \<open>C28: The strict PSBT parser is lossless: the records it keeps, in their order, serialise to exactly the
  bytes it accepted, for version 0 and version 2. So a signer that parses, adds its records and serialises
  changes nothing else, and no two byte strings parse to the same PSBT.\<close>

theorem parse_psbt_lossless:
  assumes "parse_psbt data = Inr p"
  shows "psbt_serialize p = Inr data"
proof -
  obtain off version where m: "take 5 data = PSBT_MAGIC" and r: "psbt_read_map GlobalMap data 5 [] = Inr (px_global_map p, off)"
    "read_remaining_maps data off (length (px_input_maps p)) (length (px_output_maps p)) version
       = Inr (px_input_maps p, px_output_maps p)"
    using parse_psbt_parts [OF assms] by metis
  from read_map_lossless [OF r(1)] have g: "5 < off" "off \<le> length data"
    "psbt_map_serialize (px_global_map p) = Inr (slice data 5 off)" by auto
  from read_remaining_lossless [OF r(2) g(2)] obtain bss where
    b: "mapM_res psbt_map_serialize (px_input_maps p @ px_output_maps p) = Inr bss" "concat bss = drop off data" by blast
  have "PSBT_MAGIC @ slice data 5 off @ drop off data = slice data 0 5 @ slice data 5 off @ slice data off (length data)"
    using m by (simp add: slice_def)
  also have "\<dots> = data" using g by (simp add: slice_append) (simp add: slice_def)
  finally show ?thesis using g(3) b by (simp add: psbt_serialize_def)
qed

section \<open>The two readers\<close>

lemma ring_psbt_map_agrees:
  "psbt_read_map kind data off acc = Inr (m, off') \<Longrightarrow> ring_psbt_map data off acc = Inr (m, off')"
proof (induction kind data off acc arbitrary: m off' rule: psbt_read_map.induct)
  case (1 kind data off acc)
  from "1.prems" obtain kl o1 where c: "psbt_compact_size data off = Inr (kl, o1)"
    by (subst (asm) psbt_read_map.simps) (auto simp: bind_res_Inr_iff)
  then have rc: "ring_compact_size data off = Inr (kl, o1)" by (simp add: ring_compact_size_eq)
  show ?case
  proof (cases "kl = 0")
    case True
    with "1.prems" c have "m = acc" "off' = o1" by (subst (asm) psbt_read_map.simps, simp)+
    with True rc show ?thesis by (subst ring_psbt_map.simps) simp
  next
    case False
    from "1.prems" c False obtain key o2 vl o3 val o4 acc' where
      k: "psbt_read_bytes data o1 kl = Inr (key, o2)" and vk: "psbt_validate_key kind key = Inr ()" and
      v: "psbt_compact_size data o2 = Inr (vl, o3)" "psbt_read_bytes data o3 vl = Inr (val, o4)" and
      a: "psbt_append acc key val = Inr acc'" and r: "psbt_read_map kind data o4 acc' = Inr (m, off')"
      by (subst (asm) psbt_read_map.simps) (auto simp: bind_res_Inr_iff)
    have kf: "key = slice data o1 (o1 + kl)" "o2 = o1 + kl" "o2 \<le> length data"
      and vf: "val = slice data o3 (o3 + vl)" "o4 = o3 + vl" "o4 \<le> length data"
      using psbt_read_bytes_progress [OF k] psbt_read_bytes_progress [OF v(2)] psbt_compact_size_progress [OF c]
        psbt_compact_size_progress [OF v(1)] by auto
    have fresh: "key \<notin> set (dict_keys acc)" and acc': "acc' = acc @ [(key, val)]"
      using a by (auto simp: psbt_append_def list_ex_iff split: if_splits)
    then have put: "dict_put key val acc = acc'" by (simp add: dict_put_fresh)
    have "ring_compact_size data o2 = Inr (vl, o3)" using v(1) by (simp add: ring_compact_size_eq)
    with rc False kf vf fresh put "1.IH" [OF c refl False k refl vk v(1) refl v(2) refl a r]
    show ?thesis by (subst ring_psbt_map.simps) (simp add: Let_def)
  qed
qed

lemma skip_psbt_maps_agrees:
  "psbt_read_maps kind data off n = Inr (ms, off') \<Longrightarrow> skip_psbt_maps data off (n + k) = skip_psbt_maps data off' k"
proof (induction kind data off n arbitrary: ms off' rule: psbt_read_maps.induct)
  case (2 kind data off n)
  then obtain m o1 ms' where r: "psbt_read_map kind data off [] = Inr (m, o1)" "psbt_read_maps kind data o1 n = Inr (ms', off')"
    and ne: "off \<noteq> length data"
    by (auto simp: bind_res_Inr_iff map_res_Inr_iff split: if_splits)
  from ring_psbt_map_agrees [OF r(1)] "2.IH" [OF ne r(1) refl r(2)] show ?case by simp
qed simp

lemma unsigned_transaction_lookup:
  assumes "get_unsigned_transaction g = Inr tx"
  shows "dict_get g [0x00] = Some tx"
proof -
  obtain k where f: "filter (\<lambda>r. fst r = [0x00]) g = [(k, tx)]"
    using assms by (auto simp: get_unsigned_transaction_def split: list.splits)
  then have "(k, tx) \<in> set (filter (\<lambda>r. fst r = [0x00]) g)" by simp
  then have "k = [0x00]" by simp
  moreover have "map_of g x = map_of (filter (\<lambda>r. fst r = x) g) x" for x by (induction g) auto
  ultimately show ?thesis using f by simp
qed

lemma find_value_lookup: "psbt_find_value g t = dict_get g [t]"
  unfolding psbt_find_value_def by (induction g) auto

lemma ring_reader_core:
  assumes "parse_psbt data = Inr p"
  shows "psbt_unsigned_transaction data =
    (if px_version p = 0 then Inr (px_unsigned_tx p) else Inl (ValueError ''PSBT has no global unsigned transaction''))"
proof -
  obtain off version where m: "take 5 data = PSBT_MAGIC" and r: "psbt_read_map GlobalMap data 5 [] = Inr (px_global_map p, off)"
    and v: "px_version p = version" "version = 0 \<or> version = 2"
    and w: "if version = 2 then parse_psbt_v2 data off (px_global_map p) = Inr p else parse_psbt_v0 data off (px_global_map p) = Inr p"
    using parse_psbt_parts [OF assms] by metis
  have ring: "ring_psbt_map data 5 [] = Inr (px_global_map p, off)" by (rule ring_psbt_map_agrees [OF r])
  show ?thesis
  proof (cases "version = 2")
    case True
    with w have "parse_psbt_v2 data off (px_global_map p) = Inr p" by simp
    then have "psbt_find_value (px_global_map p) 0x00 = None" by (rule parse_psbt_v2_Inr)
    with True m ring v show ?thesis by (simp add: psbt_unsigned_transaction_def find_value_lookup)
  next
    case False
    with w have "parse_psbt_v0 data off (px_global_map p) = Inr p" by simp
    then obtain tx t ims oms where t: "get_unsigned_transaction (px_global_map p) = Inr tx" "parse_transaction_bytes tx = Inr t"
      "\<not> pt_has_witness t" "\<not> list_ex (\<lambda>i. ti_scriptsig i \<noteq> []) (pt_inputs t)" "px_unsigned_tx p = tx"
      "read_remaining_maps data off (length (pt_inputs t)) (length (pt_outputs t)) 0 = Inr (ims, oms)"
      by (elim parse_psbt_v0_Inr) (metis parsed_psbt.select_convs(1))
    from t(6) obtain o1 where maps: "psbt_read_maps InputMap data off (length (pt_inputs t)) = Inr (ims, o1)"
      "psbt_read_maps OutputMap data o1 (length (pt_outputs t)) = Inr (oms, length data)"
      by (auto simp: read_remaining_maps_def bind_res_Inr_iff split: if_splits)
    have "skip_psbt_maps data off (length (pt_inputs t) + length (pt_outputs t)) = Inr (length data)"
      using skip_psbt_maps_agrees [OF maps(1), of "length (pt_outputs t)"] skip_psbt_maps_agrees [OF maps(2), of 0] by simp
    with False v m ring t unsigned_transaction_lookup [OF t(1)] show ?thesis
      by (simp add: psbt_unsigned_transaction_def)
  qed
qed

text \<open>C24: Two independent readers of the same format agree. Whenever the wallet's strict parser accepts a PSBT,
  the reader of the ring protocol returns the very unsigned transaction the wallet is going to sign if the PSBT
  has version 0, and refuses it as having no unsigned transaction if it has version 2.\<close>

theorem ring_reader_agrees:
  assumes "parse_psbt data = Inr p"
  shows "psbt_unsigned_transaction data =
    (if px_version p = 0 then Inr (px_unsigned_tx p) else Inl (ValueError ''PSBT has no global unsigned transaction''))"
  by (rule ring_reader_core [OF assms])

section \<open>Reading what was written\<close>

lemma read_bytes_here: "psbt_read_bytes (pre @ bs @ post) (length pre) (length bs) = Inr (bs, length pre + length bs)"
  by (simp add: psbt_read_bytes_def)

lemma compact_size_many:
  assumes "h = 0xFD \<and> length bs = 2 \<and> 0xFD \<le> le_nat bs \<or> h = 0xFE \<and> length bs = 4 \<and> 0x10000 \<le> le_nat bs \<or>
    h = 0xFF \<and> length bs = 8 \<and> 0x100000000 \<le> le_nat bs"
  shows "psbt_compact_size (pre @ (h # bs) @ post) (length pre) = Inr (le_nat bs, length pre + length (h # bs))"
  using assms read_bytes_here [of "pre @ [h]" bs post] by (auto simp: psbt_compact_size_def Let_def)

lemma compact_size_encode:
  assumes "encode_varint (int n) = Inr bs"
  shows "psbt_compact_size (pre @ bs @ post) (length pre) = Inr (n, length pre + length bs)"
proof (cases "n < 0xFD")
  case True
  then have "bs = [word_of_nat n]" using assms by (simp add: encode_varint_def byte1_def)
  moreover have "unat (word_of_nat n :: byte) = n" using True by (simp add: unat_of_nat)
  ultimately show ?thesis using True by (simp add: psbt_compact_size_def)
next
  case False
  have m: "psbt_compact_size (pre @ (h # le_bytes k n) @ post) (length pre) = Inr (n, length pre + length (h # le_bytes k n))"
    if "n < 256 ^ k" "h = 0xFD \<and> k = 2 \<and> 0xFD \<le> n \<or> h = 0xFE \<and> k = 4 \<and> 0x10000 \<le> n \<or> h = 0xFF \<and> k = 8 \<and> 0x100000000 \<le> n" for h k
    using compact_size_many [of h "le_bytes k n" pre post] that by simp
  consider "n \<le> 0xFFFF" | "0xFFFF < n" "n \<le> 0xFFFFFFFF" | "0xFFFFFFFF < n" by linarith
  then show ?thesis
  proof cases
    case 1
    then have "bs = 0xFD # le_bytes 2 n" using assms False by (auto simp: encode_varint_def bind_res_Inr_iff pack_u_Inr_iff)
    with 1 False m [of 2 "0xFD"] show ?thesis by simp
  next
    case 2
    then have "bs = 0xFE # le_bytes 4 n" using assms False by (auto simp: encode_varint_def bind_res_Inr_iff pack_u_Inr_iff)
    with 2 False m [of 4 "0xFE"] show ?thesis by simp
  next
    case 3
    then have "bs = 0xFF # le_bytes 8 n" "n < 256 ^ 8"
      using assms False by (auto simp: encode_varint_def bind_res_Inr_iff pack_u_Inr_iff)
    with 3 False m [of 8 "0xFF"] show ?thesis by simp
  qed
qed

definition keys_ok :: "map_kind \<Rightarrow> psbt_map \<Rightarrow> bool" where
  "keys_ok kind m \<longleftrightarrow> distinct (map fst m) \<and> list_all (\<lambda>r. psbt_validate_key kind (fst r) = Inr ()) m"

lemma read_map_serialize:
  assumes "psbt_map_serialize m = Inr bs" "keys_ok kind (acc @ m)"
  shows "psbt_read_map kind (pre @ bs @ post) (length pre) acc = Inr (acc @ m, length pre + length bs)"
  using assms
proof (induction m arbitrary: acc pre bs)
  case Nil
  then have bs: "bs = [0]" by (simp add: psbt_map_serialize_def)
  have "psbt_compact_size (pre @ [0] @ post) (length pre) = Inr (0, length pre + length [0 :: byte])"
    by (rule compact_size_encode) (simp add: encode_varint_def byte1_def)
  then show ?case by (subst psbt_read_map.simps) (simp add: bs)
next
  case (Cons r m)
  obtain key val where r: "r = (key, val)" by (cases r)
  from Cons.prems(1) obtain kl vl bs' where kl: "encode_varint (int (length key)) = Inr kl"
    and vl: "encode_varint (int (length val)) = Inr vl" and bs': "psbt_map_serialize m = Inr bs'"
    and bs: "bs = kl @ key @ vl @ val @ bs'"
    by (auto simp: r psbt_map_serialize_def enc_blob_def bind_res_Inr_iff map_res_Inr_iff)
  have ok: "psbt_validate_key kind key = Inr ()" "key \<notin> fst ` set acc" "keys_ok kind ((acc @ [(key, val)]) @ m)"
    using Cons.prems(2) by (auto simp: keys_ok_def r)
  then have ne: "key \<noteq> []" by (auto simp: psbt_validate_key_def)
  let ?d = "pre @ bs @ post"
  have "psbt_compact_size ?d (length pre) = Inr (length key, length (pre @ kl))"
    using compact_size_encode [OF kl, of pre "key @ vl @ val @ bs' @ post"] by (simp add: bs)
  moreover have "psbt_read_bytes ?d (length (pre @ kl)) (length key) = Inr (key, length (pre @ kl @ key))"
    using read_bytes_here [of "pre @ kl" key "vl @ val @ bs' @ post"] by (simp add: bs)
  moreover have "psbt_compact_size ?d (length (pre @ kl @ key)) = Inr (length val, length (pre @ kl @ key @ vl))"
    using compact_size_encode [OF vl, of "pre @ kl @ key" "val @ bs' @ post"] by (simp add: bs add.assoc)
  moreover have "psbt_read_bytes ?d (length (pre @ kl @ key @ vl)) (length val) = Inr (val, length (pre @ kl @ key @ vl @ val))"
    using read_bytes_here [of "pre @ kl @ key @ vl" val "bs' @ post"] by (simp add: bs add.assoc)
  moreover have "psbt_append acc key val = Inr (acc @ [(key, val)])"
    using ok(2) ne by (auto simp: psbt_append_def list_ex_iff)
  moreover have "psbt_read_map kind ?d (length (pre @ kl @ key @ vl @ val)) (acc @ [(key, val)]) = Inr (acc @ r # m, length pre + length bs)"
    using Cons.IH [OF bs' ok(3), of "pre @ kl @ key @ vl @ val"] by (simp add: bs r add.assoc)
  ultimately show ?case using ok(1) ne by (subst psbt_read_map.simps) simp
qed

lemma read_maps_serialize:
  "mapM_res psbt_map_serialize ms = Inr bss \<Longrightarrow> list_all (keys_ok kind) ms \<Longrightarrow>
   psbt_read_maps kind (pre @ concat bss @ post) (length pre) (length ms) = Inr (ms, length pre + length (concat bss))"
proof (induction ms arbitrary: pre bss)
  case (Cons m ms)
  then obtain b bss' where b: "psbt_map_serialize m = Inr b" "mapM_res psbt_map_serialize ms = Inr bss'" "bss = b # bss'"
    by (auto simp: bind_res_Inr_iff)
  have "b \<noteq> []" using b(1) by (auto simp: psbt_map_serialize_def map_res_Inr_iff)
  moreover have "psbt_read_map kind (pre @ b @ concat bss' @ post) (length pre) [] = Inr (m, length pre + length b)"
    using read_map_serialize [OF b(1), of kind "[]" pre "concat bss' @ post"] Cons.prems(2) by simp
  moreover have "psbt_read_maps kind ((pre @ b) @ concat bss' @ post) (length (pre @ b)) (length ms) = Inr (ms, length (pre @ b) + length (concat bss'))"
    by (rule Cons.IH) (use b Cons.prems(2) in simp_all)
  ultimately show ?case using b(3) by simp
qed simp

text \<open>The records \<open>create_psbt\<close> writes for an input, over the bytes its integers are packed to.\<close>

definition derivation_ok :: "bip32_derivation \<Rightarrow> bool" where
  "derivation_ok d \<longleftrightarrow> derivation_post_init d = Inr () \<and> bd_pubkey d ! 0 \<in> {2, 3}"

definition psbt_input_ok :: "psbt_input \<Rightarrow> bool" where
  "psbt_input_ok pin \<longleftrightarrow> pn_witness_utxo_value pin \<le> MAX_MONEY \<and>
     (case pn_bip32_derivations pin of None \<Rightarrow> True
      | Some ds \<Rightarrow> list_all derivation_ok ds \<and> distinct (map bd_pubkey ds))"

definition input_records :: "bytes \<Rightarrow> bytes \<Rightarrow> bytes \<Rightarrow> (bytes \<times> bytes) list \<Rightarrow> psbt_map" where
  "input_records utxo sighash wscript derivs =
     [([0x01], utxo), ([0x03], sighash)] @ (if wscript \<noteq> [] then [([0x05], wscript)] else []) @ derivs"

lemma psbt_records_append:
  "psbt_records a = Inr x \<Longrightarrow> psbt_records b = Inr y \<Longrightarrow> psbt_records (a @ b) = Inr (x @ y)"
  by (induction a arbitrary: x) (auto simp: bind_res_Inr_iff map_res_Inr_iff)

lemma psbt_pair_records: "psbt_pair t v k = Inr bs \<longleftrightarrow> psbt_records [(t # k, v)] = Inr bs"
  by (auto simp: psbt_pair_def bind_res_Inr_iff map_res_Inr_iff)

lemma derivation_records:
  "mapM_res derivation_pair ds = Inr bss \<Longrightarrow>
   \<exists>recs. map fst recs = map (\<lambda>d. 0x06 # bd_pubkey d) ds \<and> psbt_records recs = Inr (concat bss) \<and>
     list_all2 (\<lambda>d r. \<exists>path. snd r = bd_fingerprint d @ path \<and> length path mod 4 = 0) ds recs"
proof (induction ds arbitrary: bss)
  case (Cons d ds)
  then obtain b bss' where d: "derivation_pair d = Inr b" "mapM_res derivation_pair ds = Inr bss'" "bss = b # bss'"
    by (auto simp: bind_res_Inr_iff)
  then obtain path where b: "mapM_res (pack_u 4) (bd_path d) = Inr path"
    "psbt_pair 0x06 (bd_fingerprint d @ concat path) (bd_pubkey d) = Inr b" "mapM_res derivation_pair ds = Inr bss'" "bss = b # bss'"
    unfolding derivation_pair_def [of d] by (auto simp: bind_res_Inr_iff)
  from Cons.IH [OF b(3)] obtain recs where r: "map fst recs = map (\<lambda>d. 0x06 # bd_pubkey d) ds" "psbt_records recs = Inr (concat bss')"
    "list_all2 (\<lambda>d r. \<exists>path. snd r = bd_fingerprint d @ path \<and> length path mod 4 = 0) ds recs" by blast
  have "length (concat ps) = 4 * length ps" if "mapM_res (pack_u 4) ns = Inr ps" for ns and ps :: "bytes list"
    using that by (induction ns arbitrary: ps) (auto simp: bind_res_Inr_iff dest!: pack_u_length)
  from this [OF b(1)] have "length (concat path) mod 4 = 0" by simp
  moreover have "psbt_records ((0x06 # bd_pubkey d, bd_fingerprint d @ concat path) # recs) = Inr (concat bss)"
    using psbt_records_append [of "[(0x06 # bd_pubkey d, bd_fingerprint d @ concat path)]" b recs] b r(2)
    unfolding psbt_pair_records by simp
  ultimately show ?case
    using r by (intro exI [of _ "(0x06 # bd_pubkey d, bd_fingerprint d @ concat path) # recs"]) auto
qed simp

lemma witness_utxo_back:
  assumes "pack_u 8 v = Inr a" "enc_blob script = Inr s" "v \<le> MAX_MONEY"
  shows "parse_witness_utxo (a @ s) = Inr (v, script)"
proof -
  obtain l where l: "encode_varint (int (length script)) = Inr l" "s = l @ script"
    using assms(2) by (auto simp: enc_blob_def bind_res_Inr_iff)
  have "length a = 8" using pack_u_length [OF assms(1)] .
  with l compact_size_encode [OF l(1), of a script] unpack_pack_u [OF assms(1)] assms(3) show ?thesis
    by (simp add: parse_witness_utxo_def Let_def)
qed

text \<open>The amount, the script and the witness script of the spent output are found in the map.\<close>

definition reads_back :: "psbt_input \<Rightarrow> psbt_map \<Rightarrow> bool" where
  "reads_back pin m \<longleftrightarrow>
     (case psbt_find_value m 0x01 of None \<Rightarrow> False
      | Some utxo \<Rightarrow> parse_witness_utxo utxo = Inr (pn_witness_utxo_value pin, pn_witness_utxo_script pin)) \<and>
     psbt_find_value m 0x05 = (if pn_witness_script pin = [] then None else Some (pn_witness_script pin))"

lemma create_input_map_records:
  assumes "create_input_map pin = Inr bs" "psbt_input_ok pin"
  obtains m where "psbt_map_serialize m = Inr bs" "keys_ok InputMap m" "validate_map_records InputMap m 0 = Inr ()"
    "reads_back pin m"
proof -
  let ?ds = "case pn_bip32_derivations pin of None \<Rightarrow> [] | Some ds \<Rightarrow> ds"
  from assms(1) obtain a s u q h w dss where
    a: "pack_u 8 (pn_witness_utxo_value pin) = Inr a" and s: "enc_blob (pn_witness_utxo_script pin) = Inr s"
    and u: "psbt_pair 0x01 (a @ s) [] = Inr u" and q: "pack_u 4 (pn_sighash_type pin) = Inr q" and h: "psbt_pair 0x03 q [] = Inr h"
    and w: "(if pn_witness_script pin \<noteq> [] then psbt_pair 0x05 (pn_witness_script pin) [] else Inr []) = Inr w"
    and d: "mapM_res derivation_pair ?ds = Inr dss" and bs: "bs = u @ h @ w @ concat dss @ [0]"
    by (auto simp: create_input_map_def bind_res_Inr_iff)
  have ds: "list_all derivation_ok ?ds" "distinct (map bd_pubkey ?ds)"
    using assms(2) by (auto simp: psbt_input_ok_def split: option.splits)
  from derivation_records [OF d] obtain recs where r: "map fst recs = map (\<lambda>d. 0x06 # bd_pubkey d) ?ds"
    "psbt_records recs = Inr (concat dss)"
    "list_all2 (\<lambda>d r. \<exists>path. snd r = bd_fingerprint d @ path \<and> length path mod 4 = 0) ?ds recs" by blast
  define m where "m = input_records (a @ s) q (pn_witness_script pin) recs"
  have rec: "fst x = 0x06 # bd_pubkey e \<and> derivation_ok e \<and> (\<exists>path. snd x = bd_fingerprint e @ path \<and> length path mod 4 = 0)"
    if "x \<in> set recs" "e = ?ds ! i" "x = recs ! i" "i < length recs" for x e i
    using that r(3) ds(1) arg_cong [OF r(1), of "\<lambda>l. l ! i"] list_all2_lengthD [OF r(3)]
    by (auto simp: list_all2_conv_all_nth list_all_length)
  have derivs: "\<exists>e. fst x = 0x06 # bd_pubkey e \<and> derivation_ok e \<and> (\<exists>path. snd x = bd_fingerprint e @ path \<and> length path mod 4 = 0)"
    if "x \<in> set recs" for x
    using that rec by (metis in_set_conv_nth)
  have "psbt_records (if pn_witness_script pin \<noteq> [] then [([0x05], pn_witness_script pin)] else []) = Inr w"
    using w psbt_pair_records [of "0x05" "pn_witness_script pin" "[]" w] by (cases "pn_witness_script pin = []") auto
  from psbt_records_append [OF this r(2)] u h
  have "psbt_records ([([0x01], a @ s)] @ [([0x03], q)] @ (if pn_witness_script pin \<noteq> [] then [([0x05], pn_witness_script pin)] else []) @ recs)
      = Inr (u @ h @ w @ concat dss)"
    unfolding psbt_pair_records by (intro psbt_records_append [of "[_]"])
  then have ser: "psbt_map_serialize m = Inr bs"
    unfolding psbt_map_serialize_def m_def input_records_def bs by (simp only: append_Cons append_Nil append_assoc map_res_simps)
  have dist: "distinct (map fst recs)"
    using ds(2) by (simp add: r(1) distinct_map inj_on_def)
  have k6: "hd (fst x) = 0x06" "psbt_validate_key InputMap (fst x) = Inr ()"
    "validate_input_value (fst x) (snd x) = Inr ()" if "x \<in> set recs" for x
  proof -
    from derivs [OF that] obtain e path where e: "fst x = 0x06 # bd_pubkey e" "derivation_ok e"
      "snd x = bd_fingerprint e @ path" "length path mod 4 = 0" by (elim exE conjE)
    then have l: "length (bd_pubkey e) = 33" "length (bd_fingerprint e) = 4" "bd_pubkey e ! 0 = 2 \<or> bd_pubkey e ! 0 = 3"
      by (auto simp: derivation_ok_def derivation_post_init_def simp del: raise_if.simps)
    from e l show "hd (fst x) = 0x06" "psbt_validate_key InputMap (fst x) = Inr ()"
      "validate_input_value (fst x) (snd x) = Inr ()"
      by (auto simp: psbt_validate_key_def validate_input_value_def parse_bip32_derivation_def validate_key_origin_value_def)
  qed
  have keys: "keys_ok InputMap m"
  proof -
    have "[t] \<notin> fst ` set recs" if "t \<noteq> 0x06" for t using k6(1) that by fastforce
    from this [of "0x01"] this [of "0x03"] this [of "0x05"] have "distinct (map fst m)"
      using dist by (simp add: m_def input_records_def)
    moreover have "list_all (\<lambda>r. psbt_validate_key InputMap (fst r) = Inr ()) m"
      using k6(2) by (auto simp: m_def input_records_def list_all_iff psbt_validate_key_def [of _ "[_]"])
    ultimately show ?thesis by (simp add: keys_ok_def)
  qed
  have utxo: "parse_witness_utxo (a @ s) = Inr (pn_witness_utxo_value pin, pn_witness_utxo_script pin)"
    using witness_utxo_back [OF a s] assms(2) by (simp add: psbt_input_ok_def)
  have vals: "validate_map_records InputMap m 0 = Inr ()"
  proof -
    have "fst x ! 0 = 0x06" if "x \<in> set recs" for x
      using k6(1) [OF that] derivs [OF that] by auto
    then have "psbt_validate_record InputMap 0 x = Inr ()" if "x \<in> set recs" for x
      using k6(3) [OF that] that by (simp add: psbt_validate_record_def)
    moreover have "psbt_validate_record InputMap 0 ([0x01], a @ s) = Inr ()" "psbt_validate_record InputMap 0 ([0x03], q) = Inr ()"
      "psbt_validate_record InputMap 0 ([0x05], pn_witness_script pin) = Inr ()"
      using utxo pack_u_length [OF q] by (simp_all add: psbt_validate_record_def validate_input_value_def)
    ultimately show ?thesis by (auto simp: validate_map_records_def m_def input_records_def list_all_iff)
  qed
  have "find (\<lambda>r. fst r = [0x05]) recs = None"
    using k6(1) by (fastforce simp: find_None_iff)
  then have "reads_back pin m"
    using utxo by (simp add: reads_back_def m_def input_records_def psbt_find_value_def)
  from that [OF ser keys vals this] show ?thesis .
qed

lemma create_input_maps_records:
  assumes "mapM_res create_input_map pins = Inr bss" "list_all psbt_input_ok pins"
  obtains ms where "mapM_res psbt_map_serialize ms = Inr bss" "list_all (keys_ok InputMap) ms"
    "list_all (\<lambda>m. validate_map_records InputMap m 0 = Inr ()) ms"
    "list_all2 reads_back pins ms"
proof -
  have "\<exists>ms. mapM_res psbt_map_serialize ms = Inr bss \<and> list_all (keys_ok InputMap) ms \<and>
    list_all (\<lambda>m. validate_map_records InputMap m 0 = Inr ()) ms \<and>
    list_all2 reads_back pins ms"
    using assms
  proof (induction pins arbitrary: bss)
    case Nil
    then show ?case by (intro exI [of _ "[]"]) simp
  next
    case (Cons pin pins)
    then obtain b bss' where b: "create_input_map pin = Inr b" "mapM_res create_input_map pins = Inr bss'" "bss = b # bss'"
      by (auto simp: bind_res_Inr_iff)
    from Cons.IH [OF b(2)] Cons.prems(2) obtain ms where ms: "mapM_res psbt_map_serialize ms = Inr bss'"
      "list_all (keys_ok InputMap) ms" "list_all (\<lambda>m. validate_map_records InputMap m 0 = Inr ()) ms"
      "list_all2 reads_back pins ms" by auto
    have "psbt_input_ok pin" using Cons.prems(2) by simp
    from create_input_map_records [OF b(1) this] obtain m where "psbt_map_serialize m = Inr b" "keys_ok InputMap m"
      "validate_map_records InputMap m 0 = Inr ()" "reads_back pin m" .
    with ms b(3) show ?case by (intro exI [of _ "m # ms"]) simp
  qed
  with that show thesis by blast
qed

lemma length_magic: "length PSBT_MAGIC = 5"
  by (simp add: PSBT_MAGIC_def)

lemma empty_output_maps:
  "mapM_res psbt_map_serialize (replicate n []) = Inr (replicate n [0])" "list_all (keys_ok OutputMap) (replicate n [])"
  "concat (replicate n [0 :: byte]) = replicate n 0"
  by (induction n) (simp_all add: psbt_map_serialize_def keys_ok_def)

text \<open>A version 0 PSBT with one map per input and empty output maps, as both writers lay it out.\<close>

lemma written_psbt_parses:
  assumes g: "psbt_pair 0x00 tx [] = Inr g" and t: "parse_transaction_bytes tx = Inr t" "\<not> pt_has_witness t"
    "\<not> list_ex (\<lambda>i. ti_scriptsig i \<noteq> []) (pt_inputs t)"
    and ms: "mapM_res psbt_map_serialize ms = Inr bss" "list_all (keys_ok InputMap) ms"
      "list_all (\<lambda>m. validate_map_records InputMap m 0 = Inr ()) ms"
    and n: "length ms = length (pt_inputs t)" "k = length (pt_outputs t)"
  shows "\<exists>p. parse_psbt (PSBT_MAGIC @ g @ [0] @ concat bss @ replicate k 0) = Inr p \<and> px_version p = 0 \<and>
    px_unsigned_tx p = tx \<and> px_transaction p = t \<and> px_input_maps p = ms"
proof -
  define data where "data = PSBT_MAGIC @ (g @ [0]) @ concat bss @ replicate k 0"
  define off where "off = length (PSBT_MAGIC @ g @ [0])"
  have gser: "psbt_map_serialize [([0x00], tx)] = Inr (g @ [0])"
    using g unfolding psbt_pair_records by (simp only: psbt_map_serialize_def map_res_simps)
  have gmap: "psbt_read_map GlobalMap data 5 [] = Inr ([([0x00], tx)], off)"
    using read_map_serialize [OF gser, of GlobalMap "[]" PSBT_MAGIC "concat bss @ replicate k 0"]
    by (simp add: data_def keys_ok_def psbt_validate_key_def length_magic off_def)
  have imaps: "psbt_read_maps InputMap data off (length (pt_inputs t)) = Inr (ms, off + length (concat bss))"
    using read_maps_serialize [OF ms(1,2), of "PSBT_MAGIC @ g @ [0]" "replicate k 0"] n by (simp add: data_def off_def)
  have omaps: "psbt_read_maps OutputMap data (off + length (concat bss)) (length (pt_outputs t)) = Inr (replicate k [], length data)"
    using read_maps_serialize [OF empty_output_maps(1,2) [of k], of "PSBT_MAGIC @ g @ [0] @ concat bss" "[]"] n(2)
    by (simp add: data_def off_def empty_output_maps(3) add.assoc)
  have rest: "read_remaining_maps data off (length (pt_inputs t)) (length (pt_outputs t)) 0 = Inr (ms, replicate k [])"
  proof -
    have "all_res (map (\<lambda>m. validate_map_records InputMap m 0) ms) = Inr ()" using ms(3) by (simp add: list_all_iff)
    moreover have "all_res (map (\<lambda>m. validate_map_records OutputMap m 0) (replicate k [])) = Inr ()"
      by (simp add: list_all_iff validate_map_records_def)
    ultimately show ?thesis by (simp only: read_remaining_maps_def imaps omaps bind_res_simps prod.case) simp
  qed
  have "take 5 data = PSBT_MAGIC" by (simp add: data_def length_magic)
  moreover have "psbt_read_version [([0x00], tx)] = Inr 0" by (simp add: psbt_read_version_def)
  moreover have "validate_map_records GlobalMap [([0x00], tx)] 0 = Inr ()"
    by (simp add: validate_map_records_def psbt_validate_record_def validate_global_value_def)
  ultimately have "\<exists>p. parse_psbt data = Inr p \<and> px_version p = 0 \<and> px_unsigned_tx p = tx \<and> px_transaction p = t \<and> px_input_maps p = ms"
    using gmap t rest by (simp add: parse_psbt_def parse_psbt_v0_def get_unsigned_transaction_def)
  then show ?thesis unfolding data_def by simp
qed

lemma create_psbt_parses:
  assumes "create_psbt version inputs outputs locktime pins = Inr data" "wf_tx inputs outputs None"
    "list_all (\<lambda>i. ti_scriptsig i = []) inputs" "list_all psbt_input_ok pins"
  shows "\<exists>p. parse_psbt data = Inr p \<and> px_version p = 0 \<and>
    serialize_transaction version inputs outputs locktime None = Inr (px_unsigned_tx p) \<and>
    pt_inputs (px_transaction p) = map wire_input inputs \<and> pt_outputs (px_transaction p) = outputs \<and>
    list_all2 reads_back pins (px_input_maps p)"
proof -
  from assms(1) obtain tx g bss where tx: "serialize_transaction version inputs outputs locktime None = Inr tx"
    and g: "psbt_pair 0x00 tx [] = Inr g" and bss: "mapM_res create_input_map pins = Inr bss"
    and data: "data = PSBT_MAGIC @ g @ [0] @ concat bss @ replicate (length outputs) 0" and len: "length pins = length inputs"
    by (auto simp: create_psbt_def bind_res_Inr_iff split: if_splits)
  obtain ms where ms: "mapM_res psbt_map_serialize ms = Inr bss" "list_all (keys_ok InputMap) ms"
    "list_all (\<lambda>m. validate_map_records InputMap m 0 = Inr ()) ms"
    "list_all2 reads_back pins ms"
    using create_input_maps_records [OF bss assms(4)] by blast
  let ?t = "\<lparr>pt_version = version, pt_inputs = map wire_input inputs, pt_outputs = outputs,
      pt_witnesses = [], pt_locktime = locktime, pt_has_witness = False\<rparr>"
  have parse: "parse_transaction_bytes tx = Inr ?t"
    using parse_serialize_tx [OF tx assms(2)] by (simp add: any_witness_def)
  have noscript: "\<not> list_ex (\<lambda>i. ti_scriptsig i \<noteq> []) (pt_inputs ?t)"
    using assms(3) by (auto simp: list_ex_iff list_all_iff wire_input_def)
  have "length ms = length (pt_inputs ?t)" using list_all2_lengthD [OF ms(4)] len by simp
  from written_psbt_parses [OF g parse _ noscript ms(1-3) this, of "length outputs"]
  show ?thesis using tx ms(4) unfolding data by auto
qed

section \<open>The PSBT of a funding transaction\<close>

definition utxo_reads_back :: "witness_utxo \<Rightarrow> psbt_map \<Rightarrow> bool" where
  "utxo_reads_back u m \<longleftrightarrow> (\<exists>v. m = [([0x01], v)] \<and> parse_witness_utxo v = Inr (wu_value_sat u, wu_script_pubkey u))"

lemma utxo_map_records:
  assumes "utxo_map u = Inr bs" "wu_value_sat u \<le> MAX_MONEY"
  shows "\<exists>m. psbt_map_serialize m = Inr bs \<and> keys_ok InputMap m \<and> validate_map_records InputMap m 0 = Inr () \<and> utxo_reads_back u m"
proof -
  from assms(1) obtain a s kv where a: "pack_u 8 (wu_value_sat u) = Inr a" and s: "enc_blob (wu_script_pubkey u) = Inr s"
    and kv: "psbt_pair 0x01 (a @ s) [] = Inr kv" "bs = kv @ [0]"
    by (auto simp: utxo_map_def serialize_output_def bind_res_Inr_iff map_res_Inr_iff)
  let ?m = "[([0x01], a @ s)]"
  have v: "parse_witness_utxo (a @ s) = Inr (wu_value_sat u, wu_script_pubkey u)" by (rule witness_utxo_back [OF a s assms(2)])
  have "psbt_map_serialize ?m = Inr bs"
    using kv unfolding psbt_pair_records by (simp only: psbt_map_serialize_def map_res_simps)
  moreover have "keys_ok InputMap ?m" by (simp add: keys_ok_def psbt_validate_key_def)
  moreover have "validate_map_records InputMap ?m 0 = Inr ()"
    using v by (simp add: validate_map_records_def psbt_validate_record_def validate_input_value_def)
  ultimately show ?thesis using v by (auto simp: utxo_reads_back_def)
qed

lemma utxo_maps_records:
  assumes "mapM_res utxo_map us = Inr bss" "list_all (\<lambda>u. wu_value_sat u \<le> MAX_MONEY) us"
  shows "\<exists>ms. mapM_res psbt_map_serialize ms = Inr bss \<and> list_all (keys_ok InputMap) ms \<and>
    list_all (\<lambda>m. validate_map_records InputMap m 0 = Inr ()) ms \<and> list_all2 utxo_reads_back us ms"
  using assms
proof (induction us arbitrary: bss)
  case Nil
  then show ?case by (intro exI [of _ "[]"]) simp
next
  case (Cons u us)
  then obtain b bss' where b: "utxo_map u = Inr b" "mapM_res utxo_map us = Inr bss'" "bss = b # bss'"
    by (auto simp: bind_res_Inr_iff)
  from utxo_map_records [OF b(1)] Cons.prems(2) obtain m where "psbt_map_serialize m = Inr b" "keys_ok InputMap m"
    "validate_map_records InputMap m 0 = Inr ()" "utxo_reads_back u m" by auto
  moreover from Cons.IH [OF b(2)] Cons.prems(2) obtain ms where "mapM_res psbt_map_serialize ms = Inr bss'"
    "list_all (keys_ok InputMap) ms" "list_all (\<lambda>m. validate_map_records InputMap m 0 = Inr ()) ms"
    "list_all2 utxo_reads_back us ms" by auto
  ultimately show ?case using b(3) by (intro exI [of _ "m # ms"]) simp
qed

lemma build_unsigned_psbt_parses:
  assumes "build_unsigned_psbt hash256 raw utxos = Inr (psbt, txid)" "list_all (\<lambda>u. wu_value_sat u \<le> MAX_MONEY) utxos"
  shows "\<exists>p. parse_psbt psbt = Inr p \<and> px_version p = 0 \<and> fromhex raw = Inr (px_unsigned_tx p) \<and>
    list_all2 utxo_reads_back utxos (px_input_maps p)"
proof -
  from assms(1) obtain tx t g bss where raw: "fromhex raw = Inr tx" and t: "parse_transaction_bytes tx = Inr t"
    "\<not> pt_has_witness t" "\<not> list_ex (\<lambda>i. ti_scriptsig i \<noteq> []) (pt_inputs t)"
    and g: "psbt_pair 0x00 tx [] = Inr g" and bss: "mapM_res utxo_map utxos = Inr bss"
    and psbt: "psbt = PSBT_MAGIC @ g @ [0] @ concat bss @ replicate (length (pt_outputs t)) 0"
    and n: "length utxos = length (pt_inputs t)"
    by (auto simp: build_unsigned_psbt_def parse_transaction_def bind_res_Inr_iff map_res_Inr_iff split: sum.splits if_splits)
  from utxo_maps_records [OF bss assms(2)] obtain ms where ms: "mapM_res psbt_map_serialize ms = Inr bss"
    "list_all (keys_ok InputMap) ms" "list_all (\<lambda>m. validate_map_records InputMap m 0 = Inr ()) ms"
    "list_all2 utxo_reads_back utxos ms" by blast
  have "length ms = length (pt_inputs t)" using list_all2_lengthD [OF ms(4)] n by simp
  from written_psbt_parses [OF g t ms(1-3) this refl] show ?thesis
    using raw ms(4) unfolding psbt by auto
qed

text \<open>A PSBT that \<open>create_psbt\<close> writes is accepted by the strict parser. It is read as a version 0 PSBT of the
  very transaction it was created for, with one map per input, in which the amount, the script and the witness
  script of each spent output are found again.\<close>

theorem create_psbt_read_back:
  assumes "create_psbt version inputs outputs locktime pins = Inr data" "wf_tx inputs outputs None"
    "list_all (\<lambda>i. ti_scriptsig i = []) inputs" "list_all psbt_input_ok pins"
  shows "\<exists>p. parse_psbt data = Inr p \<and> px_version p = 0 \<and>
    serialize_transaction version inputs outputs locktime None = Inr (px_unsigned_tx p) \<and>
    pt_inputs (px_transaction p) = map wire_input inputs \<and> pt_outputs (px_transaction p) = outputs \<and>
    list_all2 reads_back pins (px_input_maps p)"
  by (rule create_psbt_parses [OF assms])

section \<open>An example\<close>

definition ex_psbt_input :: psbt_input where
  "ex_psbt_input = \<lparr>pn_witness_utxo_value = 70000, pn_witness_utxo_script = [0x00, 0x14], pn_witness_script = [0x51],
     pn_sighash_type = 1, pn_bip32_derivations = Some [\<lparr>bd_pubkey = 0x02 # replicate 32 1, bd_fingerprint = [1, 2, 3, 4],
       bd_path = [2147483732, 0]\<rparr>]\<rparr>"

definition ex_psbt_tx_input :: tx_input where
  "ex_psbt_tx_input = \<lparr>ti_txid_le = replicate 32 7, ti_vout = 1, ti_scriptsig = [], ti_sequence = 0xFFFFFFFF,
     ti_value = 0, ti_scriptpubkey = []\<rparr>"

definition ex_psbt :: bytes where
  "ex_psbt = projr (create_psbt 2 [ex_psbt_tx_input] [\<lparr>to_value = 60000, to_script = [0x51, 0x20]\<rparr>] 0 [ex_psbt_input])"

lemma ex_psbt_created:
  "create_psbt 2 [ex_psbt_tx_input] [\<lparr>to_value = 60000, to_script = [0x51, 0x20]\<rparr>] 0 [ex_psbt_input] = Inr ex_psbt"
proof -
  have "\<not> isl (create_psbt 2 [ex_psbt_tx_input] [\<lparr>to_value = 60000, to_script = [0x51, 0x20]\<rparr>] 0 [ex_psbt_input])"
    by code_simp
  then show ?thesis by (simp add: ex_psbt_def)
qed

lemma ex_psbt_wf:
  "wf_tx [ex_psbt_tx_input] [\<lparr>to_value = 60000, to_script = [0x51, 0x20]\<rparr>] None"
  "list_all (\<lambda>i. ti_scriptsig i = []) [ex_psbt_tx_input]" "list_all psbt_input_ok [ex_psbt_input]"
  by code_simp+

theorem create_psbt_read_back_witness:
  "\<exists>p. parse_psbt ex_psbt = Inr p \<and> px_version p = 0 \<and> list_all2 reads_back [ex_psbt_input] (px_input_maps p)"
  using create_psbt_read_back [OF ex_psbt_created ex_psbt_wf] by blast

lemma ex_psbt_parsed: "\<exists>p. parse_psbt ex_psbt = Inr p \<and> px_version p = 0"
  using create_psbt_parses [OF ex_psbt_created ex_psbt_wf] by blast

theorem parse_psbt_lossless_witness: "\<exists>p. parse_psbt ex_psbt = Inr p \<and> psbt_serialize p = Inr ex_psbt"
  using ex_psbt_parsed parse_psbt_lossless by blast

theorem ring_reader_agrees_witness:
  "\<exists>p. parse_psbt ex_psbt = Inr p \<and> psbt_unsigned_transaction ex_psbt = Inr (px_unsigned_tx p)"
  using ex_psbt_parsed ring_reader_agrees by fastforce

end
