(* ===== verification/Ring_Payloads.thy ===== *)
theory Ring_Payloads
  imports Ring_Hash Py_Base64 Psbt_Roundtrip
begin

text \<open>
  The messages of the ring protocol, the \<open>Ring*Payload\<close> classes of \<open>jmcore/cofunded_ring.py\<close> with their
  validators, the checks that tie a hello and a plan to the invitation, the hash and the signature of a
  payload, and the envelope it is sent in. A payload record extends the fields every payload has; its
  \<open>type\<close> and \<open>payload_format\<close> are literals of its class.
\<close>

section \<open>Fields of every payload\<close>

record ring_common =
  rc_round_nonce :: string
  rc_revision :: int
  rc_signer_key :: string
  rc_sig :: string

definition validate_common :: "ring_lib \<Rightarrow> 'a ring_common_scheme \<Rightarrow> unit res" where
  "validate_common lib c = all_res
     [field_checks [between 0 MAX_REVISION (rc_revision c)],
      validate_hex 32 (rc_round_nonce c), validate_xonly_key lib (rc_signer_key c), validate_hex 64 (rc_sig c)]"

section \<open>Invitation, hello and plan\<close>

record ring_invite = ring_common +
  ri_network :: network_type
  ri_offer_type :: tr0_offer_type
  ri_expiry :: int
  ri_policy_bounds :: policy_bounds

definition validate_invite :: "ring_lib \<Rightarrow> ring_invite \<Rightarrow> unit res" where
  "validate_invite lib p = all_res
     [field_checks [between 1 MAX_REVISION (ri_expiry p)], validate_policy_bounds (ri_policy_bounds p), validate_common lib p]"

record ring_hello = ring_common +
  rh_participant :: private_participant

definition validate_hello :: "ring_lib \<Rightarrow> ring_hello \<Rightarrow> unit res" where
  "validate_hello lib p = all_res
     [validate_participant lib (rh_participant p), validate_common lib p,
      raise_if [(rc_signer_key p \<noteq> pp_participant_key (rh_participant p), ''hello signer_key does not match participant_key'')]]"

record private_edge_plan =
  ep_edge_id :: string
  ep_pending_channel_id :: string
  ep_opener_key :: string
  ep_acceptor_key :: string
  ep_capacity :: int
  ep_push_amount :: int
  ep_policy :: channel_policy

definition validate_edge_plan :: "ring_lib \<Rightarrow> private_edge_plan \<Rightarrow> unit res" where
  "validate_edge_plan lib e = all_res
     [field_checks [money (ep_capacity e), money (ep_push_amount e)],
      validate_channel_policy (ep_policy e),
      validate_hex 32 (ep_edge_id e), validate_hex 32 (ep_pending_channel_id e),
      validate_xonly_key lib (ep_opener_key e), validate_xonly_key lib (ep_acceptor_key e),
      raise_if [(ep_push_amount e \<ge> ep_capacity e, ''push_amount must be below channel capacity'')]]"

record ring_local_plan = ring_common +
  pl_network :: network_type
  pl_offer_type :: tr0_offer_type
  pl_cycle_keys :: "string list"
  pl_position :: int
  pl_contribution :: local_contribution
  pl_predecessor :: private_participant
  pl_successor :: private_participant
  pl_incoming_edge :: private_edge_plan
  pl_outgoing_edge :: private_edge_plan

definition cycle_key :: "ring_local_plan \<Rightarrow> int \<Rightarrow> string" where
  "cycle_key p i = pl_cycle_keys p ! nat (i mod int (length (pl_cycle_keys p)))"

definition validate_local_plan :: "ring_local_plan \<Rightarrow> unit res" where
  "validate_local_plan p =
     (if pl_position p \<ge> int (length (pl_cycle_keys p)) then Inl (ValueError ''local plan position is outside the cycle'')
      else
        let local_key = pl_cycle_keys p ! nat (pl_position p);
            predecessor_key = cycle_key p (pl_position p - 1); successor_key = cycle_key p (pl_position p + 1);
            inc = pl_incoming_edge p; out = pl_outgoing_edge p;
            pred = pp_backend_limits (pl_predecessor p); succ = pp_backend_limits (pl_successor p) in
        raise_if
         [(lc_participant_key (pl_contribution p) \<noteq> local_key, ''local contribution does not identify the plan recipient''),
          (pp_participant_key (pl_predecessor p) \<noteq> predecessor_key, ''predecessor does not match cycle''),
          (pp_participant_key (pl_successor p) \<noteq> successor_key, ''successor does not match cycle''),
          (ep_opener_key inc \<noteq> predecessor_key \<or> ep_acceptor_key inc \<noteq> local_key \<or> ep_opener_key out \<noteq> local_key \<or>
             ep_acceptor_key out \<noteq> successor_key, ''local edges do not match cycle neighbors''),
          (ep_push_amount inc \<noteq> lc_incoming (pl_contribution p), ''incoming push does not match local contribution''),
          (pl_network p \<noteq> bl_network pred, ''predecessor backend network mismatch''),
          (pl_network p \<noteq> bl_network succ, ''successor backend network mismatch''),
          (pl_offer_type p \<noteq> bl_offer_type pred, ''predecessor offer type mismatch''),
          (pl_offer_type p \<noteq> bl_offer_type succ, ''successor offer type mismatch'')])"

definition validate_plan_payload :: "ring_lib \<Rightarrow> ring_local_plan \<Rightarrow> unit res" where
  "validate_plan_payload lib p = all_res
     [field_checks [sized MIN_RING_PARTICIPANTS MAX_RING_PARTICIPANTS (pl_cycle_keys p),
        between 0 (int MAX_RING_PARTICIPANTS - 1) (pl_position p)],
      validate_contribution lib (pl_contribution p),
      validate_participant lib (pl_predecessor p), validate_participant lib (pl_successor p),
      validate_edge_plan lib (pl_incoming_edge p), validate_edge_plan lib (pl_outgoing_edge p),
      validate_common lib p,
      all_res (map (validate_xonly_key lib) (pl_cycle_keys p)),
      all_unique (pl_cycle_keys p) ''cycle key'',
      validate_local_plan p]"

definition validate_hello_for_invite :: "ring_invite \<Rightarrow> ring_hello \<Rightarrow> unit res" where
  "validate_hello_for_invite invite hello =
     (let limits = pp_backend_limits (rh_participant hello) in
      raise_if
       [(rc_round_nonce invite \<noteq> rc_round_nonce hello \<or> rc_revision invite \<noteq> rc_revision hello, ''hello round does not match invite''),
        (ri_network invite \<noteq> bl_network limits, ''hello backend network does not match invite''),
        (ri_offer_type invite \<noteq> bl_offer_type limits, ''hello tr0 offer type does not match invite'')])"

definition validate_plan_for_invite :: "ring_invite \<Rightarrow> ring_local_plan \<Rightarrow> unit res" where
  "validate_plan_for_invite invite plan = raise_if
     [(rc_round_nonce invite \<noteq> rc_round_nonce plan \<or> rc_revision invite \<noteq> rc_revision plan, ''plan round does not match invite''),
      (rc_signer_key plan \<noteq> rc_signer_key invite, ''plan is not signed by the inviting taker''),
      (pl_network plan \<noteq> ri_network invite \<or> pl_offer_type plan \<noteq> ri_offer_type invite, ''plan network or offer type does not match invite''),
      (\<not> accepts (ri_policy_bounds invite) (ep_policy (pl_incoming_edge plan)) \<or>
       \<not> accepts (ri_policy_bounds invite) (ep_policy (pl_outgoing_edge plan)), ''plan channel policy is outside invitation bounds'')]"

section \<open>Opening the channels\<close>

text \<open>\<open>RingPlanAckPayload\<close> and \<open>RingOpenPayload\<close>.\<close>

record ring_plan_ack = ring_common +
  ra_plan_hash :: string

definition validate_plan_ack :: "ring_lib \<Rightarrow> ring_plan_ack \<Rightarrow> unit res" where
  "validate_plan_ack lib p = all_res [validate_common lib p, validate_hex 32 (ra_plan_hash p)]"

record ring_open = ring_common +
  ro_plan_hash :: string

definition validate_open :: "ring_lib \<Rightarrow> ring_open \<Rightarrow> unit res" where
  "validate_open lib p = all_res [validate_common lib p, validate_hex 32 (ro_plan_hash p)]"

record prepared_outgoing =
  po_pending_channel_id :: string
  po_opener_key :: string
  po_acceptor_key :: string
  po_script_pubkey :: string
  po_capacity :: int
  po_push_amount :: int
  po_policy :: channel_policy

definition validate_prepared_outgoing :: "ring_lib \<Rightarrow> prepared_outgoing \<Rightarrow> unit res" where
  "validate_prepared_outgoing lib s = all_res
     [field_checks [money (po_capacity s), money (po_push_amount s)],
      validate_channel_policy (po_policy s),
      validate_hex 32 (po_pending_channel_id s),
      validate_xonly_key lib (po_opener_key s), validate_xonly_key lib (po_acceptor_key s),
      validate_p2tr_script (po_script_pubkey s),
      raise_if [(po_push_amount s \<ge> po_capacity s, ''push_amount must be below channel capacity'')]]"

record prepared_incoming =
  pc_pending_channel_id :: string
  pc_opener_key :: string
  pc_acceptor_key :: string
  pc_opener_node_id :: string
  pc_capacity :: int
  pc_push_amount :: int
  pc_policy :: channel_policy

definition validate_prepared_incoming :: "ring_lib \<Rightarrow> prepared_incoming \<Rightarrow> unit res" where
  "validate_prepared_incoming lib s = all_res
     [field_checks [money (pc_capacity s), money (pc_push_amount s)],
      validate_channel_policy (pc_policy s),
      validate_hex 32 (pc_pending_channel_id s),
      validate_xonly_key lib (pc_opener_key s), validate_xonly_key lib (pc_acceptor_key s),
      validate_node_id lib (pc_opener_node_id s),
      raise_if [(pc_push_amount s \<ge> pc_capacity s, ''push_amount must be below channel capacity'')]]"

record ring_prepared = ring_common +
  rd_outgoing :: prepared_outgoing
  rd_incoming :: prepared_incoming

definition validate_prepared :: "ring_lib \<Rightarrow> ring_prepared \<Rightarrow> unit res" where
  "validate_prepared lib p = all_res
     [validate_prepared_outgoing lib (rd_outgoing p), validate_prepared_incoming lib (rd_incoming p), validate_common lib p,
      raise_if
       [(po_pending_channel_id (rd_outgoing p) = pc_pending_channel_id (rd_incoming p), ''prepared states must cover distinct edges''),
        (po_opener_key (rd_outgoing p) \<noteq> rc_signer_key p, ''outgoing state opener does not match signer''),
        (pc_acceptor_key (rd_incoming p) \<noteq> rc_signer_key p, ''incoming state fundee does not match signer'')]]"

section \<open>The transaction, readiness and signing\<close>

definition MAX_RING_PAYLOAD_BYTES :: nat where
  "MAX_RING_PAYLOAD_BYTES = 65536"

definition hash256 :: "ring_lib \<Rightarrow> bytes \<Rightarrow> bytes" where
  "hash256 lib data = rl_sha256 lib (rl_sha256 lib data)"

record ring_unsigned = ring_common +
  ru_unsigned_tx :: string
  ru_psbt :: string
  ru_manifest :: ring_manifest

text \<open>The checks of \<open>validate_unsigned\<close> on the transaction alone, on the PSBT, and against the manifest.\<close>

definition unsigned_transaction_of :: "string \<Rightarrow> (bytes \<times> parsed_transaction) res" where
  "unsigned_transaction_of tx_hex =
     (if ascii_lower tx_hex \<noteq> tx_hex \<or> length tx_hex mod 2 \<noteq> 0 then Inl (ValueError ''unsigned_tx must be even-length lowercase hex'')
      else case bind_res (fromhex tx_hex) (\<lambda>b. map_res (Pair b) (parse_transaction_bytes b)) of
        Inl _ \<Rightarrow> Inl (ValueError ''unsigned_tx must be a valid unsigned transaction'')
      | Inr (transaction_bytes, t) \<Rightarrow>
          bind_res (serialize_transaction (pt_version t) (pt_inputs t) (pt_outputs t) (pt_locktime t) None) (\<lambda>canonical.
          bind_res (raise_if
            [(pt_has_witness t \<or> list_ex (\<lambda>i. ti_scriptsig i \<noteq> []) (pt_inputs t) \<or> canonical \<noteq> transaction_bytes,
                ''unsigned_tx must be canonical and contain no signatures or witness''),
             (pt_version t \<noteq> 2 \<or> pt_locktime t \<noteq> 0 \<or> list_ex (\<lambda>i. ti_sequence i \<noteq> 0xFFFFFFFF) (pt_inputs t),
                ''unsigned_tx must use version 2, zero locktime, and final input sequences''),
             (\<not> distinct (map (\<lambda>i. (txin_txid i, ti_vout i)) (pt_inputs t)),
                ''unsigned_tx must not contain duplicate input outpoints'')]) (\<lambda>_. Inr (transaction_bytes, t))))"

definition psbt_carries :: "string \<Rightarrow> bytes \<Rightarrow> unit res" where
  "psbt_carries psbt transaction_bytes =
     (case b64decode std_index psbt of
        None \<Rightarrow> Inl (ValueError ''psbt must be padded base64'')
      | Some psbt_bytes \<Rightarrow>
          if b64encode psbt_bytes \<noteq> psbt then Inl (ValueError ''psbt must use canonical padded base64'')
          else bind_res (psbt_unsigned_transaction psbt_bytes) (\<lambda>u.
            raise_if [(u \<noteq> transaction_bytes, ''PSBT global unsigned transaction does not match unsigned_tx'')]))"

definition actual_outputs :: "parsed_transaction \<Rightarrow> (int \<times> int \<times> string) list" where
  "actual_outputs t = map (\<lambda>(i, u). (int i, to_value u, bytes_hex (to_script u))) (enumerate 0 (pt_outputs t))"

definition manifest_outputs :: "ring_manifest \<Rightarrow> (int \<times> int \<times> string) list" where
  "manifest_outputs m = map (\<lambda>u. (mo_index u, mo_amount u, mo_script_pubkey u)) (rm_outputs m)"

definition validate_unsigned :: "ring_lib \<Rightarrow> ring_unsigned \<Rightarrow> unit res" where
  "validate_unsigned lib p =
     bind_res (unsigned_transaction_of (ru_unsigned_tx p)) (\<lambda>(b, t).
     bind_res (psbt_carries (ru_psbt p) b) (\<lambda>_.
       let m = ru_manifest p in
       raise_if
        [(rc_round_nonce p \<noteq> rm_round_nonce m \<or> rc_revision p \<noteq> rm_revision m, ''unsigned payload round does not match manifest''),
         (bytes_hex (rl_sha256 lib b) \<noteq> rm_unsigned_tx_hash m, ''unsigned transaction hash does not match manifest''),
         (bytes_hex (rev (hash256 lib b)) \<noteq> rm_unsigned_txid m, ''unsigned transaction ID does not match manifest''),
         (actual_outputs t \<noteq> manifest_outputs m, ''unsigned transaction outputs do not match manifest'')]))"

definition validate_unsigned_payload :: "ring_lib \<Rightarrow> ring_unsigned \<Rightarrow> unit res" where
  "validate_unsigned_payload lib p = all_res
     [field_checks [sized 2 MAX_RING_PAYLOAD_BYTES (ru_unsigned_tx p), sized 1 MAX_RING_PAYLOAD_BYTES (ru_psbt p)],
      validate_manifest lib (ru_manifest p), validate_common lib p, validate_unsigned lib p]"

record ring_ready = ring_common +
  ry_state :: readiness_state
  ry_attestation :: attestation
  ry_endpoint_signature :: string

definition validate_ready :: "ring_lib \<Rightarrow> ring_ready \<Rightarrow> unit res" where
  "validate_ready lib p =
     (let s = ry_state p; a = ry_attestation p in
      all_res
       [validate_readiness lib s, validate_attestation lib a, validate_common lib p,
        validate_hex 64 (ry_endpoint_signature p),
        raise_if
         [(rc_round_nonce p \<noteq> rs_round_nonce s \<or> rc_revision p \<noteq> rs_revision s \<or> rc_signer_key p \<noteq> rs_signer_key s,
             ''ready payload envelope does not match readiness state''),
          (at_state_hash a \<noteq> bytes_hex (ring_hash lib ''ready-state'' (readiness_value s)),
             ''attestation state_hash does not match readiness state''),
          (at_edge a \<noteq> ps_pending_channel_id s \<or> at_manifest_hash a \<noteq> rs_manifest_hash s \<or> at_revision a \<noteq> rs_revision s \<or>
             at_role a \<noteq> rs_role s \<or> at_round_nonce a \<noteq> rs_round_nonce s \<or> at_signer_key a \<noteq> rs_signer_key s,
             ''attestation does not match readiness state'')]])"

record ring_ready_set = ring_common +
  rt_manifest :: ring_manifest
  rt_attestations :: "signed_attestation list"

type_synonym endpoint = "string \<times> endpoint_role \<times> string"

definition expected_endpoints :: "ring_manifest \<Rightarrow> endpoint list" where
  "expected_endpoints m = concat (map (\<lambda>e.
     [(re_pending_channel_id e, OPENER, re_opener_key e), (re_pending_channel_id e, FUNDEE, re_acceptor_key e)]) (rm_edges m))"

definition actual_endpoint :: "signed_attestation \<Rightarrow> endpoint" where
  "actual_endpoint s = (at_edge (sa_attestation s), at_role (sa_attestation s), at_signer_key (sa_attestation s))"

definition other_revision :: "ring_manifest \<Rightarrow> string \<Rightarrow> attestation \<Rightarrow> bool" where
  "other_revision m expected a \<longleftrightarrow>
     at_manifest_hash a \<noteq> expected \<or> at_round_nonce a \<noteq> rm_round_nonce m \<or> at_revision a \<noteq> rm_revision m"

definition validate_complete_set :: "ring_lib \<Rightarrow> ring_ready_set \<Rightarrow> unit res" where
  "validate_complete_set lib p =
     (let m = rt_manifest p; expected_hash = bytes_hex (manifest_hash lib m); actual = map actual_endpoint (rt_attestations p) in
      raise_if
       [(rc_round_nonce p \<noteq> rm_round_nonce m \<or> rc_revision p \<noteq> rm_revision m, ''readiness set round does not match manifest''),
        (\<not> distinct actual \<or> set actual \<noteq> set (expected_endpoints m),
           ''readiness set must contain exactly two endpoint attestations per edge''),
        (list_ex (other_revision m expected_hash \<circ> sa_attestation) (rt_attestations p),
           ''readiness attestation refers to another ring revision'')])"

definition validate_ready_set :: "ring_lib \<Rightarrow> ring_ready_set \<Rightarrow> unit res" where
  "validate_ready_set lib p = all_res
     [field_checks [sized (2 * MIN_RING_PARTICIPANTS) 64 (rt_attestations p)],
      validate_manifest lib (rt_manifest p), all_res (map (validate_signed_attestation lib) (rt_attestations p)),
      validate_common lib p, validate_complete_set lib p]"

definition verify_ready_payload :: "ring_lib \<Rightarrow> ring_ready \<Rightarrow> bool" where
  "verify_ready_payload lib p =
     verify_hash lib (at_signer_key (ry_attestation p)) (ring_hash lib ''ready'' (attestation_value (ry_attestation p)))
       (ry_endpoint_signature p)"

definition verify_ready_set :: "ring_lib \<Rightarrow> ring_ready_set \<Rightarrow> bool" where
  "verify_ready_set lib p = list_all (verify_attestation lib) (rt_attestations p)"

record ring_ready_set_ack = ring_common +
  rk_readiness_hash :: string

definition validate_ready_set_ack :: "ring_lib \<Rightarrow> ring_ready_set_ack \<Rightarrow> unit res" where
  "validate_ready_set_ack lib p = all_res [validate_common lib p, validate_hex 32 (rk_readiness_hash p)]"

text \<open>\<open>RingSignPayload\<close> and \<open>RingSignAckPayload\<close> have the same fields and checks.\<close>

record ring_sign = ring_common +
  rg_manifest_hash :: string
  rg_unsigned_tx_hash :: string

definition validate_sign :: "ring_lib \<Rightarrow> ring_sign \<Rightarrow> unit res" where
  "validate_sign lib p = all_res
     [validate_common lib p, validate_hex 32 (rg_manifest_hash p), validate_hex 32 (rg_unsigned_tx_hash p)]"

record ring_cancel = ring_common +
  rx_reason_code :: string
  rx_canceled_pending_ids :: "string list"

definition reason_char :: "char \<Rightarrow> bool" where
  "reason_char c \<longleftrightarrow> is_digit c \<or> c = CHR ''_'' \<or> 97 \<le> (of_char c :: nat) \<and> (of_char c :: nat) \<le> 122"

definition validate_cancel :: "ring_lib \<Rightarrow> ring_cancel \<Rightarrow> unit res" where
  "validate_cancel lib p = all_res
     [field_checks [sized 1 64 (rx_reason_code p), list_all reason_char (rx_reason_code p),
        length (rx_canceled_pending_ids p) \<le> MAX_RING_PARTICIPANTS],
      validate_common lib p,
      all_res (map (validate_hex 32) (rx_canceled_pending_ids p)),
      all_unique (rx_canceled_pending_ids p) ''canceled pending_channel_id'']"

section \<open>What a validated transaction payload binds\<close>

lemma unsigned_transaction_of_Inr:
  assumes "unsigned_transaction_of h = Inr (b, t)"
  shows "fromhex h = Inr b" "parse_transaction_bytes b = Inr t" "\<not> pt_has_witness t" "pt_version t = 2" "pt_locktime t = 0"
    "\<forall>i \<in> set (pt_inputs t). ti_scriptsig i = [] \<and> ti_sequence i = 0xFFFFFFFF"
    "distinct (map (\<lambda>i. (txin_txid i, ti_vout i)) (pt_inputs t))"
    "serialize_transaction 2 (pt_inputs t) (pt_outputs t) 0 None = Inr b"
  using assms
  by (auto simp: unsigned_transaction_of_def bind_res_Inr_iff map_res_Inr_iff list_ex_iff simp del: raise_if.simps
      split: if_splits sum.splits)

lemma psbt_carries_Inr:
  assumes "psbt_carries psbt b = Inr ()"
  obtains bs where "b64decode std_index psbt = Some bs" "b64encode bs = psbt" "psbt_unsigned_transaction bs = Inr b"
  using assms by (auto simp: psbt_carries_def bind_res_Inr_iff simp del: raise_if.simps split: option.splits if_splits)

lemma outputs_agree:
  assumes "actual_outputs t = manifest_outputs m"
  shows "length (rm_outputs m) = length (pt_outputs t)"
    "i < length (pt_outputs t) \<Longrightarrow> mo_index (rm_outputs m ! i) = int i \<and> mo_amount (rm_outputs m ! i) = to_value (pt_outputs t ! i)
       \<and> mo_script_pubkey (rm_outputs m ! i) = bytes_hex (to_script (pt_outputs t ! i))"
proof -
  have "length (actual_outputs t) = length (manifest_outputs m)" by (rule arg_cong [OF assms])
  then show len: "length (rm_outputs m) = length (pt_outputs t)" by (simp add: actual_outputs_def manifest_outputs_def)
  assume "i < length (pt_outputs t)"
  then show "mo_index (rm_outputs m ! i) = int i \<and> mo_amount (rm_outputs m ! i) = to_value (pt_outputs t ! i)
       \<and> mo_script_pubkey (rm_outputs m ! i) = bytes_hex (to_script (pt_outputs t ! i))"
    using arg_cong [OF assms, of "\<lambda>l. l ! i"] len by (simp add: actual_outputs_def manifest_outputs_def nth_enumerate_eq)
qed

lemma output_at_transaction:
  assumes "actual_outputs t = manifest_outputs m" "distinct (map mo_index (rm_outputs m))" "output_at m i = Some u"
  shows "nat i < length (pt_outputs t)" "mo_amount u = to_value (pt_outputs t ! nat i)"
    "mo_script_pubkey u = bytes_hex (to_script (pt_outputs t ! nat i))"
proof -
  from assms(3) obtain k where k: "k < length (rm_outputs m)" "rm_outputs m ! k = u" "mo_index u = i"
    unfolding output_at_eq [OF assms(2)] by (auto simp: in_set_conv_nth)
  with outputs_agree [OF assms(1)] have "i = int k" by metis
  with k outputs_agree [OF assms(1)] show "nat i < length (pt_outputs t)" "mo_amount u = to_value (pt_outputs t ! nat i)"
    "mo_script_pubkey u = bytes_hex (to_script (pt_outputs t ! nat i))" by auto
qed

lemma distinct_map_comp: "distinct (map f xs) \<Longrightarrow> (\<And>x. f x = g (h x)) \<Longrightarrow> distinct (map h xs)"
  by (auto simp: distinct_map inj_on_def)

text \<open>C4: When a participant accepts the unsigned transaction of a ring, the three things it received describe one
  transaction. The transaction has version 2, no locktime, final sequences, no signatures and no input twice; the
  manifest holds its hash and its txid; the PSBT that the wallet is going to sign contains it byte for byte
  if the wallet accepts that PSBT at all; and its outputs are those of the manifest: the output of
  every channel edge pays the capacity to the script of the edge, the equal outputs have one common amount, and the
  total stays within the money supply.\<close>

theorem unsigned_payload_binds:
  assumes "validate_unsigned_payload lib p = Inr ()"
  shows "\<exists>b t psbt amount. fromhex (ru_unsigned_tx p) = Inr b \<and> parse_transaction_bytes b = Inr t \<and>
    pt_version t = 2 \<and> pt_locktime t = 0 \<and> \<not> pt_has_witness t \<and>
    (\<forall>i \<in> set (pt_inputs t). ti_scriptsig i = [] \<and> ti_sequence i = 0xFFFFFFFF) \<and>
    distinct (map (\<lambda>i. (ti_txid_le i, ti_vout i)) (pt_inputs t)) \<and>
    rm_unsigned_tx_hash (ru_manifest p) = bytes_hex (rl_sha256 lib b) \<and>
    rm_unsigned_txid (ru_manifest p) = bytes_hex (rev (rl_sha256 lib (rl_sha256 lib b))) \<and>
    b64decode std_index (ru_psbt p) = Some psbt \<and> (\<forall>w. parse_psbt psbt = Inr w \<longrightarrow> px_unsigned_tx w = b) \<and>
    (\<forall>e \<in> set (rm_edges (ru_manifest p)). nat (re_output_index e) < length (pt_outputs t) \<and>
       to_value (pt_outputs t ! nat (re_output_index e)) = re_capacity e \<and>
       bytes_hex (to_script (pt_outputs t ! nat (re_output_index e))) = re_script_pubkey e) \<and>
    (\<forall>i \<in> set (rm_equal_output_indices (ru_manifest p)). nat i < length (pt_outputs t) \<and> to_value (pt_outputs t ! nat i) = amount) \<and>
    sum_list (map to_value (pt_outputs t)) \<le> MAX_MONEY"
proof -
  define m where "m = ru_manifest p"
  from assms have vm: "validate_manifest lib m = Inr ()" and vu: "validate_unsigned lib p = Inr ()"
    unfolding validate_unsigned_payload_def all_res_Inr list.pred_inject m_def by auto
  note c = manifest_checks [OF vm]
  from vu obtain b t where tx: "unsigned_transaction_of (ru_unsigned_tx p) = Inr (b, t)"
    and pc: "psbt_carries (ru_psbt p) b = Inr ()" and hs: "rm_unsigned_tx_hash m = bytes_hex (rl_sha256 lib b)"
    "rm_unsigned_txid m = bytes_hex (rev (hash256 lib b))" and outs: "actual_outputs t = manifest_outputs m"
    by (auto simp: validate_unsigned_def bind_res_Inr_iff m_def Let_def simp del: raise_if.simps)
  note u = unsigned_transaction_of_Inr [OF tx]
  from psbt_carries_Inr [OF pc] obtain psbt where ps: "b64decode std_index (ru_psbt p) = Some psbt"
    "psbt_unsigned_transaction psbt = Inr b" by metis
  have wallet: "px_unsigned_tx w = b" if "parse_psbt psbt = Inr w" for w
    using ring_reader_core [OF that] ps(2) by (simp split: if_splits)
  have pts: "distinct (map (\<lambda>i. (ti_txid_le i, ti_vout i)) (pt_inputs t))"
    by (rule distinct_map_comp [OF u(7), of "\<lambda>(x, v). (bytes_hex (rev x), v)"]) (simp add: txin_txid_def)
  have edges: "nat (re_output_index e) < length (pt_outputs t) \<and>
       to_value (pt_outputs t ! nat (re_output_index e)) = re_capacity e \<and>
       bytes_hex (to_script (pt_outputs t ! nat (re_output_index e))) = re_script_pubkey e" if "e \<in> set (rm_edges m)" for e
  proof -
    from c(17) that obtain w where w: "output_at m (re_output_index e) = Some w" "mo_amount w = re_capacity e"
      "mo_script_pubkey w = re_script_pubkey e" by (auto simp: edge_matches_output_iff)
    with output_at_transaction [OF outs c(7) w(1)] show ?thesis by simp
  qed
  from remdups_singleton [OF c(16)] obtain a where a: "\<forall>i \<in> set (rm_equal_output_indices m). map_option mo_amount (output_at m i) = a"
    by auto
  have eq: "nat i < length (pt_outputs t) \<and> to_value (pt_outputs t ! nat i) = the a"
    if i: "i \<in> set (rm_equal_output_indices m)" for i
  proof -
    from c(12) i obtain w where "w \<in> set (rm_outputs m)" "mo_index w = i" by auto
    then have w: "output_at m i = Some w" by (simp add: output_at_eq [OF c(7)])
    with a i have "a = Some (mo_amount w)" by fastforce
    with output_at_transaction [OF outs c(7) w] show ?thesis by simp
  qed
  have "map to_value (pt_outputs t) = map mo_amount (rm_outputs m)"
    by (rule nth_equalityI) (auto simp: outputs_agree [OF outs])
  with c(18) have total: "sum_list (map to_value (pt_outputs t)) \<le> MAX_MONEY" by simp
  show ?thesis
    by (intro exI [of _ b] exI [of _ t] exI [of _ psbt] exI [of _ "the a"] conjI)
      (use u hs wallet ps pts edges eq total in \<open>simp_all add: m_def hash256_def\<close>)
qed

text \<open>The payload a coordinator makes from a well-formed transaction with \<open>build_unsigned_psbt\<close> is accepted.\<close>

lemma built_payload_accepted:
  assumes "unsigned_transaction_of raw = Inr (b, t)"
    and build: "build_unsigned_psbt (hash256 lib) raw utxos = Inr (psbt, txid)" "list_all (\<lambda>u. wu_value_sat u \<le> MAX_MONEY) utxos"
    and p: "ru_unsigned_tx p = raw" "ru_psbt p = b64encode psbt" "rc_round_nonce p = rm_round_nonce (ru_manifest p)"
      "rc_revision p = rm_revision (ru_manifest p)"
    and m: "rm_unsigned_tx_hash (ru_manifest p) = bytes_hex (rl_sha256 lib b)" "rm_unsigned_txid (ru_manifest p) = txid"
      "manifest_outputs (ru_manifest p) = actual_outputs t"
  shows "validate_unsigned lib p = Inr ()"
proof -
  note u = unsigned_transaction_of_Inr [OF assms(1)]
  from build_unsigned_psbt_parses [OF build] obtain w where w: "parse_psbt psbt = Inr w" "px_version w = 0" "fromhex raw = Inr (px_unsigned_tx w)"
    by blast
  from ring_reader_core [OF w(1)] w(2,3) u(1) have "psbt_unsigned_transaction psbt = Inr b" by simp
  then have "psbt_carries (b64encode psbt) b = Inr ()" by (simp add: psbt_carries_def b64decode_encode)
  moreover have "txid = bytes_hex (rev (hash256 lib b))"
    using build(1) u by (auto simp: build_unsigned_psbt_def parse_transaction_def get_txid_def bind_res_Inr_iff map_res_Inr_iff
        split: sum.splits if_splits)
  ultimately show ?thesis using assms(1) p m by (simp add: validate_unsigned_def)
qed

section \<open>What a verified readiness set shows\<close>

lemma manifest_ids_distinct: "validate_manifest lib m = Inr () \<Longrightarrow> distinct (map re_pending_channel_id (rm_edges m))"
  unfolding validate_manifest_def Let_def all_res_Inr list.pred_inject all_unique_Inr by auto

definition endpoint_key :: "ring_edge \<Rightarrow> endpoint_role \<Rightarrow> string" where
  "endpoint_key e role = (case role of OPENER \<Rightarrow> re_opener_key e | FUNDEE \<Rightarrow> re_acceptor_key e)"

lemma expected_endpoints_iff:
  "x \<in> set (expected_endpoints m) \<longleftrightarrow> (\<exists>e \<in> set (rm_edges m). \<exists>role. x = (re_pending_channel_id e, role, endpoint_key e role))"
proof -
  have "(\<exists>role. P role) \<longleftrightarrow> P OPENER \<or> P FUNDEE" for P by (metis endpoint_role.exhaust)
  then show ?thesis by (auto simp: expected_endpoints_def endpoint_key_def)
qed

lemma complete_set_Inr:
  assumes "validate_complete_set lib p = Inr ()"
  shows "distinct (map actual_endpoint (rt_attestations p))"
    "set (map actual_endpoint (rt_attestations p)) = set (expected_endpoints (rt_manifest p))"
    "\<forall>s \<in> set (rt_attestations p). \<not> other_revision (rt_manifest p) (bytes_hex (manifest_hash lib (rt_manifest p))) (sa_attestation s)"
  using assms by (auto simp: validate_complete_set_def Let_def list_ex_iff simp del: raise_if.simps)

lemma verify_hash_schnorr:
  "verify_hash lib key h sig \<Longrightarrow> \<exists>pub sg. fromhex key = Inr pub \<and> fromhex sig = Inr sg \<and> rl_verify_schnorr lib pub h sg"
  by (auto simp: verify_hash_def split: sum.splits)

text \<open>Each participant opens exactly one channel of the cycle and accepts exactly one.\<close>

lemma cycle_endpoint_unique:
  assumes "validate_manifest lib m = Inr ()" "k \<in> set (rm_participant_keys m)"
  shows "\<exists>e \<in> set (rm_edges m). endpoint_key e role = k \<and> (\<forall>e' \<in> set (rm_edges m). endpoint_key e' role = k \<longrightarrow> e' = e)"
proof -
  note c = manifest_checks [OF assms(1)]
  let ?n = "length (rm_participant_keys m)"
  have n: "length (rm_edges m) = ?n" "0 < ?n" using c(1,2) by (auto simp: sized_def)
  obtain i where i: "i < ?n" "k = rm_participant_keys m ! i" using assms(2) by (auto simp: in_set_conv_nth)
  define f where "f j = (case role of OPENER \<Rightarrow> j | FUNDEE \<Rightarrow> Suc j mod ?n)" for j
  have ek: "endpoint_key (rm_edges m ! j) role = rm_participant_keys m ! f j" if "j < ?n" for j
    using that c(4) n by (simp add: cycle_edges_nth endpoint_key_def f_def split: endpoint_role.split)
  have fr: "f j < ?n" if "j < ?n" for j using that n(2) by (simp add: f_def split: endpoint_role.split)
  have inj: "j = j'" if "f j = f j'" "j < ?n" "j' < ?n" for j j'
    using that by (auto simp: f_def mod_Suc split: endpoint_role.splits if_splits)
  obtain j where j: "j < ?n" "f j = i"
  proof (cases role)
    case OPENER
    with i that [of i] show ?thesis by (simp add: f_def)
  next
    case FUNDEE
    have "f (if i = 0 then ?n - 1 else i - 1) = i" using i FUNDEE by (auto simp: f_def)
    moreover have "(if i = 0 then ?n - 1 else i - 1) < ?n" using i(1) n(2) by auto
    ultimately show ?thesis using that by blast
  qed
  have "e' = rm_edges m ! j" if e': "e' \<in> set (rm_edges m)" "endpoint_key e' role = k" for e'
  proof -
    obtain j' where j': "j' < ?n" "e' = rm_edges m ! j'" using e'(1) n by (auto simp: in_set_conv_nth)
    with e'(2) ek i fr c(3) have "f j' = i" by (auto simp: nth_eq_iff_index_eq)
    with j j' inj show ?thesis by blast
  qed
  moreover have "rm_edges m ! j \<in> set (rm_edges m)" "endpoint_key (rm_edges m ! j) role = k"
    using j n ek i by simp_all
  ultimately show ?thesis by blast
qed

lemma distinct_endpoints:
  "distinct (map re_pending_channel_id es) \<Longrightarrow> distinct (concat (map (\<lambda>e.
     [(re_pending_channel_id e, OPENER, re_opener_key e), (re_pending_channel_id e, FUNDEE, re_acceptor_key e)]) es))"
  by (induction es) auto

lemma ready_set_endpoints:
  assumes "validate_ready_set lib p = Inr ()"
  defines "m \<equiv> rt_manifest p" and "ats \<equiv> rt_attestations p"
  shows "length ats = 2 * length (rm_edges m)"
    "x \<in> set ats \<Longrightarrow> \<exists>e \<in> set (rm_edges m). actual_endpoint x =
       (re_pending_channel_id e, at_role (sa_attestation x), endpoint_key e (at_role (sa_attestation x)))"
    "e \<in> set (rm_edges m) \<Longrightarrow> \<exists>x \<in> set ats. actual_endpoint x = (re_pending_channel_id e, role, endpoint_key e role)"
    "x \<in> set ats \<Longrightarrow> y \<in> set ats \<Longrightarrow> actual_endpoint x = actual_endpoint y \<Longrightarrow> x = y"
proof -
  from assms(1) have vm: "validate_manifest lib m = Inr ()" and vc: "validate_complete_set lib p = Inr ()"
    unfolding validate_ready_set_def all_res_Inr list.pred_inject m_def by auto
  note s = complete_set_Inr [OF vc, folded m_def ats_def]
  have ids: "distinct (map re_pending_channel_id (rm_edges m))" by (rule manifest_ids_distinct [OF vm])
  show "x \<in> set ats \<Longrightarrow> y \<in> set ats \<Longrightarrow> actual_endpoint x = actual_endpoint y \<Longrightarrow> x = y"
    using s(1) by (auto simp: distinct_map inj_on_def)
  show "\<exists>e \<in> set (rm_edges m). actual_endpoint x = (re_pending_channel_id e, at_role (sa_attestation x), endpoint_key e (at_role (sa_attestation x)))"
    if "x \<in> set ats"
  proof -
    have "actual_endpoint x \<in> set (expected_endpoints m)" using that s(2) by auto
    then show ?thesis unfolding expected_endpoints_iff by (auto simp: actual_endpoint_def)
  qed
  show "\<exists>x \<in> set ats. actual_endpoint x = (re_pending_channel_id e, role, endpoint_key e role)"
    if "e \<in> set (rm_edges m)"
  proof -
    have "(re_pending_channel_id e, role, endpoint_key e role) \<in> actual_endpoint ` set ats"
      using that s(2) unfolding set_map by (auto simp: expected_endpoints_iff)
    then show ?thesis by (auto simp: image_iff eq_commute)
  qed
  have "length ats = card (set (expected_endpoints m))"
    using distinct_card [OF s(1)] s(2) by simp
  moreover have "distinct (expected_endpoints m)"
    using distinct_endpoints [OF ids] by (simp add: expected_endpoints_def)
  moreover have "length (expected_endpoints m) = 2 * length (rm_edges m)"
    by (simp add: expected_endpoints_def length_concat comp_def sum_list_triv)
  ultimately show "length ats = 2 * length (rm_edges m)" by (simp add: distinct_card)
qed

text \<open>C3: A readiness set that passes validation and verification is the agreement of the whole ring on one manifest.
  It holds exactly one attestation for each endpoint of each channel, two per edge and no other, each signed by the
  key of that endpoint for the hash, the nonce and the revision of this very manifest, with a signature that verifies; and
  every participant has signed exactly once as opener and exactly once as fundee.\<close>

theorem ready_set_complete:
  assumes "validate_ready_set lib p = Inr ()" "verify_ready_set lib p"
  shows "length (rt_attestations p) = 2 * length (rm_edges (rt_manifest p)) \<and>
    (\<forall>e \<in> set (rm_edges (rt_manifest p)). \<forall>role. \<exists>!s. s \<in> set (rt_attestations p) \<and>
       at_edge (sa_attestation s) = re_pending_channel_id e \<and> at_role (sa_attestation s) = role) \<and>
    (\<forall>s \<in> set (rt_attestations p). \<exists>e \<in> set (rm_edges (rt_manifest p)).
       at_edge (sa_attestation s) = re_pending_channel_id e \<and>
       at_signer_key (sa_attestation s) = endpoint_key e (at_role (sa_attestation s)) \<and>
       at_manifest_hash (sa_attestation s) = bytes_hex (manifest_hash lib (rt_manifest p)) \<and>
       at_round_nonce (sa_attestation s) = rm_round_nonce (rt_manifest p) \<and> at_revision (sa_attestation s) = rm_revision (rt_manifest p) \<and>
       (\<exists>pub sig. fromhex (at_signer_key (sa_attestation s)) = Inr pub \<and> fromhex (sa_signature s) = Inr sig \<and>
          rl_verify_schnorr lib pub (ring_hash lib ''ready'' (attestation_value (sa_attestation s))) sig)) \<and>
    (\<forall>k \<in> set (rm_participant_keys (rt_manifest p)). \<forall>role. \<exists>!s. s \<in> set (rt_attestations p) \<and>
       at_signer_key (sa_attestation s) = k \<and> at_role (sa_attestation s) = role)"
proof -
  define m where "m = rt_manifest p"
  define ats where "ats = rt_attestations p"
  from assms(1) have vm: "validate_manifest lib m = Inr ()" and vc: "validate_complete_set lib p = Inr ()"
    unfolding validate_ready_set_def all_res_Inr list.pred_inject m_def by auto
  note rev = complete_set_Inr(3) [OF vc, folded m_def ats_def]
  note r = ready_set_endpoints [OF assms(1), folded m_def ats_def]
  have inj: "e = e'" if "e \<in> set (rm_edges m)" "e' \<in> set (rm_edges m)" "re_pending_channel_id e = re_pending_channel_id e'" for e e'
    using manifest_ids_distinct [OF vm] that by (auto simp: distinct_map inj_on_def)
  have edge: "\<exists>!s. s \<in> set ats \<and> at_edge (sa_attestation s) = re_pending_channel_id e \<and> at_role (sa_attestation s) = role"
    if e: "e \<in> set (rm_edges m)" for e role
  proof -
    from r(3) [OF e, of role] obtain x where x: "x \<in> set ats" "actual_endpoint x = (re_pending_channel_id e, role, endpoint_key e role)" by blast
    moreover have "y = x" if y: "y \<in> set ats" "at_edge (sa_attestation y) = re_pending_channel_id e" "at_role (sa_attestation y) = role" for y
      using r(2) [OF y(1)] r(4) [OF y(1) x(1)] x(2) y(2,3) inj [OF e] by (auto simp: actual_endpoint_def)
    ultimately show ?thesis by (auto simp: actual_endpoint_def)
  qed
  have key: "\<exists>!s. s \<in> set ats \<and> at_signer_key (sa_attestation s) = k \<and> at_role (sa_attestation s) = role"
    if k: "k \<in> set (rm_participant_keys m)" for k role
  proof -
    from cycle_endpoint_unique [OF vm k, of role] obtain e where e: "e \<in> set (rm_edges m)" "endpoint_key e role = k"
      "\<And>e'. e' \<in> set (rm_edges m) \<Longrightarrow> endpoint_key e' role = k \<Longrightarrow> e' = e" by blast
    from r(3) [OF e(1), of role] obtain x where x: "x \<in> set ats" "actual_endpoint x = (re_pending_channel_id e, role, endpoint_key e role)" by blast
    moreover have "y = x" if y: "y \<in> set ats" "at_signer_key (sa_attestation y) = k" "at_role (sa_attestation y) = role" for y
    proof -
      from r(2) [OF y(1)] obtain e' where e': "e' \<in> set (rm_edges m)"
        "actual_endpoint y = (re_pending_channel_id e', role, endpoint_key e' role)" unfolding y(3) by blast
      with y(2) have "e' = e" by (intro e(3)) (simp_all add: actual_endpoint_def)
      with e'(2) x(2) show ?thesis by (intro r(4) y(1) x(1)) simp
    qed
    ultimately show ?thesis using e(2) by (auto simp: actual_endpoint_def)
  qed
  have each: "\<exists>e \<in> set (rm_edges m). at_edge (sa_attestation s) = re_pending_channel_id e \<and>
       at_signer_key (sa_attestation s) = endpoint_key e (at_role (sa_attestation s)) \<and>
       at_manifest_hash (sa_attestation s) = bytes_hex (manifest_hash lib m) \<and>
       at_round_nonce (sa_attestation s) = rm_round_nonce m \<and> at_revision (sa_attestation s) = rm_revision m \<and>
       (\<exists>pub sig. fromhex (at_signer_key (sa_attestation s)) = Inr pub \<and> fromhex (sa_signature s) = Inr sig \<and>
          rl_verify_schnorr lib pub (ring_hash lib ''ready'' (attestation_value (sa_attestation s))) sig)"
    if s: "s \<in> set ats" for s
  proof -
    have "verify_attestation lib s" using assms(2) s by (auto simp: verify_ready_set_def list_all_iff ats_def)
    then have v: "\<exists>pub sig. fromhex (at_signer_key (sa_attestation s)) = Inr pub \<and> fromhex (sa_signature s) = Inr sig \<and>
          rl_verify_schnorr lib pub (ring_hash lib ''ready'' (attestation_value (sa_attestation s))) sig"
      unfolding verify_attestation_def by (rule verify_hash_schnorr)
    from r(2) [OF s] obtain e where "e \<in> set (rm_edges m)" "at_edge (sa_attestation s) = re_pending_channel_id e"
      "at_signer_key (sa_attestation s) = endpoint_key e (at_role (sa_attestation s))" by (auto simp: actual_endpoint_def)
    moreover have "at_manifest_hash (sa_attestation s) = bytes_hex (manifest_hash lib m)"
       "at_round_nonce (sa_attestation s) = rm_round_nonce m" "at_revision (sa_attestation s) = rm_revision m"
      using rev [rule_format, OF s] unfolding other_revision_def by simp_all
    ultimately show ?thesis using v by (intro bexI conjI)
  qed
  show ?thesis
    by (fold m_def ats_def, intro conjI ballI allI) (rule r(1), erule edge, erule each, erule key)
qed

section \<open>An example round\<close>

definition ex_zlib :: ring_lib where
  "ex_zlib = ex_lib\<lparr>rl_sha256 := \<lambda>_. replicate 32 0\<rparr>"

definition ex_zeros :: string where
  "ex_zeros = replicate 64 (CHR ''0'')"

lemma ex_zlib_hash: "ring_hash ex_zlib ty v = replicate 32 0" "manifest_hash ex_zlib m = replicate 32 0"
  "hash256 ex_zlib b = replicate 32 0" "rl_sha256 ex_zlib b = replicate 32 0"
  by (simp_all add: manifest_hash_def ring_hash_def ex_zlib_def hash256_def)

definition ex_attestation :: "ring_edge \<Rightarrow> endpoint_role \<Rightarrow> signed_attestation" where
  "ex_attestation e role = \<lparr>sa_attestation = \<lparr>at_edge = re_pending_channel_id e, at_manifest_hash = ex_zeros, at_revision = 0,
     at_role = role, at_round_nonce = ex_hex 9, at_signer_key = endpoint_key e role, at_state_hash = ex_hex 12\<rparr>,
     sa_signature = endpoint_key e role @ ex_zeros\<rparr>"

definition ex_common :: ring_common where
  "ex_common = \<lparr>rc_round_nonce = ex_hex 9, rc_revision = 0, rc_signer_key = ex_hex 1, rc_sig = bytes_hex (replicate 64 0)\<rparr>"

definition ex_ready_set :: ring_ready_set where
  "ex_ready_set = ring_common.extend ex_common \<lparr>rt_manifest = ex_manifest, rt_attestations =
     concat (map (\<lambda>e. [ex_attestation e OPENER, ex_attestation e FUNDEE]) (rm_edges ex_manifest))\<rparr>"

lemma ex_zlib_keys: "validate_xonly_key ex_zlib = validate_xonly_key ex_lib"
  "rl_fullyvalid ex_zlib b" "rl_verify_schnorr ex_zlib pub h sig \<longleftrightarrow> sig = pub @ h"
  by (simp_all add: validate_xonly_key_def ex_zlib_def ex_lib_def fun_eq_iff)

lemma ex_hex_key: "n < 16 \<Longrightarrow> validate_xonly_key ex_zlib (ex_hex n) = Inr ()"
  by (simp add: validate_xonly_key_def ex_hex_valid) (simp add: ex_hex_bytes ex_zlib_def ex_lib_def)

lemma ex_zeros_valid: "validate_hex 32 ex_zeros = Inr ()" "ex_zeros = bytes_hex (replicate 32 0)"
proof -
  show "ex_zeros = bytes_hex (replicate 32 0)" by code_simp
  then show "validate_hex 32 ex_zeros = Inr ()" using validate_hex_bytes [of "replicate 32 0" 32] by simp
qed

lemma ex_manifest_zvalid: "validate_manifest ex_zlib ex_manifest = Inr ()"
  using ex_manifest_valid by (simp add: validate_manifest_def validate_edge_def [abs_def] ex_zlib_keys)

text \<open>The attestations of the example are valid and verify because the scheme of the example accepts key and message as signature.\<close>

lemma ex_attestation_ok:
  assumes "endpoint_key e role = ex_hex n" "n < 16" "re_pending_channel_id e = ex_hex k" "k < 16"
  shows "validate_signed_attestation ex_zlib (ex_attestation e role) = Inr ()" "verify_attestation ex_zlib (ex_attestation e role)"
proof -
  have sig: "ex_hex n @ ex_zeros = bytes_hex ((replicate 31 0 @ [word_of_nat n]) @ replicate 32 0)"
    using assms(2) by (simp add: ex_hex_bytes ex_zeros_valid(2) bytes_hex_def del: replicate_Suc)
  have v: "validate_hex 64 (ex_hex n @ ex_zeros) = Inr ()" unfolding sig by (rule validate_hex_bytes) simp
  show "validate_signed_attestation ex_zlib (ex_attestation e role) = Inr ()"
    using assms v ex_hex_valid [of 12] ex_hex_valid [of 9] ex_hex_valid [of k] ex_hex_key [of n] ex_zeros_valid(1)
    by (simp add: ex_attestation_def validate_signed_attestation_def validate_attestation_def between_def MAX_REVISION_def
        field_checks_def guard_res_def)
  have "fromhex (ex_hex n @ ex_zeros) = Inr ((replicate 31 0 @ [word_of_nat n]) @ replicate 32 0)"
    "fromhex (ex_hex n) = Inr (replicate 31 0 @ [word_of_nat n])"
    unfolding sig using assms(2) by (simp_all only: fromhex_hex ex_hex_bytes)
  then show "verify_attestation ex_zlib (ex_attestation e role)"
    using assms v ex_hex_key [of n]
    by (simp add: verify_attestation_def verify_hash_def ex_zlib_hash ex_attestation_def ex_zlib_keys)
qed

lemma ex_common_valid: "validate_common ex_zlib ex_common = Inr ()"
  using ex_hex_valid [of 9] ex_hex_key [of 1] validate_hex_bytes [of "replicate 64 0" 64]
  by (simp add: validate_common_def ex_common_def between_def MAX_REVISION_def field_checks_def guard_res_def)

lemma ex_ready_set_attestations:
  "s \<in> set (rt_attestations ex_ready_set) \<Longrightarrow> validate_signed_attestation ex_zlib s = Inr () \<and> verify_attestation ex_zlib s"
  by (auto simp: ex_ready_set_def ring_common.defs ring_ready_set.defs ex_manifest_def ex_edge_def endpoint_key_def
      intro!: ex_attestation_ok)

lemma ex_ready_set_valid: "validate_ready_set ex_zlib ex_ready_set = Inr ()"
proof -
  have m: "rt_manifest ex_ready_set = ex_manifest" and r: "rc_round_nonce ex_ready_set = rm_round_nonce ex_manifest"
    "rc_revision ex_ready_set = rm_revision ex_manifest"
    by (simp_all add: ex_ready_set_def ring_common.defs ring_ready_set.defs ex_manifest_def ex_common_def)
  have "map actual_endpoint (rt_attestations ex_ready_set) = expected_endpoints ex_manifest"
    by (simp add: ex_ready_set_def ring_common.defs ring_ready_set.defs expected_endpoints_def map_concat comp_def
        actual_endpoint_def ex_attestation_def endpoint_key_def)
  moreover have "distinct (expected_endpoints ex_manifest)"
    using distinct_endpoints [OF manifest_ids_distinct [OF ex_manifest_zvalid]] by (simp add: expected_endpoints_def)
  moreover have "\<not> list_ex (other_revision ex_manifest ex_zeros \<circ> sa_attestation) (rt_attestations ex_ready_set)"
    by (auto simp: list_ex_iff ex_ready_set_def ring_common.defs ring_ready_set.defs ex_attestation_def other_revision_def ex_manifest_def)
  ultimately have "validate_complete_set ex_zlib ex_ready_set = Inr ()"
    using m r by (simp add: validate_complete_set_def ex_zlib_hash ex_zeros_valid(2))
  moreover have "validate_common ex_zlib ex_ready_set = Inr ()"
    using ex_common_valid by (simp add: validate_common_def ex_ready_set_def ring_common.defs ring_ready_set.defs)
  moreover have "all_res (map (validate_signed_attestation ex_zlib) (rt_attestations ex_ready_set)) = Inr ()"
    using ex_ready_set_attestations by (simp add: list_all_iff)
  moreover have "sized (2 * MIN_RING_PARTICIPANTS) 64 (rt_attestations ex_ready_set)" by code_simp
  ultimately show ?thesis using m
    unfolding validate_ready_set_def all_res_Inr list.pred_inject field_checks_Inr by (simp add: ex_manifest_zvalid)
qed

lemma ex_ready_set_verifies: "verify_ready_set ex_zlib ex_ready_set"
  using ex_ready_set_attestations by (simp add: verify_ready_set_def list_all_iff)

theorem ready_set_complete_witness:
  "length (rt_attestations ex_ready_set) = 6 \<and> (\<exists>!s. s \<in> set (rt_attestations ex_ready_set) \<and>
     at_signer_key (sa_attestation s) = ex_hex 1 \<and> at_role (sa_attestation s) = OPENER)"
proof -
  note c = ready_set_complete [OF ex_ready_set_valid ex_ready_set_verifies]
  have m: "rt_manifest ex_ready_set = ex_manifest" by (simp add: ex_ready_set_def ring_common.defs ring_ready_set.defs)
  have "ex_hex 1 \<in> set (rm_participant_keys ex_manifest)" "length (rm_edges ex_manifest) = 3" by (simp_all add: ex_manifest_def)
  then show ?thesis using c [THEN conjunct1] c [THEN conjunct2, THEN conjunct2, THEN conjunct2, rule_format, of "ex_hex 1" OPENER] unfolding m by simp
qed

definition ex_tx_outputs :: "tx_output list" where
  "ex_tx_outputs = map (\<lambda>i. \<lparr>to_value = (if i < 3 then 20000 + int i else 50000),
     to_script = [0x51, 0x20] @ replicate 31 0 @ [word_of_nat i]\<rparr>) [0, 1, 2, 3, 4, 5]"

definition ex_tx :: bytes where
  "ex_tx = projr (serialize_transaction 2 [ex_psbt_tx_input] ex_tx_outputs 0 None)"

definition ex_ring_utxo :: witness_utxo where
  "ex_ring_utxo = \<lparr>wu_value_sat = 220000, wu_script_pubkey = [0x51, 0x20] @ replicate 32 1\<rparr>"

definition ex_ring_psbt :: bytes where
  "ex_ring_psbt = fst (projr (build_unsigned_psbt (hash256 ex_zlib) (bytes_hex ex_tx) [ex_ring_utxo]))"

definition ex_unsigned_payload :: ring_unsigned where
  "ex_unsigned_payload = ring_common.extend ex_common \<lparr>ru_unsigned_tx = bytes_hex ex_tx, ru_psbt = b64encode ex_ring_psbt,
     ru_manifest = ex_manifest\<lparr>rm_unsigned_tx_hash := ex_zeros, rm_unsigned_txid := ex_zeros\<rparr>\<rparr>"

lemma ex_ring_tx_serialized: "serialize_transaction 2 [ex_psbt_tx_input] ex_tx_outputs 0 None = Inr ex_tx"
proof -
  have "\<not> isl (serialize_transaction 2 [ex_psbt_tx_input] ex_tx_outputs 0 None)" by code_simp
  then show ?thesis by (simp add: ex_tx_def)
qed

lemma ex_tx_parsed: "parse_transaction_bytes ex_tx = Inr \<lparr>pt_version = 2, pt_inputs = [ex_psbt_tx_input], pt_outputs = ex_tx_outputs,
    pt_witnesses = [], pt_locktime = 0, pt_has_witness = False\<rparr>"
proof -
  have "wf_tx [ex_psbt_tx_input] ex_tx_outputs None" by code_simp
  from parse_serialize_tx [OF ex_ring_tx_serialized this] show ?thesis
    by (simp add: any_witness_def wire_input_def ex_psbt_tx_input_def)
qed

lemma ex_tx_checked: "unsigned_transaction_of (bytes_hex ex_tx) = Inr (ex_tx, \<lparr>pt_version = 2, pt_inputs = [ex_psbt_tx_input],
    pt_outputs = ex_tx_outputs, pt_witnesses = [], pt_locktime = 0, pt_has_witness = False\<rparr>)"
  using ex_tx_parsed ex_ring_tx_serialized
  by (simp add: unsigned_transaction_of_def bytes_hex_lower length_bytes_hex) (simp add: ex_psbt_tx_input_def)

lemma ex_psbt_pieces: "\<exists>g k. psbt_pair 0x00 ex_tx [] = Inr g \<and> utxo_map ex_ring_utxo = Inr k \<and> length g + length k < 1000"
proof -
  have "case (psbt_pair 0x00 ex_tx [], utxo_map ex_ring_utxo) of (Inr g, Inr k) \<Rightarrow> length g + length k < 1000 | _ \<Rightarrow> False" by code_simp
  then show ?thesis by (auto split: sum.splits)
qed

lemma length_b64encode: "length (b64encode bs) \<le> 2 * length bs + 2"
proof -
  have "length (sextets bs) \<le> 2 * length bs" by (induction bs rule: sextets.induct) auto
  then show ?thesis by (auto simp: b64encode_def padding_def split: nat.splits)
qed

lemma b64encode_nonempty: "b64encode bs = [] \<longleftrightarrow> bs = []"
  by (cases bs rule: sextets.cases) (auto simp: b64encode_def padding_def)

lemma ex_ring_psbt_built:
  "build_unsigned_psbt (hash256 ex_zlib) (bytes_hex ex_tx) [ex_ring_utxo] = Inr (ex_ring_psbt, ex_zeros)" "length ex_ring_psbt < 2000" "ex_ring_psbt \<noteq> []"
proof -
  from ex_psbt_pieces obtain g k where g: "psbt_pair 0x00 ex_tx [] = Inr g" "utxo_map ex_ring_utxo = Inr k"
    and "length g + length k < 1000" by blast
  have "get_txid (hash256 ex_zlib) (bytes_hex ex_tx) = Inr ex_zeros"
    using ex_tx_parsed ex_ring_tx_serialized by (simp add: get_txid_def parse_transaction_def ex_zlib_hash ex_zeros_valid(2))
  with g have b: "build_unsigned_psbt (hash256 ex_zlib) (bytes_hex ex_tx) [ex_ring_utxo] =
      Inr (PSBT_MAGIC @ g @ [0] @ k @ replicate (length ex_tx_outputs) 0, ex_zeros)"
    using ex_tx_parsed ex_ring_tx_serialized
    by (simp add: build_unsigned_psbt_def parse_transaction_def) (simp add: ex_psbt_tx_input_def)
  then show "build_unsigned_psbt (hash256 ex_zlib) (bytes_hex ex_tx) [ex_ring_utxo] = Inr (ex_ring_psbt, ex_zeros)"
    by (simp add: ex_ring_psbt_def)
  from b \<open>length g + length k < 1000\<close> show "length ex_ring_psbt < 2000"
    by (simp add: ex_ring_psbt_def length_magic ex_tx_outputs_def)
  from b show "ex_ring_psbt \<noteq> []" by (simp add: ex_ring_psbt_def)
qed

lemma ex_manifest_bound: "validate_manifest ex_zlib (ex_manifest\<lparr>rm_unsigned_tx_hash := ex_zeros, rm_unsigned_txid := ex_zeros\<rparr>) = Inr ()"
proof -
  let ?u = "\<lambda>m. m\<lparr>rm_unsigned_tx_hash := ex_zeros, rm_unsigned_txid := ex_zeros\<rparr>"
  have eqs: "output_at (?u m) = output_at m" "ordinary_indices (?u m) = ordinary_indices m"
    "output_p2tr (?u m) = output_p2tr m" "edge_matches_output (?u m) = edge_matches_output m" for m
    by (simp_all add: fun_eq_iff output_at_def ordinary_indices_def output_p2tr_def edge_matches_output_def)
  have "validate_manifest ex_zlib (?u m) = Inr ()" if "validate_manifest ex_zlib m = Inr ()" for m
    using that ex_zeros_valid(1)
    unfolding validate_manifest_def Let_def all_res_Inr list.pred_inject eqs by (simp del: raise_if.simps)
  then show ?thesis by (simp add: ex_manifest_zvalid)
qed

lemma ex_unsigned_valid: "validate_unsigned_payload ex_zlib ex_unsigned_payload = Inr ()"
proof -
  note d = ex_unsigned_payload_def ring_common.defs ring_unsigned.defs ex_common_def
  have "validate_unsigned ex_zlib ex_unsigned_payload = Inr ()"
  proof (rule built_payload_accepted [OF ex_tx_checked ex_ring_psbt_built(1)])
    have "actual_outputs \<lparr>pt_version = 2, pt_inputs = [ex_psbt_tx_input], pt_outputs = ex_tx_outputs, pt_witnesses = [], pt_locktime = 0,
        pt_has_witness = False\<rparr> = manifest_outputs ex_manifest" by code_simp
    then show "manifest_outputs (ru_manifest ex_unsigned_payload) = actual_outputs \<lparr>pt_version = 2, pt_inputs = [ex_psbt_tx_input],
        pt_outputs = ex_tx_outputs, pt_witnesses = [], pt_locktime = 0, pt_has_witness = False\<rparr>"
      by (simp add: d manifest_outputs_def)
  qed (simp_all add: d ex_manifest_def ex_ring_utxo_def MAX_MONEY_def ex_zlib_hash ex_zeros_valid(2))
  moreover have "validate_common ex_zlib ex_unsigned_payload = Inr ()"
    using ex_common_valid by (simp add: validate_common_def d)
  moreover have "sized 2 MAX_RING_PAYLOAD_BYTES (ru_unsigned_tx ex_unsigned_payload)"
  proof -
    have "1 \<le> length ex_tx \<and> length ex_tx \<le> 1000" by code_simp
    then show ?thesis by (simp add: d sized_def MAX_RING_PAYLOAD_BYTES_def length_bytes_hex)
  qed
  moreover have "sized 1 MAX_RING_PAYLOAD_BYTES (ru_psbt ex_unsigned_payload)"
  proof -
    have "ru_psbt ex_unsigned_payload = b64encode ex_ring_psbt" by (simp add: d)
    moreover have "length (b64encode ex_ring_psbt) \<le> 65536" using length_b64encode [of ex_ring_psbt] ex_ring_psbt_built(2) by linarith
    moreover have "b64encode ex_ring_psbt \<noteq> []" using ex_ring_psbt_built(3) by (simp add: b64encode_nonempty)
    ultimately show ?thesis by (simp add: sized_def MAX_RING_PAYLOAD_BYTES_def Suc_le_eq)
  qed
  moreover have "ru_manifest ex_unsigned_payload = ex_manifest\<lparr>rm_unsigned_tx_hash := ex_zeros, rm_unsigned_txid := ex_zeros\<rparr>" by (simp add: d)
  ultimately show ?thesis
    unfolding validate_unsigned_payload_def all_res_Inr list.pred_inject field_checks_Inr by (simp add: ex_manifest_bound)
qed

theorem unsigned_payload_binds_witness:
  "\<exists>b t. fromhex (ru_unsigned_tx ex_unsigned_payload) = Inr b \<and> parse_transaction_bytes b = Inr t \<and>
     to_value (pt_outputs t ! nat (re_output_index (ex_edge 1 2 0))) = re_capacity (ex_edge 1 2 0)"
proof -
  have "ex_edge 1 2 0 \<in> set (rm_edges (ru_manifest ex_unsigned_payload))"
    by (simp add: ex_unsigned_payload_def ring_common.defs ring_unsigned.defs ex_manifest_def)
  with unsigned_payload_binds [OF ex_unsigned_valid] show ?thesis by meson
qed

end
