(* ===== verification/Ring_Envelope.thy ===== *)
theory Ring_Envelope
  imports Ring_Payloads
begin

text \<open>
  How ring messages are hashed, signed and sent, \<open>jmcore/cofunded_ring.py\<close>: the canonical value of every payload
  class, \<open>payload_hash\<close>, \<open>sign_payload\<close>, \<open>verify_payload\<close> and \<open>encode_ring_message\<close>. The signed hash determines the
  payload up to its signature.
\<close>

section \<open>Canonical values\<close>

definition bounds_value :: "policy_bounds \<Rightarrow> cjson" where
  "bounds_value b = CObj
     [(''min_csv_delay'', CInt (pb_min_csv_delay b)), (''max_csv_delay'', CInt (pb_max_csv_delay b)),
      (''min_depth'', CInt (pb_min_depth b)), (''max_depth'', CInt (pb_max_depth b)),
      (''min_reserve'', CInt (pb_min_reserve b)), (''max_reserve'', CInt (pb_max_reserve b))]"

definition limits_value :: "backend_limits \<Rightarrow> cjson" where
  "limits_value b = CObj
     [(''network'', CStr (network_value (bl_network b))), (''offer_type'', CStr (offer_value (bl_offer_type b))),
      (''min_channel_capacity'', CInt (bl_min_channel_capacity b)), (''max_channel_capacity'', CInt (bl_max_channel_capacity b)),
      (''max_push_amount'', CInt (bl_max_push_amount b)), (''dust_limit'', CInt (bl_dust_limit b)),
      (''max_reserve'', CInt (bl_max_reserve b)), (''max_commitment_fee'', CInt (bl_max_commitment_fee b)),
      (''max_pending_channels'', CInt (bl_max_pending_channels b)), (''external_psbt'', CBool True), (''no_publish'', CBool True),
      (''retained_pending_state'', CBool True), (''taproot'', CBool True)]"

definition participant_value :: "private_participant \<Rightarrow> cjson" where
  "participant_value p = CObj
     [(''participant_key'', CStr (pp_participant_key p)), (''node_id'', CStr (pp_node_id p)),
      (''onion_endpoint'', CStr (pp_onion_endpoint p)), (''backend_limits'', limits_value (pp_backend_limits p))]"

definition contribution_value :: "local_contribution \<Rightarrow> cjson" where
  "contribution_value c = CObj
     [(''participant_key'', CStr (lc_participant_key c)), (''residual'', CInt (lc_residual c)),
      (''outgoing'', CInt (lc_outgoing c)), (''incoming'', CInt (lc_incoming c))]"

definition edge_plan_value :: "private_edge_plan \<Rightarrow> cjson" where
  "edge_plan_value e = CObj
     [(''edge_id'', CStr (ep_edge_id e)), (''pending_channel_id'', CStr (ep_pending_channel_id e)),
      (''opener_key'', CStr (ep_opener_key e)), (''acceptor_key'', CStr (ep_acceptor_key e)), (''capacity'', CInt (ep_capacity e)),
      (''push_amount'', CInt (ep_push_amount e)), (''policy'', policy_value (ep_policy e))]"

definition prepared_outgoing_value :: "prepared_outgoing \<Rightarrow> cjson" where
  "prepared_outgoing_value s = CObj
     [(''pending_channel_id'', CStr (po_pending_channel_id s)), (''opener_key'', CStr (po_opener_key s)),
      (''acceptor_key'', CStr (po_acceptor_key s)), (''script_pubkey'', CStr (po_script_pubkey s)), (''capacity'', CInt (po_capacity s)),
      (''push_amount'', CInt (po_push_amount s)), (''policy'', policy_value (po_policy s))]"

definition prepared_incoming_value :: "prepared_incoming \<Rightarrow> cjson" where
  "prepared_incoming_value s = CObj
     [(''pending_channel_id'', CStr (pc_pending_channel_id s)), (''opener_key'', CStr (pc_opener_key s)),
      (''acceptor_key'', CStr (pc_acceptor_key s)), (''opener_node_id'', CStr (pc_opener_node_id s)), (''capacity'', CInt (pc_capacity s)),
      (''push_amount'', CInt (pc_push_amount s)), (''policy'', policy_value (pc_policy s))]"

definition signed_value :: "signed_attestation \<Rightarrow> cjson" where
  "signed_value s = CObj
     [(''attestation'', attestation_value (sa_attestation s)), (''signature'', CStr (sa_signature s))]"

lemma component_value_inj [value_inj]:
  "cnorm (bounds_value b) = cnorm (bounds_value b') \<longleftrightarrow> b = b'"
  "cnorm (limits_value l) = cnorm (limits_value l') \<longleftrightarrow> l = l'"
  "cnorm (contribution_value c) = cnorm (contribution_value c') \<longleftrightarrow> c = c'"
  "cnorm (edge_plan_value e) = cnorm (edge_plan_value e') \<longleftrightarrow> e = e'"
  "cnorm (prepared_outgoing_value s) = cnorm (prepared_outgoing_value s') \<longleftrightarrow> s = s'"
  "cnorm (prepared_incoming_value t) = cnorm (prepared_incoming_value t') \<longleftrightarrow> t = t'"
  "cnorm (signed_value a) = cnorm (signed_value a') \<longleftrightarrow> a = a'"
proof -
  have offer: "offer_value x = offer_value y \<longleftrightarrow> x = y" for x y by (cases x; cases y) auto
  show "cnorm (bounds_value b) = cnorm (bounds_value b') \<longleftrightarrow> b = b'"
    unfolding bounds_value_def by (subst cnorm_obj_eq) auto
  show "cnorm (limits_value l) = cnorm (limits_value l') \<longleftrightarrow> l = l'"
    unfolding limits_value_def by (subst cnorm_obj_eq) (auto simp: value_inj offer)
  show "cnorm (contribution_value c) = cnorm (contribution_value c') \<longleftrightarrow> c = c'"
    unfolding contribution_value_def by (subst cnorm_obj_eq) auto
  show "cnorm (edge_plan_value e) = cnorm (edge_plan_value e') \<longleftrightarrow> e = e'"
    unfolding edge_plan_value_def by (subst cnorm_obj_eq) (auto simp: value_inj)
  show "cnorm (prepared_outgoing_value s) = cnorm (prepared_outgoing_value s') \<longleftrightarrow> s = s'"
    unfolding prepared_outgoing_value_def by (subst cnorm_obj_eq) (auto simp: value_inj)
  show "cnorm (prepared_incoming_value t) = cnorm (prepared_incoming_value t') \<longleftrightarrow> t = t'"
    unfolding prepared_incoming_value_def by (subst cnorm_obj_eq) (auto simp: value_inj)
  show "cnorm (signed_value a) = cnorm (signed_value a') \<longleftrightarrow> a = a'"
    unfolding signed_value_def by (subst cnorm_obj_eq) (auto simp: value_inj)
qed

lemma participant_value_inj [value_inj]: "cnorm (participant_value p) = cnorm (participant_value q) \<longleftrightarrow> p = q"
  unfolding participant_value_def by (subst cnorm_obj_eq) (auto simp: value_inj)

section \<open>Payloads\<close>

datatype ring_payload =
    RingInvite ring_invite | RingHello ring_hello | RingPlan ring_local_plan | RingPlanAck ring_plan_ack | RingOpen ring_open
  | RingPrepared ring_prepared | RingUnsigned ring_unsigned | RingReady ring_ready | RingReadySet ring_ready_set
  | RingReadySetAck ring_ready_set_ack | RingSign ring_sign | RingSignAck ring_sign | RingCancel ring_cancel

fun payload_common :: "ring_payload \<Rightarrow> ring_common" where
  "payload_common (RingInvite p) = ring_common.truncate p"
| "payload_common (RingHello p) = ring_common.truncate p"
| "payload_common (RingPlan p) = ring_common.truncate p"
| "payload_common (RingPlanAck p) = ring_common.truncate p"
| "payload_common (RingOpen p) = ring_common.truncate p"
| "payload_common (RingPrepared p) = ring_common.truncate p"
| "payload_common (RingUnsigned p) = ring_common.truncate p"
| "payload_common (RingReady p) = ring_common.truncate p"
| "payload_common (RingReadySet p) = ring_common.truncate p"
| "payload_common (RingReadySetAck p) = ring_common.truncate p"
| "payload_common (RingSign p) = ring_common.truncate p"
| "payload_common (RingSignAck p) = ring_common.truncate p"
| "payload_common (RingCancel p) = ring_common.truncate p"

fun payload_type :: "ring_payload \<Rightarrow> string" where
  "payload_type (RingInvite _) = ''ring_invite''"
| "payload_type (RingHello _) = ''ring_hello''"
| "payload_type (RingPlan _) = ''ring_plan''"
| "payload_type (RingPlanAck _) = ''ring_plan_ack''"
| "payload_type (RingOpen _) = ''ring_open''"
| "payload_type (RingPrepared _) = ''ring_prepared''"
| "payload_type (RingUnsigned _) = ''ring_unsigned''"
| "payload_type (RingReady _) = ''ring_ready''"
| "payload_type (RingReadySet _) = ''ring_ready_set''"
| "payload_type (RingReadySetAck _) = ''ring_ready_set_ack''"
| "payload_type (RingSign _) = ''ring_sign''"
| "payload_type (RingSignAck _) = ''ring_sign_ack''"
| "payload_type (RingCancel _) = ''ring_cancel''"

text \<open>The members a payload class adds to the common ones.\<close>

fun payload_fields :: "ring_payload \<Rightarrow> (string \<times> cjson) list" where
  "payload_fields (RingInvite p) =
     [(''network'', CStr (network_value (ri_network p))), (''offer_type'', CStr (offer_value (ri_offer_type p))),
      (''expiry'', CInt (ri_expiry p)), (''policy_bounds'', bounds_value (ri_policy_bounds p))]"
| "payload_fields (RingHello p) = [(''participant'', participant_value (rh_participant p))]"
| "payload_fields (RingPlan p) =
     [(''network'', CStr (network_value (pl_network p))), (''offer_type'', CStr (offer_value (pl_offer_type p))),
      (''cycle_keys'', CArr (map CStr (pl_cycle_keys p))), (''position'', CInt (pl_position p)),
      (''contribution'', contribution_value (pl_contribution p)), (''predecessor'', participant_value (pl_predecessor p)),
      (''successor'', participant_value (pl_successor p)), (''incoming_edge'', edge_plan_value (pl_incoming_edge p)),
      (''outgoing_edge'', edge_plan_value (pl_outgoing_edge p))]"
| "payload_fields (RingPlanAck p) = [(''plan_hash'', CStr (ra_plan_hash p))]"
| "payload_fields (RingOpen p) = [(''plan_hash'', CStr (ro_plan_hash p))]"
| "payload_fields (RingPrepared p) =
     [(''outgoing'', prepared_outgoing_value (rd_outgoing p)), (''incoming'', prepared_incoming_value (rd_incoming p))]"
| "payload_fields (RingUnsigned p) =
     [(''unsigned_tx'', CStr (ru_unsigned_tx p)), (''psbt'', CStr (ru_psbt p)), (''manifest'', manifest_value (ru_manifest p))]"
| "payload_fields (RingReady p) =
     [(''state'', readiness_value (ry_state p)), (''attestation'', attestation_value (ry_attestation p)),
      (''endpoint_signature'', CStr (ry_endpoint_signature p))]"
| "payload_fields (RingReadySet p) =
     [(''manifest'', manifest_value (rt_manifest p)), (''attestations'', CArr (map signed_value (rt_attestations p)))]"
| "payload_fields (RingReadySetAck p) = [(''readiness_hash'', CStr (rk_readiness_hash p))]"
| "payload_fields (RingSign p) =
     [(''manifest_hash'', CStr (rg_manifest_hash p)), (''unsigned_tx_hash'', CStr (rg_unsigned_tx_hash p))]"
| "payload_fields (RingSignAck p) =
     [(''manifest_hash'', CStr (rg_manifest_hash p)), (''unsigned_tx_hash'', CStr (rg_unsigned_tx_hash p))]"
| "payload_fields (RingCancel p) =
     [(''reason_code'', CStr (rx_reason_code p)), (''canceled_pending_ids'', CArr (map CStr (rx_canceled_pending_ids p)))]"

definition payload_members :: "ring_payload \<Rightarrow> (string \<times> cjson) list" where
  "payload_members p =
     [(''payload_format'', CStr ''canonical_json''), (''type'', CStr (payload_type p)),
      (''round_nonce'', CStr (rc_round_nonce (payload_common p))), (''revision'', CInt (rc_revision (payload_common p))),
      (''signer_key'', CStr (rc_signer_key (payload_common p))), (''sig'', CStr (rc_sig (payload_common p)))] @ payload_fields p"

text \<open>The checks pydantic runs when an object of the payload's class is made.\<close>

fun validate_payload :: "ring_lib \<Rightarrow> ring_payload \<Rightarrow> unit res" where
  "validate_payload lib (RingInvite p) = validate_invite lib p"
| "validate_payload lib (RingHello p) = validate_hello lib p"
| "validate_payload lib (RingPlan p) = validate_plan_payload lib p"
| "validate_payload lib (RingPlanAck p) = validate_plan_ack lib p"
| "validate_payload lib (RingOpen p) = validate_open lib p"
| "validate_payload lib (RingPrepared p) = validate_prepared lib p"
| "validate_payload lib (RingUnsigned p) = validate_unsigned_payload lib p"
| "validate_payload lib (RingReady p) = validate_ready lib p"
| "validate_payload lib (RingReadySet p) = validate_ready_set lib p"
| "validate_payload lib (RingReadySetAck p) = validate_ready_set_ack lib p"
| "validate_payload lib (RingSign p) = validate_sign lib p"
| "validate_payload lib (RingSignAck p) = validate_sign lib p"
| "validate_payload lib (RingCancel p) = validate_cancel lib p"

text \<open>\<open>payload.model_copy(update={"sig": signature})\<close>.\<close>

fun with_sig :: "string \<Rightarrow> ring_payload \<Rightarrow> ring_payload" where
  "with_sig s (RingInvite p) = RingInvite (p\<lparr>rc_sig := s\<rparr>)"
| "with_sig s (RingHello p) = RingHello (p\<lparr>rc_sig := s\<rparr>)"
| "with_sig s (RingPlan p) = RingPlan (p\<lparr>rc_sig := s\<rparr>)"
| "with_sig s (RingPlanAck p) = RingPlanAck (p\<lparr>rc_sig := s\<rparr>)"
| "with_sig s (RingOpen p) = RingOpen (p\<lparr>rc_sig := s\<rparr>)"
| "with_sig s (RingPrepared p) = RingPrepared (p\<lparr>rc_sig := s\<rparr>)"
| "with_sig s (RingUnsigned p) = RingUnsigned (p\<lparr>rc_sig := s\<rparr>)"
| "with_sig s (RingReady p) = RingReady (p\<lparr>rc_sig := s\<rparr>)"
| "with_sig s (RingReadySet p) = RingReadySet (p\<lparr>rc_sig := s\<rparr>)"
| "with_sig s (RingReadySetAck p) = RingReadySetAck (p\<lparr>rc_sig := s\<rparr>)"
| "with_sig s (RingSign p) = RingSign (p\<lparr>rc_sig := s\<rparr>)"
| "with_sig s (RingSignAck p) = RingSignAck (p\<lparr>rc_sig := s\<rparr>)"
| "with_sig s (RingCancel p) = RingCancel (p\<lparr>rc_sig := s\<rparr>)"

definition payload_preimage :: "ring_payload \<Rightarrow> bytes" where
  "payload_preimage p =
     text_bytes (''JMP0014/'' @ payload_type p @ ''/canonical_json'' @ [CHR 0x00]) @
     canonical_json (CObj (filter (\<lambda>kv. fst kv \<noteq> ''sig'') (payload_members p)))"

definition payload_hash :: "ring_lib \<Rightarrow> ring_payload \<Rightarrow> bytes" where
  "payload_hash lib p = rl_sha256 lib (payload_preimage p)"

definition sign_payload :: "ring_lib \<Rightarrow> ring_payload \<Rightarrow> bytes \<Rightarrow> bytes \<Rightarrow> ring_payload res" where
  "sign_payload lib p secret_key auxiliary =
     bind_res (key_pair_from_secret lib secret_key) (\<lambda>kp.
       if rc_signer_key (payload_common p) \<noteq> kp_public_key kp
       then Inl (ValueError ''payload signer_key does not match secret key'')
       else map_res (\<lambda>s. with_sig s p) (sign_hash lib secret_key (payload_hash lib p) auxiliary))"

definition verify_payload :: "ring_lib \<Rightarrow> ring_payload \<Rightarrow> bool" where
  "verify_payload lib p =
     verify_hash lib (rc_signer_key (payload_common p)) (payload_hash lib p) (rc_sig (payload_common p))"

definition encode_ring_message :: "ring_payload \<Rightarrow> string" where
  "encode_ring_message p =
     ''!ring '' @ payload_type p @ '' '' @ urlsafe_unpadded (canonical_json (CObj (payload_members p)))"

section \<open>The signed hash determines the payload\<close>

lemma offer_value_inj [value_inj]: "offer_value x = offer_value y \<longleftrightarrow> x = y"
  by (cases x; cases y) auto

lemma signed_values_inj [value_inj]: "map (\<lambda>x. cnorm (signed_value x)) xs = map (\<lambda>x. cnorm (signed_value x)) ys \<longleftrightarrow> xs = ys"
  by (rule map_inj_eq) (simp add: value_inj)

lemma payload_fields_keys:
  "payload_type p = payload_type q \<Longrightarrow> map fst (payload_fields p) = map fst (payload_fields q)"
  "distinct (map fst (payload_fields p))"
  "set (map fst (payload_fields p)) \<inter> {''payload_format'', ''type'', ''round_nonce'', ''revision'', ''signer_key'', ''sig''} = {}"
  by (cases p; cases q; simp)+

lemma filter_members:
  "filter (\<lambda>kv. fst kv \<noteq> ''sig'') (payload_members p) =
     [(''payload_format'', CStr ''canonical_json''), (''type'', CStr (payload_type p)),
      (''round_nonce'', CStr (rc_round_nonce (payload_common p))), (''revision'', CInt (rc_revision (payload_common p))),
      (''signer_key'', CStr (rc_signer_key (payload_common p)))] @ payload_fields p"
proof -
  have "filter (\<lambda>kv. fst kv \<noteq> ''sig'') (payload_fields p) = payload_fields p"
    by (rule filter_True) (cases p; simp)
  then show ?thesis by (simp add: payload_members_def)
qed

lemma same_but_sig:
  "(a1 :: ring_invite)\<lparr>rc_sig := s\<rparr> = b1\<lparr>rc_sig := s\<rparr> \<longleftrightarrow> rc_round_nonce a1 = rc_round_nonce b1 \<and> rc_revision a1 = rc_revision b1 \<and> rc_signer_key a1 = rc_signer_key b1 \<and> ri_network a1 = ri_network b1 \<and> ri_offer_type a1 = ri_offer_type b1 \<and> ri_expiry a1 = ri_expiry b1 \<and> ri_policy_bounds a1 = ri_policy_bounds b1"
  "(a2 :: ring_hello)\<lparr>rc_sig := s\<rparr> = b2\<lparr>rc_sig := s\<rparr> \<longleftrightarrow> rc_round_nonce a2 = rc_round_nonce b2 \<and> rc_revision a2 = rc_revision b2 \<and> rc_signer_key a2 = rc_signer_key b2 \<and> rh_participant a2 = rh_participant b2"
  "(a3 :: ring_local_plan)\<lparr>rc_sig := s\<rparr> = b3\<lparr>rc_sig := s\<rparr> \<longleftrightarrow> rc_round_nonce a3 = rc_round_nonce b3 \<and> rc_revision a3 = rc_revision b3 \<and> rc_signer_key a3 = rc_signer_key b3 \<and> pl_network a3 = pl_network b3 \<and> pl_offer_type a3 = pl_offer_type b3 \<and> pl_cycle_keys a3 = pl_cycle_keys b3 \<and> pl_position a3 = pl_position b3 \<and> pl_contribution a3 = pl_contribution b3 \<and> pl_predecessor a3 = pl_predecessor b3 \<and> pl_successor a3 = pl_successor b3 \<and> pl_incoming_edge a3 = pl_incoming_edge b3 \<and> pl_outgoing_edge a3 = pl_outgoing_edge b3"
  "(a4 :: ring_plan_ack)\<lparr>rc_sig := s\<rparr> = b4\<lparr>rc_sig := s\<rparr> \<longleftrightarrow> rc_round_nonce a4 = rc_round_nonce b4 \<and> rc_revision a4 = rc_revision b4 \<and> rc_signer_key a4 = rc_signer_key b4 \<and> ra_plan_hash a4 = ra_plan_hash b4"
  "(a5 :: ring_open)\<lparr>rc_sig := s\<rparr> = b5\<lparr>rc_sig := s\<rparr> \<longleftrightarrow> rc_round_nonce a5 = rc_round_nonce b5 \<and> rc_revision a5 = rc_revision b5 \<and> rc_signer_key a5 = rc_signer_key b5 \<and> ro_plan_hash a5 = ro_plan_hash b5"
  "(a6 :: ring_prepared)\<lparr>rc_sig := s\<rparr> = b6\<lparr>rc_sig := s\<rparr> \<longleftrightarrow> rc_round_nonce a6 = rc_round_nonce b6 \<and> rc_revision a6 = rc_revision b6 \<and> rc_signer_key a6 = rc_signer_key b6 \<and> rd_outgoing a6 = rd_outgoing b6 \<and> rd_incoming a6 = rd_incoming b6"
  "(a7 :: ring_unsigned)\<lparr>rc_sig := s\<rparr> = b7\<lparr>rc_sig := s\<rparr> \<longleftrightarrow> rc_round_nonce a7 = rc_round_nonce b7 \<and> rc_revision a7 = rc_revision b7 \<and> rc_signer_key a7 = rc_signer_key b7 \<and> ru_unsigned_tx a7 = ru_unsigned_tx b7 \<and> ru_psbt a7 = ru_psbt b7 \<and> ru_manifest a7 = ru_manifest b7"
  "(a8 :: ring_ready)\<lparr>rc_sig := s\<rparr> = b8\<lparr>rc_sig := s\<rparr> \<longleftrightarrow> rc_round_nonce a8 = rc_round_nonce b8 \<and> rc_revision a8 = rc_revision b8 \<and> rc_signer_key a8 = rc_signer_key b8 \<and> ry_state a8 = ry_state b8 \<and> ry_attestation a8 = ry_attestation b8 \<and> ry_endpoint_signature a8 = ry_endpoint_signature b8"
  "(a9 :: ring_ready_set)\<lparr>rc_sig := s\<rparr> = b9\<lparr>rc_sig := s\<rparr> \<longleftrightarrow> rc_round_nonce a9 = rc_round_nonce b9 \<and> rc_revision a9 = rc_revision b9 \<and> rc_signer_key a9 = rc_signer_key b9 \<and> rt_manifest a9 = rt_manifest b9 \<and> rt_attestations a9 = rt_attestations b9"
  "(a10 :: ring_ready_set_ack)\<lparr>rc_sig := s\<rparr> = b10\<lparr>rc_sig := s\<rparr> \<longleftrightarrow> rc_round_nonce a10 = rc_round_nonce b10 \<and> rc_revision a10 = rc_revision b10 \<and> rc_signer_key a10 = rc_signer_key b10 \<and> rk_readiness_hash a10 = rk_readiness_hash b10"
  "(a11 :: ring_sign)\<lparr>rc_sig := s\<rparr> = b11\<lparr>rc_sig := s\<rparr> \<longleftrightarrow> rc_round_nonce a11 = rc_round_nonce b11 \<and> rc_revision a11 = rc_revision b11 \<and> rc_signer_key a11 = rc_signer_key b11 \<and> rg_manifest_hash a11 = rg_manifest_hash b11 \<and> rg_unsigned_tx_hash a11 = rg_unsigned_tx_hash b11"
  "(a12 :: ring_cancel)\<lparr>rc_sig := s\<rparr> = b12\<lparr>rc_sig := s\<rparr> \<longleftrightarrow> rc_round_nonce a12 = rc_round_nonce b12 \<and> rc_revision a12 = rc_revision b12 \<and> rc_signer_key a12 = rc_signer_key b12 \<and> rx_reason_code a12 = rx_reason_code b12 \<and> rx_canceled_pending_ids a12 = rx_canceled_pending_ids b12"
  apply (cases a1; cases b1; auto)
  apply (cases a2; cases b2; auto)
  apply (cases a3; cases b3; auto)
  apply (cases a4; cases b4; auto)
  apply (cases a5; cases b5; auto)
  apply (cases a6; cases b6; auto)
  apply (cases a7; cases b7; auto)
  apply (cases a8; cases b8; auto)
  apply (cases a9; cases b9; auto)
  apply (cases a10; cases b10; auto)
  apply (cases a11; cases b11; auto)
  apply (cases a12; cases b12; auto)
  done

lemma payload_eq_iff:
  "with_sig s p = with_sig s q \<longleftrightarrow> payload_type p = payload_type q \<and>
     rc_round_nonce (payload_common p) = rc_round_nonce (payload_common q) \<and>
     rc_revision (payload_common p) = rc_revision (payload_common q) \<and>
     rc_signer_key (payload_common p) = rc_signer_key (payload_common q) \<and>
     map (cnorm \<circ> snd) (payload_fields p) = map (cnorm \<circ> snd) (payload_fields q)"
  by (cases p; cases q) (simp_all add: same_but_sig ring_common.truncate_def value_inj comp_def conj_assoc)

lemma payload_type_no_nul: "CHR 0x00 \<notin> set (payload_type p)"
  by (cases p) simp_all

lemma payload_preimage_inj: "payload_preimage p = payload_preimage q \<longleftrightarrow> with_sig s p = with_sig s q"
proof -
  define dom where "dom p = ''JMP0014/'' @ payload_type p @ ''/canonical_json''" for p
  have nul: "CHR 0x00 \<notin> set (dom p)" for p using payload_type_no_nul by (auto simp: dom_def)
  have "payload_preimage p = payload_preimage q \<longleftrightarrow> dom p = dom q \<and>
      cnorm (CObj (filter (\<lambda>kv. fst kv \<noteq> ''sig'') (payload_members p))) = cnorm (CObj (filter (\<lambda>kv. fst kv \<noteq> ''sig'') (payload_members q)))"
    using domain_preimage_inj [OF nul nul] by (simp add: payload_preimage_def dom_def)
  also have "dom p = dom q \<longleftrightarrow> payload_type p = payload_type q" by (simp add: dom_def)
  also have "payload_type p = payload_type q \<and>
      cnorm (CObj (filter (\<lambda>kv. fst kv \<noteq> ''sig'') (payload_members p))) = cnorm (CObj (filter (\<lambda>kv. fst kv \<noteq> ''sig'') (payload_members q)))
      \<longleftrightarrow> with_sig s p = with_sig s q"
  proof (cases "payload_type p = payload_type q")
    case True
    note k = payload_fields_keys(1) [OF True] payload_fields_keys(2,3) [of p]
    show ?thesis unfolding filter_members payload_eq_iff
      by (subst cnorm_obj_eq) (use k True in \<open>auto simp: comp_def\<close>)
  qed (simp add: payload_eq_iff)
  finally show ?thesis .
qed

lemma payload_ring_domains:
  assumes "CHR 0x00 \<notin> set object_type"
  shows "payload_preimage p \<noteq> ring_preimage object_type v"
proof
  assume eq: "payload_preimage p = ring_preimage object_type v"
  let ?s = "''JMP0014/'' @ payload_type p @ ''/canonical_json''" and ?t = "''JMP0014/'' @ object_type @ ''/v1''"
  have "CHR 0x00 \<notin> set ?s" "CHR 0x00 \<notin> set ?t" using assms payload_type_no_nul by auto
  from domain_preimage_inj [OF this] eq have "?s = ?t"
    unfolding payload_preimage_def ring_preimage_def append_assoc by blast
  from arg_cong [OF this, of last] show False by simp
qed

text \<open>C25: A signature on a ring message covers everything but itself. As long as SHA-256 does not collide on the byte
  strings at hand, two messages with the same signed hash are of the same type and agree in every field except the
  signature, and the hash of a message is never the hash of a manifest, an attestation or another hashed object.\<close>

theorem payload_hash_binding:
  assumes "inj_on (rl_sha256 lib) {payload_preimage p, payload_preimage q, ring_preimage object_type v}"
    "CHR 0x00 \<notin> set object_type"
  shows "(payload_hash lib p = payload_hash lib q \<longleftrightarrow> with_sig s p = with_sig s q) \<and>
    payload_hash lib p \<noteq> ring_hash lib object_type v"
proof -
  have "rl_sha256 lib x = rl_sha256 lib y \<longleftrightarrow> x = y" if "x \<in> {payload_preimage p, payload_preimage q, ring_preimage object_type v}"
    "y \<in> {payload_preimage p, payload_preimage q, ring_preimage object_type v}" for x y
    using inj_on_eq_iff [OF assms(1) that] .
  then show ?thesis
    using payload_preimage_inj [of p q s] payload_ring_domains [OF assms(2), of p v]
    by (simp add: payload_hash_def ring_hash_def)
qed

section \<open>Signing and verifying\<close>

text \<open>What BIP340 promises of the signing library: the public key of a secret key is a valid point, signatures have 64
  bytes, and they verify.\<close>

definition bip340 :: "ring_lib \<Rightarrow> bool" where
  "bip340 lib \<longleftrightarrow> (\<forall>sec pub. length sec = 32 \<longrightarrow> rl_xonly_pub lib sec = Some pub \<longrightarrow>
     length pub = 32 \<and> rl_fullyvalid lib (0x02 # pub) \<and>
     (\<forall>msg aux. length msg = 32 \<longrightarrow> length aux = 32 \<longrightarrow>
        length (rl_sign_schnorr lib sec msg aux) = 64 \<and> rl_verify_schnorr lib pub msg (rl_sign_schnorr lib sec msg aux)))"

lemma with_sig_common: "payload_common (with_sig s p) = (payload_common p)\<lparr>rc_sig := s\<rparr>"
  by (cases p) (simp_all add: ring_common.truncate_def)

lemma with_sig_same: "with_sig s (with_sig t p) = with_sig s p" "payload_type (with_sig t p) = payload_type p"
  by (cases p; simp)+

lemma sign_hash_verifies:
  assumes "bip340 lib" "key_pair_from_secret lib sec = Inr kp" "sign_hash lib sec h aux = Inr sig"
  shows "verify_hash lib (kp_public_key kp) h sig"
proof -
  from assms(2,3) obtain pub where l: "length sec = 32" "rl_xonly_pub lib sec = Some pub" "kp_public_key kp = bytes_hex pub"
    "length h = 32" "length aux = 32" "sig = bytes_hex (rl_sign_schnorr lib sec h aux)"
    by (auto simp: key_pair_from_secret_def sign_hash_def split: if_splits option.splits)
  with assms(1) have b: "length pub = 32" "rl_fullyvalid lib (0x02 # pub)" "length (rl_sign_schnorr lib sec h aux) = 64"
    "rl_verify_schnorr lib pub h (rl_sign_schnorr lib sec h aux)"
    unfolding bip340_def by blast+
  then have "validate_xonly_key lib (bytes_hex pub) = Inr ()" "validate_hex 64 sig = Inr ()"
    using l by (simp_all add: validate_xonly_key_def validate_hex_bytes)
  with l b show ?thesis by (simp add: verify_hash_def)
qed

text \<open>A payload that was signed verifies: \<open>sign_payload\<close> changes nothing but the signature, and the payload it
  returns passes \<open>verify_payload\<close>, given that the signing library keeps the promises of BIP340.\<close>

theorem sign_payload_verifies:
  assumes "bip340 lib" "sign_payload lib p secret_key auxiliary = Inr q"
  shows "verify_payload lib q \<and> with_sig (rc_sig (payload_common p)) q = p"
proof -
  from assms(2) obtain kp sig where kp: "key_pair_from_secret lib secret_key = Inr kp"
    "rc_signer_key (payload_common p) = kp_public_key kp" and sig: "sign_hash lib secret_key (payload_hash lib p) auxiliary = Inr sig"
    and q: "q = with_sig sig p"
    by (auto simp: sign_payload_def bind_res_Inr_iff map_res_Inr_iff split: if_splits)
  have "payload_hash lib q = payload_hash lib p"
    using payload_preimage_inj [of q p "[]"] by (simp add: payload_hash_def q with_sig_same)
  with sign_hash_verifies [OF assms(1) kp(1) sig] kp(2) have "verify_payload lib q"
    by (simp add: verify_payload_def q with_sig_common)
  moreover have "with_sig (rc_sig (payload_common p)) p = p" by (cases p) (simp_all add: ring_common.truncate_def)
  ultimately show ?thesis by (simp add: q with_sig_same)
qed

section \<open>An example\<close>

definition ex_sign :: ring_payload where
  "ex_sign = RingSign (ring_common.extend ex_common \<lparr>rg_manifest_hash = ex_zeros, rg_unsigned_tx_hash = ex_hex 1\<rparr>)"

definition ex_sign' :: ring_payload where
  "ex_sign' = RingSign (ring_common.extend ex_common \<lparr>rg_manifest_hash = ex_zeros, rg_unsigned_tx_hash = ex_hex 2\<rparr>)"

definition ex_secret :: bytes where
  "ex_secret = replicate 31 0 @ [1]"

lemma ex_sign_differ: "with_sig s ex_sign \<noteq> with_sig s ex_sign'"
proof -
  have "ex_hex 1 \<noteq> ex_hex 2" by (simp add: ex_hex_def hex_digit_def)
  then show ?thesis by (simp add: ex_sign_def ex_sign'_def ring_common.defs ring_sign.defs)
qed

theorem payload_hash_binding_witness:
  "payload_hash (ex_lib\<lparr>rl_sha256 := \<lambda>b. b\<rparr>) ex_sign \<noteq> payload_hash (ex_lib\<lparr>rl_sha256 := \<lambda>b. b\<rparr>) ex_sign'"
proof -
  have h: "inj_on (rl_sha256 (ex_lib\<lparr>rl_sha256 := \<lambda>b. b\<rparr>)) X" for X by (simp add: inj_on_def)
  from ex_sign_differ show ?thesis
    by (rule contrapos_nn) (erule payload_hash_binding [OF h, of "''manifest''", THEN conjunct1, THEN iffD1, rotated], simp)
qed

lemma ex_bip340: "bip340 ex_zlib"
  by (simp add: bip340_def ex_zlib_def ex_lib_def)

lemma ex_sign_signs: "\<exists>q. sign_payload ex_zlib ex_sign ex_secret (replicate 32 7) = Inr q"
proof -
  have "key_pair_from_secret ex_zlib ex_secret = Inr \<lparr>kp_secret_key = ex_secret, kp_public_key = ex_hex 1\<rparr>"
    using ex_hex_bytes [of 1] by (simp add: key_pair_from_secret_def ex_zlib_def ex_lib_def ex_secret_def)
  moreover have "rc_signer_key (payload_common ex_sign) = ex_hex 1"
    by (simp add: ex_sign_def ring_common.defs ring_sign.defs ex_common_def)
  moreover have "payload_hash ex_zlib ex_sign = replicate 32 0" by (simp add: payload_hash_def ex_zlib_hash)
  then have "\<exists>s. sign_hash ex_zlib ex_secret (payload_hash ex_zlib ex_sign) (replicate 32 7) = Inr s"
    by (simp add: sign_hash_def ex_zlib_def ex_lib_def)
  ultimately show ?thesis by (auto simp: sign_payload_def)
qed

theorem sign_payload_verifies_witness:
  "\<exists>q. sign_payload ex_zlib ex_sign ex_secret (replicate 32 7) = Inr q \<and> verify_payload ex_zlib q"
  using ex_sign_signs sign_payload_verifies [OF ex_bip340] by blast

end
