(* ===== verification/Ring_Record.thy ===== *)
theory Ring_Record
  imports Complex_Main Ring_Envelope "HOL-Library.Sublist"
begin

text \<open>
  The journal record of one participant in one ring revision, \<open>RingParticipantRecord\<close> of
  \<open>jmcore/channel_ring_store.py\<close>: its fields, the checks pydantic runs whenever a record is made, the lifecycle
  states with the allowed transitions, \<open>transition\<close>, \<open>_validate_retirement\<close> and \<open>retirement_action\<close>. Times are
  rationals. The members of \<open>updates\<close> that \<open>transition\<close> gets are values of a datatype with one constructor per
  field; \<open>journal_kind\<close> is a literal and has none. The current time is an argument.
\<close>

section \<open>Parts of a record\<close>

datatype lifecycle_state =
    INVITED | PLANNED | ACCEPTOR_ARMED | PREPARED | PREPARED_NOT_VERIFIED | VERIFYING | PSBT_VERIFIED | READY | SIGNING
  | SIGNED | BROADCAST | CONFIRMED_OPEN | RETIRING | RETIRED | CONFLICTED | RECOVERY_REQUIRED

datatype participant_role = TAKER | MAKER

datatype presence = UNKNOWN | ABSENT | PRESENT

datatype ring_retirement_action = SHIM_CANCEL | ABANDON_VERIFIED | NORMAL_CHANNEL_RETIREMENT | BLOCKED

datatype store_error = StoreError string | TransitionError string | AntiGriefError string | OsError | Raised pyerr

type_synonym 'a sres = "store_error + 'a"

definition validate_hex_bytes :: "string \<Rightarrow> unit res" where
  "validate_hex_bytes value =
     (if value = [] \<or> odd (length value) \<or> ascii_lower value \<noteq> value
      then Inl (ValueError ''must be non-empty lowercase even-length hex'')
      else case fromhex value of Inl _ \<Rightarrow> Inl (ValueError ''must be valid lowercase hex'') | Inr _ \<Rightarrow> Inr ())"

definition optional :: "('a \<Rightarrow> unit res) \<Rightarrow> 'a option \<Rightarrow> unit res" where
  "optional check v = (case v of None \<Rightarrow> Inr () | Some x \<Rightarrow> check x)"

record node_binding =
  nb_network :: network_type
  nb_wallet_identity :: string
  nb_source_mixdepth :: int
  nb_node_name :: string
  nb_local_node_id :: string

definition lower_hex_char :: "char \<Rightarrow> bool" where
  "lower_hex_char c \<longleftrightarrow> is_digit c \<or> 97 \<le> (of_char c :: nat) \<and> (of_char c :: nat) \<le> 102"

definition word_char :: "char \<Rightarrow> bool" where
  "word_char c \<longleftrightarrow> is_digit c \<or> 97 \<le> (of_char c :: nat) \<and> (of_char c :: nat) \<le> 122 \<or> 65 \<le> (of_char c :: nat) \<and> (of_char c :: nat) \<le> 90"

definition node_name_ok :: "string \<Rightarrow> bool" where
  "node_name_ok name \<longleftrightarrow> sized 1 64 name \<and> word_char (hd name) \<and>
     list_all (\<lambda>c. word_char c \<or> c = CHR ''_'' \<or> c = CHR ''-'') (tl name)"

definition validate_node_binding :: "ring_lib \<Rightarrow> node_binding \<Rightarrow> unit res" where
  "validate_node_binding lib b = all_res
     [field_checks [length (nb_wallet_identity b) = 64, list_all lower_hex_char (nb_wallet_identity b),
        0 \<le> nb_source_mixdepth b, node_name_ok (nb_node_name b), length (nb_local_node_id b) = 66,
        take 2 (nb_local_node_id b) = ''02'' \<or> take 2 (nb_local_node_id b) = ''03'',
        list_all lower_hex_char (drop 2 (nb_local_node_id b))],
      bind_res (fromhex (nb_local_node_id b)) (\<lambda>raw.
        guard_res (rl_fullyvalid lib raw) (ValueError ''local_node_id must be a valid compressed public key''))]"

record ring_outpoint =
  op_txid :: string
  op_vout :: int

definition validate_outpoint :: "ring_outpoint \<Rightarrow> unit res" where
  "validate_outpoint p = all_res [field_checks [between 0 0xFFFFFFFF (op_vout p)], validate_hex 32 (op_txid p)]"

record funding_edge =
  fe_plan :: private_edge_plan
  fe_peer :: private_participant
  fe_funding_script_pubkey :: "string option"
  fe_funding_outpoint :: "ring_outpoint option"

definition validate_funding_edge :: "ring_lib \<Rightarrow> funding_edge \<Rightarrow> unit res" where
  "validate_funding_edge lib e = all_res
     [validate_edge_plan lib (fe_plan e), validate_participant lib (fe_peer e),
      optional validate_hex_bytes (fe_funding_script_pubkey e), optional validate_outpoint (fe_funding_outpoint e)]"

record chain_status =
  cs_exact_txid :: "string option"
  cs_mempool :: presence
  cs_chain :: presence
  cs_confirmations :: int
  cs_confirmed_conflict_txid :: "string option"
  cs_conflict_confirmations :: int
  cs_checked_at :: "rat option"

definition validate_chain_status :: "chain_status \<Rightarrow> unit res" where
  "validate_chain_status c = all_res
     [field_checks [0 \<le> cs_confirmations c, 0 \<le> cs_conflict_confirmations c, pred_option (\<lambda>t. 0 \<le> t) (cs_checked_at c)],
      optional (validate_hex 32) (cs_exact_txid c), optional (validate_hex 32) (cs_confirmed_conflict_txid c),
      raise_if
       [(cs_confirmations c \<noteq> 0 \<and> cs_chain c \<noteq> PRESENT, ''confirmations require the exact transaction to be in the chain''),
        (cs_confirmed_conflict_txid c = None \<and> cs_conflict_confirmations c \<noteq> 0, ''conflict confirmations require a conflicting transaction ID''),
        (cs_confirmed_conflict_txid c \<noteq> None \<and> cs_conflict_confirmations c < 1,
           ''a conflicting transaction must have at least one confirmation'')]]"

record retry_data =
  rr_attempts :: int
  rr_next_retry_at :: "rat option"
  rr_last_error :: "string option"

definition validate_retry :: "retry_data \<Rightarrow> unit res" where
  "validate_retry d = field_checks
     [between 0 1000 (rr_attempts d), pred_option (\<lambda>t. 0 \<le> t) (rr_next_retry_at d), pred_option (\<lambda>s. length s \<le> 2000) (rr_last_error d)]"

section \<open>The record\<close>

record record_identity =
  jr_node_binding :: node_binding
  jr_round_nonce :: string
  jr_revision :: int
  jr_ring_secret :: string
  jr_ring_public_key :: string
  jr_taker_session_identity :: string
  jr_local_role :: participant_role
  jr_local_position :: int
  jr_invite :: "ring_invite option"
  jr_plan :: "ring_local_plan option"
  jr_plan_hash :: "string option"
  jr_local_contribution :: "local_contribution option"
  jr_local_input_outpoints :: "ring_outpoint list"
  jr_input_lock_owner :: "string option"

record record_channels = record_identity +
  jr_incoming_edge :: "funding_edge option"
  jr_outgoing_edge :: "funding_edge option"
  jr_outgoing_open_started :: bool
  jr_prepared_outgoing :: "prepared_outgoing option"
  jr_prepared_incoming :: "prepared_incoming option"
  jr_outgoing_funding_address :: "string option"
  jr_outgoing_pending_state :: "readiness_state option"
  jr_incoming_pending_state :: "readiness_state option"
  jr_pending_channel_ids :: "string list"
  jr_unsigned_psbt :: "string option"
  jr_unsigned_tx :: "string option"
  jr_manifest :: "ring_manifest option"
  jr_local_readiness :: "signed_attestation list"
  jr_readiness_set :: "signed_attestation list"
  jr_readiness_hash :: "string option"

record record_coordinator = record_channels +
  jr_coordinator_participants :: "private_participant list"
  jr_coordinator_plans :: "(string, ring_local_plan) dict"
  jr_coordinator_prepared :: "(string, ring_prepared) dict"
  jr_coordinator_reached_keys :: "string list"
  jr_coordinator_ready_ack_keys :: "string list"
  jr_coordinator_sign_ack_keys :: "string list"
  jr_coordinator_sign_authorization_sent :: bool
  jr_coordinator_tx_fee :: "int option"
  jr_handled_requests :: "(string, string) dict"
  jr_handled_responses :: "(string, string list) dict"

record ring_record = record_coordinator +
  jr_local_signatures :: "string list"
  jr_local_input_signature_created :: bool
  jr_local_input_signature_sent :: bool
  jr_final_tx :: "string option"
  jr_unsigned_retirement_pending :: bool
  jr_chain_status :: chain_status
  jr_created_at :: rat
  jr_updated_at :: rat
  jr_retry :: retry_data
  jr_state :: lifecycle_state

record record_key =
  rk_round_nonce :: string
  rk_revision :: int
  rk_participant_public_key :: string

definition record_key_of :: "ring_record \<Rightarrow> record_key" where
  "record_key_of r = \<lparr>rk_round_nonce = jr_round_nonce r, rk_revision = jr_revision r, rk_participant_public_key = jr_ring_public_key r\<rparr>"

definition key_filename :: "record_key \<Rightarrow> string" where
  "key_filename k = rk_round_nonce k @ ''-'' @ str_of_int (rk_revision k) @ ''-'' @ rk_participant_public_key k @ ''.json''"

definition pre_verified_states :: "lifecycle_state list" where
  "pre_verified_states = [INVITED, PLANNED, ACCEPTOR_ARMED, PREPARED_NOT_VERIFIED]"

definition verified_unresolved_states :: "lifecycle_state list" where
  "verified_unresolved_states = [PREPARED, VERIFYING, PSBT_VERIFIED, READY, SIGNING, SIGNED, BROADCAST, RETIRING, RECOVERY_REQUIRED]"

fun allowed_transitions :: "lifecycle_state \<Rightarrow> lifecycle_state list" where
  "allowed_transitions INVITED = [PLANNED, RETIRING, RECOVERY_REQUIRED]"
| "allowed_transitions PLANNED = [ACCEPTOR_ARMED, RETIRING, RECOVERY_REQUIRED]"
| "allowed_transitions ACCEPTOR_ARMED = [PREPARED_NOT_VERIFIED, RETIRING, RECOVERY_REQUIRED]"
| "allowed_transitions PREPARED = [RECOVERY_REQUIRED]"
| "allowed_transitions PREPARED_NOT_VERIFIED = [VERIFYING, RETIRING, RECOVERY_REQUIRED]"
| "allowed_transitions VERIFYING = [PSBT_VERIFIED, RECOVERY_REQUIRED]"
| "allowed_transitions PSBT_VERIFIED = [READY, RETIRING, RECOVERY_REQUIRED]"
| "allowed_transitions READY = [SIGNING, RETIRING, RECOVERY_REQUIRED]"
| "allowed_transitions SIGNING = [SIGNED, RETIRING, RECOVERY_REQUIRED]"
| "allowed_transitions SIGNED = [BROADCAST, CONFIRMED_OPEN, CONFLICTED, RECOVERY_REQUIRED]"
| "allowed_transitions BROADCAST = [CONFIRMED_OPEN, CONFLICTED, RECOVERY_REQUIRED]"
| "allowed_transitions CONFIRMED_OPEN = [RETIRING, RETIRED]"
| "allowed_transitions RETIRING = [RETIRED, RECOVERY_REQUIRED]"
| "allowed_transitions RETIRED = []"
| "allowed_transitions CONFLICTED = [RETIRING, RECOVERY_REQUIRED]"
| "allowed_transitions RECOVERY_REQUIRED = [CONFIRMED_OPEN, CONFLICTED, RETIRING]"

definition record_active :: "ring_record \<Rightarrow> bool" where
  "record_active r \<longleftrightarrow> jr_state r \<noteq> CONFIRMED_OPEN \<and> jr_state r \<noteq> RETIRED"

definition verified_unresolved :: "ring_record \<Rightarrow> bool" where
  "verified_unresolved r \<longleftrightarrow> jr_state r \<in> set verified_unresolved_states"

definition can_transition_to :: "ring_record \<Rightarrow> lifecycle_state \<Rightarrow> bool" where
  "can_transition_to r s \<longleftrightarrow> s = jr_state r \<or> s \<in> set (allowed_transitions (jr_state r))"

definition has_unsigned_funding_evidence :: "ring_record \<Rightarrow> bool" where
  "has_unsigned_funding_evidence r \<longleftrightarrow>
     jr_local_role r = MAKER \<and> \<not> jr_local_input_signature_created r \<and> \<not> jr_local_input_signature_sent r \<and>
     jr_local_signatures r = [] \<and> jr_final_tx r = None \<and> jr_manifest r \<noteq> None \<and> jr_unsigned_tx r \<noteq> None \<and>
     jr_unsigned_psbt r \<noteq> None \<and> jr_local_input_outpoints r \<noteq> [] \<and>
     cs_exact_txid (jr_chain_status r) = map_option rm_unsigned_txid (jr_manifest r)"

definition funding_absent :: "ring_record \<Rightarrow> bool" where
  "funding_absent r \<longleftrightarrow> cs_mempool (jr_chain_status r) = ABSENT \<and> cs_chain (jr_chain_status r) = ABSENT"

definition retirement_action :: "ring_record \<Rightarrow> ring_retirement_action" where
  "retirement_action r =
     (if jr_state r \<in> set pre_verified_states then SHIM_CANCEL
      else if jr_state r = SIGNING \<or> jr_unsigned_retirement_pending r
      then (if has_unsigned_funding_evidence r \<and> funding_absent r then ABANDON_VERIFIED else BLOCKED)
      else if (jr_state r = PSBT_VERIFIED \<or> jr_state r = READY) \<and> \<not> jr_local_input_signature_created r \<and>
        \<not> jr_local_input_signature_sent r \<and> cs_exact_txid (jr_chain_status r) \<noteq> None \<and> funding_absent r
      then ABANDON_VERIFIED
      else if jr_state r = CONFLICTED \<and> cs_confirmed_conflict_txid (jr_chain_status r) \<noteq> None
      then (if cs_exact_txid (jr_chain_status r) = None \<and> \<not> jr_local_input_signature_created r then SHIM_CANCEL else ABANDON_VERIFIED)
      else if jr_state r = RECOVERY_REQUIRED \<and>
        (jr_local_input_signature_created r \<or> jr_local_input_signature_sent r \<or> jr_final_tx r \<noteq> None)
      then BLOCKED
      else if jr_state r = RECOVERY_REQUIRED \<and> cs_exact_txid (jr_chain_status r) \<noteq> None \<and> funding_absent r
      then ABANDON_VERIFIED
      else if jr_state r = CONFIRMED_OPEN then NORMAL_CHANNEL_RETIREMENT
      else BLOCKED)"

section \<open>Validation\<close>

definition validate_psbt_field :: "string \<Rightarrow> unit res" where
  "validate_psbt_field value =
     (if \<not> starts_with value ''70736274ff'' then Inl (ValueError ''unsigned_psbt must be lowercase hex beginning with PSBT magic'')
      else validate_hex_bytes value)"

definition validate_record_fields :: "ring_lib \<Rightarrow> ring_record \<Rightarrow> unit res" where
  "validate_record_fields lib r = all_res
     [field_checks [between 0 MAX_REVISION (jr_revision r), sized 1 256 (jr_taker_session_identity r), between 0 31 (jr_local_position r),
        pred_option (sized 1 256) (jr_input_lock_owner r), pred_option (\<lambda>a. length a \<le> 200) (jr_outgoing_funding_address r),
        pred_option (\<lambda>fee. 0 \<le> fee) (jr_coordinator_tx_fee r), 0 \<le> jr_created_at r, 0 \<le> jr_updated_at r],
      validate_node_binding lib (jr_node_binding r),
      validate_hex 32 (jr_round_nonce r), validate_hex 32 (jr_ring_secret r), validate_hex 32 (jr_ring_public_key r),
      optional (validate_hex 32) (jr_plan_hash r), optional (validate_hex 32) (jr_readiness_hash r),
      optional (validate_invite lib) (jr_invite r), optional (validate_plan_payload lib) (jr_plan r),
      optional (validate_contribution lib) (jr_local_contribution r),
      all_res (map validate_outpoint (jr_local_input_outpoints r)),
      optional (validate_funding_edge lib) (jr_incoming_edge r), optional (validate_funding_edge lib) (jr_outgoing_edge r),
      optional (validate_prepared_outgoing lib) (jr_prepared_outgoing r),
      optional (validate_prepared_incoming lib) (jr_prepared_incoming r),
      optional (validate_readiness lib) (jr_outgoing_pending_state r), optional (validate_readiness lib) (jr_incoming_pending_state r),
      all_res (map (validate_hex 32) (jr_pending_channel_ids r)),
      raise_if [(\<not> distinct (jr_pending_channel_ids r), ''pending_channel_ids must be unique'')],
      optional validate_psbt_field (jr_unsigned_psbt r), optional validate_hex_bytes (jr_unsigned_tx r),
      optional (validate_manifest lib) (jr_manifest r),
      all_res (map (validate_signed_attestation lib) (jr_local_readiness r @ jr_readiness_set r)),
      all_res (map (validate_participant lib) (jr_coordinator_participants r)),
      all_res (map (validate_plan_payload lib \<circ> snd) (jr_coordinator_plans r)),
      all_res (map (validate_prepared lib \<circ> snd) (jr_coordinator_prepared r)),
      optional validate_hex_bytes (jr_final_tx r),
      validate_chain_status (jr_chain_status r), validate_retry (jr_retry r)]"

text \<open>The blocks of \<open>validate_record\<close>, in its order: identity, coordinator, lifecycle.\<close>

definition edge_pending :: "ring_record \<Rightarrow> string list" where
  "edge_pending r = map (ep_pending_channel_id \<circ> fe_plan) (List.map_filter (\<lambda>e. e) [jr_incoming_edge r, jr_outgoing_edge r])"

definition check_identity :: "ring_record \<Rightarrow> unit res" where
  "check_identity r = raise_if
     [(case jr_local_contribution r of None \<Rightarrow> False | Some c \<Rightarrow> lc_participant_key c \<noteq> jr_ring_public_key r,
         ''local contribution belongs to another ring key''),
      (\<not> distinct (jr_local_input_outpoints r), ''local_input_outpoints must be unique''),
      (edge_pending r \<noteq> [] \<and> set (edge_pending r) \<noteq> set (jr_pending_channel_ids r),
         ''pending_channel_ids must exactly match local edge records''),
      (jr_local_input_signature_sent r \<and> \<not> jr_local_input_signature_created r,
         ''a local input signature cannot be sent before it is created''),
      (case jr_invite r of None \<Rightarrow> False | Some i \<Rightarrow>
         rc_round_nonce i \<noteq> jr_round_nonce r \<or> rc_revision i \<noteq> jr_revision r \<or> rc_signer_key i = jr_ring_public_key r,
         ''invite does not match participant record identity''),
      (case jr_plan r of None \<Rightarrow> False | Some p \<Rightarrow>
         rc_round_nonce p \<noteq> jr_round_nonce r \<or> rc_revision p \<noteq> jr_revision r \<or>
         lc_participant_key (pl_contribution p) \<noteq> jr_ring_public_key r \<or> pl_position p \<noteq> jr_local_position r,
         ''plan does not match participant record identity''),
      (case jr_manifest r of None \<Rightarrow> False | Some m \<Rightarrow>
         rm_round_nonce m \<noteq> jr_round_nonce r \<or> rm_revision m \<noteq> jr_revision r \<or> jr_ring_public_key r \<notin> set (rm_participant_keys m),
         ''manifest does not match participant record identity''),
      (jr_local_readiness r \<noteq> [] \<and> length (jr_local_readiness r) \<noteq> 2, ''local readiness must contain both endpoint attestations'')]"

definition known_keys :: "string list \<Rightarrow> string list \<Rightarrow> bool" where
  "known_keys participants keys \<longleftrightarrow> distinct keys \<and> set keys \<subseteq> set participants"

definition check_coordinator :: "ring_record \<Rightarrow> unit res" where
  "check_coordinator r =
     (let keys = map pp_participant_key (jr_coordinator_participants r) in
      raise_if
       [(\<not> distinct keys, ''coordinator participants must be unique''),
        (jr_coordinator_plans r \<noteq> [] \<and> set (dict_keys (jr_coordinator_plans r)) \<noteq> set keys, ''coordinator plans must cover every participant''),
        (\<not> known_keys keys (jr_coordinator_reached_keys r), ''coordinator_reached_keys contains duplicate or unknown participants''),
        (\<not> known_keys keys (jr_coordinator_ready_ack_keys r), ''coordinator_ready_ack_keys contains duplicate or unknown participants''),
        (\<not> known_keys keys (jr_coordinator_sign_ack_keys r), ''coordinator_sign_ack_keys contains duplicate or unknown participants''),
        (jr_coordinator_prepared r \<noteq> [] \<and> \<not> set (dict_keys (jr_coordinator_prepared r)) \<subseteq> set keys,
           ''coordinator prepared records contain an unknown participant''),
        (jr_coordinator_sign_ack_keys r \<noteq> [] \<and> \<not> jr_coordinator_sign_authorization_sent r,
           ''sign acknowledgments require durable signing authorization''),
        (list_ex (\<lambda>(t, req). \<not> starts_with t ''ring_'' \<or> \<not> starts_with req ''{'') (jr_handled_requests r), ''handled request cache is malformed''),
        (\<not> set (dict_keys (jr_handled_responses r)) \<subseteq> set (dict_keys (jr_handled_requests r)),
           ''handled responses require a matching handled request'')])"

definition check_lifecycle :: "ring_record \<Rightarrow> unit res" where
  "check_lifecycle r =
     (let s = jr_state r; c = jr_chain_status r in
      raise_if
       [((s = SIGNED \<or> s = BROADCAST \<or> s = CONFIRMED_OPEN) \<and> (\<not> jr_local_input_signature_created r \<or> \<not> jr_local_input_signature_sent r),
           ''signed lifecycle states require the local signature to be sent''),
        ((s = SIGNED \<or> s = BROADCAST \<or> s = CONFIRMED_OPEN) \<and> jr_local_signatures r = [],
           ''signed lifecycle states require durable local signatures''),
        (s = CONFIRMED_OPEN \<and> cs_exact_txid c = None, ''confirmed/open requires the exact final transaction ID''),
        (s = CONFIRMED_OPEN \<and> (cs_chain c \<noteq> PRESENT \<or> cs_confirmations c < 1), ''confirmed/open requires a confirmed exact transaction''),
        (s = VERIFYING \<and> (jr_manifest r = None \<or> jr_unsigned_tx r = None \<or> jr_unsigned_psbt r = None \<or>
             cs_exact_txid c \<noteq> map_option rm_unsigned_txid (jr_manifest r)),
           ''verification intent requires exact unsigned funding evidence''),
        (jr_updated_at r < jr_created_at r, ''updated_at cannot precede created_at''),
        (jr_unsigned_retirement_pending r \<and> (\<not> has_unsigned_funding_evidence r \<or>
             s \<notin> {PSBT_VERIFIED, READY, SIGNING, RETIRING, RETIRED, CONFLICTED, RECOVERY_REQUIRED}),
           ''unsigned retirement intent requires exact unsigned maker funding'')])"

definition validate_record :: "ring_lib \<Rightarrow> ring_record \<Rightarrow> unit res" where
  "validate_record lib r =
     bind_res (validate_record_fields lib r) (\<lambda>_.
     bind_res (bind_res (fromhex (jr_ring_secret r)) (key_pair_from_secret lib)) (\<lambda>kp.
     all_res
      [raise_if [(kp_public_key kp \<noteq> jr_ring_public_key r, ''ring_public_key does not match ring_secret'')],
       validate_hex 32 (jr_round_nonce r), check_identity r, check_coordinator r, check_lifecycle r]))"

section \<open>Transitions\<close>

datatype (plugins only: code size) record_update =
    Set_node_binding node_binding | Set_round_nonce string | Set_revision int | Set_ring_secret string
  | Set_ring_public_key string | Set_taker_session_identity string | Set_local_role participant_role
  | Set_local_position int | Set_invite "ring_invite option" | Set_plan "ring_local_plan option"
  | Set_plan_hash "string option" | Set_local_contribution "local_contribution option"
  | Set_local_input_outpoints "ring_outpoint list" | Set_input_lock_owner "string option"
  | Set_incoming_edge "funding_edge option" | Set_outgoing_edge "funding_edge option"
  | Set_outgoing_open_started bool | Set_prepared_outgoing "prepared_outgoing option"
  | Set_prepared_incoming "prepared_incoming option" | Set_outgoing_funding_address "string option"
  | Set_outgoing_pending_state "readiness_state option" | Set_incoming_pending_state "readiness_state option"
  | Set_pending_channel_ids "string list" | Set_unsigned_psbt "string option" | Set_unsigned_tx "string option"
  | Set_manifest "ring_manifest option" | Set_local_readiness "signed_attestation list"
  | Set_readiness_set "signed_attestation list" | Set_readiness_hash "string option"
  | Set_coordinator_participants "private_participant list" | Set_coordinator_plans "(string, ring_local_plan) dict"
  | Set_coordinator_prepared "(string, ring_prepared) dict" | Set_coordinator_reached_keys "string list"
  | Set_coordinator_ready_ack_keys "string list" | Set_coordinator_sign_ack_keys "string list"
  | Set_coordinator_sign_authorization_sent bool | Set_coordinator_tx_fee "int option"
  | Set_handled_requests "(string, string) dict" | Set_handled_responses "(string, string list) dict"
  | Set_local_signatures "string list" | Set_local_input_signature_created bool | Set_local_input_signature_sent bool
  | Set_final_tx "string option" | Set_unsigned_retirement_pending bool | Set_chain_status chain_status
  | Set_created_at rat | Set_updated_at rat | Set_retry retry_data | Set_state lifecycle_state

fun apply_update :: "record_update \<Rightarrow> ring_record \<Rightarrow> ring_record" where
  "apply_update (Set_node_binding x) r = r\<lparr>jr_node_binding := x\<rparr>"
| "apply_update (Set_round_nonce x) r = r\<lparr>jr_round_nonce := x\<rparr>"
| "apply_update (Set_revision x) r = r\<lparr>jr_revision := x\<rparr>"
| "apply_update (Set_ring_secret x) r = r\<lparr>jr_ring_secret := x\<rparr>"
| "apply_update (Set_ring_public_key x) r = r\<lparr>jr_ring_public_key := x\<rparr>"
| "apply_update (Set_taker_session_identity x) r = r\<lparr>jr_taker_session_identity := x\<rparr>"
| "apply_update (Set_local_role x) r = r\<lparr>jr_local_role := x\<rparr>"
| "apply_update (Set_local_position x) r = r\<lparr>jr_local_position := x\<rparr>"
| "apply_update (Set_invite x) r = r\<lparr>jr_invite := x\<rparr>"
| "apply_update (Set_plan x) r = r\<lparr>jr_plan := x\<rparr>"
| "apply_update (Set_plan_hash x) r = r\<lparr>jr_plan_hash := x\<rparr>"
| "apply_update (Set_local_contribution x) r = r\<lparr>jr_local_contribution := x\<rparr>"
| "apply_update (Set_local_input_outpoints x) r = r\<lparr>jr_local_input_outpoints := x\<rparr>"
| "apply_update (Set_input_lock_owner x) r = r\<lparr>jr_input_lock_owner := x\<rparr>"
| "apply_update (Set_incoming_edge x) r = r\<lparr>jr_incoming_edge := x\<rparr>"
| "apply_update (Set_outgoing_edge x) r = r\<lparr>jr_outgoing_edge := x\<rparr>"
| "apply_update (Set_outgoing_open_started x) r = r\<lparr>jr_outgoing_open_started := x\<rparr>"
| "apply_update (Set_prepared_outgoing x) r = r\<lparr>jr_prepared_outgoing := x\<rparr>"
| "apply_update (Set_prepared_incoming x) r = r\<lparr>jr_prepared_incoming := x\<rparr>"
| "apply_update (Set_outgoing_funding_address x) r = r\<lparr>jr_outgoing_funding_address := x\<rparr>"
| "apply_update (Set_outgoing_pending_state x) r = r\<lparr>jr_outgoing_pending_state := x\<rparr>"
| "apply_update (Set_incoming_pending_state x) r = r\<lparr>jr_incoming_pending_state := x\<rparr>"
| "apply_update (Set_pending_channel_ids x) r = r\<lparr>jr_pending_channel_ids := x\<rparr>"
| "apply_update (Set_unsigned_psbt x) r = r\<lparr>jr_unsigned_psbt := x\<rparr>"
| "apply_update (Set_unsigned_tx x) r = r\<lparr>jr_unsigned_tx := x\<rparr>"
| "apply_update (Set_manifest x) r = r\<lparr>jr_manifest := x\<rparr>"
| "apply_update (Set_local_readiness x) r = r\<lparr>jr_local_readiness := x\<rparr>"
| "apply_update (Set_readiness_set x) r = r\<lparr>jr_readiness_set := x\<rparr>"
| "apply_update (Set_readiness_hash x) r = r\<lparr>jr_readiness_hash := x\<rparr>"
| "apply_update (Set_coordinator_participants x) r = r\<lparr>jr_coordinator_participants := x\<rparr>"
| "apply_update (Set_coordinator_plans x) r = r\<lparr>jr_coordinator_plans := x\<rparr>"
| "apply_update (Set_coordinator_prepared x) r = r\<lparr>jr_coordinator_prepared := x\<rparr>"
| "apply_update (Set_coordinator_reached_keys x) r = r\<lparr>jr_coordinator_reached_keys := x\<rparr>"
| "apply_update (Set_coordinator_ready_ack_keys x) r = r\<lparr>jr_coordinator_ready_ack_keys := x\<rparr>"
| "apply_update (Set_coordinator_sign_ack_keys x) r = r\<lparr>jr_coordinator_sign_ack_keys := x\<rparr>"
| "apply_update (Set_coordinator_sign_authorization_sent x) r = r\<lparr>jr_coordinator_sign_authorization_sent := x\<rparr>"
| "apply_update (Set_coordinator_tx_fee x) r = r\<lparr>jr_coordinator_tx_fee := x\<rparr>"
| "apply_update (Set_handled_requests x) r = r\<lparr>jr_handled_requests := x\<rparr>"
| "apply_update (Set_handled_responses x) r = r\<lparr>jr_handled_responses := x\<rparr>"
| "apply_update (Set_local_signatures x) r = r\<lparr>jr_local_signatures := x\<rparr>"
| "apply_update (Set_local_input_signature_created x) r = r\<lparr>jr_local_input_signature_created := x\<rparr>"
| "apply_update (Set_local_input_signature_sent x) r = r\<lparr>jr_local_input_signature_sent := x\<rparr>"
| "apply_update (Set_final_tx x) r = r\<lparr>jr_final_tx := x\<rparr>"
| "apply_update (Set_unsigned_retirement_pending x) r = r\<lparr>jr_unsigned_retirement_pending := x\<rparr>"
| "apply_update (Set_chain_status x) r = r\<lparr>jr_chain_status := x\<rparr>"
| "apply_update (Set_created_at x) r = r\<lparr>jr_created_at := x\<rparr>"
| "apply_update (Set_updated_at x) r = r\<lparr>jr_updated_at := x\<rparr>"
| "apply_update (Set_retry x) r = r\<lparr>jr_retry := x\<rparr>"
| "apply_update (Set_state x) r = r\<lparr>jr_state := x\<rparr>"

fun identity_update :: "record_update \<Rightarrow> bool" where
  "identity_update (Set_round_nonce _) = True"
| "identity_update (Set_revision _) = True"
| "identity_update (Set_ring_secret _) = True"
| "identity_update (Set_ring_public_key _) = True"
| "identity_update (Set_node_binding _) = True"
| "identity_update _ = False"

definition validate_retirement :: "ring_record \<Rightarrow> ring_record \<Rightarrow> unit sres" where
  "validate_retirement r candidate =
     (if jr_state r = SIGNING \<or> jr_unsigned_retirement_pending candidate then
        (if \<not> has_unsigned_funding_evidence candidate \<or> \<not> funding_absent candidate
         then Inl (TransitionError ''unsigned retirement requires exact absent funding evidence'') else Inr ())
      else if jr_state r \<in> set pre_verified_states \<or> jr_state r = CONFIRMED_OPEN then Inr ()
      else if jr_state r = CONFLICTED then
        (if cs_confirmed_conflict_txid (jr_chain_status candidate) = None
         then Inl (TransitionError ''retirement after signing requires a confirmed conflict'') else Inr ())
      else if jr_state r = RECOVERY_REQUIRED then
        (if retirement_action r = BLOCKED then Inl (TransitionError ''recovery state lacks safe retirement evidence'') else Inr ())
      else if jr_state r = PSBT_VERIFIED \<or> jr_state r = READY then
        (if jr_local_input_signature_created candidate \<or> jr_local_input_signature_sent candidate
         then Inl (TransitionError ''verified retirement is forbidden after creating a signature'')
         else if cs_mempool (jr_chain_status candidate) \<noteq> ABSENT
         then Inl (TransitionError ''verified retirement requires exact TXID absent from mempool'')
         else if cs_chain (jr_chain_status candidate) \<noteq> ABSENT
         then Inl (TransitionError ''verified retirement requires exact TXID absent from chain'')
         else if cs_exact_txid (jr_chain_status candidate) = None
         then Inl (TransitionError ''verified retirement requires the exact unsigned TXID'') else Inr ())
      else Inl (TransitionError ''signed or unresolved recovery state cannot be retired''))"

text \<open>The checks of \<open>transition\<close> once the candidate is valid, and \<open>transition\<close>.\<close>

definition check_candidate :: "ring_record \<Rightarrow> lifecycle_state \<Rightarrow> ring_record \<Rightarrow> unit sres" where
  "check_candidate r s candidate =
     (if jr_unsigned_retirement_pending r \<and> \<not> jr_unsigned_retirement_pending candidate \<and> jr_state candidate \<noteq> RETIRED
      then Inl (TransitionError ''unsigned retirement intent cannot be cleared before retirement'')
      else
        bind_res (if s = RETIRING \<and> (s \<noteq> jr_state r \<or> jr_unsigned_retirement_pending candidate)
                  then validate_retirement r candidate else Inr ()) (\<lambda>_.
          if s = CONFLICTED \<and> cs_confirmed_conflict_txid (jr_chain_status candidate) = None
          then Inl (TransitionError ''conflicted requires a confirmed conflicting transaction'')
          else Inr ()))"

definition raised :: "pyerr + 'a \<Rightarrow> 'a sres" where
  "raised m = (case m of Inl e \<Rightarrow> Inl (Raised e) | Inr x \<Rightarrow> Inr x)"

definition transition :: "ring_lib \<Rightarrow> ring_record \<Rightarrow> lifecycle_state \<Rightarrow> rat \<Rightarrow> record_update list \<Rightarrow> ring_record sres" where
  "transition lib r s now updates =
     (if s = jr_state r \<and> updates = [] then Inr r
      else if s \<noteq> jr_state r \<and> s \<notin> set (allowed_transitions (jr_state r)) then Inl (TransitionError ''transition is not allowed'')
      else if list_ex identity_update updates then Inl (TransitionError ''record identity fields cannot change'')
      else
        let candidate = (fold apply_update updates r)\<lparr>jr_state := s, jr_updated_at := now\<rparr> in
        bind_res (raised (validate_record lib candidate)) (\<lambda>_.
          map_res (\<lambda>_. candidate) (check_candidate r s candidate)))"

text \<open>\<open>RingParticipantRecord.fresh\<close>, with the secret key that \<open>RingKeyPair.generate\<close> drew.\<close>

definition no_chain_status :: chain_status where
  "no_chain_status = \<lparr>cs_exact_txid = None, cs_mempool = UNKNOWN, cs_chain = UNKNOWN, cs_confirmations = 0,
     cs_confirmed_conflict_txid = None, cs_conflict_confirmations = 0, cs_checked_at = None\<rparr>"

definition no_retry :: retry_data where
  "no_retry = \<lparr>rr_attempts = 0, rr_next_retry_at = None, rr_last_error = None\<rparr>"

definition fresh_record ::
  "ring_lib \<Rightarrow> bytes \<Rightarrow> string \<Rightarrow> int \<Rightarrow> node_binding \<Rightarrow> string \<Rightarrow> participant_role \<Rightarrow> int \<Rightarrow> ring_outpoint list \<Rightarrow> string option \<Rightarrow> rat \<Rightarrow>
   ring_record res" where
  "fresh_record lib secret round_nonce revision binding session role position inputs lock_owner now =
     bind_res (key_pair_from_secret lib secret) (\<lambda>kp.
       let r = \<lparr>jr_node_binding = binding, jr_round_nonce = round_nonce, jr_revision = revision,
         jr_ring_secret = bytes_hex (kp_secret_key kp), jr_ring_public_key = kp_public_key kp, jr_taker_session_identity = session,
         jr_local_role = role, jr_local_position = position, jr_invite = None, jr_plan = None, jr_plan_hash = None,
         jr_local_contribution = None, jr_local_input_outpoints = inputs, jr_input_lock_owner = lock_owner,
         jr_incoming_edge = None, jr_outgoing_edge = None, jr_outgoing_open_started = False, jr_prepared_outgoing = None,
         jr_prepared_incoming = None, jr_outgoing_funding_address = None, jr_outgoing_pending_state = None,
         jr_incoming_pending_state = None, jr_pending_channel_ids = [], jr_unsigned_psbt = None, jr_unsigned_tx = None,
         jr_manifest = None, jr_local_readiness = [], jr_readiness_set = [], jr_readiness_hash = None,
         jr_coordinator_participants = [], jr_coordinator_plans = [], jr_coordinator_prepared = [],
         jr_coordinator_reached_keys = [], jr_coordinator_ready_ack_keys = [], jr_coordinator_sign_ack_keys = [],
         jr_coordinator_sign_authorization_sent = False, jr_coordinator_tx_fee = None, jr_handled_requests = [],
         jr_handled_responses = [], jr_local_signatures = [], jr_local_input_signature_created = False,
         jr_local_input_signature_sent = False, jr_final_tx = None, jr_unsigned_retirement_pending = False,
         jr_chain_status = no_chain_status, jr_created_at = now, jr_updated_at = now, jr_retry = no_retry, jr_state = INVITED\<rparr>
       in map_res (\<lambda>_. r) (validate_record lib r))"

section \<open>What a transition keeps\<close>

lemma apply_update_identity:
  "\<not> identity_update u \<Longrightarrow> record_key_of (apply_update u r) = record_key_of r \<and>
     jr_ring_secret (apply_update u r) = jr_ring_secret r \<and> jr_node_binding (apply_update u r) = jr_node_binding r"
  by (cases u) (simp_all add: record_key_of_def)

lemma updates_identity:
  "\<not> list_ex identity_update us \<Longrightarrow> record_key_of (fold apply_update us r) = record_key_of r \<and>
     jr_ring_secret (fold apply_update us r) = jr_ring_secret r \<and> jr_node_binding (fold apply_update us r) = jr_node_binding r"
  by (induction us arbitrary: r) (simp_all add: apply_update_identity)

lemma raised_Inr [simp]: "raised m = Inr x \<longleftrightarrow> m = Inr x"
  by (cases m) (simp_all add: raised_def)

lemma check_candidate_Inr:
  assumes "check_candidate r s c = Inr ()"
  shows "jr_unsigned_retirement_pending r \<Longrightarrow> \<not> jr_unsigned_retirement_pending c \<Longrightarrow> jr_state c = RETIRED"
    "s = RETIRING \<Longrightarrow> s \<noteq> jr_state r \<or> jr_unsigned_retirement_pending c \<Longrightarrow> validate_retirement r c = Inr ()"
    "s = CONFLICTED \<Longrightarrow> cs_confirmed_conflict_txid (jr_chain_status c) \<noteq> None"
  using assms unfolding check_candidate_def by (simp_all add: bind_res_Inr_iff split: if_splits)

lemma transition_Inr:
  assumes "transition lib r s now us = Inr r'"
  obtains (same) "s = jr_state r" "r' = r"
  | (change) "s = jr_state r \<or> s \<in> set (allowed_transitions (jr_state r))" "validate_record lib r' = Inr ()" "jr_state r' = s"
    "record_key_of r' = record_key_of r" "jr_ring_secret r' = jr_ring_secret r" "jr_node_binding r' = jr_node_binding r"
    "check_candidate r s r' = Inr ()"
proof (cases "s = jr_state r \<and> us = []")
  case True
  then have "transition lib r s now us = Inr r" unfolding transition_def by (rule if_P)
  with assms True same show ?thesis by simp
next
  case False
  define c where "c = (fold apply_update us r)\<lparr>jr_state := s, jr_updated_at := now\<rparr>"
  note t = assms [unfolded transition_def Let_def, folded c_def, unfolded if_not_P [OF False]]
  from t have a: "s = jr_state r \<or> s \<in> set (allowed_transitions (jr_state r))" by (metis Inl_Inr_False)
  then have "\<not> (s \<noteq> jr_state r \<and> s \<notin> set (allowed_transitions (jr_state r)))" by blast
  note t = t [unfolded if_not_P [OF this]]
  from t have i: "\<not> list_ex identity_update us" by (metis Inl_Inr_False)
  from t [unfolded if_not_P [OF i]] have v: "validate_record lib c = Inr ()" and k: "check_candidate r s c = Inr ()" and r': "r' = c"
    by (auto simp: bind_res_Inr_iff map_res_Inr_iff)
  have st: "jr_state c = s" by (simp add: c_def)
  have i': "record_key_of c = record_key_of r" "jr_ring_secret c = jr_ring_secret r" "jr_node_binding c = jr_node_binding r"
    using updates_identity [OF i, of r] by (simp_all add: c_def record_key_of_def)
  show ?thesis by (rule change [unfolded r', OF a v st i' k])
qed

section \<open>Histories\<close>

text \<open>The states a record has gone through since it was made.\<close>

inductive record_history :: "ring_lib \<Rightarrow> ring_record \<Rightarrow> ring_record \<Rightarrow> lifecycle_state list \<Rightarrow> bool" for lib r0 where
  start: "record_history lib r0 r0 [jr_state r0]"
| step: "record_history lib r0 r hist \<Longrightarrow> transition lib r s now us = Inr r' \<Longrightarrow> record_history lib r0 r' (hist @ [s])"

definition milestones :: "lifecycle_state list" where
  "milestones = [INVITED, PLANNED, ACCEPTOR_ARMED, PREPARED_NOT_VERIFIED, VERIFYING, PSBT_VERIFIED, READY, SIGNING, SIGNED, BROADCAST]"

definition stages :: "lifecycle_state \<Rightarrow> lifecycle_state list" where
  "stages s = (if s \<in> set milestones then takeWhile (\<lambda>x. x \<noteq> s) milestones @ [s] else [])"

text \<open>How the graph of allowed transitions is ordered: milestones are entered from their predecessor only, and nothing leads back
  before verification.\<close>

lemma stages_step: "s' \<in> set (allowed_transitions s) \<Longrightarrow> stages s' = [] \<or> stages s' = stages s @ [s']"
  by (cases s) (auto simp: stages_def milestones_def)

lemma pre_verified_step: "s' \<in> set (allowed_transitions s) \<Longrightarrow> s \<notin> set pre_verified_states \<Longrightarrow> s' \<notin> set pre_verified_states"
  by (cases s) (auto simp: pre_verified_states_def)

lemma signed_step: "s' \<in> set (allowed_transitions s) \<Longrightarrow> s = SIGNED \<or> s = BROADCAST \<Longrightarrow>
    s' \<in> {SIGNED, BROADCAST, CONFIRMED_OPEN, CONFLICTED, RECOVERY_REQUIRED}"
  by auto

lemma never_prepared: "PREPARED \<notin> set (allowed_transitions s)"
  by (cases s) auto

definition history_ok :: "ring_lib \<Rightarrow> ring_record \<Rightarrow> ring_record \<Rightarrow> lifecycle_state list \<Rightarrow> bool" where
  "history_ok lib r0 r hist \<longleftrightarrow> validate_record lib r = Inr () \<and> record_key_of r = record_key_of r0 \<and>
     jr_ring_secret r = jr_ring_secret r0 \<and> jr_node_binding r = jr_node_binding r0 \<and>
     hist \<noteq> [] \<and> last hist = jr_state r \<and> PREPARED \<notin> set hist \<and> (\<forall>x \<in> set hist. subseq (stages x) hist) \<and>
     (VERIFYING \<in> set hist \<longrightarrow> jr_state r \<notin> set pre_verified_states) \<and> (RETIRED \<in> set hist \<longrightarrow> jr_state r = RETIRED) \<and>
     (SIGNED \<in> set hist \<longrightarrow> jr_state r \<in> {SIGNED, BROADCAST} \<or> set hist \<inter> {CONFIRMED_OPEN, CONFLICTED, RECOVERY_REQUIRED} \<noteq> {})"

lemma history_ok_stay:
  assumes "history_ok lib r0 r hist" "validate_record lib r' = Inr ()" "record_key_of r' = record_key_of r"
    "jr_ring_secret r' = jr_ring_secret r" "jr_node_binding r' = jr_node_binding r" "jr_state r' = jr_state r"
  shows "history_ok lib r0 r' (hist @ [jr_state r])"
proof -
  have "jr_state r \<in> set hist" using assms(1) unfolding history_ok_def by (metis last_in_set)
  moreover have "subseq (stages x) (hist @ [jr_state r])" if "x \<in> set hist" for x
    using that assms(1) unfolding history_ok_def by (simp add: subseq_rev_drop_many)
  ultimately show ?thesis using assms unfolding history_ok_def by auto
qed

lemma history_ok_move:
  assumes ok: "history_ok lib r0 r hist" and s: "s \<in> set (allowed_transitions (jr_state r))"
    and "validate_record lib r' = Inr ()" "record_key_of r' = record_key_of r"
    "jr_ring_secret r' = jr_ring_secret r" "jr_node_binding r' = jr_node_binding r" "jr_state r' = s"
  shows "history_ok lib r0 r' (hist @ [s])"
proof -
  have old: "subseq (stages x) (hist @ [s])" if "x \<in> set hist" for x
    using that ok unfolding history_ok_def by (simp add: subseq_rev_drop_many)
  have mem: "jr_state r \<in> set hist" using ok unfolding history_ok_def by (metis last_in_set)
  then have "subseq (stages s) (hist @ [s])"
    using stages_step [OF s] ok unfolding history_ok_def by (auto intro: list_emb_append_mono)
  moreover have "PREPARED \<noteq> s" using never_prepared s by metis
  moreover have "VERIFYING \<in> set (hist @ [s]) \<longrightarrow> s \<notin> set pre_verified_states"
    using ok pre_verified_step [OF s] unfolding history_ok_def by (auto simp: pre_verified_states_def)
  moreover have "RETIRED \<notin> set hist" using ok s unfolding history_ok_def by auto
  moreover have "SIGNED \<in> set (hist @ [s]) \<longrightarrow> s \<in> {SIGNED, BROADCAST} \<or> set (hist @ [s]) \<inter> {CONFIRMED_OPEN, CONFLICTED, RECOVERY_REQUIRED} \<noteq> {}"
    using ok signed_step [OF s] unfolding history_ok_def by auto
  ultimately show ?thesis using assms old unfolding history_ok_def by auto
qed

lemma history_ok_step:
  assumes "history_ok lib r0 r hist" "transition lib r s now us = Inr r'"
  shows "history_ok lib r0 r' (hist @ [s])"
  using assms(2)
proof (cases rule: transition_Inr)
  case same
  have "validate_record lib r = Inr ()" using assms(1) by (simp add: history_ok_def)
  from history_ok_stay [OF assms(1) this refl refl refl refl] show ?thesis unfolding same .
next
  case change
  show ?thesis
  proof (cases "s = jr_state r")
    case True
    with history_ok_stay [OF assms(1) change(2,4,5,6)] change(3) show ?thesis by simp
  next
    case False
    with history_ok_move [OF assms(1) _ change(2,4,5,6,3)] change(1) show ?thesis by simp
  qed
qed

lemma record_history_ok:
  assumes "record_history lib r0 r hist" "validate_record lib r0 = Inr ()" "jr_state r0 = INVITED"
  shows "history_ok lib r0 r hist"
  using assms
proof (induction rule: record_history.induct)
  case start
  then show ?case by (simp add: history_ok_def stages_def milestones_def)
next
  case (step r hist s now us r')
  then show ?case by (intro history_ok_step [OF _ step.hyps(2)]) simp
qed

lemma fresh_record_Inr:
  assumes "fresh_record lib secret nonce revision binding session role position inputs owner now = Inr r"
  shows "validate_record lib r = Inr ()" "jr_state r = INVITED"
  using assms by (auto simp: fresh_record_def bind_res_Inr_iff map_res_Inr_iff Let_def)

text \<open>C11: The life of a participant record. However a record made by \<open>fresh\<close> is changed by \<open>transition\<close>, with whatever updates, it
  stays a valid record with the round, the keys and the node it was made for. Its states follow the protocol: before a record
  is SIGNED it has been PLANNED, ACCEPTOR_ARMED, PREPARED_NOT_VERIFIED, VERIFYING, PSBT_VERIFIED, READY and SIGNING, in this order;
  after verification has begun it never returns to a state before it; RETIRED is final; and a record that was signed leaves
  SIGNED and BROADCAST only through CONFIRMED_OPEN, CONFLICTED or RECOVERY_REQUIRED.\<close>

theorem ring_record_lifecycle:
  assumes "fresh_record lib secret nonce revision binding session role position inputs owner now = Inr r0"
    "record_history lib r0 r hist"
  shows "validate_record lib r = Inr () \<and> record_key_of r = record_key_of r0 \<and> jr_ring_secret r = jr_ring_secret r0 \<and>
    jr_node_binding r = jr_node_binding r0 \<and> last hist = jr_state r \<and> PREPARED \<notin> set hist \<and>
    (SIGNED \<in> set hist \<longrightarrow> subseq [INVITED, PLANNED, ACCEPTOR_ARMED, PREPARED_NOT_VERIFIED, VERIFYING, PSBT_VERIFIED, READY, SIGNING, SIGNED] hist) \<and>
    (VERIFYING \<in> set hist \<longrightarrow> jr_state r \<notin> {INVITED, PLANNED, ACCEPTOR_ARMED, PREPARED_NOT_VERIFIED}) \<and>
    (RETIRED \<in> set hist \<longrightarrow> jr_state r = RETIRED) \<and>
    (SIGNED \<in> set hist \<longrightarrow> jr_state r \<in> {SIGNED, BROADCAST} \<or> set hist \<inter> {CONFIRMED_OPEN, CONFLICTED, RECOVERY_REQUIRED} \<noteq> {})"
proof -
  have h: "history_ok lib r0 r hist" by (rule record_history_ok [OF assms(2) fresh_record_Inr [OF assms(1)]])
  have "stages SIGNED = [INVITED, PLANNED, ACCEPTOR_ARMED, PREPARED_NOT_VERIFIED, VERIFYING, PSBT_VERIFIED, READY, SIGNING, SIGNED]"
    by (simp add: stages_def milestones_def)
  with h show ?thesis unfolding history_ok_def pre_verified_states_def by auto
qed

section \<open>Retirement\<close>

lemma recovery_evidence:
  assumes "jr_state r = RECOVERY_REQUIRED" "retirement_action r \<noteq> BLOCKED"
  shows "\<not> jr_local_input_signature_created r \<and> \<not> jr_local_input_signature_sent r \<and> jr_final_tx r = None \<and> funding_absent r \<and>
    (cs_exact_txid (jr_chain_status r) \<noteq> None)"
  using assms by (auto simp: retirement_action_def pre_verified_states_def has_unsigned_funding_evidence_def split: if_splits)

lemma verified_retirement_evidence:
  assumes "validate_retirement r r' = Inr ()" "jr_state r \<in> {SIGNING, PSBT_VERIFIED, READY}"
  shows "\<not> jr_local_input_signature_created r' \<and> \<not> jr_local_input_signature_sent r' \<and> funding_absent r' \<and>
    cs_exact_txid (jr_chain_status r') \<noteq> None"
  using assms by (auto simp: validate_retirement_def has_unsigned_funding_evidence_def funding_absent_def pre_verified_states_def
      split: if_splits)

lemma confirmed_open_checks:
  assumes "validate_record lib r = Inr ()" "jr_state r = CONFIRMED_OPEN"
  shows "cs_chain (jr_chain_status r) = PRESENT \<and> 1 \<le> cs_confirmations (jr_chain_status r)"
proof -
  from assms(1) have "check_lifecycle r = Inr ()"
    by (auto simp: validate_record_def bind_res_Inr_iff)
  with assms(2) show ?thesis by (auto simp: check_lifecycle_def Let_def simp del: raise_if.simps)
qed

text \<open>C5: The point of no return. Whenever a record whose history began with \<open>fresh\<close> starts to retire, so that its channels are
  given up and its inputs set free, there is evidence that no signed funding transaction can still confirm: verification by the Lightning
  node was never begun; or the channels are open and confirmed; or a conflicting transaction has confirmed; or no signature for
  the funding inputs was created and the exact transaction, known by its TXID, is absent from the mempool and the chain. Retirement
  never starts while verification is running or from SIGNED or BROADCAST.\<close>

theorem retirement_needs_evidence:
  assumes "fresh_record lib secret nonce revision binding session role position inputs owner now = Inr r0"
    "record_history lib r0 r hist" "transition lib r RETIRING later us = Inr r'" "jr_state r \<noteq> RETIRING"
  shows "VERIFYING \<notin> set hist \<and> jr_state r \<in> {INVITED, PLANNED, ACCEPTOR_ARMED, PREPARED_NOT_VERIFIED} \<or>
    jr_state r = CONFIRMED_OPEN \<and> cs_chain (jr_chain_status r) = PRESENT \<and> 1 \<le> cs_confirmations (jr_chain_status r) \<or>
    jr_state r = CONFLICTED \<and> cs_confirmed_conflict_txid (jr_chain_status r') \<noteq> None \<or>
    jr_state r \<in> {SIGNING, PSBT_VERIFIED, READY} \<and> \<not> jr_local_input_signature_created r' \<and> \<not> jr_local_input_signature_sent r' \<and>
      funding_absent r' \<and> cs_exact_txid (jr_chain_status r') \<noteq> None \<or>
    jr_state r = RECOVERY_REQUIRED \<and> \<not> jr_local_input_signature_created r \<and> \<not> jr_local_input_signature_sent r \<and>
      jr_final_tx r = None \<and> funding_absent r \<and> cs_exact_txid (jr_chain_status r) \<noteq> None \<or>
    jr_state r = RECOVERY_REQUIRED \<and> has_unsigned_funding_evidence r' \<and> funding_absent r' \<or>
    jr_state r = CONFLICTED \<and> has_unsigned_funding_evidence r' \<and> funding_absent r'"
proof -
  have h: "history_ok lib r0 r hist" by (rule record_history_ok [OF assms(2) fresh_record_Inr [OF assms(1)]])
  from assms(3) have "RETIRING \<in> set (allowed_transitions (jr_state r)) \<and> validate_retirement r r' = Inr ()"
  proof (cases rule: transition_Inr)
    case same
    with assms(4) show ?thesis by simp
  next
    case change
    with assms(4) check_candidate_Inr(2) [OF change(7)] show ?thesis by simp
  qed
  then have a: "RETIRING \<in> set (allowed_transitions (jr_state r))" and v: "validate_retirement r r' = Inr ()" by simp_all
  consider "jr_state r \<in> set pre_verified_states" | "jr_state r = CONFIRMED_OPEN" | "jr_state r = CONFLICTED"
    | "jr_state r \<in> {SIGNING, PSBT_VERIFIED, READY}" | "jr_state r = RECOVERY_REQUIRED"
    using a by (cases "jr_state r") (auto simp: pre_verified_states_def)
  then show ?thesis
  proof cases
    case 1
    with h show ?thesis by (auto simp: history_ok_def pre_verified_states_def)
  next
    case 2
    with confirmed_open_checks [of lib r] h show ?thesis by (auto simp: history_ok_def)
  next
    case 3
    with v show ?thesis by (auto simp: validate_retirement_def pre_verified_states_def split: if_splits)
  next
    case 4
    with verified_retirement_evidence [OF v] show ?thesis by auto
  next
    case 5
    with v recovery_evidence [of r] show ?thesis
      by (auto simp: validate_retirement_def pre_verified_states_def split: if_splits)
  qed
qed

section \<open>An example record\<close>

definition ex_binding :: node_binding where
  "ex_binding = \<lparr>nb_network = REGTEST, nb_wallet_identity = ex_hex 0, nb_source_mixdepth = 0, nb_node_name = ''ring-node'',
     nb_local_node_id = ''02'' @ ex_hex 5\<rparr>"

definition ex_outpoint :: ring_outpoint where
  "ex_outpoint = \<lparr>op_txid = ex_hex 4, op_vout = 0\<rparr>"

definition ex_absent :: chain_status where
  "ex_absent = no_chain_status\<lparr>cs_exact_txid := Some (ex_hex 11), cs_mempool := ABSENT, cs_chain := ABSENT\<rparr>"

text \<open>The record with state \<open>s\<close>, with or without the unsigned funding transaction and the local signature.\<close>

definition ex_updates :: "bool \<Rightarrow> bool \<Rightarrow> record_update list" where
  "ex_updates funded sig =
     [Set_manifest (if funded then Some ex_manifest else None), Set_unsigned_tx (if funded then Some ''00'' else None),
      Set_unsigned_psbt (if funded then Some ''70736274ff'' else None),
      Set_chain_status (if funded then ex_absent else no_chain_status), Set_local_signatures (if sig then [''{}''] else []),
      Set_local_input_signature_created sig, Set_local_input_signature_sent sig]"

definition ex_record :: "lifecycle_state \<Rightarrow> bool \<Rightarrow> bool \<Rightarrow> ring_record" where
  "ex_record s funded sig =
     \<lparr>jr_node_binding = ex_binding, jr_round_nonce = ex_hex 9, jr_revision = 0,
      jr_ring_secret = ex_hex 1, jr_ring_public_key = ex_hex 1, jr_taker_session_identity = ''session'',
      jr_local_role = MAKER, jr_local_position = 0, jr_invite = None, jr_plan = None, jr_plan_hash = None,
      jr_local_contribution = None, jr_local_input_outpoints = [ex_outpoint], jr_input_lock_owner = None,
      jr_incoming_edge = None, jr_outgoing_edge = None, jr_outgoing_open_started = False, jr_prepared_outgoing = None,
      jr_prepared_incoming = None, jr_outgoing_funding_address = None, jr_outgoing_pending_state = None,
      jr_incoming_pending_state = None, jr_pending_channel_ids = [],
      jr_unsigned_psbt = (if funded then Some ''70736274ff'' else None), jr_unsigned_tx = (if funded then Some ''00'' else None),
      jr_manifest = (if funded then Some ex_manifest else None), jr_local_readiness = [], jr_readiness_set = [],
      jr_readiness_hash = None, jr_coordinator_participants = [], jr_coordinator_plans = [], jr_coordinator_prepared = [],
      jr_coordinator_reached_keys = [], jr_coordinator_ready_ack_keys = [], jr_coordinator_sign_ack_keys = [],
      jr_coordinator_sign_authorization_sent = False, jr_coordinator_tx_fee = None, jr_handled_requests = [],
      jr_handled_responses = [], jr_local_signatures = (if sig then [''{}''] else []),
      jr_local_input_signature_created = sig, jr_local_input_signature_sent = sig, jr_final_tx = None,
      jr_unsigned_retirement_pending = False, jr_chain_status = (if funded then ex_absent else no_chain_status),
      jr_created_at = 1, jr_updated_at = 1, jr_retry = no_retry, jr_state = s\<rparr>"

lemma ex_key_pair: "key_pair_from_secret ex_zlib ex_secret = Inr \<lparr>kp_secret_key = ex_secret, kp_public_key = ex_hex 1\<rparr>"
  "fromhex (ex_hex 1) = Inr ex_secret"
  using ex_hex_bytes [of 1] fromhex_hex [of ex_secret]
  by (simp_all add: key_pair_from_secret_def ex_zlib_def ex_lib_def ex_secret_def)

lemma ex_binding_valid: "validate_node_binding ex_zlib ex_binding = Inr ()"
  by code_simp

lemma ex_outpoint_valid: "validate_outpoint ex_outpoint = Inr ()"
  by code_simp

lemma ex_absent_valid: "validate_chain_status ex_absent = Inr ()" "validate_chain_status no_chain_status = Inr ()"
  using ex_hex_valid [of 11] unfolding validate_chain_status_def all_res_Inr list.pred_inject field_checks_Inr
  by (simp_all add: ex_absent_def no_chain_status_def optional_def)

lemma ex_funding_valid: "validate_psbt_field ''70736274ff'' = Inr ()" "validate_hex_bytes ''00'' = Inr ()" "validate_retry no_retry = Inr ()"
proof -
  show "validate_psbt_field ''70736274ff'' = Inr ()" by code_simp
  show "validate_hex_bytes ''00'' = Inr ()" by code_simp
  show "validate_retry no_retry = Inr ()" by (simp add: validate_retry_def no_retry_def between_def)
qed

lemma ex_record_fields: "validate_record_fields ex_zlib (ex_record s funded sig) = Inr ()"
  using ex_hex_valid [of 1] ex_hex_valid [of 9]
  unfolding validate_record_fields_def all_res_Inr list.pred_inject field_checks_Inr
  by (simp add: ex_record_def optional_def ex_binding_valid ex_outpoint_valid ex_absent_valid ex_funding_valid ex_manifest_zvalid
      between_def sized_def MAX_REVISION_def)

lemma ex_record_valid:
  assumes "s \<in> {SIGNED, BROADCAST} \<longrightarrow> sig" "s = VERIFYING \<longrightarrow> funded" "s \<noteq> CONFIRMED_OPEN"
  shows "validate_record ex_zlib (ex_record s funded sig) = Inr ()"
proof -
  let ?r = "ex_record s funded sig"
  have "check_identity ?r = Inr ()"
    by (simp add: check_identity_def ex_record_def edge_pending_def ex_manifest_def map_filter_simps)
  moreover have "check_coordinator ?r = Inr ()"
    by (simp add: check_coordinator_def ex_record_def known_keys_def)
  moreover have "check_lifecycle ?r = Inr ()"
    using assms by (auto simp: check_lifecycle_def ex_record_def ex_absent_def ex_manifest_def)
  moreover have "bind_res (fromhex (jr_ring_secret ?r)) (key_pair_from_secret ex_zlib) =
      Inr \<lparr>kp_secret_key = ex_secret, kp_public_key = ex_hex 1\<rparr>"
    unfolding ex_key_pair(1) [symmetric] by (simp add: ex_record_def ex_key_pair(2) del: One_nat_def)
  moreover have "jr_ring_public_key ?r = ex_hex 1" "jr_round_nonce ?r = ex_hex 9" by (simp_all add: ex_record_def)
  ultimately show ?thesis
    using ex_hex_valid [of 9] by (simp add: validate_record_def ex_record_fields)
qed

lemma ex_step:
  assumes "s' \<in> set (allowed_transitions s)" "s' \<in> {SIGNED, BROADCAST} \<longrightarrow> sig'" "s' = VERIFYING \<longrightarrow> funded'"
    "s' \<noteq> CONFIRMED_OPEN" "s' \<noteq> CONFLICTED" "s' = RETIRING \<longrightarrow> validate_retirement (ex_record s funded sig) (ex_record s' funded' sig') = Inr ()"
  shows "transition ex_zlib (ex_record s funded sig) s' 1 (ex_updates funded' sig') = Inr (ex_record s' funded' sig')"
proof -
  have c: "(fold apply_update (ex_updates funded' sig') (ex_record s funded sig))\<lparr>jr_state := s', jr_updated_at := 1\<rparr> =
      ex_record s' funded' sig'"
    by (simp add: ex_updates_def ex_record_def)
  have st: "jr_state (ex_record s funded sig) = s" "\<not> jr_unsigned_retirement_pending (ex_record s funded sig)"
    by (simp_all add: ex_record_def)
  have u: "\<not> list_ex identity_update (ex_updates funded' sig')" "ex_updates funded' sig' \<noteq> []" by (simp_all add: ex_updates_def)
  have "check_candidate (ex_record s funded sig) s' (ex_record s' funded' sig') = Inr ()"
    using assms(5,6) by (simp add: check_candidate_def st)
  with assms(1) u st ex_record_valid [OF assms(2,3,4)] show ?thesis
    unfolding transition_def Let_def c by (simp add: raised_def)
qed

lemma ex_fresh:
  "fresh_record ex_zlib ex_secret (ex_hex 9) 0 ex_binding ''session'' MAKER 0 [ex_outpoint] None 1 = Inr (ex_record INVITED False False)"
proof -
  have h: "bytes_hex ex_secret = ex_hex 1" using ex_hex_bytes [of 1] by (simp add: ex_secret_def)
  have "validate_record ex_zlib (ex_record INVITED False False) = Inr ()" by (rule ex_record_valid) simp_all
  then show ?thesis
    unfolding fresh_record_def ex_key_pair(1) bind_res_simps Let_def ring_key_pair.simps h
    unfolding ex_record_def if_False by simp
qed

lemma ex_history:
  "record_history ex_zlib (ex_record INVITED False False) (ex_record PSBT_VERIFIED True False)
     [INVITED, PLANNED, ACCEPTOR_ARMED, PREPARED_NOT_VERIFIED, VERIFYING, PSBT_VERIFIED]" (is ?p)
  "record_history ex_zlib (ex_record INVITED False False) (ex_record SIGNED True True)
     [INVITED, PLANNED, ACCEPTOR_ARMED, PREPARED_NOT_VERIFIED, VERIFYING, PSBT_VERIFIED, READY, SIGNING, SIGNED]"
proof -
  let ?r = "ex_record INVITED False False"
  have "record_history ex_zlib ?r ?r [INVITED]" using record_history.start [of ex_zlib ?r] by (simp add: ex_record_def)
  from record_history.step [OF this ex_step [of PLANNED INVITED False False]]
  have "record_history ex_zlib ?r (ex_record PLANNED False False) [INVITED, PLANNED]" by simp
  from record_history.step [OF this ex_step [of ACCEPTOR_ARMED PLANNED False False]]
  have "record_history ex_zlib ?r (ex_record ACCEPTOR_ARMED False False) [INVITED, PLANNED, ACCEPTOR_ARMED]" by simp
  from record_history.step [OF this ex_step [of PREPARED_NOT_VERIFIED ACCEPTOR_ARMED False True]]
  have "record_history ex_zlib ?r (ex_record PREPARED_NOT_VERIFIED True False) [INVITED, PLANNED, ACCEPTOR_ARMED, PREPARED_NOT_VERIFIED]"
    by simp
  from record_history.step [OF this ex_step [of VERIFYING PREPARED_NOT_VERIFIED False True]]
  have "record_history ex_zlib ?r (ex_record VERIFYING True False)
    [INVITED, PLANNED, ACCEPTOR_ARMED, PREPARED_NOT_VERIFIED, VERIFYING]" by simp
  from record_history.step [OF this ex_step [of PSBT_VERIFIED VERIFYING False True]]
  show p: ?p by simp
  from record_history.step [OF p ex_step [of READY PSBT_VERIFIED False True]]
  have "record_history ex_zlib ?r (ex_record READY True False)
    [INVITED, PLANNED, ACCEPTOR_ARMED, PREPARED_NOT_VERIFIED, VERIFYING, PSBT_VERIFIED, READY]" by simp
  from record_history.step [OF this ex_step [of SIGNING READY True True]]
  have "record_history ex_zlib ?r (ex_record SIGNING True True)
    [INVITED, PLANNED, ACCEPTOR_ARMED, PREPARED_NOT_VERIFIED, VERIFYING, PSBT_VERIFIED, READY, SIGNING]" by simp
  from record_history.step [OF this ex_step [of SIGNED SIGNING True True]]
  show "record_history ex_zlib ?r (ex_record SIGNED True True)
     [INVITED, PLANNED, ACCEPTOR_ARMED, PREPARED_NOT_VERIFIED, VERIFYING, PSBT_VERIFIED, READY, SIGNING, SIGNED]" by simp
qed

theorem ring_record_lifecycle_witness:
  "validate_record ex_zlib (ex_record SIGNED True True) = Inr () \<and>
   record_key_of (ex_record SIGNED True True) = record_key_of (ex_record INVITED False False)"
  using ring_record_lifecycle [OF ex_fresh ex_history(2)] by blast

lemma ex_retires:
  "transition ex_zlib (ex_record PSBT_VERIFIED True False) RETIRING 1 (ex_updates True False) = Inr (ex_record RETIRING True False)"
  by (rule ex_step) (simp_all add: validate_retirement_def pre_verified_states_def ex_record_def ex_absent_def)

theorem retirement_needs_evidence_witness:
  "funding_absent (ex_record RETIRING True False) \<and> cs_exact_txid (jr_chain_status (ex_record RETIRING True False)) \<noteq> None"
proof -
  have s: "jr_state (ex_record PSBT_VERIFIED True False) = PSBT_VERIFIED" by (simp add: ex_record_def)
  then have "jr_state (ex_record PSBT_VERIFIED True False) \<noteq> RETIRING" by simp
  from retirement_needs_evidence [OF ex_fresh ex_history(1) ex_retires this] show ?thesis unfolding s by simp
qed

end
