(* ===== verification/Ring_Store.thy ===== *)
theory Ring_Store
  imports Ring_Record
begin

text \<open>
  The journal of a participant, \<open>RingParticipantStore\<close> of \<open>jmcore/channel_ring_store.py\<close>: one JSON file per record in a directory.
  The directory is a dictionary from file names to files. Contents are lists over any type of units (bytes, in the
  program). What pydantic and \<open>json\<close> do with them is a parameter: the value \<open>json.loads\<close> reads, the record
  \<open>model_validate_json\<close> makes and the text of \<open>json.dumps(record.model_dump())\<close>. \<open>save\<close> is the sequence of its file
  operations; a call of \<open>os.write\<close> may take part of the data, any operation may fail, and the process may die between two.
\<close>

section \<open>Files and records\<close>

text \<open>A symbolic link may point to a file that exists or not.\<close>

datatype file_kind = Regular | Symlink bool

record 'b ring_file =
  rf_kind :: file_kind
  rf_mode :: nat
  rf_data :: "'b list"

type_synonym 'b directory = "(string, 'b ring_file) dict"

record 'b record_codec =
  sc_loads :: "'b list \<Rightarrow> json option"
  sc_validate :: "'b list \<Rightarrow> ring_record option"
  sc_dumps :: "ring_record \<Rightarrow> 'b list"

record ring_store =
  st_max_active :: int
  st_max_verified :: int

record load_report =
  lr_records :: "ring_record list"
  lr_corruptions :: "(string \<times> store_error) list"

definition OWNER_ONLY :: nat where "OWNER_ONLY = 384"

definition record_fields :: "string list" where
  "record_fields =
     [''journal_kind'', ''node_binding'', ''round_nonce'', ''revision'', ''ring_secret'', ''ring_public_key'', ''taker_session_identity'',
      ''local_role'', ''local_position'', ''invite'', ''plan'', ''plan_hash'', ''local_contribution'', ''local_input_outpoints'',
      ''input_lock_owner'', ''incoming_edge'', ''outgoing_edge'', ''outgoing_open_started'', ''prepared_outgoing'',
      ''prepared_incoming'', ''outgoing_funding_address'', ''outgoing_pending_state'', ''incoming_pending_state'',
      ''pending_channel_ids'', ''unsigned_psbt'', ''unsigned_tx'', ''manifest'', ''local_readiness'', ''readiness_set'',
      ''readiness_hash'', ''coordinator_participants'', ''coordinator_plans'', ''coordinator_prepared'', ''coordinator_reached_keys'',
      ''coordinator_ready_ack_keys'', ''coordinator_sign_ack_keys'', ''coordinator_sign_authorization_sent'', ''coordinator_tx_fee'',
      ''handled_requests'', ''handled_responses'', ''local_signatures'', ''local_input_signature_created'',
      ''local_input_signature_sent'', ''final_tx'', ''unsigned_retirement_pending'', ''chain_status'', ''created_at'', ''updated_at'',
      ''retry'', ''state'']"

text \<open>Whether \<open>_reject_duplicate_json_keys\<close> raises for some object of a value.\<close>

fun duplicate_json_keys :: "json \<Rightarrow> bool" where
  "duplicate_json_keys (JObj items) \<longleftrightarrow> \<not> distinct (map fst items) \<or> (\<exists>(k, v) \<in> set items. duplicate_json_keys v)"
| "duplicate_json_keys (JArr items) \<longleftrightarrow> (\<exists>v \<in> set items. duplicate_json_keys v)"
| "duplicate_json_keys _ \<longleftrightarrow> False"

definition invalid_record :: "'a sres" where
  "invalid_record = Inl (StoreError ''participant record failed strict validation'')"

definition journal_fields_ok :: "json_dict \<Rightarrow> bool" where
  "journal_fields_ok items \<longleftrightarrow>
     (set (dict_keys items) = set record_fields \<or> set (dict_keys items) = set record_fields - {''unsigned_retirement_pending''}) \<and>
     dict_get items ''journal_kind'' = Some (JStr ''private_channel_ring'')"

definition validate_key :: "record_key \<Rightarrow> unit res" where
  "validate_key k = all_res [field_checks [between 0 MAX_REVISION (rk_revision k)], validate_hex 32 (rk_round_nonce k),
     validate_hex 32 (rk_participant_public_key k)]"

definition parse_record :: "'b record_codec \<Rightarrow> 'b list \<Rightarrow> ring_record sres" where
  "parse_record cdc raw =
     (case sc_loads cdc raw of
        Some (JObj items) \<Rightarrow>
          if duplicate_json_keys (JObj items) \<or> \<not> journal_fields_ok items then invalid_record
          else (case sc_validate cdc raw of None \<Rightarrow> invalid_record | Some r \<Rightarrow> Inr r)
      | _ \<Rightarrow> invalid_record)"

definition load_path :: "'b record_codec \<Rightarrow> string \<Rightarrow> 'b ring_file \<Rightarrow> ring_record sres" where
  "load_path cdc name f =
     (if rf_kind f \<noteq> Regular then Inl (StoreError ''participant record cannot be a symlink'')
      else if rf_mode f \<noteq> OWNER_ONLY then Inl (StoreError ''participant record has unsafe mode'')
      else bind_res (parse_record cdc (rf_data f)) (\<lambda>r.
        if name \<noteq> key_filename (record_key_of r) then Inl (StoreError ''participant record filename differs from its identity'')
        else Inr r))"

definition load :: "'b record_codec \<Rightarrow> 'b directory \<Rightarrow> record_key \<Rightarrow> ring_record option sres" where
  "load cdc dir key =
     (case dict_get dir (key_filename key) of
        None \<Rightarrow> Inr None
      | Some f \<Rightarrow> if rf_kind f = Symlink False then Inr None else map_res Some (load_path cdc (key_filename key) f))"

definition journal_name :: "string \<Rightarrow> bool" where
  "journal_name name \<longleftrightarrow> suffix ''.json'' name"

definition journal_files :: "'b directory \<Rightarrow> 'b directory" where
  "journal_files dir = sort_key fst (filter (\<lambda>nf. journal_name (fst nf)) dir)"

definition load_all :: "'b record_codec \<Rightarrow> 'b directory \<Rightarrow> load_report" where
  "load_all cdc dir =
     (let results = map (\<lambda>(name, f). (name, load_path cdc name f)) (journal_files dir) in
      \<lparr>lr_records = concat (map (\<lambda>(name, res). case res of Inl _ \<Rightarrow> [] | Inr r \<Rightarrow> [r]) results),
       lr_corruptions = concat (map (\<lambda>(name, res). case res of Inl e \<Rightarrow> [(name, e)] | Inr _ \<Rightarrow> []) results)\<rparr>)"

section \<open>Limits\<close>

definition create_store :: "int \<Rightarrow> int \<Rightarrow> ring_store res" where
  "create_store max_active max_verified =
     (if max_active < 1 \<or> max_verified < 1 then Inl (ValueError ''store limits must be positive'')
      else if max_active < max_verified then Inl (ValueError ''verified limit cannot exceed active limit'')
      else Inr \<lparr>st_max_active = max_active, st_max_verified = max_verified\<rparr>)"

definition same_round :: "ring_record \<Rightarrow> ring_record \<Rightarrow> bool" where
  "same_round r c \<longleftrightarrow> jr_round_nonce r = jr_round_nonce c \<and> jr_taker_session_identity r = jr_taker_session_identity c \<and>
     jr_revision r \<noteq> jr_revision c"

definition enforce_limits :: "ring_store \<Rightarrow> ring_record \<Rightarrow> ring_record list \<Rightarrow> unit sres" where
  "enforce_limits st candidate existing =
     (let active = filter record_active existing; verified = filter verified_unresolved existing in
      if record_active candidate \<and> st_max_active st \<le> int (length active)
      then Inl (AntiGriefError ''maximum active channel-ring sessions reached'')
      else if verified_unresolved candidate \<and> st_max_verified st \<le> int (length verified)
      then Inl (AntiGriefError ''maximum verified channel-ring sessions reached'')
      else if list_ex (\<lambda>r. record_active candidate \<and> set (jr_local_input_outpoints r) \<inter> set (jr_local_input_outpoints candidate) \<noteq> {}) active
      then Inl (AntiGriefError ''input outpoint already belongs to an active session'')
      else if list_ex (\<lambda>r. record_active candidate \<and> same_round r candidate \<and> verified_unresolved r) existing
      then Inl (AntiGriefError ''cannot create another revision while verified state is unresolved'')
      else Inr ())"

section \<open>Saving\<close>

datatype 'b file_op = Create string | Append string "'b list" | Replace string string | Chmod string nat

fun exec_op :: "'b file_op \<Rightarrow> 'b directory \<Rightarrow> 'b directory" where
  "exec_op (Create n) dir = dict_put n \<lparr>rf_kind = Regular, rf_mode = OWNER_ONLY, rf_data = []\<rparr> dir"
| "exec_op (Append n chunk) dir =
     (case dict_get dir n of None \<Rightarrow> dir | Some f \<Rightarrow> dict_put n (f\<lparr>rf_data := rf_data f @ chunk\<rparr>) dir)"
| "exec_op (Replace a b) dir = (case dict_get dir a of None \<Rightarrow> dir | Some f \<Rightarrow> dict_put b f (dict_del a dir))"
| "exec_op (Chmod n mode) dir = (case dict_get dir n of None \<Rightarrow> dir | Some f \<Rightarrow> dict_put n (f\<lparr>rf_mode := mode\<rparr>) dir)"

text \<open>The loop over \<open>os.write\<close>. Each number is what one call accepts; when they run out the call raises. The flag says that all
  data was written.\<close>

fun write_chunks :: "nat list \<Rightarrow> 'b list \<Rightarrow> 'b list list \<times> bool" where
  "write_chunks _ [] = ([], True)"
| "write_chunks [] _ = ([], False)"
| "write_chunks (w # ws) view =
     (if w = 0 then ([], False)
      else let (chunks, whole) = write_chunks ws (drop w view) in (take w view # chunks, whole))"

datatype save_fault = Fails_before nat | Dies_before nat

record save_env =
  se_pid :: int
  se_time_ns :: int
  se_writes :: "nat list"
  se_fault :: "save_fault option"

definition temporary_name :: "save_env \<Rightarrow> string \<Rightarrow> string" where
  "temporary_name env name = ''.'' @ name @ ''.'' @ str_of_int (se_pid env) @ ''.'' @ str_of_int (se_time_ns env) @ ''.tmp''"

definition save_ops :: "save_env \<Rightarrow> string \<Rightarrow> 'b list \<Rightarrow> 'b file_op list \<times> bool" where
  "save_ops env target payload =
     (let tmp = temporary_name env target; (chunks, whole) = write_chunks (se_writes env) payload in
      (Create tmp # map (Append tmp) chunks @ (if whole then [Replace tmp target, Chmod target OWNER_ONLY] else []), whole))"

text \<open>The writing part of \<open>save\<close>: the directory afterwards and what the call returns; no result when the process died. An exception
  removes the temporary file.\<close>

definition write_record :: "save_env \<Rightarrow> string \<Rightarrow> 'b list \<Rightarrow> 'b directory \<Rightarrow> 'b directory \<times> unit sres option" where
  "write_record env target payload dir =
     (let tmp = temporary_name env target; (ops, whole) = save_ops env target payload in
      if dict_get dir tmp \<noteq> None then (dict_del tmp dir, Some (Inl OsError))
      else case se_fault env of
        Some (Dies_before n) \<Rightarrow> (fold exec_op (take n ops) dir, None)
      | Some (Fails_before n) \<Rightarrow> (dict_del tmp (fold exec_op (take n ops) dir), Some (Inl OsError))
      | None \<Rightarrow> if whole then (fold exec_op ops dir, Some (Inr ())) else (dict_del tmp (fold exec_op ops dir), Some (Inl OsError)))"

definition save :: "'b record_codec \<Rightarrow> ring_store \<Rightarrow> save_env \<Rightarrow> ring_record \<Rightarrow> 'b directory \<Rightarrow> 'b directory \<times> unit sres option" where
  "save cdc st env r dir =
     (let current = load_all cdc dir in
      if lr_corruptions current \<noteq> [] then (dir, Some (Inl (StoreError ''cannot update participant store while corrupt records exist'')))
      else if list_ex (\<lambda>i. record_key_of i = record_key_of r \<and> jr_node_binding i \<noteq> jr_node_binding r) (lr_records current)
      then (dir, Some (Inl (StoreError ''cannot change durable ring node ownership'')))
      else case enforce_limits st r (filter (\<lambda>i. record_key_of i \<noteq> record_key_of r) (lr_records current)) of
        Inl e \<Rightarrow> (dir, Some (Inl e))
      | Inr _ \<Rightarrow> write_record env (key_filename (record_key_of r)) (sc_dumps cdc r) dir)"

definition store_transition ::
  "ring_lib \<Rightarrow> 'b record_codec \<Rightarrow> ring_store \<Rightarrow> save_env \<Rightarrow> record_key \<Rightarrow> lifecycle_state \<Rightarrow> rat \<Rightarrow> record_update list \<Rightarrow> 'b directory \<Rightarrow>
   'b directory \<times> ring_record sres option" where
  "store_transition lib cdc st env key s now updates dir =
     (case load cdc dir key of
        Inl e \<Rightarrow> (dir, Some (Inl e))
      | Inr None \<Rightarrow> (dir, Some (Inl (StoreError ''participant record does not exist'')))
      | Inr (Some current) \<Rightarrow>
          (case transition lib current s now updates of
             Inl e \<Rightarrow> (dir, Some (Inl e))
           | Inr changed \<Rightarrow> (case save cdc st env changed dir of (dir', res) \<Rightarrow> (dir', map_option (map_res (\<lambda>_. changed)) res))))"

text \<open>\<open>reconcile\<close>, with the environment of each call of \<open>save\<close>.\<close>

fun reconcile :: "'b record_codec \<Rightarrow> ring_store \<Rightarrow> (ring_record \<times> save_env) list \<Rightarrow> 'b directory \<Rightarrow> 'b directory \<times> load_report sres option" where
  "reconcile cdc st [] dir = (dir, Some (Inr (load_all cdc dir)))"
| "reconcile cdc st ((r, env) # rest) dir =
     (case load cdc dir (record_key_of r) of
        Inl e \<Rightarrow> (dir, Some (Inl e))
      | Inr None \<Rightarrow>
          (case save cdc st env r dir of
             (dir', Some (Inr _)) \<Rightarrow> reconcile cdc st rest dir'
           | (dir', Some (Inl e)) \<Rightarrow> (dir', Some (Inl e))
           | (dir', None) \<Rightarrow> (dir', None))
      | Inr (Some existing) \<Rightarrow>
          if existing \<noteq> r then (dir, Some (Inl (StoreError ''recovered record conflicts with durable state'')))
          else reconcile cdc st rest dir)"

definition active_records :: "'b record_codec \<Rightarrow> 'b directory \<Rightarrow> string option \<Rightarrow> ring_outpoint option \<Rightarrow> ring_record list" where
  "active_records cdc dir session input =
     filter (\<lambda>r. record_active r \<and> (session = None \<or> session = Some (jr_taker_session_identity r)) \<and>
       pred_option (\<lambda>p. p \<in> set (jr_local_input_outpoints r)) input) (lr_records (load_all cdc dir))"


section \<open>The directory as a set of records\<close>

text \<open>What pydantic documents: a model is written with all its fields and read back as it was, and reading makes valid models only.\<close>

definition codec_ok :: "ring_lib \<Rightarrow> 'b record_codec \<Rightarrow> bool" where
  "codec_ok lib cdc \<longleftrightarrow>
     (\<forall>r. validate_record lib r = Inr () \<longrightarrow> sc_validate cdc (sc_dumps cdc r) = Some r \<and>
        (\<exists>items. sc_loads cdc (sc_dumps cdc r) = Some (JObj items) \<and> \<not> duplicate_json_keys (JObj items) \<and> journal_fields_ok items)) \<and>
     (\<forall>raw r. sc_validate cdc raw = Some r \<longrightarrow> validate_record lib r = Inr ())"

definition read_file :: "'b record_codec \<Rightarrow> string \<times> 'b ring_file \<Rightarrow> ring_record list" where
  "read_file cdc nf = (case load_path cdc (fst nf) (snd nf) of Inl _ \<Rightarrow> [] | Inr r \<Rightarrow> [r])"

definition records_in :: "'b record_codec \<Rightarrow> 'b directory \<Rightarrow> ring_record list" where
  "records_in cdc dir = concat (map (read_file cdc) (filter (\<lambda>nf. journal_name (fst nf)) dir))"

definition clean :: "'b record_codec \<Rightarrow> 'b directory \<Rightarrow> bool" where
  "clean cdc dir \<longleftrightarrow> (\<forall>(n, f) \<in> set dir. journal_name n \<longrightarrow> (\<exists>r. load_path cdc n f = Inr r))"

lemma mset_concat_mset: "mset xs = mset ys \<Longrightarrow> mset (concat (map f xs)) = mset (concat (map f ys))"
proof -
  have "mset (concat (map f zs)) = sum_mset (image_mset (\<lambda>x. mset (f x)) (mset zs))" for zs by (induction zs) simp_all
  then show "mset xs = mset ys \<Longrightarrow> mset (concat (map f xs)) = mset (concat (map f ys))" by simp
qed

lemma load_all_records: "mset (lr_records (load_all cdc dir)) = mset (records_in cdc dir)"
proof -
  have "lr_records (load_all cdc dir) = concat (map (read_file cdc) (journal_files dir))"
    by (simp add: load_all_def Let_def read_file_def [abs_def] comp_def case_prod_unfold)
  then show ?thesis by (simp add: records_in_def journal_files_def mset_concat_mset)
qed

lemma load_all_set: "set (lr_records (load_all cdc dir)) = set (records_in cdc dir)"
  using load_all_records mset_eq_setD by metis

lemma load_all_clean: "lr_corruptions (load_all cdc dir) = [] \<longleftrightarrow> clean cdc dir"
proof -
  have "lr_corruptions (load_all cdc dir) =
      concat (map (\<lambda>nf. case load_path cdc (fst nf) (snd nf) of Inl e \<Rightarrow> [(fst nf, e)] | Inr _ \<Rightarrow> []) (journal_files dir))"
    by (simp add: load_all_def Let_def comp_def case_prod_unfold cong: sum.case_cong)
  then show ?thesis by (auto simp: clean_def journal_files_def split: sum.splits) (metis Inl_Inr_False sumE)
qed

lemma load_path_Inr:
  "load_path cdc n f = Inr r \<longleftrightarrow>
     rf_kind f = Regular \<and> rf_mode f = OWNER_ONLY \<and> parse_record cdc (rf_data f) = Inr r \<and> n = key_filename (record_key_of r)"
  by (auto simp: load_path_def bind_res_Inr_iff split: if_splits)

lemma records_in_iff:
  "r \<in> set (records_in cdc dir) \<longleftrightarrow> (\<exists>(n, f) \<in> set dir. journal_name n \<and> load_path cdc n f = Inr r)"
  by (auto simp: records_in_def read_file_def split: sum.splits) force+

lemma parse_valid: "codec_ok lib cdc \<Longrightarrow> parse_record cdc raw = Inr r \<Longrightarrow> validate_record lib r = Inr ()"
  by (auto simp: parse_record_def codec_ok_def invalid_record_def split: option.splits json.splits if_splits)

lemma parse_dumped: "codec_ok lib cdc \<Longrightarrow> validate_record lib r = Inr () \<Longrightarrow> parse_record cdc (sc_dumps cdc r) = Inr r"
  by (auto simp: parse_record_def codec_ok_def invalid_record_def split: option.splits json.splits) fastforce+

lemma records_valid: "codec_ok lib cdc \<Longrightarrow> r \<in> set (records_in cdc dir) \<Longrightarrow> validate_record lib r = Inr ()"
  by (auto simp: records_in_iff load_path_Inr intro: parse_valid)

subsection \<open>File names\<close>

lemma record_key_valid: "validate_record lib r = Inr () \<Longrightarrow> validate_key (record_key_of r) = Inr ()"
proof -
  assume "validate_record lib r = Inr ()"
  then have "validate_record_fields lib r = Inr ()" by (auto simp: validate_record_def bind_res_Inr_iff)
  then show ?thesis
    unfolding validate_record_fields_def validate_key_def all_res_Inr list.pred_inject field_checks_Inr
    by (simp add: record_key_of_def)
qed

lemma valid_key_parts: "validate_key k = Inr () \<Longrightarrow> length (rk_round_nonce k) = 64 \<and> length (rk_participant_public_key k) = 64"
  unfolding validate_key_def all_res_Inr list.pred_inject by (auto simp: validate_hex_def split: if_splits)

lemma key_filename_inj:
  assumes "validate_key k = Inr ()" "validate_key k' = Inr ()" "key_filename k = key_filename k'"
  shows "k = k'"
proof -
  from assms(3) have n: "rk_round_nonce k = rk_round_nonce k'"
    and "str_of_int (rk_revision k) @ ''-'' @ rk_participant_public_key k @ ''.json'' =
         str_of_int (rk_revision k') @ ''-'' @ rk_participant_public_key k' @ ''.json''"
    using valid_key_parts [OF assms(1)] valid_key_parts [OF assms(2)] by (simp_all add: key_filename_def)
  then have "str_of_int (rk_revision k) = str_of_int (rk_revision k')" "rk_participant_public_key k = rk_participant_public_key k'"
    using valid_key_parts [OF assms(1)] valid_key_parts [OF assms(2)]
    by (metis append_eq_append_conv length_append same_append_eq append_same_eq)+
  with n str_of_int_inj show ?thesis by (metis record_key.equality old.unit.exhaust)
qed

lemma key_filename_journal: "journal_name (key_filename k)"
  by (simp add: journal_name_def key_filename_def suffix_def)

lemma temporary_not_journal: "\<not> journal_name (temporary_name env n)"
  by (auto simp: journal_name_def temporary_name_def suffix_def dest: arg_cong [of _ _ last])

subsection \<open>What the file operations change\<close>

text \<open>Two directories hold the same files, but for the one named \<open>t\<close>.\<close>

definition same_but :: "string \<Rightarrow> 'b directory \<Rightarrow> 'b directory \<Rightarrow> bool" where
  "same_but t d d' \<longleftrightarrow> (\<forall>n. n \<noteq> t \<longrightarrow> dict_get d n = dict_get d' n)"

definition record_file :: "'b list \<Rightarrow> 'b ring_file" where
  "record_file payload = \<lparr>rf_kind = Regular, rf_mode = OWNER_ONLY, rf_data = payload\<rparr>"

lemma exec_distinct: "distinct (dict_keys d) \<Longrightarrow> distinct (dict_keys (exec_op op d))"
  by (cases op) (auto simp: distinct_keys_put distinct_keys_del split: option.splits)

lemma fold_exec_distinct: "distinct (dict_keys d) \<Longrightarrow> distinct (dict_keys (fold exec_op ops d))"
  by (induction ops arbitrary: d) (simp_all add: exec_distinct)

lemma write_same: "list_all (\<lambda>op. op = Create t \<or> (\<exists>c. op = Append t c)) ops \<Longrightarrow> same_but t (fold exec_op ops d) d"
proof (induction ops arbitrary: d)
  case (Cons op ops)
  then have "same_but t (fold exec_op ops (exec_op op d)) (exec_op op d)" by simp
  moreover have "same_but t (exec_op op d) d" using Cons.prems by (auto simp: same_but_def dict_simps split: option.splits)
  ultimately show ?case by (simp add: same_but_def)
qed (simp add: same_but_def)

lemma append_chunks: "dict_get d t = Some f \<Longrightarrow> dict_get (fold exec_op (map (Append t) chunks) d) t = Some (f\<lparr>rf_data := rf_data f @ concat chunks\<rparr>)"
  by (induction chunks arbitrary: d f) (simp_all add: dict_simps)

lemma write_chunks_complete: "write_chunks ws view = (chunks, True) \<Longrightarrow> concat chunks = view"
  by (induction ws view arbitrary: chunks rule: write_chunks.induct) (auto split: if_splits prod.splits)

text \<open>Whatever part of the operations of \<open>save\<close> is executed, the journal is as before, or the record's file is complete.\<close>

lemma save_ops_effect:
  assumes "save_ops env target payload = (ops, whole)" "target \<noteq> temporary_name env target"
  defines "t \<equiv> temporary_name env target"
  shows "same_but t (fold exec_op (take n ops) d) d \<or>
    whole \<and> same_but t (fold exec_op (take n ops) d) (dict_put target (record_file payload) d)"
    "whole \<Longrightarrow> same_but t (fold exec_op ops d) (dict_put target (record_file payload) d)"
    "\<not> whole \<Longrightarrow> same_but t (fold exec_op ops d) d"
proof -
  from assms(1) obtain chunks where w: "write_chunks (se_writes env) payload = (chunks, whole)"
    and ops: "ops = (Create t # map (Append t) chunks) @ (if whole then [Replace t target, Chmod target OWNER_ONLY] else [])"
    by (auto simp: save_ops_def Let_def t_def split: prod.splits)
  let ?a = "Create t # map (Append t) chunks"
  define d1 where "d1 = fold exec_op ?a d"
  have p: "list_all (\<lambda>op. op = Create t \<or> (\<exists>c. op = Append t c)) (take k ?a)" for k
    by (cases k) (auto simp: list_all_iff dest!: in_set_takeD)
  from p [of "length ?a"] have d1: "same_but t d1 d" unfolding d1_def by (intro write_same) simp
  have written: "dict_get d1 t = Some (record_file payload)" if whole
    using append_chunks [of "exec_op (Create t) d" t _ chunks] write_chunks_complete [of "se_writes env" payload chunks] w that
    by (simp add: d1_def record_file_def dict_simps)
  have renamed: "same_but t (exec_op (Replace t target) d1) (dict_put target (record_file payload) d)"
    and chmod: "same_but t (exec_op (Chmod target OWNER_ONLY) (exec_op (Replace t target) d1)) (dict_put target (record_file payload) d)"
    if whole
    using written [OF that] d1 assms(2) by (auto simp: same_but_def dict_simps record_file_def t_def)
  show "whole \<Longrightarrow> same_but t (fold exec_op ops d) (dict_put target (record_file payload) d)"
    using chmod by (simp add: ops d1_def)
  show "\<not> whole \<Longrightarrow> same_but t (fold exec_op ops d) d" using d1 by (simp add: ops d1_def)
  show "same_but t (fold exec_op (take n ops) d) d \<or>
    whole \<and> same_but t (fold exec_op (take n ops) d) (dict_put target (record_file payload) d)"
  proof (cases "n \<le> length ?a")
    case True
    then have "take n ops = take n ?a" unfolding ops take_append by simp
    with write_same [OF p [of n]] show ?thesis by metis
  next
    case False
    then obtain k where k: "n = length ?a + Suc k" by (metis add_Suc_right less_imp_Suc_add not_le)
    have "fold exec_op (take n ops) d = fold exec_op (take (Suc k) (if whole then [Replace t target, Chmod target OWNER_ONLY] else [])) d1"
      unfolding ops take_append k d1_def by simp
    with d1 renamed chmod show ?thesis by (cases whole; cases k) simp_all
  qed
qed

lemma write_record_effect:
  assumes "write_record env target payload d = (d', res)" "target \<noteq> temporary_name env target" "distinct (dict_keys d)"
  defines "t \<equiv> temporary_name env target"
  shows "distinct (dict_keys d')"
    "same_but t d' d \<and> res \<noteq> Some (Inr ()) \<or> same_but t d' (dict_put target (record_file payload) d)"
proof -
  obtain ops whole where o: "save_ops env target payload = (ops, whole)" by fastforce
  note e = save_ops_effect [OF o assms(2), folded t_def]
  have del: "same_but t (dict_del t x) y \<longleftrightarrow> same_but t x y" for x y :: "'a directory" by (simp add: same_but_def dict_simps)
  have self: "same_but t (dict_del t d) d" by (simp add: same_but_def dict_simps)
  show "distinct (dict_keys d')" using assms(1,3)
    by (auto simp: write_record_def o Let_def fold_exec_distinct distinct_keys_del split: if_splits option.splits save_fault.splits)
  show "same_but t d' d \<and> res \<noteq> Some (Inr ()) \<or> same_but t d' (dict_put target (record_file payload) d)"
    using assms(1) e(2,3) self
    by (auto simp: write_record_def o Let_def t_def [symmetric] del split: if_splits option.splits save_fault.splits)
      (metis e(1))+
qed

subsection \<open>The records after an update\<close>

lemma journal_same:
  assumes "same_but t d d'" "\<not> journal_name t" "distinct (dict_keys d)" "distinct (dict_keys d')"
  shows "mset (records_in cdc d) = mset (records_in cdc d')" "clean cdc d \<longleftrightarrow> clean cdc d'"
proof -
  let ?J = "filter (\<lambda>nf. journal_name (fst nf))"
  have mem: "nf \<in> set (?J d) \<longleftrightarrow> nf \<in> set (?J d')" for nf
  proof -
    have "journal_name (fst nf) \<Longrightarrow> dict_get d (fst nf) = dict_get d' (fst nf)" using assms(1,2) unfolding same_but_def by metis
    then show ?thesis
      using map_of_eq_Some_iff [OF assms(3), of "fst nf" "snd nf"] map_of_eq_Some_iff [OF assms(4), of "fst nf" "snd nf"] by auto
  qed
  then have "set (?J d) = set (?J d')" by blast
  moreover have "distinct (?J d)" "distinct (?J d')" using assms(3,4) by (simp_all add: distinct_map)
  ultimately have "mset (?J d) = mset (?J d')" by (metis set_eq_iff_mset_eq_distinct)
  then show "mset (records_in cdc d) = mset (records_in cdc d')" by (simp add: records_in_def mset_concat_mset)
  have "nf \<in> set d \<longleftrightarrow> nf \<in> set d'" if "journal_name (fst nf)" for nf using mem [of nf] that by simp
  then show "clean cdc d \<longleftrightarrow> clean cdc d'" unfolding clean_def by (metis (mono_tags, lifting) case_prod_unfold)
qed

lemma mset_dict_put: "distinct (dict_keys d) \<Longrightarrow> mset (dict_put n f d) = add_mset (n, f) (mset (dict_del n d))"
proof (induction d)
  case (Cons nf d)
  then show ?case using dict_del_fresh [of n d] by (cases nf) auto
qed simp

lemma records_in_del: "records_in cdc (dict_del n d) = filter (\<lambda>r. key_filename (record_key_of r) \<noteq> n) (records_in cdc d)"
  by (induction d) (auto simp: records_in_def read_file_def load_path_Inr AList.delete_eq split: sum.splits)

lemma records_in_put:
  assumes "distinct (dict_keys d)" "load_path cdc n f = Inr r" "journal_name n"
  shows "mset (records_in cdc (dict_put n f d)) = add_mset r (mset (filter (\<lambda>r. key_filename (record_key_of r) \<noteq> n) (records_in cdc d)))"
proof -
  have "mset (filter (\<lambda>nf. journal_name (fst nf)) (dict_put n f d)) = mset (filter (\<lambda>nf. journal_name (fst nf)) ((n, f) # dict_del n d))"
    using mset_dict_put [OF assms(1)] by simp
  then have "mset (records_in cdc (dict_put n f d)) = mset (records_in cdc ((n, f) # dict_del n d))"
    unfolding records_in_def by (rule mset_concat_mset)
  also have "records_in cdc ((n, f) # dict_del n d) = r # records_in cdc (dict_del n d)"
    using assms(2,3) by (simp add: records_in_def read_file_def)
  finally show ?thesis by (simp add: records_in_del)
qed

lemma clean_put: "distinct (dict_keys d) \<Longrightarrow> clean cdc d \<Longrightarrow> load_path cdc n f = Inr r \<Longrightarrow> clean cdc (dict_put n f d)"
  using set_dict_del [of n d] mset_dict_put [of d n f, THEN arg_cong [of _ _ set_mset]] by (auto simp: clean_def)

lemma load_record_file:
  assumes "codec_ok lib cdc" "validate_record lib r = Inr ()"
  shows "load_path cdc (key_filename (record_key_of r)) (record_file (sc_dumps cdc r)) = Inr r"
  using parse_dumped [OF assms] by (simp add: load_path_Inr record_file_def)

definition others :: "ring_record \<Rightarrow> ring_record list \<Rightarrow> ring_record list" where
  "others r rs = filter (\<lambda>i. record_key_of i \<noteq> record_key_of r) rs"

text \<open>The two ways a call of \<open>save\<close> can leave the directory: the journal as it was, or with the record in place.\<close>

lemma save_effect:
  assumes ok: "codec_ok lib cdc" and v: "validate_record lib r = Inr ()" and dist: "distinct (dict_keys d)"
    and save: "save cdc st env r d = (d', res)"
  obtains (kept) t where "distinct (dict_keys d')" "same_but t d' d" "\<not> journal_name t" "res \<noteq> Some (Inr ())"
  | (stored) t where "distinct (dict_keys d')" "clean cdc d" "\<not> journal_name t"
      "same_but t d' (dict_put (key_filename (record_key_of r)) (record_file (sc_dumps cdc r)) d)"
      "enforce_limits st r (others r (lr_records (load_all cdc d))) = Inr ()"
      "\<not> list_ex (\<lambda>i. record_key_of i = record_key_of r \<and> jr_node_binding i \<noteq> jr_node_binding r) (lr_records (load_all cdc d))"
proof -
  let ?target = "key_filename (record_key_of r)"
  let ?w = "write_record env ?target (sc_dumps cdc r) d"
  have t: "\<not> journal_name (temporary_name env ?target)" by (rule temporary_not_journal)
  then have ne: "?target \<noteq> temporary_name env ?target" using key_filename_journal by metis
  consider "d' = d" "res \<noteq> Some (Inr ())"
    | "clean cdc d" "enforce_limits st r (others r (lr_records (load_all cdc d))) = Inr ()" "?w = (d', res)"
      "\<not> list_ex (\<lambda>i. record_key_of i = record_key_of r \<and> jr_node_binding i \<noteq> jr_node_binding r) (lr_records (load_all cdc d))"
    using save by (auto simp: save_def Let_def load_all_clean others_def split: if_splits sum.splits)
  then show ?thesis
  proof cases
    case 1
    with dist t show ?thesis by (intro kept) (simp_all add: same_but_def)
  next
    case 2
    from write_record_effect [OF 2(3) ne dist] show ?thesis using kept stored t 2 by blast
  qed
qed

section \<open>The invariant of the journal\<close>

definition journal_ok :: "ring_store \<Rightarrow> ring_record list \<Rightarrow> bool" where
  "journal_ok st rs \<longleftrightarrow> int (length (filter record_active rs)) \<le> st_max_active st \<and>
     int (length (filter verified_unresolved rs)) \<le> st_max_verified st \<and>
     (\<forall>a \<in> set rs. \<forall>b \<in> set rs. record_key_of a \<noteq> record_key_of b \<longrightarrow>
        (record_active a \<and> record_active b \<longrightarrow> set (jr_local_input_outpoints a) \<inter> set (jr_local_input_outpoints b) = {}) \<and>
        \<not> (same_round a b \<and> verified_unresolved a \<and> verified_unresolved b))"

definition store_inv :: "'b record_codec \<Rightarrow> ring_store \<Rightarrow> 'b directory \<Rightarrow> bool" where
  "store_inv cdc st d \<longleftrightarrow> distinct (dict_keys d) \<and> clean cdc d \<and> journal_ok st (lr_records (load_all cdc d))"

lemma journal_ok_mset: "mset rs = mset rs' \<Longrightarrow> journal_ok st rs \<longleftrightarrow> journal_ok st rs'"
proof -
  assume m: "mset rs = mset rs'"
  then have "length (filter P rs) = length (filter P rs')" for P by (metis mset_filter size_mset)
  with mset_eq_setD [OF m] show "journal_ok st rs \<longleftrightarrow> journal_ok st rs'" by (simp add: journal_ok_def)
qed

lemma verified_active: "verified_unresolved r \<Longrightarrow> record_active r"
  by (auto simp: verified_unresolved_def verified_unresolved_states_def record_active_def)

lemma enforce_limits_Inr:
  "enforce_limits st c rs = Inr () \<longleftrightarrow>
     (record_active c \<longrightarrow> int (length (filter record_active rs)) < st_max_active st) \<and>
     (verified_unresolved c \<longrightarrow> int (length (filter verified_unresolved rs)) < st_max_verified st) \<and>
     (\<forall>r \<in> set rs. record_active c \<longrightarrow>
        (record_active r \<longrightarrow> set (jr_local_input_outpoints r) \<inter> set (jr_local_input_outpoints c) = {}) \<and>
        \<not> (same_round r c \<and> verified_unresolved r))"
  by (auto simp: enforce_limits_def Let_def list_ex_iff split: if_splits)

lemma same_round_sym: "same_round a b \<longleftrightarrow> same_round b a"
  by (auto simp: same_round_def)

lemma journal_ok_others: "journal_ok st rs \<Longrightarrow> journal_ok st (others r rs)"
proof -
  have l: "int (length (filter P (others r rs))) \<le> int (length (filter P rs))" for P
    unfolding others_def by (induction rs) auto
  have "set (others r rs) \<subseteq> set rs" by (auto simp: others_def)
  then show "journal_ok st rs \<Longrightarrow> journal_ok st (others r rs)"
    unfolding journal_ok_def using order_trans [OF l [of record_active]] order_trans [OF l [of verified_unresolved]]
    by (meson subsetD)
qed

lemma journal_ok_save:
  assumes "journal_ok st rs" "enforce_limits st r (others r rs) = Inr ()"
  shows "journal_ok st (r # others r rs)"
proof -
  have o: "journal_ok st (others r rs)" using assms(1) by (rule journal_ok_others)
  have pair: "(record_active r \<and> record_active b \<longrightarrow> set (jr_local_input_outpoints r) \<inter> set (jr_local_input_outpoints b) = {}) \<and>
    \<not> (same_round r b \<and> verified_unresolved r \<and> verified_unresolved b)" if "b \<in> set (others r rs)" for b
    using assms(2) that verified_active [of r] unfolding enforce_limits_Inr by (metis inf_commute same_round_sym)
  from o assms(2) have "int (length (filter record_active (r # others r rs))) \<le> st_max_active st"
    "int (length (filter verified_unresolved (r # others r rs))) \<le> st_max_verified st"
    unfolding journal_ok_def enforce_limits_Inr by auto
  moreover have "(record_active a \<and> record_active b \<longrightarrow> set (jr_local_input_outpoints a) \<inter> set (jr_local_input_outpoints b) = {}) \<and>
    \<not> (same_round a b \<and> verified_unresolved a \<and> verified_unresolved b)"
    if "a \<in> set (r # others r rs)" "b \<in> set (r # others r rs)" "record_key_of a \<noteq> record_key_of b" for a b
  proof -
    consider "a = r" "b \<in> set (others r rs)" | "b = r" "a \<in> set (others r rs)" | "a \<in> set (others r rs)" "b \<in> set (others r rs)"
      using \<open>a \<in> _\<close> \<open>b \<in> _\<close> \<open>record_key_of a \<noteq> _\<close> by auto
    then show ?thesis
    proof cases
      case 1
      with pair show ?thesis by blast
    next
      case 2
      with pair [of a] same_round_sym [of a b] show ?thesis by blast
    next
      case 3
      with o \<open>record_key_of a \<noteq> _\<close> show ?thesis unfolding journal_ok_def by blast
    qed
  qed
  ultimately show ?thesis unfolding journal_ok_def by blast
qed

lemma stored_records:
  assumes ok: "codec_ok lib cdc" and v: "validate_record lib r = Inr ()" and d: "distinct (dict_keys d)" "distinct (dict_keys d')"
    and s: "same_but t d' (dict_put (key_filename (record_key_of r)) (record_file (sc_dumps cdc r)) d)" "\<not> journal_name t"
  shows "mset (lr_records (load_all cdc d')) = mset (r # others r (lr_records (load_all cdc d)))"
proof -
  let ?n = "key_filename (record_key_of r)"
  have "mset (records_in cdc d') = mset (records_in cdc (dict_put ?n (record_file (sc_dumps cdc r)) d))"
    by (rule journal_same(1) [OF s d(2) distinct_keys_put [OF d(1)]])
  also have "\<dots> = add_mset r (mset (filter (\<lambda>i. key_filename (record_key_of i) \<noteq> ?n) (records_in cdc d)))"
    by (rule records_in_put [OF d(1) load_record_file [OF ok v] key_filename_journal])
  also have "filter (\<lambda>i. key_filename (record_key_of i) \<noteq> ?n) (records_in cdc d) = others r (records_in cdc d)"
    unfolding others_def
    by (rule filter_cong [OF refl]) (metis key_filename_inj record_key_valid records_valid [OF ok] v)
  finally show ?thesis using load_all_records [of cdc d] by (simp add: load_all_records others_def)
qed

lemma save_inv:
  assumes ok: "codec_ok lib cdc" and v: "validate_record lib r = Inr ()" and inv: "store_inv cdc st d"
  shows "store_inv cdc st (fst (save cdc st env r d))"
proof -
  obtain d' res where save: "save cdc st env r d = (d', res)" by fastforce
  from inv have d: "distinct (dict_keys d)" "clean cdc d" and j: "journal_ok st (lr_records (load_all cdc d))"
    by (simp_all add: store_inv_def)
  from ok v d(1) save show ?thesis
  proof (cases rule: save_effect)
    case (kept t)
    note same = journal_same [OF kept(2,3,1) d(1), of cdc]
    from same(1) have "mset (lr_records (load_all cdc d')) = mset (lr_records (load_all cdc d))" by (simp add: load_all_records)
    from journal_ok_mset [OF this] same(2) kept(1) d(2) j show ?thesis by (simp add: save store_inv_def)
  next
    case (stored t)
    have "clean cdc d'"
      using journal_same(2) [OF stored(4,3,1) distinct_keys_put [OF d(1)], of cdc] clean_put [OF d load_record_file [OF ok v]] by simp
    with stored(1) journal_ok_save [OF j stored(5)] journal_ok_mset [OF stored_records [OF ok v d(1) stored(1,4,3)]]
    show ?thesis by (simp add: save store_inv_def)
  qed
qed

lemma load_valid:
  assumes "codec_ok lib cdc" "load cdc d k = Inr (Some r)"
  shows "validate_record lib r = Inr ()"
proof -
  obtain f where "load_path cdc (key_filename k) f = Inr r"
    using assms(2) unfolding load_def by (cases "dict_get d (key_filename k)") (auto simp: map_res_Inr_iff split: if_splits)
  then have "parse_record cdc (rf_data f) = Inr r" by (simp add: load_path_Inr)
  then show ?thesis by (rule parse_valid [OF assms(1)])
qed

lemma store_transition_inv:
  assumes "codec_ok lib cdc" "store_inv cdc st d"
  shows "store_inv cdc st (fst (store_transition lib cdc st env k s now us d))"
proof -
  have "validate_record lib c = Inr ()" if "load cdc d k = Inr (Some r)" "transition lib r s now us = Inr c" for r c
    using that(2) load_valid [OF assms(1) that(1)] by (cases rule: transition_Inr) simp_all
  then show ?thesis using assms save_inv [OF assms(1) _ assms(2)]
    by (auto simp: store_transition_def case_prod_unfold split: sum.splits option.splits)
qed

lemma reconcile_inv:
  assumes "codec_ok lib cdc"
  shows "store_inv cdc st d \<Longrightarrow> list_all (\<lambda>re. validate_record lib (fst re) = Inr ()) rs \<Longrightarrow> store_inv cdc st (fst (reconcile cdc st rs d))"
proof (induction rs arbitrary: d)
  case (Cons re rs)
  obtain r env where re: "re = (r, env)" by fastforce
  with Cons.prems have "store_inv cdc st (fst (save cdc st env r d))" by (intro save_inv [OF assms]) simp_all
  with Cons re show ?case
    by (cases "save cdc st env r d") (auto split: sum.splits option.splits)
qed simp

text \<open>All that happens to a journal: records are saved, changed and reconciled, with failures and deaths of the process at any point.\<close>

inductive store_run :: "ring_lib \<Rightarrow> 'b record_codec \<Rightarrow> ring_store \<Rightarrow> 'b directory \<Rightarrow> bool" for lib cdc st where
  empty: "store_run lib cdc st []"
| saved: "store_run lib cdc st d \<Longrightarrow> validate_record lib r = Inr () \<Longrightarrow> store_run lib cdc st (fst (save cdc st env r d))"
| changed: "store_run lib cdc st d \<Longrightarrow> store_run lib cdc st (fst (store_transition lib cdc st env k s now us d))"
| reconciled: "store_run lib cdc st d \<Longrightarrow> list_all (\<lambda>re. validate_record lib (fst re) = Inr ()) rs \<Longrightarrow>
    store_run lib cdc st (fst (reconcile cdc st rs d))"

lemma store_run_inv:
  assumes "store_run lib cdc st d" "codec_ok lib cdc" "0 \<le> st_max_active st" "0 \<le> st_max_verified st"
  shows "store_inv cdc st d"
  using assms
proof (induction rule: store_run.induct)
  case empty
  then show ?case by (simp add: store_inv_def journal_ok_def clean_def load_all_def journal_files_def)
qed (simp_all add: save_inv store_transition_inv reconcile_inv)

lemma records_distinct: "distinct (dict_keys d) \<Longrightarrow> distinct (map record_key_of (records_in cdc d))"
proof (induction d)
  case (Cons nf d)
  have "record_key_of r \<noteq> record_key_of i" if "load_path cdc (fst nf) (snd nf) = Inr r" "i \<in> set (records_in cdc d)" for r i
  proof
    assume "record_key_of r = record_key_of i"
    with that(1) have "fst nf = key_filename (record_key_of i)" by (simp add: load_path_Inr)
    with that(2) have "fst nf \<in> set (dict_keys d)" by (force simp: records_in_iff load_path_Inr)
    with Cons.prems show False by simp
  qed
  then have "list_all (\<lambda>r. record_key_of r \<notin> record_key_of ` set (records_in cdc d)) (read_file cdc nf)"
    by (auto simp: read_file_def split: sum.splits)
  with Cons show ?case by (auto simp: records_in_def read_file_def split: sum.splits)
qed (simp add: records_in_def)

text \<open>C10: The journal stays within its limits. Starting from an empty directory, through any sequence of saves, transitions and
  reconciliations, each of which may be refused, fail part way or be cut off by the death of the process, no file of the journal is ever
  corrupt, every record in it is valid and has its own key, no more than \<open>max_active_sessions\<close> records are active and no more than
  \<open>max_verified_sessions\<close> verified and unresolved, no two active records claim the same input, and two revisions of a round are never
  both verified and unresolved.\<close>

theorem ring_store_invariant:
  assumes "codec_ok lib cdc" "create_store max_active max_verified = Inr st" "store_run lib cdc st dir"
    "lr_records (load_all cdc dir) = rs"
  shows "lr_corruptions (load_all cdc dir) = [] \<and> distinct (map record_key_of rs) \<and>
    int (length (filter record_active rs)) \<le> max_active \<and> int (length (filter verified_unresolved rs)) \<le> max_verified \<and>
    (\<forall>a \<in> set rs. validate_record lib a = Inr () \<and> (\<forall>b \<in> set rs. record_key_of a \<noteq> record_key_of b \<longrightarrow>
       (record_active a \<and> record_active b \<longrightarrow> set (jr_local_input_outpoints a) \<inter> set (jr_local_input_outpoints b) = {}) \<and>
       \<not> (same_round a b \<and> verified_unresolved a \<and> verified_unresolved b)))"
proof -
  from assms(2) have st: "st_max_active st = max_active" "st_max_verified st = max_verified" "0 \<le> max_active" "0 \<le> max_verified"
    by (auto simp: create_store_def split: if_splits)
  then have inv: "store_inv cdc st dir" using store_run_inv [OF assms(3,1)] by simp
  then have d: "distinct (dict_keys dir)" "clean cdc dir" and j: "journal_ok st rs" by (simp_all add: store_inv_def assms(4))
  have "distinct (map record_key_of rs)"
    using records_distinct [OF d(1), of cdc] load_all_records [of cdc dir] unfolding assms(4) by (metis mset_eq_imp_distinct_iff mset_map)
  moreover have "validate_record lib a = Inr ()" if "a \<in> set rs" for a
    using that records_valid [OF assms(1)] load_all_set [of cdc dir] unfolding assms(4) by blast
  ultimately show ?thesis using j d(2) unfolding journal_ok_def st(1,2) load_all_clean by blast
qed

text \<open>C6: \<open>save\<close> is atomic. Whatever goes wrong in a call of \<open>save\<close> on a journal without corrupt records, the journal has no corrupt
  record afterwards, and either every record is as it was, or the saved record is in place and every other one as it was. When the call
  returns normally the record is in place; when it is refused, the directory is untouched.\<close>

theorem save_atomic:
  assumes "codec_ok lib cdc" "validate_record lib r = Inr ()" "distinct (dict_keys dir)" "lr_corruptions (load_all cdc dir) = []"
    "save cdc st env r dir = (dir', res)"
  shows "lr_corruptions (load_all cdc dir') = [] \<and>
    ((\<forall>k. validate_key k = Inr () \<longrightarrow> load cdc dir' k = load cdc dir k) \<and> res \<noteq> Some (Inr ()) \<or>
     (\<forall>k. validate_key k = Inr () \<longrightarrow> load cdc dir' k = (if k = record_key_of r then Inr (Some r) else load cdc dir k))) \<and>
    (\<forall>e. res = Some (Inl e) \<and> e \<noteq> OsError \<longrightarrow> dir' = dir)"
proof -
  have c: "clean cdc dir" using assms(4) by (simp add: load_all_clean)
  have refused: "\<forall>e. res = Some (Inl e) \<and> e \<noteq> OsError \<longrightarrow> dir' = dir"
    using assms(5) by (auto simp: save_def write_record_def Let_def split: if_splits sum.splits option.splits save_fault.splits prod.splits)
  from assms(1,2,3,5) have "clean cdc dir' \<and>
    ((\<forall>k. validate_key k = Inr () \<longrightarrow> load cdc dir' k = load cdc dir k) \<and> res \<noteq> Some (Inr ()) \<or>
     (\<forall>k. validate_key k = Inr () \<longrightarrow> load cdc dir' k = (if k = record_key_of r then Inr (Some r) else load cdc dir k)))"
  proof (cases rule: save_effect)
    case (kept t)
    then have "dict_get dir' (key_filename k) = dict_get dir (key_filename k)" for k
      using key_filename_journal unfolding same_but_def by metis
    then have "load cdc dir' k = load cdc dir k" for k by (simp add: load_def)
    with kept(4) journal_same(2) [OF kept(2,3,1) assms(3), of cdc] c show ?thesis by blast
  next
    case (stored t)
    let ?f = "record_file (sc_dumps cdc r)"
    have g: "dict_get dir' (key_filename k) = dict_get (dict_put (key_filename (record_key_of r)) ?f dir) (key_filename k)" for k
      using stored(3,4) key_filename_journal unfolding same_but_def by metis
    have "load cdc dir' k = (if k = record_key_of r then Inr (Some r) else load cdc dir k)" if "validate_key k = Inr ()" for k
      using g [of k] key_filename_inj [OF that record_key_valid [OF assms(2)]] load_record_file [OF assms(1,2)]
      by (auto simp: load_def dict_simps record_file_def map_res_Inr_iff)
    moreover have "clean cdc dir'"
      using journal_same(2) [OF stored(4,3,1) distinct_keys_put [OF assms(3)], of cdc]
        clean_put [OF assms(3) c load_record_file [OF assms(1,2)]] by simp
    ultimately show ?thesis by blast
  qed
  with refused show ?thesis by (simp add: load_all_clean)
qed

text \<open>The limit on verified sessions also refuses the retirement of a session that was never verified: RETIRING counts as verified.\<close>

lemma retirement_needs_slot:
  assumes "jr_state c = RETIRING" "st_max_verified st \<le> int (length (filter verified_unresolved rs))"
  shows "\<exists>e. enforce_limits st c rs = Inl (AntiGriefError e)"
  using assms by (simp add: enforce_limits_def Let_def verified_unresolved_def verified_unresolved_states_def)

section \<open>An example journal\<close>

definition ex_codec :: "ring_record record_codec" where
  "ex_codec = \<lparr>sc_loads = (\<lambda>_. Some (JObj (map (\<lambda>f. (f, if f = ''journal_kind'' then JStr ''private_channel_ring'' else JNull)) record_fields))),
     sc_validate = (\<lambda>raw. case raw of [r] \<Rightarrow> if validate_record ex_zlib r = Inr () then Some r else None | _ \<Rightarrow> None),
     sc_dumps = (\<lambda>r. [r])\<rparr>"

definition ex_store :: ring_store where
  "ex_store = \<lparr>st_max_active = 4, st_max_verified = 2\<rparr>"

definition ex_save_env :: save_env where
  "ex_save_env = \<lparr>se_pid = 7, se_time_ns = 1, se_writes = [1], se_fault = None\<rparr>"

definition ex_journal :: "ring_record directory" where
  "ex_journal = fst (save ex_codec ex_store ex_save_env (ex_record INVITED False False) [])"

lemma ex_codec_ok: "codec_ok ex_zlib ex_codec"
proof -
  let ?items = "map (\<lambda>f. (f, if f = ''journal_kind'' then JStr ''private_channel_ring'' else JNull)) record_fields"
  have k: "dict_keys ?items = record_fields" by (simp add: comp_def)
  have "distinct record_fields" by code_simp
  then have "\<not> duplicate_json_keys (JObj ?items)" by (auto simp: k simp del: map_map split: if_splits)
  moreover have "''journal_kind'' \<in> set record_fields" by (simp add: record_fields_def)
  then have "dict_get ?items ''journal_kind'' = Some (JStr ''private_channel_ring'')" by (simp add: map_of_map_restrict)
  then have "journal_fields_ok ?items" unfolding journal_fields_ok_def k by simp
  moreover have "sc_loads ex_codec raw = Some (JObj ?items)" for raw by (simp add: ex_codec_def)
  moreover have "sc_validate ex_codec (sc_dumps ex_codec r) = Some r" if "validate_record ex_zlib r = Inr ()" for r
    using that by (simp add: ex_codec_def)
  moreover have "validate_record ex_zlib r = Inr ()" if "sc_validate ex_codec raw = Some r" for raw r
    using that by (simp add: ex_codec_def split: list.splits if_splits)
  ultimately show ?thesis unfolding codec_ok_def by blast
qed

lemma ex_invited_valid: "validate_record ex_zlib (ex_record INVITED False False) = Inr ()"
  by (rule ex_record_valid) simp_all

lemma ex_save: "save ex_codec ex_store ex_save_env (ex_record INVITED False False) [] = (ex_journal, Some (Inr ()))"
proof -
  have e: "load_all ex_codec [] = \<lparr>lr_records = [], lr_corruptions = []\<rparr>" by (simp add: load_all_def journal_files_def)
  have l: "enforce_limits ex_store r [] = Inr ()" for r by (simp add: enforce_limits_def ex_store_def)
  have d: "sc_dumps ex_codec r = [r]" for r by (simp add: ex_codec_def)
  have w: "snd (write_record ex_save_env n [r :: ring_record] []) = Some (Inr ())" for n r
    by (simp add: write_record_def save_ops_def ex_save_env_def Let_def)
  have "snd (save ex_codec ex_store ex_save_env (ex_record INVITED False False) []) = Some (Inr ())"
    by (simp add: save_def e l d w)
  then show ?thesis by (simp add: ex_journal_def prod_eq_iff)
qed

theorem ring_store_invariant_witness:
  "lr_corruptions (load_all ex_codec ex_journal) = [] \<and>
   int (length (filter record_active (lr_records (load_all ex_codec ex_journal)))) \<le> 4"
proof -
  have "create_store 4 2 = Inr ex_store" by (simp add: create_store_def ex_store_def)
  moreover have "store_run ex_zlib ex_codec ex_store ex_journal"
    unfolding ex_journal_def by (intro store_run.intros ex_invited_valid)
  ultimately show ?thesis using ring_store_invariant [OF ex_codec_ok _ _ refl] by blast
qed

theorem save_atomic_witness:
  "load ex_codec ex_journal (record_key_of (ex_record INVITED False False)) = Inr (Some (ex_record INVITED False False))"
proof -
  have "lr_corruptions (load_all ex_codec []) = []" "distinct (dict_keys ([] :: ring_record directory))"
    by (simp_all add: load_all_def journal_files_def)
  from save_atomic [OF ex_codec_ok ex_invited_valid this(2,1) ex_save] record_key_valid [OF ex_invited_valid]
  show ?thesis by auto
qed

end
