(* ===== verification/Taker_Orderbook.thy ===== *)
theory Taker_Orderbook
  imports Complex_Main Jm_Offers Jm_Protocol Py_Dict
begin

text \<open>
  The choice of makers: \<open>taker/src/taker/orderbook.py\<close> with the fee grid of \<open>jmcore/fee_quantization.py\<close>.
  Offers are filtered by type, size, features and fee, reduced to the cheapest per maker and per fidelity bond, and drawn
  at random; a sweep solves for the amount. The random generator and the arithmetic on floats are parameters. A set that only serves membership tests is a HOL set.
\<close>

section \<open>Random draws\<close>

text \<open>\<open>secure_random\<close>: \<open>random()\<close>, \<open>uniform(0, total)\<close> and a number from which \<open>choice\<close> and \<open>sample\<close> make an index
  below a bound.\<close>

record 'r market_random =
  mr_random :: "'r \<Rightarrow> rat \<times> 'r"
  mr_uniform :: "rat \<Rightarrow> 'r \<Rightarrow> rat \<times> 'r"
  mr_bits :: "'r \<Rightarrow> nat \<times> 'r"

text \<open>Arithmetic on floats: \<open>x ** y\<close>, \<open>x + y\<close> and \<open>sum\<close>.\<close>

record float_ops =
  fo_pow :: "rat \<Rightarrow> rat \<Rightarrow> rat"
  fo_add :: "rat \<Rightarrow> rat \<Rightarrow> rat"
  fo_sum :: "rat list \<Rightarrow> rat"

type_synonym ('r, 'a) drawn = "'r \<Rightarrow> ('a \<times> 'r) res"

definition bind_draw :: "('r, 'a) drawn \<Rightarrow> ('a \<Rightarrow> ('r, 'b) drawn) \<Rightarrow> ('r, 'b) drawn" where
  "bind_draw m f r = bind_res (m r) (\<lambda>(x, r). f x r)"

definition return_draw :: "'a \<Rightarrow> ('r, 'a) drawn" where
  "return_draw x r = Inr (x, r)"

definition lift_draw :: "'a res \<Rightarrow> ('r, 'a) drawn" where
  "lift_draw m r = map_res (\<lambda>x. (x, r)) m"

definition randbelow :: "'r market_random \<Rightarrow> nat \<Rightarrow> ('r, nat) drawn" where
  "randbelow rng n r = (case mr_bits rng r of (b, r) \<Rightarrow> Inr (b mod n, r))"

definition random_choice :: "'r market_random \<Rightarrow> 'a list \<Rightarrow> ('r, 'a) drawn" where
  "random_choice rng xs = (if xs = [] then lift_draw (Inl IndexError) else bind_draw (randbelow rng (length xs)) (\<lambda>i. return_draw (xs ! i)))"

fun random_sample :: "'r market_random \<Rightarrow> 'a list \<Rightarrow> nat \<Rightarrow> ('r, 'a list) drawn" where
  "random_sample rng xs 0 = return_draw []"
| "random_sample rng xs (Suc k) =
     (if length xs < Suc k then lift_draw (Inl (ValueError ''Sample larger than population or is negative''))
      else bind_draw (randbelow rng (length xs)) (\<lambda>i.
           bind_draw (random_sample rng (take i xs @ drop (Suc i) xs) k) (\<lambda>ys. return_draw (xs ! i # ys))))"

section \<open>The fee grid\<close>

definition dec_rat :: "decimal \<Rightarrow> rat" where
  "dec_rat d = (let v = (if 0 \<le> d_exp d then of_nat (d_coeff d * 10 ^ nat (d_exp d)) else of_nat (d_coeff d) / of_nat (10 ^ nat (- d_exp d)))
                in if d_neg d then - v else v)"

text \<open>\<open>str\<close> of a \<open>Decimal\<close>.\<close>

definition dec_str :: "decimal \<Rightarrow> string" where
  "dec_str d =
     (let ds = nat_digits (d_coeff d); leftdigits = d_exp d + int (length ds);
          dotplace = (if d_exp d \<le> 0 \<and> - 6 < leftdigits then leftdigits else 1);
          body = (if dotplace \<le> 0 then ''0.'' @ replicate (nat (- dotplace)) (CHR ''0'') @ ds
                  else if int (length ds) \<le> dotplace then ds @ replicate (nat dotplace - length ds) (CHR ''0'')
                  else take (nat dotplace) ds @ ''.'' @ drop (nat dotplace) ds);
          exponent = (if leftdigits = dotplace then [] else
             ''E'' @ (if leftdigits - dotplace < 0 then [] else ''+'') @ str_of_int (leftdigits - dotplace))
      in (if d_neg d then ''-'' else []) @ body @ exponent)"

definition grid_dec :: "nat \<Rightarrow> nat \<Rightarrow> decimal" where
  "grid_dec c k = \<lparr>d_neg = False, d_coeff = c, d_exp = - int k\<rparr>"

definition QUANT_REL :: "decimal list" where
  "QUANT_REL = [grid_dec 2 5, grid_dec 5 5, grid_dec 1 4, grid_dec 2 4, grid_dec 5 4, grid_dec 1 3, grid_dec 2 3, grid_dec 5 3,
     grid_dec 1 2, grid_dec 2 2, grid_dec 5 2, grid_dec 1 1]"

definition QUANT_ABS :: "int list" where
  "QUANT_ABS = [0, 100, 200, 500, 1000, 2000, 5000, 10000]"

definition quantize_rel_up :: "decimal \<Rightarrow> decimal option" where
  "quantize_rel_up d = find (\<lambda>q. dec_rat d \<le> dec_rat q) QUANT_REL"

definition quantize_abs_up :: "int \<Rightarrow> int option" where
  "quantize_abs_up fee = find (\<lambda>q. fee \<le> q) QUANT_ABS"

fun last_below :: "('a \<Rightarrow> bool) \<Rightarrow> 'a list \<Rightarrow> 'a option \<Rightarrow> 'a option" where
  "last_below le [] best = best"
| "last_below le (q # qs) best = (if le q then last_below le qs (Some q) else best)"

definition quantize_rel_down :: "decimal \<Rightarrow> decimal option" where
  "quantize_rel_down d = last_below (\<lambda>q. dec_rat q \<le> dec_rat d) QUANT_REL None"

definition quantize_abs_down :: "int \<Rightarrow> int option" where
  "quantize_abs_down fee = last_below (\<lambda>q. q \<le> fee) QUANT_ABS None"

definition rel_quantum_to_sats :: "decimal \<Rightarrow> int \<Rightarrow> int res" where
  "rel_quantum_to_sats q cj_amount =
     (case quantize_int ((dec_mult_nat q (nat \<bar>cj_amount\<bar>))\<lparr>d_neg := (cj_amount < 0)\<rparr>) of None \<Rightarrow> Inl InvalidOperation | Some v \<Rightarrow> Inr v)"

section \<open>Offers\<close>

text \<open>A value of the dictionary \<open>fidelity_bond_data\<close>; of one that is neither text nor a number only its \<open>str\<close> matters.\<close>

datatype bond_item = Bond_text string | Bond_int int | Bond_bool bool | Bond_other string

fun bond_item_str :: "bond_item \<Rightarrow> string" where
  "bond_item_str (Bond_text s) = s"
| "bond_item_str (Bond_int n) = str_of_int n"
| "bond_item_str (Bond_bool b) = (if b then ''True'' else ''False'')"
| "bond_item_str (Bond_other s) = s"

fun bond_item_is_int :: "bond_item \<Rightarrow> bool" where
  "bond_item_is_int (Bond_int _) = True"
| "bond_item_is_int (Bond_bool _) = True"
| "bond_item_is_int _ = False"

record market_offer = offer +
  fidelity_bond_data :: "(string, bond_item) dict option"
  neutrino_compat :: bool
  offer_features :: "(string, bool) dict"

record max_cj_fee =
  mf_abs_fee :: int
  mf_rel_fee :: string

definition has_bond :: "market_offer \<Rightarrow> bool" where
  "has_bond ofr \<longleftrightarrow> fidelity_bond_data ofr \<noteq> None \<and> fidelity_bond_data ofr \<noteq> Some [] \<and> 0 < fidelity_bond_value ofr"

definition maker_nick_selection_key :: "string \<Rightarrow> string" where
  "maker_nick_selection_key nick = ''nick:'' @ nick"

definition maker_selection_keys :: "market_offer \<Rightarrow> string set" where
  "maker_selection_keys ofr =
     insert (maker_nick_selection_key (counterparty ofr))
       (if \<not> has_bond ofr then {}
        else case (dict_get (the (fidelity_bond_data ofr)) ''utxo_txid'', dict_get (the (fidelity_bond_data ofr)) ''utxo_vout'') of
          (Some (Bond_text txid), Some vout) \<Rightarrow>
             if bond_item_is_int vout then {''bond:'' @ txid @ '':'' @ bond_item_str vout} else {}
        | _ \<Rightarrow> {})"

definition relative_policy :: "market_offer \<Rightarrow> decimal res" where
  "relative_policy ofr = (case py_decimal (str_of_fee (cjfee ofr)) of None \<Rightarrow> Inl InvalidOperation | Some d \<Rightarrow> Inr d)"

definition is_quantized_cj_fee :: "market_offer \<Rightarrow> bool res" where
  "is_quantized_cj_fee ofr =
     (if is_absolute_offer_type (ordertype ofr) then map_res (\<lambda>fee. fee \<in> set QUANT_ABS) (int_of_fee (cjfee ofr))
      else map_res (\<lambda>d. dec_rat d \<in> set (map dec_rat QUANT_REL)) (relative_policy ofr))"

datatype fee_policy = Abs_policy int | Rel_policy decimal

definition paid_fee_policy :: "market_offer \<Rightarrow> bool \<Rightarrow> fee_policy option res" where
  "paid_fee_policy ofr round_up =
     (if is_absolute_offer_type (ordertype ofr) then
        map_res (\<lambda>fee. map_option Abs_policy (if round_up then quantize_abs_up fee else Some fee)) (int_of_fee (cjfee ofr))
      else map_res (\<lambda>d. map_option Rel_policy (if round_up then quantize_rel_up d else Some d)) (relative_policy ofr))"

definition policy_fee :: "int \<Rightarrow> fee_policy \<Rightarrow> int res" where
  "policy_fee cj_amount p = (case p of Abs_policy fee \<Rightarrow> Inr fee | Rel_policy d \<Rightarrow> calculate_relative_fee cj_amount (dec_str d))"

definition taker_cj_fee :: "market_offer \<Rightarrow> int \<Rightarrow> bool \<Rightarrow> int res" where
  "taker_cj_fee ofr cj_amount round_up =
     bind_res (paid_fee_policy ofr round_up) (\<lambda>policy.
       case policy of None \<Rightarrow> Inl (ValueError ''Offer has no upper fee quantum'') | Some p \<Rightarrow> policy_fee cj_amount p)"

definition calculate_cj_fee_plan :: "market_offer list \<Rightarrow> int \<Rightarrow> bool \<Rightarrow> bool \<Rightarrow> (string, int) dict res" where
  "calculate_cj_fee_plan offers cj_amount round_up equalize =
     bind_res (mapM_res (\<lambda>ofr. taker_cj_fee ofr cj_amount round_up) offers) (\<lambda>fs.
       let fees = dict_of (zip (map counterparty offers) fs) [] in
       Inr (if equalize \<and> fees \<noteq> [] then map (\<lambda>kv. (fst kv, Max (snd ` set fees))) fees else fees))"

definition plan_total :: "(string, int) dict \<Rightarrow> int" where
  "plan_total plan = sum_list (map snd plan)"

function equalized_search :: "market_offer list \<Rightarrow> int \<Rightarrow> bool \<Rightarrow> int \<Rightarrow> int \<Rightarrow> int \<Rightarrow> int res" where
  "equalized_search offers available round_up low high result =
     (if low \<le> high then
        let candidate = (low + high) div 2 in
        bind_res (calculate_cj_fee_plan offers candidate round_up True) (\<lambda>plan.
          if candidate + plan_total plan \<le> available
          then equalized_search offers available round_up (candidate + 1) high candidate
          else equalized_search offers available round_up low (candidate - 1) result)
      else Inr result)"
  by pat_completeness auto
termination
  by (relation "measure (\<lambda>(_, _, _, low, high, _). nat (high - low + 1))") auto

declare equalized_search.simps [simp del]

definition calculate_equalized_sweep_amount :: "market_offer list \<Rightarrow> int \<Rightarrow> bool \<Rightarrow> int res" where
  "calculate_equalized_sweep_amount offers available round_up = equalized_search offers available round_up 0 (max available 0) 0"

definition is_fee_within_limits :: "market_offer \<Rightarrow> max_cj_fee \<Rightarrow> bool \<Rightarrow> bool res" where
  "is_fee_within_limits ofr limits round_up =
     bind_res (paid_fee_policy ofr round_up) (\<lambda>policy.
       case policy of
         None \<Rightarrow> Inr False
       | Some (Abs_policy fee) \<Rightarrow> Inr (fee \<le> mf_abs_fee limits)
       | Some (Rel_policy d) \<Rightarrow>
           (case py_decimal (mf_rel_fee limits) of None \<Rightarrow> Inl InvalidOperation | Some m \<Rightarrow> Inr (dec_rat d \<le> dec_rat m)))"

section \<open>Filters\<close>

record selection_rules =
  sr_max_fee :: max_cj_fee
  sr_ignored :: "string set"
  sr_allowed :: "offer_type set option"
  sr_min_nick_version :: "int option"
  sr_required :: "string list"
  sr_quantized :: bool
  sr_round_up :: bool

definition allowed_types :: "selection_rules \<Rightarrow> offer_type set" where
  "allowed_types rules = (case sr_allowed rules of None \<Rightarrow> {SW0_RELATIVE, SW0_ABSOLUTE} | Some ts \<Rightarrow> ts)"

definition known_missing_feature :: "string list \<Rightarrow> market_offer \<Rightarrow> bool" where
  "known_missing_feature required ofr \<longleftrightarrow>
     offer_features ofr \<noteq> [] \<and> list_ex (\<lambda>f. dict_get (offer_features ofr) f \<noteq> Some True) required"

text \<open>One round of the loop of \<open>filter_offers\<close>: whether the offer is kept. The fee of an offer beyond the limits is computed for the
  log, which can raise.\<close>

definition offer_eligible :: "selection_rules \<Rightarrow> int \<Rightarrow> market_offer \<Rightarrow> bool res" where
  "offer_eligible rules cj_amount ofr =
     (if counterparty ofr \<in> sr_ignored rules then Inr False
      else bind_res (case sr_min_nick_version rules of None \<Rightarrow> Inr False | Some v \<Rightarrow> map_res (\<lambda>k. k < v) (get_nick_version (counterparty ofr))) (\<lambda>old.
      if old then Inr False
      else if known_missing_feature (sr_required rules) ofr then Inr False
      else if ordertype ofr \<notin> allowed_types rules then Inr False
      else bind_res (if sr_quantized rules then is_quantized_cj_fee ofr else Inr True) (\<lambda>on_grid.
        if \<not> on_grid then Inr False
        else if cj_amount < minsize ofr then Inr False
        else if maxsize ofr < cj_amount then Inr False
        else bind_res (is_fee_within_limits ofr (sr_max_fee rules) (sr_round_up rules)) (\<lambda>affordable.
          if affordable then Inr True
          else bind_res (paid_fee_policy ofr (sr_round_up rules)) (\<lambda>policy.
            if policy = None then Inr False
            else map_res (\<lambda>_. False) (taker_cj_fee ofr cj_amount (sr_round_up rules)))))))"

definition filter_offers :: "selection_rules \<Rightarrow> int \<Rightarrow> market_offer list \<Rightarrow> market_offer list res" where
  "filter_offers rules cj_amount offers =
     map_res (\<lambda>keep. map fst (filter snd (zip offers keep))) (mapM_res (offer_eligible rules cj_amount) offers)"

text \<open>The elements of a list under their keys, in the order in which the keys appear.\<close>

fun group_by :: "('a \<Rightarrow> 'k) \<Rightarrow> 'a list \<Rightarrow> ('k, 'a list) dict \<Rightarrow> ('k, 'a list) dict" where
  "group_by key [] acc = acc"
| "group_by key (x # xs) acc =
     group_by key xs (dict_put (key x) ((case dict_get acc (key x) of None \<Rightarrow> [] | Some ys \<Rightarrow> ys) @ [x]) acc)"

text \<open>\<open>sorted(offers, key=fee)\<close> and its first element.\<close>

definition sorted_by_fee :: "('a \<Rightarrow> int res) \<Rightarrow> 'a list \<Rightarrow> 'a list res" where
  "sorted_by_fee fee offers = map_res (\<lambda>fs. map snd (sort_key fst (zip fs offers))) (mapM_res fee offers)"

definition cheapest :: "('a \<Rightarrow> int res) \<Rightarrow> 'a list \<Rightarrow> 'a res" where
  "cheapest fee offers = bind_res (sorted_by_fee fee offers) (\<lambda>xs. case xs of [] \<Rightarrow> Inl IndexError | x # _ \<Rightarrow> Inr x)"

definition dedupe_offers_by_maker :: "market_offer list \<Rightarrow> int \<Rightarrow> bool \<Rightarrow> market_offer list res" where
  "dedupe_offers_by_maker offers cj_amount round_up =
     mapM_res (\<lambda>kv. cheapest (\<lambda>ofr. taker_cj_fee ofr cj_amount round_up) (snd kv)) (group_by counterparty offers [])"

definition bond_key :: "market_offer \<Rightarrow> string option res" where
  "bond_key ofr =
     (if \<not> has_bond ofr then Inr None
      else case (dict_get (the (fidelity_bond_data ofr)) ''utxo_txid'', dict_get (the (fidelity_bond_data ofr)) ''utxo_vout'') of
        (Some txid, Some vout) \<Rightarrow> Inr (Some (bond_item_str txid @ '':'' @ bond_item_str vout))
      | _ \<Rightarrow> Inl KeyError)"

definition dedupe_offers_by_bond :: "market_offer list \<Rightarrow> int \<Rightarrow> bool \<Rightarrow> market_offer list res" where
  "dedupe_offers_by_bond offers cj_amount round_up =
     bind_res (mapM_res bond_key offers) (\<lambda>keys.
       let keyed = zip keys offers; bonded = filter (\<lambda>ko. fst ko \<noteq> None) keyed; unbonded = filter (\<lambda>ko. fst ko = None) keyed in
       map_res (\<lambda>kept. kept @ map snd unbonded)
         (mapM_res (\<lambda>kv. cheapest (\<lambda>ofr. taker_cj_fee ofr cj_amount round_up) (map snd (snd kv))) (group_by fst bonded [])))"

definition offer_confirms_features :: "market_offer \<Rightarrow> string list \<Rightarrow> bool" where
  "offer_confirms_features ofr required \<longleftrightarrow>
     list_all (\<lambda>f. dict_get (offer_features ofr) f = Some True \<or> f = FEATURE_NEUTRINO_COMPAT \<and> neutrino_compat ofr) required"

definition offer_supports_private_channel_ring :: "market_offer \<Rightarrow> bool" where
  "offer_supports_private_channel_ring ofr \<longleftrightarrow> dict_get (offer_features ofr) FEATURE_PRIVATE_CHANNEL_RING = Some True"

definition prefer_offers_with_confirmed_features :: "market_offer list \<Rightarrow> nat \<Rightarrow> string list \<Rightarrow> market_offer list" where
  "prefer_offers_with_confirmed_features offers n required =
     (if required = [] then offers
      else let confirmed = filter (\<lambda>ofr. offer_confirms_features ofr required) offers in
        if length confirmed < length offers \<and> n \<le> length confirmed then confirmed else offers)"

section \<open>Choosers\<close>

definition random_order_choose :: "'r market_random \<Rightarrow> market_offer list \<Rightarrow> nat \<Rightarrow> ('r, market_offer list) drawn" where
  "random_order_choose rng offers n = (if length offers \<le> n then return_draw offers else random_sample rng offers n)"

definition one_btc :: int where "one_btc = 100000000"

definition cheapest_order_choose :: "int \<Rightarrow> market_offer list \<Rightarrow> nat \<Rightarrow> ('r, market_offer list) drawn" where
  "cheapest_order_choose cj_amount offers n =
     (let amount = (if cj_amount = 0 then one_btc else cj_amount) in
      lift_draw (map_res (take n) (sorted_by_fee (\<lambda>ofr. taker_cj_fee ofr amount False) offers)))"

fun first_reaching :: "(rat \<Rightarrow> rat \<Rightarrow> rat) \<Rightarrow> rat \<Rightarrow> rat \<Rightarrow> rat list \<Rightarrow> nat option" where
  "first_reaching add r c [] = None"
| "first_reaching add r c (w # ws) = (if r \<le> add c w then Some 0 else map_option Suc (first_reaching add r (add c w) ws))"

fun weighted_draws :: "float_ops \<Rightarrow> 'r market_random \<Rightarrow> nat \<Rightarrow> (rat \<times> 'a) list \<Rightarrow> ('r, 'a list) drawn" where
  "weighted_draws fo rng 0 remaining r = Inr ([], r)"
| "weighted_draws fo rng (Suc k) remaining r =
     (if remaining = [] then Inr ([], r)
      else case mr_uniform rng (fo_sum fo (map fst remaining)) r of (u, r) \<Rightarrow>
        (case first_reaching (fo_add fo) u 0 (map fst remaining) of
           None \<Rightarrow> weighted_draws fo rng k remaining r
         | Some i \<Rightarrow> map_res (\<lambda>(xs, r). (snd (remaining ! i) # xs, r))
             (weighted_draws fo rng k (take i remaining @ drop (Suc i) remaining) r)))"

definition weighted_order_choose ::
  "float_ops \<Rightarrow> 'r market_random \<Rightarrow> int \<Rightarrow> rat \<Rightarrow> market_offer list \<Rightarrow> nat \<Rightarrow> ('r, market_offer list) drawn" where
  "weighted_order_choose fo rng cj_amount exponent offers n =
     (if length offers \<le> n then return_draw offers
      else let amount = (if cj_amount = 0 then one_btc else cj_amount) in
        bind_draw (lift_draw (mapM_res (\<lambda>ofr. taker_cj_fee ofr amount False) offers)) (\<lambda>fees.
          let weights = map (\<lambda>fee. fo_pow fo (of_int (Max (set fees) - fee + 1)) exponent) fees in
          if fo_sum fo weights = 0 then random_sample rng offers n
          else weighted_draws fo rng n (zip weights offers)))"

definition is_nonzero_cj_fee :: "market_offer \<Rightarrow> bool res" where
  "is_nonzero_cj_fee ofr = map_res (\<lambda>d. d_coeff d \<noteq> 0) (relative_policy ofr)"

definition pick_weighted_bonded :: "'r market_random \<Rightarrow> market_offer list \<Rightarrow> ('r, market_offer option) drawn" where
  "pick_weighted_bonded rng pool r =
     (let bonded = filter (\<lambda>ofr. 0 < fidelity_bond_value ofr) pool in
      if bonded = [] then Inr (None, r)
      else case mr_uniform rng (of_int (sum_list (map fidelity_bond_value bonded))) r of (u, r) \<Rightarrow>
        Inr (Some (case first_reaching (+) u 0 (map (of_int \<circ> fidelity_bond_value) bonded) of
                     Some i \<Rightarrow> bonded ! i | None \<Rightarrow> last bonded), r))"

definition without_res :: "('a \<Rightarrow> bool res) \<Rightarrow> 'a list \<Rightarrow> 'a list res" where
  "without_res bad xs = map_res (\<lambda>bs. map fst (filter (\<lambda>xb. \<not> snd xb) (zip xs bs))) (mapM_res bad xs)"

definition pick_allowance :: "'r market_random \<Rightarrow> bool \<Rightarrow> market_offer list \<Rightarrow> ('r, market_offer option) drawn" where
  "pick_allowance rng zero_fee remaining =
     bind_draw (lift_draw (if zero_fee then without_res is_nonzero_cj_fee remaining else Inr remaining)) (\<lambda>pool.
       if pool = [] then return_draw None else bind_draw (random_choice rng pool) (\<lambda>ofr. return_draw (Some ofr)))"

text \<open>One slot: the pool is drawn first, and the other pool is tried when it is empty.\<close>

definition pick_slot :: "'r market_random \<Rightarrow> rat \<Rightarrow> bool \<Rightarrow> market_offer list \<Rightarrow> ('r, market_offer option) drawn" where
  "pick_slot rng allowance zero_fee remaining =
     bind_draw (\<lambda>r. case mr_random rng r of (u, r) \<Rightarrow> Inr (u < allowance, r)) (\<lambda>slot.
     bind_draw (if slot then pick_allowance rng zero_fee remaining else pick_weighted_bonded rng remaining) (\<lambda>first.
       if first \<noteq> None then return_draw first
       else if slot then pick_weighted_bonded rng remaining else pick_allowance rng zero_fee remaining))"

fun bond_draws :: "'r market_random \<Rightarrow> rat \<Rightarrow> bool \<Rightarrow> nat \<Rightarrow> market_offer list \<Rightarrow> ('r, market_offer list) drawn" where
  "bond_draws rng allowance zero_fee 0 remaining = return_draw []"
| "bond_draws rng allowance zero_fee (Suc k) remaining =
     (if remaining = [] then return_draw []
      else bind_draw (pick_slot rng allowance zero_fee remaining) (\<lambda>picked.
        case picked of
          None \<Rightarrow> return_draw []
        | Some ofr \<Rightarrow> bind_draw (bond_draws rng allowance zero_fee k (remove1 ofr remaining)) (\<lambda>rest. return_draw (ofr # rest))))"

definition bondless_fee :: "market_offer \<Rightarrow> bool res" where
  "bondless_fee ofr = (if fidelity_bond_value ofr = 0 then is_nonzero_cj_fee ofr else Inr False)"

definition fidelity_bond_weighted_choose ::
  "'r market_random \<Rightarrow> rat \<Rightarrow> bool \<Rightarrow> market_offer list \<Rightarrow> nat \<Rightarrow> ('r, market_offer list) drawn" where
  "fidelity_bond_weighted_choose rng allowance zero_fee offers n =
     bind_draw (lift_draw (if zero_fee then without_res bondless_fee offers else Inr offers)) (\<lambda>remaining.
       if length remaining \<le> n then return_draw remaining else bond_draws rng allowance zero_fee n remaining)"

definition MAX_REPEAT_PENALTY_DRAWS :: nat where "MAX_REPEAT_PENALTY_DRAWS = 64"

definition is_repeat :: "string set \<Rightarrow> market_offer \<Rightarrow> bool" where
  "is_repeat penalized ofr \<longleftrightarrow> maker_selection_keys ofr \<inter> penalized \<noteq> {}"

definition avoidable_overlap :: "string set \<Rightarrow> market_offer list \<Rightarrow> market_offer list \<Rightarrow> nat" where
  "avoidable_overlap penalized offers selected =
     (let fresh = length (filter (\<lambda>ofr. \<not> is_repeat penalized ofr) offers) in
      length (filter (is_repeat penalized) selected) - (length selected - fresh))"

fun penalty_draws ::
  "float_ops \<Rightarrow> 'r market_random \<Rightarrow> (market_offer list \<Rightarrow> nat \<Rightarrow> ('r, market_offer list) drawn) \<Rightarrow> string set \<Rightarrow> rat \<Rightarrow>
   market_offer list \<Rightarrow> nat \<Rightarrow> nat \<Rightarrow> market_offer list \<Rightarrow> ('r, market_offer list) drawn" where
  "penalty_draws fo rng chooser penalized penalty offers n 0 selected = return_draw selected"
| "penalty_draws fo rng chooser penalized penalty offers n (Suc k) _ =
     bind_draw (chooser offers n) (\<lambda>selected.
     bind_draw (\<lambda>r. Inr (mr_random rng r)) (\<lambda>u.
       if u \<le> fo_pow fo penalty (of_nat (avoidable_overlap penalized offers selected)) then return_draw selected
       else penalty_draws fo rng chooser penalized penalty offers n k selected))"

definition choose_with_repeat_penalty ::
  "float_ops \<Rightarrow> 'r market_random \<Rightarrow> (market_offer list \<Rightarrow> nat \<Rightarrow> ('r, market_offer list) drawn) \<Rightarrow> string set \<Rightarrow> rat \<Rightarrow>
   market_offer list \<Rightarrow> nat \<Rightarrow> ('r, market_offer list) drawn" where
  "choose_with_repeat_penalty fo rng chooser penalized penalty offers n =
     (if \<not> (0 < penalty \<and> penalty \<le> 1) then lift_draw (Inl (ValueError ''repeat_penalty must be in the interval (0, 1]''))
      else if penalized = {} \<or> penalty = 1 then chooser offers n
      else penalty_draws fo rng chooser penalized penalty offers n MAX_REPEAT_PENALTY_DRAWS [])"

section \<open>Selection\<close>

type_synonym 'r chooser = "market_offer list \<Rightarrow> nat \<Rightarrow> ('r, market_offer list) drawn"

text \<open>What the two selections share: filter, cheapest per maker, cheapest per bond, confirmed features first.\<close>

definition candidate_offers :: "selection_rules \<Rightarrow> market_offer list \<Rightarrow> int \<Rightarrow> nat \<Rightarrow> market_offer list res" where
  "candidate_offers rules offers cj_amount n =
     bind_res (filter_offers rules cj_amount offers) (\<lambda>eligible.
     bind_res (dedupe_offers_by_maker eligible cj_amount (sr_round_up rules)) (\<lambda>by_maker.
     map_res (\<lambda>by_bond. prefer_offers_with_confirmed_features by_bond n (sr_required rules))
       (dedupe_offers_by_bond by_maker cj_amount (sr_round_up rules))))"

definition selection_of :: "market_offer list \<Rightarrow> (string, market_offer) dict" where
  "selection_of selected = dict_of (map (\<lambda>ofr. (counterparty ofr, ofr)) selected) []"

record repeat_policy =
  rp_penalized :: "string set"
  rp_penalty :: rat

definition choose_orders ::
  "float_ops \<Rightarrow> 'r market_random \<Rightarrow> 'r chooser \<Rightarrow> selection_rules \<Rightarrow> repeat_policy \<Rightarrow> bool \<Rightarrow> market_offer list \<Rightarrow> int \<Rightarrow> nat \<Rightarrow>
   ('r, (string, market_offer) dict \<times> int) drawn" where
  "choose_orders fo rng chooser rules policy equalize offers cj_amount n =
     bind_draw (lift_draw (candidate_offers rules offers cj_amount n)) (\<lambda>deduped.
     bind_draw (choose_with_repeat_penalty fo rng chooser (rp_penalized policy) (rp_penalty policy) deduped (min n (length deduped))) (\<lambda>selected.
     lift_draw (map_res (\<lambda>plan. (selection_of selected, plan_total plan))
       (calculate_cj_fee_plan selected cj_amount (sr_round_up rules) equalize))))"

text \<open>The fees of the selected offers as the sweep needs them: the sum of the absolute ones and the texts of the relative ones.\<close>

fun split_fees :: "bool \<Rightarrow> market_offer list \<Rightarrow> (int \<times> string list) res" where
  "split_fees round_up [] = Inr (0, [])"
| "split_fees round_up (ofr # rest) =
     bind_res (paid_fee_policy ofr round_up) (\<lambda>policy.
       case policy of
         None \<Rightarrow> Inl AssertionError
       | Some (Abs_policy fee) \<Rightarrow> map_res (\<lambda>(s, rs). (fee + s, rs)) (split_fees round_up rest)
       | Some (Rel_policy d) \<Rightarrow> map_res (\<lambda>(s, rs). (s, dec_str d # rs)) (split_fees round_up rest))"

definition sweep_cj_amount :: "bool \<Rightarrow> bool \<Rightarrow> market_offer list \<Rightarrow> int \<Rightarrow> int res" where
  "sweep_cj_amount round_up equalize selected funds =
     (if equalize then calculate_equalized_sweep_amount selected funds round_up
      else bind_res (split_fees round_up selected) (\<lambda>(sum_abs, rel_fees). calculate_sweep_amount (funds - sum_abs) rel_fees))"

definition choose_sweep_orders ::
  "float_ops \<Rightarrow> 'r market_random \<Rightarrow> 'r chooser \<Rightarrow> selection_rules \<Rightarrow> repeat_policy \<Rightarrow> bool \<Rightarrow> market_offer list \<Rightarrow> int \<Rightarrow> int \<Rightarrow> nat \<Rightarrow>
   ('r, (string, market_offer) dict \<times> int \<times> int) drawn" where
  "choose_sweep_orders fo rng chooser rules policy equalize offers total_input my_txfee n =
     bind_draw (lift_draw (calculate_sweep_amount (total_input - my_txfee) (replicate n ''0.001''))) (\<lambda>estimated.
     bind_draw (lift_draw (candidate_offers rules offers estimated n)) (\<lambda>deduped.
     if deduped = [] \<or> n = 0 then return_draw ([], 0, 0)
     else
       bind_draw (choose_with_repeat_penalty fo rng chooser (rp_penalized policy) (rp_penalty policy) deduped (min n (length deduped))) (\<lambda>selected.
       bind_draw (lift_draw (sweep_cj_amount (sr_round_up rules) equalize selected (total_input - my_txfee))) (\<lambda>cj_amount.
       if list_ex (\<lambda>ofr. cj_amount < minsize ofr \<or> maxsize ofr < cj_amount) selected then return_draw ([], 0, 0)
       else lift_draw (map_res (\<lambda>plan. (selection_of selected, cj_amount, plan_total plan))
              (calculate_cj_fee_plan selected cj_amount (sr_round_up rules) equalize))))))"

section \<open>The manager\<close>

record orderbook =
  ob_max_fee :: max_cj_fee
  ob_allowance :: rat
  ob_zero_fee :: bool
  ob_quantized :: bool
  ob_round_up :: bool
  ob_equalize :: bool
  ob_allowed :: "offer_type set option"
  ob_offers :: "market_offer list"
  ob_ignored :: "string set"
  ob_honest :: "string set"
  ob_own_nicks :: "string set"
  ob_file :: "string option"

text \<open>The file of ignored makers is its text, or none. Reading in text mode turns every line ending into a newline.\<close>

definition NL :: char where "NL = CHR 10"

fun universal_newlines :: "string \<Rightarrow> string" where
  "universal_newlines [] = []"
| "universal_newlines (c # cs) =
     (if c = CHR 13 then NL # (case cs of [] \<Rightarrow> [] | d # ds \<Rightarrow> if d = NL then universal_newlines ds else universal_newlines cs)
      else c # universal_newlines cs)"

fun text_lines :: "string \<Rightarrow> string list" where
  "text_lines [] = []"
| "text_lines (c # cs) = (if c = NL then [NL] # text_lines cs
     else case text_lines cs of [] \<Rightarrow> [[c]] | l # ls \<Rightarrow> (c # l) # ls)"

definition load_ignored_makers :: "orderbook \<Rightarrow> orderbook" where
  "load_ignored_makers ob = (case ob_file ob of
     None \<Rightarrow> ob
   | Some content \<Rightarrow> ob\<lparr>ob_ignored := ob_ignored ob \<union> (set (map strip (text_lines (universal_newlines content))) - {[]})\<rparr>)"

definition save_ignored_makers :: "orderbook \<Rightarrow> orderbook" where
  "save_ignored_makers ob = ob\<lparr>ob_file := Some (concat (map (\<lambda>maker. maker @ [NL]) (sorted_list_of_set (ob_ignored ob))))\<rparr>"

definition create_orderbook ::
  "max_cj_fee \<Rightarrow> rat \<Rightarrow> bool \<Rightarrow> bool \<Rightarrow> bool \<Rightarrow> bool \<Rightarrow> offer_type set option \<Rightarrow> string set \<Rightarrow> string option \<Rightarrow> orderbook" where
  "create_orderbook max_fee allowance zero_fee quantized round_up equalize allowed own file =
     load_ignored_makers \<lparr>ob_max_fee = max_fee, ob_allowance = allowance, ob_zero_fee = zero_fee, ob_quantized = quantized,
       ob_round_up = round_up, ob_equalize = equalize, ob_allowed = allowed, ob_offers = [], ob_ignored = {}, ob_honest = {},
       ob_own_nicks = own, ob_file = file\<rparr>"

definition update_offers :: "market_offer list \<Rightarrow> orderbook \<Rightarrow> orderbook" where
  "update_offers offers ob = ob\<lparr>ob_offers := offers\<rparr>"

definition add_ignored_maker :: "string \<Rightarrow> orderbook \<Rightarrow> orderbook" where
  "add_ignored_maker maker ob = save_ignored_makers (ob\<lparr>ob_ignored := insert maker (ob_ignored ob)\<rparr>)"

definition clear_ignored_makers :: "orderbook \<Rightarrow> orderbook" where
  "clear_ignored_makers ob = ob\<lparr>ob_ignored := {}, ob_file := None\<rparr>"

definition add_honest_maker :: "string \<Rightarrow> orderbook \<Rightarrow> orderbook" where
  "add_honest_maker maker ob = ob\<lparr>ob_honest := insert maker (ob_honest ob)\<rparr>"

record maker_request =
  rq_honest_only :: bool
  rq_min_nick_version :: "int option"
  rq_soft :: "string set"
  rq_hard :: "string set"
  rq_required :: "string list"
  rq_penalized :: "string set"

definition available_offers :: "orderbook \<Rightarrow> maker_request \<Rightarrow> market_offer list" where
  "available_offers ob req =
     (if rq_honest_only req then filter (\<lambda>ofr. counterparty ofr \<in> ob_honest ob) (ob_offers ob) else ob_offers ob)"

definition hard_exclusions :: "orderbook \<Rightarrow> maker_request \<Rightarrow> string set" where
  "hard_exclusions ob req = ob_own_nicks ob \<union> rq_hard req"

definition soft_exclusions :: "orderbook \<Rightarrow> maker_request \<Rightarrow> string set" where
  "soft_exclusions ob req = (ob_ignored ob \<union> rq_soft req) - hard_exclusions ob req"

definition request_rules :: "orderbook \<Rightarrow> maker_request \<Rightarrow> string set \<Rightarrow> selection_rules" where
  "request_rules ob req ignored =
     \<lparr>sr_max_fee = ob_max_fee ob, sr_ignored = ignored, sr_allowed = ob_allowed ob, sr_min_nick_version = rq_min_nick_version req,
      sr_required = rq_required req, sr_quantized = ob_quantized ob, sr_round_up = ob_round_up ob\<rparr>"

definition DEFAULT_MAKER_REPEAT_PENALTY :: rat where "DEFAULT_MAKER_REPEAT_PENALTY = 4 / 5"

definition request_policy :: "maker_request \<Rightarrow> repeat_policy" where
  "request_policy req = \<lparr>rp_penalized = rq_penalized req, rp_penalty = DEFAULT_MAKER_REPEAT_PENALTY\<rparr>"

definition select_round ::
  "float_ops \<Rightarrow> 'r market_random \<Rightarrow> orderbook \<Rightarrow> maker_request \<Rightarrow> string set \<Rightarrow> int \<Rightarrow> nat \<Rightarrow> ('r, (string, market_offer) dict \<times> int) drawn" where
  "select_round fo rng ob req ignored cj_amount n =
     choose_orders fo rng (fidelity_bond_weighted_choose rng (ob_allowance ob) (ob_zero_fee ob)) (request_rules ob req ignored)
       (request_policy req) (ob_equalize ob) (available_offers ob req) cj_amount n"

definition select_makers ::
  "float_ops \<Rightarrow> 'r market_random \<Rightarrow> orderbook \<Rightarrow> maker_request \<Rightarrow> int \<Rightarrow> nat \<Rightarrow> ('r, (string, market_offer) dict \<times> int) drawn" where
  "select_makers fo rng ob req cj_amount n =
     (let hard = hard_exclusions ob req; soft = soft_exclusions ob req in
      bind_draw (select_round fo rng ob req (hard \<union> soft) cj_amount n) (\<lambda>(result, fee).
      if n \<le> length result \<or> soft = {} then return_draw (result, fee)
      else
        bind_draw (select_round fo rng ob req (hard \<union> set (dict_keys result)) cj_amount (n - length result)) (\<lambda>(topup, topup_fee).
        let result = dict_of topup result in
        if \<not> ob_equalize ob then return_draw (result, fee + topup_fee)
        else lift_draw (map_res (\<lambda>plan. (result, plan_total plan))
               (calculate_cj_fee_plan (map snd result) cj_amount (ob_round_up ob) True)))))"

definition sweep_round ::
  "float_ops \<Rightarrow> 'r market_random \<Rightarrow> orderbook \<Rightarrow> maker_request \<Rightarrow> string set \<Rightarrow> int \<Rightarrow> int \<Rightarrow> nat \<Rightarrow> ('r, (string, market_offer) dict \<times> int \<times> int) drawn" where
  "sweep_round fo rng ob req ignored total_input my_txfee n =
     choose_sweep_orders fo rng (fidelity_bond_weighted_choose rng (ob_allowance ob) (ob_zero_fee ob)) (request_rules ob req ignored)
       (request_policy req) (ob_equalize ob) (available_offers ob req) total_input my_txfee n"

definition select_makers_for_sweep ::
  "float_ops \<Rightarrow> 'r market_random \<Rightarrow> orderbook \<Rightarrow> maker_request \<Rightarrow> int \<Rightarrow> int \<Rightarrow> nat \<Rightarrow> ('r, (string, market_offer) dict \<times> int \<times> int) drawn" where
  "select_makers_for_sweep fo rng ob req total_input my_txfee n =
     (let hard = hard_exclusions ob req; soft = soft_exclusions ob req in
      bind_draw (sweep_round fo rng ob req (hard \<union> soft) total_input my_txfee n) (\<lambda>result.
      if n \<le> length (fst result) \<or> soft = {} then return_draw result
      else sweep_round fo rng ob req hard total_input my_txfee n))"

end
