(* ===== verification/Taker_Selection.thy ===== *)
theory Taker_Selection
  imports Taker_Orderbook "HOL-Library.Multiset"
begin

text \<open>
  What the selection of makers guarantees. The locale \<open>order_chooser\<close> is the contract of a selection algorithm: it returns some of the
  offers it is given, each at most as often as it is there, and no more than it is asked for. The soundness of a selection is proved
  once under this contract, which all four algorithms of the program meet.
\<close>

section \<open>Draws\<close>

named_theorems draw_simps \<open>when a draw returns\<close>

lemma bind_draw_Inr [draw_simps]: "bind_draw m f r = Inr y \<longleftrightarrow> (\<exists>x r'. m r = Inr (x, r') \<and> f x r' = Inr y)"
  by (auto simp: bind_draw_def bind_res_Inr_iff)

lemma return_draw_Inr [draw_simps]: "return_draw x r = Inr y \<longleftrightarrow> y = (x, r)"
  by (auto simp: return_draw_def)

lemma lift_draw_Inr [draw_simps]: "lift_draw m r = Inr y \<longleftrightarrow> (\<exists>x. m = Inr x \<and> y = (x, r))"
  by (auto simp: lift_draw_def map_res_Inr_iff)

lemma randbelow_less: "0 < n \<Longrightarrow> randbelow rng n r = Inr (i, r') \<Longrightarrow> i < n"
  by (auto simp: randbelow_def split: prod.splits)

lemma mset_remove_nth: "i < length xs \<Longrightarrow> mset xs = add_mset (xs ! i) (mset (take i xs @ drop (Suc i) xs))"
  by (metis id_take_nth_drop mset.simps(2) mset_append union_mset_add_mset_right)

lemma random_choice_in: "random_choice rng xs r = Inr (x, r') \<Longrightarrow> x \<in> set xs"
  by (auto simp: random_choice_def draw_simps split: if_splits dest!: randbelow_less [rotated])

lemma random_sample_sub: "random_sample rng xs k r = Inr (ys, r') \<Longrightarrow> mset ys \<subseteq># mset xs \<and> length ys = k"
proof (induction k arbitrary: xs ys r r')
  case (Suc k)
  then obtain i r1 r2 zs where i: "randbelow rng (length xs) r = Inr (i, r1)" "Suc k \<le> length xs"
    "random_sample rng (take i xs @ drop (Suc i) xs) k r1 = Inr (zs, r2)" "ys = xs ! i # zs"
    by (auto simp: draw_simps split: if_splits)
  then have "i < length xs" by (intro randbelow_less [OF _ i(1)]) auto
  with Suc.IH [OF i(3)] i(4) show ?case by (simp only: mset_remove_nth [of i xs]) simp
qed (simp add: draw_simps)

lemma submset_distinct: "distinct xs \<Longrightarrow> mset ys \<subseteq># mset xs \<Longrightarrow> distinct ys"
proof -
  assume "distinct xs" "mset ys \<subseteq># mset xs"
  then obtain zs where "mset xs = mset (ys @ zs)" by (metis ex_mset mset_append mset_subset_eq_exists_conv)
  with \<open>distinct xs\<close> show "distinct ys" by (metis distinct_append mset_eq_imp_distinct_iff)
qed

section \<open>Grouping\<close>

definition groups_ok :: "('a \<Rightarrow> 'k) \<Rightarrow> 'a set \<Rightarrow> ('k, 'a list) dict \<Rightarrow> bool" where
  "groups_ok key S d \<longleftrightarrow> distinct (dict_keys d) \<and> (\<forall>x \<in> S. key x \<in> set (dict_keys d)) \<and>
     (\<forall>(k, ys) \<in> set d. ys \<noteq> [] \<and> set ys = {x \<in> S. key x = k})"

lemma groups_ok_add:
  assumes "groups_ok key S d"
  shows "groups_ok key (insert x S) (dict_put (key x) ((case dict_get d (key x) of None \<Rightarrow> [] | Some ys \<Rightarrow> ys) @ [x]) d)"
proof -
  have d: "distinct (dict_keys d)" using assms by (simp add: groups_ok_def)
  let ?zs = "(case dict_get d (key x) of None \<Rightarrow> [] | Some ys \<Rightarrow> ys) @ [x]"
  let ?d = "dict_put (key x) ?zs d"
  have old: "ys \<noteq> []" "set ys = {y \<in> S. key y = k}" if "dict_get d k = Some ys" for k ys
    using assms dict_get_in_set [OF that] by (auto simp: groups_ok_def)
  have none: "{y \<in> S. key y = k} = {}" if "dict_get d k = None" for k
    using assms that by (auto simp: groups_ok_def dict_get_None_iff)
  have "ys \<noteq> [] \<and> set ys = {y \<in> insert x S. key y = k}" if "(k, ys) \<in> set ?d" for k ys
  proof -
    have "dict_get ?d k = Some ys" using that distinct_keys_put [OF d] by (simp add: map_of_eq_Some_iff)
    then show ?thesis using old none [of k]
      by (cases "k = key x") (auto simp: dict_simps split: option.splits)
  qed
  moreover have "key y \<in> set (dict_keys ?d)" if "y \<in> insert x S" for y
  proof -
    have "dict_get ?d (key y) \<noteq> None" using none [of "key y"] that by (auto simp: dict_simps)
    then show ?thesis using dict_get_None_iff by metis
  qed
  ultimately show ?thesis using distinct_keys_put [OF d] by (auto simp: groups_ok_def)
qed

lemma group_by_ok: "groups_ok key S acc \<Longrightarrow> groups_ok key (S \<union> set xs) (group_by key xs acc)"
proof (induction xs arbitrary: S acc)
  case (Cons x xs)
  from Cons.IH [OF groups_ok_add [OF Cons.prems, of x]] show ?case by simp
qed simp

lemma group_by_groups: "groups_ok key (set xs) (group_by key xs [])"
  using group_by_ok [of key "{}" "[]" xs] by (simp add: groups_ok_def)

lemma cheapest_Inr:
  assumes "cheapest fee xs = Inr x"
  shows "x \<in> set xs" "\<exists>f. fee x = Inr f \<and> (\<forall>y \<in> set xs. \<exists>g. fee y = Inr g \<and> f \<le> g)"
proof -
  obtain zs where "sorted_by_fee fee xs = Inr zs" "(case zs of [] \<Rightarrow> Inl IndexError | x # _ \<Rightarrow> Inr x) = Inr x"
    using assms unfolding cheapest_def bind_res_Inr_iff by blast
  then obtain fs ys where fs: "mapM_res fee xs = Inr fs" and ys: "map snd (sort_key fst (zip fs xs)) = x # ys"
    by (cases zs) (auto simp: sorted_by_fee_def map_res_Inr_iff)
  let ?z = "sort_key fst (zip fs xs)"
  have l: "length fs = length xs" using fs by (rule mapM_res_length)
  have all: "fee y = Inr f" if "(f, y) \<in> set (zip fs xs)" for f y
    using that fs by (auto simp: mapM_res_Inr_iff in_set_zip list_all2_conv_all_nth)
  obtain f rest where z: "?z = (f, x) # rest" using ys by (cases ?z) auto
  then have hd: "(f, x) \<in> set (zip fs xs)" by (metis list.set_intros(1) set_sort)
  then show "x \<in> set xs" by (rule set_zip_rightD)
  have "f \<le> g" if "(g, y) \<in> set (zip fs xs)" for g y
  proof -
    have "(g, y) \<in> set ?z" using that by simp
    moreover have "sorted (map fst ?z)" by simp
    ultimately show ?thesis unfolding z by auto
  qed
  moreover have "\<exists>g. (g, y) \<in> set (zip fs xs)" if "y \<in> set xs" for y
    using that l by (metis in_set_impl_in_set_zip2)
  ultimately show "\<exists>f. fee x = Inr f \<and> (\<forall>y \<in> set xs. \<exists>g. fee y = Inr g \<and> f \<le> g)" using all hd by meson
qed

text \<open>One cheapest element per key.\<close>

lemma cheapest_per_key:
  assumes "mapM_res (\<lambda>kv. cheapest fee (f (snd kv))) (group_by key xs []) = Inr ys"
    "\<And>zs. set (f zs) = g ` set zs" "\<And>x x'. x \<in> set xs \<Longrightarrow> x' \<in> set xs \<Longrightarrow> g x = g x' \<Longrightarrow> key x = key x'"
  shows "set ys \<subseteq> g ` set xs" "distinct ys"
    "\<And>x. x \<in> set xs \<Longrightarrow> \<exists>x' \<in> set xs. key x' = key x \<and> g x' \<in> set ys \<and> (\<exists>a b. fee (g x') = Inr a \<and> fee (g x) = Inr b \<and> a \<le> b)"
    "\<And>x x'. x \<in> set xs \<Longrightarrow> x' \<in> set xs \<Longrightarrow> g x \<in> set ys \<Longrightarrow> g x' \<in> set ys \<Longrightarrow> key x = key x' \<Longrightarrow> g x = g x'"
proof -
  let ?d = "group_by key xs []"
  have ok: "groups_ok key (set xs) ?d" by (rule group_by_groups)
  have l: "length ys = length ?d" using assms(1) by (rule mapM_res_length)
  have nth: "cheapest fee (f (snd (?d ! i))) = Inr (ys ! i)" if "i < length ?d" for i
    using assms(1) that by (auto simp: mapM_res_Inr_iff list_all2_conv_all_nth)
  have grp: "set (snd (?d ! i)) = {x \<in> set xs. key x = fst (?d ! i)}" if "i < length ?d" for i
  proof -
    have "\<forall>kv \<in> set ?d. set (snd kv) = {x \<in> set xs. key x = fst kv}" using ok by (auto simp: groups_ok_def)
    with nth_mem [OF that] show ?thesis by blast
  qed
  have pick: "\<exists>x \<in> set xs. ys ! i = g x \<and> key x = fst (?d ! i)" if "i < length ?d" for i
    using cheapest_Inr(1) [OF nth [OF that]] grp [OF that] assms(2) by auto
  have inj: "i = j" if "i < length ?d" "j < length ?d" "fst (?d ! i) = fst (?d ! j)" for i j
  proof -
    have "distinct (map fst ?d)" using ok by (simp add: groups_ok_def)
    from nth_eq_iff_index_eq [OF this] that show ?thesis by simp
  qed
  show "set ys \<subseteq> g ` set xs"
  proof
    fix y
    assume "y \<in> set ys"
    then obtain i where "i < length ?d" "ys ! i = y" using l by (auto simp: in_set_conv_nth)
    with pick [of i] show "y \<in> g ` set xs" by blast
  qed
  show "distinct ys"
    unfolding distinct_conv_nth l
  proof (intro allI impI notI)
    fix i j
    assume i: "i < length ?d" and j: "j < length ?d" and ij: "i \<noteq> j" and eq: "ys ! i = ys ! j"
    obtain x x' where x: "x \<in> set xs" "ys ! i = g x" "key x = fst (?d ! i)" and x': "x' \<in> set xs" "ys ! j = g x'" "key x' = fst (?d ! j)"
      using pick [OF i] pick [OF j] by blast
    have "key x = key x'" using x(1,2) x'(1,2) eq by (intro assms(3)) simp_all
    with inj [OF i j] x(3) x'(3) ij show False by simp
  qed
  show "g x = g x'" if xs: "x \<in> set xs" "x' \<in> set xs" "g x \<in> set ys" "g x' \<in> set ys" "key x = key x'" for x x'
  proof -
    obtain i j where ij: "i < length ?d" "ys ! i = g x" "j < length ?d" "ys ! j = g x'" using xs(3,4) l by (auto simp: in_set_conv_nth)
    obtain y y' where y: "y \<in> set xs" "ys ! i = g y" "key y = fst (?d ! i)" and y': "y' \<in> set xs" "ys ! j = g y'" "key y' = fst (?d ! j)"
      using pick [OF ij(1)] pick [OF ij(3)] by blast
    have "key x = key y" "key x' = key y'" using assms(3) [OF xs(1) y(1)] assms(3) [OF xs(2) y'(1)] ij y(2) y'(2) by simp_all
    with inj [OF ij(1,3)] xs(5) ij y(3) y'(3) show ?thesis by auto
  qed
  show "\<exists>x' \<in> set xs. key x' = key x \<and> g x' \<in> set ys \<and> (\<exists>a b. fee (g x') = Inr a \<and> fee (g x) = Inr b \<and> a \<le> b)" if x: "x \<in> set xs" for x
  proof -
    have "key x \<in> set (map fst ?d)" using ok x unfolding groups_ok_def by blast
    then obtain i where i: "i < length ?d" "fst (?d ! i) = key x" unfolding in_set_conv_nth by auto
    obtain x' where x': "x' \<in> set xs" "ys ! i = g x'" "key x' = key x" using pick [OF i(1)] i(2) by auto
    have "g x \<in> set (f (snd (?d ! i)))" using grp [OF i(1)] i(2) x assms(2) by auto
    then obtain a b where "fee (g x') = Inr a" "fee (g x) = Inr b" "a \<le> b"
      using cheapest_Inr(2) [OF nth [OF i(1)]] x'(2) by metis
    moreover have "g x' \<in> set ys" using i(1) l x'(2) by (metis nth_mem)
    ultimately show ?thesis using x' by blast
  qed
qed

section \<open>The candidates\<close>

lemma filter_zip_in:
  assumes "mapM_res f xs = Inr bs" "x \<in> set (map fst (filter (\<lambda>xb. P (snd xb)) (zip xs bs)))"
  shows "x \<in> set xs \<and> (\<exists>b. f x = Inr b \<and> P b)"
  using assms by (auto simp: mapM_res_Inr_iff list_all2_conv_all_nth in_set_zip)

lemma filter_offers_in:
  assumes "filter_offers rules cj_amount offers = Inr eligible" "ofr \<in> set eligible"
  shows "ofr \<in> set offers \<and> offer_eligible rules cj_amount ofr = Inr True"
proof -
  obtain bs where "mapM_res (offer_eligible rules cj_amount) offers = Inr bs" "ofr \<in> set (map fst (filter (\<lambda>xb. (\<lambda>b. b) (snd xb)) (zip offers bs)))"
    using assms by (auto simp: filter_offers_def map_res_Inr_iff)
  from filter_zip_in [OF this] show ?thesis by auto
qed

lemma eligible_facts:
  assumes "offer_eligible rules cj_amount ofr = Inr True"
  shows "counterparty ofr \<notin> sr_ignored rules" "ordertype ofr \<in> allowed_types rules" "minsize ofr \<le> cj_amount" "cj_amount \<le> maxsize ofr"
    "is_fee_within_limits ofr (sr_max_fee rules) (sr_round_up rules) = Inr True" "\<not> known_missing_feature (sr_required rules) ofr"
  using assms by (auto simp: offer_eligible_def bind_res_Inr_iff map_res_Inr_iff split: if_splits option.splits)

lemma dedupe_by_maker_Inr:
  assumes "dedupe_offers_by_maker offers cj_amount round_up = Inr kept"
  shows "set kept \<subseteq> set offers" "distinct (map counterparty kept)"
    "\<And>x. x \<in> set offers \<Longrightarrow> \<exists>y \<in> set kept. counterparty y = counterparty x \<and>
       (\<exists>a b. taker_cj_fee y cj_amount round_up = Inr a \<and> taker_cj_fee x cj_amount round_up = Inr b \<and> a \<le> b)"
proof -
  note c = cheapest_per_key [where g = "\<lambda>x. x" and f = "\<lambda>x. x", OF assms [unfolded dedupe_offers_by_maker_def], simplified]
  from c(1) show sub: "set kept \<subseteq> set offers" .
  have "inj_on counterparty (set kept)" using c(4) sub by (intro inj_onI) blast
  then show "distinct (map counterparty kept)" using c(2) by (simp add: distinct_map)
  fix x
  assume "x \<in> set offers"
  then show "\<exists>y \<in> set kept. counterparty y = counterparty x \<and>
       (\<exists>a b. taker_cj_fee y cj_amount round_up = Inr a \<and> taker_cj_fee x cj_amount round_up = Inr b \<and> a \<le> b)"
    using c(3) by blast
qed

definition share_bond :: "market_offer \<Rightarrow> market_offer \<Rightarrow> bool" where
  "share_bond a b \<longleftrightarrow> (\<exists>k. bond_key a = Inr (Some k) \<and> bond_key b = Inr (Some k))"

lemma dedupe_by_bond_Inr:
  assumes "dedupe_offers_by_bond offers cj_amount round_up = Inr kept" "distinct (map counterparty offers)"
  shows "set kept \<subseteq> set offers" "distinct (map counterparty kept)"
    "\<And>a b. a \<in> set kept \<Longrightarrow> b \<in> set kept \<Longrightarrow> share_bond a b \<Longrightarrow> a = b"
proof -
  let ?fee = "\<lambda>ofr. taker_cj_fee ofr cj_amount round_up"
  obtain keys where keys: "mapM_res bond_key offers = Inr keys"
    using assms(1) by (auto simp: dedupe_offers_by_bond_def bind_res_Inr_iff)
  define bonded where "bonded = filter (\<lambda>ko. fst ko \<noteq> None) (zip keys offers)"
  define unbonded where "unbonded = map snd (filter (\<lambda>ko. fst ko = None) (zip keys offers))"
  obtain ys where ys: "mapM_res (\<lambda>kv. cheapest ?fee (map snd (snd kv))) (group_by fst bonded []) = Inr ys" and kept: "kept = ys @ unbonded"
    using assms(1) keys by (auto simp: dedupe_offers_by_bond_def bind_res_Inr_iff map_res_Inr_iff Let_def bonded_def unbonded_def)
  have l: "length keys = length offers" using keys by (rule mapM_res_length)
  have key: "bond_key (snd ko) = Inr (fst ko)" if "ko \<in> set (zip keys offers)" for ko
    using that keys by (auto simp: mapM_res_Inr_iff in_set_zip list_all2_conv_all_nth)
  have bkey: "fst ko = k" if "ko \<in> set bonded" "bond_key (snd ko) = Inr k" for ko k
    using that key [of ko] by (simp add: bonded_def)
  have det: "fst x = fst x'" if "x \<in> set bonded" "x' \<in> set bonded" "snd x = snd x'" for x x'
  proof -
    have "bond_key (snd x) = Inr (fst x)" "bond_key (snd x') = Inr (fst x')"
      using that(1,2) by (simp_all add: bonded_def key)
    with that(3) show ?thesis by simp
  qed
  note c = cheapest_per_key [where f = "map snd" and g = snd, OF ys set_map det]
  have some: "\<exists>k. bond_key y = Inr (Some k)" if "y \<in> set ys" for y
    using that c(1) key by (fastforce simp: bonded_def)
  have none: "bond_key y = Inr None" if "y \<in> set unbonded" for y using that key by (fastforce simp: unbonded_def)
  have right: "snd ko \<in> set offers" if "ko \<in> set (zip keys offers)" for ko
    using that set_zip_rightD [of "fst ko" "snd ko" keys offers] by simp
  have "snd ` set bonded \<subseteq> set offers" using right by (auto simp: bonded_def)
  with c(1) have sub1: "set ys \<subseteq> set offers" by (rule order_trans)
  have sub2: "set unbonded \<subseteq> set offers" using right by (auto simp: unbonded_def)
  show s: "set kept \<subseteq> set offers" using sub1 sub2 by (simp add: kept)
  have "distinct offers" using assms(2) by (simp add: distinct_map)
  then have "distinct (map snd (zip keys offers))" using l by simp
  then have "distinct unbonded" unfolding unbonded_def by (rule distinct_map_filter)
  moreover have "set ys \<inter> set unbonded = {}" using some none by (metis Inr_inject disjoint_iff option.distinct(1))
  ultimately have "distinct kept" unfolding kept distinct_append by (intro conjI c(2))
  moreover have "inj_on counterparty (set kept)" using assms(2) inj_on_subset [of counterparty, OF _ s] by (simp add: distinct_map)
  ultimately show "distinct (map counterparty kept)" by (simp add: distinct_map)
  fix a b
  assume ab: "a \<in> set kept" "b \<in> set kept" "share_bond a b"
  then obtain k where k: "bond_key a = Inr (Some k)" "bond_key b = Inr (Some k)" by (auto simp: share_bond_def)
  then have "a \<in> set ys" "b \<in> set ys" using ab(1,2) none by (auto simp: kept)
  moreover from this obtain p q where "p \<in> set bonded" "snd p = a" "q \<in> set bonded" "snd q = b" using c(1) by blast
  moreover from this have "fst p = fst q" using bkey k by metis
  ultimately show "a = b" using c(4) by metis
qed

lemma prefer_sub:
  "set (prefer_offers_with_confirmed_features offers n required) \<subseteq> set offers"
  "distinct (map counterparty offers) \<Longrightarrow> distinct (map counterparty (prefer_offers_with_confirmed_features offers n required))"
  by (auto simp: prefer_offers_with_confirmed_features_def Let_def distinct_map_filter)

lemma candidates_Inr:
  assumes "candidate_offers rules offers cj_amount n = Inr pool"
  shows "distinct (map counterparty pool)"
    "\<And>x. x \<in> set pool \<Longrightarrow> x \<in> set offers \<and> offer_eligible rules cj_amount x = Inr True"
    "\<And>a b. a \<in> set pool \<Longrightarrow> b \<in> set pool \<Longrightarrow> share_bond a b \<Longrightarrow> a = b"
proof -
  obtain el bm bb where e: "filter_offers rules cj_amount offers = Inr el" and m: "dedupe_offers_by_maker el cj_amount (sr_round_up rules) = Inr bm"
    and b: "dedupe_offers_by_bond bm cj_amount (sr_round_up rules) = Inr bb"
    and pool: "pool = prefer_offers_with_confirmed_features bb n (sr_required rules)"
    using assms by (auto simp: candidate_offers_def bind_res_Inr_iff map_res_Inr_iff)
  note bb = dedupe_by_bond_Inr [OF b dedupe_by_maker_Inr(2) [OF m]]
  have sub: "set pool \<subseteq> set bb" unfolding pool by (rule prefer_sub)
  show "distinct (map counterparty pool)" unfolding pool by (rule prefer_sub(2) [OF bb(2)])
  show "x \<in> set offers \<and> offer_eligible rules cj_amount x = Inr True" if "x \<in> set pool" for x
    using that sub bb(1) dedupe_by_maker_Inr(1) [OF m] filter_offers_in [OF e, of x] by blast
  show "a = b" if "a \<in> set pool" "b \<in> set pool" "share_bond a b" for a b
    using that sub bb(3) [of a b] by blast
qed

section \<open>Choosers\<close>

text \<open>The repeat penalty only returns what the algorithm returned in some state of the generator.\<close>

lemma penalty_draws_drawn:
  "penalty_draws fo rng chooser penalized penalty offers n (Suc k) sel r = Inr (selected, r') \<Longrightarrow> \<exists>r1 r2. chooser offers n r1 = Inr (selected, r2)"
proof (induction k arbitrary: sel r)
  case 0
  then show ?case by (auto simp: draw_simps split: if_splits)
next
  case (Suc k)
  from Suc.prems obtain sel1 r1 u r2 where c: "chooser offers n r = Inr (sel1, r1)"
    and rest: "(if u \<le> fo_pow fo penalty (of_nat (avoidable_overlap penalized offers sel1)) then return_draw sel1
       else penalty_draws fo rng chooser penalized penalty offers n (Suc k) sel1) r2 = Inr (selected, r')"
    unfolding penalty_draws.simps(2) [of _ _ _ _ _ _ _ "Suc k"] by (auto simp only: draw_simps)
  with Suc.IH [of sel1 r2] show ?case
    by (cases "u \<le> fo_pow fo penalty (of_nat (avoidable_overlap penalized offers sel1))") (auto simp only: draw_simps if_True if_False prod.inject)
qed

lemma repeat_penalty_drawn:
  assumes "choose_with_repeat_penalty fo rng chooser penalized penalty offers n r = Inr (selected, r')"
  shows "\<exists>r1 r2. chooser offers n r1 = Inr (selected, r2)"
proof -
  have "MAX_REPEAT_PENALTY_DRAWS = Suc 63" by (simp add: MAX_REPEAT_PENALTY_DRAWS_def)
  then consider "chooser offers n r = Inr (selected, r')"
    | "penalty_draws fo rng chooser penalized penalty offers n (Suc 63) [] r = Inr (selected, r')"
    using assms by (auto simp add: choose_with_repeat_penalty_def draw_simps split: if_splits simp del: penalty_draws.simps)
  then show ?thesis using penalty_draws_drawn by cases blast+
qed

locale order_chooser =
  fixes chooser :: "'r chooser"
  assumes some_of: "chooser offers n r = Inr (selected, r') \<Longrightarrow> mset selected \<subseteq># mset offers \<and> length selected \<le> n"
begin

text \<open>The offers a selection draws from its candidates.\<close>

lemma selected_ok:
  assumes "candidate_offers rules offers cj_amount n = Inr pool"
    "choose_with_repeat_penalty fo rng chooser penalized penalty pool m r = Inr (selected, r')"
  shows "distinct (map counterparty selected)" "length selected \<le> m" "set selected \<subseteq> set pool"
    "\<And>x. x \<in> set selected \<Longrightarrow> x \<in> set offers \<and> offer_eligible rules cj_amount x = Inr True"
    "\<And>a b. a \<in> set selected \<Longrightarrow> b \<in> set selected \<Longrightarrow> share_bond a b \<Longrightarrow> a = b"
proof -
  note c = candidates_Inr [OF assms(1)]
  have s: "mset selected \<subseteq># mset pool" "length selected \<le> m" using repeat_penalty_drawn [OF assms(2)] some_of by blast+
  show sub: "set selected \<subseteq> set pool" using s(1) by (metis mset_subset_eqD set_mset_mset subsetI)
  have "distinct pool" using c(1) by (simp add: distinct_map)
  then have "distinct selected" using s(1) by (rule submset_distinct)
  moreover have "inj_on counterparty (set selected)" using c(1) inj_on_subset [of counterparty, OF _ sub] by (simp add: distinct_map)
  ultimately show "distinct (map counterparty selected)" by (simp add: distinct_map)
  show "length selected \<le> m" by (rule s(2))
  show "x \<in> set offers \<and> offer_eligible rules cj_amount x = Inr True" if "x \<in> set selected" for x
    using that sub c(2) by blast
  show "a = b" if "a \<in> set selected" "b \<in> set selected" "share_bond a b" for a b
    using that sub c(3) by blast
qed

end

subsection \<open>The algorithms\<close>

lemma first_reaching_less: "first_reaching add r c ws = Some i \<Longrightarrow> i < length ws"
  by (induction ws arbitrary: c i) (auto split: if_splits)

lemma weighted_draws_sub:
  "weighted_draws fo rng k remaining r = Inr (xs, r') \<Longrightarrow> mset xs \<subseteq># mset (map snd remaining) \<and> length xs \<le> k"
proof (induction k arbitrary: remaining r xs)
  case (Suc k)
  obtain u r1 where u: "mr_uniform rng (fo_sum fo (map fst remaining)) r = (u, r1)" by fastforce
  show ?case
  proof (cases "remaining = [] \<or> first_reaching (fo_add fo) u 0 (map fst remaining) = None")
    case True
    with Suc.prems u show ?thesis using Suc.IH [of remaining r1 xs] by (auto split: if_splits)
  next
    case False
    then obtain i where i: "first_reaching (fo_add fo) u 0 (map fst remaining) = Some i" by auto
    have l: "i < length remaining" using first_reaching_less [OF i] by simp
    let ?rest = "take i remaining @ drop (Suc i) remaining"
    obtain ys where ys: "weighted_draws fo rng k ?rest r1 = Inr (ys, r')" "xs = snd (remaining ! i) # ys"
      using Suc.prems u i False by (auto simp: map_res_Inr_iff)
    have "mset (map snd remaining) = add_mset (snd (remaining ! i)) (mset (map snd ?rest))"
      using mset_remove_nth [OF l] by (metis image_mset_add_mset mset_map)
    with Suc.IH [OF ys(1)] ys(2) show ?thesis by simp
  qed
qed simp

lemma pick_weighted_bonded_in: "pick_weighted_bonded rng pool r = Inr (Some x, r') \<Longrightarrow> x \<in> set pool"
proof -
  assume a: "pick_weighted_bonded rng pool r = Inr (Some x, r')"
  let ?b = "filter (\<lambda>ofr. 0 < fidelity_bond_value ofr) pool"
  have "?b \<noteq> []" "x = last ?b \<or> (\<exists>i < length ?b. x = ?b ! i)"
    using a by (auto simp: pick_weighted_bonded_def Let_def split: if_splits prod.splits option.splits dest!: first_reaching_less)
  then have "x \<in> set ?b" by (metis last_in_set nth_mem)
  then show ?thesis by simp
qed

lemma without_res_Inr: "without_res bad xs = Inr ys \<Longrightarrow> mset ys \<subseteq># mset xs \<and> (\<forall>y \<in> set ys. bad y = Inr False)"
proof -
  assume "without_res bad xs = Inr ys"
  then obtain bs where bs: "mapM_res bad xs = Inr bs" and ys: "ys = map fst (filter (\<lambda>xb. \<not> snd xb) (zip xs bs))"
    by (auto simp: without_res_def map_res_Inr_iff)
  have "mset ys \<subseteq># mset (map fst (zip xs bs))"
    unfolding ys by (metis image_mset_subseteq_mono mset_filter mset_map multiset_filter_subset)
  moreover have "length bs = length xs" using bs by (rule mapM_res_length)
  moreover have "bad y = Inr False" if "y \<in> set ys" for y using filter_zip_in [OF bs, of y Not] that unfolding ys by auto
  ultimately show "mset ys \<subseteq># mset xs \<and> (\<forall>y \<in> set ys. bad y = Inr False)" by simp
qed

lemma pick_allowance_in: "pick_allowance rng zero_fee remaining r = Inr (Some x, r') \<Longrightarrow> x \<in> set remaining"
proof -
  assume "pick_allowance rng zero_fee remaining r = Inr (Some x, r')"
  then obtain pool r1 where "(if zero_fee then without_res is_nonzero_cj_fee remaining else Inr remaining) = Inr pool"
    "random_choice rng pool r1 = Inr (x, r')"
    by (auto simp: pick_allowance_def draw_simps split: if_splits)
  with random_choice_in have "x \<in> set pool" "mset pool \<subseteq># mset remaining" using without_res_Inr by (fastforce split: if_splits)+
  then show ?thesis by (metis mset_subset_eqD set_mset_mset)
qed

lemma pick_slot_in: "pick_slot rng allowance zero_fee remaining r = Inr (Some x, r') \<Longrightarrow> x \<in> set remaining"
  by (auto simp: pick_slot_def draw_simps split: if_splits dest: pick_allowance_in pick_weighted_bonded_in)

lemma bond_draws_sub:
  "bond_draws rng allowance zero_fee k remaining r = Inr (xs, r') \<Longrightarrow> mset xs \<subseteq># mset remaining \<and> length xs \<le> k"
proof (induction k arbitrary: remaining r xs)
  case (Suc k)
  show ?case
  proof (cases "xs = []")
    case False
    then obtain x ys r1 where p: "pick_slot rng allowance zero_fee remaining r = Inr (Some x, r1)"
      and rest: "bond_draws rng allowance zero_fee k (remove1 x remaining) r1 = Inr (ys, r')" "xs = x # ys"
      using Suc.prems by (auto simp: draw_simps split: if_splits option.splits)
    have "x \<in> set remaining" by (rule pick_slot_in [OF p])
    with Suc.IH [OF rest(1)] rest(2) show ?thesis by (simp add: insert_subset_eq_iff)
  qed simp
qed (simp add: draw_simps)

interpretation bonded: order_chooser "fidelity_bond_weighted_choose rng allowance zero_fee" for rng :: "'r market_random" and allowance zero_fee
proof
  fix offers n r selected r'
  assume "fidelity_bond_weighted_choose rng allowance zero_fee offers n r = Inr (selected, r')"
  then obtain pool r1 where p: "(if zero_fee then without_res bondless_fee offers else Inr offers) = Inr pool"
    and s: "(if length pool \<le> n then return_draw pool else bond_draws rng allowance zero_fee n pool) r1 = Inr (selected, r')"
    by (auto simp: fidelity_bond_weighted_choose_def draw_simps)
  have "mset pool \<subseteq># mset offers" using p without_res_Inr by (fastforce split: if_splits)
  moreover have "mset selected \<subseteq># mset pool \<and> length selected \<le> n"
    using s bond_draws_sub [of rng allowance zero_fee n pool r1 selected r'] by (cases "length pool \<le> n") (simp_all add: draw_simps)
  ultimately show "mset selected \<subseteq># mset offers \<and> length selected \<le> n" by auto
qed

interpretation uniform: order_chooser "random_order_choose rng" for rng :: "'r market_random"
  by unfold_locales (auto simp: random_order_choose_def draw_simps split: if_splits dest!: random_sample_sub)

interpretation cheap: order_chooser "cheapest_order_choose cj_amount :: 'r chooser" for cj_amount
proof
  fix offers n and r :: 'r and selected r'
  assume "cheapest_order_choose cj_amount offers n r = Inr (selected, r')"
  then obtain fs where fs: "mapM_res (\<lambda>ofr. taker_cj_fee ofr (if cj_amount = 0 then one_btc else cj_amount) False) offers = Inr fs" "selected = take n (map snd (sort_key fst (zip fs offers)))"
    by (auto simp: cheapest_order_choose_def Let_def draw_simps sorted_by_fee_def map_res_Inr_iff)
  have "mset (map snd (sort_key fst (zip fs offers))) = mset (map snd (zip fs offers))" by (metis mset_map mset_sort)
  then have "mset (map snd (sort_key fst (zip fs offers))) = mset offers" using mapM_res_length [OF fs(1)] by simp
  moreover have "mset (take n xs) \<subseteq># mset xs" for xs :: "market_offer list" by (metis append_take_drop_id mset_append mset_subset_eq_add_left)
  ultimately show "mset selected \<subseteq># mset offers \<and> length selected \<le> n" unfolding fs(2) by (metis length_take min.cobounded2)
qed

interpretation weighted: order_chooser "weighted_order_choose fo rng cj_amount exponent" for fo and rng :: "'r market_random" and cj_amount exponent
proof
  fix offers n r selected r'
  assume a: "weighted_order_choose fo rng cj_amount exponent offers n r = Inr (selected, r')"
  show "mset selected \<subseteq># mset offers \<and> length selected \<le> n"
  proof (cases "length offers \<le> n")
    case True
    with a show ?thesis by (simp add: weighted_order_choose_def draw_simps)
  next
    case False
    with a obtain fees and ws :: "rat list" and r1 where "mapM_res (\<lambda>ofr. taker_cj_fee ofr (if cj_amount = 0 then one_btc else cj_amount) False) offers = Inr fees"
      "length ws = length fees" "random_sample rng offers n r1 = Inr (selected, r') \<or> weighted_draws fo rng n (zip ws offers) r1 = Inr (selected, r')"
      by (auto simp: weighted_order_choose_def Let_def draw_simps split: if_splits) (metis length_map)+
    then show ?thesis using random_sample_sub [of rng offers n r1 selected r'] weighted_draws_sub [of fo rng n "zip ws offers" r1 selected r']
        mapM_res_length by fastforce
  qed
qed

lemma bonded_no_fee:
  assumes "fidelity_bond_weighted_choose rng allowance True offers n r = Inr (selected, r')" "x \<in> set selected"
  shows "bondless_fee x = Inr False"
proof -
  obtain pool r1 where p: "without_res bondless_fee offers = Inr pool"
    and s: "(if length pool \<le> n then return_draw pool else bond_draws rng allowance True n pool) r1 = Inr (selected, r')"
    using assms(1) by (auto simp: fidelity_bond_weighted_choose_def draw_simps)
  have "mset selected \<subseteq># mset pool"
    using s bond_draws_sub [of rng allowance True n pool r1 selected r'] by (cases "length pool \<le> n") (simp_all add: draw_simps)
  then have "x \<in> set pool" using assms(2) by (metis mset_subset_eqD set_mset_mset)
  with without_res_Inr [OF p] show ?thesis by blast
qed

section \<open>Fees\<close>

text \<open>What a selection of offers costs.\<close>

definition selection_cost :: "bool \<Rightarrow> bool \<Rightarrow> int \<Rightarrow> market_offer list \<Rightarrow> int res" where
  "selection_cost round_up equalize cj_amount offers =
     map_res (\<lambda>fs. if equalize then int (length fs) * Max (set fs) else sum_list fs)
       (mapM_res (\<lambda>ofr. taker_cj_fee ofr cj_amount round_up) offers)"

lemma fee_plan_cost:
  assumes "calculate_cj_fee_plan offers cj_amount round_up equalize = Inr plan" "distinct (map counterparty offers)"
  shows "selection_cost round_up equalize cj_amount offers = Inr (plan_total plan)"
proof -
  obtain fs where fs: "mapM_res (\<lambda>ofr. taker_cj_fee ofr cj_amount round_up) offers = Inr fs"
    and plan: "plan = (let fees = dict_of (zip (map counterparty offers) fs) [] in
      if equalize \<and> fees \<noteq> [] then map (\<lambda>kv. (fst kv, Max (snd ` set fees))) fees else fees)"
    using assms(1) by (auto simp: calculate_cj_fee_plan_def bind_res_Inr_iff Let_def)
  have l: "length fs = length offers" using fs by (rule mapM_res_length)
  let ?z = "zip (map counterparty offers) fs"
  have z: "dict_of ?z [] = ?z" using assms(2) l by (subst dict_of_distinct) simp_all
  have m: "map snd ?z = fs" "snd ` set ?z = set fs" using l by (simp_all flip: set_map)
  have "sum_list (map snd (map (\<lambda>kv. (fst kv, c)) ?z)) = int (length fs) * c" for c :: int
    using l by (simp add: comp_def sum_list_triv)
  with fs m show ?thesis by (auto simp: selection_cost_def plan z Let_def plan_total_def map_res_Inr_iff)
qed

lemma selection_of_distinct: "distinct (map counterparty selected) \<Longrightarrow> selection_of selected = map (\<lambda>ofr. (counterparty ofr, ofr)) selected"
  by (simp add: selection_of_def dict_of_distinct comp_def)

section \<open>Selections\<close>

text \<open>Everything a selection promises of the offers in it. \<open>ignored\<close> are the makers it must not contain.\<close>

definition selection_ok :: "selection_rules \<Rightarrow> market_offer list \<Rightarrow> (string, market_offer) dict \<Rightarrow> bool" where
  "selection_ok rules offers result \<longleftrightarrow> distinct (dict_keys result) \<and>
     (\<forall>(nick, ofr) \<in> set result. ofr \<in> set offers \<and> counterparty ofr = nick \<and> nick \<notin> sr_ignored rules \<and>
        ordertype ofr \<in> allowed_types rules \<and> \<not> known_missing_feature (sr_required rules) ofr \<and>
        is_fee_within_limits ofr (sr_max_fee rules) (sr_round_up rules) = Inr True)"

definition sizes_ok :: "int \<Rightarrow> (string, market_offer) dict \<Rightarrow> bool" where
  "sizes_ok cj_amount result \<longleftrightarrow> (\<forall>(nick, ofr) \<in> set result. minsize ofr \<le> cj_amount \<and> cj_amount \<le> maxsize ofr)"

definition bonds_distinct :: "(string, market_offer) dict \<Rightarrow> bool" where
  "bonds_distinct result \<longleftrightarrow> (\<forall>(nick, a) \<in> set result. \<forall>(nick', b) \<in> set result. nick \<noteq> nick' \<longrightarrow> \<not> share_bond a b)"

context order_chooser
begin

lemma selected_selection:
  assumes "candidate_offers rules offers cj_amount n = Inr pool"
    "choose_with_repeat_penalty fo rng chooser penalized penalty pool m r = Inr (selected, r')"
  shows "selection_of selected = map (\<lambda>ofr. (counterparty ofr, ofr)) selected" "selection_ok rules offers (selection_of selected)"
    "sizes_ok cj_amount (selection_of selected)" "bonds_distinct (selection_of selected)" "length (selection_of selected) \<le> m"
proof -
  note s = selected_ok [OF assms]
  show e: "selection_of selected = map (\<lambda>ofr. (counterparty ofr, ofr)) selected" by (rule selection_of_distinct [OF s(1)])
  show "selection_ok rules offers (selection_of selected)" using s(1,4) eligible_facts
    by (fastforce simp: selection_ok_def e comp_def)
  show "sizes_ok cj_amount (selection_of selected)" using s(4) eligible_facts(3,4) by (fastforce simp: sizes_ok_def e)
  show "bonds_distinct (selection_of selected)" using s(5) by (auto simp: bonds_distinct_def e)
  show "length (selection_of selected) \<le> m" using s(2) by (simp add: e)
qed

lemma choose_orders_Inr:
  assumes "choose_orders fo rng chooser rules policy equalize offers cj_amount n r = Inr ((result, fee), r')"
  obtains selected pool m r1 r2 where "result = map (\<lambda>ofr. (counterparty ofr, ofr)) selected" "chooser pool m r1 = Inr (selected, r2)"
    "selection_ok rules offers result" "sizes_ok cj_amount result" "bonds_distinct result" "length result \<le> n"
    "selection_cost (sr_round_up rules) equalize cj_amount selected = Inr fee"
proof -
  from assms obtain pool selected r1 plan where p: "candidate_offers rules offers cj_amount n = Inr pool"
    and c: "choose_with_repeat_penalty fo rng chooser (rp_penalized policy) (rp_penalty policy) pool (min n (length pool)) r = Inr (selected, r1)"
    and plan: "calculate_cj_fee_plan selected cj_amount (sr_round_up rules) equalize = Inr plan"
    and res: "result = selection_of selected" "fee = plan_total plan"
    by (auto simp: choose_orders_def draw_simps map_res_Inr_iff)
  note s = selected_selection [OF p c]
  have "selection_cost (sr_round_up rules) equalize cj_amount selected = Inr fee"
    unfolding res(2) by (rule fee_plan_cost [OF plan selected_ok(1) [OF p c]])
  moreover obtain r2 r3 where "chooser pool (min n (length pool)) r2 = Inr (selected, r3)" using repeat_penalty_drawn [OF c] by blast
  ultimately show ?thesis using s by (intro that [of selected pool "min n (length pool)" r2 r3]) (simp_all add: res(1))
qed

end

text \<open>C12: The makers of a round are sound. A selection for \<open>n\<close> makers has at most \<open>n\<close> entries with different nicks, each an offer of the
  book from a maker that is not ignored, of an allowed type, for sizes that include the amount, within the fee limits and not known to
  lack a required feature. No two of them stand on the same fidelity bond. With \<open>bondless_require_zero_fee\<close>, a maker without
  bond charges nothing. The fee returned is what these makers are paid: the sum of their fees, or the highest of them for each.\<close>

theorem choose_orders_sound:
  assumes "choose_orders fo rng (fidelity_bond_weighted_choose rng allowance zero_fee) rules policy equalize offers cj_amount n r =
    Inr ((result, fee), r')"
  shows "selection_ok rules offers result \<and> sizes_ok cj_amount result \<and> bonds_distinct result \<and> length result \<le> n \<and>
    (zero_fee \<longrightarrow> (\<forall>(nick, ofr) \<in> set result. fidelity_bond_value ofr = 0 \<longrightarrow> is_nonzero_cj_fee ofr = Inr False)) \<and>
    selection_cost (sr_round_up rules) equalize cj_amount (map snd result) = Inr fee"
proof -
  from assms obtain selected pool m r1 r2 where res: "result = map (\<lambda>ofr. (counterparty ofr, ofr)) selected"
    and c: "fidelity_bond_weighted_choose rng allowance zero_fee pool m r1 = Inr (selected, r2)"
    and ok: "selection_ok rules offers result" "sizes_ok cj_amount result" "bonds_distinct result" "length result \<le> n"
      "selection_cost (sr_round_up rules) equalize cj_amount selected = Inr fee"
    by (rule bonded.choose_orders_Inr)
  have "is_nonzero_cj_fee x = Inr False" if "zero_fee" "x \<in> set selected" "fidelity_bond_value x = 0" for x
    using bonded_no_fee [of rng allowance pool m r1 selected r2 x] c that by (simp add: bondless_fee_def)
  moreover have "map snd result = selected" by (simp add: res comp_def)
  ultimately show ?thesis using ok by (auto simp: res)
qed

subsection \<open>The manager\<close>

lemma selection_ok_ignored:
  "selection_ok (request_rules ob req X) offers result \<Longrightarrow> Y \<subseteq> X \<Longrightarrow> selection_ok (request_rules ob req Y) offers result"
  by (auto simp: selection_ok_def request_rules_def allowed_types_def)

lemma selection_cost_append:
  assumes "selection_cost ru False a xs = Inr f" "selection_cost ru False a ys = Inr g"
  shows "selection_cost ru False a (xs @ ys) = Inr (f + g)"
  using assms by (auto simp: selection_cost_def map_res_Inr_iff mapM_res_append)

lemma select_round_Inr:
  assumes "select_round fo rng ob req ignored cj_amount n r = Inr ((result, fee), r')"
  shows "selection_ok (request_rules ob req ignored) (available_offers ob req) result" "sizes_ok cj_amount result" "length result \<le> n"
    "selection_cost (ob_round_up ob) (ob_equalize ob) cj_amount (map snd result) = Inr fee"
proof -
  from assms [unfolded select_round_def] obtain selected where "result = map (\<lambda>ofr. (counterparty ofr, ofr)) selected"
    "selection_ok (request_rules ob req ignored) (available_offers ob req) result" "sizes_ok cj_amount result" "length result \<le> n"
    "selection_cost (sr_round_up (request_rules ob req ignored)) (ob_equalize ob) cj_amount selected = Inr fee"
    by (rule bonded.choose_orders_Inr)
  then show "selection_ok (request_rules ob req ignored) (available_offers ob req) result" "sizes_ok cj_amount result" "length result \<le> n"
    "selection_cost (ob_round_up ob) (ob_equalize ob) cj_amount (map snd result) = Inr fee"
    by (simp_all add: request_rules_def comp_def)
qed

lemma selection_ok_nick: "selection_ok rules offers result \<Longrightarrow> nick \<in> set (dict_keys result) \<Longrightarrow> nick \<notin> sr_ignored rules"
  by (auto simp: selection_ok_def)

lemma selection_ok_append:
  assumes "selection_ok rules offers xs" "selection_ok rules offers ys" "set (dict_keys xs) \<inter> set (dict_keys ys) = {}"
  shows "selection_ok rules offers (xs @ ys)"
  using assms by (auto simp: selection_ok_def)

lemma selection_ok_counterparty: "selection_ok rules offers result \<Longrightarrow> map counterparty (map snd result) = dict_keys result"
  by (auto simp: selection_ok_def)

text \<open>The two ways a selection of the manager comes about.\<close>

lemma select_makers_cases:
  assumes "select_makers fo rng ob req cj_amount n r = Inr ((result, fee), r')"
  defines "hard \<equiv> hard_exclusions ob req" and "soft \<equiv> soft_exclusions ob req"
  obtains (strict) r1 where "select_round fo rng ob req (hard \<union> soft) cj_amount n r = Inr ((result, fee), r1)"
  | (topup) strict sfee r1 topup tfee r2 where "select_round fo rng ob req (hard \<union> soft) cj_amount n r = Inr ((strict, sfee), r1)"
    "length strict < n" "select_round fo rng ob req (hard \<union> set (dict_keys strict)) cj_amount (n - length strict) r1 = Inr ((topup, tfee), r2)"
    "result = dict_of topup strict" "\<not> ob_equalize ob \<Longrightarrow> fee = sfee + tfee"
    "ob_equalize ob \<Longrightarrow> \<exists>plan. calculate_cj_fee_plan (map snd result) cj_amount (ob_round_up ob) True = Inr plan \<and> fee = plan_total plan"
proof -
  from assms(1) obtain p r1 where one: "select_round fo rng ob req (hard \<union> soft) cj_amount n r = Inr (p, r1)"
    and rest: "(case p of (strict, sfee) \<Rightarrow> if n \<le> length strict \<or> soft = {} then return_draw (strict, sfee)
      else bind_draw (select_round fo rng ob req (hard \<union> set (dict_keys strict)) cj_amount (n - length strict)) (\<lambda>(topup, topup_fee).
        let result = dict_of topup strict in
        if \<not> ob_equalize ob then return_draw (result, sfee + topup_fee)
        else lift_draw (map_res (\<lambda>plan. (result, plan_total plan))
               (calculate_cj_fee_plan (map snd result) cj_amount (ob_round_up ob) True)))) r1 = Inr ((result, fee), r')"
    unfolding select_makers_def Let_def bind_draw_Inr hard_def soft_def by blast
  obtain st sfee where p: "p = (st, sfee)" by fastforce
  show ?thesis
  proof (cases "n \<le> length st \<or> soft = {}")
    case True
    with one rest show ?thesis unfolding p by (intro strict) (simp add: draw_simps)
  next
    case False
    with rest obtain tp tfee r2 where t: "select_round fo rng ob req (hard \<union> set (dict_keys st)) cj_amount (n - length st) r1 = Inr ((tp, tfee), r2)"
      and res: "(if \<not> ob_equalize ob then return_draw (dict_of tp st, sfee + tfee)
        else lift_draw (map_res (\<lambda>plan. (dict_of tp st, plan_total plan))
               (calculate_cj_fee_plan (map snd (dict_of tp st)) cj_amount (ob_round_up ob) True))) r2 = Inr ((result, fee), r')"
      unfolding p by (auto simp: bind_draw_Inr Let_def)
    show ?thesis
      by (rule topup [OF one [unfolded p] _ t]) (use False res in \<open>auto simp: draw_simps map_res_Inr_iff split: if_splits\<close>)
  qed
qed

text \<open>C13: Exclusions of the order book manager. The makers selected for a round are never among the nicks of the own wallet or those
  the caller excludes for good, they are at most \<open>n\<close> different ones with offers that fit the rules and the amount, and the fee is
  what they are paid. A maker that is only to be avoided is taken only when the selection without such makers falls short
  of \<open>n\<close>, and then all of that selection is kept.\<close>

theorem select_makers_exclusions:
  assumes "select_makers fo rng ob req cj_amount n r = Inr ((result, fee), r')"
  shows "selection_ok (request_rules ob req (ob_own_nicks ob \<union> rq_hard req)) (available_offers ob req) result \<and>
    sizes_ok cj_amount result \<and> length result \<le> n \<and>
    selection_cost (ob_round_up ob) (ob_equalize ob) cj_amount (map snd result) = Inr fee \<and>
    (set (dict_keys result) \<inter> (ob_ignored ob \<union> rq_soft req) \<noteq> {} \<longrightarrow>
       (\<exists>strict strict_fee r1. length strict < n \<and> set strict \<subseteq> set result \<and>
          select_round fo rng ob req (ob_own_nicks ob \<union> rq_hard req \<union> ob_ignored ob \<union> rq_soft req) cj_amount n r = Inr ((strict, strict_fee), r1)))"
proof -
  define hard where "hard = hard_exclusions ob req"
  define soft where "soft = soft_exclusions ob req"
  have h: "hard = ob_own_nicks ob \<union> rq_hard req" by (simp add: hard_def hard_exclusions_def)
  have hs: "hard \<union> soft = ob_own_nicks ob \<union> rq_hard req \<union> ob_ignored ob \<union> rq_soft req"
    by (auto simp: hard_def soft_def hard_exclusions_def soft_exclusions_def)
  let ?ok = "selection_ok (request_rules ob req hard) (available_offers ob req)"
  show ?thesis using assms
  proof (cases rule: select_makers_cases)
    case (strict r1)
    note s = select_round_Inr [OF strict [folded hard_def soft_def]]
    have "?ok result" by (rule selection_ok_ignored [OF s(1)]) simp
    moreover have "set (dict_keys result) \<inter> (ob_ignored ob \<union> rq_soft req) = {}"
      using selection_ok_nick [OF s(1)] unfolding request_rules_def hs by auto
    ultimately show ?thesis using s(2,3,4) unfolding h by blast
  next
    case (topup strict sfee r1 topup tfee r2)
    note s = select_round_Inr [OF topup(1) [folded hard_def soft_def]]
    note t = select_round_Inr [OF topup(3) [folded hard_def soft_def]]
    have ok: "?ok strict" "?ok topup" using selection_ok_ignored [OF s(1)] selection_ok_ignored [OF t(1)] by simp_all
    have disj: "set (dict_keys strict) \<inter> set (dict_keys topup) = {}"
      using selection_ok_nick [OF t(1)] unfolding request_rules_def by auto
    then have res: "result = strict @ topup"
      unfolding topup(4) using ok(2) by (intro dict_of_distinct) (auto simp: selection_ok_def)
    have r: "?ok result" unfolding res by (rule selection_ok_append [OF ok disj])
    have "sizes_ok cj_amount result" using s(2) t(2) by (auto simp: res sizes_ok_def)
    moreover have "length result \<le> n" using topup(2) t(3) by (simp add: res)
    moreover have "selection_cost (ob_round_up ob) (ob_equalize ob) cj_amount (map snd result) = Inr fee"
    proof (cases "ob_equalize ob")
      case True
      with topup(6) obtain plan where "calculate_cj_fee_plan (map snd result) cj_amount (ob_round_up ob) True = Inr plan" "fee = plan_total plan"
        by blast
      moreover have "distinct (map counterparty (map snd result))"
        unfolding selection_ok_counterparty [OF r] using r by (simp add: selection_ok_def)
      ultimately show ?thesis using fee_plan_cost True by simp
    next
      case False
      with s(4) t(4) topup(5) show ?thesis by (simp add: res selection_cost_append)
    qed
    moreover have "select_round fo rng ob req (ob_own_nicks ob \<union> rq_hard req \<union> ob_ignored ob \<union> rq_soft req) cj_amount n r = Inr ((strict, sfee), r1)"
      using topup(1) unfolding hs [unfolded hard_def soft_def] .
    moreover have "set strict \<subseteq> set result" by (simp add: res)
    ultimately show ?thesis using r topup(2) unfolding h by blast
  qed
qed

section \<open>Sweeps\<close>

lemma format_f_no_e: "\<not> has_e (format_f d)"
proof -
  have "c \<noteq> CHR ''e'' \<and> c \<noteq> CHR ''E''" if "c \<in> set (nat_digits k)" for c k
    using that nat_digits_digits [of k] by (auto simp: list_all_iff is_digit_def)
  then show ?thesis by (auto simp: has_e_def format_f_def Let_def dest!: in_set_takeD in_set_dropD split: if_splits)
qed

definition plain_rate :: "string \<Rightarrow> string res" where
  "plain_rate fee = (if has_e fee then (case py_decimal fee of None \<Rightarrow> Inl InvalidOperation | Some d \<Rightarrow> Inr (format_f d)) else Inr fee)"

lemma plain_rate_fee: "plain_rate fee = Inr s \<Longrightarrow> calculate_relative_fee a s = calculate_relative_fee a fee"
proof (cases "has_e fee")
  case True
  assume "plain_rate fee = Inr s"
  with True obtain d where "py_decimal fee = Some d" "s = format_f d" by (auto simp: plain_rate_def split: option.splits)
  with True format_f_no_e [of d] show ?thesis by (simp add: calculate_relative_fee_def)
qed (simp add: plain_rate_def)

lemma sweep_loop_funded:
  "sweep_loop fees available s = Inr cj \<Longrightarrow> 0 < cj \<Longrightarrow> \<exists>vs. mapM_res (calculate_relative_fee cj) fees = Inr vs \<and> cj + sum_list vs \<le> available"
proof (induction fees available s rule: sweep_loop.induct)
  case (1 fees available s)
  show ?case
  proof (cases "0 < s")
    case True
    then have "sweep_loop fees available s = bind_res (mapM_res (calculate_relative_fee s) fees) (\<lambda>fs.
        if s + sum_list fs \<le> available then Inr s else sweep_loop fees available (s - 1))" by (subst sweep_loop.simps) simp
    with "1.prems"(1) obtain vs where vs: "mapM_res (calculate_relative_fee s) fees = Inr vs"
      and rest: "(if s + sum_list vs \<le> available then Inr s else sweep_loop fees available (s - 1)) = Inr cj"
      by (auto simp: bind_res_Inr_iff)
    show ?thesis
    proof (cases "s + sum_list vs \<le> available")
      case True
      with rest vs show ?thesis by auto
    next
      case False
      with rest "1.IH" [OF \<open>0 < s\<close> vs] "1.prems"(2) show ?thesis by simp
    qed
  next
    case False
    then have "sweep_loop fees available s = Inr s" by (subst sweep_loop.simps) simp
  with False "1.prems" show ?thesis by simp
  qed
qed

lemma sweep_amount_funded:
  assumes "calculate_sweep_amount available fees = Inr cj" "0 < cj"
  shows "\<exists>vs. mapM_res (calculate_relative_fee cj) fees = Inr vs \<and> cj + sum_list vs \<le> available"
proof (cases "fees = []")
  case True
  with assms show ?thesis by (auto simp: calculate_sweep_amount_def bind_res_Inr_iff)
next
  case False
  have "\<exists>rates s. mapM_res plain_rate fees = Inr rates \<and> sweep_loop rates available s = Inr cj"
    using assms(1) False unfolding plain_rate_def
    by (auto simp: calculate_sweep_amount_def bind_res_Inr_iff Let_def split: if_splits)
  then obtain rates s where r: "mapM_res plain_rate fees = Inr rates" and s: "sweep_loop rates available s = Inr cj" by blast
  obtain vs where vs: "mapM_res (calculate_relative_fee cj) rates = Inr vs" "cj + sum_list vs \<le> available"
    using sweep_loop_funded [OF s assms(2)] by blast
  have "mapM_res (calculate_relative_fee cj) fees = Inr vs"
    using r vs(1) plain_rate_fee by (fastforce simp: mapM_res_Inr_iff list_all2_conv_all_nth)
  with vs(2) show ?thesis by blast
qed

lemma split_fees_sum:
  "split_fees round_up offers = Inr (abs_sum, rates) \<Longrightarrow> mapM_res (calculate_relative_fee cj) rates = Inr vs \<Longrightarrow>
   \<exists>fs. mapM_res (\<lambda>ofr. taker_cj_fee ofr cj round_up) offers = Inr fs \<and> sum_list fs = abs_sum + sum_list vs"
proof (induction offers arbitrary: abs_sum rates vs)
  case (Cons ofr offers)
  then obtain policy where p: "paid_fee_policy ofr round_up = Inr (Some policy)"
    by (auto simp: bind_res_Inr_iff split: option.splits)
  show ?case
  proof (cases policy)
    case (Abs_policy fee)
    with Cons.prems(1) p obtain s where "split_fees round_up offers = Inr (s, rates)" "abs_sum = fee + s"
      by (auto simp: map_res_Inr_iff)
    with Cons.IH [of s rates vs] Cons.prems(2) p Abs_policy show ?thesis
      by (auto simp: taker_cj_fee_def policy_fee_def)
  next
    case (Rel_policy d)
    with Cons.prems(1) p obtain rs where rs: "split_fees round_up offers = Inr (abs_sum, rs)" "rates = dec_str d # rs"
      by (auto simp: map_res_Inr_iff)
    with Cons.prems(2) obtain v ws where "calculate_relative_fee cj (dec_str d) = Inr v" "mapM_res (calculate_relative_fee cj) rs = Inr ws" "vs = v # ws"
      by (auto simp: bind_res_Inr_iff)
    with Cons.IH [OF rs(1)] p Rel_policy show ?thesis by (fastforce simp: taker_cj_fee_def policy_fee_def)
  qed
qed simp

lemma equalized_search_funded:
  "equalized_search offers available round_up low high result = Inr cj \<Longrightarrow> cj = result \<or>
   (\<exists>plan. calculate_cj_fee_plan offers cj round_up True = Inr plan \<and> cj + plan_total plan \<le> available)"
proof (induction offers available round_up low high result rule: equalized_search.induct)
  case (1 offers available round_up low high result)
  show ?case
  proof (cases "low \<le> high")
    case True
    let ?c = "(low + high) div 2"
    have "equalized_search offers available round_up low high result = bind_res (calculate_cj_fee_plan offers ?c round_up True) (\<lambda>plan.
        if ?c + plan_total plan \<le> available then equalized_search offers available round_up (?c + 1) high ?c
        else equalized_search offers available round_up low (?c - 1) result)"
      using True by (subst equalized_search.simps) (simp add: Let_def)
    with "1.prems" obtain plan where plan: "calculate_cj_fee_plan offers ?c round_up True = Inr plan"
      and rest: "(if ?c + plan_total plan \<le> available then equalized_search offers available round_up (?c + 1) high ?c
         else equalized_search offers available round_up low (?c - 1) result) = Inr cj"
      by (auto simp: bind_res_Inr_iff)
    show ?thesis
    proof (cases "?c + plan_total plan \<le> available")
      case fits: True
      with rest "1.IH"(1) [OF True refl plan fits] plan show ?thesis by auto
    next
      case False
      with rest "1.IH"(2) [OF True refl plan False] show ?thesis by simp
    qed
  next
    case False
    then have "equalized_search offers available round_up low high result = Inr result" by (subst equalized_search.simps) simp
    with "1.prems" show ?thesis by simp
  qed
qed

lemma sweep_cj_amount_funded:
  assumes "sweep_cj_amount round_up equalize selected funds = Inr cj" "0 < cj" "distinct (map counterparty selected)"
  shows "\<exists>fee. selection_cost round_up equalize cj selected = Inr fee \<and> cj + fee \<le> funds"
proof (cases equalize)
  case True
  with assms(1,2) obtain plan where "calculate_cj_fee_plan selected cj round_up True = Inr plan" "cj + plan_total plan \<le> funds"
    using equalized_search_funded [of selected funds round_up 0 "max funds 0" 0 cj]
    by (auto simp: sweep_cj_amount_def calculate_equalized_sweep_amount_def)
  with fee_plan_cost [OF this(1) assms(3)] True show ?thesis by simp
next
  case False
  with assms(1) obtain s rates where "split_fees round_up selected = Inr (s, rates)" "calculate_sweep_amount (funds - s) rates = Inr cj"
    by (auto simp: sweep_cj_amount_def bind_res_Inr_iff)
  with sweep_amount_funded [OF this(2) assms(2)] split_fees_sum obtain fs where
    "mapM_res (\<lambda>ofr. taker_cj_fee ofr cj round_up) selected = Inr fs" "cj + sum_list fs \<le> funds" by fastforce
  with False show ?thesis by (auto simp: selection_cost_def map_res_Inr_iff)
qed

context order_chooser
begin

lemma choose_sweep_orders_Inr:
  assumes "choose_sweep_orders fo rng chooser rules policy equalize offers total_input my_txfee n r = Inr ((result, cj, fee), r')" "result \<noteq> []"
  shows "selection_ok rules offers result" "sizes_ok cj result" "bonds_distinct result" "length result \<le> n"
    "selection_cost (sr_round_up rules) equalize cj (map snd result) = Inr fee" "0 < cj \<Longrightarrow> cj + fee + my_txfee \<le> total_input"
proof -
  from assms obtain est pool selected r1 plan where p: "candidate_offers rules offers est n = Inr pool"
    and c: "choose_with_repeat_penalty fo rng chooser (rp_penalized policy) (rp_penalty policy) pool (min n (length pool)) r = Inr (selected, r1)"
    and cj: "sweep_cj_amount (sr_round_up rules) equalize selected (total_input - my_txfee) = Inr cj"
    and range: "\<not> list_ex (\<lambda>ofr. cj < minsize ofr \<or> maxsize ofr < cj) selected"
    and plan: "calculate_cj_fee_plan selected cj (sr_round_up rules) equalize = Inr plan"
    and res: "result = selection_of selected" "fee = plan_total plan"
    by (auto simp: choose_sweep_orders_def draw_simps map_res_Inr_iff split: if_splits)
  note s = selected_selection [OF p c]
  note d = selected_ok(1) [OF p c]
  show "selection_ok rules offers result" "bonds_distinct result" "length result \<le> n" using s(2,4,5) by (simp_all add: res(1))
  show "sizes_ok cj result" using range by (auto simp: sizes_ok_def res(1) s(1) list_ex_iff)
  have sel: "map snd result = selected" by (simp add: res(1) s(1) comp_def)
  show cost: "selection_cost (sr_round_up rules) equalize cj (map snd result) = Inr fee"
    unfolding sel res(2) by (rule fee_plan_cost [OF plan d])
  show "cj + fee + my_txfee \<le> total_input" if "0 < cj"
    using sweep_cj_amount_funded [OF cj that d] cost by (auto simp: sel)
qed

end

text \<open>C14: A sweep is funded. When the makers for a sweep are found and the amount is positive, the amount, the fees these makers
  are paid at this amount (each rounded, or all raised to the highest) and the taker's share of the transaction fee are at most
  the value of the inputs. The makers are different ones, no more than asked for, none of them excluded, on different fidelity bonds,
  and the amount is within the sizes each of them offers.\<close>

theorem choose_sweep_orders_funded:
  assumes "choose_sweep_orders fo rng (fidelity_bond_weighted_choose rng allowance zero_fee) rules policy equalize offers total_input my_txfee n r =
    Inr ((result, cj, fee), r')" "result \<noteq> []"
  shows "(0 < cj \<longrightarrow> cj + fee + my_txfee \<le> total_input) \<and> selection_cost (sr_round_up rules) equalize cj (map snd result) = Inr fee \<and>
    selection_ok rules offers result \<and> sizes_ok cj result \<and> bonds_distinct result \<and> length result \<le> n"
  using bonded.choose_sweep_orders_Inr [OF assms] by blast

section \<open>An example book\<close>

definition ex_market_offer :: "string \<Rightarrow> int \<Rightarrow> market_offer" where
  "ex_market_offer nick fee = \<lparr>counterparty = nick, oid = 0, ordertype = SW0_ABSOLUTE, minsize = 1000, maxsize = 1000000, txfee = 0,
     cjfee = FeeInt fee, fidelity_bond_value = 5,
     fidelity_bond_data = Some [(''utxo_txid'', Bond_text ''ab''), (''utxo_vout'', Bond_int 0)], neutrino_compat = False, offer_features = []\<rparr>"

definition ex_floats :: float_ops where
  "ex_floats = \<lparr>fo_pow = (\<lambda>_ _. 1), fo_add = (+), fo_sum = sum_list\<rparr>"

definition ex_market_rng :: "unit market_random" where
  "ex_market_rng = \<lparr>mr_random = (\<lambda>r. (0, r)), mr_uniform = (\<lambda>t r. (0, r)), mr_bits = (\<lambda>r. (0, r))\<rparr>"

definition ex_fee_limits :: max_cj_fee where
  "ex_fee_limits = \<lparr>mf_abs_fee = 500, mf_rel_fee = ''0.001''\<rparr>"

definition ex_market_rules :: selection_rules where
  "ex_market_rules = \<lparr>sr_max_fee = ex_fee_limits, sr_ignored = {''J5evil''}, sr_allowed = None, sr_min_nick_version = None, sr_required = [],
     sr_quantized = False, sr_round_up = False\<rparr>"

definition ex_no_penalty :: repeat_policy where
  "ex_no_penalty = \<lparr>rp_penalized = {}, rp_penalty = 1\<rparr>"

text \<open>A book with two makers on one fidelity bond, the second of them on the list of ignored makers.\<close>

definition ex_book :: orderbook where
  "ex_book = \<lparr>ob_max_fee = ex_fee_limits, ob_allowance = 0, ob_zero_fee = False, ob_quantized = False, ob_round_up = False, ob_equalize = False,
     ob_allowed = None, ob_offers = [ex_market_offer ''J5a'' 100, ex_market_offer ''J5b'' 200], ob_ignored = {''J5b''}, ob_honest = {}, ob_own_nicks = {},
     ob_file = None\<rparr>"

definition ex_maker_request :: maker_request where
  "ex_maker_request = \<lparr>rq_honest_only = False, rq_min_nick_version = None, rq_soft = {}, rq_hard = {}, rq_required = [], rq_penalized = {}\<rparr>"

lemma ex_choose: "choose_orders ex_floats ex_market_rng (fidelity_bond_weighted_choose ex_market_rng 0 True) ex_market_rules ex_no_penalty False
    [ex_market_offer ''J5a'' 100, ex_market_offer ''J5b'' 200, ex_market_offer ''J5evil'' 0] 5000 2 () = Inr (([(''J5a'', ex_market_offer ''J5a'' 100)], 100), ())"
  by code_simp

lemma ex_select: "select_makers ex_floats ex_market_rng ex_book ex_maker_request 5000 2 () =
    Inr (([(''J5a'', ex_market_offer ''J5a'' 100), (''J5b'', ex_market_offer ''J5b'' 200)], 300), ())"
  by code_simp

lemma ex_sweep: "choose_sweep_orders ex_floats ex_market_rng (fidelity_bond_weighted_choose ex_market_rng 0 True) ex_market_rules ex_no_penalty False
    [ex_market_offer ''J5a'' 100, ex_market_offer ''J5evil'' 0] 5000 300 1 () = Inr (([(''J5a'', ex_market_offer ''J5a'' 100)], 4600, 100), ())"
  by code_simp

theorem choose_orders_sound_witness:
  "selection_ok ex_market_rules [ex_market_offer ''J5a'' 100, ex_market_offer ''J5b'' 200, ex_market_offer ''J5evil'' 0] [(''J5a'', ex_market_offer ''J5a'' 100)] \<and>
   bonds_distinct [(''J5a'', ex_market_offer ''J5a'' 100)]"
  using choose_orders_sound [OF ex_choose] by blast

theorem select_makers_exclusions_witness:
  "selection_cost False False 5000 [ex_market_offer ''J5a'' 100, ex_market_offer ''J5b'' 200] = Inr 300 \<and>
   sizes_ok 5000 [(''J5a'', ex_market_offer ''J5a'' 100), (''J5b'', ex_market_offer ''J5b'' 200)]"
  using select_makers_exclusions [OF ex_select] by (simp add: ex_book_def)

theorem choose_sweep_orders_funded_witness:
  "selection_cost False False 4600 [ex_market_offer ''J5a'' 100] = Inr 100 \<and> (4600 :: int) + 100 + 300 \<le> 5000"
  using choose_sweep_orders_funded [OF ex_sweep] by (simp add: ex_market_rules_def)

text \<open>The second selection of the manager does not know the bonds of the first: the two makers it returns for the example stand on one
  bond.\<close>

lemma topup_shares_bond:
  "\<exists>result fee r. select_makers ex_floats ex_market_rng ex_book ex_maker_request 5000 2 () = Inr ((result, fee), r) \<and> \<not> bonds_distinct result"
proof -
  have "share_bond (ex_market_offer ''J5a'' 100) (ex_market_offer ''J5b'' 200)"
    by (simp add: share_bond_def bond_key_def has_bond_def ex_market_offer_def)
  then have "\<not> bonds_distinct [(''J5a'', ex_market_offer ''J5a'' 100), (''J5b'', ex_market_offer ''J5b'' 200)]" by (auto simp: bonds_distinct_def)
  with ex_select show ?thesis by blast
qed

end
