(* ===== verification/Tumbler_Plan.thy ===== *)
theory Tumbler_Plan
  imports Complex_Main Jm_Protocol Py_Dict Btc_Script
begin

text \<open>
  The plan of a tumble, \<open>tumbler/src/tumbler/plan.py\<close>: phases and plans with their validators, and what resuming a plan does. Times
  and fractions are rationals. The scripts of addresses come from a third-party library, which is a parameter.
\<close>

section \<open>Phases and plans\<close>

datatype phase_status =
  Phase_pending | Phase_running | Phase_awaiting_confirmation | Phase_completed | Phase_failed | Phase_cancelled | Phase_skipped

datatype plan_status = Plan_pending | Plan_running | Plan_completed | Plan_failed | Plan_cancelled

definition INTERNAL_DESTINATION :: string where
  "INTERNAL_DESTINATION = ''INTERNAL''"

record phase_base =
  ph_index :: nat
  ph_status :: phase_status
  ph_wait :: rat
  ph_started :: "rat option"
  ph_finished :: "rat option"
  ph_error :: "string option"
  ph_attempts :: nat

record taker_phase = phase_base +
  tp_mixdepth :: nat
  tp_amount :: "int option"
  tp_fraction :: "rat option"
  tp_counterparties :: int
  tp_destination :: string
  tp_txid :: "string option"
  tp_sigfigs :: "int option"

record maker_phase = phase_base +
  mp_duration :: "rat option"
  mp_target :: "int option"
  mp_idle :: "rat option"
  mp_served :: nat

datatype phase = Taker taker_phase | Maker maker_phase

fun base_of :: "phase \<Rightarrow> phase_base" where
  "base_of (Taker p) = phase_base.truncate p"
| "base_of (Maker p) = phase_base.truncate p"

definition opt_all :: "('a \<Rightarrow> bool) \<Rightarrow> 'a option \<Rightarrow> bool" where
  "opt_all P v = (case v of None \<Rightarrow> True | Some x \<Rightarrow> P x)"

definition validate_taker_phase :: "taker_phase \<Rightarrow> unit res" where
  "validate_taker_phase p =
     (if \<not> (0 \<le> ph_wait p \<and> tp_mixdepth p \<le> 9 \<and> opt_all (\<lambda>a. 0 \<le> a) (tp_amount p) \<and> opt_all (\<lambda>f. 0 \<le> f \<and> f \<le> 1) (tp_fraction p) \<and>
         1 \<le> tp_counterparties p \<and> tp_counterparties p \<le> 20 \<and> opt_all (\<lambda>s. 1 \<le> s \<and> s \<le> 8) (tp_sigfigs p))
      then Inl (ValueError ''field constraint'')
      else if tp_amount p = None \<and> tp_fraction p = None then Inl (ValueError ''TakerCoinjoinPhase requires amount or amount_fraction'')
      else if tp_amount p \<noteq> None \<and> tp_fraction p \<noteq> None then Inl (ValueError ''TakerCoinjoinPhase must not set both'')
      else Inr ())"

definition is_sweep :: "taker_phase \<Rightarrow> bool" where
  "is_sweep p \<longleftrightarrow> tp_amount p = Some 0 \<or> tp_fraction p = Some 0"

definition validate_maker_phase :: "maker_phase \<Rightarrow> unit res" where
  "validate_maker_phase p =
     (if \<not> (0 \<le> ph_wait p \<and> opt_all (\<lambda>d. 0 < d) (mp_duration p) \<and> opt_all (\<lambda>t. 1 \<le> t) (mp_target p) \<and> opt_all (\<lambda>t. 0 < t) (mp_idle p))
      then Inl (ValueError ''field constraint'')
      else if mp_duration p = None \<and> mp_target p = None then Inl (ValueError ''MakerSessionPhase requires duration_seconds or target_cj_count'')
      else Inr ())"

record plan_parameters =
  pp_maker_min :: int
  pp_maker_max :: int
  pp_time_lambda :: rat
  pp_maker_sessions :: bool
  pp_mincjamount :: int
  pp_max_retries :: int
  pp_seed :: "int option"

definition validate_plan_parameters :: "plan_parameters \<Rightarrow> unit res" where
  "validate_plan_parameters p =
     (if \<not> (1 \<le> pp_maker_min p \<and> pp_maker_min p \<le> 20 \<and> 1 \<le> pp_maker_max p \<and> pp_maker_max p \<le> 20 \<and> 0 < pp_time_lambda p \<and>
         0 \<le> pp_mincjamount p \<and> 0 \<le> pp_max_retries p \<and> pp_max_retries p \<le> 20)
      then Inl (ValueError ''field constraint'')
      else if pp_maker_max p < pp_maker_min p then Inl (ValueError ''maker_count_max must be >= maker_count_min'')
      else Inr ())"

record tumble_plan =
  pl_wallet_name :: string
  pl_updated_at :: rat
  pl_status :: plan_status
  pl_destinations :: "string list"
  pl_network :: "network_type option"
  pl_parameters :: plan_parameters
  pl_phases :: "phase list"
  pl_current :: nat
  pl_error :: "string option"
  pl_previous_keys :: "string list"

section \<open>Destinations\<close>

definition upper_char :: "char \<Rightarrow> char" where
  "upper_char c = (let n = (of_char c :: nat) in if 97 \<le> n \<and> n \<le> 122 then char_of (n - 32) else c)"

definition text_key :: "string \<Rightarrow> string" where
  "text_key d =
     (let low = ascii_lower d in
      if (starts_with low ''bc1'' \<or> starts_with low ''tb1'' \<or> starts_with low ''bcrt1'') \<and> (d = low \<or> d = map upper_char d) then low else d)"

fun check_destinations :: "(string \<Rightarrow> network_type \<Rightarrow> bytes option) \<Rightarrow> network_type option \<Rightarrow> string list \<Rightarrow> string list \<Rightarrow> bytes list \<Rightarrow> unit res" where
  "check_destinations script_of network [] texts scripts = Inr ()"
| "check_destinations script_of network (d # ds) texts scripts =
     (if strip d = [] then Inl (ValueError ''invalid destination: address is empty'')
      else if ascii_lower d = ascii_lower INTERNAL_DESTINATION then Inl (ValueError ''invalid destination: INTERNAL is not external'')
      else if text_key d \<in> set texts then Inl (ValueError ''duplicate destination'')
      else case network of
        None \<Rightarrow> check_destinations script_of network ds (text_key d # texts) scripts
      | Some net \<Rightarrow>
          (case script_of d net of
             None \<Rightarrow> Inl (ValueError ''invalid destination'')
           | Some script \<Rightarrow>
               if script \<in> set scripts then Inl (ValueError ''duplicate destination'')
               else check_destinations script_of network ds (text_key d # texts) (script # scripts)))"

definition validate_tumbler_destinations :: "(string \<Rightarrow> network_type \<Rightarrow> bytes option) \<Rightarrow> string list \<Rightarrow> network_type option \<Rightarrow> unit res" where
  "validate_tumbler_destinations script_of ds network = check_destinations script_of network ds [] []"

definition validate_tumble_plan :: "(string \<Rightarrow> network_type \<Rightarrow> bytes option) \<Rightarrow> tumble_plan \<Rightarrow> unit res" where
  "validate_tumble_plan script_of p =
     (if pl_destinations p = [] then Inl (ValueError ''field constraint'')
      else bind_res (validate_tumbler_destinations script_of (pl_destinations p) (pl_network p)) (\<lambda>_.
        if map (ph_index \<circ> base_of) (pl_phases p) \<noteq> [0..<length (pl_phases p)] then Inl (ValueError ''phases index must equal its list position'')
        else if length (pl_phases p) < pl_current p then Inl (ValueError ''current_phase exceeds number of phases'')
        else Inr ()))"

section \<open>Resuming\<close>

definition current :: "tumble_plan \<Rightarrow> phase option" where
  "current p = (if length (pl_phases p) \<le> pl_current p then None else Some (pl_phases p ! pl_current p))"

definition has_txid :: "taker_phase \<Rightarrow> bool" where
  "has_txid p \<longleftrightarrow> tp_txid p \<noteq> None \<and> tp_txid p \<noteq> Some []"

definition is_safely_resumable_confirmation_wait :: "tumble_plan \<Rightarrow> bool" where
  "is_safely_resumable_confirmation_wait p =
     (case current p of
        Some (Taker t) \<Rightarrow> has_txid t \<and> (ph_status t = Phase_awaiting_confirmation \<or>
          ph_status t = Phase_completed \<and> pl_current p + 1 < length (pl_phases p))
      | _ \<Rightarrow> False)"

definition rolls_back :: "phase \<Rightarrow> bool" where
  "rolls_back ph \<longleftrightarrow> ph_status (base_of ph) \<in> {Phase_failed, Phase_running, Phase_cancelled}"

fun roll_back :: "phase \<Rightarrow> phase" where
  "roll_back (Taker t) = Taker (t\<lparr>ph_status := Phase_pending, ph_error := None, ph_started := None, ph_finished := None\<rparr>)"
| "roll_back (Maker m) = Maker (m\<lparr>ph_status := Phase_pending, ph_error := None, ph_started := None, ph_finished := None\<rparr>)"

definition migrate_current :: "tumble_plan \<Rightarrow> phase list" where
  "migrate_current p =
     (case current p of
        Some (Taker t) \<Rightarrow>
          if ph_status t = Phase_completed \<and> has_txid t \<and> pl_current p + 1 < length (pl_phases p)
          then (pl_phases p)[pl_current p := Taker (t\<lparr>ph_status := Phase_awaiting_confirmation, ph_finished := None\<rparr>)]
          else pl_phases p
      | _ \<Rightarrow> pl_phases p)"

definition phase_done :: "phase \<Rightarrow> bool" where
  "phase_done ph \<longleftrightarrow> ph_status (base_of ph) = Phase_completed \<or> ph_status (base_of ph) = Phase_skipped"

definition reset_plan_for_resume :: "rat \<Rightarrow> tumble_plan \<Rightarrow> tumble_plan \<times> nat" where
  "reset_plan_for_resume now p =
     (let migrated = migrate_current p; phases = map (\<lambda>ph. if rolls_back ph then roll_back ph else ph) migrated in
      (p\<lparr>pl_phases := phases, pl_current := length (takeWhile phase_done phases), pl_status := Plan_pending, pl_error := None, pl_updated_at := now\<rparr>,
       length (filter rolls_back migrated)))"

text \<open>
  Resuming keeps what is done: every phase stays in place with its attempts and its transaction, a phase that is skipped or awaits its
  confirmation is unchanged, no phase is left failed, running or cancelled, and the plan continues at the first phase that is not done.
\<close>

lemma resumed_phase:
  assumes "reset_plan_for_resume now p = (q, n)" "i < length (pl_phases p)"
  obtains ph where "pl_phases q ! i = (if rolls_back ph then roll_back ph else ph)" "ph = migrate_current p ! i"
    "length (pl_phases q) = length (pl_phases p)"
proof -
  have len: "length (migrate_current p) = length (pl_phases p)"
    by (simp add: migrate_current_def split: option.splits phase.splits)
  then show ?thesis using assms that [of "migrate_current p ! i"] by (auto simp: reset_plan_for_resume_def Let_def)
qed

lemma migrate_current_nth:
  "i < length (pl_phases p) \<Longrightarrow> \<not> (i = pl_current p \<and> ph_status (base_of (pl_phases p ! i)) = Phase_completed) \<Longrightarrow>
   migrate_current p ! i = pl_phases p ! i"
  by (auto simp: migrate_current_def current_def nth_list_update phase_base.defs split: option.splits phase.splits if_splits)

lemma base_roll_back:
  "ph_attempts (base_of (roll_back ph)) = ph_attempts (base_of ph) \<and> ph_index (base_of (roll_back ph)) = ph_index (base_of ph) \<and>
   ph_status (base_of (roll_back ph)) = Phase_pending"
  by (cases ph) (simp_all add: phase_base.defs)

lemma resume_keeps:
  assumes "reset_plan_for_resume now p = (q, n)" "i < length (pl_phases p)"
    and "ph_status (base_of (pl_phases p ! i)) \<in> {Phase_skipped, Phase_awaiting_confirmation, Phase_pending} \<or>
      ph_status (base_of (pl_phases p ! i)) = Phase_completed \<and> i \<noteq> pl_current p"
  shows "pl_phases q ! i = pl_phases p ! i"
proof -
  obtain ph where "pl_phases q ! i = (if rolls_back ph then roll_back ph else ph)" "ph = migrate_current p ! i"
    using assms(1,2) by (rule resumed_phase)
  moreover have "migrate_current p ! i = pl_phases p ! i" using assms(2,3) by (intro migrate_current_nth) auto
  ultimately show ?thesis using assms(3) by (auto simp: rolls_back_def)
qed

lemma resume_none_stuck:
  assumes "reset_plan_for_resume now p = (q, n)" "ph \<in> set (pl_phases q)"
  shows "\<not> rolls_back ph"
  using assms by (auto simp: reset_plan_for_resume_def Let_def rolls_back_def base_roll_back)

lemma resume_current:
  assumes "reset_plan_for_resume now p = (q, n)"
  shows "(\<forall>i < pl_current q. phase_done (pl_phases q ! i)) \<and> (pl_current q < length (pl_phases q) \<longrightarrow> \<not> phase_done (pl_phases q ! pl_current q))"
proof -
  have c: "pl_current q = length (takeWhile phase_done (pl_phases q))" using assms by (auto simp: reset_plan_for_resume_def Let_def)
  show ?thesis unfolding c by (metis nth_length_takeWhile nth_mem set_takeWhileD takeWhile_nth)
qed

end
