(* ===== verification/Tumbler_Builder.thy ===== *)
theory Tumbler_Builder
  imports Tumbler_Plan
begin

text \<open>
  The plan builder, \<open>tumbler/src/tumbler/builder.py\<close>, and where the plans it builds move the funds. Numbers of type \<open>float\<close> are
  rationals. \<open>random.random\<close> and \<open>random.gauss\<close> are a parameter with its own state, \<open>math.log\<close> is a parameter; \<open>uniform\<close> and \<open>choices\<close>
  are computed from \<open>random\<close> as the standard library does.
\<close>

section \<open>Parameters and random numbers\<close>

record tumble_parameters =
  tu_destinations :: "string list"
  tu_balances :: "(nat, int) dict"
  tu_network :: "network_type option"
  tu_maker_min :: int
  tu_maker_max :: int
  tu_time_lambda :: rat
  tu_stage1_mult :: rat
  tu_maker_sessions :: bool
  tu_mincjamount :: int
  tu_session_seconds :: rat
  tu_session_idle :: "rat option"
  tu_mintxcount :: int
  tu_max_retries :: int
  tu_rounding_chance :: rat
  tu_weights :: "rat list"
  tu_seed :: "int option"

record 's rng =
  rng_random :: "'s \<Rightarrow> rat \<times> 's"
  rng_gauss :: "rat \<Rightarrow> rat \<Rightarrow> 's \<Rightarrow> rat \<times> 's"
  rng_log :: "rat \<Rightarrow> rat"

text \<open>Python's \<open>round\<close>: to the nearest, halves to even.\<close>

definition py_round :: "rat \<Rightarrow> int" where
  "py_round x =
     (let f = \<lfloor>x\<rfloor>; r = x - of_int f in
      if r < 1 / 2 then f else if 1 / 2 < r then f + 1 else if even f then f else f + 1)"

definition round4 :: "rat \<Rightarrow> rat" where
  "round4 x = of_int (py_round (x * 10000)) / 10000"

definition py_uniform :: "'s rng \<Rightarrow> rat \<Rightarrow> rat \<Rightarrow> 's \<Rightarrow> rat \<times> 's" where
  "py_uniform R a b s = (let (u, s') = rng_random R s in (a + (b - a) * u, s'))"

fun cumulative :: "rat \<Rightarrow> rat list \<Rightarrow> rat list" where
  "cumulative acc [] = []"
| "cumulative acc (w # ws) = (acc + w) # cumulative (acc + w) ws"

text \<open>\<open>random.choices(population, weights, k=1)[0]\<close>: \<open>bisect\<close> on the cumulative weights, up to the last but one.\<close>

definition py_choices :: "'s rng \<Rightarrow> int list \<Rightarrow> rat list \<Rightarrow> 's \<Rightarrow> (int \<times> 's) res" where
  "py_choices R population weights s =
     (let cum = cumulative 0 weights in
      if length cum \<noteq> length population then Inl (ValueError ''The number of weights does not match the population'')
      else if last (0 # cum) \<le> 0 then Inl (ValueError ''Total of weights must be greater than zero'')
      else let (u, s') = rng_random R s in
        Inr (population ! length (takeWhile (\<lambda>c. c \<le> u * last cum) (butlast cum)), s'))"

section \<open>Samples\<close>

definition sample_counterparty_count :: "'s rng \<Rightarrow> tumble_parameters \<Rightarrow> 's \<Rightarrow> int \<times> 's" where
  "sample_counterparty_count R P s =
     (let lo = tu_maker_min P; hi = tu_maker_max P;
          (v, s') = rng_gauss R (of_int (lo + hi) / 2) (max (of_int (hi - lo) / 4) (1 / 2)) s in
      (max lo (min hi (py_round v)), s'))"

definition sample_wait :: "'s rng \<Rightarrow> tumble_parameters \<Rightarrow> bool \<Rightarrow> 's \<Rightarrow> rat \<times> 's" where
  "sample_wait R P stage1 s =
     (let lam = tu_time_lambda P * (if stage1 then tu_stage1_mult P else 1); (u, s') = rng_random R s in
      (min (- rng_log R (max u (1 / 10 ^ 9)) * lam) (lam * 10), s'))"

definition sample_rounding_sigfigs :: "'s rng \<Rightarrow> tumble_parameters \<Rightarrow> 's \<Rightarrow> (int option \<times> 's) res" where
  "sample_rounding_sigfigs R P s =
     (if tu_rounding_chance P \<le> 0 then Inr (None, s)
      else let (u, s') = rng_random R s in
        if tu_rounding_chance P \<le> u then Inr (None, s')
        else bind_res (py_choices R [1, 2, 3, 4, 5] (tu_weights P) s') (\<lambda>(k, s''). Inr (Some k, s'')))"

fun draw_knives :: "'s rng \<Rightarrow> nat \<Rightarrow> 's \<Rightarrow> rat list \<times> 's" where
  "draw_knives R 0 s = ([], s)"
| "draw_knives R (Suc n) s = (let (u, s') = py_uniform R 0 1 s; (us, s'') = draw_knives R n s' in (u # us, s''))"

fun knife_gaps :: "rat \<Rightarrow> rat list \<Rightarrow> rat list" where
  "knife_gaps prev [] = []"
| "knife_gaps prev (k # ks) = max (k - prev) (1 / 20) # knife_gaps k ks"

definition scale_fractions :: "rat list \<Rightarrow> rat list" where
  "scale_fractions fs =
     (let total = sum_list fs + 1 / 20 in
      if 1 \<le> total then map (\<lambda>f. max (round4 (f * (9 / 10 / total))) (1 / 20)) fs else fs)"

definition destination_fractions :: "'s rng \<Rightarrow> int \<Rightarrow> 's \<Rightarrow> rat list \<times> 's" where
  "destination_fractions R mintxcount s =
     (let count = max (mintxcount - 1) 1 in
      if count = 1 then (let (u, s') = py_uniform R (3 / 10) (6 / 10) s in ([round4 u], s'))
      else (let (knives, s') = draw_knives R (nat count) s in (scale_fractions (knife_gaps 0 (sort knives)), s')))"

section \<open>The chain of stage 2\<close>

definition nonempty_mixdepths :: "tumble_parameters \<Rightarrow> nat list" where
  "nonempty_mixdepths P = sort (map fst (filter (\<lambda>(m, bal). 0 < bal) (tu_balances P)))"

definition wallet_mixdepth_count :: "tumble_parameters \<Rightarrow> nat" where
  "wallet_mixdepth_count P = Max (set (dict_keys (tu_balances P))) + 1"

fun advance_origins :: "nat \<Rightarrow> nat list \<Rightarrow> nat set \<Rightarrow> nat set" where
  "advance_origins W [] occupied = occupied"
| "advance_origins W (m # ms) occupied = advance_origins W ms (insert ((m + 1) mod W) (occupied - {m}))"

definition stage2_mixdepth_chain :: "tumble_parameters \<Rightarrow> nat list res" where
  "stage2_mixdepth_chain P =
     (if tu_balances P = [] then Inl (ValueError ''max() arg is an empty sequence'')
      else let W = wallet_mixdepth_count P;
               occupied = advance_origins W (rev (nonempty_mixdepths P)) (set (nonempty_mixdepths P)) in
        if occupied = {} then Inr []
        else Inr (map (\<lambda>off. (Min occupied + off) mod W) [0..<W - 1]))"

section \<open>Phases\<close>

definition new_taker :: "nat \<Rightarrow> nat \<Rightarrow> int option \<Rightarrow> rat option \<Rightarrow> int \<Rightarrow> string \<Rightarrow> rat \<Rightarrow> int option \<Rightarrow> phase res" where
  "new_taker n mixdepth amount fraction counterparties destination wait sigfigs =
     (let p = \<lparr>ph_index = n, ph_status = Phase_pending, ph_wait = wait, ph_started = None, ph_finished = None, ph_error = None,
               ph_attempts = 0, tp_mixdepth = mixdepth, tp_amount = amount, tp_fraction = fraction, tp_counterparties = counterparties,
               tp_destination = destination, tp_txid = None, tp_sigfigs = sigfigs\<rparr> in
      bind_res (validate_taker_phase p) (\<lambda>_. Inr (Taker p)))"

definition new_maker :: "nat \<Rightarrow> rat \<Rightarrow> rat option \<Rightarrow> rat \<Rightarrow> phase res" where
  "new_maker n duration idle wait =
     (let p = \<lparr>ph_index = n, ph_status = Phase_pending, ph_wait = wait, ph_started = None, ph_finished = None, ph_error = None,
               ph_attempts = 0, mp_duration = Some duration, mp_target = None, mp_idle = idle, mp_served = 0\<rparr> in
      bind_res (validate_maker_phase p) (\<lambda>_. Inr (Maker p)))"

fun stage1_cleavage :: "'s rng \<Rightarrow> tumble_parameters \<Rightarrow> nat list \<Rightarrow> nat \<Rightarrow> 's \<Rightarrow> (phase list \<times> nat \<times> 's) res" where
  "stage1_cleavage R P [] n s = Inr ([], n, s)"
| "stage1_cleavage R P (m # ms) n s =
     (if the (dict_get (tu_balances P) m) \<le> 0 then stage1_cleavage R P ms n s
      else let (count, s1) = sample_counterparty_count R P s; (wait, s2) = sample_wait R P True s1 in
        bind_res (new_taker n m (Some 0) None count INTERNAL_DESTINATION wait None) (\<lambda>ph.
        bind_res (stage1_cleavage R P ms (Suc n) s2) (\<lambda>(phs, n', s'). Inr (ph # phs, n', s'))))"

fun fraction_phases :: "'s rng \<Rightarrow> tumble_parameters \<Rightarrow> nat \<Rightarrow> rat list \<Rightarrow> nat \<Rightarrow> 's \<Rightarrow> (phase list \<times> nat \<times> 's) res" where
  "fraction_phases R P m [] n s = Inr ([], n, s)"
| "fraction_phases R P m (f # fs) n s =
     (let (count, s1) = sample_counterparty_count R P s; (wait, s2) = sample_wait R P False s1 in
      bind_res (sample_rounding_sigfigs R P s2) (\<lambda>(sigfigs, s3).
      bind_res (new_taker n m None (Some f) count INTERNAL_DESTINATION wait sigfigs) (\<lambda>ph.
      bind_res (fraction_phases R P m fs (Suc n) s3) (\<lambda>(phs, n', s'). Inr (ph # phs, n', s')))))"

definition maker_phases :: "'s rng \<Rightarrow> tumble_parameters \<Rightarrow> nat \<Rightarrow> 's \<Rightarrow> (phase list \<times> nat \<times> 's) res" where
  "maker_phases R P n s =
     (if tu_maker_sessions P
      then let (wait, s') = sample_wait R P False s in
        bind_res (new_maker n (tu_session_seconds P) (tu_session_idle P) wait) (\<lambda>ph. Inr ([ph], Suc n, s'))
      else Inr ([], n, s))"

definition sweep_phase :: "'s rng \<Rightarrow> tumble_parameters \<Rightarrow> nat \<Rightarrow> string \<Rightarrow> bool \<Rightarrow> nat \<Rightarrow> 's \<Rightarrow> (phase list \<times> nat \<times> 's) res" where
  "sweep_phase R P m destination is_last n s =
     (let (count, s1) = sample_counterparty_count R P s; (wait, s2) = (if is_last then (0, s1) else sample_wait R P False s1) in
      bind_res (new_taker n m (Some 0) None count destination wait None) (\<lambda>ph. Inr ([ph], Suc n, s2)))"

definition stage2_fractions :: "'s rng \<Rightarrow> tumble_parameters \<Rightarrow> nat \<Rightarrow> bool \<Rightarrow> nat \<Rightarrow> 's \<Rightarrow> (phase list \<times> nat \<times> 's) res" where
  "stage2_fractions R P m is_last n s =
     (if is_last then Inr ([], n, s)
      else let (fs, s') = destination_fractions R (tu_mintxcount P) s in fraction_phases R P m fs n s')"

fun stage2_blocks :: "'s rng \<Rightarrow> tumble_parameters \<Rightarrow> (nat, string) dict \<Rightarrow> nat list \<Rightarrow> nat \<Rightarrow> 's \<Rightarrow> (phase list \<times> nat \<times> 's) res" where
  "stage2_blocks R P dmap [] n s = Inr ([], n, s)"
| "stage2_blocks R P dmap (m # ms) n s =
     bind_res (maker_phases R P n s) (\<lambda>(makers, n1, s1).
     bind_res (stage2_fractions R P m (ms = []) n1 s1) (\<lambda>(fractions, n2, s2).
     bind_res (sweep_phase R P m (case dict_get dmap m of None \<Rightarrow> INTERNAL_DESTINATION | Some d \<Rightarrow> d) (ms = []) n2 s2) (\<lambda>(sweeps, n3, s3).
     bind_res (stage2_blocks R P dmap ms n3 s3) (\<lambda>(phs, n', s'). Inr (makers @ fractions @ sweeps @ phs, n', s')))))"

definition destination_map :: "nat list \<Rightarrow> string list \<Rightarrow> (nat, string) dict" where
  "destination_map chain dests = dict_of (zip (drop (length chain - length dests) chain) dests) []"

definition stage2_destinations :: "'s rng \<Rightarrow> tumble_parameters \<Rightarrow> nat \<Rightarrow> 's \<Rightarrow> (phase list \<times> nat \<times> 's) res" where
  "stage2_destinations R P n s =
     bind_res (stage2_mixdepth_chain P) (\<lambda>chain. stage2_blocks R P (destination_map chain (tu_destinations P)) chain n s)"

definition build :: "'s rng \<Rightarrow> (string \<Rightarrow> network_type \<Rightarrow> bytes option) \<Rightarrow> rat \<Rightarrow> string \<Rightarrow> tumble_parameters \<Rightarrow> 's \<Rightarrow> tumble_plan res" where
  "build R script_of now wallet_name P s =
     (if tu_destinations P = [] then Inl (ValueError ''at least one destination address is required'')
      else bind_res (stage2_mixdepth_chain P) (\<lambda>chain.
        if length chain < length (tu_destinations P) then Inl (ValueError ''tumble requires at least as many usable mixdepths as destinations'')
        else bind_res (stage1_cleavage R P (rev (sort (dict_keys (tu_balances P)))) 0 s) (\<lambda>(first, n, s1).
          bind_res (stage2_destinations R P n s1) (\<lambda>(second, n', s2).
            let params = \<lparr>pp_maker_min = tu_maker_min P, pp_maker_max = tu_maker_max P, pp_time_lambda = tu_time_lambda P,
                          pp_maker_sessions = tu_maker_sessions P, pp_mincjamount = tu_mincjamount P, pp_max_retries = tu_max_retries P,
                          pp_seed = tu_seed P\<rparr>;
                plan = \<lparr>pl_wallet_name = wallet_name, pl_updated_at = now, pl_status = Plan_pending, pl_destinations = tu_destinations P,
                        pl_network = tu_network P, pl_parameters = params, pl_phases = first @ second, pl_current = 0, pl_error = None,
                        pl_previous_keys = []\<rparr> in
            bind_res (validate_plan_parameters params) (\<lambda>_. bind_res (validate_tumble_plan script_of plan) (\<lambda>_. Inr plan))))))"

section \<open>Where a plan moves the funds\<close>

text \<open>
  The mixdepths that hold funds and the destinations paid, as the runner executes a phase that does not fail: an \<open>INTERNAL\<close> destination is the
  next mixdepth of the wallet (\<open>_resolve_destination\<close>), a phase whose mixdepth holds nothing is skipped (\<open>_mark_skipped_if_unfunded\<close>), a sweep or
  the fraction 1 empties the mixdepth. A maker session serves any number of CoinJoins, \<open>serve\<close> of the index of the phase, each from one mixdepth:
  it moves the amount to the next mixdepth (\<open>maker/coinjoin.py\<close>) and leaves change where it was, since \<open>required_maker_input\<close> reserves more than the
  dust limit for it and \<open>verify_unsigned_transaction\<close> rejects a transaction without it.
\<close>

definition empties :: "taker_phase \<Rightarrow> bool" where
  "empties t \<longleftrightarrow> is_sweep t \<or> tp_fraction t = Some 1"

definition resolve_destination :: "nat \<Rightarrow> taker_phase \<Rightarrow> nat + string" where
  "resolve_destination W t =
     (if tp_destination t \<noteq> INTERNAL_DESTINATION then Inr (tp_destination t) else Inl ((tp_mixdepth t + 1) mod W))"

definition cj_output_mixdepth :: "nat \<Rightarrow> nat \<Rightarrow> nat" where
  "cj_output_mixdepth W m = (m + 1) mod W"

definition serve_cj :: "nat \<Rightarrow> nat \<Rightarrow> nat set \<Rightarrow> nat set" where
  "serve_cj W m occ = (if m \<in> occ then insert (cj_output_mixdepth W m) occ else occ)"

fun run_phase :: "nat \<Rightarrow> (nat \<Rightarrow> nat list) \<Rightarrow> phase \<Rightarrow> nat set \<times> string list \<Rightarrow> nat set \<times> string list" where
  "run_phase W serve (Maker p) (occ, paid) = (fold (serve_cj W) (serve (ph_index p)) occ, paid)"
| "run_phase W serve (Taker t) (occ, paid) =
     (if tp_mixdepth t \<notin> occ then (occ, paid)
      else let occ' = (if empties t then occ - {tp_mixdepth t} else occ) in
        case resolve_destination W t of
          Inl m \<Rightarrow> (insert m occ', paid)
        | Inr d \<Rightarrow> (occ', paid @ [d]))"

definition run_phases :: "nat \<Rightarrow> (nat \<Rightarrow> nat list) \<Rightarrow> phase list \<Rightarrow> nat set \<times> string list \<Rightarrow> nat set \<times> string list" where
  "run_phases W serve phs st = fold (run_phase W serve) phs st"

text \<open>The funds that stay in the wallet when the sessions spare the end of the chain.\<close>

definition stranded :: "nat \<Rightarrow> nat set \<Rightarrow> nat set" where
  "stranded W N = (if W - 1 \<in> N \<and> W - 2 \<in> N \<and> 0 \<notin> N then {W - 1} else {})"

text \<open>No session serves from the last mixdepth of the chain or from the one that the chain omits, the next one.\<close>

definition spares :: "nat \<Rightarrow> nat list \<Rightarrow> (nat \<Rightarrow> nat list) \<Rightarrow> bool" where
  "spares W chain serve \<longleftrightarrow> (\<forall>i. last chain \<notin> set (serve i) \<and> (last chain + 1) mod W \<notin> set (serve i))"


section \<open>Fractions\<close>

lemma py_round_close: "\<bar>of_int (py_round x) - x\<bar> \<le> 1 / 2"
proof -
  have low: "of_int \<lfloor>x\<rfloor> \<le> x" and high: "x < of_int \<lfloor>x\<rfloor> + 1" by linarith+
  consider "py_round x = \<lfloor>x\<rfloor>" "x - of_int \<lfloor>x\<rfloor> \<le> 1 / 2" | "py_round x = \<lfloor>x\<rfloor> + 1" "1 / 2 \<le> x - of_int \<lfloor>x\<rfloor>"
    by (force simp: py_round_def Let_def split: if_splits)
  then show ?thesis
  proof cases
    case 1
    then show ?thesis unfolding 1(1) using low by linarith
  next
    case 2
    then show ?thesis unfolding 2(1) using high by (simp add: abs_if)
  qed
qed

lemma round4_close: "\<bar>round4 x - x\<bar> \<le> 1 / 20000"
  using py_round_close [of "x * 10000"] by (simp add: round4_def abs_if field_simps split: if_splits)

lemma knife_gaps_large: "f \<in> set (knife_gaps prev ks) \<Longrightarrow> 1 / 20 \<le> f"
  by (induction prev ks rule: knife_gaps.induct) (auto simp: max_def)

lemma length_knife_gaps [simp]: "length (knife_gaps prev ks) = length ks"
  by (induction prev ks rule: knife_gaps.induct) auto

lemma length_draw_knives: "length (fst (draw_knives R n s)) = n"
  by (induction R n s rule: draw_knives.induct) (auto simp: Let_def split: prod.splits)

lemma scale_fractions_range:
  assumes "\<And>g. g \<in> set fs \<Longrightarrow> 1 / 20 \<le> g" "f \<in> set (scale_fractions fs)"
  shows "0 < f \<and> f < 1"
proof -
  define total where "total = sum_list fs + 1 / 20"
  have below: "g < total" if "g \<in> set fs" for g
    using member_le_sum_list [OF that] assms(1) by (force simp: total_def)
  show ?thesis
  proof (cases "1 \<le> total")
    case True
    then obtain g where g: "g \<in> set fs" "f = max (round4 (g * (9 / 10 / total))) (1 / 20)"
      using assms(2) by (auto simp: scale_fractions_def Let_def total_def [symmetric])
    have "g * (9 / 10 / total) \<le> 9 / 10" using below [OF g(1)] True by (simp add: field_simps)
    with round4_close [of "g * (9 / 10 / total)"] show ?thesis unfolding g(2) by (simp add: abs_if split: if_splits)
  next
    case False
    then have "f \<in> set fs" using assms(2) by (simp add: scale_fractions_def Let_def total_def [symmetric])
    then show ?thesis using below [of f] assms(1) [of f] False by simp
  qed
qed

lemma destination_fractions_range:
  assumes rnd: "\<And>s. 0 \<le> fst (rng_random R s) \<and> fst (rng_random R s) < 1"
    and f: "f \<in> set (fst (destination_fractions R k s))"
  shows "0 < f \<and> f < 1"
proof (cases "max (k - 1) 1 = 1")
  case True
  obtain u s' where u: "rng_random R s = (u, s')" by (cases "rng_random R s")
  have "f = round4 (3 / 10 + 3 / 10 * u)" "0 \<le> u" "u < 1"
    using f True rnd [of s] u by (simp_all add: destination_fractions_def py_uniform_def Let_def)
  with round4_close [of "3 / 10 + 3 / 10 * u"] show ?thesis by (simp add: abs_if split: if_splits)
next
  case False
  obtain ks s' where "draw_knives R (nat (max (k - 1) 1)) s = (ks, s')" by fastforce
  then have "f \<in> set (scale_fractions (knife_gaps 0 (sort ks)))"
    using f False unfolding destination_fractions_def Let_def by (simp only: if_False prod.case fst_conv)
  then show ?thesis using scale_fractions_range knife_gaps_large by blast
qed

lemma length_scale_fractions [simp]: "length (scale_fractions fs) = length fs"
  by (simp add: scale_fractions_def Let_def)

lemma destination_fractions_nonempty: "fst (destination_fractions R k s) \<noteq> []"
proof (cases "max (k - 1) 1 = 1")
  case True
  then show ?thesis by (simp add: destination_fractions_def Let_def split: prod.splits)
next
  case False
  obtain ks s' where ks: "draw_knives R (nat (max (k - 1) 1)) s = (ks, s')" by fastforce
  have "fst (destination_fractions R k s) = scale_fractions (knife_gaps 0 (sort ks))"
    using False ks unfolding destination_fractions_def Let_def by (simp only: if_False prod.case fst_conv)
  moreover have "length ks = nat (max (k - 1) 1)" using length_draw_knives [of R "nat (max (k - 1) 1)" s] ks by simp
  ultimately have "length (fst (destination_fractions R k s)) = nat (max (k - 1) 1)" by simp
  then show ?thesis by (auto simp: max_def split: if_splits)
qed

section \<open>Running the phases\<close>

lemma run_phases_append [simp]: "run_phases W serve (xs @ ys) st = run_phases W serve ys (run_phases W serve xs st)"
  by (simp add: run_phases_def)

lemma run_phases_Nil [simp]: "run_phases W serve [] st = st"
  by (simp add: run_phases_def)

lemma run_phases_Cons [simp]: "run_phases W serve (p # ps) st = run_phases W serve ps (run_phase W serve p st)"
  by (simp add: run_phases_def)

lemma new_taker_Inr:
  "new_taker n m a f c d w g = Inr ph \<Longrightarrow> \<exists>t. ph = Taker t \<and> tp_mixdepth t = m \<and> tp_amount t = a \<and> tp_fraction t = f \<and> tp_destination t = d \<and> ph_index t = n"
  by (auto simp: new_taker_def Let_def bind_res_Inr_iff)

lemma sweep_run:
  assumes "new_taker n m (Some 0) None c d w g = Inr ph" "m \<in> occ"
  shows "run_phase W serve ph (occ, paid) =
    (if d = INTERNAL_DESTINATION then (insert ((m + 1) mod W) (occ - {m}), paid) else (occ - {m}, paid @ [d]))"
  using new_taker_Inr [OF assms(1)] assms(2) by (auto simp: empties_def is_sweep_def resolve_destination_def Let_def)

lemma fraction_run:
  assumes "new_taker n m None (Some f) c INTERNAL_DESTINATION w g = Inr ph" "m \<in> occ" "0 < f" "f < 1"
  shows "run_phase W serve ph (occ, paid) = (insert ((m + 1) mod W) occ, paid)"
  using new_taker_Inr [OF assms(1)] assms(2-) by (auto simp: empties_def is_sweep_def resolve_destination_def Let_def)

lemma maker_phases_run:
  assumes "maker_phases R P n s = Inr (phs, n', s')"
  obtains i where "run_phases W serve phs (occ, paid) = (fold (serve_cj W) (serve i) occ, paid)"
    | "run_phases W serve phs (occ, paid) = (occ, paid)"
  using assms by (auto simp: maker_phases_def new_maker_def Let_def bind_res_Inr_iff split: if_splits prod.splits)

lemma serve_grows: "occ \<subseteq> fold (serve_cj W) ks occ"
proof (induction ks arbitrary: occ)
  case (Cons k ks)
  have "occ \<subseteq> serve_cj W k occ" by (auto simp: serve_cj_def)
  also have "\<dots> \<subseteq> fold (serve_cj W) ks (serve_cj W k occ)" by (rule Cons.IH)
  finally show ?case by simp
qed simp

text \<open>Served CoinJoins stay in \<open>B\<close> when their output does.\<close>

lemma serve_stays:
  "(\<And>k. k \<in> set ks \<Longrightarrow> k \<in> occ \<union> B \<Longrightarrow> (k + 1) mod W \<in> B) \<Longrightarrow> fold (serve_cj W) ks occ \<subseteq> occ \<union> B"
proof (induction ks arbitrary: occ)
  case (Cons k ks)
  have sub: "serve_cj W k occ \<subseteq> occ \<union> B" using Cons.prems [of k] by (auto simp: serve_cj_def cj_output_mixdepth_def)
  have "fold (serve_cj W) ks (serve_cj W k occ) \<subseteq> serve_cj W k occ \<union> B"
    using Cons.prems sub by (intro Cons.IH) auto
  with sub show ?case by auto
qed simp

lemma chain_next:
  "successively (\<lambda>a b. b = (a + 1) mod W) (m # ms) \<Longrightarrow> k \<in> set (m # ms) \<Longrightarrow> k \<noteq> last (m # ms) \<Longrightarrow> (k + 1) mod W \<in> set ms"
proof (induction ms arbitrary: m)
  case (Cons m' ms)
  then show ?case by (cases "k = m") auto
qed simp

lemma session_stays:
  assumes "maker_phases R P n s = Inr (phs, n', s')" "successively (\<lambda>a b. b = (a + 1) mod W) (m # ms)"
  obtains occ1 where "run_phases W serve phs (occ, paid) = (occ1, paid)" "occ \<subseteq> occ1"
    "spares W (m # ms) serve \<Longrightarrow> occ - set (m # ms) \<subseteq> {(last (m # ms) + 1) mod W} \<Longrightarrow> occ1 \<subseteq> occ \<union> set ms"
proof (rule maker_phases_run [OF assms(1), of W serve occ paid])
  fix i
  assume run: "run_phases W serve phs (occ, paid) = (fold (serve_cj W) (serve i) occ, paid)"
  have "fold (serve_cj W) (serve i) occ \<subseteq> occ \<union> set ms"
    if sp: "spares W (m # ms) serve" "occ - set (m # ms) \<subseteq> {(last (m # ms) + 1) mod W}"
  proof (rule serve_stays)
    fix k
    assume k: "k \<in> set (serve i)" "k \<in> occ \<union> set ms"
    then have "k \<noteq> last (m # ms)" "k \<noteq> (last (m # ms) + 1) mod W" using sp(1) unfolding spares_def by metis+
    moreover from this have "k \<in> set (m # ms)" using k(2) sp(2) by auto
    ultimately show "(k + 1) mod W \<in> set ms" using chain_next [OF assms(2)] by blast
  qed
  then show thesis using that [OF run] serve_grows by blast
next
  assume "run_phases W serve phs (occ, paid) = (occ, paid)"
  then show thesis using that by blast
qed

lemma fraction_phases_run:
  assumes "fraction_phases R P m fs n s = Inr (phs, n', s')" "m \<in> occ" "\<And>f. f \<in> set fs \<Longrightarrow> 0 < f \<and> f < 1"
  shows "run_phases W serve phs (occ, paid) = (if fs = [] then occ else insert ((m + 1) mod W) occ, paid)"
  using assms
proof (induction fs arbitrary: n s phs n' s' occ)
  case Nil
  then show ?case by simp
next
  case (Cons f fs)
  from Cons.prems(1) obtain c w g ph rest n1 s1 where
    ph: "new_taker n m None (Some f) c INTERNAL_DESTINATION w g = Inr ph"
    and rest: "fraction_phases R P m fs (Suc n) s1 = Inr (rest, n', s')" and phs: "phs = ph # rest"
    by (auto simp: Let_def bind_res_Inr_iff split: prod.splits)
  have "run_phase W serve ph (occ, paid) = (insert ((m + 1) mod W) occ, paid)" using fraction_run [OF ph Cons.prems(2)] Cons.prems(3) by simp
  moreover have "run_phases W serve rest (insert ((m + 1) mod W) occ, paid) = (insert ((m + 1) mod W) occ, paid)"
    using Cons.IH [OF rest, of "insert ((m + 1) mod W) occ"] Cons.prems(2,3) by (auto split: if_splits)
  ultimately show ?case by (simp add: phs)
qed


section \<open>Stage 1\<close>

lemma nonempty_filter:
  fixes d :: "(nat, int) dict"
  assumes "distinct (dict_keys d)"
  shows "map fst (filter (\<lambda>(m, bal). 0 < bal) d) = filter (\<lambda>m. \<not> the (dict_get d m) \<le> 0) (dict_keys d)"
proof -
  have "filter (\<lambda>(m, bal). 0 < bal) d = filter ((\<lambda>m. \<not> the (dict_get d m) \<le> 0) \<circ> fst) d"
    using assms by (intro filter_cong) (auto dest: map_of_is_SomeI)
  then show ?thesis by (simp add: filter_map)
qed

lemma nonempty_mixdepths_desc:
  "distinct (dict_keys (tu_balances P)) \<Longrightarrow>
   filter (\<lambda>m. \<not> the (dict_get (tu_balances P) m) \<le> 0) (rev (sort (dict_keys (tu_balances P)))) = rev (nonempty_mixdepths P)"
  unfolding nonempty_mixdepths_def by (subst nonempty_filter) (simp_all add: rev_filter [symmetric] filter_sort)

lemma stage1_run:
  assumes "stage1_cleavage R P ms n s = Inr (phs, n', s')" "distinct ms"
    and "\<And>m. m \<in> set ms \<Longrightarrow> \<not> the (dict_get (tu_balances P) m) \<le> 0 \<Longrightarrow> m \<in> occ"
  shows "run_phases W serve phs (occ, paid) = (advance_origins W (filter (\<lambda>m. \<not> the (dict_get (tu_balances P) m) \<le> 0) ms) occ, paid)"
  using assms
proof (induction ms arbitrary: n s phs occ)
  case Nil
  then show ?case by simp
next
  case (Cons m ms)
  show ?case
  proof (cases "the (dict_get (tu_balances P) m) \<le> 0")
    case True
    then show ?thesis using Cons.prems by (simp add: Cons.IH)
  next
    case False
    with Cons.prems(1) obtain c w ph rest s1 where
      ph: "new_taker n m (Some 0) None c INTERNAL_DESTINATION w None = Inr ph"
      and rest: "stage1_cleavage R P ms (Suc n) s1 = Inr (rest, n', s')" and phs: "phs = ph # rest"
      by (auto simp: Let_def bind_res_Inr_iff split: prod.splits)
    have "m \<in> occ" using Cons.prems(3) False by simp
    from sweep_run [OF ph this] have "run_phase W serve ph (occ, paid) = (insert ((m + 1) mod W) (occ - {m}), paid)" by simp
    moreover have "run_phases W serve rest (insert ((m + 1) mod W) (occ - {m}), paid) =
      (advance_origins W (filter (\<lambda>m. \<not> the (dict_get (tu_balances P) m) \<le> 0) ms) (insert ((m + 1) mod W) (occ - {m})), paid)"
      using Cons.prems(2,3) by (intro Cons.IH [OF rest]) auto
    ultimately show ?thesis using False by (simp add: phs)
  qed
qed

text \<open>Sweeping downwards shifts every mixdepth up by one, and the top one to 0.\<close>

lemma advance_below_top:
  "sorted_wrt (>) ys \<Longrightarrow> (\<And>y. y \<in> set ys \<Longrightarrow> Suc y < W) \<Longrightarrow> advance_origins W ys occ = (occ - set ys) \<union> Suc ` set ys"
proof (induction ys arbitrary: occ)
  case Nil
  then show ?case by simp
next
  case (Cons y ys)
  have "Suc y mod W = Suc y" using Cons.prems(2) [of y] by simp
  moreover have "Suc y \<notin> set ys" using Cons.prems(1) by auto
  ultimately show ?case using Cons.IH [of "insert (Suc y) (occ - {y})"] Cons.prems by auto
qed

lemma advance_origins_desc:
  assumes desc: "sorted_wrt (>) ys" and bound: "\<And>y. y \<in> set ys \<Longrightarrow> y < W"
  shows "advance_origins W ys (set ys) = (if W - 1 \<in> set ys \<and> 0 \<notin> set ys - {W - 1} then {0} else {}) \<union> Suc ` (set ys - {W - 1})"
proof (cases "W - 1 \<in> set ys")
  case True
  then obtain y rest where ys: "ys = y # rest" by (cases ys) auto
  have y: "y = W - 1" "0 < W" using True bound [of y] desc ys by (force, force)
  have below: "Suc z < W" if "z \<in> set rest" for z using desc y that by (auto simp: ys)
  have "(W - 1) \<notin> set rest" using below by fastforce
  moreover have "(y + 1) mod W = 0" using y by simp
  ultimately show ?thesis using advance_below_top [of rest W "insert 0 (set rest)"] desc below y(1) by (auto simp: ys)
next
  case False
  have "Suc y < W" if "y \<in> set ys" for y using bound [OF that] False that by (cases "y = W - 1") auto
  then show ?thesis using advance_below_top [OF desc] False by auto
qed

section \<open>Stage 2\<close>

definition payout :: "(nat, string) dict \<Rightarrow> nat list \<Rightarrow> string list" where
  "payout dmap ms = concat (map (\<lambda>m. case dict_get dmap m of None \<Rightarrow> [] | Some d \<Rightarrow> [d]) ms)"

lemma payout_zip: "length ms = length ds \<Longrightarrow> distinct ms \<Longrightarrow> payout (zip ms ds) ms = ds"
proof (induction ms ds rule: list_induct2)
  case Nil
  then show ?case by (simp add: payout_def)
next
  case (Cons m ms d ds)
  have "payout (zip (m # ms) (d # ds)) ms = payout (zip ms ds) ms"
    unfolding payout_def using Cons.prems by (intro arg_cong [of _ _ concat] map_cong) auto
  then show ?case using Cons by (simp add: payout_def)
qed

lemma destination_map_zip:
  assumes "distinct chain" "length ds \<le> length chain"
  shows "destination_map chain ds = zip (drop (length chain - length ds) chain) ds"
  using assms by (simp add: destination_map_def dict_of_distinct)

lemma payout_destination_map:
  assumes "distinct chain" "length ds \<le> length chain"
  shows "payout (destination_map chain ds) chain = ds"
proof -
  define i where "i = length chain - length ds"
  have len: "length (drop i chain) = length ds" using assms(2) by (simp add: i_def)
  have dm: "destination_map chain ds = zip (drop i chain) ds"
    using destination_map_zip [OF assms] by (simp add: i_def)
  have chain: "chain = take i chain @ drop i chain" by simp
  have "dict_get (zip (drop i chain) ds) m = None" if "m \<in> set (take i chain)" for m
    using that len set_take_disj_set_drop_if_distinct [OF assms(1), of i i] by (auto simp: map_of_eq_None_iff dest: set_zip_leftD)
  then have "payout (zip (drop i chain) ds) (take i chain) = []" by (simp add: payout_def)
  moreover have "payout (zip (drop i chain) ds) chain = payout (zip (drop i chain) ds) (take i chain) @ payout (zip (drop i chain) ds) (drop i chain)"
    unfolding payout_def by (subst (1) chain) (simp only: map_append concat_append)
  ultimately show ?thesis using payout_zip [OF len] assms(1) dm by simp
qed

lemma stage2_fractions_run:
  assumes rnd: "\<And>s. 0 \<le> fst (rng_random R s) \<and> fst (rng_random R s) < 1"
    and st: "stage2_fractions R P m is_last n s = Inr (phs, n', s')" and "m \<in> occ"
  shows "run_phases W serve phs (occ, paid) = (if is_last then occ else insert ((m + 1) mod W) occ, paid)"
proof (cases is_last)
  case True
  then show ?thesis using st by (simp add: stage2_fractions_def)
next
  case False
  obtain fs s1 where fs: "destination_fractions R (tu_mintxcount P) s = (fs, s1)" by fastforce
  have "0 < f \<and> f < 1" if "f \<in> set fs" for f using destination_fractions_range [OF rnd, where f = f and k = "tu_mintxcount P" and s = s] fs that by simp
  moreover have "fs \<noteq> []" using destination_fractions_nonempty [of R "tu_mintxcount P" s] fs by simp
  ultimately show ?thesis using fraction_phases_run [of R P m fs n s1 phs n' s' occ W serve paid] st fs False assms(3)
    by (simp add: stage2_fractions_def)
qed

lemma stage2_blocks_run:
  assumes rnd: "\<And>s. 0 \<le> fst (rng_random R s) \<and> fst (rng_random R s) < 1"
    and "stage2_blocks R P dmap ms n s = Inr (phs, n', s')" "ms \<noteq> []" "hd ms \<in> occ" "distinct ms"
    and "successively (\<lambda>a b. b = (a + 1) mod W) ms" "dict_get dmap (last ms) \<noteq> None"
    and ext: "\<And>m d. dict_get dmap m = Some d \<Longrightarrow> d \<noteq> INTERNAL_DESTINATION"
  shows "\<exists>left. run_phases W serve phs (occ, paid) = (left, paid @ payout dmap ms) \<and> occ - set ms \<subseteq> left \<and>
    (spares W ms serve \<longrightarrow> occ - set ms \<subseteq> {(last ms + 1) mod W} \<longrightarrow> left = occ - set ms)"
  using assms(2-7)
proof (induction ms arbitrary: n s phs occ paid)
  case Nil
  then show ?case by simp
next
  case (Cons m ms)
  define d where "d = (case dict_get dmap m of None \<Rightarrow> INTERNAL_DESTINATION | Some d \<Rightarrow> d)"
  define pay where "pay = (case dict_get dmap m of None \<Rightarrow> [] | Some d \<Rightarrow> [d])"
  from Cons.prems(1) obtain makers n1 s1 fractions n2 s2 sweeps n3 s3 rest where
    mk: "maker_phases R P n s = Inr (makers, n1, s1)" and fr: "stage2_fractions R P m (ms = []) n1 s1 = Inr (fractions, n2, s2)"
    and sw: "sweep_phase R P m d (ms = []) n2 s2 = Inr (sweeps, n3, s3)"
    and rest: "stage2_blocks R P dmap ms n3 s3 = Inr (rest, n', s')" and phs: "phs = makers @ fractions @ sweeps @ rest"
    by (auto simp: bind_res_Inr_iff d_def)
  obtain occ0 where served: "run_phases W serve makers (occ, paid) = (occ0, paid)" "occ \<subseteq> occ0"
      "spares W (m # ms) serve \<Longrightarrow> occ - set (m # ms) \<subseteq> {(last (m # ms) + 1) mod W} \<Longrightarrow> occ0 \<subseteq> occ \<union> set ms"
    using session_stays [OF mk Cons.prems(5)] by blast
  have m: "m \<in> occ0" using Cons.prems(3) served(2) by auto
  define occ1 where "occ1 = (if ms = [] then occ0 else insert ((m + 1) mod W) occ0)"
  have r1: "run_phases W serve (makers @ fractions) (occ, paid) = (occ1, paid)"
    using served(1) stage2_fractions_run [OF rnd fr m] by (simp add: occ1_def)
  from sw obtain c w ph where ph: "new_taker n2 m (Some 0) None c d w None = Inr ph" and sweeps: "sweeps = [ph]"
    by (auto simp: sweep_phase_def Let_def bind_res_Inr_iff split: prod.splits)
  have r2: "run_phases W serve sweeps (occ1, paid) =
    (if d = INTERNAL_DESTINATION then (insert ((m + 1) mod W) (occ1 - {m}), paid) else (occ1 - {m}, paid @ [d]))"
    using sweep_run [OF ph, of occ1 W serve paid] m by (auto simp: sweeps occ1_def)
  have d: "d = INTERNAL_DESTINATION \<and> pay = [] \<and> dict_get dmap m = None \<or> d \<noteq> INTERNAL_DESTINATION \<and> pay = [d]"
    using ext by (auto simp: d_def pay_def split: option.splits)
  show ?case
  proof (cases ms)
    case Nil
    then have "run_phases W serve phs (occ, paid) = (occ0 - {m}, paid @ payout dmap (m # ms))"
      using r1 r2 rest d Cons.prems(6) by (auto simp: phs payout_def pay_def occ1_def)
    moreover have "occ - {m} \<subseteq> occ0 - {m}" using served(2) by auto
    moreover have "occ0 - {m} = occ - {m}" if "spares W [m] serve" "occ - {m} \<subseteq> {(m + 1) mod W}"
      using served(2,3) that Nil by auto
    ultimately show ?thesis using Nil by auto
  next
    case step: (Cons m' ms')
    then have m': "m' = (m + 1) mod W" "m' \<noteq> m" using Cons.prems(4,5) by auto
    let ?occ = "insert m' occ0 - {m}"
    have run: "run_phases W serve (makers @ fractions @ sweeps) (occ, paid) = (?occ, paid @ pay)"
      using r1 r2 d m' step by (auto simp: occ1_def)
    obtain left where left: "run_phases W serve rest (?occ, paid @ pay) = (left, (paid @ pay) @ payout dmap ms)" "?occ - set ms \<subseteq> left"
        "spares W ms serve \<Longrightarrow> ?occ - set ms \<subseteq> {(last ms + 1) mod W} \<Longrightarrow> left = ?occ - set ms"
      using Cons.IH [OF rest, of ?occ "paid @ pay"] Cons.prems step m'(2) by auto
    have "run_phases W serve phs (occ, paid) = (left, paid @ payout dmap (m # ms))"
      using run left(1) by (simp add: phs payout_def pay_def)
    moreover have "occ - set (m # ms) \<subseteq> left" using left(2) served(2) by auto
    moreover have "left = occ - set (m # ms)"
      if sp: "spares W (m # ms) serve" "occ - set (m # ms) \<subseteq> {(last (m # ms) + 1) mod W}"
    proof -
      have "?occ - set ms = occ - set (m # ms)" using served(2) served(3) [OF sp] step by auto
      moreover have "last (m # ms) = last ms" using step by simp
      ultimately show ?thesis using left(3) sp by (simp add: spares_def)
    qed
    ultimately show ?thesis by blast
  qed
qed


section \<open>The chain\<close>

abbreviation chain_from :: "nat \<Rightarrow> nat \<Rightarrow> nat list" where
  "chain_from W low \<equiv> map (\<lambda>off. (low + off) mod W) [0..<W - 1]"

lemma wrap_mod: "low < W \<Longrightarrow> a < W \<Longrightarrow> (low + a) mod W = (if low + a < W then low + a else low + a - (W::nat))"
  by (simp add: le_mod_geq)

lemma chain_distinct: "low < W \<Longrightarrow> distinct (chain_from W low)"
  by (auto simp: distinct_map inj_on_def wrap_mod split: if_splits)

lemma chain_successive: "successively (\<lambda>a b. b = (a + 1) mod W) (chain_from W low)"
  by (auto simp: successively_conv_nth mod_Suc_eq)

lemma chain_omits:
  assumes "low < W"
  shows "{..<W} - set (chain_from W low) = {(low + (W - 1)) mod W}"
proof -
  have "x \<in> set (chain_from W low) \<longleftrightarrow> x \<noteq> (low + (W - 1)) mod W" if x: "x < W" for x
  proof -
    define off where "off = (if low \<le> x then x - low else x + W - low)"
    have off: "off < W" "(low + off) mod W = x" using x assms by (auto simp: off_def)
    have iff: "x = (low + a) mod W \<longleftrightarrow> a = off" if "a < W" for a
      using wrap_mod [OF assms that] off(1) x assms that by (auto simp: off_def split: if_splits)
    have "x \<in> set (chain_from W low) \<longleftrightarrow> (\<exists>a < W - 1. x = (low + a) mod W)" by auto
    also have "\<dots> \<longleftrightarrow> off \<noteq> W - 1"
    proof
      assume "\<exists>a < W - 1. x = (low + a) mod W"
      then obtain a where "a < W - 1" "x = (low + a) mod W" by blast
      with iff [of a] show "off \<noteq> W - 1" by simp
    next
      assume "off \<noteq> W - 1"
      with off show "\<exists>a < W - 1. x = (low + a) mod W" by (intro exI [of _ off]) simp
    qed
    also have "\<dots> \<longleftrightarrow> x \<noteq> (low + (W - 1)) mod W" using iff [of "W - 1"] assms by auto
    finally show ?thesis .
  qed
  moreover have "(low + (W - 1)) mod W < W" using assms by simp
  ultimately show ?thesis by blast
qed

lemma stage1_leaves:
  assumes N: "sorted_wrt (>) ys" "\<And>y. y \<in> set ys \<Longrightarrow> y < W" and W: "2 \<le> W" and ne: "ys \<noteq> []"
    and occ: "occ = advance_origins W ys (set ys)"
  shows "occ \<noteq> {}" "finite occ" "occ \<subseteq> {..<W}" "occ - set (chain_from W (Min occ)) = stranded W (set ys)"
proof -
  have eq: "occ = (if W - 1 \<in> set ys \<and> 0 \<notin> set ys then {0} else {}) \<union> Suc ` (set ys - {W - 1})"
    using advance_origins_desc [OF N] W by (auto simp: occ)
  show fin: "finite occ" by (simp add: eq)
  show ne': "occ \<noteq> {}"
  proof
    assume "occ = {}"
    then have "set ys \<subseteq> {W - 1}" "W - 1 \<in> set ys \<longrightarrow> 0 \<in> set ys" by (auto simp: eq split: if_splits)
    with ne W show False by (cases ys) auto
  qed
  show sub: "occ \<subseteq> {..<W}"
    using N(2) W by (force simp: eq split: if_splits)
  have min: "Min occ \<in> occ" "\<And>x. x \<in> occ \<Longrightarrow> Min occ \<le> x" using fin ne' by simp_all
  have zero: "Min occ = 0 \<longleftrightarrow> W - 1 \<in> set ys \<and> 0 \<notin> set ys"
  proof
    assume "Min occ = 0"
    with min(1) have "0 \<in> occ" by simp
    then show "W - 1 \<in> set ys \<and> 0 \<notin> set ys" by (auto simp: eq split: if_splits)
  next
    assume "W - 1 \<in> set ys \<and> 0 \<notin> set ys"
    then have "0 \<in> occ" by (simp add: eq)
    with min(2) show "Min occ = 0" by fastforce
  qed
  have top: "W - 1 \<in> occ \<longleftrightarrow> W - 2 \<in> set ys"
  proof -
    have "W - 1 \<in> occ \<longleftrightarrow> W - 1 \<in> Suc ` (set ys - {W - 1})" using W by (auto simp: eq)
    also have "\<dots> \<longleftrightarrow> W - 2 \<in> set ys"
    proof -
      obtain k where "W = Suc (Suc k)" using W by (metis Suc_le_D numeral_2_eq_2 Suc_le_mono)
      then show ?thesis by (auto simp: image_iff)
    qed
    finally show ?thesis .
  qed
  have low: "Min occ < W" using min(1) sub by auto
  have "occ - set (chain_from W (Min occ)) = occ \<inter> {(Min occ + (W - 1)) mod W}"
    using chain_omits [OF low] sub by blast
  also have "\<dots> = stranded W (set ys)"
  proof (cases "Min occ = 0")
    case True
    then show ?thesis using zero top W by (auto simp: stranded_def)
  next
    case False
    then have "(Min occ + (W - 1)) mod W = Min occ - 1" using wrap_mod [OF low, of "W - 1"] low by auto
    moreover have "Min occ - 1 \<notin> occ" using min(2) [of "Min occ - 1"] False by auto
    ultimately show ?thesis using False zero by (auto simp: stranded_def)
  qed
  finally show "occ - set (chain_from W (Min occ)) = stranded W (set ys)" .
qed

section \<open>The plan delivers\<close>

lemma check_destinations_external:
  "check_destinations script_of network ds texts scripts = Inr () \<Longrightarrow> d \<in> set ds \<Longrightarrow> d \<noteq> INTERNAL_DESTINATION"
  by (induction script_of network ds texts scripts rule: check_destinations.induct) (auto split: if_splits option.splits)

lemma nonempty_mixdepths_facts:
  assumes "distinct (dict_keys (tu_balances P))"
  shows "sorted_wrt (>) (rev (nonempty_mixdepths P))" "\<And>y. y \<in> set (nonempty_mixdepths P) \<Longrightarrow> y < wallet_mixdepth_count P"
proof -
  have "distinct (map fst (filter (\<lambda>(m, bal). 0 < bal) (tu_balances P)))" using assms by (rule distinct_map_filter)
  then have "sorted_wrt (<) (nonempty_mixdepths P)" by (simp add: nonempty_mixdepths_def strict_sorted_iff)
  then show "sorted_wrt (>) (rev (nonempty_mixdepths P))" by (simp add: sorted_wrt_rev)
  fix y
  assume "y \<in> set (nonempty_mixdepths P)"
  then have "y \<in> set (dict_keys (tu_balances P))" by (auto simp: nonempty_mixdepths_def)
  then show "y < wallet_mixdepth_count P" by (simp add: wallet_mixdepth_count_def less_Suc_eq_le)
qed

lemma build_Inr:
  assumes "build R script_of now name P s = Inr plan"
  obtains chain one n s1 two n' s2 where "tu_destinations P \<noteq> []" "stage2_mixdepth_chain P = Inr chain" "length (tu_destinations P) \<le> length chain"
    "stage1_cleavage R P (rev (sort (dict_keys (tu_balances P)))) 0 s = Inr (one, n, s1)"
    "stage2_blocks R P (destination_map chain (tu_destinations P)) chain n s1 = Inr (two, n', s2)"
    "pl_phases plan = one @ two" "pl_destinations plan = tu_destinations P"
    "check_destinations script_of (tu_network P) (tu_destinations P) [] [] = Inr ()"
  using assms unfolding build_def stage2_destinations_def
  by (auto simp: bind_res_Inr_iff Let_def validate_tumble_plan_def validate_tumbler_destinations_def split: if_splits)

lemma built_plan_run:
  assumes plan: "build R script_of now name P s = Inr plan"
    and rnd: "\<And>s. 0 \<le> fst (rng_random R s) \<and> fst (rng_random R s) < 1"
    and keys: "distinct (dict_keys (tu_balances P))"
  shows "\<exists>chain left. stage2_mixdepth_chain P = Inr chain \<and>
    run_phases (wallet_mixdepth_count P) serve (pl_phases plan) (set (nonempty_mixdepths P), []) = (left, tu_destinations P) \<and>
    stranded (wallet_mixdepth_count P) (set (nonempty_mixdepths P)) \<subseteq> left \<and>
    (spares (wallet_mixdepth_count P) chain serve \<longrightarrow> left = stranded (wallet_mixdepth_count P) (set (nonempty_mixdepths P)))"
proof -
  define W where "W = wallet_mixdepth_count P"
  define N where "N = set (nonempty_mixdepths P)"
  from plan obtain chain one n s1 two n' s2 where
    dests: "tu_destinations P \<noteq> []" and chain: "stage2_mixdepth_chain P = Inr chain" and len: "length (tu_destinations P) \<le> length chain"
    and one: "stage1_cleavage R P (rev (sort (dict_keys (tu_balances P)))) 0 s = Inr (one, n, s1)"
    and two: "stage2_blocks R P (destination_map chain (tu_destinations P)) chain n s1 = Inr (two, n', s2)"
    and phases: "pl_phases plan = one @ two" and valid: "check_destinations script_of (tu_network P) (tu_destinations P) [] [] = Inr ()"
    by (rule build_Inr)
  define occ where "occ = advance_origins W (rev (nonempty_mixdepths P)) N"
  have occ_ne: "occ \<noteq> {}" and chain_eq: "chain = chain_from W (Min occ)"
    using chain dests len by (auto simp: stage2_mixdepth_chain_def Let_def W_def N_def occ_def split: if_splits)
  have W: "2 \<le> W" using chain_eq dests len by (cases "tu_destinations P") auto
  have ne: "rev (nonempty_mixdepths P) \<noteq> []" using occ_ne by (auto simp: occ_def N_def)
  note desc = nonempty_mixdepths_facts(1) [OF keys]
  have bound: "y < W" if "y \<in> set (rev (nonempty_mixdepths P))" for y using nonempty_mixdepths_facts(2) [OF keys] that by (simp add: W_def)
  note leaves = stage1_leaves [OF desc bound W ne, of occ, unfolded set_rev N_def [symmetric], OF _ occ_def]
  have low: "Min occ < W" "Min occ \<in> occ" using leaves(3) Min_in [OF leaves(2) occ_ne] by auto
  have nonempty: "chain \<noteq> []" using dests len by auto
  have "last chain = (Min occ + (W - 2)) mod W" using W by (simp add: chain_eq last_map numeral_2_eq_2)
  then have after: "(last chain + 1) mod W = (Min occ + (W - 1)) mod W" using W by (simp add: mod_Suc_eq Suc_diff_Suc numeral_2_eq_2)
  have omit: "occ - set chain \<subseteq> {(last chain + 1) mod W}"
    using chain_omits [OF low(1), folded chain_eq] leaves(3) unfolding after by blast
  have stage1: "run_phases W serve one (N, []) = (occ, [])"
    using stage1_run [OF one, of N W serve "[]"] keys nonempty_mixdepths_desc [OF keys]
    by (force simp: occ_def N_def nonempty_mixdepths_def nonempty_filter [OF keys])
  note dm = destination_map_zip [OF chain_distinct [OF low(1), folded chain_eq] len]
  have "hd chain = Min occ" using W low(1) by (simp add: chain_eq hd_map upt_rec)
  moreover have "last chain \<in> set (drop (length chain - length (tu_destinations P)) chain)"
    using dests len nonempty by (metis diff_less drop_eq_Nil last_drop last_in_set length_greater_0_conv not_le)
  then have "dict_get (destination_map chain (tu_destinations P)) (last chain) \<noteq> None"
    using len by (simp add: dm map_of_zip_is_None)
  moreover have "d \<noteq> INTERNAL_DESTINATION" if "dict_get (destination_map chain (tu_destinations P)) m = Some d" for m d
    using that check_destinations_external [OF valid, of d] by (auto simp: dm dest!: map_of_SomeD set_zip_rightD)
  ultimately obtain left where left: "run_phases W serve two (occ, []) = (left, [] @ payout (destination_map chain (tu_destinations P)) chain)"
      "occ - set chain \<subseteq> left" "spares W chain serve \<longrightarrow> left = occ - set chain"
    using stage2_blocks_run [OF rnd two nonempty, of occ W serve "[]"] low chain_distinct [OF low(1)] chain_successive [of W "Min occ"] omit
    by (auto simp: chain_eq)
  have "payout (destination_map chain (tu_destinations P)) chain = tu_destinations P"
    using payout_destination_map [of chain "tu_destinations P"] chain_distinct [OF low(1)] len by (simp add: chain_eq)
  moreover have "occ - set chain = stranded W N" using leaves(4) by (simp add: chain_eq)
  ultimately show ?thesis using stage1 left chain by (intro exI [of _ chain] exI [of _ left]) (simp add: phases W_def N_def)
qed


section \<open>The builder returns a plan\<close>

definition good_parameters :: "(string \<Rightarrow> network_type \<Rightarrow> bytes option) \<Rightarrow> tumble_parameters \<Rightarrow> bool" where
  "good_parameters script_of P \<longleftrightarrow>
     (\<exists>m \<in> set (dict_keys (tu_balances P)). 0 < the (dict_get (tu_balances P) m)) \<and> (\<forall>m \<in> set (dict_keys (tu_balances P)). m \<le> 9) \<and>
     tu_destinations P \<noteq> [] \<and> length (tu_destinations P) < wallet_mixdepth_count P \<and>
     validate_tumbler_destinations script_of (tu_destinations P) (tu_network P) = Inr () \<and>
     1 \<le> tu_maker_min P \<and> tu_maker_min P \<le> tu_maker_max P \<and> tu_maker_max P \<le> 20 \<and> 0 < tu_time_lambda P \<and> 0 \<le> tu_stage1_mult P \<and>
     0 \<le> tu_mincjamount P \<and> 0 \<le> tu_max_retries P \<and> tu_max_retries P \<le> 20 \<and> 0 < tu_session_seconds P \<and> opt_all (\<lambda>t. 0 < t) (tu_session_idle P) \<and>
     (tu_rounding_chance P \<le> 0 \<or> length (tu_weights P) = 5 \<and> 0 < sum_list (tu_weights P))"

definition numbered :: "nat \<Rightarrow> (phase list \<times> nat \<times> 's) res \<Rightarrow> bool" where
  "numbered n r \<longleftrightarrow> (\<exists>phs s'. r = Inr (phs, n + length phs, s') \<and> map (ph_index \<circ> base_of) phs = [n..<n + length phs])"

lemma numbered_Nil [simp]: "numbered n (Inr ([], n, s))"
  by (simp add: numbered_def)

lemma numbered_single: "ph_index (base_of ph) = n \<Longrightarrow> numbered n (Inr ([ph], Suc n, s))"
  by (simp add: numbered_def)

lemma numbered_append:
  assumes "numbered n (Inr (xs, n1, s1))" "numbered n1 r"
  shows "numbered n (bind_res r (\<lambda>(phs, n', s'). Inr (xs @ phs, n', s')))"
  using assms upt_add_eq_append [of n "n + length xs"] by (fastforce simp: numbered_def add.assoc)

lemma numbered_Inr:
  assumes "numbered n r"
  obtains phs n' s' where "r = Inr (phs, n', s')" "numbered n (Inr (phs, n', s'))"
  using assms by (auto simp: numbered_def)

lemma length_cumulative [simp]: "length (cumulative acc ws) = length ws"
  by (induction acc ws rule: cumulative.induct) auto

lemma last_cumulative: "last (acc # cumulative acc ws) = acc + sum_list ws"
  by (induction acc ws rule: cumulative.induct) (auto simp: add.assoc)

lemma sample_rounding_ok:
  assumes "tu_rounding_chance P \<le> 0 \<or> length (tu_weights P) = 5 \<and> 0 < sum_list (tu_weights P)"
  shows "\<exists>g s'. sample_rounding_sigfigs R P s = Inr (g, s') \<and> opt_all (\<lambda>k. 1 \<le> k \<and> k \<le> 8) g"
proof (cases "tu_rounding_chance P \<le> 0")
  case True
  then show ?thesis by (simp add: sample_rounding_sigfigs_def opt_all_def)
next
  case False
  with assms have w: "length (tu_weights P) = 5" "\<not> last (0 # cumulative 0 (tu_weights P)) \<le> 0" by (auto simp: last_cumulative simp del: last.simps)
  obtain u s1 where u: "rng_random R s = (u, s1)" by fastforce
  obtain v s2 where v: "rng_random R s1 = (v, s2)" by fastforce
  define i where "i = length (takeWhile (\<lambda>c. c \<le> v * last (cumulative 0 (tu_weights P))) (butlast (cumulative 0 (tu_weights P))))"
  have "i \<le> 4" using length_takeWhile_le [of _ "butlast (cumulative 0 (tu_weights P))"] w(1) by (simp add: i_def)
  then have i: "[1, 2, 3, 4, 5::int] ! i \<in> {1, 2, 3, 4, 5}" by (auto simp: le_Suc_eq numeral_eq_Suc)
  have "py_choices R [1, 2, 3, 4, 5] (tu_weights P) s1 = Inr ([1, 2, 3, 4, 5] ! i, s2)"
    using w v by (simp add: py_choices_def i_def Let_def del: last.simps)
  then show ?thesis using i False u by (auto simp: sample_rounding_sigfigs_def opt_all_def)
qed

definition good_rng :: "'s rng \<Rightarrow> bool" where
  "good_rng R \<longleftrightarrow> (\<forall>s. 0 \<le> fst (rng_random R s) \<and> fst (rng_random R s) < 1) \<and> (\<forall>u. 0 < u \<longrightarrow> u \<le> 1 \<longrightarrow> rng_log R u \<le> 0)"

lemma sample_count_range:
  "tu_maker_min P \<le> tu_maker_max P \<Longrightarrow> sample_counterparty_count R P s = (c, s') \<Longrightarrow> tu_maker_min P \<le> c \<and> c \<le> tu_maker_max P"
  by (auto simp: sample_counterparty_count_def Let_def split: prod.splits)

lemma sample_wait_nonneg:
  assumes "good_rng R" "0 < tu_time_lambda P" "0 \<le> tu_stage1_mult P" "sample_wait R P b s = (w, s')"
  shows "0 \<le> w"
proof -
  obtain u s1 where u: "rng_random R s = (u, s1)" by fastforce
  have "0 < max u (1 / 10 ^ 9)" "max u (1 / 10 ^ 9) \<le> 1" using assms(1) u by (auto simp: good_rng_def max_def dest: spec [of _ s])
  then have "rng_log R (max u (1 / 10 ^ 9)) \<le> 0" using assms(1) by (simp add: good_rng_def)
  moreover define lam where "lam = tu_time_lambda P * (if b then tu_stage1_mult P else 1)"
  moreover have "0 \<le> lam" using assms(2,3) by (simp add: lam_def)
  ultimately have "0 \<le> - rng_log R (max u (1 / 10 ^ 9)) * lam" by (simp add: mult_nonpos_nonneg)
  with \<open>0 \<le> lam\<close> show ?thesis using assms(4) u by (auto simp: sample_wait_def Let_def lam_def)
qed

lemma new_taker_ok:
  assumes "0 \<le> w" "m \<le> 9" "1 \<le> c" "c \<le> 20" "opt_all (\<lambda>s. 1 \<le> s \<and> s \<le> 8) g"
    and "a = Some 0 \<and> f = None \<or> a = None \<and> (\<exists>q. f = Some q \<and> 0 \<le> q \<and> q \<le> 1)"
  shows "\<exists>ph. new_taker n m a f c d w g = Inr ph \<and> ph_index (base_of ph) = n"
  using assms by (auto simp: new_taker_def validate_taker_phase_def Let_def opt_all_def phase_base.defs)

lemma good_taker:
  assumes P: "good_parameters script_of P" and R: "good_rng R" and "m \<le> 9" "opt_all (\<lambda>s. 1 \<le> s \<and> s \<le> 8) g"
    and "a = Some 0 \<and> f = None \<or> a = None \<and> (\<exists>q. f = Some q \<and> 0 \<le> q \<and> q \<le> 1)"
    and c: "sample_counterparty_count R P s = (c, s1)" and w: "w = 0 \<or> sample_wait R P b s1 = (w, s2)"
  shows "\<exists>ph. new_taker n m a f c d w g = Inr ph \<and> ph_index (base_of ph) = n"
proof (rule new_taker_ok)
  have "tu_maker_min P \<le> c" "c \<le> tu_maker_max P" using sample_count_range [OF _ c] P by (auto simp: good_parameters_def)
  then show "1 \<le> c" "c \<le> 20" using P by (auto simp: good_parameters_def)
  show "0 \<le> w" using w sample_wait_nonneg [OF R] P by (auto simp: good_parameters_def)
qed (use assms in auto)

lemma stage1_numbered:
  assumes P: "good_parameters script_of P" and R: "good_rng R"
  shows "(\<And>m. m \<in> set ms \<Longrightarrow> m \<le> 9) \<Longrightarrow> numbered n (stage1_cleavage R P ms n s)"
proof (induction ms arbitrary: n s)
  case Nil
  then show ?case by simp
next
  case (Cons m ms)
  obtain c s1 where c: "sample_counterparty_count R P s = (c, s1)" by fastforce
  obtain w s2 where w: "sample_wait R P True s1 = (w, s2)" by fastforce
  obtain ph where ph: "new_taker n m (Some 0) None c INTERNAL_DESTINATION w None = Inr ph" "ph_index (base_of ph) = n"
    using good_taker [OF P R _ _ _ c, of m None "Some 0" None w True s2 n INTERNAL_DESTINATION] Cons.prems w by (auto simp: opt_all_def)
  show ?case using numbered_append [OF numbered_single [OF ph(2), of s2] Cons.IH [of "Suc n" s2]] Cons c w ph(1) by simp
qed

lemma fraction_phases_numbered:
  assumes P: "good_parameters script_of P" and R: "good_rng R" and m: "m \<le> 9"
  shows "(\<And>f. f \<in> set fs \<Longrightarrow> 0 < f \<and> f < 1) \<Longrightarrow> numbered n (fraction_phases R P m fs n s)"
proof (induction fs arbitrary: n s)
  case Nil
  then show ?case by simp
next
  case (Cons f fs)
  obtain c s1 where c: "sample_counterparty_count R P s = (c, s1)" by fastforce
  obtain w s2 where w: "sample_wait R P False s1 = (w, s2)" by fastforce
  obtain g s3 where g: "sample_rounding_sigfigs R P s2 = Inr (g, s3)" "opt_all (\<lambda>k. 1 \<le> k \<and> k \<le> 8) g"
    using sample_rounding_ok [of P R s2] P by (auto simp: good_parameters_def)
  obtain ph where ph: "new_taker n m None (Some f) c INTERNAL_DESTINATION w g = Inr ph" "ph_index (base_of ph) = n"
    using good_taker [OF P R m g(2) _ c, of None "Some f" w False s2 n INTERNAL_DESTINATION] Cons.prems [of f] w by auto
  show ?case using numbered_append [OF numbered_single [OF ph(2), of s3] Cons.IH [of "Suc n" s3]] Cons c w g(1) ph(1) by simp
qed


lemma stage2_fractions_numbered:
  assumes P: "good_parameters script_of P" and R: "good_rng R" and m: "m \<le> 9"
  shows "numbered n (stage2_fractions R P m is_last n s)"
proof -
  have "numbered n (fraction_phases R P m (fst (destination_fractions R (tu_mintxcount P) s)) n s')" for s'
    using fraction_phases_numbered [OF P R m] destination_fractions_range [of R] R by (metis good_rng_def)
  then show ?thesis by (auto simp: stage2_fractions_def split: prod.splits)
qed

lemma maker_phases_numbered:
  assumes P: "good_parameters script_of P" and R: "good_rng R"
  shows "numbered n (maker_phases R P n s)"
proof -
  obtain w s' where w: "sample_wait R P False s = (w, s')" by fastforce
  moreover have "0 \<le> w" using sample_wait_nonneg [OF R _ _ w] P by (simp add: good_parameters_def)
  ultimately show ?thesis using P
    by (auto simp: maker_phases_def new_maker_def validate_maker_phase_def good_parameters_def opt_all_def Let_def phase_base.defs intro!: numbered_single)
qed

lemma sweep_phase_numbered:
  assumes P: "good_parameters script_of P" and R: "good_rng R" and m: "m \<le> 9"
  shows "numbered n (sweep_phase R P m d is_last n s)"
proof -
  obtain c s1 where c: "sample_counterparty_count R P s = (c, s1)" by fastforce
  obtain w s2 where w: "(if is_last then (0, s1) else sample_wait R P False s1) = (w, s2)" by fastforce
  then have "w = 0 \<or> sample_wait R P False s1 = (w, s2)" by (auto split: if_splits)
  then obtain ph where "new_taker n m (Some 0) None c d w None = Inr ph" "ph_index (base_of ph) = n"
    using good_taker [OF P R m _ _ c, of None "Some 0" None w False s2 n d] by (auto simp: opt_all_def)
  then show ?thesis using numbered_single [of ph n s2] by (simp add: sweep_phase_def c w)
qed

lemma stage2_blocks_numbered:
  assumes P: "good_parameters script_of P" and R: "good_rng R"
  shows "(\<And>m. m \<in> set ms \<Longrightarrow> m \<le> 9) \<Longrightarrow> numbered n (stage2_blocks R P dmap ms n s)"
proof (induction ms arbitrary: n s)
  case Nil
  then show ?case by simp
next
  case (Cons m ms)
  then have m: "m \<le> 9" by simp
  define d where "d = (case dict_get dmap m of None \<Rightarrow> INTERNAL_DESTINATION | Some d \<Rightarrow> d)"
  obtain a n1 s1 where a: "maker_phases R P n s = Inr (a, n1, s1)" "numbered n (Inr (a, n1, s1))"
    using maker_phases_numbered [OF P R] by (rule numbered_Inr)
  obtain b n2 s2 where b: "stage2_fractions R P m (ms = []) n1 s1 = Inr (b, n2, s2)" "numbered n1 (Inr (b, n2, s2))"
    using stage2_fractions_numbered [OF P R m] by (rule numbered_Inr)
  obtain c n3 s3 where c: "sweep_phase R P m d (ms = []) n2 s2 = Inr (c, n3, s3)" "numbered n2 (Inr (c, n3, s3))"
    using sweep_phase_numbered [OF P R m] by (rule numbered_Inr)
  obtain rest n4 s4 where rest: "stage2_blocks R P dmap ms n3 s3 = Inr (rest, n4, s4)" "numbered n3 (Inr (rest, n4, s4))"
    using numbered_Inr [OF Cons.IH [of n3 s3]] Cons.prems by auto
  have "numbered n (Inr (a @ b @ c @ rest, n4, s4))"
    using numbered_append [OF a(2) numbered_append [OF b(2) numbered_append [OF c(2) rest(2)]]] by simp
  then show ?case by (simp add: a(1) b(1) c(1) rest(1) d_def [symmetric])
qed

lemma build_returns:
  assumes P: "good_parameters script_of P" and R: "good_rng R" and keys: "distinct (dict_keys (tu_balances P))"
  shows "\<exists>plan. build R script_of now name P s = Inr plan"
proof -
  define W where "W = wallet_mixdepth_count P"
  define occ where "occ = advance_origins W (rev (nonempty_mixdepths P)) (set (nonempty_mixdepths P))"
  have dests: "tu_destinations P \<noteq> []" "length (tu_destinations P) < W" using P by (auto simp: good_parameters_def W_def)
  then have W: "2 \<le> W" by (cases "tu_destinations P") auto
  from P obtain k where k: "k \<in> set (dict_keys (tu_balances P))" "\<not> the (dict_get (tu_balances P) k) \<le> 0"
    unfolding good_parameters_def not_le by blast
  then have ne: "rev (nonempty_mixdepths P) \<noteq> []" by (auto simp: nonempty_mixdepths_desc [OF keys, symmetric] filter_empty_conv)
  have bound: "y < W" if "y \<in> set (rev (nonempty_mixdepths P))" for y using nonempty_mixdepths_facts(2) [OF keys] that by (simp add: W_def)
  note leaves = stage1_leaves [OF nonempty_mixdepths_facts(1) [OF keys] bound W ne, of occ, unfolded set_rev, OF _ occ_def]
  have bal: "tu_balances P \<noteq> []" using k by auto
  have chain: "stage2_mixdepth_chain P = Inr (chain_from W (Min occ))"
    using leaves(1) bal by (simp add: stage2_mixdepth_chain_def W_def occ_def Let_def)
  have W10: "W \<le> 10" using P bal by (auto simp: good_parameters_def W_def wallet_mixdepth_count_def)
  obtain one n s1 where one: "stage1_cleavage R P (rev (sort (dict_keys (tu_balances P)))) 0 s = Inr (one, n, s1)" "numbered 0 (Inr (one, n, s1))"
  proof (rule numbered_Inr)
    show "numbered 0 (stage1_cleavage R P (rev (sort (dict_keys (tu_balances P)))) 0 s)"
      using P unfolding good_parameters_def by (intro stage1_numbered [OF P R]) (metis set_rev set_sort)
  qed
  have "m \<le> 9" if "m \<in> set (chain_from W (Min occ))" for m
  proof -
    have "m < W" using that W by auto
    with W10 show ?thesis by simp
  qed
  then obtain two n2 s2 where two: "stage2_blocks R P (destination_map (chain_from W (Min occ)) (tu_destinations P)) (chain_from W (Min occ)) n s1 = Inr (two, n2, s2)"
      "numbered n (Inr (two, n2, s2))"
    using stage2_blocks_numbered [OF P R] by (meson numbered_Inr)
  have "numbered 0 (Inr (one @ two, n2, s2))" using numbered_append [OF one(2) two(2)] by simp
  then have "map (ph_index \<circ> base_of) (one @ two) = [0..<length (one @ two)]" by (auto simp: numbered_def)
  moreover have "stage2_destinations R P n s1 = Inr (two, n2, s2)" unfolding stage2_destinations_def chain bind_res_simps by (rule two(1))
  ultimately show ?thesis using P dests
    by (simp add: build_def chain one(1) Let_def validate_tumble_plan_def validate_plan_parameters_def good_parameters_def)
qed

text \<open>C15: with parameters in range, funds in some mixdepth and fewer destinations than mixdepths, the builder returns a plan. Run in order on the
  mixdepths that hold funds, every plan that it returns pays every destination exactly once, in the given order, whatever CoinJoins the maker
  sessions in between serve. When no session serves from the last mixdepth of the stage-2 chain or the one after it, the plan also empties
  the wallet, up to one exactly characterised case: the top mixdepth keeps funds when the two top mixdepths hold funds at the start and mixdepth 0 does not.
  In that case it keeps them whatever is served.
\<close>

theorem tumble_plan_delivers:
  assumes keys: "distinct (dict_keys (tu_balances P))" and R: "good_rng R"
  shows "(good_parameters script_of P \<longrightarrow> (\<exists>plan. build R script_of now name P s = Inr plan)) \<and>
    (build R script_of now name P s = Inr plan \<longrightarrow>
      (\<exists>chain left. stage2_mixdepth_chain P = Inr chain \<and>
        run_phases (wallet_mixdepth_count P) serve (pl_phases plan) (set (nonempty_mixdepths P), []) = (left, tu_destinations P) \<and>
        stranded (wallet_mixdepth_count P) (set (nonempty_mixdepths P)) \<subseteq> left \<and>
        (spares (wallet_mixdepth_count P) chain serve \<longrightarrow> left = stranded (wallet_mixdepth_count P) (set (nonempty_mixdepths P)))))"
proof (intro conjI impI)
  show "\<exists>plan. build R script_of now name P s = Inr plan" if "good_parameters script_of P" using that R keys by (rule build_returns)
  have "0 \<le> fst (rng_random R s) \<and> fst (rng_random R s) < 1" for s using R by (simp add: good_rng_def)
  then show "\<exists>chain left. stage2_mixdepth_chain P = Inr chain \<and>
        run_phases (wallet_mixdepth_count P) serve (pl_phases plan) (set (nonempty_mixdepths P), []) = (left, tu_destinations P) \<and>
        stranded (wallet_mixdepth_count P) (set (nonempty_mixdepths P)) \<subseteq> left \<and>
        (spares (wallet_mixdepth_count P) chain serve \<longrightarrow> left = stranded (wallet_mixdepth_count P) (set (nonempty_mixdepths P)))"
    if "build R script_of now name P s = Inr plan" using that keys by (intro built_plan_run)
qed

definition steady_rng :: "unit rng" where
  "steady_rng = \<lparr>rng_random = (\<lambda>s. (1 / 2, s)), rng_gauss = (\<lambda>mu sigma s. (mu, s)), rng_log = (\<lambda>u. - 1)\<rparr>"

definition three_mixdepths :: tumble_parameters where
  "three_mixdepths =
     \<lparr>tu_destinations = [''bc1qexample''], tu_balances = [(0, 0), (1, 50000), (2, 70000)], tu_network = None, tu_maker_min = 5, tu_maker_max = 9,
      tu_time_lambda = 21600, tu_stage1_mult = 3, tu_maker_sessions = True, tu_mincjamount = 100000, tu_session_seconds = 43200,
      tu_session_idle = None, tu_mintxcount = 2, tu_max_retries = 3, tu_rounding_chance = 1 / 4, tu_weights = [55, 15, 25, 65, 40], tu_seed = None\<rparr>"

text \<open>
  Funds in mixdepths 1 and 2 of three: stage 1 moves them to 0 and 2, stage 2 starts at 0 and stops at 1, the funds in mixdepth 2 stay. Each
  session serves one CoinJoin from mixdepth 0.
\<close>

theorem tumble_plan_delivers_witness:
  "good_rng steady_rng \<and> good_parameters (\<lambda>_ _. None) three_mixdepths \<and>
   (\<exists>plan. build steady_rng (\<lambda>_ _. None) 0 ''wallet'' three_mixdepths () = Inr plan \<and>
      run_phases 3 (\<lambda>_. [0]) (pl_phases plan) ({1, 2}, []) = ({2}, [''bc1qexample'']))"
proof -
  have R: "good_rng steady_rng" by (simp add: good_rng_def steady_rng_def)
  have N: "nonempty_mixdepths three_mixdepths = [1, 2]" "wallet_mixdepth_count three_mixdepths = 3"
    by (simp_all add: nonempty_mixdepths_def wallet_mixdepth_count_def three_mixdepths_def)
  have keys: "distinct (dict_keys (tu_balances three_mixdepths))" by (simp add: three_mixdepths_def)
  have chain: "stage2_mixdepth_chain three_mixdepths = Inr [0, 1]" by code_simp
  have "validate_tumbler_destinations (\<lambda>_ _. None) [''bc1qexample''] None = Inr ()" by code_simp
  then have P: "good_parameters (\<lambda>_ _. None) three_mixdepths"
    using N by (simp add: good_parameters_def three_mixdepths_def opt_all_def)
  from tumble_plan_delivers [OF keys R] P obtain plan where plan: "build steady_rng (\<lambda>_ _. None) 0 ''wallet'' three_mixdepths () = Inr plan" by blast
  with tumble_plan_delivers [OF keys R, of "\<lambda>_ _. None" 0 "''wallet''" "()" plan "\<lambda>_. [0]"]
  have "run_phases 3 (\<lambda>_. [0]) (pl_phases plan) ({1, 2}, []) = ({2}, tu_destinations three_mixdepths)"
    by (simp add: N stranded_def chain spares_def)
  then have "run_phases 3 (\<lambda>_. [0]) (pl_phases plan) ({1, 2}, []) = ({2}, [''bc1qexample''])"
    by (simp add: three_mixdepths_def)
  with R P plan show ?thesis by blast
qed

text \<open>
  Funds in mixdepth 0 of three only: the chain is 1, 2. A session that serves from mixdepth 2, which the fractions of mixdepth 1 have funded, moves funds to
  mixdepth 0, which no later phase sweeps.
\<close>

lemma served_session_strands:
  "\<exists>plan. build steady_rng (\<lambda>_ _. None) 0 ''wallet'' (three_mixdepths\<lparr>tu_balances := [(0, 50000), (1, 0), (2, 0)]\<rparr>) () = Inr plan \<and>
     run_phases 3 (\<lambda>_. [2]) (pl_phases plan) ({0}, []) = ({0}, [''bc1qexample''])"
proof -
  let ?P = "three_mixdepths\<lparr>tu_balances := [(0, 50000), (1, 0), (2, 0)]\<rparr>"
  have "case build steady_rng (\<lambda>_ _. None) 0 ''wallet'' ?P () of Inl _ \<Rightarrow> False
     | Inr plan \<Rightarrow> run_phases 3 (\<lambda>_. [2]) (pl_phases plan) ({0}, []) = ({0}, [''bc1qexample''])" by code_simp
  then show ?thesis by (auto split: sum.splits)
qed

end
