(* ===== verification/Spec2Isabelle.thy ===== *)
theory Spec2Isabelle
  imports Cj_Round Taker_Signatures Jm_Timenumber Wallet_Direct Maker_Mixdepth Dir_Liveness Dir_Peerlist Ring_Store
    Taker_Selection Tumbler_Builder
begin

text \<open>
  A verification of JoinMarket NG with channel rings, a Python program in which a \<^emph>\<open>taker\<close> pays
  \<^emph>\<open>makers\<close> to build a CoinJoin transaction with it. Makers announce offers through \<^emph>\<open>directory
  servers\<close>; the taker collects them, picks makers, asks each for its coins and addresses, builds one
  transaction in which all participants receive an output of the same value, and sends it to the makers,
  who check it and sign. The wallet selects the coins, the directory relays the messages. In a \<^emph>\<open>channel
  ring\<close> the change of the participants funds Lightning channels instead: each opens a channel to the next
  of a cycle, and nobody signs the funding transaction before everybody has attested that its channels are
  ready.

  \<^bold>\<open>Theories and sources.\<close> File names are relative to the packages under \<open>src/\<close>.

  Shared vocabulary:
  \<^item> \<open>Jm_Prelude\<close>: the exceptions as values, the result type and its sequencing.
  \<^item> \<open>Py_Bytes\<close>, \<open>Py_Dict\<close>, \<open>Py_Numeric\<close>, \<open>Py_Datetime\<close>, \<open>Py_Text\<close>, \<open>Py_Json\<close>: the parts of
    Python's library that the sources use (\<open>struct\<close>, hexadecimal text, dictionaries in insertion order,
    \<open>Counter\<close>, \<open>int\<close> and \<open>Decimal\<close> read from text, dates in UTC, \<open>str.split\<close>, decoded JSON values).
  \<^item> \<open>Py_Base64\<close>: \<open>base64\<close> with both alphabets, and that decoding inverts encoding.

  Transactions (\<open>jmcore/bitcoin.py\<close>):
  \<^item> \<open>Btc_Tx\<close>: varints, serialisation, the defensive parser; parsing gives back what was serialised.
  \<^item> \<open>Btc_Size\<close>, \<open>Btc_Shape\<close>: virtual sizes, the estimate made before signing and that it is an upper
    bound, the equal-output heuristic.
  \<^item> \<open>Btc_Amount\<close>: satoshi amounts, relative fees, and the sweep amount with the termination of its loop.
  \<^item> \<open>Btc_Script\<close>: scripts and addresses, over the bech32 and hash libraries as parameters.

  Offers and coins:
  \<^item> \<open>Jm_Offers\<close> (\<open>jmcore/models.py\<close>, \<open>maker/offer_math.py\<close>): offers, fees, the largest amount an
    offer can fill.
  \<^item> \<open>Jm_Timenumber\<close> (\<open>jmcore/timenumber.py\<close>): fidelity bond locktimes.
  \<^item> \<open>Wallet_Utxo\<close>, \<open>Wallet_Select\<close>, \<open>Wallet_Direct\<close> (\<open>jmwallet/wallet/models.py\<close>,
    \<open>coin_selection.py\<close>): coin selection; the bounded search for a direct send is optimal when it ends.
  \<^item> \<open>Maker_Mixdepth\<close> (\<open>maker/mixdepth_selection.py\<close>): the order in which mixdepths are tried.

  The choice of makers:
  \<^item> \<open>Taker_Orderbook\<close> (\<open>taker/orderbook.py\<close>, \<open>jmcore/fee_quantization.py\<close>): filters, deduplication, the random
    choosers, fee plans, sweeps and the manager.
  \<^item> \<open>Taker_Selection\<close>: what every chooser promises as the locale \<open>order_chooser\<close>, interpreted on the four choosers, and
    the soundness of selections and the funding of sweeps proved from it.

  The tumbler, which moves the funds of a wallet through a sequence of CoinJoins to external addresses:
  \<^item> \<open>Tumbler_Plan\<close> (\<open>tumbler/plan.py\<close>): phases and plans with their validators, destinations, and what resuming a
    plan keeps.
  \<^item> \<open>Tumbler_Builder\<close> (\<open>tumbler/builder.py\<close>): the plan builder over a random generator; it returns a plan on every
    input in range, and its plans pay every destination once and in order, whatever CoinJoins the maker sessions serve. As long as the sessions
    spare the end of the chain, the one case in which funds stay in the wallet is characterised exactly. Which mixdepths hold funds is followed through the
    phases as \<open>tumbler/runner.py\<close> resolves destinations and \<open>maker/coinjoin.py\<close> places the output of a served CoinJoin; phases that fail are not followed.

  The CoinJoin round:
  \<^item> \<open>Taker_Ring_Plan\<close>, \<open>Taker_Tx_Builder\<close>, \<open>Taker_Signatures\<close> (\<open>taker/tx_builder.py\<close>): ring plans,
    the transaction that is built and what it pays to whom, the assembly of signatures.
  \<^item> \<open>Maker_Verify\<close> (\<open>maker/tx_verification.py\<close>): what a maker checks before it signs, and what
    acceptance gives it.
  \<^item> \<open>Cj_Round\<close>: the two together; every maker accepts the transaction the builder returns.

  Partially signed transactions:
  \<^item> \<open>Btc_Psbt\<close> (\<open>jmwallet/wallet/psbt.py\<close>, \<open>create_psbt\<close> of \<open>jmcore/bitcoin.py\<close>, \<open>build_unsigned_psbt\<close> of
    \<open>jmswap/lnd.py\<close>, the reader of \<open>jmcore/cofunded_ring.py\<close>): two writers and two readers of the format.
  \<^item> \<open>Psbt_Roundtrip\<close>: the strict parser is lossless, reads back what the writers write, and the two
    readers see the same transaction.

  Channel rings:
  \<^item> \<open>Ring_Planner\<close> (\<open>taker/ring_planner.py\<close>): the randomised search for a cycle and a split of every
    participant's change; what it returns is feasible, and every feasible ring can be drawn.
  \<^item> \<open>Ring_Models\<close> (\<open>jmcore/cofunded_ring.py\<close>): the models with their validators, and what a valid
    manifest says of the transaction.
  \<^item> \<open>Canonical_Json\<close>, \<open>Ring_Hash\<close>: the JSON text that is hashed and the hashes and signatures over it;
    the text determines the object, so that a hash binds every field.
  \<^item> \<open>Ring_Payloads\<close>, \<open>Ring_Envelope\<close>: the thirteen messages, their checks, hashes, signatures and
    encoding. The transaction, the PSBT and the manifest that a participant accepts are one; a verified
    readiness set is the agreement of the whole ring.
  \<^item> \<open>Ring_Record\<close> (\<open>jmcore/channel_ring_store.py\<close>): the record a participant keeps of a round, as a state
    machine; the order of its states, and the evidence without which it cannot start to retire.
  \<^item> \<open>Ring_Store\<close> (the same file): the directory of records. Saving is atomic against failures and deaths
    of the process between any two file operations, and the limits on sessions and inputs are invariants.

  The directory:
  \<^item> \<open>Jm_Protocol\<close> (\<open>jmcore/protocol.py\<close>): feature sets, peer lists, UTXO metadata, message frames.
  \<^item> \<open>Jm_Models\<close> (\<open>jmcore/models.py\<close>): peers and envelopes.
  \<^item> \<open>Jm_Rate_Limiter\<close> (\<open>jmcore/rate_limiter.py\<close>): token buckets.
  \<^item> \<open>Dir_Registry\<close> (\<open>directory_server/peer_registry.py\<close>): the registry as a state machine, with the
    interface its clients rely on as the locale \<open>peer_directory\<close>, interpreted on the registry.
  \<^item> \<open>Dir_Handshake\<close> (\<open>handshake_handler.py\<close>), \<open>Dir_Router\<close> (\<open>message_router.py\<close>), \<open>Dir_Server\<close>
    (\<open>heartbeat.py\<close>, \<open>server.py\<close>): the handlers, on one record \<open>server\<close> that holds the registry, the
    router's offers and buckets, the heartbeat's pending pongs, the connection tables and the log of what
    was written to which connection.
  \<^item> \<open>Dir_Client\<close> (\<open>jmcore/directory_client.py\<close>): the caches of a directory client, what a PEERLIST message does to them and
    the loop that collects the answer to GETPEERLIST.
  \<^item> \<open>Dir_Delivery\<close>, \<open>Dir_Liveness\<close>, \<open>Dir_Peerlist\<close>: what the directory as a whole delivers, whom a
    heartbeat removes when writes fail or succeed, and that the client reads back the list the directory sends.

  \<^bold>\<open>How the code is rendered.\<close> A pydantic model or data class is a record, an enumeration a datatype, a
  Python integer an \<open>int\<close> (or a \<open>nat\<close> where the code cannot make a negative one), a byte an \<open>8 word\<close>,
  a dictionary an association list in insertion order. A function that can raise returns
  \<open>pyerr + 'a\<close>. A method that changes its object takes the record and returns it updated.

  \<^bold>\<open>Parameters.\<close> Third-party code (bech32, hashes, the curve library), the clock, random choices and
  the success of a write on a socket are arguments of the definitions; what the theorems need of them is
  a hypothesis. Rounding of floats in the rate limiter is a function on rationals, of which
  monotonicity, exactness on what the code represents exactly and the error bound of doubles are used; the bound on what a bucket grants
  carries the error of every operation. In the tumbler floats are rationals. Of the bech32 library the checksum function, the round trip for version 0 and the
  acceptance of checksums that verify are used, of the base58 library the round trip of 20-byte payloads.

  \<^bold>\<open>Fuel.\<close> A failed send removes a peer and tells the others, which may fail in turn: the recursion
  \<open>handle_send_failed\<close> is bounded by a depth, and with the number of registered peers as depth
  the result no longer depends on it. Every other loop is a total recursion with its measure.

  \<^bold>\<open>Concurrency.\<close> A handler runs from one suspension to the next; the sends that one
  \<open>asyncio.gather\<close> starts run in sequence, in the order of the list.

  \<^bold>\<open>Not modelled.\<close> Sockets, Tor control, RPC clients of Bitcoin Core, Neutrino and LND, the SQLite and
  CSV stores, the sessions of taker and maker over the network and the runner of the tumbler around them, notifications, configuration, the command lines, the web services and the generated gRPC
  stubs are I/O or generated. Key derivation, ECDSA, Schnorr, MuSig2 and NaCl are third-party curve code.
\<close>

end
